(* ===== verification/Rt_Prelude.thy ===== *)
theory Rt_Prelude
  imports Main "HOL-Library.Word" "HOL-Library.Product_Lexorder" "HOL-Library.Sublist"
begin

unbundle bit_operations_syntax

text \<open>
  What every component of the development shares: the machine integers of the C++ code, the
  errors its functions raise, out-of-range reads of a \<open>std::span\<close> as errors, the byte orders the
  frames use, and the generic facts on lists and words behind the component proofs (binary
  searches on sorted ranges, updates of an equal range, swap-removal, wrap-around distances).
\<close>

section \<open>Machine integers and errors\<close>

type_synonym u8 = "8 word"
type_synonym u16 = "16 word"
type_synonym u32 = "32 word"
type_synonym bytes = "u8 list"

text \<open>
  The exceptions the modelled functions throw. \<open>OutOfBounds\<close> is no exception of the code: it
  marks a read past the end of a \<open>std::span\<close>, which the language leaves undefined.
\<close>

datatype cxx_error = InvalidArgument | RuntimeError | OutOfBounds

type_synonym 'a result = "cxx_error + 'a"

definition try_bind :: "'e + 'a \<Rightarrow> ('a \<Rightarrow> 'e + 'b) \<Rightarrow> 'e + 'b" where
  "try_bind m f = (case m of Inl e \<Rightarrow> Inl e | Inr x \<Rightarrow> f x)"

lemma try_bind_simps [simp]:
  "try_bind (Inl e) f = Inl e"
  "try_bind (Inr x) f = f x"
  by (simp_all add: try_bind_def)

lemma try_bind_Inr_iff: "try_bind m f = Inr y \<longleftrightarrow> (\<exists>x. m = Inr x \<and> f x = Inr y)"
  by (cases m) simp_all

lemma try_bind_Inl_iff: "try_bind m f = Inl e \<longleftrightarrow> m = Inl e \<or> (\<exists>x. m = Inr x \<and> f x = Inl e)"
  by (cases m) simp_all

definition span_at :: "'a list \<Rightarrow> nat \<Rightarrow> 'a result" where
  "span_at xs i = (if i < length xs then Inr (xs ! i) else Inl OutOfBounds)"

lemma span_at_in [simp]: "i < length xs \<Longrightarrow> span_at xs i = Inr (xs ! i)"
  by (simp add: span_at_def)

lemma span_at_out [simp]: "length xs \<le> i \<Longrightarrow> span_at xs i = Inl OutOfBounds"
  by (simp add: span_at_def)

section \<open>Byte orders\<close>

definition u16_le :: "u16 \<Rightarrow> bytes" where
  "u16_le w = [ucast w, ucast (drop_bit 8 w)]"

definition u16_of_le :: "u8 \<Rightarrow> u8 \<Rightarrow> u16" where
  "u16_of_le b0 b1 = push_bit 8 (ucast b1) OR ucast b0"

definition u32_le :: "u32 \<Rightarrow> bytes" where
  "u32_le w = [ucast w, ucast (drop_bit 8 w), ucast (drop_bit 16 w), ucast (drop_bit 24 w)]"

definition u32_of_le :: "u8 \<Rightarrow> u8 \<Rightarrow> u8 \<Rightarrow> u8 \<Rightarrow> u32" where
  "u32_of_le b0 b1 b2 b3 =
     push_bit 24 (ucast b3) OR push_bit 16 (ucast b2) OR push_bit 8 (ucast b1) OR ucast b0"

definition u16_be :: "u16 \<Rightarrow> bytes" where
  "u16_be w = [ucast (drop_bit 8 w), ucast w]"

definition u16_of_be :: "u8 \<Rightarrow> u8 \<Rightarrow> u16" where
  "u16_of_be b0 b1 = push_bit 8 (ucast b0) OR ucast b1"

lemma length_byte_orders [simp]:
  "length (u16_le w) = 2" "length (u32_le v) = 4" "length (u16_be w) = 2"
  by (simp_all add: u16_le_def u32_le_def u16_be_def)

lemma u16_of_le_split:
  "u16_of_le (ucast w) (ucast (drop_bit 8 w)) = w"
  by (rule bit_word_eqI)
    (auto simp: u16_of_le_def bit_simps not_le)

lemma u16_of_be_split:
  "u16_of_be (ucast (drop_bit 8 w)) (ucast w) = w"
  using u16_of_le_split [of w] by (simp add: u16_of_be_def u16_of_le_def)

lemma u32_of_le_split:
  "u32_of_le (ucast w) (ucast (drop_bit 8 w)) (ucast (drop_bit 16 w)) (ucast (drop_bit 24 w)) = w"
proof (rule bit_word_eqI)
  fix n :: nat
  assume "n < LENGTH(32)"
  then consider "n < 8" | "8 \<le> n" "n < 16" | "16 \<le> n" "n < 24" | "24 \<le> n" "n < 32"
    by fastforce
  then show "bit (u32_of_le (ucast w) (ucast (drop_bit 8 w)) (ucast (drop_bit 16 w))
      (ucast (drop_bit 24 w))) n = bit w n"
    by cases (auto simp: u32_of_le_def bit_simps not_le)
qed

section \<open>Searching an array\<close>

text \<open>The index \<open>std::ranges::find_if\<close> stops at, if it finds an element.\<close>

definition find_index :: "('a \<Rightarrow> bool) \<Rightarrow> 'a list \<Rightarrow> nat option" where
  "find_index P xs = (let i = length (takeWhile (\<lambda>x. \<not> P x) xs) in if i < length xs then Some i else None)"

lemma find_index_Some: "find_index P xs = Some i \<Longrightarrow> i < length xs \<and> P (xs ! i)"
  by (auto simp: find_index_def Let_def split: if_splits)
    (metis (mono_tags, lifting) nth_length_takeWhile)

lemma find_index_None: "find_index P xs = None \<longleftrightarrow> (\<forall>x\<in>set xs. \<not> P x)"
proof -
  have "length (takeWhile (\<lambda>x. \<not> P x) xs) < length xs \<longleftrightarrow> (\<exists>x\<in>set xs. P x)" by (induction xs) auto
  then show ?thesis by (auto simp: find_index_def Let_def)
qed

lemma find_index_first:
  assumes "find_index P xs = Some i"
  shows "\<forall>j<i. \<not> P (xs ! j)"
proof (intro allI impI)
  fix j
  assume "j < i"
  moreover have i: "i = length (takeWhile (\<lambda>x. \<not> P x) xs)"
    using assms by (auto simp: find_index_def Let_def split: if_splits)
  ultimately have "takeWhile (\<lambda>x. \<not> P x) xs ! j = xs ! j" by (simp add: takeWhile_nth)
  moreover have "takeWhile (\<lambda>x. \<not> P x) xs ! j \<in> set (takeWhile (\<lambda>x. \<not> P x) xs)"
    using \<open>j < i\<close> i by (intro nth_mem) simp
  ultimately show "\<not> P (xs ! j)" by (metis set_takeWhileD)
qed

lemma find_index_find:
  "find_index P xs = Some i \<Longrightarrow> find P xs = Some (xs ! i)"
  using find_index_Some [of P xs i] find_index_first [of P xs i] by (auto simp: find_Some_iff)

section \<open>Sorted arrays with a fill count\<close>

text \<open>
  The services keep their records in arrays sorted by a key, with a fill count; the model keeps
  the filled prefix as a list. \<open>lower_bound\<close> and \<open>upper_bound\<close> are the indices the standard
  library's binary searches return on a range partitioned by the key, \<open>insert_at\<close> is
  \<open>std::move_backward\<close> followed by the assignment of the freed element, and \<open>update_range\<close> is a
  loop over the subspan between two indices.
\<close>

definition lower_bound :: "('a \<Rightarrow> 'k::linorder) \<Rightarrow> 'k \<Rightarrow> 'a list \<Rightarrow> nat" where
  "lower_bound key k xs = length (takeWhile (\<lambda>x. key x < k) xs)"

definition upper_bound :: "('a \<Rightarrow> 'k::linorder) \<Rightarrow> 'k \<Rightarrow> 'a list \<Rightarrow> nat" where
  "upper_bound key k xs = length (takeWhile (\<lambda>x. key x \<le> k) xs)"

definition insert_at :: "nat \<Rightarrow> 'a \<Rightarrow> 'a list \<Rightarrow> 'a list" where
  "insert_at i x xs = take i xs @ x # drop i xs"

definition subspan :: "nat \<Rightarrow> nat \<Rightarrow> 'a list \<Rightarrow> 'a list" where
  "subspan lo hi xs = take (hi - lo) (drop lo xs)"

definition update_range :: "nat \<Rightarrow> nat \<Rightarrow> ('a \<Rightarrow> 'a) \<Rightarrow> 'a list \<Rightarrow> 'a list" where
  "update_range lo hi f xs = take lo xs @ map f (subspan lo hi xs) @ drop hi xs"

abbreviation sorted_by :: "('a \<Rightarrow> 'k::linorder) \<Rightarrow> 'a list \<Rightarrow> bool" where
  "sorted_by key xs \<equiv> sorted_wrt (<) (map key xs)"

abbreviation weakly_sorted_by :: "('a \<Rightarrow> 'k::linorder) \<Rightarrow> 'a list \<Rightarrow> bool" where
  "weakly_sorted_by key xs \<equiv> sorted_wrt (\<le>) (map key xs)"

definition lookup_by :: "('a \<Rightarrow> 'k) \<Rightarrow> 'k \<Rightarrow> 'a list \<Rightarrow> 'a option" where
  "lookup_by key k xs = find (\<lambda>x. key x = k) xs"

lemma length_insert_at [simp]: "length (insert_at i x xs) = Suc (length xs)"
  by (simp add: insert_at_def)

lemma set_insert_at [simp]: "set (insert_at i x xs) = insert x (set xs)"
proof -
  have "set (take i xs) \<union> set (drop i xs) = set xs"
    by (metis append_take_drop_id set_append)
  then show ?thesis by (auto simp: insert_at_def)
qed

lemma insert_at_0 [simp]: "insert_at 0 x xs = x # xs"
  by (simp add: insert_at_def)

lemma insert_at_Suc [simp]: "insert_at (Suc i) x (y # ys) = y # insert_at i x ys"
  by (simp add: insert_at_def)

lemma length_update_range [simp]: "lo \<le> hi \<Longrightarrow> length (update_range lo hi f xs) = length xs"
  by (auto simp: update_range_def subspan_def)

lemma lower_bound_le_length [simp]: "lower_bound key k xs \<le> length xs"
  by (simp add: lower_bound_def length_takeWhile_le)

lemma upper_bound_le_length [simp]: "upper_bound key k xs \<le> length xs"
  by (simp add: upper_bound_def length_takeWhile_le)

lemma lower_bound_Nil [simp]: "lower_bound key k [] = 0"
  by (simp add: lower_bound_def)

lemma lower_bound_Cons [simp]:
  "lower_bound key k (x # xs) = (if key x < k then Suc (lower_bound key k xs) else 0)"
  by (simp add: lower_bound_def)

lemma lookup_by_Nil [simp]: "lookup_by key k [] = None"
  by (simp add: lookup_by_def)

lemma lookup_by_Cons [simp]:
  "lookup_by key k (x # xs) = (if key x = k then Some x else lookup_by key k xs)"
  by (simp add: lookup_by_def)

lemma lookup_by_None_iff: "lookup_by key k xs = None \<longleftrightarrow> k \<notin> key ` set xs"
  by (induction xs) auto

lemma lookup_by_SomeD: "lookup_by key k xs = Some x \<Longrightarrow> x \<in> set xs \<and> key x = k"
  by (induction xs) (auto split: if_splits)

text \<open>
  The contract of a table sorted by a key, for the clients that only look records up by key:
  where the binary search lands, what an insertion, an overwrite and a removal change.
\<close>

locale sorted_table =
  fixes key :: "'a \<Rightarrow> 'k::linorder"
begin

lemma head_smallest: "sorted_by key (x # xs) \<Longrightarrow> y \<in> set xs \<Longrightarrow> key x < key y"
  by simp

lemma keys_distinct: "sorted_by key xs \<Longrightarrow> distinct (map key xs)"
  using strict_sorted_iff by blast

lemma search_found:
  "sorted_by key xs \<Longrightarrow>
   (lower_bound key k xs < length xs \<and> key (xs ! lower_bound key k xs) = k) \<longleftrightarrow> k \<in> key ` set xs"
  by (induction xs) (auto simp: image_iff)

lemma search_lookup:
  "sorted_by key xs \<Longrightarrow> lower_bound key k xs < length xs \<Longrightarrow>
   key (xs ! lower_bound key k xs) = k \<Longrightarrow> lookup_by key k xs = Some (xs ! lower_bound key k xs)"
  by (induction xs) (auto split: if_splits)

lemma lookup_unique:
  "sorted_by key xs \<Longrightarrow> x \<in> set xs \<Longrightarrow> key x = k \<Longrightarrow> lookup_by key k xs = Some x"
  by (induction xs) auto

lemma lookup_iff: "sorted_by key xs \<Longrightarrow> lookup_by key k xs = Some x \<longleftrightarrow> x \<in> set xs \<and> key x = k"
  by (auto dest: lookup_by_SomeD intro: lookup_unique)

lemma insert_sorted:
  "sorted_by key xs \<Longrightarrow> key x \<notin> key ` set xs \<Longrightarrow>
   sorted_by key (insert_at (lower_bound key (key x) xs) x xs)"
proof (induction xs)
  case Nil
  then show ?case by (simp add: insert_at_def)
next
  case (Cons y ys)
  show ?case
  proof (cases "key y < key x")
    case True
    have "sorted_by key (insert_at (lower_bound key (key x) ys) x ys)"
      using Cons by simp
    with True Cons.prems(1) show ?thesis by auto
  next
    case False
    with Cons.prems show ?thesis by (auto simp: insert_at_def)
  qed
qed

lemma insert_lookup:
  assumes "sorted_by key xs" and "key x \<notin> key ` set xs"
  shows "lookup_by key k (insert_at (lower_bound key (key x) xs) x xs) =
     (if k = key x then Some x else lookup_by key k xs)"
proof -
  let ?ys = "insert_at (lower_bound key (key x) xs) x xs"
  have srt: "sorted_by key ?ys" using assms by (rule insert_sorted)
  show ?thesis
  proof (cases "k \<in> key ` set ?ys")
    case True
    then obtain y where y: "y \<in> set ?ys" "key y = k" by blast
    then have "lookup_by key k ?ys = Some y" using srt by (blast intro: lookup_unique)
    moreover have "y = x \<or> k \<noteq> key x \<and> lookup_by key k xs = Some y"
    proof (cases "y = x")
      case False
      with y have "y \<in> set xs" by simp
      with y assms show ?thesis by (metis image_eqI lookup_unique)
    qed simp
    ultimately show ?thesis using y by auto
  next
    case False
    then have "lookup_by key k ?ys = None" "lookup_by key k xs = None" "k \<noteq> key x"
      by (auto simp: lookup_by_None_iff)
    then show ?thesis by simp
  qed
qed

lemma overwrite_sorted:
  "sorted_by key xs \<Longrightarrow> i < length xs \<Longrightarrow> key x = key (xs ! i) \<Longrightarrow> sorted_by key (xs[i := x])"
  by (metis list_update_id map_update)

lemma overwrite_lookup:
  assumes "sorted_by key xs" and "i < length xs" and "key x = key (xs ! i)"
  shows "lookup_by key k (xs[i := x]) = (if k = key x then Some x else lookup_by key k xs)"
  using assms
proof (induction xs arbitrary: i)
  case Nil
  then show ?case by simp
next
  case (Cons y ys)
  show ?case
  proof (cases i)
    case 0
    with Cons.prems show ?thesis by auto
  next
    case (Suc j)
    then have "key y < key x" using Cons.prems by auto
    then show ?thesis using Cons Suc by auto
  qed
qed

lemma filter_sorted: "sorted_by key xs \<Longrightarrow> sorted_by key (filter P xs)"
  by (induction xs) auto

lemma filter_lookup:
  "sorted_by key xs \<Longrightarrow> lookup_by key k (filter P xs) =
     (case lookup_by key k xs of None \<Rightarrow> None | Some x \<Rightarrow> if P x then Some x else None)"
proof (induction xs)
  case Nil
  then show ?case by simp
next
  case (Cons y ys)
  have "key y = k \<Longrightarrow> lookup_by key k (filter P ys) = None"
    using Cons.prems by (force simp: lookup_by_None_iff)
  then show ?case using Cons by auto
qed

lemma map_lookup:
  "(\<And>x. key (f x) = key x) \<Longrightarrow> lookup_by key k (map f xs) = map_option f (lookup_by key k xs)"
  by (induction xs) auto

lemma map_sorted: "(\<And>x. key (f x) = key x) \<Longrightarrow> sorted_by key xs \<Longrightarrow> sorted_by key (map f xs)"
  by (simp add: comp_def)

end

text \<open>
  On a range sorted by a key that may repeat, the binary searches cut the range into the elements
  below, at and above the searched key.
\<close>

lemma takeWhile_less_sorted:
  "weakly_sorted_by key xs \<Longrightarrow> takeWhile (\<lambda>x. key x < k) xs = filter (\<lambda>x. key x < k) xs"
  by (induction xs) (force intro!: filter_False [symmetric])+

lemma takeWhile_le_sorted:
  "weakly_sorted_by key xs \<Longrightarrow> takeWhile (\<lambda>x. key x \<le> k) xs = filter (\<lambda>x. key x \<le> k) xs"
  by (induction xs) (force intro!: filter_False [symmetric])+

lemma weakly_sorted_partition:
  "weakly_sorted_by key xs \<Longrightarrow>
   xs = filter (\<lambda>x. key x < k) xs @ filter (\<lambda>x. key x = k) xs @ filter (\<lambda>x. k < key x) xs"
proof (induction xs)
  case Nil
  then show ?case by simp
next
  case (Cons y ys)
  then have IH: "ys = filter (\<lambda>x. key x < k) ys @ filter (\<lambda>x. key x = k) ys @ filter (\<lambda>x. k < key x) ys"
    and y: "\<And>x. x \<in> set ys \<Longrightarrow> key y \<le> key x" by auto
  have none_below: "k \<le> key y \<Longrightarrow> filter (\<lambda>x. key x < k) ys = []"
    and none_at: "k < key y \<Longrightarrow> filter (\<lambda>x. key x = k) ys = []"
    using y by (force simp: filter_empty_conv)+
  show ?case
    using IH none_below none_at by (cases "key y" k rule: linorder_cases) auto
qed

lemma length_le_split:
  fixes key :: "'a \<Rightarrow> 'k::linorder"
  shows "length (filter (\<lambda>x. key x \<le> k) xs) =
     length (filter (\<lambda>x. key x < k) xs) + length (filter (\<lambda>x. key x = k) xs)"
  by (induction xs) (auto simp: order.order_iff_strict)

lemma equal_range_split:
  assumes srt: "weakly_sorted_by key xs"
  shows "take (lower_bound key k xs) xs = filter (\<lambda>x. key x < k) xs"
    and "subspan (lower_bound key k xs) (upper_bound key k xs) xs = filter (\<lambda>x. key x = k) xs"
    and "drop (upper_bound key k xs) xs = filter (\<lambda>x. k < key x) xs"
    and "lower_bound key k xs \<le> upper_bound key k xs"
proof -
  let ?l = "filter (\<lambda>x. key x < k) xs" and ?e = "filter (\<lambda>x. key x = k) xs"
    and ?g = "filter (\<lambda>x. k < key x) xs"
  have xs: "xs = ?l @ ?e @ ?g" using srt by (rule weakly_sorted_partition)
  have lb: "lower_bound key k xs = length ?l"
    using srt by (simp add: lower_bound_def takeWhile_less_sorted)
  have ub: "upper_bound key k xs = length ?l + length ?e"
    using srt by (simp add: upper_bound_def takeWhile_le_sorted length_le_split)
  show "take (lower_bound key k xs) xs = ?l"
    by (subst (2) xs) (simp add: lb)
  show "subspan (lower_bound key k xs) (upper_bound key k xs) xs = ?e"
    unfolding subspan_def by (subst (3) xs) (simp add: lb ub)
  show "drop (upper_bound key k xs) xs = ?g"
    by (subst (2) xs) (simp add: ub)
  show "lower_bound key k xs \<le> upper_bound key k xs" by (simp add: lb ub)
qed

text \<open>A loop over the equal range of a key changes exactly the elements with that key.\<close>

lemma update_equal_range:
  assumes "weakly_sorted_by key xs"
  shows "update_range (lower_bound key k xs) (upper_bound key k xs) f xs =
     map (\<lambda>x. if key x = k then f x else x) xs"
proof -
  let ?h = "\<lambda>x. if key x = k then f x else x"
  have "map ?h xs = map ?h (filter (\<lambda>x. key x < k) xs @ filter (\<lambda>x. key x = k) xs
      @ filter (\<lambda>x. k < key x) xs)"
    using weakly_sorted_partition [OF assms, of k] by simp
  also have "\<dots> = filter (\<lambda>x. key x < k) xs @ map f (filter (\<lambda>x. key x = k) xs)
      @ filter (\<lambda>x. k < key x) xs"
    by (auto intro!: map_idI)
  finally show ?thesis
    by (simp add: update_range_def equal_range_split [OF assms])
qed

section \<open>Reachable states\<close>

text \<open>
  A component is run by an environment that calls its handlers in any order: its states are
  those a sequence of steps reaches, and an invariant is shown once for all of them.
\<close>

inductive reachable :: "('s \<Rightarrow> bool) \<Rightarrow> ('s \<Rightarrow> 's \<Rightarrow> bool) \<Rightarrow> 's \<Rightarrow> bool"
  for init :: "'s \<Rightarrow> bool" and step :: "'s \<Rightarrow> 's \<Rightarrow> bool" where
  start: "init s \<Longrightarrow> reachable init step s"
| move: "reachable init step s \<Longrightarrow> step s t \<Longrightarrow> reachable init step t"

locale invariant_of =
  fixes init :: "'s \<Rightarrow> bool"
    and step :: "'s \<Rightarrow> 's \<Rightarrow> bool"
    and inv :: "'s \<Rightarrow> bool"
  assumes init_inv: "init s \<Longrightarrow> inv s"
    and step_inv: "inv s \<Longrightarrow> step s t \<Longrightarrow> inv t"
begin

lemma reachable_inv: "reachable init step s \<Longrightarrow> inv s"
  by (induction rule: reachable.induct) (auto intro: init_inv step_inv)

end

section \<open>Distances on a wrapping counter\<close>

lemma u8_unat_less: "unat (w :: u8) < 256"
  using unsigned_less [of w] by simp

lemma u8_eq_iff_unat: "(v :: u8) = w \<longleftrightarrow> unat v = unat w"
  by (simp add: word_unat_eq_iff)

text \<open>\<open>unat (c - v)\<close> is how far an 8-bit counter \<open>c\<close> is ahead of a version \<open>v\<close> it passed.\<close>

lemma unat_diff_Suc:
  fixes c v :: u8
  assumes "unat (c - v) < 255"
  shows "unat (c + 1 - v) = Suc (unat (c - v))"
proof -
  have "c + 1 - v = (c - v) + 1" by simp
  moreover have "unat ((c - v) + 1) = unat (c - v) + 1"
    using assms by (subst unat_add_lem [THEN iffD1]) auto
  ultimately show ?thesis by (metis Suc_eq_plus1)
qed

lemma unat_diff_add:
  fixes c v :: u8
  assumes "unat (c - v) + k < 256"
  shows "unat (c + of_nat k - v) = unat (c - v) + k"
  using assms
proof (induction k)
  case 0
  then show ?case by simp
next
  case (Suc k)
  then have "unat (c + of_nat k - v) = unat (c - v) + k" by simp
  with Suc.prems have "unat (c + of_nat k - v) < 255" by simp
  then have "unat (c + of_nat k + 1 - v) = Suc (unat (c + of_nat k - v))" by (rule unat_diff_Suc)
  with \<open>unat (c + of_nat k - v) = unat (c - v) + k\<close> show ?case by (simp add: algebra_simps)
qed

lemma unat_diff_add_le:
  fixes c v :: u8
  assumes "unat (c - v) \<le> b" and "b + k < 256"
  shows "unat (c + of_nat k - v) = unat (c - v) + k" and "unat (c + of_nat k - v) \<le> b + k"
proof -
  have "unat (c - v) + k < 256" by (rule le_less_trans [OF add_right_mono [OF assms(1)] assms(2)])
  then show eq: "unat (c + of_nat k - v) = unat (c - v) + k" by (rule unat_diff_add)
  show "unat (c + of_nat k - v) \<le> b + k"
    unfolding eq by (rule add_right_mono [OF assms(1)])
qed

end
