(* ===== verification/Canbus_Ids.thy ===== *)
theory Canbus_Ids
  imports Rt_Prelude
begin

text \<open>
  CAN identifiers and receive filters (\<open>src/subsys/canbus/can_id.h\<close>, \<open>can_filter.h\<close>), and the
  two identifier layouts built on them: the CDMP block of 11-bit identifiers
  (\<open>src/subsys/cdmp/utilities/cdmp_can_id_manager.h\<close>) and the 29-bit SMP-over-CAN identifiers
  (\<open>src/subsys/smp/can/smp_can_id_layout.h\<close>). The lemmas say which identifiers a filter accepts,
  when two filters overlap, and that the SMP layout packs and unpacks its addresses.
\<close>

unbundle bit_operations_syntax

section \<open>Identifiers and filters\<close>

text \<open>The identifier widths of Zephyr's CAN driver header.\<close>

definition CAN_STD_ID_MASK :: u32 where
  "CAN_STD_ID_MASK = 0x7FF"

definition CAN_EXT_ID_MASK :: u32 where
  "CAN_EXT_ID_MASK = 0x1FFFFFFF"

record CanId =
  can_id :: u32
  is_extended :: bool

definition Standard :: "u32 \<Rightarrow> CanId" where
  "Standard i = \<lparr>can_id = i, is_extended = False\<rparr>"

definition Extended :: "u32 \<Rightarrow> CanId" where
  "Extended i = \<lparr>can_id = i, is_extended = True\<rparr>"

definition WidthMask :: "bool \<Rightarrow> u32" where
  "WidthMask ext = (if ext then CAN_EXT_ID_MASK else CAN_STD_ID_MASK)"

definition CanId_IsValid :: "CanId \<Rightarrow> bool" where
  "CanId_IsValid c \<longleftrightarrow> can_id c AND NOT (WidthMask (is_extended c)) = 0"

definition Key :: "CanId \<Rightarrow> u32" where
  "Key c = can_id c OR (if is_extended c then 0x80000000 else 0)"

record CanFilter =
  cf_id :: u32
  cf_mask :: u32
  cf_is_extended :: bool

definition CanFilter_exact :: "CanId \<Rightarrow> CanFilter" where
  "CanFilter_exact c =
     \<lparr>cf_id = can_id c, cf_mask = WidthMask (is_extended c), cf_is_extended = is_extended c\<rparr>"

definition Masked :: "CanId \<Rightarrow> u32 \<Rightarrow> CanFilter" where
  "Masked c m = \<lparr>cf_id = can_id c, cf_mask = m, cf_is_extended = is_extended c\<rparr>"

definition CanFilter_IsValid :: "CanFilter \<Rightarrow> bool" where
  "CanFilter_IsValid f \<longleftrightarrow>
     cf_id f AND NOT (WidthMask (cf_is_extended f)) = 0 \<and>
     cf_mask f AND NOT (WidthMask (cf_is_extended f)) = 0"

definition IsExact :: "CanFilter \<Rightarrow> bool" where
  "IsExact f \<longleftrightarrow> cf_mask f = WidthMask (cf_is_extended f)"

definition Normalized :: "CanFilter \<Rightarrow> CanFilter" where
  "Normalized f =
     \<lparr>cf_id = cf_id f AND cf_mask f, cf_mask = cf_mask f, cf_is_extended = cf_is_extended f\<rparr>"

definition Matches :: "CanFilter \<Rightarrow> CanId \<Rightarrow> bool" where
  "Matches f c \<longleftrightarrow> is_extended c = cf_is_extended f \<and> (can_id c XOR cf_id f) AND cf_mask f = 0"

definition Overlaps :: "CanFilter \<Rightarrow> CanFilter \<Rightarrow> bool" where
  "Overlaps f g \<longleftrightarrow>
     cf_is_extended g = cf_is_extended f \<and> (cf_id g XOR cf_id f) AND cf_mask f AND cf_mask g = 0"

section \<open>The CDMP identifier block\<close>

definition DEFAULT_BASE_CAN_ID :: u32 where "DEFAULT_BASE_CAN_ID = 0x700"
definition MANAGEMENT_OFFSET :: u32 where "MANAGEMENT_OFFSET = 0"
definition HEARTBEAT_OFFSET :: u32 where "HEARTBEAT_OFFSET = 1"
definition COMMAND_OFFSET :: u32 where "COMMAND_OFFSET = 2"
definition COMMAND_RESPONSE_OFFSET :: u32 where "COMMAND_RESPONSE_OFFSET = 3"
definition STATE_CHANGE_OFFSET :: u32 where "STATE_CHANGE_OFFSET = 4"
definition STATE_CHANGE_RESPONSE_OFFSET :: u32 where "STATE_CHANGE_RESPONSE_OFFSET = 5"
definition CAPABILITY_OFFSET_START :: u32 where "CAPABILITY_OFFSET_START = 20"
definition CAPABILITY_OFFSET_END :: u32 where "CAPABILITY_OFFSET_END = 51"
definition APPLICATION_OFFSET_END :: u32 where "APPLICATION_OFFSET_END = 99"
definition RECEIVE_BLOCK_SIZE :: u32 where "RECEIVE_BLOCK_SIZE = 8"

definition IsValidBaseCanId :: "u32 \<Rightarrow> bool" where
  "IsValidBaseCanId base \<longleftrightarrow> base \<le> CAN_STD_ID_MASK - APPLICATION_OFFSET_END"

text \<open>
  The manager's only state is its base. \<open>SetBaseCanId\<close> returns the new base, or the exception
  that leaves the old one in place; the constructor goes through it.
\<close>

definition SetBaseCanId :: "u32 \<Rightarrow> u32 result" where
  "SetBaseCanId base = (if \<not> IsValidBaseCanId base then Inl InvalidArgument else Inr base)"

definition GetManagementCanId :: "u32 \<Rightarrow> CanId" where
  "GetManagementCanId base = Standard (base + MANAGEMENT_OFFSET)"

definition GetHeartbeatCanId :: "u32 \<Rightarrow> CanId" where
  "GetHeartbeatCanId base = Standard (base + HEARTBEAT_OFFSET)"

definition GetCommandRequestCanId :: "u32 \<Rightarrow> CanId" where
  "GetCommandRequestCanId base = Standard (base + COMMAND_OFFSET)"

definition GetCommandResponseCanId :: "u32 \<Rightarrow> CanId" where
  "GetCommandResponseCanId base = Standard (base + COMMAND_RESPONSE_OFFSET)"

definition GetStateChangeRequestCanId :: "u32 \<Rightarrow> CanId" where
  "GetStateChangeRequestCanId base = Standard (base + STATE_CHANGE_OFFSET)"

definition GetStateChangeResponseCanId :: "u32 \<Rightarrow> CanId" where
  "GetStateChangeResponseCanId base = Standard (base + STATE_CHANGE_RESPONSE_OFFSET)"

definition GetCapabilityCanId :: "u32 \<Rightarrow> u8 \<Rightarrow> CanId result" where
  "GetCapabilityCanId base bit_no =
     (if ucast bit_no > CAPABILITY_OFFSET_END - CAPABILITY_OFFSET_START then Inl InvalidArgument
      else Inr (Standard (base + CAPABILITY_OFFSET_START + ucast bit_no)))"

definition GetReceiveFilter :: "u32 \<Rightarrow> CanId \<Rightarrow> CanFilter" where
  "GetReceiveFilter base c =
     (if base mod RECEIVE_BLOCK_SIZE \<noteq> 0 then CanFilter_exact c
      else Masked (Standard base) (CAN_STD_ID_MASK AND NOT (RECEIVE_BLOCK_SIZE - 1)))"

definition receive_ids :: "u32 \<Rightarrow> CanId list" where
  "receive_ids base =
     [GetManagementCanId base, GetHeartbeatCanId base, GetCommandRequestCanId base,
      GetCommandResponseCanId base, GetStateChangeRequestCanId base,
      GetStateChangeResponseCanId base]"

lemmas cdmp_offsets = MANAGEMENT_OFFSET_def HEARTBEAT_OFFSET_def COMMAND_OFFSET_def
  COMMAND_RESPONSE_OFFSET_def STATE_CHANGE_OFFSET_def STATE_CHANGE_RESPONSE_OFFSET_def
  CAPABILITY_OFFSET_START_def CAPABILITY_OFFSET_END_def APPLICATION_OFFSET_END_def
  RECEIVE_BLOCK_SIZE_def

lemmas cdmp_can_ids = GetManagementCanId_def GetHeartbeatCanId_def GetCommandRequestCanId_def
  GetCommandResponseCanId_def GetStateChangeRequestCanId_def GetStateChangeResponseCanId_def

section \<open>The SMP-over-CAN identifier layout\<close>

definition SMP_DEFAULT_BASE :: u32 where "SMP_DEFAULT_BASE = 0x1FF00000"
definition ID_MASK :: u32 where "ID_MASK = 0x1FFFFFFF"
definition ADDRESS_MASK :: u32 where "ADDRESS_MASK = 0x0000FFFF"
definition TARGET_FILTER_MASK :: u32 where "TARGET_FILTER_MASK = ID_MASK AND NOT 0xFF"

definition IsValidBase :: "u32 \<Rightarrow> bool" where
  "IsValidBase base \<longleftrightarrow> base AND NOT ID_MASK = 0 \<and> base AND ADDRESS_MASK = 0"

definition IsValidAddress :: "u8 \<Rightarrow> bool" where
  "IsValidAddress a \<longleftrightarrow> a \<noteq> 0 \<and> a \<noteq> 0xFF"

definition SmpCanIdLayout_new :: "u32 \<Rightarrow> u32 result" where
  "SmpCanIdLayout_new base = (if \<not> IsValidBase base then Inl InvalidArgument else Inr base)"

definition MakeId :: "u32 \<Rightarrow> u8 \<Rightarrow> u8 \<Rightarrow> u32" where
  "MakeId base target source = base OR push_bit 8 (ucast target) OR ucast source"

definition GetTargetFilterId :: "u32 \<Rightarrow> u8 \<Rightarrow> u32" where
  "GetTargetFilterId base target = MakeId base target 0"

definition Contains :: "u32 \<Rightarrow> u32 \<Rightarrow> bool" where
  "Contains base i \<longleftrightarrow> i AND ID_MASK AND NOT ADDRESS_MASK = base \<and> i AND NOT ID_MASK = 0"

definition GetTarget :: "u32 \<Rightarrow> u8" where
  "GetTarget i = ucast (drop_bit 8 i)"

definition GetSource :: "u32 \<Rightarrow> u8" where
  "GetSource i = ucast i"

section \<open>What the filters accept\<close>

text \<open>An exact filter accepts its identifier and, among the valid ones, no other.\<close>

lemma width_mask_cover:
  "c AND NOT m = 0 \<Longrightarrow> d AND NOT m = 0 \<Longrightarrow> (c XOR d) AND m = 0 \<Longrightarrow> c = d" for c d m :: u32
  by (rule bit_word_eqI) (auto simp: bit_simps bit_eq_iff)

lemma exact_filter_matches:
  assumes "CanId_IsValid c" and "CanId_IsValid d"
  shows "Matches (CanFilter_exact c) d \<longleftrightarrow> d = c"
proof
  assume "Matches (CanFilter_exact c) d"
  then have ext: "is_extended d = is_extended c"
    and eq: "(can_id d XOR can_id c) AND WidthMask (is_extended c) = 0"
    by (auto simp: Matches_def CanFilter_exact_def)
  have "can_id d = can_id c"
    using assms ext eq by (auto simp: CanId_IsValid_def intro: width_mask_cover)
  with ext show "d = c" by simp
qed (simp add: Matches_def CanFilter_exact_def)

lemma overlap_common_id:
  fixes a b m n :: u32
  assumes "(b XOR a) AND m AND n = 0"
  shows "\<exists>x. (x XOR a) AND m = 0 \<and> (x XOR b) AND n = 0"
proof (intro exI conjI)
  let ?x = "(a AND m) OR (b AND n)"
  show "(?x XOR a) AND m = 0" "(?x XOR b) AND n = 0"
    using assms by (auto intro!: bit_word_eqI simp: bit_simps bit_eq_iff)
qed

lemma overlaps_common:
  assumes c: "Matches f c" "Matches g c"
  shows "Overlaps f g"
proof -
  have "(cf_id g XOR cf_id f) AND cf_mask f AND cf_mask g = 0"
  proof (rule bit_word_eqI)
    fix n
    have "bit ((can_id c XOR cf_id f) AND cf_mask f) n = False"
      "bit ((can_id c XOR cf_id g) AND cf_mask g) n = False"
      using c by (simp_all add: Matches_def)
    then show "bit ((cf_id g XOR cf_id f) AND cf_mask f AND cf_mask g) n = bit 0 n"
      by (auto simp: bit_simps)
  qed
  then show ?thesis using c by (simp add: Overlaps_def Matches_def)
qed

text \<open>
  The overlap test of two receive filters is exact: it holds just when some identifier passes
  both filters.
\<close>

theorem overlaps_iff_common_id: "Overlaps f g \<longleftrightarrow> (\<exists>c. Matches f c \<and> Matches g c)"
proof
  assume o: "Overlaps f g"
  then obtain x where "(x XOR cf_id f) AND cf_mask f = 0" "(x XOR cf_id g) AND cf_mask g = 0"
    using overlap_common_id [of "cf_id g" "cf_id f" "cf_mask f" "cf_mask g"]
    by (auto simp: Overlaps_def)
  then have "Matches f \<lparr>can_id = x, is_extended = cf_is_extended f\<rparr> \<and>
      Matches g \<lparr>can_id = x, is_extended = cf_is_extended f\<rparr>"
    using o by (simp add: Matches_def Overlaps_def)
  then show "\<exists>c. Matches f c \<and> Matches g c" by blast
next
  assume "\<exists>c. Matches f c \<and> Matches g c"
  then show "Overlaps f g" using overlaps_common by blast
qed

lemma block_mask_bits: "bit (0x7F8 :: u32) n \<longleftrightarrow> 3 \<le> n \<and> n < 11"
proof -
  have "(0x7F8 :: u32) = push_bit 3 (mask 8)"
    by (simp add: mask_eq_exp_minus_1 push_bit_eq_mult)
  moreover have "bit (push_bit 3 (mask 8) :: u32) n \<longleftrightarrow> 3 \<le> n \<and> n < 11"
    by (auto simp: bit_push_bit_iff bit_mask_iff)
  ultimately show ?thesis by metis
qed

lemma small_word_bits: "i \<le> 0x7FF \<Longrightarrow> bit i n \<Longrightarrow> n < 11" for i :: u32
proof (rule ccontr)
  assume i: "i \<le> 0x7FF" and b: "bit i n" and n: "\<not> n < 11"
  have "unat (drop_bit 11 i) = unat i div 2048"
    by (simp add: drop_bit_eq_div unat_div)
  also have "\<dots> = 0" using i by (simp add: word_le_nat_alt)
  finally have "\<not> bit (drop_bit 11 i) (n - 11)" by (simp add: unat_eq_zero)
  then show False using n b by (simp add: bit_simps)
qed

lemma block_match_div:
  fixes i base :: u32
  assumes "i \<le> 0x7FF" and "base \<le> 0x7FF"
  shows "(i XOR base) AND 0x7F8 = 0 \<longleftrightarrow> i div 8 = base div 8"
proof -
  have "(i XOR base) AND 0x7F8 = 0 \<longleftrightarrow> (\<forall>n. 3 \<le> n \<longrightarrow> bit i n = bit base n)"
  proof
    assume "(i XOR base) AND 0x7F8 = 0"
    then have "bit ((i XOR base) AND 0x7F8) n = False" for n by simp
    then have eq: "\<not> (bit i n \<noteq> bit base n \<and> 3 \<le> n \<and> n < 11)" for n
      by (simp only: bit_and_iff bit_xor_iff block_mask_bits) blast
    show "\<forall>n. 3 \<le> n \<longrightarrow> bit i n = bit base n"
    proof (intro allI impI)
      fix n :: nat
      assume "3 \<le> n"
      then show "bit i n = bit base n"
        using eq [of n] small_word_bits [OF assms(1), of n] small_word_bits [OF assms(2), of n]
        by blast
    qed
  next
    assume "\<forall>n. 3 \<le> n \<longrightarrow> bit i n = bit base n"
    then have "bit ((i XOR base) AND 0x7F8) n = bit 0 n" for n
      by (simp only: bit_and_iff bit_xor_iff block_mask_bits bit_0_eq) auto
    then show "(i XOR base) AND 0x7F8 = 0" by (blast intro: bit_word_eqI)
  qed
  also have "\<dots> \<longleftrightarrow> drop_bit 3 i = drop_bit 3 base"
  proof
    assume eq: "\<forall>n. 3 \<le> n \<longrightarrow> bit i n = bit base n"
    show "drop_bit 3 i = drop_bit 3 base"
      by (rule bit_word_eqI) (simp add: bit_drop_bit_eq eq)
  next
    assume "drop_bit 3 i = drop_bit 3 base"
    then have "bit (drop_bit 3 i) m = bit (drop_bit 3 base) m" for m by simp
    then have "bit i (3 + m) = bit base (3 + m)" for m by (simp add: bit_drop_bit_eq)
    then show "\<forall>n. 3 \<le> n \<longrightarrow> bit i n = bit base n" by (metis le_iff_add)
  qed
  finally show ?thesis by (simp add: drop_bit_eq_div)
qed

lemma nat_block_iff: "b mod 8 = 0 \<Longrightarrow> i div 8 = b div 8 \<longleftrightarrow> b \<le> i \<and> i \<le> b + 7" for b i :: nat
proof -
  assume "b mod 8 = 0"
  then have "b = 8 * (b div 8)" using mult_div_mod_eq [of 8 b] by simp
  moreover have "i = 8 * (i div 8) + i mod 8" "i mod 8 < 8" by simp_all
  ultimately show ?thesis by linarith
qed

lemma same_block_iff:
  fixes i base :: u32
  assumes "base mod 8 = 0" and "base \<le> 0x7FF"
  shows "i div 8 = base div 8 \<longleftrightarrow> base \<le> i \<and> i \<le> base + 7"
proof -
  have b7: "unat (base + 7) = unat base + 7"
    using assms(2) by (simp add: word_le_nat_alt unat_word_ariths)
  have "unat base mod 8 = unat (base mod 8)" by (simp add: unat_mod)
  then have "unat base mod 8 = 0" using assms(1) by simp
  then have "unat i div 8 = unat base div 8 \<longleftrightarrow> unat base \<le> unat i \<and> unat i \<le> unat base + 7"
    by (rule nat_block_iff)
  then show ?thesis by (simp add: word_le_nat_alt b7 word_unat_eq_iff unat_div)
qed

lemma receive_block:
  assumes "IsValidBaseCanId base" and "base mod RECEIVE_BLOCK_SIZE = 0"
  shows "(\<forall>i \<le> CAN_STD_ID_MASK. Matches (GetReceiveFilter base c) (Standard i) \<longleftrightarrow>
      base \<le> i \<and> i \<le> base + (RECEIVE_BLOCK_SIZE - 1)) \<and>
      list_all (Matches (GetReceiveFilter base c)) (receive_ids base)"
proof -
  have base: "base \<le> 0x79C" and b8: "base mod 8 = 0"
    using assms by (simp_all add: IsValidBaseCanId_def CAN_STD_ID_MASK_def cdmp_offsets)
  then have base': "base \<le> 0x7FF" by (simp add: word_le_nat_alt)
  have mask: "(0x7FF AND NOT 7 :: u32) = 0x7F8" by simp
  have block: "Matches (GetReceiveFilter base c) (Standard j) \<longleftrightarrow> base \<le> j \<and> j \<le> base + 7"
    if "j \<le> 0x7FF" for j
    using b8 block_match_div [OF that base'] same_block_iff [OF b8 base', of j]
    by (simp add: GetReceiveFilter_def Matches_def Masked_def Standard_def CAN_STD_ID_MASK_def
        cdmp_offsets mask)
  have inside: "Matches (GetReceiveFilter base c) (Standard (base + k))" if "k \<le> 5" for k
  proof -
    have "unat (base + k) = unat base + unat k" "unat (base + 7) = unat base + 7"
      using base that by (simp_all add: word_le_nat_alt unat_word_ariths)
    then show ?thesis using block [of "base + k"] base that by (simp add: word_le_nat_alt)
  qed
  show ?thesis
    using block inside [of 0] inside [of 1] inside [of 2] inside [of 3] inside [of 4] inside [of 5]
    by (simp add: CAN_STD_ID_MASK_def receive_ids_def cdmp_can_ids cdmp_offsets)
qed

text \<open>
  With a base that is a multiple of 8, the filter every CDMP service registers accepts, among
  the 11-bit identifiers, exactly the eight of the receive block, and all six identifiers the
  services receive are among them.
\<close>

theorem receive_filter_block:
  assumes "IsValidBaseCanId base" and "base mod RECEIVE_BLOCK_SIZE = 0"
  shows "(\<forall>i \<le> CAN_STD_ID_MASK. Matches (GetReceiveFilter base c) (Standard i) \<longleftrightarrow>
      base \<le> i \<and> i \<le> base + (RECEIVE_BLOCK_SIZE - 1)) \<and>
      list_all (Matches (GetReceiveFilter base c)) (receive_ids base)"
  by (rule receive_block [OF assms])

theorem receive_filter_block_witness:
  "IsValidBaseCanId DEFAULT_BASE_CAN_ID \<and>
   Matches (GetReceiveFilter DEFAULT_BASE_CAN_ID (Standard 0x704)) (Standard 0x705) \<and>
   \<not> Matches (GetReceiveFilter DEFAULT_BASE_CAN_ID (Standard 0x704)) (Standard 0x708)"
proof -
  have valid: "IsValidBaseCanId DEFAULT_BASE_CAN_ID"
    and aligned: "DEFAULT_BASE_CAN_ID mod RECEIVE_BLOCK_SIZE = 0"
    by (simp_all add: IsValidBaseCanId_def DEFAULT_BASE_CAN_ID_def CAN_STD_ID_MASK_def cdmp_offsets)
  show ?thesis
    using valid receive_filter_block [OF valid aligned, of "Standard 0x704"]
    by (simp add: DEFAULT_BASE_CAN_ID_def CAN_STD_ID_MASK_def cdmp_offsets)
qed

section \<open>SMP identifiers pack and unpack their addresses\<close>

lemma smp_mask_bits:
  "bit ID_MASK n \<longleftrightarrow> n < 29" "bit ADDRESS_MASK n \<longleftrightarrow> n < 16" "bit (0xFF :: u32) n \<longleftrightarrow> n < 8"
proof -
  have eqs: "ID_MASK = mask 29" "ADDRESS_MASK = mask 16" "(0xFF :: u32) = mask 8"
    by (simp_all add: ID_MASK_def ADDRESS_MASK_def mask_eq_exp_minus_1)
  have "bit (mask 29 :: u32) n \<longleftrightarrow> n < 29" "bit (mask 16 :: u32) n \<longleftrightarrow> n < 16"
    "bit (mask 8 :: u32) n \<longleftrightarrow> n < 8"
    by (auto simp: bit_mask_iff)
  then show "bit ID_MASK n \<longleftrightarrow> n < 29" "bit ADDRESS_MASK n \<longleftrightarrow> n < 16" "bit (0xFF :: u32) n \<longleftrightarrow> n < 8"
    by (simp_all only: eqs)
qed

lemma valid_base_bits: "IsValidBase base \<Longrightarrow> bit base n \<Longrightarrow> 16 \<le> n \<and> n < 29"
proof -
  assume "IsValidBase base" and b: "bit base n"
  then have "\<not> bit (base AND NOT ID_MASK) n" "\<not> bit (base AND ADDRESS_MASK) n"
    by (auto simp: IsValidBase_def)
  with b show ?thesis
    by (auto simp: bit_and_iff bit_not_iff smp_mask_bits dest: bit_imp_le_length)
qed

lemma MakeId_bit:
  "bit (MakeId base target source) n \<longleftrightarrow>
     n < 32 \<and> (bit base n \<or> 8 \<le> n \<and> bit target (n - 8) \<or> bit source n)"
  by (auto simp: MakeId_def bit_simps dest: bit_imp_le_length)

lemma u8_bit_length: "bit (w :: u8) n \<Longrightarrow> n < 8"
  using bit_imp_le_length [of w n] by simp

lemma smp_id_unpack:
  assumes "IsValidBase base"
  shows "GetTarget (MakeId base target source) = target"
    and "GetSource (MakeId base target source) = source"
    and "Contains base (MakeId base target source)"
proof -
  note bits = valid_base_bits [OF assms] u8_bit_length
  show "GetTarget (MakeId base target source) = target"
    by (rule bit_word_eqI) (auto simp: GetTarget_def bit_simps MakeId_bit dest: bits)
  show "GetSource (MakeId base target source) = source"
    by (rule bit_word_eqI) (auto simp: GetSource_def bit_simps MakeId_bit dest: bits)
  have "MakeId base target source AND ID_MASK AND NOT ADDRESS_MASK = base"
    by (rule bit_word_eqI)
      (auto simp: bit_and_iff bit_not_iff MakeId_bit smp_mask_bits dest: bits)
  moreover have "MakeId base target source AND NOT ID_MASK = 0"
    by (rule bit_word_eqI) (auto simp: bit_and_iff bit_not_iff MakeId_bit smp_mask_bits dest: bits)
  ultimately show "Contains base (MakeId base target source)" by (simp add: Contains_def)
qed

lemma target_filter_mask_bits: "bit TARGET_FILTER_MASK n \<longleftrightarrow> 8 \<le> n \<and> n < 29"
  unfolding TARGET_FILTER_MASK_def bit_and_iff bit_not_iff smp_mask_bits by auto

lemma target_filter_bits:
  "(i XOR GetTargetFilterId base a) AND TARGET_FILTER_MASK = 0 \<longleftrightarrow>
   (\<forall>n. 8 \<le> n \<and> n < 29 \<longrightarrow> bit i n = (bit base n \<or> bit a (n - 8)))"
proof -
  have "(i XOR GetTargetFilterId base a) AND TARGET_FILTER_MASK = 0 \<longleftrightarrow>
      (\<forall>n. \<not> bit ((i XOR GetTargetFilterId base a) AND TARGET_FILTER_MASK) n)"
    by (auto intro: bit_word_eqI)
  then show ?thesis
    by (auto simp: bit_and_iff bit_xor_iff target_filter_mask_bits GetTargetFilterId_def MakeId_bit)
qed

lemma contains_bits:
  assumes "IsValidBase base" and "i AND NOT ID_MASK = 0"
  shows "Contains base i \<longleftrightarrow> (\<forall>n. 16 \<le> n \<and> n < 29 \<longrightarrow> bit i n = bit base n)"
proof -
  have "Contains base i \<longleftrightarrow> (\<forall>n. bit (i AND ID_MASK AND NOT ADDRESS_MASK) n = bit base n)"
    using assms(2) by (auto simp: Contains_def intro: bit_word_eqI)
  also have "\<dots> \<longleftrightarrow> (\<forall>n. 16 \<le> n \<and> n < 29 \<longrightarrow> bit i n = bit base n)"
  proof
    assume all: "\<forall>n. bit (i AND ID_MASK AND NOT ADDRESS_MASK) n = bit base n"
    have "bit i n = bit base n" if "16 \<le> n \<and> n < 29" for n
      using all [THEN spec, of n] that by (simp add: bit_and_iff bit_not_iff smp_mask_bits)
    then show "\<forall>n. 16 \<le> n \<and> n < 29 \<longrightarrow> bit i n = bit base n" by blast
  next
    assume mid: "\<forall>n. 16 \<le> n \<and> n < 29 \<longrightarrow> bit i n = bit base n"
    have "bit (i AND ID_MASK AND NOT ADDRESS_MASK) n = bit base n" for n
      using mid [THEN spec, of n] valid_base_bits [OF assms(1), of n]
      by (cases "16 \<le> n \<and> n < 29") (auto simp: bit_and_iff bit_not_iff smp_mask_bits)
    then show "\<forall>n. bit (i AND ID_MASK AND NOT ADDRESS_MASK) n = bit base n" by blast
  qed
  finally show ?thesis .
qed

lemma target_bits: "GetTarget i = a \<longleftrightarrow> (\<forall>m < 8. bit i (m + 8) = bit a m)"
proof -
  have "GetTarget i = a \<longleftrightarrow> (\<forall>m. bit (GetTarget i) m = bit a m)"
    by (auto intro: bit_word_eqI)
  then show ?thesis
    using u8_bit_length [of a]
    by (auto simp: GetTarget_def bit_unsigned_iff bit_drop_bit_eq add.commute [of 8])
qed

lemma target_filter_iff:
  assumes "IsValidBase base" and "i AND NOT ID_MASK = 0"
  shows "(i XOR GetTargetFilterId base a) AND TARGET_FILTER_MASK = 0 \<longleftrightarrow>
      Contains base i \<and> GetTarget i = a"
proof -
  have low: "n < 16 \<Longrightarrow> \<not> bit base n" and high: "16 \<le> n \<Longrightarrow> \<not> bit a (n - 8)" for n
    using valid_base_bits [OF assms(1), of n] u8_bit_length [of a "n - 8"] by auto
  have "(\<forall>n. 8 \<le> n \<and> n < 29 \<longrightarrow> bit i n = (bit base n \<or> bit a (n - 8))) \<longleftrightarrow>
      (\<forall>n. 16 \<le> n \<and> n < 29 \<longrightarrow> bit i n = bit base n) \<and> (\<forall>m < 8. bit i (m + 8) = bit a m)"
    (is "?all \<longleftrightarrow> ?upper \<and> ?lower")
  proof (intro iffI conjI)
    assume all: ?all
    show ?upper using all high by simp
    show ?lower using all low by simp
  next
    assume parts: "?upper \<and> ?lower"
    show ?all
    proof (intro allI impI)
      fix n :: nat
      assume n: "8 \<le> n \<and> n < 29"
      show "bit i n = (bit base n \<or> bit a (n - 8))"
      proof (cases "n < 16")
        case True
        obtain m where m: "n = m + 8" using n by (metis add.commute le_iff_add)
        then have "bit i (m + 8) = bit a m" using parts True by simp
        then show ?thesis using True low m by simp
      next
        case False
        then show ?thesis using parts n high by simp
      qed
    qed
  qed
  then show ?thesis by (simp only: target_filter_bits contains_bits [OF assms] target_bits)
qed

text \<open>
  The receive filter an SMP-over-CAN node binds accepts exactly the 29-bit identifiers of its
  base that are addressed to it, from any source, and every identifier a peer makes for it is one.
\<close>

theorem smp_target_filter:
  assumes base: "IsValidBase base"
  shows "(\<forall>i. CanId_IsValid (Extended i) \<longrightarrow>
      (Matches \<lparr>cf_id = GetTargetFilterId base a, cf_mask = TARGET_FILTER_MASK, cf_is_extended = True\<rparr>
         (Extended i) \<longleftrightarrow> Contains base i \<and> GetTarget i = a)) \<and>
    GetTarget (MakeId base a b) = a \<and> GetSource (MakeId base a b) = b \<and>
    Contains base (MakeId base a b)"
proof -
  have "CAN_EXT_ID_MASK = ID_MASK" by (simp add: CAN_EXT_ID_MASK_def ID_MASK_def)
  then show ?thesis
    using smp_id_unpack [OF base] target_filter_iff [OF base]
    by (simp add: Matches_def Extended_def CanId_IsValid_def WidthMask_def)
qed

theorem smp_target_filter_witness:
  "IsValidBase SMP_DEFAULT_BASE \<and> GetTarget (MakeId SMP_DEFAULT_BASE 5 7) = 5 \<and>
   Matches \<lparr>cf_id = GetTargetFilterId SMP_DEFAULT_BASE 5, cf_mask = TARGET_FILTER_MASK,
       cf_is_extended = True\<rparr> (Extended (MakeId SMP_DEFAULT_BASE 5 7))"
proof -
  have base: "IsValidBase SMP_DEFAULT_BASE"
    by (simp add: IsValidBase_def SMP_DEFAULT_BASE_def ID_MASK_def ADDRESS_MASK_def)
  have valid: "CanId_IsValid (Extended (MakeId SMP_DEFAULT_BASE 5 7))"
    by (simp add: CanId_IsValid_def Extended_def WidthMask_def CAN_EXT_ID_MASK_def MakeId_def
        SMP_DEFAULT_BASE_def)
  show ?thesis using base valid smp_target_filter [OF base, of 5 7] by blast
qed

end
