(* ===== verification/Cdmp_Messages.thy ===== *)
theory Cdmp_Messages
  imports Rt_Prelude
begin

text \<open>
  The CDMP frames (\<open>src/subsys/cdmp/models/messages/\<close>, \<open>models/cdmp_state_data.h\<close>) and the
  protocol's enumerations and constants (\<open>src/subsys/cdmp/utilities/enums.h\<close>, \<open>constants.h\<close>).
  Each message is a record with an encoder (\<open>ToCanFrame\<close>) and a decoder (\<open>FromCanFrame\<close>,
  \<open>TryFromCanFrame\<close>). An enumeration with a fixed underlying byte can hold any byte after a cast
  from the wire, so a field of such a type is a byte here and the named values are constants.
  The locale \<open>frame_codec\<close> is the contract of a message type: decoding an encoded message gives
  it back, and the frame fits a classic CAN frame.
\<close>

section \<open>Enumerations and constants\<close>

datatype CdmpDeviceStatus = OFFLINE | INIT | CLAIMING | ONLINE | VERSION_MISMATCH | STATUS_ERROR

fun status_code :: "CdmpDeviceStatus \<Rightarrow> u8" where
  "status_code OFFLINE = 0x00"
| "status_code INIT = 0x01"
| "status_code CLAIMING = 0x02"
| "status_code ONLINE = 0x03"
| "status_code VERSION_MISMATCH = 0x04"
| "status_code STATUS_ERROR = 0x05"

instantiation CdmpDeviceStatus :: enum
begin

definition "enum_CdmpDeviceStatus =
  [OFFLINE, INIT, CLAIMING, ONLINE, VERSION_MISMATCH, STATUS_ERROR]"
definition "enum_all_CdmpDeviceStatus P \<longleftrightarrow>
  P OFFLINE \<and> P INIT \<and> P CLAIMING \<and> P ONLINE \<and> P VERSION_MISMATCH \<and> P STATUS_ERROR"
definition "enum_ex_CdmpDeviceStatus P \<longleftrightarrow>
  P OFFLINE \<or> P INIT \<or> P CLAIMING \<or> P ONLINE \<or> P VERSION_MISMATCH \<or> P STATUS_ERROR"

instance proof
  have all: "s \<in> {OFFLINE, INIT, CLAIMING, ONLINE, VERSION_MISMATCH, STATUS_ERROR}" for s
    by (cases s) simp_all
  show "(UNIV :: CdmpDeviceStatus set) = set Enum.enum"
    using all by (auto simp: enum_CdmpDeviceStatus_def)
  show "distinct (Enum.enum :: CdmpDeviceStatus list)"
    by (simp add: enum_CdmpDeviceStatus_def)
  show "Enum.enum_all P \<longleftrightarrow> Ball UNIV P" for P :: "CdmpDeviceStatus \<Rightarrow> bool"
    by (auto simp: enum_all_CdmpDeviceStatus_def) (metis CdmpDeviceStatus.exhaust)
  show "Enum.enum_ex P \<longleftrightarrow> Bex UNIV P" for P :: "CdmpDeviceStatus \<Rightarrow> bool"
    by (auto simp: enum_ex_CdmpDeviceStatus_def) (metis CdmpDeviceStatus.exhaust)
qed

end

definition HEALTH_OK :: u8 where "HEALTH_OK = 0x00"

definition RC_SUCCESS :: u8 where "RC_SUCCESS = 0x00"
definition RC_UNSUPPORTED_COMMAND :: u8 where "RC_UNSUPPORTED_COMMAND = 0x03"
definition RC_CANCELLED :: u8 where "RC_CANCELLED = 0x04"
definition RC_TIMEOUT :: u8 where "RC_TIMEOUT = 0x05"

definition MT_ID_CLAIM :: u8 where "MT_ID_CLAIM = 0x01"
definition MT_ID_CLAIM_RESPONSE :: u8 where "MT_ID_CLAIM_RESPONSE = 0x02"
definition MT_DISCOVERY_REQUEST :: u8 where "MT_DISCOVERY_REQUEST = 0x03"
definition MT_DISCOVERY_RESPONSE :: u8 where "MT_DISCOVERY_RESPONSE = 0x04"
definition MT_HEARTBEAT :: u8 where "MT_HEARTBEAT = 0x05"

definition CLAIM_ACCEPT :: u8 where "CLAIM_ACCEPT = 0x00"
definition CLAIM_REJECT :: u8 where "CLAIM_REJECT = 0x01"
definition CLAIM_VERSION_INCOMPATIBLE :: u8 where "CLAIM_VERSION_INCOMPATIBLE = 0x02"

definition CMD_STATUS_REQUEST :: u8 where "CMD_STATUS_REQUEST = 0x10"
definition CMD_RESET_DEVICE :: u8 where "CMD_RESET_DEVICE = 0x11"
definition CMD_STATE_SYNC_REQUEST :: u8 where "CMD_STATE_SYNC_REQUEST = 0x12"

lemmas message_types = MT_ID_CLAIM_def MT_ID_CLAIM_RESPONSE_def MT_DISCOVERY_REQUEST_def
  MT_DISCOVERY_RESPONSE_def MT_HEARTBEAT_def
lemmas claim_results = CLAIM_ACCEPT_def CLAIM_REJECT_def CLAIM_VERSION_INCOMPATIBLE_def
lemmas command_codes = CMD_STATUS_REQUEST_def CMD_RESET_DEVICE_def CMD_STATE_SYNC_REQUEST_def

definition DEVICE_ID_UNASSIGNED :: u8 where "DEVICE_ID_UNASSIGNED = 0x00"
definition DEVICE_ID_BROADCAST :: u8 where "DEVICE_ID_BROADCAST = 0xFF"

definition DISCOVERY_MAX_BACKOFF_RESETS :: nat where "DISCOVERY_MAX_BACKOFF_RESETS = 10"
definition ID_CLAIM_RESPONSE_TIMEOUT_MS :: int where "ID_CLAIM_RESPONSE_TIMEOUT_MS = 50"
definition ID_CLAIM_MAX_ATTEMPTS :: nat where "ID_CLAIM_MAX_ATTEMPTS = 10"
definition PENDING_ID_CLAIMS_MAX :: nat where "PENDING_ID_CLAIMS_MAX = 8"
definition HEARTBEAT_INTERVAL_MS :: int where "HEARTBEAT_INTERVAL_MS = 3000"
definition HEARTBEAT_TIMEOUT_MS :: int where "HEARTBEAT_TIMEOUT_MS = HEARTBEAT_INTERVAL_MS * 3"
definition NETWORK_VALIDATION_INTERVAL_MS :: int where "NETWORK_VALIDATION_INTERVAL_MS = 5000"
definition STAGGERED_MESSAGE_TIME_OFFSET_MS :: nat where "STAGGERED_MESSAGE_TIME_OFFSET_MS = 5"
definition USER_COMMAND_CODE_MIN :: u8 where "USER_COMMAND_CODE_MIN = 0x20"
definition USER_COMMAND_CODE_MAX :: u8 where "USER_COMMAND_CODE_MAX = 0xFF"
definition STATE_ACK_PEERS_MAX :: nat where "STATE_ACK_PEERS_MAX = 8"
definition STATE_VERSION_REFRESH_LAG :: nat where "STATE_VERSION_REFRESH_LAG = 64"
definition STATE_SYNC_REQUEST_MIN_INTERVAL_MS :: u32 where
  "STATE_SYNC_REQUEST_MIN_INTERVAL_MS = 1500"
definition RETRY_BACKOFFS_MS :: "int list" where "RETRY_BACKOFFS_MS = [100, 200, 500]"
definition STATE_RETRANSMIT_BACKOFFS_MS :: "int list" where
  "STATE_RETRANSMIT_BACKOFFS_MS = [50, 100, 200]"

section \<open>Management messages (Base + 0)\<close>

record CdmpDiscoveryRequestMessage =
  dq_uid :: u32

definition DiscoveryRequest_FromCanFrame :: "bytes \<Rightarrow> CdmpDiscoveryRequestMessage result" where
  "DiscoveryRequest_FromCanFrame frame =
     try_bind (span_at frame 0) (\<lambda>t.
       if t \<noteq> MT_DISCOVERY_REQUEST then Inl InvalidArgument
       else try_bind (span_at frame 4) (\<lambda>b3. try_bind (span_at frame 3) (\<lambda>b2.
         try_bind (span_at frame 2) (\<lambda>b1. try_bind (span_at frame 1) (\<lambda>b0.
           Inr \<lparr>dq_uid = u32_of_le b0 b1 b2 b3\<rparr>)))))"

definition DiscoveryRequest_ToCanFrame :: "CdmpDiscoveryRequestMessage \<Rightarrow> bytes" where
  "DiscoveryRequest_ToCanFrame m = MT_DISCOVERY_REQUEST # u32_le (dq_uid m)"

record CdmpDiscoveryResponseMessage =
  dr_device_id :: u8
  dr_uid :: u32
  dr_features :: u16

definition DiscoveryResponse_FromCanFrame :: "bytes \<Rightarrow> CdmpDiscoveryResponseMessage result" where
  "DiscoveryResponse_FromCanFrame frame =
     (if length frame < 8 then Inl InvalidArgument
      else if frame ! 0 \<noteq> MT_DISCOVERY_RESPONSE then Inl InvalidArgument
      else Inr \<lparr>dr_device_id = frame ! 1,
                dr_uid = u32_of_le (frame ! 2) (frame ! 3) (frame ! 4) (frame ! 5),
                dr_features = u16_of_le (frame ! 6) (frame ! 7)\<rparr>)"

definition DiscoveryResponse_ToCanFrame :: "CdmpDiscoveryResponseMessage \<Rightarrow> bytes" where
  "DiscoveryResponse_ToCanFrame m =
     MT_DISCOVERY_RESPONSE # dr_device_id m # u32_le (dr_uid m) @ u16_le (dr_features m)"

record CdmpIdClaimRequestMessage =
  ic_claiming_device_id :: u8
  ic_uid :: u32
  ic_protocol_version :: u8

definition IdClaimRequest_FromCanFrame :: "bytes \<Rightarrow> CdmpIdClaimRequestMessage result" where
  "IdClaimRequest_FromCanFrame frame =
     try_bind (span_at frame 0) (\<lambda>t.
       if t \<noteq> MT_ID_CLAIM then Inl InvalidArgument
       else try_bind (span_at frame 1) (\<lambda>i.
         try_bind (span_at frame 5) (\<lambda>b3. try_bind (span_at frame 4) (\<lambda>b2.
         try_bind (span_at frame 3) (\<lambda>b1. try_bind (span_at frame 2) (\<lambda>b0.
         try_bind (span_at frame 7) (\<lambda>v.
           Inr \<lparr>ic_claiming_device_id = i, ic_uid = u32_of_le b0 b1 b2 b3,
                ic_protocol_version = v\<rparr>)))))))"

definition IdClaimRequest_ToCanFrame :: "CdmpIdClaimRequestMessage \<Rightarrow> bytes" where
  "IdClaimRequest_ToCanFrame m =
     MT_ID_CLAIM # ic_claiming_device_id m # u32_le (ic_uid m) @ [0, ic_protocol_version m]"

record CdmpIdClaimResponseMessage =
  cr_responding_device_id :: u8
  cr_claiming_device_id :: u8
  cr_claiming_device_uid :: u32
  cr_result :: u8

definition IdClaimResponse_FromCanFrame :: "bytes \<Rightarrow> CdmpIdClaimResponseMessage result" where
  "IdClaimResponse_FromCanFrame frame =
     try_bind (span_at frame 0) (\<lambda>t.
       if t \<noteq> MT_ID_CLAIM_RESPONSE then Inl InvalidArgument
       else try_bind (span_at frame 1) (\<lambda>r. try_bind (span_at frame 2) (\<lambda>c.
         try_bind (span_at frame 3) (\<lambda>res.
           Inr \<lparr>cr_responding_device_id = r, cr_claiming_device_id = c,
                cr_claiming_device_uid = 0, cr_result = res\<rparr>))))"

definition IdClaimResponse_ToCanFrame :: "CdmpIdClaimResponseMessage \<Rightarrow> bytes" where
  "IdClaimResponse_ToCanFrame m =
     [MT_ID_CLAIM_RESPONSE, cr_responding_device_id m, cr_claiming_device_id m, cr_result m]"

section \<open>Heartbeat (Base + 1)\<close>

record CdmpHeartbeatMessage =
  hb_device_id :: u8
  hb_health_status :: u8
  hb_sequence_number :: u8
  hb_features :: u16
  hb_state_digest :: u8

definition Heartbeat_FromCanFrame :: "bytes \<Rightarrow> CdmpHeartbeatMessage result" where
  "Heartbeat_FromCanFrame frame =
     (if length frame < 8 then Inl InvalidArgument
      else Inr \<lparr>hb_device_id = frame ! 0, hb_health_status = frame ! 1,
                hb_sequence_number = frame ! 2,
                hb_features = u16_of_le (frame ! 3) (frame ! 4),
                hb_state_digest = frame ! 7\<rparr>)"

definition Heartbeat_ToCanFrame :: "CdmpHeartbeatMessage \<Rightarrow> bytes" where
  "Heartbeat_ToCanFrame m =
     [hb_device_id m, hb_health_status m, hb_sequence_number m] @ u16_le (hb_features m)
       @ [0, 0, hb_state_digest m]"

section \<open>Commands (Base + 2, Base + 3)\<close>

record CdmpCommandRequestMessage =
  cq_target_device_id :: u8
  cq_command_code :: u8
  cq_transaction_id :: u8
  cq_data :: bytes

definition CommandRequest_FromCanFrame :: "bytes \<Rightarrow> CdmpCommandRequestMessage result" where
  "CommandRequest_FromCanFrame frame =
     try_bind (span_at frame 0) (\<lambda>t. try_bind (span_at frame 1) (\<lambda>c.
       try_bind (span_at frame 2) (\<lambda>x.
         Inr \<lparr>cq_target_device_id = t, cq_command_code = c, cq_transaction_id = x,
              cq_data = drop 3 frame\<rparr>)))"

definition CommandRequest_ToCanFrame :: "CdmpCommandRequestMessage \<Rightarrow> bytes" where
  "CommandRequest_ToCanFrame m =
     [cq_target_device_id m, cq_command_code m, cq_transaction_id m] @ cq_data m"

record CdmpCommandResponseMessage =
  cp_source_device_id :: u8
  cp_command_code :: u8
  cp_transaction_id :: u8
  cp_result_code :: u8
  cp_data :: bytes

definition CommandResponse_FromCanFrame :: "bytes \<Rightarrow> CdmpCommandResponseMessage result" where
  "CommandResponse_FromCanFrame frame =
     try_bind (span_at frame 0) (\<lambda>s. try_bind (span_at frame 1) (\<lambda>c.
       try_bind (span_at frame 2) (\<lambda>x. try_bind (span_at frame 3) (\<lambda>r.
         Inr \<lparr>cp_source_device_id = s, cp_command_code = c, cp_transaction_id = x,
              cp_result_code = r, cp_data = drop 4 frame\<rparr>))))"

definition CommandResponse_ToCanFrame :: "CdmpCommandResponseMessage \<Rightarrow> bytes" where
  "CommandResponse_ToCanFrame m =
     [cp_source_device_id m, cp_command_code m, cp_transaction_id m, cp_result_code m] @ cp_data m"

definition CommandResponseStatus_new ::
  "u8 \<Rightarrow> u8 \<Rightarrow> u8 \<Rightarrow> CdmpDeviceStatus \<Rightarrow> u8 \<Rightarrow> u8 \<Rightarrow> CdmpCommandResponseMessage" where
  "CommandResponseStatus_new source transaction rc status version health =
     \<lparr>cp_source_device_id = source, cp_command_code = CMD_STATUS_REQUEST,
      cp_transaction_id = transaction, cp_result_code = rc,
      cp_data = [status_code status, version, health]\<rparr>"

section \<open>Shared state (Base + 4, Base + 5)\<close>

definition STATE_DATA_MAX_SIZE :: nat where "STATE_DATA_MAX_SIZE = 5"
definition STATE_CHANGE_HEADER_SIZE :: nat where "STATE_CHANGE_HEADER_SIZE = 3"
definition STATE_CHANGE_MAX_FRAME_SIZE :: nat where
  "STATE_CHANGE_MAX_FRAME_SIZE = STATE_CHANGE_HEADER_SIZE + STATE_DATA_MAX_SIZE"

lemmas state_sizes = STATE_DATA_MAX_SIZE_def STATE_CHANGE_HEADER_SIZE_def
  STATE_CHANGE_MAX_FRAME_SIZE_def

text \<open>
  \<open>CdmpStateData\<close> is its first \<open>size_\<close> bytes, at most five: all its operations read it through
  \<open>GetData()\<close>. The constructor refuses more.
\<close>

type_synonym CdmpStateData = bytes

definition CdmpStateData_new :: "bytes \<Rightarrow> CdmpStateData result" where
  "CdmpStateData_new d = (if length d > STATE_DATA_MAX_SIZE then Inl InvalidArgument else Inr d)"

record CdmpStateChangeMessage =
  sc_source_device_id :: u8
  sc_version :: u8
  sc_state_type :: u8
  sc_data :: CdmpStateData

definition StateChange_TryFromCanFrame :: "bytes \<Rightarrow> CdmpStateChangeMessage option" where
  "StateChange_TryFromCanFrame frame =
     (if length frame < STATE_CHANGE_HEADER_SIZE \<or> length frame > STATE_CHANGE_MAX_FRAME_SIZE
      then None
      else (case CdmpStateData_new (drop STATE_CHANGE_HEADER_SIZE frame) of
              Inl _ \<Rightarrow> None
            | Inr d \<Rightarrow> Some \<lparr>sc_source_device_id = frame ! 0, sc_version = frame ! 1,
                            sc_state_type = frame ! 2, sc_data = d\<rparr>))"

definition StateChange_FromCanFrame :: "bytes \<Rightarrow> CdmpStateChangeMessage result" where
  "StateChange_FromCanFrame frame =
     (case StateChange_TryFromCanFrame frame of None \<Rightarrow> Inl InvalidArgument | Some m \<Rightarrow> Inr m)"

definition StateChange_ToCanFrame :: "CdmpStateChangeMessage \<Rightarrow> bytes" where
  "StateChange_ToCanFrame m =
     [sc_source_device_id m, sc_version m, sc_state_type m] @ sc_data m"

record CdmpStateChangeResponseMessage =
  sr_responding_device_id :: u8
  sr_source_device_id :: u8
  sr_version :: u8
  sr_result_code :: u8

definition StateChangeResponse_TryFromCanFrame ::
  "bytes \<Rightarrow> CdmpStateChangeResponseMessage option" where
  "StateChangeResponse_TryFromCanFrame frame =
     (if length frame < 4 then None
      else Some \<lparr>sr_responding_device_id = frame ! 0, sr_source_device_id = frame ! 1,
                 sr_version = frame ! 2, sr_result_code = frame ! 3\<rparr>)"

definition StateChangeResponse_FromCanFrame ::
  "bytes \<Rightarrow> CdmpStateChangeResponseMessage result" where
  "StateChangeResponse_FromCanFrame frame =
     (case StateChangeResponse_TryFromCanFrame frame of
        None \<Rightarrow> Inl InvalidArgument | Some m \<Rightarrow> Inr m)"

definition StateChangeResponse_ToCanFrame :: "CdmpStateChangeResponseMessage \<Rightarrow> bytes" where
  "StateChangeResponse_ToCanFrame m =
     [sr_responding_device_id m, sr_source_device_id m, sr_version m, sr_result_code m]"

section \<open>The contract of a message type\<close>

locale frame_codec =
  fixes enc :: "'m \<Rightarrow> bytes"
    and dec :: "bytes \<Rightarrow> 'm result"
    and sendable :: "'m \<Rightarrow> bool"
  assumes roundtrip: "sendable m \<Longrightarrow> dec (enc m) = Inr m"
    and fits: "sendable m \<Longrightarrow> length (enc m) \<le> 8"
begin

lemma enc_inj: "sendable m \<Longrightarrow> sendable n \<Longrightarrow> enc m = enc n \<Longrightarrow> m = n"
  by (metis roundtrip sum.inject(2))

lemma dec_enc_iff: "sendable m \<Longrightarrow> dec (enc m) = Inr n \<longleftrightarrow> n = m"
  by (auto simp: roundtrip)

lemma own_frame_not_refused: "sendable m \<Longrightarrow> dec (enc m) \<noteq> Inl e"
  by (simp add: roundtrip)

end

lemmas frame_nths = nth_append u32_of_le_split u16_of_le_split

interpretation dq: frame_codec DiscoveryRequest_ToCanFrame DiscoveryRequest_FromCanFrame "\<lambda>_. True"
  by unfold_locales
    (simp_all add: DiscoveryRequest_FromCanFrame_def DiscoveryRequest_ToCanFrame_def u32_le_def
      u32_of_le_split)

interpretation dr: frame_codec DiscoveryResponse_ToCanFrame DiscoveryResponse_FromCanFrame "\<lambda>_. True"
  by unfold_locales
    (simp_all add: DiscoveryResponse_FromCanFrame_def DiscoveryResponse_ToCanFrame_def u32_le_def
      u16_le_def frame_nths)

interpretation ic: frame_codec IdClaimRequest_ToCanFrame IdClaimRequest_FromCanFrame "\<lambda>_. True"
  by unfold_locales
    (simp_all add: IdClaimRequest_FromCanFrame_def IdClaimRequest_ToCanFrame_def u32_le_def
      u32_of_le_split)

interpretation cr: frame_codec IdClaimResponse_ToCanFrame IdClaimResponse_FromCanFrame
  "\<lambda>m. cr_claiming_device_uid m = 0"
  by unfold_locales
    (simp_all add: IdClaimResponse_FromCanFrame_def IdClaimResponse_ToCanFrame_def)

interpretation hb: frame_codec Heartbeat_ToCanFrame Heartbeat_FromCanFrame "\<lambda>_. True"
  by unfold_locales
    (simp_all add: Heartbeat_FromCanFrame_def Heartbeat_ToCanFrame_def u16_le_def u16_of_le_split)

interpretation cq: frame_codec CommandRequest_ToCanFrame CommandRequest_FromCanFrame
  "\<lambda>m. length (cq_data m) \<le> 5"
  by unfold_locales (simp_all add: CommandRequest_FromCanFrame_def CommandRequest_ToCanFrame_def)

interpretation cp: frame_codec CommandResponse_ToCanFrame CommandResponse_FromCanFrame
  "\<lambda>m. length (cp_data m) \<le> 4"
  by unfold_locales (simp_all add: CommandResponse_FromCanFrame_def CommandResponse_ToCanFrame_def)

interpretation sc: frame_codec StateChange_ToCanFrame StateChange_FromCanFrame
  "\<lambda>m. length (sc_data m) \<le> STATE_DATA_MAX_SIZE"
  by unfold_locales
    (simp_all add: StateChange_FromCanFrame_def StateChange_TryFromCanFrame_def
      StateChange_ToCanFrame_def CdmpStateData_new_def state_sizes)

interpretation sr: frame_codec StateChangeResponse_ToCanFrame StateChangeResponse_FromCanFrame
  "\<lambda>_. True"
  by unfold_locales
    (simp_all add: StateChangeResponse_FromCanFrame_def StateChangeResponse_TryFromCanFrame_def
      StateChangeResponse_ToCanFrame_def)

section \<open>Round trips and malformed frames\<close>

lemma frame_header3: "3 \<le> length frame \<Longrightarrow> [frame ! 0, frame ! 1, frame ! 2] @ drop 3 frame = frame"
  by (cases frame rule: list.exhaust; simp; cases "tl frame" rule: list.exhaust;
      simp; cases "tl (tl frame)" rule: list.exhaust; simp)

text \<open>
  The state change decoder accepts exactly the frames the encoder writes for a message with at
  most five data bytes, and returns that message: nothing else is accepted and nothing is lost.
\<close>

theorem state_change_decode_exact:
  "StateChange_TryFromCanFrame frame = Some m \<longleftrightarrow>
     frame = StateChange_ToCanFrame m \<and> length (sc_data m) \<le> STATE_DATA_MAX_SIZE"
proof
  assume "StateChange_TryFromCanFrame frame = Some m"
  then have "3 \<le> length frame" "length frame \<le> 8"
    and m: "m = \<lparr>sc_source_device_id = frame ! 0, sc_version = frame ! 1,
                 sc_state_type = frame ! 2, sc_data = drop 3 frame\<rparr>"
    by (auto simp: StateChange_TryFromCanFrame_def CdmpStateData_new_def state_sizes
        split: if_splits)
  then show "frame = StateChange_ToCanFrame m \<and> length (sc_data m) \<le> STATE_DATA_MAX_SIZE"
    using frame_header3 [of frame] by (simp add: StateChange_ToCanFrame_def state_sizes)
next
  assume "frame = StateChange_ToCanFrame m \<and> length (sc_data m) \<le> STATE_DATA_MAX_SIZE"
  then show "StateChange_TryFromCanFrame frame = Some m"
    using sc.roundtrip [of m]
    by (simp add: StateChange_FromCanFrame_def split: option.splits)
qed

lemma id_claim_request_oob:
  "IdClaimRequest_FromCanFrame frame = Inl OutOfBounds \<longleftrightarrow>
     frame = [] \<or> frame ! 0 = MT_ID_CLAIM \<and> length frame < 8"
  by (auto simp: IdClaimRequest_FromCanFrame_def span_at_def)

lemma id_claim_response_oob:
  "IdClaimResponse_FromCanFrame frame = Inl OutOfBounds \<longleftrightarrow>
     frame = [] \<or> frame ! 0 = MT_ID_CLAIM_RESPONSE \<and> length frame < 4"
  by (auto simp: IdClaimResponse_FromCanFrame_def span_at_def)

lemma discovery_request_oob:
  "DiscoveryRequest_FromCanFrame frame = Inl OutOfBounds \<longleftrightarrow>
     frame = [] \<or> frame ! 0 = MT_DISCOVERY_REQUEST \<and> length frame < 5"
  by (auto simp: DiscoveryRequest_FromCanFrame_def span_at_def)

lemma discovery_response_no_oob: "DiscoveryResponse_FromCanFrame frame \<noteq> Inl OutOfBounds"
  by (simp add: DiscoveryResponse_FromCanFrame_def)

lemma heartbeat_no_oob: "Heartbeat_FromCanFrame frame \<noteq> Inl OutOfBounds"
  by (simp add: Heartbeat_FromCanFrame_def)

text \<open>
  The response to an ID claim names the claimed ID but not the claimant: two claims of one ID by
  different units get the same response frame, and the decoded message has no UID.
\<close>

theorem id_claim_response_anonymous:
  "IdClaimResponse_ToCanFrame (m\<lparr>cr_claiming_device_uid := u\<rparr>) = IdClaimResponse_ToCanFrame m \<and>
   IdClaimResponse_FromCanFrame (IdClaimResponse_ToCanFrame m) = Inr (m\<lparr>cr_claiming_device_uid := 0\<rparr>)"
  by (simp add: IdClaimResponse_ToCanFrame_def IdClaimResponse_FromCanFrame_def)

end
