(* ===== verification/Cdmp_Device.thy ===== *)
theory Cdmp_Device
  imports Cdmp_Messages
begin

text \<open>
  The device object every CDMP service of a unit shares (\<open>models/cdmp_device.h/.cpp\<close>), with its
  status machine (\<open>utilities/cdmp_status_machine.h/.cpp\<close>), the derivation of its unique
  identifier (\<open>utilities/cdmp_uid.cpp\<close>) and the stagger of its messages
  (\<open>utilities/cdmp_helpers.h\<close>). A status change calls the registered handlers; an operation
  returns those calls, in the order the map of handlers is iterated, next to the new device.
\<close>

unbundle bit_operations_syntax

section \<open>Status machine\<close>

record CdmpStatusMachine =
  sm_status :: CdmpDeviceStatus
  sm_callbacks :: "int list"

text \<open>A handler call: the handler's number, the old and the new status.\<close>

type_synonym status_call = "int \<times> CdmpDeviceStatus \<times> CdmpDeviceStatus"

definition CdmpStatusMachine_new :: "CdmpDeviceStatus \<Rightarrow> CdmpStatusMachine" where
  "CdmpStatusMachine_new s = \<lparr>sm_status = s, sm_callbacks = []\<rparr>"

fun IsValidTransition :: "CdmpDeviceStatus \<Rightarrow> CdmpDeviceStatus \<Rightarrow> bool" where
  "IsValidTransition OFFLINE t \<longleftrightarrow> t = INIT \<or> t = STATUS_ERROR"
| "IsValidTransition INIT t \<longleftrightarrow> t = CLAIMING \<or> t = OFFLINE \<or> t = STATUS_ERROR"
| "IsValidTransition CLAIMING t \<longleftrightarrow>
     t = INIT \<or> t = ONLINE \<or> t = VERSION_MISMATCH \<or> t = STATUS_ERROR"
| "IsValidTransition ONLINE t \<longleftrightarrow> t = VERSION_MISMATCH \<or> t = OFFLINE \<or> t = STATUS_ERROR"
| "IsValidTransition VERSION_MISMATCH t \<longleftrightarrow> t = OFFLINE"
| "IsValidTransition STATUS_ERROR t \<longleftrightarrow> t = INIT \<or> t = OFFLINE"

definition CanTransitionTo :: "CdmpDeviceStatus \<Rightarrow> CdmpStatusMachine \<Rightarrow> bool" where
  "CanTransitionTo t m = IsValidTransition (sm_status m) t"

definition IsOperational :: "CdmpStatusMachine \<Rightarrow> bool" where
  "IsOperational m \<longleftrightarrow> sm_status m = ONLINE \<or> sm_status m = CLAIMING"

definition NotifyStatusChange ::
  "CdmpDeviceStatus \<Rightarrow> CdmpDeviceStatus \<Rightarrow> CdmpStatusMachine \<Rightarrow> status_call list" where
  "NotifyStatusChange old_status new_status m = map (\<lambda>i. (i, old_status, new_status)) (sm_callbacks m)"

definition SetStatus ::
  "CdmpDeviceStatus \<Rightarrow> bool \<Rightarrow> CdmpStatusMachine \<Rightarrow> CdmpStatusMachine \<times> status_call list" where
  "SetStatus new_status force m =
     (if new_status = sm_status m then (m, [])
      else if \<not> force \<and> \<not> CanTransitionTo new_status m then (m, [])
      else let m' = m\<lparr>sm_status := new_status\<rparr>
           in (m', NotifyStatusChange (sm_status m) new_status m'))"

definition RegisterStatusChangeHandler :: "CdmpStatusMachine \<Rightarrow> int \<times> CdmpStatusMachine" where
  "RegisterStatusChangeHandler m =
     (let new_id = fold max (sm_callbacks m) 0 + 1
      in (new_id, m\<lparr>sm_callbacks := sm_callbacks m @ [new_id]\<rparr>))"

definition UnregisterStatusChangeHandler :: "int \<Rightarrow> CdmpStatusMachine \<Rightarrow> CdmpStatusMachine" where
  "UnregisterStatusChangeHandler i m = m\<lparr>sm_callbacks := filter (\<lambda>j. j \<noteq> i) (sm_callbacks m)\<rparr>"

section \<open>Device\<close>

record CdmpDevice =
  dev_device_id :: u8
  dev_uid :: u32
  dev_protocol_version :: u8
  dev_health_status :: u8
  dev_features :: u16
  dev_last_heartbeat :: int
  dev_uptime_counter :: u8
  dev_is_lowest_id_on_network :: bool
  dev_staggered_message_delay :: nat
  dev_state_digest :: u8
  dev_status_machine :: CdmpStatusMachine

definition CURRENT_PROTOCOL_VERSION :: u8 where "CURRENT_PROTOCOL_VERSION = 0x10"

abbreviation dev_status :: "CdmpDevice \<Rightarrow> CdmpDeviceStatus" where
  "dev_status d \<equiv> sm_status (dev_status_machine d)"

definition UpdateHeartbeat :: "int \<Rightarrow> CdmpDevice \<Rightarrow> CdmpDevice" where
  "UpdateHeartbeat now d = d\<lparr>dev_last_heartbeat := now\<rparr>"

definition CdmpDevice_new :: "int \<Rightarrow> u32 \<Rightarrow> u16 \<Rightarrow> CdmpDeviceStatus \<Rightarrow> CdmpDevice result" where
  "CdmpDevice_new now uid features status =
     (if uid = 0 then Inl InvalidArgument
      else Inr (UpdateHeartbeat now
        \<lparr>dev_device_id = DEVICE_ID_UNASSIGNED, dev_uid = uid,
         dev_protocol_version = CURRENT_PROTOCOL_VERSION, dev_health_status = HEALTH_OK,
         dev_features = features, dev_last_heartbeat = 0, dev_uptime_counter = 0,
         dev_is_lowest_id_on_network = False, dev_staggered_message_delay = 0,
         dev_state_digest = 0, dev_status_machine = CdmpStatusMachine_new status\<rparr>))"

definition dev_SetStatus ::
  "CdmpDeviceStatus \<Rightarrow> bool \<Rightarrow> CdmpDevice \<Rightarrow> CdmpDevice \<times> status_call list" where
  "dev_SetStatus t force d =
     (case SetStatus t force (dev_status_machine d) of
        (m, calls) \<Rightarrow> (d\<lparr>dev_status_machine := m\<rparr>, calls))"

definition StartDiscovery :: "CdmpDevice \<Rightarrow> CdmpDevice \<times> status_call list" where
  "StartDiscovery = dev_SetStatus INIT False"

definition ClaimId :: "CdmpDevice \<Rightarrow> CdmpDevice \<times> status_call list" where
  "ClaimId = dev_SetStatus CLAIMING False"

definition GoOnline :: "bool \<Rightarrow> CdmpDevice \<Rightarrow> CdmpDevice \<times> status_call list" where
  "GoOnline force = dev_SetStatus ONLINE force"

definition EnterVersionMismatch :: "CdmpDevice \<Rightarrow> CdmpDevice \<times> status_call list" where
  "EnterVersionMismatch = dev_SetStatus VERSION_MISMATCH False"

definition EnterError :: "CdmpDevice \<Rightarrow> CdmpDevice \<times> status_call list" where
  "EnterError = dev_SetStatus STATUS_ERROR False"

definition dev_Reset :: "CdmpDevice \<Rightarrow> CdmpDevice \<times> status_call list" where
  "dev_Reset d = (case dev_SetStatus OFFLINE False d of
     (d', calls) \<Rightarrow> (d'\<lparr>dev_health_status := HEALTH_OK\<rparr>, calls))"

definition GetLastHeartbeatDeltaMs :: "int \<Rightarrow> CdmpDevice \<Rightarrow> int" where
  "GetLastHeartbeatDeltaMs now d = (now - dev_last_heartbeat d) mod 2 ^ 64"

definition SetFeature :: "u16 \<Rightarrow> bool \<Rightarrow> CdmpDevice \<Rightarrow> CdmpDevice" where
  "SetFeature m is_set d =
     (if is_set then d\<lparr>dev_features := dev_features d OR m\<rparr>
      else d\<lparr>dev_features := dev_features d AND NOT m\<rparr>)"

definition IncrementUptime :: "CdmpDevice \<Rightarrow> CdmpDevice" where
  "IncrementUptime d = d\<lparr>dev_uptime_counter := dev_uptime_counter d + 1\<rparr>"

definition IsOnline :: "CdmpDevice \<Rightarrow> bool" where
  "IsOnline d \<longleftrightarrow> dev_status d = ONLINE"

definition IsProtocolCompatible :: "u8 \<Rightarrow> CdmpDevice \<Rightarrow> bool" where
  "IsProtocolCompatible other_version d \<longleftrightarrow>
     drop_bit 4 (dev_protocol_version d) AND 0x0F = drop_bit 4 other_version AND 0x0F"

section \<open>Device information, stagger, unique identifier\<close>

record CdmpDeviceInfo =
  di_device_id :: u8
  di_uid :: u32
  di_features :: u16
  di_status :: CdmpDeviceStatus

definition ToDeviceInfo :: "CdmpDevice \<Rightarrow> CdmpDeviceInfo" where
  "ToDeviceInfo d = \<lparr>di_device_id = dev_device_id d, di_uid = dev_uid d,
     di_features = dev_features d, di_status = dev_status d\<rparr>"

text \<open>The elements of the \<open>std::set\<close> before the device's own ID, times the offset.\<close>

definition CalculateStaggeredMessageTimeOffset :: "u8 list \<Rightarrow> u8 \<Rightarrow> nat" where
  "CalculateStaggeredMessageTimeOffset device_ids device_id =
     length (takeWhile (\<lambda>i. i \<noteq> device_id) (sort (remdups (device_id # device_ids))))
       * STAGGERED_MESSAGE_TIME_OFFSET_MS"

text \<open>
  \<open>crc32_ieee\<close>, the hardware ID (with the length the driver reports) and the random source are
  Zephyr's, and so are arguments; \<open>draw k\<close> is the \<open>k\<close>-th random number. The loop that draws until
  it gets a number other than 0 may not end, so its result is an option.
\<close>

definition FromHardwareId :: "(bytes \<Rightarrow> u32) \<Rightarrow> bytes \<Rightarrow> u32 option" where
  "FromHardwareId crc32 hardware_id =
     (if hardware_id = [] then None
      else if list_all (\<lambda>b. b = 0x00) hardware_id \<or> list_all (\<lambda>b. b = 0xFF) hardware_id then None
      else let uid = crc32 hardware_id in Some (if uid \<noteq> 0 then uid else 1))"

partial_function (option) draw_nonzero :: "(nat \<Rightarrow> u32) \<Rightarrow> nat \<Rightarrow> u32 option" where
  "draw_nonzero draw k = (if draw k \<noteq> 0 then Some (draw k) else draw_nonzero draw (Suc k))"

definition CdmpUid_Generate :: "(bytes \<Rightarrow> u32) \<Rightarrow> bytes option \<Rightarrow> (nat \<Rightarrow> u32) \<Rightarrow> u32 option" where
  "CdmpUid_Generate crc32 hardware_id draw =
     (case hardware_id of
        None \<Rightarrow> draw_nonzero draw 0
      | Some h \<Rightarrow> (case FromHardwareId crc32 h of Some uid \<Rightarrow> Some uid | None \<Rightarrow> draw_nonzero draw 0))"

section \<open>Properties\<close>

lemma dev_SetStatus_fields [simp]:
  "dev_device_id (fst (dev_SetStatus t f d)) = dev_device_id d"
  "dev_uid (fst (dev_SetStatus t f d)) = dev_uid d"
  "dev_protocol_version (fst (dev_SetStatus t f d)) = dev_protocol_version d"
  "dev_features (fst (dev_SetStatus t f d)) = dev_features d"
  "dev_last_heartbeat (fst (dev_SetStatus t f d)) = dev_last_heartbeat d"
  "dev_state_digest (fst (dev_SetStatus t f d)) = dev_state_digest d"
  "dev_is_lowest_id_on_network (fst (dev_SetStatus t f d)) = dev_is_lowest_id_on_network d"
  "dev_staggered_message_delay (fst (dev_SetStatus t f d)) = dev_staggered_message_delay d"
  by (simp_all add: dev_SetStatus_def split: prod.splits)

lemma SetStatus_status:
  "sm_status (fst (SetStatus t f m)) =
     (if t = sm_status m \<or> f \<or> CanTransitionTo t m then t else sm_status m)"
  by (simp add: SetStatus_def Let_def)

lemma dev_SetStatus_status:
  "dev_status (fst (dev_SetStatus t f d)) =
     (if t = dev_status d \<or> f \<or> IsValidTransition (dev_status d) t then t else dev_status d)"
  using SetStatus_status [of t f "dev_status_machine d"]
  by (cases "SetStatus t f (dev_status_machine d)")
    (simp add: dev_SetStatus_def CanTransitionTo_def)

text \<open>
  A status change without force reaches the requested status just when the protocol's transition
  table allows it; every registered handler is then called once with the old and the new status,
  and otherwise nothing changes and no handler is called.
\<close>

theorem set_status_follows_table:
  "SetStatus t False m =
     (if t \<noteq> sm_status m \<and> IsValidTransition (sm_status m) t
      then (m\<lparr>sm_status := t\<rparr>, map (\<lambda>i. (i, sm_status m, t)) (sm_callbacks m))
      else (m, []))"
  by (simp add: SetStatus_def CanTransitionTo_def NotifyStatusChange_def Let_def)

lemma register_handler_fresh:
  "fst (RegisterStatusChangeHandler m) \<notin> set (sm_callbacks m) \<and>
   0 < fst (RegisterStatusChangeHandler m)"
proof -
  have "x \<le> fold max (sm_callbacks m) 0" if "x \<in> set (0 # sm_callbacks m)" for x
    using that unfolding Max.set_eq_fold [symmetric] by (rule Max_ge [OF finite_set])
  then show ?thesis by (fastforce simp: RegisterStatusChangeHandler_def Let_def)
qed

lemma takeWhile_neq_sorted:
  "sorted_wrt (<) ys \<Longrightarrow> i \<in> set ys \<Longrightarrow> takeWhile (\<lambda>j. j \<noteq> i) ys = filter (\<lambda>j. j < i) ys"
  for i :: "'a::linorder"
proof (induction ys)
  case Nil
  then show ?case by simp
next
  case (Cons y ys)
  show ?case
  proof (cases "y = i")
    case True
    with Cons.prems(1) have "filter (\<lambda>j. j < i) ys = []" by (fastforce simp: filter_empty_conv)
    with True show ?thesis by simp
  next
    case False
    with Cons show ?thesis by auto
  qed
qed

lemma stagger_eq_card:
  "CalculateStaggeredMessageTimeOffset ids i = card {j \<in> set ids. j < i} * STAGGERED_MESSAGE_TIME_OFFSET_MS"
proof -
  let ?ys = "sort (remdups (i # ids))"
  have "sorted_wrt (<) ?ys" by (simp add: strict_sorted_iff)
  then have "takeWhile (\<lambda>j. j \<noteq> i) ?ys = filter (\<lambda>j. j < i) ?ys"
    by (rule takeWhile_neq_sorted) simp
  moreover have "length (filter (\<lambda>j. j < i) ?ys) = card (set (filter (\<lambda>j. j < i) ?ys))"
    by (rule distinct_card [symmetric]) (simp add: distinct_filter)
  moreover have "set (filter (\<lambda>j. j < i) ?ys) = {j \<in> set ids. j < i}" by auto
  ultimately show ?thesis by (simp add: CalculateStaggeredMessageTimeOffset_def)
qed

text \<open>
  Two units that know the same set of device IDs answer a broadcast at least one stagger apart:
  the unit with the higher ID waits at least 5 ms longer.
\<close>

theorem stagger_separates:
  assumes "set ids_a \<union> {a} = set ids_b \<union> {b}" and "a < b"
  shows "CalculateStaggeredMessageTimeOffset ids_a a + STAGGERED_MESSAGE_TIME_OFFSET_MS
      \<le> CalculateStaggeredMessageTimeOffset ids_b b"
proof -
  have "a \<in> set ids_b" using assms by auto
  moreover have "{j \<in> set ids_a. j < a} \<subseteq> {j \<in> set ids_b. j < b} - {a}"
    using assms by auto
  ultimately have "card {j \<in> set ids_a. j < a} < card {j \<in> set ids_b. j < b}"
    using assms(2) by (intro psubset_card_mono) auto
  then have "Suc (card {j \<in> set ids_a. j < a}) \<le> card {j \<in> set ids_b. j < b}" by simp
  then have "Suc (card {j \<in> set ids_a. j < a}) * STAGGERED_MESSAGE_TIME_OFFSET_MS
      \<le> card {j \<in> set ids_b. j < b} * STAGGERED_MESSAGE_TIME_OFFSET_MS"
    by (rule mult_le_mono1)
  then show ?thesis by (simp add: stagger_eq_card)
qed

theorem stagger_separates_witness:
  "CalculateStaggeredMessageTimeOffset [5, 9] 3 + STAGGERED_MESSAGE_TIME_OFFSET_MS
     \<le> CalculateStaggeredMessageTimeOffset [3, 5] 9"
  by (rule stagger_separates) auto

lemma draw_nonzero_result:
  assumes "draw_nonzero draw k = Some uid"
  shows "uid \<noteq> 0"
proof (rule draw_nonzero.raw_induct [where P = "\<lambda>d k r. r \<noteq> 0", OF _ assms])
  fix f and d :: "nat \<Rightarrow> u32" and k r
  assume IH: "\<And>d k r. f d k = Some r \<Longrightarrow> r \<noteq> 0"
    and eq: "(if d k \<noteq> 0 then Some (d k) else f d (Suc k)) = Some r"
  then show "r \<noteq> 0" by (cases "d k = 0") auto
qed

lemma draw_nonzero_returns: "draw (k + n) \<noteq> 0 \<Longrightarrow> \<exists>uid. draw_nonzero draw k = Some uid"
proof (induction n arbitrary: k)
  case 0
  then show ?case by (subst draw_nonzero.simps) simp
next
  case (Suc n)
  then have "\<exists>uid. draw_nonzero draw (Suc k) = Some uid" by simp
  then show ?case by (subst draw_nonzero.simps) simp
qed

text \<open>
  Generating the unique identifier returns a non-zero number as soon as the random source yields
  one, whatever the hardware ID is; and a hardware ID that is neither empty nor blank decides it.
\<close>

theorem uid_generated_nonzero:
  assumes "draw n \<noteq> 0"
  shows "\<exists>uid. CdmpUid_Generate crc32 hardware_id draw = Some uid \<and> uid \<noteq> 0 \<and>
      (\<forall>h. hardware_id = Some h \<longrightarrow> (\<exists>b \<in> set h. b \<noteq> 0) \<longrightarrow> (\<exists>b \<in> set h. b \<noteq> 0xFF) \<longrightarrow>
        uid = (if crc32 h = 0 then 1 else crc32 h))"
proof -
  obtain r where r: "draw_nonzero draw 0 = Some r"
    using assms draw_nonzero_returns [of draw 0 n] by auto
  then have "r \<noteq> 0" by (rule draw_nonzero_result)
  with r show ?thesis
    by (auto simp: CdmpUid_Generate_def FromHardwareId_def list_all_iff Let_def split: option.splits)
qed

theorem uid_generated_nonzero_witness:
  "\<exists>uid. CdmpUid_Generate (\<lambda>_. 0) (Some [0, 0]) (\<lambda>k. of_nat k) = Some uid \<and> uid \<noteq> 0"
  using uid_generated_nonzero [of "\<lambda>k. of_nat k" 1 "\<lambda>_. 0" "Some [0, 0]"] by auto

end
