(* ===== verification/Cdmp_Transactions.thy ===== *)
theory Cdmp_Transactions
  imports Cdmp_Messages "HOL-Library.AList" "HOL-Library.Multiset"
begin

text \<open>
  The transactions of the command service
  (\<open>src/subsys/cdmp/services/command_service/cdmp_transaction_service.h/.cpp\<close>): numbering,
  completion by a matching response, timeout and cancellation. The unordered map of pending
  transactions is an association list in iteration order. A callback is known by a number; the
  operations return its invocations and the scheduling of the timeout task as effects, in order.
  Callbacks do not call back into the service here.
\<close>

type_synonym u64 = "64 word"

record PendingTransaction =
  pt_transaction_id :: u8
  pt_start_time :: u64
  pt_timeout :: u64
  pt_callback :: "nat option"
  pt_expected_command :: u8
  pt_target_device_id :: u8

record CdmpTransactionService =
  ts_has_timeout_task :: bool
  ts_is_timeout_task_running :: bool
  ts_next_transaction_id :: u8
  ts_pending_transactions :: "(u8 \<times> PendingTransaction) list"

datatype transaction_effect =
    TimeoutSchedule
  | TimeoutReschedule int
  | TimeoutCancel
  | TransactionCallback nat u8 u8 bytes

definition TransactionService_new :: CdmpTransactionService where
  "TransactionService_new = \<lparr>ts_has_timeout_task = False, ts_is_timeout_task_running = False,
     ts_next_transaction_id = 1, ts_pending_transactions = []\<rparr>"

definition TransactionService_Initialize :: "CdmpTransactionService \<Rightarrow> CdmpTransactionService" where
  "TransactionService_Initialize s = s\<lparr>ts_has_timeout_task := True\<rparr>"

definition TransactionService_Start ::
  "CdmpTransactionService \<Rightarrow> CdmpTransactionService \<times> transaction_effect list" where
  "TransactionService_Start s =
     (if \<not> ts_is_timeout_task_running s \<and> ts_has_timeout_task s
      then (s\<lparr>ts_is_timeout_task_running := True\<rparr>, [TimeoutSchedule])
      else (s, []))"

definition InvokeCallback :: "PendingTransaction \<Rightarrow> u8 \<Rightarrow> bytes \<Rightarrow> transaction_effect list" where
  "InvokeCallback t rc d =
     (case pt_callback t of None \<Rightarrow> []
      | Some c \<Rightarrow> [TransactionCallback c (pt_transaction_id t) rc d])"

definition TransactionService_Stop ::
  "CdmpTransactionService \<Rightarrow> CdmpTransactionService \<times> transaction_effect list" where
  "TransactionService_Stop s =
     (let s' = s\<lparr>ts_is_timeout_task_running := False\<rparr>;
          cancelled = ts_pending_transactions s'
      in (s'\<lparr>ts_pending_transactions := []\<rparr>,
          (if ts_has_timeout_task s' then [TimeoutCancel] else []) @
          concat (map (\<lambda>(_, t). InvokeCallback t RC_CANCELLED []) cancelled)))"

text \<open>The number after a given one: 0 is skipped.\<close>

definition advance_id :: "u8 \<Rightarrow> u8" where
  "advance_id n = (let n' = n + 1 in if n' = 0 then 1 else n')"

text \<open>The \<open>do ... while\<close> of \<open>GetNextTransactionId\<close>, entered with the number just taken.\<close>

partial_function (option) find_next_id :: "(u8 \<Rightarrow> bool) \<Rightarrow> u8 \<Rightarrow> u8 \<Rightarrow> u8 option" where
  "find_next_id pending taken n =
     (let n' = advance_id n
      in if pending n' \<and> n' \<noteq> taken then find_next_id pending taken n' else Some n')"

definition is_pending :: "CdmpTransactionService \<Rightarrow> u8 \<Rightarrow> bool" where
  "is_pending s i \<longleftrightarrow> map_of (ts_pending_transactions s) i \<noteq> None"

definition GetNextTransactionId ::
  "CdmpTransactionService \<Rightarrow> (u8 \<times> CdmpTransactionService) option" where
  "GetNextTransactionId s =
     (let taken = ts_next_transaction_id s
      in map_option (\<lambda>n. (taken, s\<lparr>ts_next_transaction_id := n\<rparr>))
           (find_next_id (is_pending s) taken taken))"

definition StartTransaction ::
  "u64 \<Rightarrow> u8 \<Rightarrow> u8 \<Rightarrow> int \<Rightarrow> nat option \<Rightarrow> CdmpTransactionService \<Rightarrow>
   (u8 \<times> CdmpTransactionService) option" where
  "StartTransaction now target command timeout callback s =
     map_option (\<lambda>(i, s'). (i, s'\<lparr>ts_pending_transactions :=
         AList.update i \<lparr>pt_transaction_id = i, pt_start_time = now,
           pt_timeout = word_of_int timeout, pt_callback = callback,
           pt_expected_command = command, pt_target_device_id = target\<rparr>
           (ts_pending_transactions s')\<rparr>))
       (GetNextTransactionId s)"

definition IsResponseTo :: "PendingTransaction \<Rightarrow> CdmpCommandResponseMessage \<Rightarrow> bool" where
  "IsResponseTo t r \<longleftrightarrow>
     cp_command_code r = pt_expected_command t \<and>
     (pt_target_device_id t = DEVICE_ID_BROADCAST \<or> cp_source_device_id r = pt_target_device_id t)"

definition CompleteTransaction ::
  "CdmpCommandResponseMessage \<Rightarrow> CdmpTransactionService \<Rightarrow>
   CdmpTransactionService \<times> transaction_effect list" where
  "CompleteTransaction r s =
     (case map_of (ts_pending_transactions s) (cp_transaction_id r) of
        None \<Rightarrow> (s, [])
      | Some t \<Rightarrow>
          if \<not> IsResponseTo t r then (s, [])
          else (s\<lparr>ts_pending_transactions :=
                    AList.delete (cp_transaction_id r) (ts_pending_transactions s)\<rparr>,
                InvokeCallback t (cp_result_code r) (cp_data r)))"

definition is_expired :: "u64 \<Rightarrow> PendingTransaction \<Rightarrow> bool" where
  "is_expired now t \<longleftrightarrow> pt_timeout t \<le> now - pt_start_time t"

text \<open>
  One pass of the clean-up loop takes the first expired entry out; the loop ends when a search of
  the whole map finds none.
\<close>

function CleanupExpired ::
  "u64 \<Rightarrow> (u8 \<times> PendingTransaction) list \<Rightarrow>
   (u8 \<times> PendingTransaction) list \<times> transaction_effect list" where
  "CleanupExpired now ps =
     (case find (\<lambda>(_, t). is_expired now t) ps of
        None \<Rightarrow> (ps, [])
      | Some (i, t) \<Rightarrow>
          (case CleanupExpired now (remove1 (i, t) ps) of
             (ps', es) \<Rightarrow> (ps', InvokeCallback t RC_TIMEOUT [] @ es)))"
  by pat_completeness auto
termination
proof (relation "measure (\<lambda>(now, ps). length ps)")
  fix now ps x i t
  assume "find (\<lambda>(_, t). is_expired now t) ps = Some x" and "(i, t) = x"
  then have "(i, t) \<in> set ps" by (auto simp: find_Some_iff in_set_conv_nth)
  then show "((now, remove1 (i, t) ps), now, ps) \<in> measure (\<lambda>(now, ps). length ps)"
    by (auto simp: length_remove1 dest: length_pos_if_in_set)
qed simp

declare CleanupExpired.simps [simp del]

definition CleanupExpiredTransactions ::
  "u64 \<Rightarrow> CdmpTransactionService \<Rightarrow> CdmpTransactionService \<times> transaction_effect list" where
  "CleanupExpiredTransactions now s =
     (case CleanupExpired now (ts_pending_transactions s) of
        (ps, es) \<Rightarrow> (s\<lparr>ts_pending_transactions := ps\<rparr>, es))"

text \<open>\<open>timeout\<close> is \<open>CONFIG_EERIE_LEAP_CDMP_CMD_TRANSACTION_TIMEOUT_MS\<close>.\<close>

definition ProcessTransactionTimeouts ::
  "int \<Rightarrow> u64 \<Rightarrow> CdmpTransactionService \<Rightarrow> CdmpTransactionService \<times> transaction_effect list" where
  "ProcessTransactionTimeouts timeout now s =
     (if \<not> ts_is_timeout_task_running s \<or> \<not> ts_has_timeout_task s then (s, [])
      else (case CleanupExpiredTransactions now s of
              (s', es) \<Rightarrow> (s', TimeoutReschedule (timeout div 2) # es)))"

definition IsTransactionPending :: "u8 \<Rightarrow> CdmpTransactionService \<Rightarrow> bool" where
  "IsTransactionPending i s = is_pending s i"

definition GetPendingTransactionCount :: "CdmpTransactionService \<Rightarrow> nat" where
  "GetPendingTransactionCount s = length (ts_pending_transactions s)"

section \<open>The numbering loop ends\<close>

lemma advance_id_nonzero [simp]: "advance_id n \<noteq> 0"
  by (simp add: advance_id_def Let_def)

lemma unat_advance_id:
  "unat (advance_id n) = (if unat n = 255 then 1 else Suc (unat n))"
proof -
  have "n + 1 = 0 \<longleftrightarrow> unat n = 255"
    using u8_unat_less [of n] by (auto simp: u8_eq_iff_unat unat_word_ariths) presburger
  moreover have "unat (n + 1) = Suc (unat n)" if "n + 1 \<noteq> 0"
    using that unatSuc [of n] by (simp add: add.commute)
  ultimately show ?thesis by (auto simp: advance_id_def Let_def)
qed

text \<open>How many steps the loop is away from the number it started with.\<close>

definition id_distance :: "u8 \<Rightarrow> u8 \<Rightarrow> nat" where
  "id_distance taken n =
     (if unat n < unat taken then unat taken - unat n else unat taken + 255 - unat n)"

lemma id_distance_step:
  assumes "taken \<noteq> 0" and "n \<noteq> 0" and "advance_id n \<noteq> taken"
  shows "id_distance taken n = Suc (id_distance taken (advance_id n))"
proof -
  have "0 < unat taken" "0 < unat n" "unat taken < 256" "unat n < 256"
    using assms by (auto simp: unat_gt_0 u8_unat_less)
  moreover have "unat (advance_id n) \<noteq> unat taken" using assms(3) by (simp add: u8_eq_iff_unat)
  ultimately show ?thesis by (auto simp: id_distance_def unat_advance_id split: if_splits)
qed

lemma id_distance_inj:
  assumes "m \<noteq> 0" and "n \<noteq> 0" and "id_distance taken m = id_distance taken n"
  shows "m = n"
proof -
  have "0 < unat m" "0 < unat n" "unat m < 256" "unat n < 256" "unat taken < 256"
    using assms by (auto simp: unat_gt_0 u8_unat_less)
  with assms(3) show ?thesis
    by (auto simp: id_distance_def u8_eq_iff_unat split: if_splits)
qed

lemma id_distance_last: "taken \<noteq> 0 \<Longrightarrow> n \<noteq> 0 \<Longrightarrow> advance_id n = taken \<Longrightarrow> id_distance taken n = 1"
  using u8_unat_less [of n] unat_gt_0 [of n] unat_gt_0 [of taken]
  by (auto simp: id_distance_def unat_advance_id split: if_splits)

lemma id_distance_pos: "0 < id_distance taken n" if "taken \<noteq> 0"
  using that u8_unat_less [of n] unat_gt_0 [of taken] by (auto simp: id_distance_def)

lemma id_distance_start: "f \<noteq> taken \<Longrightarrow> f \<noteq> 0 \<Longrightarrow> id_distance taken f < id_distance taken taken"
  using u8_unat_less [of f] u8_unat_less [of taken]
  by (auto simp: id_distance_def u8_eq_iff_unat)

lemma find_next_id_returns:
  assumes "taken \<noteq> 0" and "n \<noteq> 0"
  shows "\<exists>m. find_next_id pending taken n = Some m \<and> m \<noteq> 0 \<and> (m = taken \<or> \<not> pending m) \<and>
     ((\<exists>f. f \<noteq> 0 \<and> \<not> pending f \<and> id_distance taken f < id_distance taken n) \<longrightarrow> m \<noteq> taken)"
  using assms(2)
proof (induction "id_distance taken n" arbitrary: n rule: less_induct)
  case less
  let ?n = "advance_id n"
  show ?case
  proof (cases "pending ?n \<and> ?n \<noteq> taken")
    case True
    then have step: "id_distance taken n = Suc (id_distance taken ?n)"
      using assms(1) less.prems by (simp add: id_distance_step)
    then obtain m where m: "find_next_id pending taken ?n = Some m" "m \<noteq> 0"
      "m = taken \<or> \<not> pending m"
      "(\<exists>f. f \<noteq> 0 \<and> \<not> pending f \<and> id_distance taken f < id_distance taken ?n) \<longrightarrow> m \<noteq> taken"
      using less.hyps [of ?n] by auto
    have "id_distance taken f < id_distance taken ?n"
      if "f \<noteq> 0" "\<not> pending f" "id_distance taken f < id_distance taken n" for f
      using that True step id_distance_inj [of f ?n taken] by fastforce
    with m have "(\<exists>f. f \<noteq> 0 \<and> \<not> pending f \<and> id_distance taken f < id_distance taken n) \<longrightarrow> m \<noteq> taken"
      by blast
    with m True show ?thesis by (subst find_next_id.simps) (simp add: Let_def)
  next
    case False
    have "\<not> (\<exists>f. id_distance taken f < id_distance taken n)" if "?n = taken"
      using id_distance_last [OF assms(1) less.prems that] id_distance_pos [OF assms(1)]
      by (metis less_one less_irrefl)
    with False show ?thesis by (subst find_next_id.simps) (auto simp: Let_def)
  qed
qed

section \<open>Invariant\<close>

text \<open>
  Every key is the number of its transaction, no number occurs twice and 0 is never used. The
  numbers are \<open>fresh\<close> while the next number is not pending.
\<close>

definition transactions_wf :: "CdmpTransactionService \<Rightarrow> bool" where
  "transactions_wf s \<longleftrightarrow>
     distinct (map fst (ts_pending_transactions s)) \<and>
     list_all (\<lambda>(i, t). i \<noteq> 0 \<and> pt_transaction_id t = i) (ts_pending_transactions s) \<and>
     ts_next_transaction_id s \<noteq> 0"

definition fresh_id :: "CdmpTransactionService \<Rightarrow> bool" where
  "fresh_id s \<longleftrightarrow> \<not> is_pending s (ts_next_transaction_id s)"

lemma is_pending_keys: "is_pending s i \<longleftrightarrow> i \<in> fst ` set (ts_pending_transactions s)"
  by (simp add: is_pending_def map_of_eq_None_iff)

lemma some_id_free:
  assumes "length (ts_pending_transactions s) < 254"
  shows "\<exists>f. f \<noteq> 0 \<and> f \<noteq> taken \<and> \<not> is_pending s f"
proof (rule ccontr)
  assume "\<not> ?thesis"
  then have "UNIV - {0, taken} \<subseteq> fst ` set (ts_pending_transactions s)"
    by (auto simp: is_pending_keys)
  then have "card (UNIV - {0, taken} :: u8 set) \<le> length (ts_pending_transactions s)"
    by (meson card_mono finite_imageI finite_set card_image_le card_length order_trans)
  moreover have "254 \<le> card (UNIV - {0, taken} :: u8 set)"
  proof -
    have "card (UNIV :: u8 set) = 256" by (simp add: card_word)
    moreover have "card (UNIV :: u8 set) - card {0, taken} \<le> card (UNIV - {0, taken} :: u8 set)"
      by (rule diff_card_le_card_Diff) simp
    moreover have "card {0, taken} \<le> 2" by (simp add: card_insert_if)
    ultimately show ?thesis by linarith
  qed
  ultimately show False using assms by linarith
qed

lemma StartTransaction_some:
  assumes "transactions_wf s"
  obtains m where "m \<noteq> 0"
    and "StartTransaction now target command timeout callback s =
      Some (ts_next_transaction_id s,
        s\<lparr>ts_next_transaction_id := m,
          ts_pending_transactions := AList.update (ts_next_transaction_id s)
            \<lparr>pt_transaction_id = ts_next_transaction_id s, pt_start_time = now,
             pt_timeout = word_of_int timeout, pt_callback = callback,
             pt_expected_command = command, pt_target_device_id = target\<rparr>
            (ts_pending_transactions s)\<rparr>)"
    and "m = ts_next_transaction_id s \<or> \<not> is_pending s m"
    and "length (ts_pending_transactions s) < 254 \<Longrightarrow> m \<noteq> ts_next_transaction_id s"
proof -
  let ?k = "ts_next_transaction_id s"
  have k: "?k \<noteq> 0" using assms by (simp add: transactions_wf_def)
  obtain m where m: "find_next_id (is_pending s) ?k ?k = Some m" "m \<noteq> 0"
    "m = ?k \<or> \<not> is_pending s m"
    and free: "(\<exists>f. f \<noteq> 0 \<and> \<not> is_pending s f \<and> id_distance ?k f < id_distance ?k ?k) \<Longrightarrow> m \<noteq> ?k"
    using find_next_id_returns [OF k k, of "is_pending s"] by blast
  have "length (ts_pending_transactions s) < 254 \<Longrightarrow> m \<noteq> ?k"
    using some_id_free [of s ?k] id_distance_start free by blast
  then show thesis
    using that [of m] m by (simp add: StartTransaction_def GetNextTransactionId_def Let_def)
qed

section \<open>Starting a transaction\<close>

lemma map_of_update_list [simp]: "map_of (AList.update k v al) = (map_of al)(k \<mapsto> v)"
  by (rule ext) (simp add: AList.update_conv')

lemma set_update_list: "set (AList.update k v al) \<subseteq> insert (k, v) (set al)"
  by (induction al) auto

lemma StartTransaction_keeps:
  assumes wf: "transactions_wf s"
    and run: "StartTransaction now target command timeout callback s = Some (i, s')"
  shows "transactions_wf s' \<and> i = ts_next_transaction_id s \<and> i \<noteq> 0 \<and>
    map_of (ts_pending_transactions s') = (map_of (ts_pending_transactions s))
      (i \<mapsto> \<lparr>pt_transaction_id = i, pt_start_time = now, pt_timeout = word_of_int timeout,
        pt_callback = callback, pt_expected_command = command, pt_target_device_id = target\<rparr>) \<and>
    (length (ts_pending_transactions s) < 254 \<longrightarrow> fresh_id s')"
proof -
  let ?t = "\<lparr>pt_transaction_id = i, pt_start_time = now, pt_timeout = word_of_int timeout,
      pt_callback = callback, pt_expected_command = command, pt_target_device_id = target\<rparr>"
  obtain m where m: "m \<noteq> 0" "i = ts_next_transaction_id s"
    "s' = s\<lparr>ts_next_transaction_id := m,
          ts_pending_transactions := AList.update i ?t (ts_pending_transactions s)\<rparr>"
    "m = i \<or> \<not> is_pending s m" "length (ts_pending_transactions s) < 254 \<longrightarrow> m \<noteq> i"
    by (rule StartTransaction_some [OF wf, of now target command timeout callback])
      (use run in auto)
  have i: "i \<noteq> 0" using wf m(2) by (simp add: transactions_wf_def)
  have "list_all (\<lambda>(i, t). i \<noteq> 0 \<and> pt_transaction_id t = i)
      (AList.update i ?t (ts_pending_transactions s))"
    using wf i set_update_list [of i ?t "ts_pending_transactions s"]
    by (auto simp: transactions_wf_def list_all_iff)
  then have "transactions_wf s'"
    using wf m by (simp add: transactions_wf_def distinct_update)
  moreover have "length (ts_pending_transactions s) < 254 \<longrightarrow> fresh_id s'"
    using m by (auto simp: fresh_id_def is_pending_def)
  ultimately show ?thesis using m i by simp
qed

section \<open>Expiry\<close>

lemma find_split:
  assumes "find P xs = Some x"
  obtains ys zs where "xs = ys @ x # zs" and "P x" and "\<forall>y\<in>set ys. \<not> P y"
proof -
  obtain i where i: "i < length xs" "x = xs ! i" "P (xs ! i)" "\<forall>j<i. \<not> P (xs ! j)"
    using assms by (auto simp: find_Some_iff)
  then have "\<forall>y\<in>set (take i xs). \<not> P y" by (auto simp: in_set_conv_nth)
  with i show thesis by (intro that [of "take i xs" "drop (Suc i) xs"]) (simp_all add: id_take_nth_drop)
qed

lemma CleanupExpired_filter:
  "CleanupExpired now ps =
     (filter (\<lambda>(_, t). \<not> is_expired now t) ps,
      concat (map (\<lambda>(_, t). InvokeCallback t RC_TIMEOUT []) (filter (\<lambda>(_, t). is_expired now t) ps)))"
proof (induction now ps rule: CleanupExpired.induct)
  case (1 now ps)
  show ?case
  proof (cases "find (\<lambda>(_, t). is_expired now t) ps")
    case None
    then have none: "\<forall>(i, t) \<in> set ps. \<not> is_expired now t" by (auto simp: find_None_iff)
    then have "filter (\<lambda>(_, t). \<not> is_expired now t) ps = ps"
      "filter (\<lambda>(_, t). is_expired now t) ps = []"
      by (auto simp: filter_id_conv filter_empty_conv)
    with None show ?thesis by (simp add: CleanupExpired.simps)
  next
    case (Some x)
    obtain i t where x: "x = (i, t)" by (cases x)
    from find_split [OF Some] obtain ys zs where split: "ps = ys @ (i, t) # zs" "is_expired now t"
      and pre: "\<forall>(i, t) \<in> set ys. \<not> is_expired now t"
      unfolding x by (auto simp: case_prod_beta)
    have keep: "filter (\<lambda>(_, t). is_expired now t) ys = []" and no: "(i, t) \<notin> set ys"
      using pre split(2) by (auto simp: filter_empty_conv)
    have "remove1 (i, t) ps = ys @ zs" using split no by (simp add: remove1_append)
    with 1 [OF Some [unfolded x]] Some split keep show ?thesis
      by (subst CleanupExpired.simps) (simp add: x)
  qed
qed

section \<open>Runs of the service\<close>

text \<open>
  The calls the command service and the timeout task make. The timeout passed to
  \<open>StartTransaction\<close> and the one the task is rescheduled with are the configured one.
\<close>

inductive transaction_step ::
  "CdmpTransactionService \<Rightarrow> CdmpTransactionService \<Rightarrow> bool" where
  init: "transaction_step s (TransactionService_Initialize s)"
| start: "transaction_step s (fst (TransactionService_Start s))"
| stop: "transaction_step s (fst (TransactionService_Stop s))"
| begin_transaction: "StartTransaction now target command timeout callback s = Some (i, s') \<Longrightarrow>
    transaction_step s s'"
| complete: "transaction_step s (fst (CompleteTransaction r s))"
| timeouts: "transaction_step s (fst (ProcessTransactionTimeouts timeout now s))"

inductive_cases transaction_stepE: "transaction_step s s'"

lemma wf_filter:
  "transactions_wf s \<Longrightarrow> transactions_wf (s\<lparr>ts_pending_transactions := filter P (ts_pending_transactions s)\<rparr>)"
  by (auto simp: transactions_wf_def distinct_map inj_on_def list_all_iff)

lemma wf_delete:
  "transactions_wf s \<Longrightarrow>
   transactions_wf (s\<lparr>ts_pending_transactions := AList.delete i (ts_pending_transactions s)\<rparr>)"
  using wf_filter [of s "\<lambda>(k, _). i \<noteq> k"] by (simp add: AList.delete_eq case_prod_beta)

lemma transaction_step_wf: "transactions_wf s \<Longrightarrow> transaction_step s s' \<Longrightarrow> transactions_wf s'"
proof (erule transaction_stepE)
  assume "transactions_wf s" "s' = TransactionService_Initialize s"
  then show ?thesis by (simp add: TransactionService_Initialize_def transactions_wf_def)
next
  assume "transactions_wf s" "s' = fst (TransactionService_Start s)"
  then show ?thesis by (simp add: TransactionService_Start_def transactions_wf_def)
next
  assume "transactions_wf s" "s' = fst (TransactionService_Stop s)"
  then show ?thesis by (simp add: TransactionService_Stop_def Let_def transactions_wf_def)
next
  fix now target command timeout callback i
  assume "transactions_wf s" "StartTransaction now target command timeout callback s = Some (i, s')"
  then show ?thesis by (simp add: StartTransaction_keeps)
next
  fix r
  assume "transactions_wf s" "s' = fst (CompleteTransaction r s)"
  then show ?thesis by (auto simp: CompleteTransaction_def wf_delete split: option.splits)
next
  fix timeout now
  assume "transactions_wf s" "s' = fst (ProcessTransactionTimeouts timeout now s)"
  then show ?thesis
    by (simp add: ProcessTransactionTimeouts_def CleanupExpiredTransactions_def
        CleanupExpired_filter wf_filter)
qed

interpretation transaction_runs: invariant_of "\<lambda>s. s = TransactionService_new" transaction_step transactions_wf
proof unfold_locales
  show "s = TransactionService_new \<Longrightarrow> transactions_wf s" for s
    by (simp add: TransactionService_new_def transactions_wf_def)
qed (rule transaction_step_wf)

section \<open>Properties\<close>

text \<open>
  In every state the service reaches, with fewer than 254 transactions pending, starting a
  transaction returns (its search loop ends), gives it a number that is not 0, records it under
  that number and leaves every other pending transaction as it was; and the number the following
  transaction will get is not pending, so no transaction is ever overwritten while the service
  stays below that load.
\<close>

theorem start_transaction_fresh:
  assumes "reachable (\<lambda>s. s = TransactionService_new) transaction_step s"
    and "fresh_id s" and "GetPendingTransactionCount s < 254"
  shows "\<exists>i s'. StartTransaction now target command timeout callback s = Some (i, s') \<and>
     i \<noteq> 0 \<and> \<not> IsTransactionPending i s \<and>
     map_of (ts_pending_transactions s') i = Some \<lparr>pt_transaction_id = i, pt_start_time = now,
       pt_timeout = word_of_int timeout, pt_callback = callback,
       pt_expected_command = command, pt_target_device_id = target\<rparr> \<and>
     (\<forall>j. j \<noteq> i \<longrightarrow> map_of (ts_pending_transactions s') j = map_of (ts_pending_transactions s) j) \<and>
     fresh_id s'"
proof -
  have wf: "transactions_wf s" using assms(1) by (rule transaction_runs.reachable_inv)
  then obtain i s' where run: "StartTransaction now target command timeout callback s = Some (i, s')"
    by (rule StartTransaction_some [of s now target command timeout callback]) blast
  note keeps = StartTransaction_keeps [OF wf run]
  then have "\<not> IsTransactionPending i s" and "fresh_id s'"
    using assms(2,3) by (simp_all add: fresh_id_def IsTransactionPending_def GetPendingTransactionCount_def)
  with run keeps show ?thesis by auto
qed

theorem start_transaction_fresh_witness:
  "\<exists>i s'. StartTransaction 5 7 0x10 1000 (Some 3) TransactionService_new = Some (i, s') \<and> fresh_id s'"
proof -
  have "fresh_id TransactionService_new" "GetPendingTransactionCount TransactionService_new < 254"
    by (simp_all add: fresh_id_def is_pending_def TransactionService_new_def GetPendingTransactionCount_def)
  then show ?thesis
    using start_transaction_fresh [of TransactionService_new 5 7 "0x10" 1000 "Some 3"]
    by (auto intro: reachable.start)
qed

text \<open>
  Freshness of the next number, once established, survives every other call: completion,
  expiry and cancellation only ever remove transactions. So it holds as long as no call is made
  with 254 or more transactions pending.
\<close>

theorem fresh_id_kept:
  assumes "reachable (\<lambda>s. s = TransactionService_new) transaction_step s"
    and "fresh_id s" and "GetPendingTransactionCount s < 254" and "transaction_step s s'"
  shows "fresh_id s'"
  using assms(4)
proof (rule transaction_stepE)
  fix now target command timeout callback i
  assume "StartTransaction now target command timeout callback s = Some (i, s')"
  with assms(3) show ?thesis
    using StartTransaction_keeps [OF transaction_runs.reachable_inv [OF assms(1)]]
    by (simp add: GetPendingTransactionCount_def)
next
  fix r
  assume "s' = fst (CompleteTransaction r s)"
  with assms(2) show ?thesis
    by (auto simp: CompleteTransaction_def fresh_id_def is_pending_def delete_conv'
        split: option.splits)
next
  fix timeout now
  assume "s' = fst (ProcessTransactionTimeouts timeout now s)"
  with assms(2) show ?thesis
    by (auto simp: ProcessTransactionTimeouts_def CleanupExpiredTransactions_def
        CleanupExpired_filter fresh_id_def is_pending_keys)
qed (use assms(2) in \<open>auto simp: fresh_id_def is_pending_def TransactionService_Initialize_def
    TransactionService_Start_def TransactionService_Stop_def Let_def\<close>)

theorem fresh_id_kept_witness:
  "fresh_id (fst (TransactionService_Stop TransactionService_new))"
proof -
  have "fresh_id TransactionService_new" "GetPendingTransactionCount TransactionService_new < 254"
    by (simp_all add: fresh_id_def is_pending_def TransactionService_new_def GetPendingTransactionCount_def)
  then show ?thesis
    using fresh_id_kept [of TransactionService_new "fst (TransactionService_Stop TransactionService_new)"]
    by (auto intro: reachable.start transaction_step.stop)
qed

text \<open>
  The callbacks the service still owes, and those a list of effects invokes, each with the number
  of its transaction.
\<close>

definition owed_callback :: "u8 \<times> PendingTransaction \<Rightarrow> (nat \<times> u8) list" where
  "owed_callback p = (case pt_callback (snd p) of None \<Rightarrow> [] | Some c \<Rightarrow> [(c, pt_transaction_id (snd p))])"

definition owed_callbacks :: "CdmpTransactionService \<Rightarrow> (nat \<times> u8) multiset" where
  "owed_callbacks s = mset (concat (map owed_callback (ts_pending_transactions s)))"

fun invoked_callback :: "transaction_effect \<Rightarrow> (nat \<times> u8) list" where
  "invoked_callback (TransactionCallback c i rc d) = [(c, i)]"
| "invoked_callback _ = []"

definition invoked_callbacks :: "transaction_effect list \<Rightarrow> (nat \<times> u8) multiset" where
  "invoked_callbacks es = mset (concat (map invoked_callback es))"

lemma invoked_append [simp]:
  "invoked_callbacks (es @ fs) = invoked_callbacks es + invoked_callbacks fs"
  "invoked_callbacks (e # es) = mset (invoked_callback e) + invoked_callbacks es"
  "invoked_callbacks [] = {#}"
  by (simp_all add: invoked_callbacks_def)

lemma invoked_InvokeCallback: "invoked_callbacks (InvokeCallback t rc d) = mset (owed_callback (i, t))"
  by (simp add: InvokeCallback_def owed_callback_def split: option.split)

lemma invoked_all:
  "invoked_callbacks (concat (map (\<lambda>(_, t). InvokeCallback t rc d) ps)) =
     mset (concat (map owed_callback ps))"
  by (induction ps) (auto simp: invoked_InvokeCallback)

lemma owed_partition:
  "mset (concat (map owed_callback ps)) =
     mset (concat (map owed_callback (filter P ps))) + mset (concat (map owed_callback (filter (\<lambda>p. \<not> P p) ps)))"
  by (induction ps) auto

lemma distinct_keys_delete:
  "distinct (map fst ps) \<Longrightarrow> map_of ps k = Some t \<Longrightarrow>
   mset (concat (map owed_callback ps)) =
     mset (owed_callback (k, t)) + mset (concat (map owed_callback (AList.delete k ps)))"
proof (induction ps)
  case Nil
  then show ?case by simp
next
  case (Cons p ps)
  have "k \<notin> fst ` set ps \<Longrightarrow> AList.delete k ps = ps"
    by (simp add: delete_id)
  with Cons show ?case by (cases p) (auto split: if_splits)
qed

text \<open>
  C18. A callback is neither lost nor invoked twice: whatever a response, the timeout task or the
  shutdown takes out of the pending transactions is exactly what has its callback invoked, and
  after the shutdown nothing is owed. A response only ever completes the transaction whose command
  it answers and whose target it comes from.
\<close>

theorem callbacks_exactly_once:
  assumes "reachable (\<lambda>s. s = TransactionService_new) transaction_step s"
  shows "(case CompleteTransaction r s of (s', es) \<Rightarrow>
       owed_callbacks s = owed_callbacks s' + invoked_callbacks es \<and>
       (es \<noteq> [] \<longrightarrow> (\<exists>t. map_of (ts_pending_transactions s) (cp_transaction_id r) = Some t \<and>
          IsResponseTo t r \<and> es = InvokeCallback t (cp_result_code r) (cp_data r)))) \<and>
     (case ProcessTransactionTimeouts timeout now s of (s', es) \<Rightarrow>
       owed_callbacks s = owed_callbacks s' + invoked_callbacks es) \<and>
     (case TransactionService_Stop s of (s', es) \<Rightarrow>
       owed_callbacks s = invoked_callbacks es \<and> owed_callbacks s' = {#})"
proof -
  have d: "distinct (map fst (ts_pending_transactions s))"
    using transaction_runs.reachable_inv [OF assms] by (simp add: transactions_wf_def)
  have 1: "owed_callbacks s = owed_callbacks s' + invoked_callbacks es \<and>
       (es \<noteq> [] \<longrightarrow> (\<exists>t. map_of (ts_pending_transactions s) (cp_transaction_id r) = Some t \<and>
          IsResponseTo t r \<and> es = InvokeCallback t (cp_result_code r) (cp_data r)))"
    if "CompleteTransaction r s = (s', es)" for s' es
  proof (cases "map_of (ts_pending_transactions s) (cp_transaction_id r)")
    case None
    with that show ?thesis by (simp add: CompleteTransaction_def)
  next
    case (Some t)
    with that show ?thesis
      using distinct_keys_delete [OF d Some] invoked_InvokeCallback [of t _ _ "cp_transaction_id r"]
      by (auto simp: CompleteTransaction_def owed_callbacks_def add.commute split: if_splits)
  qed
  have 2: "owed_callbacks s = owed_callbacks s' + invoked_callbacks es"
    if "ProcessTransactionTimeouts timeout now s = (s', es)" for s' es
    using that owed_partition [of "ts_pending_transactions s" "\<lambda>p. \<not> is_expired now (snd p)"]
    by (auto simp: ProcessTransactionTimeouts_def CleanupExpiredTransactions_def CleanupExpired_filter
        owed_callbacks_def invoked_all [unfolded case_prod_unfold] case_prod_unfold split: if_splits)
  have 3: "owed_callbacks s = invoked_callbacks es \<and> owed_callbacks s' = {#}"
    if "TransactionService_Stop s = (s', es)" for s' es
    using that by (auto simp: TransactionService_Stop_def Let_def owed_callbacks_def invoked_all)
  from 1 2 3 show ?thesis by (auto split: prod.split)
qed

definition one_pending :: CdmpTransactionService where
  "one_pending = \<lparr>ts_has_timeout_task = False, ts_is_timeout_task_running = False,
     ts_next_transaction_id = 2, ts_pending_transactions =
       [(1, \<lparr>pt_transaction_id = 1, pt_start_time = 5, pt_timeout = 1000, pt_callback = Some 3,
          pt_expected_command = 0x10, pt_target_device_id = 7\<rparr>)]\<rparr>"

lemma one_pending_reachable: "reachable (\<lambda>s. s = TransactionService_new) transaction_step one_pending"
proof (rule reachable.move [OF reachable.start])
  show "transaction_step TransactionService_new one_pending"
    by (rule transaction_step.begin_transaction [of 5 7 "0x10" 1000 "Some 3" _ 1])
      (simp add: StartTransaction_def GetNextTransactionId_def TransactionService_new_def
        find_next_id.simps advance_id_def is_pending_def one_pending_def)
qed simp

theorem callbacks_exactly_once_witness:
  "invoked_callbacks (snd (TransactionService_Stop one_pending)) = {#(3, 1)#}"
proof -
  have "owed_callbacks one_pending = {#(3, 1)#}"
    by (simp add: owed_callbacks_def one_pending_def owed_callback_def)
  moreover have "owed_callbacks one_pending = invoked_callbacks (snd (TransactionService_Stop one_pending))"
    using callbacks_exactly_once [OF one_pending_reachable, of undefined 0 0]
    unfolding case_prod_unfold by blast
  ultimately show ?thesis by simp
qed

text \<open>
  At 255 pending transactions the numbering has no free number left: with every number but 0
  pending, the next transaction takes over the entry of one that is still pending, which then
  neither completes nor times out: its callback is never invoked.
\<close>

lemma saturated_start_overwrites:
  assumes "transactions_wf s" and "\<forall>i. i \<noteq> 0 \<longrightarrow> IsTransactionPending i s"
  shows "\<exists>i s'. StartTransaction now target command timeout callback s = Some (i, s') \<and>
     IsTransactionPending i s \<and> ts_next_transaction_id s' = i \<and>
     map_of (ts_pending_transactions s') i = Some \<lparr>pt_transaction_id = i, pt_start_time = now,
       pt_timeout = word_of_int timeout, pt_callback = callback,
       pt_expected_command = command, pt_target_device_id = target\<rparr>"
proof -
  obtain m where m: "m \<noteq> 0"
    "StartTransaction now target command timeout callback s =
      Some (ts_next_transaction_id s,
        s\<lparr>ts_next_transaction_id := m,
          ts_pending_transactions := AList.update (ts_next_transaction_id s)
            \<lparr>pt_transaction_id = ts_next_transaction_id s, pt_start_time = now,
             pt_timeout = word_of_int timeout, pt_callback = callback,
             pt_expected_command = command, pt_target_device_id = target\<rparr>
            (ts_pending_transactions s)\<rparr>)"
    "m = ts_next_transaction_id s \<or> \<not> is_pending s m"
    by (rule StartTransaction_some [OF assms(1)])
  with assms show ?thesis by (auto simp: IsTransactionPending_def transactions_wf_def)
qed

end
