(* ===== verification/Cdmp_State.thy ===== *)
theory Cdmp_State
  imports Cdmp_Device
begin

text \<open>
  Shared state, \<open>src/subsys/cdmp/services/cdmp_state_service.h/.cpp\<close>: this unit's records and its
  copies of every other unit's records. A state is a record of the class's fields, and each member
  function a function on it. What the functions hand to the rest of the system (frames to the bus,
  commands, scheduling of the four work-queue tasks, handler calls) is appended to \<open>ss_outbox\<close>, in
  program order. The filled prefix of an array with a fill count is a list; \<open>sources_\<close>, whose slots
  are all in use, is a list of the array's length. A lock is held for the whole of each function
  that takes it, so the functions are the atomic steps; one clock reading is taken per function.
  \<open>crc8_ccitt\<close> is Zephyr's and so a parameter of the configuration. The four tasks are created
  together, so one flag says whether they exist. What the network service would answer is an
  argument (\<open>is_online\<close> of \<open>IsDeviceOnline\<close>, \<open>peers\<close> of \<open>GetNetworkDevices\<close>).
\<close>

section \<open>Data\<close>

record state_config =
  cfg_max_local :: nat
  cfg_max_remote :: nat
  cfg_crc8 :: "u8 \<Rightarrow> bytes \<Rightarrow> u8"

record LocalRecord =
  lr_state_type :: u8
  lr_version :: u8
  lr_is_withdrawn :: bool
  lr_is_announce_pending :: bool
  lr_data :: CdmpStateData
  lr_unacknowledged :: "u8 list"
  lr_retransmit_count :: nat
  lr_next_retransmit_ms :: int

record RemoteRecord =
  rr_source :: u8
  rr_state_type :: u8
  rr_version :: u8
  rr_is_stale :: bool
  rr_data :: CdmpStateData

record SourceState =
  so_device_id :: u8
  so_is_overflowed :: bool
  so_has_requested_sync :: bool
  so_sync_requested_at_ms :: u32

record ReceivedFrame =
  rf_is_response :: bool
  rf_data :: bytes

record StateHandlerEntry =
  sh_state_type :: u8
  sh_is_first_call_pending :: bool

record CdmpRemoteState =
  rs_device_id :: u8
  rs_data :: CdmpStateData
  rs_is_stale :: bool

datatype CdmpDeviceEvent = JOINED | RESTARTED | LEFT

datatype state_effect =
    ReceiveSchedule
  | TransmitReschedule int
  | ReplaySchedule nat
  | NotifySchedule
  | TasksCancel
  | SendStateChange bytes
  | SendStateChangeResponse bytes
  | SendSyncRequest u8
  | CallStateHandler int u8
  | RemoveFrameReceivedHandler int

record CdmpStateService =
  ss_canbus_valid :: bool
  ss_device :: CdmpDevice
  ss_state_change_handler_id :: int
  ss_state_change_response_handler_id :: int
  ss_rx_queue :: "ReceivedFrame list"
  ss_rx_dropped :: nat
  ss_has_tasks :: bool
  ss_is_started :: bool
  ss_version_counter :: u8
  ss_is_announce_all_pending :: bool
  ss_local_records :: "LocalRecord list"
  ss_remote_records :: "RemoteRecord list"
  ss_sources :: "SourceState list"
  ss_changed_types :: "u8 set"
  ss_next_handler_id :: int
  ss_state_handlers :: "(int \<times> StateHandlerEntry) list"
  ss_outbox :: "state_effect list"

definition RX_QUEUE_SIZE :: nat where "RX_QUEUE_SIZE = 16"

definition emit :: "state_effect \<Rightarrow> CdmpStateService \<Rightarrow> CdmpStateService" where
  "emit e s = s\<lparr>ss_outbox := ss_outbox s @ [e]\<rparr>"

definition SourceState_new :: SourceState where
  "SourceState_new = \<lparr>so_device_id = DEVICE_ID_UNASSIGNED, so_is_overflowed = False,
     so_has_requested_sync = False, so_sync_requested_at_ms = 0\<rparr>"

definition LocalRecord_new :: "u8 \<Rightarrow> LocalRecord" where
  "LocalRecord_new t = \<lparr>lr_state_type = t, lr_version = 0, lr_is_withdrawn = False,
     lr_is_announce_pending = False, lr_data = [], lr_unacknowledged = [], lr_retransmit_count = 0,
     lr_next_retransmit_ms = 0\<rparr>"

definition StateService_new :: "state_config \<Rightarrow> CdmpDevice \<Rightarrow> CdmpStateService" where
  "StateService_new cfg d = \<lparr>ss_canbus_valid = False, ss_device = d,
     ss_state_change_handler_id = -1, ss_state_change_response_handler_id = -1,
     ss_rx_queue = [], ss_rx_dropped = 0, ss_has_tasks = False, ss_is_started = False,
     ss_version_counter = 0, ss_is_announce_all_pending = False, ss_local_records = [],
     ss_remote_records = [], ss_sources = replicate (cfg_max_remote cfg) SourceState_new,
     ss_changed_types = {}, ss_next_handler_id = 0, ss_state_handlers = [], ss_outbox = []\<rparr>"

section \<open>Digests and versions\<close>

definition AddToDigest :: "state_config \<Rightarrow> u8 \<Rightarrow> u8 \<Rightarrow> u8 \<Rightarrow> CdmpStateData \<Rightarrow> u8" where
  "AddToDigest cfg digest state_type version d =
     cfg_crc8 cfg (cfg_crc8 cfg digest [state_type, version, of_nat (length d)]) d"

definition IsNewer :: "u8 \<Rightarrow> u8 \<Rightarrow> bool" where
  "IsNewer version current \<longleftrightarrow> 0 < sint (version - current)"

definition add_local :: "state_config \<Rightarrow> LocalRecord \<Rightarrow> u8 \<Rightarrow> u8" where
  "add_local cfg r digest = (if lr_is_withdrawn r then digest
     else AddToDigest cfg digest (lr_state_type r) (lr_version r) (lr_data r))"

definition UpdateDigest :: "state_config \<Rightarrow> CdmpStateService \<Rightarrow> CdmpStateService" where
  "UpdateDigest cfg s =
     s\<lparr>ss_device := (ss_device s)\<lparr>dev_state_digest := fold (add_local cfg) (ss_local_records s) 0\<rparr>\<rparr>"

definition restamp :: "u8 \<Rightarrow> LocalRecord \<Rightarrow> LocalRecord" where
  "restamp v r = r\<lparr>lr_version := v, lr_unacknowledged := [], lr_is_announce_pending := True\<rparr>"

fun refresh_records :: "u8 \<Rightarrow> LocalRecord list \<Rightarrow> u8 \<times> LocalRecord list" where
  "refresh_records c [] = (c, [])"
| "refresh_records c (r # rs) =
     (if lr_is_withdrawn r \<or> unat (c - lr_version r) < STATE_VERSION_REFRESH_LAG
      then (case refresh_records c rs of (c', rs') \<Rightarrow> (c', r # rs'))
      else (case refresh_records (c + 1) rs of (c', rs') \<Rightarrow> (c', restamp (c + 1) r # rs')))"

definition RefreshLaggingVersions :: "CdmpStateService \<Rightarrow> CdmpStateService" where
  "RefreshLaggingVersions s =
     (case refresh_records (ss_version_counter s) (ss_local_records s) of
        (c, rs) \<Rightarrow> s\<lparr>ss_version_counter := c, ss_local_records := rs\<rparr>)"

text \<open>\<open>StampChange\<close> of the record at an index.\<close>

definition StampChange :: "state_config \<Rightarrow> nat \<Rightarrow> CdmpStateService \<Rightarrow> CdmpStateService" where
  "StampChange cfg i s =
     (let v = ss_version_counter s + 1;
          s1 = s\<lparr>ss_version_counter := v,
                 ss_local_records := (ss_local_records s)[i := restamp v (ss_local_records s ! i)]\<rparr>;
          s2 = UpdateDigest cfg (RefreshLaggingVersions s1)
      in if ss_is_started s2 \<and> ss_has_tasks s2 \<and> IsOnline (ss_device s2)
         then emit (TransmitReschedule 0) s2 else s2)"

section \<open>This unit's records\<close>

definition FindLocalRecord :: "u8 \<Rightarrow> CdmpStateService \<Rightarrow> nat option" where
  "FindLocalRecord t s =
     (let rs = ss_local_records s; i = lower_bound lr_state_type t rs
      in if i < length rs \<and> lr_state_type (rs ! i) = t then Some i else None)"

definition AddLocalRecord ::
  "state_config \<Rightarrow> u8 \<Rightarrow> CdmpStateService \<Rightarrow> (nat \<times> CdmpStateService) option" where
  "AddLocalRecord cfg t s =
     (let rs = ss_local_records s;
          room = (if length rs = cfg_max_local cfg
                  then (let i = length (takeWhile (\<lambda>r. \<not> lr_is_withdrawn r) rs)
                        in if i = length rs then None else Some (take i rs @ drop (Suc i) rs))
                  else Some rs)
      in case room of
           None \<Rightarrow> None
         | Some rs' \<Rightarrow>
             let i = lower_bound lr_state_type t rs'
             in Some (i, s\<lparr>ss_local_records := insert_at i (LocalRecord_new t) rs'\<rparr>))"

definition set_local :: "nat \<Rightarrow> (LocalRecord \<Rightarrow> LocalRecord) \<Rightarrow> CdmpStateService \<Rightarrow> CdmpStateService" where
  "set_local i f s = s\<lparr>ss_local_records := (ss_local_records s)[i := f (ss_local_records s ! i)]\<rparr>"

definition ClearLocalState :: "state_config \<Rightarrow> u8 \<Rightarrow> CdmpStateService \<Rightarrow> CdmpStateService" where
  "ClearLocalState cfg t s =
     (case FindLocalRecord t s of
        None \<Rightarrow> s
      | Some i \<Rightarrow>
          if lr_is_withdrawn (ss_local_records s ! i) then s
          else StampChange cfg i
                 (set_local i (\<lambda>r. r\<lparr>lr_is_withdrawn := True, lr_data := []\<rparr>) s))"

definition store_local ::
  "state_config \<Rightarrow> nat \<Rightarrow> CdmpStateData \<Rightarrow> CdmpStateService \<Rightarrow> CdmpStateService" where
  "store_local cfg i d s =
     StampChange cfg i (set_local i (\<lambda>r. r\<lparr>lr_is_withdrawn := False, lr_data := d\<rparr>) s)"

definition SetLocalState ::
  "state_config \<Rightarrow> u8 \<Rightarrow> bytes \<Rightarrow> CdmpStateService \<Rightarrow> bool \<times> CdmpStateService" where
  "SetLocalState cfg t d s =
     (if d = [] then (t \<noteq> 0, ClearLocalState cfg t s)
      else if t = 0 \<or> length d > STATE_DATA_MAX_SIZE then (False, s)
      else (case FindLocalRecord t s of
              Some i \<Rightarrow>
                if \<not> lr_is_withdrawn (ss_local_records s ! i) \<and> lr_data (ss_local_records s ! i) = d
                then (True, s)
                else (True, store_local cfg i d s)
            | None \<Rightarrow>
                (case AddLocalRecord cfg t s of
                   None \<Rightarrow> (False, s)
                 | Some (i, s') \<Rightarrow> (True, store_local cfg i d s'))))"

section \<open>State handlers\<close>

definition ScheduleStateHandlers :: "CdmpStateService \<Rightarrow> CdmpStateService" where
  "ScheduleStateHandlers s = (if ss_has_tasks s then emit NotifySchedule s else s)"

definition RegisterStateHandler :: "u8 \<Rightarrow> CdmpStateService \<Rightarrow> int \<times> CdmpStateService" where
  "RegisterStateHandler t s =
     (let i = ss_next_handler_id s;
          s1 = s\<lparr>ss_next_handler_id := i + 1,
                 ss_state_handlers := ss_state_handlers s @
                   [(i, \<lparr>sh_state_type = t, sh_is_first_call_pending = True\<rparr>)]\<rparr>
      in (i, if ss_has_tasks s1 then emit NotifySchedule s1 else s1))"

definition UnregisterStateHandler :: "int \<Rightarrow> CdmpStateService \<Rightarrow> CdmpStateService" where
  "UnregisterStateHandler i s =
     s\<lparr>ss_state_handlers := filter (\<lambda>(j, _). j \<noteq> i) (ss_state_handlers s)\<rparr>"

definition is_due :: "u8 set \<Rightarrow> StateHandlerEntry \<Rightarrow> bool" where
  "is_due changed h \<longleftrightarrow> sh_is_first_call_pending h \<or> sh_state_type h \<in> changed"

definition NotifyStateHandlers :: "CdmpStateService \<Rightarrow> CdmpStateService" where
  "NotifyStateHandlers s =
     (let changed = ss_changed_types s;
          hs = ss_state_handlers s
      in s\<lparr>ss_changed_types := {},
           ss_state_handlers := map (\<lambda>(i, h).
             (i, if is_due changed h then h\<lparr>sh_is_first_call_pending := False\<rparr> else h)) hs,
           ss_outbox := ss_outbox s @
             map (\<lambda>(i, h). CallStateHandler i (sh_state_type h)) (filter (\<lambda>(_, h). is_due changed h) hs)\<rparr>)"

section \<open>Copies of other units' records\<close>

definition rr_key :: "RemoteRecord \<Rightarrow> u8 \<times> u8" where
  "rr_key r = (rr_source r, rr_state_type r)"

text \<open>The subspan \<open>SourceRecords\<close> returns, to read and to update.\<close>

definition SourceRecords :: "u8 \<Rightarrow> CdmpStateService \<Rightarrow> RemoteRecord list" where
  "SourceRecords src s =
     (let rs = ss_remote_records s
      in subspan (lower_bound rr_source src rs) (upper_bound rr_source src rs) rs)"

definition update_source_records ::
  "u8 \<Rightarrow> (RemoteRecord \<Rightarrow> RemoteRecord) \<Rightarrow> CdmpStateService \<Rightarrow> CdmpStateService" where
  "update_source_records src f s =
     (let rs = ss_remote_records s
      in s\<lparr>ss_remote_records :=
             update_range (lower_bound rr_source src rs) (upper_bound rr_source src rs) f rs\<rparr>)"

definition set_stale :: "bool \<Rightarrow> RemoteRecord \<Rightarrow> RemoteRecord" where
  "set_stale b r = r\<lparr>rr_is_stale := b\<rparr>"

definition RemoveRemoteRecords :: "(RemoteRecord \<Rightarrow> bool) \<Rightarrow> CdmpStateService \<Rightarrow> CdmpStateService" where
  "RemoveRemoteRecords P s =
     (let removed = filter P (ss_remote_records s);
          s1 = s\<lparr>ss_changed_types := ss_changed_types s \<union> set (map rr_state_type removed)\<rparr>
      in if removed = [] then s1
         else ScheduleStateHandlers
           (s1\<lparr>ss_remote_records := filter (\<lambda>r. \<not> P r) (ss_remote_records s1),
               ss_sources := map (\<lambda>x. x\<lparr>so_is_overflowed := False\<rparr>) (ss_sources s1)\<rparr>))"

definition is_reusable :: "u32 \<Rightarrow> SourceState \<Rightarrow> bool" where
  "is_reusable now x \<longleftrightarrow> so_device_id x = DEVICE_ID_UNASSIGNED \<or>
     (\<not> so_is_overflowed x \<and>
      (\<not> so_has_requested_sync x \<or>
       STATE_SYNC_REQUEST_MIN_INTERVAL_MS \<le> now - so_sync_requested_at_ms x))"

text \<open>The slot, and the sources with the slot taken when it had to be added.\<close>

definition FindSourceState ::
  "u32 \<Rightarrow> u8 \<Rightarrow> bool \<Rightarrow> CdmpStateService \<Rightarrow> nat option \<times> CdmpStateService" where
  "FindSourceState now src add s =
     (case find_index (\<lambda>x. so_device_id x = src) (ss_sources s) of
        Some i \<Rightarrow> (Some i, s)
      | None \<Rightarrow>
          if \<not> add then (None, s)
          else (case find_index (is_reusable now) (ss_sources s) of
                  None \<Rightarrow> (None, s)
                | Some i \<Rightarrow> (Some i,
                    s\<lparr>ss_sources := (ss_sources s)[i := SourceState_new\<lparr>so_device_id := src\<rparr>]\<rparr>)))"

definition MarkOverflowed :: "u32 \<Rightarrow> u8 \<Rightarrow> CdmpStateService \<Rightarrow> CdmpStateService" where
  "MarkOverflowed now src s =
     (case FindSourceState now src True s of
        (None, s') \<Rightarrow> s'
      | (Some i, s') \<Rightarrow>
          if so_is_overflowed (ss_sources s' ! i) then s'
          else s'\<lparr>ss_sources := (ss_sources s')[i := (ss_sources s' ! i)\<lparr>so_is_overflowed := True\<rparr>]\<rparr>)"

definition StartSyncRequest :: "u32 \<Rightarrow> u8 \<Rightarrow> CdmpStateService \<Rightarrow> bool \<times> CdmpStateService" where
  "StartSyncRequest now src s =
     (case FindSourceState now src True s of
        (None, s') \<Rightarrow> (False, s')
      | (Some i, s') \<Rightarrow>
          let x = ss_sources s' ! i
          in if so_has_requested_sync x \<and> now - so_sync_requested_at_ms x < STATE_SYNC_REQUEST_MIN_INTERVAL_MS
             then (False, s')
             else (True, s'\<lparr>ss_sources := (ss_sources s')[i :=
                     x\<lparr>so_has_requested_sync := True, so_sync_requested_at_ms := now\<rparr>]\<rparr>))"

definition ApplyRecord ::
  "state_config \<Rightarrow> u32 \<Rightarrow> CdmpStateChangeMessage \<Rightarrow> CdmpStateService \<Rightarrow> CdmpStateService" where
  "ApplyRecord cfg now m s =
     (let src = sc_source_device_id m; t = sc_state_type m; rs = ss_remote_records s;
          i = lower_bound rr_key (src, t) rs;
          is_found = (i < length rs \<and> rr_source (rs ! i) = src \<and> rr_state_type (rs ! i) = t)
      in if is_found \<and> \<not> rr_is_stale (rs ! i) \<and> \<not> IsNewer (sc_version m) (rr_version (rs ! i)) then s
         else if sc_data m = [] then
           (if is_found then RemoveRemoteRecords (\<lambda>r. rr_source r = src \<and> rr_state_type r = t) s else s)
         else if is_found then
           (let s1 = (if rr_data (rs ! i) \<noteq> sc_data m
                      then ScheduleStateHandlers (s\<lparr>ss_changed_types := insert t (ss_changed_types s)\<rparr>)
                      else s)
            in s1\<lparr>ss_remote_records := rs[i := (rs ! i)\<lparr>rr_version := sc_version m,
                   rr_data := sc_data m, rr_is_stale := False\<rparr>]\<rparr>)
         else if length rs = cfg_max_remote cfg then MarkOverflowed now src s
         else ScheduleStateHandlers
           (s\<lparr>ss_remote_records := insert_at i \<lparr>rr_source = src, rr_state_type = t,
                rr_version = sc_version m, rr_is_stale = False, rr_data = sc_data m\<rparr> rs,
              ss_changed_types := insert t (ss_changed_types s)\<rparr>))"

definition GetRemoteStates :: "u8 \<Rightarrow> nat \<Rightarrow> CdmpStateService \<Rightarrow> CdmpRemoteState list" where
  "GetRemoteStates t n s =
     take n (map (\<lambda>r. \<lparr>rs_device_id = rr_source r, rs_data = rr_data r, rs_is_stale = rr_is_stale r\<rparr>)
       (filter (\<lambda>r. rr_state_type r = t) (ss_remote_records s)))"

section \<open>Acknowledgements\<close>

definition FreeAcknowledgedWithdrawals :: "CdmpStateService \<Rightarrow> CdmpStateService" where
  "FreeAcknowledgedWithdrawals s =
     s\<lparr>ss_local_records := filter (\<lambda>r. \<not> (lr_is_withdrawn r \<and> \<not> lr_is_announce_pending r \<and>
         lr_unacknowledged r = [])) (ss_local_records s)\<rparr>"

text \<open>The found element takes the value of the last one and the count shrinks.\<close>

definition swap_remove :: "'a \<Rightarrow> 'a list \<Rightarrow> 'a list" where
  "swap_remove x xs =
     (case find_index (\<lambda>y. y = x) xs of None \<Rightarrow> xs | Some i \<Rightarrow> butlast (xs[i := last xs]))"

definition RemoveFromAcknowledgementSets ::
  "u8 \<Rightarrow> u8 option \<Rightarrow> CdmpStateService \<Rightarrow> CdmpStateService" where
  "RemoveFromAcknowledgementSets peer version s =
     FreeAcknowledgedWithdrawals
       (s\<lparr>ss_local_records := map (\<lambda>r.
          if version \<noteq> None \<and> lr_version r \<noteq> the version then r
          else r\<lparr>lr_unacknowledged := swap_remove peer (lr_unacknowledged r)\<rparr>) (ss_local_records s)\<rparr>)"

text \<open>The minimum over an empty set, the largest \<open>int64_t\<close>, is \<open>None\<close>.\<close>

definition next_retransmit :: "LocalRecord list \<Rightarrow> int option" where
  "next_retransmit rs =
     fold (\<lambda>r m. if lr_unacknowledged r = [] then m
                 else Some (case m of None \<Rightarrow> lr_next_retransmit_ms r
                            | Some x \<Rightarrow> min x (lr_next_retransmit_ms r))) rs None"

definition ScheduleRetransmission :: "int \<Rightarrow> CdmpStateService \<Rightarrow> CdmpStateService" where
  "ScheduleRetransmission now s =
     (case next_retransmit (ss_local_records s) of
        None \<Rightarrow> s
      | Some at \<Rightarrow> if ss_has_tasks s then emit (TransmitReschedule (max (at - now) 0)) s else s)"

definition DropSource :: "u8 \<Rightarrow> CdmpStateService \<Rightarrow> CdmpStateService" where
  "DropSource src s =
     (let s1 = RemoveFromAcknowledgementSets src None (RemoveRemoteRecords (\<lambda>r. rr_source r = src) s)
      in case FindSourceState 0 src False s1 of
           (None, s2) \<Rightarrow> s2
         | (Some i, s2) \<Rightarrow> s2\<lparr>ss_sources := (ss_sources s2)[i := SourceState_new]\<rparr>)"

definition ForgetNetwork :: "CdmpStateService \<Rightarrow> CdmpStateService" where
  "ForgetNetwork s =
     (let s1 = RemoveRemoteRecords (\<lambda>_. True) s
      in s1\<lparr>ss_sources := map (\<lambda>_. SourceState_new) (ss_sources s1),
            ss_is_announce_all_pending := False,
            ss_local_records := map (\<lambda>r. r\<lparr>lr_unacknowledged := []\<rparr>) (ss_local_records s1)\<rparr>)"

section \<open>Sending\<close>

definition SendNotification :: "CdmpStateChangeMessage \<Rightarrow> CdmpStateService \<Rightarrow> CdmpStateService" where
  "SendNotification m s =
     (if ss_canbus_valid s then emit (SendStateChange (StateChange_ToCanFrame m)) s else s)"

definition SendResponse :: "CdmpStateChangeMessage \<Rightarrow> CdmpStateService \<Rightarrow> CdmpStateService" where
  "SendResponse n s =
     (if ss_canbus_valid s
      then emit (SendStateChangeResponse (StateChangeResponse_ToCanFrame
             \<lparr>sr_responding_device_id = dev_device_id (ss_device s),
              sr_source_device_id = sc_source_device_id n, sr_version = sc_version n,
              sr_result_code = RC_SUCCESS\<rparr>)) s
      else s)"

definition record_message :: "u8 \<Rightarrow> LocalRecord \<Rightarrow> CdmpStateChangeMessage" where
  "record_message own_id r = \<lparr>sc_source_device_id = own_id, sc_version = lr_version r,
     sc_state_type = lr_state_type r, sc_data = lr_data r\<rparr>"

text \<open>One pass of the loop of \<open>Transmit\<close>: the record afterwards and whether it is sent.\<close>

definition transmit_record ::
  "int \<Rightarrow> CdmpDeviceInfo list \<Rightarrow> LocalRecord \<Rightarrow> LocalRecord \<times> bool" where
  "transmit_record now peers r =
     (if lr_is_announce_pending r
      then (r\<lparr>lr_is_announce_pending := False, lr_retransmit_count := 0,
              lr_unacknowledged := map di_device_id (filter (\<lambda>p. di_status p = ONLINE) peers),
              lr_next_retransmit_ms := now + STATE_RETRANSMIT_BACKOFFS_MS ! 0\<rparr>, True)
      else if lr_unacknowledged r \<noteq> [] \<and> lr_next_retransmit_ms r \<le> now
      then (let n = Suc (lr_retransmit_count r)
            in (if n = length STATE_RETRANSMIT_BACKOFFS_MS
                then r\<lparr>lr_retransmit_count := n, lr_unacknowledged := []\<rparr>
                else r\<lparr>lr_retransmit_count := n,
                       lr_next_retransmit_ms := now + STATE_RETRANSMIT_BACKOFFS_MS ! n\<rparr>, True))
      else (r, False))"

definition Transmit :: "int \<Rightarrow> CdmpDeviceInfo list \<Rightarrow> CdmpStateService \<Rightarrow> CdmpStateService" where
  "Transmit now peers s =
     (if \<not> ss_is_started s \<or> \<not> IsOnline (ss_device s) then s
      else let request_sync = ss_is_announce_all_pending s;
               own_id = dev_device_id (ss_device s);
               rs = (if request_sync
                     then map (\<lambda>r. r\<lparr>lr_is_announce_pending := True\<rparr>) (ss_local_records s)
                     else ss_local_records s);
               done = map (transmit_record now peers) rs;
               messages = map (\<lambda>(r, _). record_message own_id r) (filter snd done);
               s1 = ScheduleRetransmission now (FreeAcknowledgedWithdrawals
                      (s\<lparr>ss_is_announce_all_pending := False, ss_local_records := map fst done\<rparr>));
               s2 = fold SendNotification messages s1
           in if request_sync then emit (SendSyncRequest DEVICE_ID_BROADCAST) s2 else s2)"

definition replay_messages :: "CdmpStateService \<Rightarrow> CdmpStateChangeMessage list" where
  "replay_messages s = map (record_message (dev_device_id (ss_device s)))
     (filter (\<lambda>r. \<not> lr_is_withdrawn r) (ss_local_records s))"

definition ReplayRecords :: "CdmpStateService \<Rightarrow> nat option \<times> CdmpStateService" where
  "ReplayRecords s =
     (if \<not> ss_is_started s \<or> \<not> IsOnline (ss_device s) then (None, s)
      else (Some (length (replay_messages s)), fold SendNotification (replay_messages s) s))"

text \<open>A command result is its code and its data.\<close>

definition ProcessSyncRequest ::
  "CdmpCommandRequestMessage \<Rightarrow> CdmpStateService \<Rightarrow> (u8 \<times> bytes) option \<times> CdmpStateService" where
  "ProcessSyncRequest request s =
     (if cq_target_device_id request = DEVICE_ID_BROADCAST
      then (None, if ss_is_started s \<and> ss_has_tasks s
                  then emit (ReplaySchedule (dev_staggered_message_delay (ss_device s))) s else s)
      else (case ReplayRecords s of
              (None, s') \<Rightarrow> (None, s')
            | (Some n, s') \<Rightarrow> (Some (RC_SUCCESS, [of_nat n]), s')))"

section \<open>Receiving\<close>

definition ProcessStateChangeFrame ::
  "state_config \<Rightarrow> u32 \<Rightarrow> (u8 \<Rightarrow> bool) \<Rightarrow> bytes \<Rightarrow> CdmpStateService \<Rightarrow> CdmpStateService" where
  "ProcessStateChangeFrame cfg now is_online frame s =
     (if \<not> IsOnline (ss_device s) then s
      else case StateChange_TryFromCanFrame frame of
             None \<Rightarrow> s\<lparr>ss_rx_dropped := Suc (ss_rx_dropped s)\<rparr>
           | Some m \<Rightarrow>
               if sc_state_type m = 0 then s\<lparr>ss_rx_dropped := Suc (ss_rx_dropped s)\<rparr>
               else if sc_source_device_id m = dev_device_id (ss_device s) then s
               else if \<not> is_online (sc_source_device_id m) then s
               else SendResponse m (ApplyRecord cfg now m s))"

definition ProcessStateChangeResponseFrame :: "bytes \<Rightarrow> CdmpStateService \<Rightarrow> CdmpStateService" where
  "ProcessStateChangeResponseFrame frame s =
     (if \<not> IsOnline (ss_device s) then s
      else case StateChangeResponse_TryFromCanFrame frame of
             None \<Rightarrow> s\<lparr>ss_rx_dropped := Suc (ss_rx_dropped s)\<rparr>
           | Some r \<Rightarrow>
               if sr_responding_device_id r = dev_device_id (ss_device s)
                  \<or> sr_source_device_id r \<noteq> dev_device_id (ss_device s) then s
               else RemoveFromAcknowledgementSets (sr_responding_device_id r) (Some (sr_version r)) s)"

definition QueueFrame :: "bytes \<Rightarrow> bool \<Rightarrow> CdmpStateService \<Rightarrow> CdmpStateService" where
  "QueueFrame frame is_response s =
     (if STATE_CHANGE_MAX_FRAME_SIZE < length frame then s\<lparr>ss_rx_dropped := Suc (ss_rx_dropped s)\<rparr>
      else if RX_QUEUE_SIZE \<le> length (ss_rx_queue s) then s\<lparr>ss_rx_dropped := Suc (ss_rx_dropped s)\<rparr>
      else let s1 = s\<lparr>ss_rx_queue := ss_rx_queue s @ [\<lparr>rf_is_response = is_response, rf_data = frame\<rparr>]\<rparr>
           in if ss_has_tasks s1 then emit ReceiveSchedule s1 else s1)"

definition process_received ::
  "state_config \<Rightarrow> u32 \<Rightarrow> (u8 \<Rightarrow> bool) \<Rightarrow> ReceivedFrame \<Rightarrow> CdmpStateService \<Rightarrow> CdmpStateService" where
  "process_received cfg now is_online f s =
     (if rf_is_response f then ProcessStateChangeResponseFrame (rf_data f) s
      else ProcessStateChangeFrame cfg now is_online (rf_data f) s)"

text \<open>The queue is drained front to back; no function called on the way puts a frame in it.\<close>

definition ReceiveFrames ::
  "state_config \<Rightarrow> u32 \<Rightarrow> (u8 \<Rightarrow> bool) \<Rightarrow> CdmpStateService \<Rightarrow> CdmpStateService" where
  "ReceiveFrames cfg now is_online s =
     (fold (process_received cfg now is_online) (ss_rx_queue s) (s\<lparr>ss_rx_queue := []\<rparr>))
       \<lparr>ss_rx_dropped := 0\<rparr>"

section \<open>Events of the device and the network\<close>

definition OnDeviceStatusChanged ::
  "CdmpDeviceStatus \<Rightarrow> CdmpDeviceStatus \<Rightarrow> CdmpStateService \<Rightarrow> CdmpStateService" where
  "OnDeviceStatusChanged old_status new_status s =
     (if new_status = ONLINE
      then let s1 = s\<lparr>ss_is_announce_all_pending := True\<rparr>
           in if ss_is_started s1 \<and> ss_has_tasks s1 then emit (TransmitReschedule 0) s1 else s1
      else if old_status = ONLINE then ForgetNetwork s
      else s)"

fun OnDeviceEvent :: "CdmpDeviceEvent \<Rightarrow> u8 \<Rightarrow> CdmpStateService \<Rightarrow> CdmpStateService" where
  "OnDeviceEvent RESTARTED device_id s = update_source_records device_id (set_stale True) s"
| "OnDeviceEvent LEFT device_id s = DropSource device_id s"
| "OnDeviceEvent JOINED device_id s = s"

definition add_remote :: "state_config \<Rightarrow> RemoteRecord \<Rightarrow> u8 \<Rightarrow> u8" where
  "add_remote cfg r digest = AddToDigest cfg digest (rr_state_type r) (rr_version r) (rr_data r)"

definition is_source_overflowed :: "u8 \<Rightarrow> CdmpStateService \<Rightarrow> bool" where
  "is_source_overflowed src s =
     (case FindSourceState 0 src False s of
        (None, _) \<Rightarrow> False
      | (Some i, _) \<Rightarrow> so_is_overflowed (ss_sources s ! i))"

definition OnHeartbeat ::
  "state_config \<Rightarrow> u32 \<Rightarrow> CdmpHeartbeatMessage \<Rightarrow> CdmpStateService \<Rightarrow> CdmpStateService" where
  "OnHeartbeat cfg now heartbeat s =
     (let src = hb_device_id heartbeat
      in if \<not> IsOnline (ss_device s) then s
         else if is_source_overflowed src s then s
         else
           let rs = SourceRecords src s;
               digest = fold (add_remote cfg) rs 0;
               fresh_digest = fold (\<lambda>r d. if rr_is_stale r then d else add_remote cfg r d) rs 0;
               has_stale = list_ex rr_is_stale rs
           in if digest = hb_state_digest heartbeat then update_source_records src (set_stale False) s
              else if has_stale \<and> fresh_digest = hb_state_digest heartbeat
              then RemoveRemoteRecords (\<lambda>r. rr_source r = src \<and> rr_is_stale r) s
              else (case StartSyncRequest now src (update_source_records src (set_stale True) s) of
                      (request_sync, s') \<Rightarrow> if request_sync then emit (SendSyncRequest src) s' else s'))"

section \<open>Lifecycle\<close>

definition StateService_DoInitialize :: "CdmpStateService \<Rightarrow> CdmpStateService" where
  "StateService_DoInitialize s = emit NotifySchedule (s\<lparr>ss_has_tasks := True\<rparr>)"

definition UnregisterCanHandlers :: "CdmpStateService \<Rightarrow> CdmpStateService" where
  "UnregisterCanHandlers s =
     (if \<not> ss_canbus_valid s then s
      else let remove = (\<lambda>i s. if 0 \<le> i then emit (RemoveFrameReceivedHandler i) s else s)
           in (remove (ss_state_change_response_handler_id s) (remove (ss_state_change_handler_id s) s))
                \<lparr>ss_state_change_handler_id := -1, ss_state_change_response_handler_id := -1\<rparr>)"

text \<open>\<open>i\<close> and \<open>j\<close> are the numbers the bus gives the two handlers, negative when it refuses one.\<close>

definition RegisterCanHandlers :: "int \<Rightarrow> int \<Rightarrow> CdmpStateService \<Rightarrow> cxx_error option \<times> CdmpStateService" where
  "RegisterCanHandlers i j s =
     (if \<not> ss_canbus_valid s then (None, s)
      else let s1 = s\<lparr>ss_state_change_handler_id := i, ss_state_change_response_handler_id := j\<rparr>
           in if i < 0 \<or> j < 0 then (Some RuntimeError, UnregisterCanHandlers s1) else (None, s1))"

definition StateService_DoStart ::
  "int \<Rightarrow> int \<Rightarrow> CdmpStateService \<Rightarrow> cxx_error option \<times> CdmpStateService" where
  "StateService_DoStart i j s =
     (case RegisterCanHandlers i j s of
        (Some e, s1) \<Rightarrow> (Some e, s1)
      | (None, s1) \<Rightarrow>
          let s2 = s1\<lparr>ss_is_started := True\<rparr>
          in (None, if IsOnline (ss_device s2)
                    then let s3 = s2\<lparr>ss_is_announce_all_pending := True\<rparr>
                         in if ss_has_tasks s3 then emit (TransmitReschedule 0) s3 else s3
                    else s2))"

definition StateService_DoStop :: "CdmpStateService \<Rightarrow> CdmpStateService" where
  "StateService_DoStop s =
     (let s1 = (UnregisterCanHandlers s)\<lparr>ss_is_started := False\<rparr>;
          s2 = (if ss_has_tasks s1 then emit TasksCancel s1 else s1)\<lparr>ss_rx_queue := []\<rparr>
      in ForgetNetwork s2)"

section \<open>The versions of this unit's records\<close>

lemma sint_u8: "sint (w :: u8) = (if unat w \<le> 127 then int (unat w) else int (unat w) - 256)"
proof -
  have "sint w = (uint w + 128) mod 256 - 128"
    by (simp add: sint_uint signed_take_bit_eq_take_bit_shift take_bit_eq_mod)
  moreover have "(int n + 128) mod 256 - 128 = (if n \<le> 127 then int n else int n - 256)"
    if "n < 256" for n
  proof (cases "n \<le> 127")
    case False
    have "(int n + 128) mod 256 = (int n - 128 + 256) mod 256" by (simp add: add.commute)
    also have "\<dots> = int n - 128"
      unfolding mod_add_self2 using False that by (intro mod_pos_pos_trivial) auto
    finally show ?thesis using False by simp
  qed simp
  ultimately show ?thesis using u8_unat_less [of w] by (simp only: uint_nat)
qed

lemma IsNewer_iff: "IsNewer v c \<longleftrightarrow> 0 < unat (v - c) \<and> unat (v - c) \<le> 127"
proof -
  have "0 < (if n \<le> 127 then int n else int n - 256) \<longleftrightarrow> 0 < n \<and> n \<le> 127" if "n < 256" for n
    using that by auto
  then show ?thesis unfolding IsNewer_def sint_u8 using u8_unat_less by blast
qed

text \<open>
  What the refresh loop does to a record when it moves the counter \<open>c\<close> by \<open>k\<close> over \<open>m\<close> records:
  a live record either stays, at most \<open>62 + m\<close> behind the counter, or gets a version after \<open>c\<close>.
\<close>

definition refreshed_as :: "u8 \<Rightarrow> nat \<Rightarrow> nat \<Rightarrow> LocalRecord \<Rightarrow> LocalRecord \<Rightarrow> bool" where
  "refreshed_as c k m r r' \<longleftrightarrow>
     (if lr_is_withdrawn r then r' = r
      else r' = r \<and> unat (c + of_nat k - lr_version r) \<le> 62 + m
        \<or> (\<exists>j. 1 \<le> j \<and> j \<le> k \<and> r' = restamp (c + of_nat j) r))"

lemma refreshed_as_mono: "refreshed_as c k m r r' \<Longrightarrow> m \<le> m' \<Longrightarrow> refreshed_as c k m' r r'"
  by (auto simp: refreshed_as_def split: if_splits)

lemma refreshed_as_shift: "refreshed_as (c + 1) k m r r' \<Longrightarrow> refreshed_as c (Suc k) m r r'"
proof -
  assume *: "refreshed_as (c + 1) k m r r'"
  have "c + 1 + of_nat i = c + of_nat (Suc i)" for i by simp
  with * show ?thesis
    unfolding refreshed_as_def by (metis Suc_le_mono le_SucI)
qed

definition lags_within :: "u8 \<Rightarrow> nat \<Rightarrow> LocalRecord list \<Rightarrow> bool" where
  "lags_within c b rs \<longleftrightarrow> (\<forall>r\<in>set rs. lr_is_withdrawn r \<or> unat (c - lr_version r) \<le> b)"

lemma lags_within_simps [simp]:
  "lags_within c b []"
  "lags_within c b (r # rs) \<longleftrightarrow>
     (lr_is_withdrawn r \<or> unat (c - lr_version r) \<le> b) \<and> lags_within c b rs"
  "lags_within c b (xs @ ys) \<longleftrightarrow> lags_within c b xs \<and> lags_within c b ys"
  by (auto simp: lags_within_def)

lemma lags_within_shift:
  "lags_within c b rs \<Longrightarrow> b + k < 256 \<Longrightarrow> lags_within (c + of_nat k) (b + k) rs"
proof (unfold lags_within_def, rule ballI)
  fix r
  assume lag: "\<forall>r\<in>set rs. lr_is_withdrawn r \<or> unat (c - lr_version r) \<le> b" and "b + k < 256"
    and "r \<in> set rs"
  show "lr_is_withdrawn r \<or> unat (c + of_nat k - lr_version r) \<le> b + k"
  proof (cases "lr_is_withdrawn r")
    case False
    with lag \<open>r \<in> set rs\<close> have "unat (c - lr_version r) \<le> b" by blast
    then have "unat (c + of_nat k - lr_version r) \<le> b + k" using \<open>b + k < 256\<close> by (rule unat_diff_add_le)
    then show ?thesis ..
  qed simp
qed

lemma refresh_records_moves:
  assumes "lags_within c b rs" and "b + length rs < 256" and "length rs \<le> 192"
  shows "\<exists>k rs'. refresh_records c rs = (c + of_nat k, rs') \<and> k \<le> length rs \<and>
     list_all2 (refreshed_as c k (length rs)) rs rs'"
  using assms
proof (induction rs arbitrary: c b)
  case Nil
  show ?case by (intro exI [of _ 0]) simp
next
  case (Cons r rs)
  show ?case
  proof (cases "lr_is_withdrawn r \<or> unat (c - lr_version r) < STATE_VERSION_REFRESH_LAG")
    case True
    obtain k rs' where IH: "refresh_records c rs = (c + of_nat k, rs')" "k \<le> length rs"
      "list_all2 (refreshed_as c k (length rs)) rs rs'"
      using Cons.IH [of c b] Cons.prems by auto
    have "unat (c + of_nat k - lr_version r) \<le> 62 + length (r # rs)" if "\<not> lr_is_withdrawn r"
    proof -
      have "unat (c - lr_version r) < 64"
        using that True unfolding STATE_VERSION_REFRESH_LAG_def by blast
      then have "unat (c - lr_version r) \<le> 63" by (simp only: less_Suc_eq_le [symmetric])
      moreover have "63 + k < 256" using IH(2) Cons.prems(3) by simp
      ultimately have "unat (c + of_nat k - lr_version r) \<le> 63 + k" by (rule unat_diff_add_le)
      also have "\<dots> \<le> 62 + length (r # rs)" using IH(2) by simp
      finally show ?thesis .
    qed
    then have "refreshed_as c k (length (r # rs)) r r" by (simp add: refreshed_as_def)
    moreover have "list_all2 (refreshed_as c k (length (r # rs))) rs rs'"
      using IH(3) by (rule list_all2_mono) (erule refreshed_as_mono, simp)
    ultimately show ?thesis using IH True by (intro exI [of _ k] exI [of _ "r # rs'"]) auto
  next
    case False
    have "lags_within (c + 1) (b + 1) rs"
      using Cons.prems lags_within_shift [of c b rs 1] by simp
    then obtain k rs' where IH: "refresh_records (c + 1) rs = (c + 1 + of_nat k, rs')" "k \<le> length rs"
      "list_all2 (refreshed_as (c + 1) k (length rs)) rs rs'"
      using Cons.IH [of "c + 1" "b + 1"] Cons.prems by auto
    have "refreshed_as c (Suc k) (length (r # rs)) r (restamp (c + 1) r)"
      using False by (auto simp: refreshed_as_def intro!: exI [of _ 1])
    moreover have "list_all2 (refreshed_as c (Suc k) (length (r # rs))) rs rs'"
      using IH(3) by (rule list_all2_mono) (rule refreshed_as_mono [OF refreshed_as_shift], auto)
    ultimately show ?thesis using IH False
      by (intro exI [of _ "Suc k"] exI [of _ "restamp (c + 1) r # rs'"]) (simp add: add.assoc)
  qed
qed

lemma refresh_records_append:
  "refresh_records c (xs @ ys) =
     (case refresh_records c xs of (c', xs') \<Rightarrow>
        (case refresh_records c' ys of (c'', ys') \<Rightarrow> (c'', xs' @ ys')))"
  by (induction xs arbitrary: c) (auto split: prod.splits)

lemma lr_restamp [simp]:
  "lr_version (restamp v r) = v"
  "lr_state_type (restamp v r) = lr_state_type r"
  "lr_is_withdrawn (restamp v r) = lr_is_withdrawn r"
  "lr_data (restamp v r) = lr_data r"
  "lr_unacknowledged (restamp v r) = []"
  "lr_retransmit_count (restamp v r) = lr_retransmit_count r"
  "lr_is_announce_pending (restamp v r)"
  by (simp_all add: restamp_def)

lemma unat_of_nat_u8: "n < 256 \<Longrightarrow> unat (of_nat n :: u8) = n"
  by (simp add: unat_of_nat take_bit_eq_mod)

lemma refreshed_lag:
  assumes "refreshed_as c k m r r'" and "k \<le> m" and "m < 256" and "\<not> lr_is_withdrawn r'"
  shows "unat (c + of_nat k - lr_version r') \<le> 62 + m"
proof (cases "r' = r \<and> unat (c + of_nat k - lr_version r) \<le> 62 + m")
  case False
  then obtain j where j: "1 \<le> j" "j \<le> k" "r' = restamp (c + of_nat j) r"
    using assms(1,4) by (auto simp: refreshed_as_def split: if_splits)
  then have "c + of_nat k - lr_version r' = of_nat (k - j)" by (simp add: of_nat_diff)
  moreover have "unat (of_nat (k - j) :: u8) = k - j"
    using assms(2,3) by (intro unat_of_nat_u8) simp
  ultimately show ?thesis using assms(2) by simp
qed simp

lemma refreshed_lags:
  "list_all2 (refreshed_as c k m) rs rs' \<Longrightarrow> k \<le> m \<Longrightarrow> m < 256 \<Longrightarrow> lags_within (c + of_nat k) (62 + m) rs'"
  by (induction rule: list_all2_induct) (auto dest: refreshed_lag)

text \<open>How a record may come out of a change of another one: as it was, or stamped newer.\<close>

definition kept_or_newer :: "LocalRecord \<Rightarrow> LocalRecord \<Rightarrow> bool" where
  "kept_or_newer r r' \<longleftrightarrow> r' = r \<or>
     \<not> lr_is_withdrawn r \<and> (\<exists>v. IsNewer v (lr_version r) \<and> r' = restamp v r)"

lemma refreshed_newer:
  assumes "refreshed_as c k m r r'" and "lr_is_withdrawn r \<or> unat (c - lr_version r) \<le> b"
    and "b + k \<le> 127"
  shows "kept_or_newer r r'"
proof (cases "r' = r")
  case False
  then obtain j where j: "1 \<le> j" "j \<le> k" "r' = restamp (c + of_nat j) r" "\<not> lr_is_withdrawn r"
    using assms(1) by (auto simp: refreshed_as_def split: if_splits)
  with assms(2,3) have lag: "unat (c - lr_version r) \<le> b" and "b + j < 256" by auto
  then have "unat (c + of_nat j - lr_version r) = unat (c - lr_version r) + j"
    "unat (c + of_nat j - lr_version r) \<le> b + j" by (rule unat_diff_add_le)+
  then have "IsNewer (c + of_nat j) (lr_version r)"
    unfolding IsNewer_iff using j assms(3) by (metis add_gr_0 add_le_mono le_refl le_trans less_le_trans zero_less_one)
  with j show ?thesis by (auto simp: kept_or_newer_def)
qed (simp add: kept_or_newer_def)

lemma refreshed_all_newer:
  "list_all2 (refreshed_as c k m) rs rs' \<Longrightarrow> lags_within c b rs \<Longrightarrow> b + k \<le> 127 \<Longrightarrow>
   list_all2 kept_or_newer rs rs'"
  by (induction rule: list_all2_induct) (auto intro: refreshed_newer)

lemma refresh_after_stamp:
  assumes lags: "lags_within c (61 + n) (xs @ ys)" and n: "length xs + length ys < n" "2 * n \<le> 66"
  shows "\<exists>c' xs' ys'. refresh_records (c + 1) (xs @ restamp (c + 1) r # ys) =
      (c', xs' @ restamp (c + 1) r # ys') \<and>
     lags_within c' (61 + n) (xs' @ restamp (c + 1) r # ys') \<and>
     list_all2 kept_or_newer xs xs' \<and> list_all2 kept_or_newer ys ys'"
proof -
  let ?c = "c + 1" and ?r = "restamp (c + 1) r"
  have xs: "lags_within ?c (62 + n) xs" and ys: "lags_within ?c (62 + n) ys"
    using lags lags_within_shift [of c "61 + n" _ 1] n by auto
  obtain k1 xs' where 1: "refresh_records ?c xs = (?c + of_nat k1, xs')" "k1 \<le> length xs"
    "list_all2 (refreshed_as ?c k1 (length xs)) xs xs'"
    using refresh_records_moves [OF xs] n by auto
  have ys1: "lags_within (?c + of_nat k1) (62 + n + k1) ys"
    using ys 1(2) n by (intro lags_within_shift) auto
  obtain k2 ys' where 2: "refresh_records (?c + of_nat k1) ys = (?c + of_nat k1 + of_nat k2, ys')"
    "k2 \<le> length ys" "list_all2 (refreshed_as (?c + of_nat k1) k2 (length ys)) ys ys'"
    using refresh_records_moves [OF ys1] 1(2) n by auto
  have lag_r: "unat (?c + of_nat k1 - lr_version ?r) = k1"
    using 1(2) n by (simp add: unat_of_nat_u8)
  have run: "refresh_records ?c (xs @ ?r # ys) = (?c + of_nat k1 + of_nat k2, xs' @ ?r # ys')"
    using 1(1,2) 2(1) lag_r n by (simp add: refresh_records_append STATE_VERSION_REFRESH_LAG_def)
  have "lags_within (?c + of_nat k1 + of_nat k2) (62 + length xs + k2) xs'"
    using refreshed_lags [OF 1(3,2)] 2(2) n by (intro lags_within_shift) auto
  moreover have "lags_within (?c + of_nat k1 + of_nat k2) (62 + length ys) ys'"
    using refreshed_lags [OF 2(3,2)] n by simp
  moreover have "unat (?c + of_nat k1 + of_nat k2 - lr_version ?r) \<le> k1 + k2"
    by (rule unat_diff_add_le(2)) (use lag_r 1(2) 2(2) n in auto)
  ultimately have "lags_within (?c + of_nat k1 + of_nat k2) (61 + n) (xs' @ ?r # ys')"
    using 1(2) 2(2) n unfolding lags_within_def by fastforce
  moreover have "list_all2 kept_or_newer xs xs'"
    by (rule refreshed_all_newer [OF 1(3) xs]) (use 1(2) n in auto)
  moreover have "list_all2 kept_or_newer ys ys'"
    by (rule refreshed_all_newer [OF 2(3) ys1]) (use 1(2) 2(2) n in auto)
  ultimately show ?thesis using run by blast
qed

end
