(* ===== verification/Cdmp_State_Inv.thy ===== *)
theory Cdmp_State_Inv
  imports Cdmp_State
begin

text \<open>
  The invariant of the shared-state service over every sequence of its calls: tables sorted and
  within their capacities, records of legal sizes, the heartbeat digest in step with this unit's
  live records, and no live record so far behind the version counter that its next stamp could
  look old to a receiver.
\<close>

interpretation local_table: sorted_table lr_state_type .

interpretation remote_table: sorted_table rr_key .

section \<open>The invariant\<close>

text \<open>The \<open>static_assert\<close> of the class on the number of local records, and room for one.\<close>

definition config_ok :: "state_config \<Rightarrow> bool" where
  "config_ok cfg \<longleftrightarrow> 1 \<le> cfg_max_local cfg \<and> STATE_VERSION_REFRESH_LAG + 2 * cfg_max_local cfg \<le> 127 + 3"

definition local_ok :: "LocalRecord \<Rightarrow> bool" where
  "local_ok r \<longleftrightarrow> lr_state_type r \<noteq> 0 \<and> length (lr_data r) \<le> STATE_DATA_MAX_SIZE \<and>
     (lr_is_withdrawn r \<longleftrightarrow> lr_data r = []) \<and> length (lr_unacknowledged r) \<le> STATE_ACK_PEERS_MAX \<and>
     distinct (lr_unacknowledged r) \<and>
     (lr_unacknowledged r \<noteq> [] \<longrightarrow> lr_retransmit_count r < length STATE_RETRANSMIT_BACKOFFS_MS)"

definition max_lag :: "state_config \<Rightarrow> nat" where
  "max_lag cfg = 61 + cfg_max_local cfg"

definition local_wf :: "state_config \<Rightarrow> CdmpStateService \<Rightarrow> bool" where
  "local_wf cfg s \<longleftrightarrow>
     sorted_by lr_state_type (ss_local_records s) \<and>
     length (ss_local_records s) \<le> cfg_max_local cfg \<and>
     (\<forall>r\<in>set (ss_local_records s). local_ok r) \<and>
     lags_within (ss_version_counter s) (max_lag cfg) (ss_local_records s) \<and>
     dev_state_digest (ss_device s) = fold (add_local cfg) (ss_local_records s) 0"

lemma local_wfD:
  assumes "local_wf cfg s"
  shows local_wf_sorted: "sorted_by lr_state_type (ss_local_records s)"
    and local_wf_length: "length (ss_local_records s) \<le> cfg_max_local cfg"
    and local_wf_ok: "\<forall>r\<in>set (ss_local_records s). local_ok r"
    and local_wf_digest: "dev_state_digest (ss_device s) = fold (add_local cfg) (ss_local_records s) 0"
  using assms unfolding local_wf_def by blast+

definition remote_ok :: "RemoteRecord \<Rightarrow> bool" where
  "remote_ok r \<longleftrightarrow> rr_state_type r \<noteq> 0 \<and> rr_data r \<noteq> [] \<and> length (rr_data r) \<le> STATE_DATA_MAX_SIZE"

definition remote_wf :: "state_config \<Rightarrow> CdmpStateService \<Rightarrow> bool" where
  "remote_wf cfg s \<longleftrightarrow>
     sorted_by rr_key (ss_remote_records s) \<and>
     length (ss_remote_records s) \<le> cfg_max_remote cfg \<and>
     (\<forall>r\<in>set (ss_remote_records s). remote_ok r) \<and>
     length (ss_sources s) = cfg_max_remote cfg"

definition state_wf :: "state_config \<Rightarrow> CdmpStateService \<Rightarrow> bool" where
  "state_wf cfg s \<longleftrightarrow> local_wf cfg s \<and> remote_wf cfg s \<and> length (ss_rx_queue s) \<le> RX_QUEUE_SIZE \<and>
     (\<forall>f\<in>set (ss_rx_queue s). length (rf_data f) \<le> STATE_CHANGE_MAX_FRAME_SIZE)"

section \<open>What each function leaves alone\<close>

text \<open>
  The two halves of the state: functions on the copies leave this unit's records alone, and the
  other way round.
\<close>

definition local_part where
  "local_part s = (ss_local_records s, ss_version_counter s, ss_device s)"

definition remote_part where
  "remote_part s = (ss_remote_records s, ss_sources s)"

lemma local_wf_cong: "local_part s = local_part t \<Longrightarrow> local_wf cfg s = local_wf cfg t"
  by (simp add: local_part_def local_wf_def)

lemma remote_wf_cong: "remote_part s = remote_part t \<Longrightarrow> remote_wf cfg s = remote_wf cfg t"
  by (simp add: remote_part_def remote_wf_def)

named_theorems frame \<open>what a function leaves alone\<close>

lemma part_updates [frame]:
  "local_part (s\<lparr>ss_remote_records := rs\<rparr>) = local_part s" "local_part (s\<lparr>ss_sources := ps\<rparr>) = local_part s"
  "local_part (s\<lparr>ss_changed_types := ts\<rparr>) = local_part s" "local_part (s\<lparr>ss_outbox := es\<rparr>) = local_part s"
  "local_part (s\<lparr>ss_rx_queue := fs\<rparr>) = local_part s" "local_part (s\<lparr>ss_rx_dropped := n\<rparr>) = local_part s"
  "remote_part (s\<lparr>ss_local_records := ls\<rparr>) = remote_part s" "remote_part (s\<lparr>ss_device := d\<rparr>) = remote_part s"
  "remote_part (s\<lparr>ss_changed_types := ts\<rparr>) = remote_part s" "remote_part (s\<lparr>ss_outbox := es\<rparr>) = remote_part s"
  "remote_part (s\<lparr>ss_rx_queue := fs\<rparr>) = remote_part s" "remote_part (s\<lparr>ss_rx_dropped := n\<rparr>) = remote_part s"
  by (simp_all add: local_part_def remote_part_def)

lemma emit_frame [frame]:
  "local_part (emit e s) = local_part s" "remote_part (emit e s) = remote_part s"
  "ss_rx_queue (emit e s) = ss_rx_queue s" "ss_canbus_valid (emit e s) = ss_canbus_valid s"
  "ss_remote_records (emit e s) = ss_remote_records s" "ss_sources (emit e s) = ss_sources s"
  "ss_local_records (emit e s) = ss_local_records s" "ss_device (emit e s) = ss_device s"
  "ss_version_counter (emit e s) = ss_version_counter s"
  "ss_is_started (emit e s) = ss_is_started s" "ss_has_tasks (emit e s) = ss_has_tasks s"
  "ss_changed_types (emit e s) = ss_changed_types s"
  by (simp_all add: emit_def local_part_def remote_part_def)

lemma ScheduleStateHandlers_frame [frame]:
  "local_part (ScheduleStateHandlers s) = local_part s"
  "remote_part (ScheduleStateHandlers s) = remote_part s"
  "ss_rx_queue (ScheduleStateHandlers s) = ss_rx_queue s"
  "ss_remote_records (ScheduleStateHandlers s) = ss_remote_records s"
  "ss_sources (ScheduleStateHandlers s) = ss_sources s"
  "ss_device (ScheduleStateHandlers s) = ss_device s"
  "ss_local_records (ScheduleStateHandlers s) = ss_local_records s"
  "ss_changed_types (ScheduleStateHandlers s) = ss_changed_types s"
  by (simp_all add: ScheduleStateHandlers_def frame)

lemma RemoveRemoteRecords_frame [frame]:
  "local_part (RemoveRemoteRecords P s) = local_part s"
  "ss_rx_queue (RemoveRemoteRecords P s) = ss_rx_queue s"
  "ss_local_records (RemoveRemoteRecords P s) = ss_local_records s"
  "ss_device (RemoveRemoteRecords P s) = ss_device s"
  by (simp_all add: RemoveRemoteRecords_def Let_def frame)

lemma RemoveRemoteRecords_remote [simp]:
  "ss_remote_records (RemoveRemoteRecords P s) = filter (\<lambda>r. \<not> P r) (ss_remote_records s)"
  "length (ss_sources (RemoveRemoteRecords P s)) = length (ss_sources s)"
  "ss_changed_types (RemoveRemoteRecords P s) =
     ss_changed_types s \<union> rr_state_type ` {r \<in> set (ss_remote_records s). P r}"
  by (auto simp: RemoveRemoteRecords_def Let_def frame filter_empty_conv filter_id_conv)

lemma update_source_records_frame [frame]:
  "local_part (update_source_records src f s) = local_part s"
  "ss_rx_queue (update_source_records src f s) = ss_rx_queue s"
  "ss_sources (update_source_records src f s) = ss_sources s"
  "ss_device (update_source_records src f s) = ss_device s"
  by (simp_all add: update_source_records_def Let_def local_part_def)

lemma FindSourceState_frame:
  assumes "FindSourceState now src add s = (r, s')"
  shows "local_part s' = local_part s \<and> ss_rx_queue s' = ss_rx_queue s \<and>
     ss_remote_records s' = ss_remote_records s \<and> length (ss_sources s') = length (ss_sources s) \<and>
     ss_changed_types s' = ss_changed_types s \<and> ss_outbox s' = ss_outbox s"
  using assms by (auto simp: FindSourceState_def local_part_def split: option.splits if_splits)

lemma MarkOverflowed_frame:
  "local_part (MarkOverflowed now src s) = local_part s"
  "ss_rx_queue (MarkOverflowed now src s) = ss_rx_queue s"
  "ss_remote_records (MarkOverflowed now src s) = ss_remote_records s"
  "length (ss_sources (MarkOverflowed now src s)) = length (ss_sources s)"
  by (auto simp: MarkOverflowed_def local_part_def split: prod.splits option.splits
      dest!: FindSourceState_frame)

lemma StartSyncRequest_frame:
  assumes "StartSyncRequest now src s = (b, s')"
  shows "local_part s' = local_part s \<and> ss_rx_queue s' = ss_rx_queue s \<and>
     ss_remote_records s' = ss_remote_records s \<and> length (ss_sources s') = length (ss_sources s) \<and>
     ss_changed_types s' = ss_changed_types s"
proof -
  obtain r s1 where f: "FindSourceState now src True s = (r, s1)" by fastforce
  have "s' = s1 \<or> (\<exists>i x. s' = s1\<lparr>ss_sources := (ss_sources s1)[i := x]\<rparr>)"
  proof (cases r)
    case None
    then show ?thesis using assms f by (simp add: StartSyncRequest_def)
  next
    case (Some i)
    then show ?thesis using assms f unfolding StartSyncRequest_def Let_def
      by (simp split: if_splits) blast
  qed
  then show ?thesis
  proof
    assume "s' = s1"
    then show ?thesis using FindSourceState_frame [OF f] by blast
  next
    assume "\<exists>i x. s' = s1\<lparr>ss_sources := (ss_sources s1)[i := x]\<rparr>"
    then obtain i x where s': "s' = s1\<lparr>ss_sources := (ss_sources s1)[i := x]\<rparr>" by blast
    show ?thesis using FindSourceState_frame [OF f] by (simp add: s' part_updates)
  qed
qed

section \<open>Changes of this unit's records\<close>

lemma kept_or_newer_ok: "kept_or_newer r r' \<Longrightarrow> local_ok r \<Longrightarrow> local_ok r'"
  by (auto simp: kept_or_newer_def local_ok_def)

lemma kept_all_ok: "list_all2 kept_or_newer rs rs' \<Longrightarrow> \<forall>r\<in>set rs. local_ok r \<Longrightarrow> \<forall>r\<in>set rs'. local_ok r"
  by (induction rule: list_all2_induct) (auto intro: kept_or_newer_ok)

lemma kept_types: "list_all2 kept_or_newer rs rs' \<Longrightarrow> map lr_state_type rs' = map lr_state_type rs"
  by (induction rule: list_all2_induct) (auto simp: kept_or_newer_def)

text \<open>
  The effect of changing the record at index \<open>length xs\<close> with \<open>f\<close> and stamping it: the others are
  kept or stamped newer, and the invariant holds, whatever version the changed record had before.
\<close>

lemma change_record:
  assumes rs: "ss_local_records s = xs @ r # ys" and i: "i = length xs"
    and cfg: "config_ok cfg" and len: "length (xs @ r # ys) \<le> cfg_max_local cfg"
    and srt: "sorted_by lr_state_type (xs @ r # ys)" and f: "lr_state_type (f r) = lr_state_type r"
    and ok: "\<forall>x\<in>set (xs @ ys). local_ok x" "local_ok (restamp v (f r))"
    and lags: "lags_within (ss_version_counter s) (max_lag cfg) (xs @ ys)"
  obtains xs' ys' where
    "ss_local_records (StampChange cfg i (set_local i f s)) =
       xs' @ restamp (ss_version_counter s + 1) (f r) # ys'"
    and "list_all2 kept_or_newer xs xs'" and "list_all2 kept_or_newer ys ys'"
    and "local_wf cfg (StampChange cfg i (set_local i f s))"
proof -
  let ?v = "ss_version_counter s + 1"
  obtain c xs' ys' where run: "refresh_records ?v (xs @ restamp ?v (f r) # ys) = (c, xs' @ restamp ?v (f r) # ys')"
    and lag: "lags_within c (max_lag cfg) (xs' @ restamp ?v (f r) # ys')"
    and new: "list_all2 kept_or_newer xs xs'" "list_all2 kept_or_newer ys ys'"
  proof -
    have "length xs + length ys < cfg_max_local cfg" "2 * cfg_max_local cfg \<le> 66"
      using len cfg by (simp_all add: config_ok_def STATE_VERSION_REFRESH_LAG_def)
    with lags show thesis
      unfolding max_lag_def using refresh_after_stamp that [unfolded max_lag_def] by meson
  qed
  let ?s = "StampChange cfg i (set_local i f s)"
  have res: "ss_local_records ?s = xs' @ restamp ?v (f r) # ys'" "ss_version_counter ?s = c"
    "dev_state_digest (ss_device ?s) = fold (add_local cfg) (ss_local_records ?s) 0"
    using rs i by (simp_all add: run StampChange_def set_local_def RefreshLaggingVersions_def
        UpdateDigest_def Let_def frame)
  have "local_ok (restamp ?v (f r))" using ok(2) by (simp add: local_ok_def)
  moreover have "\<forall>x\<in>set xs'. local_ok x" by (rule kept_all_ok [OF new(1)]) (simp add: ok(1))
  moreover have "\<forall>x\<in>set ys'. local_ok x" by (rule kept_all_ok [OF new(2)]) (simp add: ok(1))
  ultimately have "\<forall>x\<in>set (ss_local_records ?s). local_ok x"
    unfolding res(1) by (simp only: set_append list.set ball_Un ball_simps)
  moreover have "map lr_state_type (ss_local_records ?s) = map lr_state_type (xs @ r # ys)"
    using kept_types [OF new(1)] kept_types [OF new(2)] f res(1) by simp
  moreover have "length (ss_local_records ?s) = length (xs @ r # ys)"
    using new res(1) by (simp add: list_all2_lengthD)
  ultimately have "local_wf cfg ?s"
    unfolding local_wf_def using srt len lag res by metis
  then show thesis using that res new by blast
qed

lemma StampChange_frame:
  "remote_part (StampChange cfg i s) = remote_part s"
  "ss_rx_queue (StampChange cfg i s) = ss_rx_queue s"
  by (simp_all add: StampChange_def UpdateDigest_def RefreshLaggingVersions_def Let_def frame
      remote_part_def split: prod.split)

lemma FindLocalRecord_Some:
  assumes "FindLocalRecord t s = Some i"
  obtains xs r ys where "ss_local_records s = xs @ r # ys" and "length xs = i" and "lr_state_type r = t"
proof -
  have i: "i < length (ss_local_records s)" "lr_state_type (ss_local_records s ! i) = t"
    using assms by (auto simp: FindLocalRecord_def Let_def split: if_splits)
  then have "ss_local_records s = take i (ss_local_records s) @ ss_local_records s ! i # drop (Suc i) (ss_local_records s)"
    by (simp add: id_take_nth_drop)
  with i show thesis by (intro that [of "take i (ss_local_records s)"]) auto
qed

lemma FindLocalRecord_lookup:
  assumes "sorted_by lr_state_type (ss_local_records s)"
  shows "FindLocalRecord t s = None \<longleftrightarrow> t \<notin> lr_state_type ` set (ss_local_records s)"
  using local_table.search_found [OF assms, of t] by (auto simp: FindLocalRecord_def Let_def)

text \<open>The two ways \<open>SetLocalState\<close> and \<open>ClearLocalState\<close> change a record they found.\<close>

lemma change_found:
  assumes wf: "local_wf cfg s" and cfg: "config_ok cfg" and found: "FindLocalRecord t s = Some i"
    and f: "lr_state_type (f (ss_local_records s ! i)) = t" "\<And>v. local_ok (restamp v (f (ss_local_records s ! i)))"
  obtains xs r ys xs' ys' where "ss_local_records s = xs @ r # ys" and "length xs = i"
    and "lr_state_type r = t"
    and "ss_local_records (StampChange cfg i (set_local i f s)) =
       xs' @ restamp (ss_version_counter s + 1) (f r) # ys'"
    and "list_all2 kept_or_newer xs xs'" and "list_all2 kept_or_newer ys ys'"
    and "local_wf cfg (StampChange cfg i (set_local i f s))"
proof -
  obtain xs r ys where rs: "ss_local_records s = xs @ r # ys" "length xs = i" "lr_state_type r = t"
    using found by (rule FindLocalRecord_Some)
  then have r: "ss_local_records s ! i = r" by auto
  note w = wf [unfolded local_wf_def rs(1)]
  show thesis
  proof (rule change_record [OF rs(1) rs(2) [symmetric] cfg, of f])
    show "lr_state_type (f r) = lr_state_type r" "local_ok (restamp 0 (f r))" using f r rs(3) by auto
    show "\<forall>x\<in>set (xs @ ys). local_ok x"
      "lags_within (ss_version_counter s) (max_lag cfg) (xs @ ys)" using w by auto
    show "length (xs @ r # ys) \<le> cfg_max_local cfg" "sorted_by lr_state_type (xs @ r # ys)"
      using w by blast+
  qed (rule that [OF rs])
qed

lemma drop_nth_subset:
  "i < length rs \<Longrightarrow> rs = take i rs @ rs ! i # drop (Suc i) rs"
  by (rule id_take_nth_drop)

text \<open>
  A new record takes its place in the sorted order; a full table first loses a withdrawn record.
  The live records stay.
\<close>

lemma AddLocalRecord_Some:
  assumes wf: "local_wf cfg s" and new: "t \<notin> lr_state_type ` set (ss_local_records s)"
    and add: "AddLocalRecord cfg t s = Some (i, s')"
  obtains xs ys where "s' = s\<lparr>ss_local_records := xs @ LocalRecord_new t # ys\<rparr>" and "i = length xs"
    and "length (xs @ LocalRecord_new t # ys) \<le> cfg_max_local cfg"
    and "sorted_by lr_state_type (xs @ LocalRecord_new t # ys)"
    and "set (xs @ ys) \<subseteq> set (ss_local_records s)"
    and "filter (\<lambda>r. \<not> lr_is_withdrawn r) (xs @ ys) = filter (\<lambda>r. \<not> lr_is_withdrawn r) (ss_local_records s)"
proof -
  let ?rs = "ss_local_records s" and ?live = "\<lambda>r. \<not> lr_is_withdrawn r"
  have "\<exists>rs'. length rs' < cfg_max_local cfg \<and> sorted_by lr_state_type rs' \<and> set rs' \<subseteq> set ?rs \<and>
      filter ?live rs' = filter ?live ?rs \<and> i = lower_bound lr_state_type t rs' \<and>
      s' = s\<lparr>ss_local_records := insert_at i (LocalRecord_new t) rs'\<rparr>"
  proof (cases "length ?rs = cfg_max_local cfg")
    case False
    with wf add show ?thesis
      by (intro exI [of _ ?rs]) (auto simp: local_wf_def AddLocalRecord_def Let_def)
  next
    case True
    define k where "k = length (takeWhile ?live ?rs)"
    have k: "k < length ?rs"
      using add True length_takeWhile_le [of ?live ?rs] by (auto simp: AddLocalRecord_def Let_def k_def split: if_splits)
    then have "\<not> ?live (?rs ! k)" unfolding k_def by (rule nth_length_takeWhile)
    then have w: "filter ?live [?rs ! k] = []" by simp
    have split: "?rs = take k ?rs @ [?rs ! k] @ drop (Suc k) ?rs" using k by (simp add: id_take_nth_drop)
    let ?rs' = "take k ?rs @ drop (Suc k) ?rs"
    have "filter ?live ?rs' = filter ?live ?rs" by (subst (3) split) (simp only: filter_append w append_Nil)
    moreover have "sorted_by lr_state_type ?rs'"
      using wf unfolding local_wf_def by (subst (asm) (1) split) (auto simp: sorted_wrt_append)
    moreover have "set ?rs' \<subseteq> set ?rs" by (auto dest: in_set_takeD in_set_dropD)
    moreover have "length ?rs' < cfg_max_local cfg" using k True by simp
    moreover have "Some (i, s') = Some (lower_bound lr_state_type t ?rs',
        s\<lparr>ss_local_records := insert_at (lower_bound lr_state_type t ?rs') (LocalRecord_new t) ?rs'\<rparr>)"
      using add True k by (auto simp: AddLocalRecord_def Let_def k_def)
    ultimately show ?thesis by blast
  qed
  then obtain rs' where rs': "length rs' < cfg_max_local cfg" "sorted_by lr_state_type rs'"
    "set rs' \<subseteq> set ?rs" "filter ?live rs' = filter ?live ?rs" "i = lower_bound lr_state_type t rs'"
    "s' = s\<lparr>ss_local_records := insert_at i (LocalRecord_new t) rs'\<rparr>" by blast
  have "sorted_by lr_state_type (insert_at i (LocalRecord_new t) rs')"
    using local_table.insert_sorted [of rs' "LocalRecord_new t"] rs'(2,3,5) new
    by (auto simp: LocalRecord_new_def)
  with rs' show thesis
    by (intro that [of "take i rs'" "drop i rs'"]) (auto simp: insert_at_def simp flip: filter_append)
qed

lemma AddLocalRecord_None:
  "AddLocalRecord cfg t s = None \<longleftrightarrow>
     length (ss_local_records s) = cfg_max_local cfg \<and> (\<forall>r\<in>set (ss_local_records s). \<not> lr_is_withdrawn r)"
proof -
  have "length (takeWhile P rs) = length rs \<longleftrightarrow> (\<forall>r\<in>set rs. P r)" for P and rs :: "LocalRecord list"
    by (metis (mono_tags, lifting) takeWhile_eq_all_conv takeWhile_eq_take take_all_iff le_refl)
  from this [of "\<lambda>r. \<not> lr_is_withdrawn r" "ss_local_records s"] show ?thesis
    by (cases "length (ss_local_records s) = cfg_max_local cfg") (simp_all add: AddLocalRecord_def Let_def)
qed

text \<open>The value each state type has, and how versions may move.\<close>

definition live_data :: "LocalRecord list \<Rightarrow> (u8 \<times> CdmpStateData) list" where
  "live_data rs = map (\<lambda>r. (lr_state_type r, lr_data r)) (filter (\<lambda>r. \<not> lr_is_withdrawn r) rs)"

definition local_state :: "CdmpStateService \<Rightarrow> u8 \<rightharpoonup> CdmpStateData" where
  "local_state s = map_of (live_data (ss_local_records s))"

definition versions_advance :: "LocalRecord list \<Rightarrow> LocalRecord list \<Rightarrow> bool" where
  "versions_advance rs rs' \<longleftrightarrow> (\<forall>r\<in>set rs. \<forall>r'\<in>set rs'.
     lr_state_type r' = lr_state_type r \<and> \<not> lr_is_withdrawn r \<longrightarrow>
     lr_version r' = lr_version r \<and> lr_data r' = lr_data r \<or> IsNewer (lr_version r') (lr_version r))"

lemma kept_live_data: "list_all2 kept_or_newer rs rs' \<Longrightarrow> live_data rs' = live_data rs"
  by (induction rule: list_all2_induct) (auto simp: live_data_def kept_or_newer_def)

lemma live_data_append [simp]:
  "live_data (xs @ ys) = live_data xs @ live_data ys"
  "live_data (r # ys) = (if lr_is_withdrawn r then [] else [(lr_state_type r, lr_data r)]) @ live_data ys"
  "live_data [] = []"
  by (simp_all add: live_data_def)

lemma live_data_keys: "fst ` set (live_data rs) \<subseteq> lr_state_type ` set rs"
  by (auto simp: live_data_def)

lemma map_of_middle: "t \<notin> fst ` set xs \<Longrightarrow> map_of (xs @ (t, d) # ys) = (map_of (xs @ ys))(t \<mapsto> d)"
  by (rule ext) (auto simp: map_add_def dom_map_of_conv_image_fst [symmetric] split: option.splits)

lemma sorted_middle:
  assumes "sorted_by lr_state_type (xs @ r # ys)"
  shows "lr_state_type r \<notin> lr_state_type ` set (xs @ ys)"
  using assms by (fastforce simp: sorted_wrt_append)

lemma kept_origin:
  "list_all2 kept_or_newer rs rs' \<Longrightarrow> r' \<in> set rs' \<Longrightarrow>
   \<exists>r\<in>set rs. lr_state_type r = lr_state_type r' \<and> kept_or_newer r r'"
  by (induction rule: list_all2_induct) (auto simp: kept_or_newer_def)

lemma versions_advance_middle:
  assumes kept: "list_all2 kept_or_newer xs xs'" "list_all2 kept_or_newer ys ys'"
    and srt: "sorted_by lr_state_type (xs @ r # ys)" and f: "lr_state_type (f r) = lr_state_type r"
    and old: "\<And>q. q \<in> set rs \<Longrightarrow> \<not> lr_is_withdrawn q \<Longrightarrow>
      q \<in> set (xs @ ys) \<or> q = r \<and> IsNewer v (lr_version r)"
  shows "versions_advance rs (xs' @ restamp v (f r) # ys')"
  unfolding versions_advance_def
proof (intro ballI impI, elim conjE)
  fix q q'
  assume q: "q \<in> set rs" "\<not> lr_is_withdrawn q" and q': "q' \<in> set (xs' @ restamp v (f r) # ys')"
    and same: "lr_state_type q' = lr_state_type q"
  have inj: "inj_on lr_state_type (set (xs @ r # ys))"
    using local_table.keys_distinct [OF srt] unfolding distinct_map by (rule conjunct2)
  show "lr_version q' = lr_version q \<and> lr_data q' = lr_data q \<or> IsNewer (lr_version q') (lr_version q)"
  proof (cases "q' = restamp v (f r)")
    case True
    then have "lr_state_type q = lr_state_type r" using same f by simp
    then have "q \<notin> set (xs @ ys)" using sorted_middle [OF srt] by (metis image_eqI)
    with old [OF q] True show ?thesis by simp
  next
    case False
    with q' obtain p where p: "p \<in> set (xs @ ys)" "lr_state_type p = lr_state_type q'" "kept_or_newer p q'"
      using kept_origin [OF kept(1)] kept_origin [OF kept(2)] by auto
    then have "q \<noteq> r" using same sorted_middle [OF srt] by (metis image_eqI)
    then have "q \<in> set (xs @ ys)" using old [OF q] by blast
    moreover have "lr_state_type p = lr_state_type q" using p(2) same by simp
    ultimately have "p = q" using p(1) by (intro inj_onD [OF inj]) simp_all
    then show ?thesis using p(3) by (auto simp: kept_or_newer_def)
  qed
qed

text \<open>A version in use is never more than the window behind the next stamp.\<close>

lemma next_stamp_newer:
  assumes "local_wf cfg s" and "config_ok cfg" and "r \<in> set (ss_local_records s)"
    and "\<not> lr_is_withdrawn r"
  shows "IsNewer (ss_version_counter s + 1) (lr_version r)"
proof -
  have lag: "unat (ss_version_counter s - lr_version r) \<le> max_lag cfg"
    using assms unfolding local_wf_def lags_within_def by blast
  have b: "max_lag cfg + 1 \<le> 127"
    using assms(2) by (simp add: max_lag_def config_ok_def STATE_VERSION_REFRESH_LAG_def)
  then have "max_lag cfg + 1 < 256" by simp
  note step = unat_diff_add_le [OF lag this, unfolded of_nat_1]
  have "0 < n \<and> n \<le> 127" if "n = m + 1" "n \<le> k" "k \<le> 127" for n m k :: nat
    using that by simp
  from this [OF step b] show ?thesis unfolding IsNewer_iff .
qed

text \<open>What a call that changes this unit's records comes to.\<close>

definition local_change ::
  "state_config \<Rightarrow> (u8 \<rightharpoonup> CdmpStateData) \<Rightarrow> CdmpStateService \<Rightarrow> CdmpStateService \<Rightarrow> bool" where
  "local_change cfg m s s' \<longleftrightarrow> local_wf cfg s' \<and> local_state s' = m \<and>
     versions_advance (ss_local_records s) (ss_local_records s')"

lemma versions_advance_refl: "sorted_by lr_state_type rs \<Longrightarrow> versions_advance rs rs"
  unfolding versions_advance_def
  using local_table.keys_distinct [of rs] by (metis distinct_map inj_onD)

lemma local_change_same: "local_wf cfg s \<Longrightarrow> local_state s = m \<Longrightarrow> local_change cfg m s s"
  by (simp add: local_change_def versions_advance_refl local_wf_def)

lemma live_data_not_middle:
  assumes "sorted_by lr_state_type (xs @ r # ys)"
  shows "map_of (live_data xs) (lr_state_type r) = None" "map_of (live_data ys) (lr_state_type r) = None"
    and "lr_state_type r \<notin> fst ` set (live_data xs)"
  using sorted_middle [OF assms] live_data_keys [of xs] live_data_keys [of ys]
  by (auto simp: map_of_eq_None_iff)

lemma live_data_found:
  assumes "sorted_by lr_state_type (xs @ r # ys)"
  shows "map_of (live_data (xs @ r # ys)) (lr_state_type r) = (if lr_is_withdrawn r then None else Some (lr_data r))"
  using live_data_not_middle [OF assms] by (simp add: map_add_def)

lemma live_data_change:
  assumes "sorted_by lr_state_type (xs @ r # ys)" and "lr_state_type (f r) = lr_state_type r"
    and "list_all2 kept_or_newer xs xs'" "list_all2 kept_or_newer ys ys'"
  shows "map_of (live_data (xs' @ restamp v (f r) # ys')) =
     (map_of (live_data (xs @ ys)))(lr_state_type r := if lr_is_withdrawn (f r) then None else Some (lr_data (f r)))"
  using live_data_not_middle [OF assms(1)] assms(2)
  by (intro ext) (auto simp: kept_live_data [OF assms(3)] kept_live_data [OF assms(4)] map_add_def
      split: option.splits)

lemma change_found_result:
  assumes wf: "local_wf cfg s" and cfg: "config_ok cfg" and found: "FindLocalRecord t s = Some i"
    and f: "\<And>r. lr_state_type (f r) = lr_state_type r"
      "\<And>v r. local_ok r \<Longrightarrow> local_ok (restamp v (f r))"
    and d: "\<And>r. (if lr_is_withdrawn (f r) then None else Some (lr_data (f r))) = d"
  shows "local_change cfg ((local_state s)(t := d)) s (StampChange cfg i (set_local i f s))"
proof -
  have idx: "i < length (ss_local_records s)" "lr_state_type (ss_local_records s ! i) = t"
    using found by (auto simp: FindLocalRecord_def Let_def split: if_splits)
  then have ok: "local_ok (ss_local_records s ! i)" using wf by (simp add: local_wf_def)
  have ft: "lr_state_type (f (ss_local_records s ! i)) = t" using f(1) idx(2) by simp
  obtain xs r ys xs' ys' where rs: "ss_local_records s = xs @ r # ys" "length xs = i" "lr_state_type r = t"
    and res: "ss_local_records (StampChange cfg i (set_local i f s)) =
       xs' @ restamp (ss_version_counter s + 1) (f r) # ys'"
    and kept: "list_all2 kept_or_newer xs xs'" "list_all2 kept_or_newer ys ys'"
    and wf': "local_wf cfg (StampChange cfg i (set_local i f s))"
    by (rule change_found [where f = f, OF wf cfg found ft f(2) [OF ok]])
  have srt: "sorted_by lr_state_type (xs @ r # ys)" using wf rs(1) by (simp only: local_wf_def)
  have "versions_advance (ss_local_records s) (ss_local_records (StampChange cfg i (set_local i f s)))"
    unfolding res using kept srt f(1)
  proof (rule versions_advance_middle)
    fix q
    assume "q \<in> set (ss_local_records s)" "\<not> lr_is_withdrawn q"
    then show "q \<in> set (xs @ ys) \<or> q = r \<and> IsNewer (ss_version_counter s + 1) (lr_version r)"
      using next_stamp_newer [OF wf cfg] by (auto simp: rs(1))
  qed
  moreover have "local_state (StampChange cfg i (set_local i f s)) = (local_state s)(t := d)"
  proof -
    have "map_of (live_data (xs @ r # ys)) u = map_of (live_data (xs @ ys)) u" if "u \<noteq> t" for u
      using that rs(3) by (auto simp: map_add_def split: option.splits)
    then show ?thesis
      using live_data_change [where f = f, OF srt f(1) kept] d [of r] rs(1,3) unfolding local_state_def res by auto
  qed
  ultimately show ?thesis using wf' by (simp add: local_change_def)
qed

lemma ClearLocalState_change:
  assumes wf: "local_wf cfg s" and cfg: "config_ok cfg"
  shows "local_change cfg ((local_state s)(t := None)) s (ClearLocalState cfg t s)"
proof (cases "FindLocalRecord t s")
  case None
  then have "t \<notin> lr_state_type ` set (ss_local_records s)"
    using wf FindLocalRecord_lookup [of s t] by (simp add: local_wf_def)
  then have "local_state s t = None"
    using live_data_keys [of "ss_local_records s"] by (auto simp: local_state_def map_of_eq_None_iff)
  then show ?thesis using None wf by (simp add: ClearLocalState_def local_change_same fun_upd_idem)
next
  case (Some i)
  obtain xs r ys where rs: "ss_local_records s = xs @ r # ys" "length xs = i" "lr_state_type r = t"
    using Some by (rule FindLocalRecord_Some)
  show ?thesis
  proof (cases "lr_is_withdrawn r")
    case True
    have "sorted_by lr_state_type (xs @ r # ys)" using wf rs(1) by (simp only: local_wf_def)
    then have "local_state s t = None"
      using live_data_found [of xs r ys] rs True by (simp only: local_state_def) simp
    moreover have "ClearLocalState cfg t s = s" using Some True rs by (auto simp: ClearLocalState_def)
    ultimately show ?thesis using wf by (simp add: local_change_same fun_upd_idem)
  next
    case False
    then have "ClearLocalState cfg t s =
        StampChange cfg i (set_local i (\<lambda>r. r\<lparr>lr_is_withdrawn := True, lr_data := []\<rparr>) s)"
      using Some rs by (auto simp: ClearLocalState_def)
    then show ?thesis
      using change_found_result [OF wf cfg Some, of "\<lambda>r. r\<lparr>lr_is_withdrawn := True, lr_data := []\<rparr>" None]
      by (simp add: local_ok_def)
  qed
qed

lemma store_added:
  assumes wf: "local_wf cfg s" and cfg: "config_ok cfg" and none: "FindLocalRecord t s = None"
    and add: "AddLocalRecord cfg t s = Some (i, s')" and d: "d \<noteq> []" "length d \<le> STATE_DATA_MAX_SIZE" "t \<noteq> 0"
  shows "local_change cfg ((local_state s)(t \<mapsto> d)) s (store_local cfg i d s')"
proof -
  let ?f = "\<lambda>r. r\<lparr>lr_is_withdrawn := False, lr_data := d\<rparr>" and ?n = "LocalRecord_new t"
  have new: "t \<notin> lr_state_type ` set (ss_local_records s)"
    using none wf FindLocalRecord_lookup [of s t] by (simp add: local_wf_def)
  obtain xs ys where s': "s' = s\<lparr>ss_local_records := xs @ ?n # ys\<rparr>" and i: "i = length xs"
    and len: "length (xs @ ?n # ys) \<le> cfg_max_local cfg" and srt: "sorted_by lr_state_type (xs @ ?n # ys)"
    and sub: "set (xs @ ys) \<subseteq> set (ss_local_records s)"
    and live: "filter (\<lambda>r. \<not> lr_is_withdrawn r) (xs @ ys) = filter (\<lambda>r. \<not> lr_is_withdrawn r) (ss_local_records s)"
    using wf new add by (rule AddLocalRecord_Some)
  have ft: "lr_state_type (?f ?n) = lr_state_type ?n" by simp
  have rs': "ss_local_records s' = xs @ ?n # ys" by (simp add: s')
  obtain xs' ys' where res: "ss_local_records (StampChange cfg i (set_local i ?f s')) =
       xs' @ restamp (ss_version_counter s' + 1) (?f ?n) # ys'"
    and kept: "list_all2 kept_or_newer xs xs'" "list_all2 kept_or_newer ys ys'"
    and wf': "local_wf cfg (StampChange cfg i (set_local i ?f s'))"
  proof (rule change_record [where f = ?f, OF rs' i cfg len srt ft])
    show "\<forall>x\<in>set (xs @ ys). local_ok x" using wf sub unfolding local_wf_def by blast
    show "local_ok (restamp 0 (?f ?n))"
      using d by (simp add: local_ok_def LocalRecord_new_def)
    show "lags_within (ss_version_counter s') (max_lag cfg) (xs @ ys)"
      using wf sub unfolding local_wf_def lags_within_def s' by auto
  qed blast
  have "versions_advance (ss_local_records s) (ss_local_records (StampChange cfg i (set_local i ?f s')))"
    unfolding res using kept srt ft
  proof (rule versions_advance_middle)
    fix q
    assume "q \<in> set (ss_local_records s)" "\<not> lr_is_withdrawn q"
    then have "q \<in> set (filter (\<lambda>r. \<not> lr_is_withdrawn r) (xs @ ys))" unfolding live by simp
    then show "q \<in> set (xs @ ys) \<or> q = ?n \<and> IsNewer (ss_version_counter s' + 1) (lr_version ?n)" by auto
  qed
  moreover have "local_state (StampChange cfg i (set_local i ?f s')) = (local_state s)(t \<mapsto> d)"
  proof -
    have "live_data (xs @ ys) = live_data (ss_local_records s)" by (simp only: live_data_def live)
    moreover have "lr_state_type ?n = t" by (simp add: LocalRecord_new_def)
    ultimately show ?thesis
      using live_data_change [where f = ?f, OF srt ft kept] unfolding local_state_def res by simp
  qed
  ultimately show ?thesis using wf' by (simp add: local_change_def store_local_def)
qed

definition has_room :: "state_config \<Rightarrow> u8 \<Rightarrow> CdmpStateService \<Rightarrow> bool" where
  "has_room cfg t s \<longleftrightarrow> t \<in> lr_state_type ` set (ss_local_records s) \<or>
     length (ss_local_records s) < cfg_max_local cfg \<or> (\<exists>r\<in>set (ss_local_records s). lr_is_withdrawn r)"

lemma SetLocalState_change:
  assumes wf: "local_wf cfg s" and cfg: "config_ok cfg" and run: "SetLocalState cfg t d s = (b, s')"
  shows "(b \<longleftrightarrow> t \<noteq> 0 \<and> length d \<le> STATE_DATA_MAX_SIZE \<and> (d = [] \<or> has_room cfg t s)) \<and>
     local_change cfg (if b then (local_state s)(t := if d = [] then None else Some d) else local_state s) s s'"
proof (cases "d = [] \<or> t = 0 \<or> length d > STATE_DATA_MAX_SIZE")
  case True
  have "t = 0 \<Longrightarrow> FindLocalRecord t s = None"
    using wf FindLocalRecord_lookup [of s t] by (auto simp: local_wf_def local_ok_def)
  with True run wf ClearLocalState_change [OF wf cfg, of t] show ?thesis
    by (auto simp: SetLocalState_def ClearLocalState_def local_change_same split: if_splits)
next
  case False
  note d = this
  show ?thesis
  proof (cases "FindLocalRecord t s")
    case None
    have "t \<notin> lr_state_type ` set (ss_local_records s)"
      using None wf FindLocalRecord_lookup [of s t] by (simp add: local_wf_def)
    moreover have "length (ss_local_records s) \<le> cfg_max_local cfg" using wf by (simp add: local_wf_def)
    ultimately have room: "has_room cfg t s \<longleftrightarrow> AddLocalRecord cfg t s \<noteq> None"
      by (auto simp: has_room_def AddLocalRecord_None)
    show ?thesis
    proof (cases "AddLocalRecord cfg t s")
      case None
      with run d \<open>FindLocalRecord t s = None\<close> wf room show ?thesis
        by (auto simp: SetLocalState_def local_change_same)
    next
      case (Some p)
      obtain i s1 where p: "p = (i, s1)" by (cases p)
      with run d \<open>FindLocalRecord t s = None\<close> Some have "b" "s' = store_local cfg i d s1"
        by (auto simp: SetLocalState_def)
      then show ?thesis
        using store_added [OF wf cfg \<open>FindLocalRecord t s = None\<close>, of i s1 d] Some p d room by simp
    qed
  next
    case (Some i)
    obtain xs r ys where rs: "ss_local_records s = xs @ r # ys" "length xs = i" "lr_state_type r = t"
      using Some by (rule FindLocalRecord_Some)
    then have r: "ss_local_records s ! i = r" and room: "has_room cfg t s" by (auto simp: has_room_def)
    show ?thesis
    proof (cases "\<not> lr_is_withdrawn r \<and> lr_data r = d")
      case True
      have "sorted_by lr_state_type (xs @ r # ys)" using wf rs(1) by (simp only: local_wf_def)
      then have "local_state s t = Some d"
        using live_data_found [of xs r ys] rs True by (simp only: local_state_def) simp
      moreover have "b" "s' = s" using run d Some True r by (auto simp: SetLocalState_def)
      ultimately show ?thesis using wf d room by (simp add: local_change_same fun_upd_idem)
    next
      case False
      then have "b" "s' = StampChange cfg i (set_local i (\<lambda>r. r\<lparr>lr_is_withdrawn := False, lr_data := d\<rparr>) s)"
        using run d Some r by (auto simp: SetLocalState_def store_local_def)
      then show ?thesis
        using change_found_result [OF wf cfg Some, of "\<lambda>r. r\<lparr>lr_is_withdrawn := False, lr_data := d\<rparr>" "Some d"]
          d room by (simp add: local_ok_def)
    qed
  qed
qed

section \<open>Bookkeeping of this unit's records\<close>

text \<open>Functions that touch neither the type, the version nor the value of a record.\<close>

definition same_record :: "LocalRecord \<Rightarrow> LocalRecord \<Rightarrow> bool" where
  "same_record r r' \<longleftrightarrow> lr_state_type r' = lr_state_type r \<and> lr_version r' = lr_version r \<and>
     lr_is_withdrawn r' = lr_is_withdrawn r \<and> lr_data r' = lr_data r"

lemma fold_add_same:
  "list_all2 same_record rs rs' \<Longrightarrow> fold (add_local cfg) rs' d = fold (add_local cfg) rs d"
  by (induction arbitrary: d rule: list_all2_induct) (auto simp: same_record_def add_local_def)

lemma fold_add_live: "fold (add_local cfg) rs d = fold (add_local cfg) (filter (\<lambda>r. \<not> lr_is_withdrawn r) rs) d"
  by (induction rs arbitrary: d) (auto simp: add_local_def)

lemma same_records_keys:
  "list_all2 same_record rs rs' \<Longrightarrow> map lr_state_type rs' = map lr_state_type rs"
  "list_all2 same_record rs rs' \<Longrightarrow> live_data rs' = live_data rs"
  by (induction rule: list_all2_induct) (auto simp: same_record_def)

lemma same_records_lags:
  "list_all2 same_record rs rs' \<Longrightarrow> lags_within c b rs' = lags_within c b rs"
  by (induction rule: list_all2_induct) (simp_all only: same_record_def lags_within_simps)

lemma local_wf_same:
  assumes "local_wf cfg s" and "list_all2 same_record (ss_local_records s) rs'" and "\<forall>r\<in>set rs'. local_ok r"
    and "ss_local_records s' = rs'" "ss_version_counter s' = ss_version_counter s"
    "dev_state_digest (ss_device s') = dev_state_digest (ss_device s)"
  shows "local_wf cfg s' \<and> local_state s' = local_state s"
  using assms(1,3-) same_records_keys [OF assms(2)] same_records_lags [OF assms(2)] fold_add_same [OF assms(2), of cfg]
    list_all2_lengthD [OF assms(2)]
  unfolding local_wf_def local_state_def by metis

lemma filter_live:
  assumes "\<And>r. \<not> lr_is_withdrawn r \<Longrightarrow> P r"
  shows "filter (\<lambda>r. \<not> lr_is_withdrawn r) (filter P rs) = filter (\<lambda>r. \<not> lr_is_withdrawn r) rs"
  using assms by (induction rs) auto

lemma FreeAcknowledgedWithdrawals_wf:
  assumes "local_wf cfg s"
  shows "local_wf cfg (FreeAcknowledgedWithdrawals s) \<and>
     local_state (FreeAcknowledgedWithdrawals s) = local_state s"
proof -
  let ?P = "\<lambda>r. \<not> (lr_is_withdrawn r \<and> \<not> lr_is_announce_pending r \<and> lr_unacknowledged r = [])"
  let ?rs = "ss_local_records s"
  have live: "filter (\<lambda>r. \<not> lr_is_withdrawn r) (filter ?P ?rs) = filter (\<lambda>r. \<not> lr_is_withdrawn r) ?rs"
    by (rule filter_live) simp
  have "fold (add_local cfg) (filter ?P ?rs) 0 = fold (add_local cfg) ?rs 0"
    by (subst (1 2) fold_add_live) (simp only: live)
  moreover have "live_data (filter ?P ?rs) = live_data ?rs" by (simp only: live_data_def live)
  moreover have "sorted_by lr_state_type (filter ?P ?rs)"
    using assms by (intro local_table.filter_sorted) (simp add: local_wf_def)
  moreover have "length (filter ?P ?rs) \<le> cfg_max_local cfg"
    using assms by (intro le_trans [OF length_filter_le]) (simp only: local_wf_def)
  moreover have "\<forall>r\<in>set (filter ?P ?rs). local_ok r" using assms by (simp only: local_wf_def set_filter) blast
  moreover have "lags_within (ss_version_counter s) (max_lag cfg) (filter ?P ?rs)"
    using assms by (simp only: local_wf_def lags_within_def set_filter) blast
  ultimately show ?thesis
    using assms by (simp only: local_wf_def local_state_def FreeAcknowledgedWithdrawals_def
        CdmpStateService.simps) simp
qed

lemma FreeAcknowledgedWithdrawals_frame [frame]:
  "remote_part (FreeAcknowledgedWithdrawals s) = remote_part s"
  "ss_rx_queue (FreeAcknowledgedWithdrawals s) = ss_rx_queue s"
  "ss_device (FreeAcknowledgedWithdrawals s) = ss_device s"
  "ss_remote_records (FreeAcknowledgedWithdrawals s) = ss_remote_records s"
  "ss_sources (FreeAcknowledgedWithdrawals s) = ss_sources s"
  by (simp_all add: FreeAcknowledgedWithdrawals_def remote_part_def)

text \<open>Removing by moving the last element into the gap takes exactly that element out.\<close>

lemma swap_remove_split:
  assumes "xs = as @ x # bs"
  shows "butlast (xs[length as := last xs]) = (if bs = [] then as else as @ last bs # butlast bs)"
  using assms by (cases bs rule: rev_cases) (auto simp: butlast_append list_update_append)

lemma swap_remove_distinct:
  assumes "distinct xs"
  shows "set (swap_remove x xs) = set xs - {x} \<and> distinct (swap_remove x xs) \<and>
     length (swap_remove x xs) = (if x \<in> set xs then length xs - 1 else length xs)"
proof (cases "find_index (\<lambda>y. y = x) xs")
  case None
  moreover from None have "x \<notin> set xs" by (auto simp: find_index_None)
  ultimately show ?thesis using assms by (simp add: swap_remove_def)
next
  case (Some i)
  then have i: "i < length xs" "xs ! i = x" using find_index_Some [OF Some] by auto
  define as bs where "as = take i xs" and "bs = drop (Suc i) xs"
  have xs: "xs = as @ x # bs" "length as = i"
    using i id_take_nth_drop [of i xs] by (auto simp: as_def bs_def)
  have rem: "swap_remove x xs = (if bs = [] then as else as @ last bs # butlast bs)"
    using Some swap_remove_split [OF xs(1)] xs(2) by (simp add: swap_remove_def)
  have perm: "bs \<noteq> [] \<Longrightarrow> set (last bs # butlast bs) = set bs \<and> distinct (last bs # butlast bs)"
    using assms xs(1) by (cases bs rule: rev_cases) auto
  show ?thesis
  proof (cases "bs = []")
    case True
    then show ?thesis using rem assms xs(1) by auto
  next
    case False
    then show ?thesis using rem perm assms xs(1) by (auto simp del: last.simps)
  qed
qed

lemma RemoveFromAcknowledgementSets_wf:
  assumes "local_wf cfg s"
  shows "local_wf cfg (RemoveFromAcknowledgementSets peer v s) \<and>
     local_state (RemoveFromAcknowledgementSets peer v s) = local_state s"
proof -
  let ?f = "\<lambda>r. if v \<noteq> None \<and> lr_version r \<noteq> the v then r
    else r\<lparr>lr_unacknowledged := swap_remove peer (lr_unacknowledged r)\<rparr>"
  let ?s = "s\<lparr>ss_local_records := map ?f (ss_local_records s)\<rparr>"
  have "local_wf cfg ?s \<and> local_state ?s = local_state s"
  proof (rule local_wf_same [OF assms])
    show "list_all2 same_record (ss_local_records s) (map ?f (ss_local_records s))"
      by (simp add: list_all2_map2 list_all2_same same_record_def)
    have "local_ok (?f r)" if "local_ok r" for r
    proof -
      have "local_ok (r\<lparr>lr_unacknowledged := swap_remove peer (lr_unacknowledged r)\<rparr>)"
        using that swap_remove_distinct [of "lr_unacknowledged r" peer]
        by (force simp: local_ok_def split: if_splits)
      with that show ?thesis by simp
    qed
    then show "\<forall>r\<in>set (map ?f (ss_local_records s)). local_ok r"
      using local_wf_ok [OF assms] unfolding set_map by blast
  qed simp_all
  then show ?thesis
    using FreeAcknowledgedWithdrawals_wf [of cfg ?s] by (simp add: RemoveFromAcknowledgementSets_def)
qed

lemma RemoveFromAcknowledgementSets_frame [frame]:
  "remote_part (RemoveFromAcknowledgementSets p v s) = remote_part s"
  "ss_rx_queue (RemoveFromAcknowledgementSets p v s) = ss_rx_queue s"
  "ss_device (RemoveFromAcknowledgementSets p v s) = ss_device s"
  "ss_remote_records (RemoveFromAcknowledgementSets p v s) = ss_remote_records s"
  "ss_sources (RemoveFromAcknowledgementSets p v s) = ss_sources s"
  by (simp_all add: RemoveFromAcknowledgementSets_def frame)

lemma SendNotification_frame [frame]:
  "local_part (SendNotification m s) = local_part s" "remote_part (SendNotification m s) = remote_part s"
  "ss_rx_queue (SendNotification m s) = ss_rx_queue s"
  "ss_canbus_valid (SendNotification m s) = ss_canbus_valid s"
  by (simp_all add: SendNotification_def frame)

lemma fold_SendNotification_frame [frame]:
  "local_part (fold SendNotification ms s) = local_part s"
  "remote_part (fold SendNotification ms s) = remote_part s"
  "ss_rx_queue (fold SendNotification ms s) = ss_rx_queue s"
  by (induction ms arbitrary: s) (simp_all add: frame)

lemma SendResponse_frame [frame]:
  "local_part (SendResponse m s) = local_part s" "remote_part (SendResponse m s) = remote_part s"
  "ss_rx_queue (SendResponse m s) = ss_rx_queue s"
  by (simp_all add: SendResponse_def frame)

lemma ScheduleRetransmission_frame [frame]:
  "local_part (ScheduleRetransmission now s) = local_part s"
  "remote_part (ScheduleRetransmission now s) = remote_part s"
  "ss_rx_queue (ScheduleRetransmission now s) = ss_rx_queue s"
  by (simp_all add: ScheduleRetransmission_def frame split: option.split)

text \<open>What \<open>GetNetworkDevices\<close> promises of the peers it copies into an array of eight.\<close>

definition peers_ok :: "CdmpDeviceInfo list \<Rightarrow> bool" where
  "peers_ok peers \<longleftrightarrow> length peers \<le> STATE_ACK_PEERS_MAX \<and> distinct (map di_device_id peers)"

lemma transmit_record_ok:
  assumes "peers_ok peers" and "local_ok r"
  shows "local_ok (fst (transmit_record now peers r)) \<and> same_record r (fst (transmit_record now peers r))"
proof -
  have "length (filter P peers) \<le> STATE_ACK_PEERS_MAX" "distinct (map di_device_id (filter P peers))" for P
    using assms(1) le_trans [OF length_filter_le] by (auto simp: peers_ok_def distinct_map inj_on_def)
  with assms(2) show ?thesis
    by (auto simp: transmit_record_def local_ok_def same_record_def Let_def STATE_RETRANSMIT_BACKOFFS_MS_def)
qed

lemma local_wf_map:
  assumes "local_wf cfg s" and "\<And>r. local_ok r \<Longrightarrow> local_ok (f r)" and "\<And>r. local_ok r \<Longrightarrow> same_record r (f r)"
    and "ss_local_records s' = map f (ss_local_records s)" "ss_version_counter s' = ss_version_counter s"
    "dev_state_digest (ss_device s') = dev_state_digest (ss_device s)"
  shows "local_wf cfg s' \<and> local_state s' = local_state s"
proof (rule local_wf_same [OF assms(1) _ _ assms(4-6)])
  show "list_all2 same_record (ss_local_records s) (map f (ss_local_records s))"
    using local_wf_ok [OF assms(1)] assms(3) by (simp add: list_all2_map2 list_all2_same)
  show "\<forall>r\<in>set (map f (ss_local_records s)). local_ok r"
    using local_wf_ok [OF assms(1)] assms(2) by simp
qed

lemma local_parts:
  assumes "local_part s = local_part t"
  shows "ss_local_records s = ss_local_records t" "ss_version_counter s = ss_version_counter t"
    "ss_device s = ss_device t"
  using assms by (simp_all add: local_part_def)

lemma local_wf_state_cong:
  "local_part s = local_part t \<Longrightarrow> local_wf cfg t \<and> local_state t = m \<Longrightarrow> local_wf cfg s \<and> local_state s = m"
  using local_wf_cong [of s t cfg] by (simp add: local_state_def local_part_def)

lemma Transmit_wf:
  assumes wf: "local_wf cfg s" and peers: "peers_ok peers"
  shows "local_wf cfg (Transmit now peers s) \<and> local_state (Transmit now peers s) = local_state s"
proof (cases "\<not> ss_is_started s \<or> \<not> IsOnline (ss_device s)")
  case True
  with wf show ?thesis by (simp add: Transmit_def)
next
  case False
  define f :: "LocalRecord \<Rightarrow> LocalRecord" where "f = (if ss_is_announce_all_pending s then (\<lambda>r. r\<lparr>lr_is_announce_pending := True\<rparr>) else (\<lambda>r. r))"
  define g where "g = (\<lambda>r. fst (transmit_record now peers (f r)))"
  let ?s = "s\<lparr>ss_is_announce_all_pending := False, ss_local_records := map g (ss_local_records s)\<rparr>"
  have f: "local_ok r \<Longrightarrow> local_ok (f r)" "same_record r (f r)" for r
    by (simp_all add: f_def local_ok_def same_record_def)
  have g: "local_ok r \<Longrightarrow> local_ok (g r)" "local_ok r \<Longrightarrow> same_record r (g r)" for r
    using transmit_record_ok [OF peers, of "f r" now] f [of r] by (auto simp: g_def same_record_def)
  have "local_wf cfg ?s \<and> local_state ?s = local_state s"
    by (rule local_wf_map [OF wf, of g]) (simp_all add: g)
  then have "local_wf cfg (FreeAcknowledgedWithdrawals ?s) \<and>
      local_state (FreeAcknowledgedWithdrawals ?s) = local_state s"
    using FreeAcknowledgedWithdrawals_wf [of cfg ?s] by simp
  moreover have "local_part (Transmit now peers s) = local_part (FreeAcknowledgedWithdrawals ?s)"
    using False by (simp add: Transmit_def Let_def frame g_def f_def comp_def)
  ultimately show ?thesis by (rule local_wf_state_cong [rotated])
qed

lemma Transmit_frame [frame]:
  "remote_part (Transmit now peers s) = remote_part s" "ss_rx_queue (Transmit now peers s) = ss_rx_queue s"
  by (simp_all add: Transmit_def Let_def frame) (simp add: remote_part_def)

lemma ForgetNetwork_wf:
  assumes "local_wf cfg s"
  shows "local_wf cfg (ForgetNetwork s) \<and> local_state (ForgetNetwork s) = local_state s"
  by (rule local_wf_map [OF assms, of "\<lambda>r. r\<lparr>lr_unacknowledged := []\<rparr>"])
    (simp_all add: local_ok_def same_record_def ForgetNetwork_def Let_def frame
      local_parts [OF RemoveRemoteRecords_frame(1)])

lemma ForgetNetwork_frame [frame]:
  "ss_remote_records (ForgetNetwork s) = []" "length (ss_sources (ForgetNetwork s)) = length (ss_sources s)"
  "ss_rx_queue (ForgetNetwork s) = ss_rx_queue s" "ss_device (ForgetNetwork s) = ss_device s"
  by (simp_all add: ForgetNetwork_def Let_def frame)

section \<open>Copies of other units' records\<close>

lemma key_sorted_weakly: "sorted_by rr_key rs \<Longrightarrow> weakly_sorted_by rr_source rs"
  by (induction rs) (auto simp: rr_key_def less_prod_def order.order_iff_strict)

lemma SourceRecords_filter:
  "remote_wf cfg s \<Longrightarrow> SourceRecords src s = filter (\<lambda>r. rr_source r = src) (ss_remote_records s)"
  by (simp add: SourceRecords_def Let_def remote_wf_def equal_range_split(2) key_sorted_weakly)

lemma update_source_records_map:
  "remote_wf cfg s \<Longrightarrow> ss_remote_records (update_source_records src f s) =
     map (\<lambda>r. if rr_source r = src then f r else r) (ss_remote_records s)"
  by (simp add: update_source_records_def Let_def remote_wf_def update_equal_range key_sorted_weakly)

lemma set_stale_fields [simp]:
  "rr_key (set_stale b r) = rr_key r" "rr_source (set_stale b r) = rr_source r"
  "rr_state_type (set_stale b r) = rr_state_type r" "rr_version (set_stale b r) = rr_version r"
  "rr_data (set_stale b r) = rr_data r" "rr_is_stale (set_stale b r) = b"
  by (simp_all add: set_stale_def rr_key_def)

lemma update_source_records_wf:
  assumes "remote_wf cfg s"
  shows "remote_wf cfg (update_source_records src (set_stale b) s)"
proof -
  let ?f = "\<lambda>r. if rr_source r = src then set_stale b r else r"
  have "sorted_by rr_key (map ?f (ss_remote_records s))"
    using assms by (intro remote_table.map_sorted) (simp_all add: remote_wf_def)
  moreover have "\<forall>r\<in>set (map ?f (ss_remote_records s)). remote_ok r"
    using assms by (auto simp: remote_wf_def remote_ok_def)
  ultimately show ?thesis
    using assms unfolding remote_wf_def update_source_records_map [OF assms] by (simp add: frame)
qed

lemma RemoveRemoteRecords_wf: "remote_wf cfg s \<Longrightarrow> remote_wf cfg (RemoveRemoteRecords P s)"
  by (auto simp: remote_wf_def remote_table.filter_sorted intro: le_trans [OF length_filter_le])

lemma remote_wf_sources:
  "remote_wf cfg s \<Longrightarrow> ss_remote_records s' = ss_remote_records s \<Longrightarrow>
   length (ss_sources s') = length (ss_sources s) \<Longrightarrow> remote_wf cfg s'"
  by (simp add: remote_wf_def)

text \<open>The copies as a map from source and type, with the abstract effect of a notification on it.\<close>

definition remote_state :: "CdmpStateService \<Rightarrow> u8 \<times> u8 \<rightharpoonup> RemoteRecord" where
  "remote_state s k = lookup_by rr_key k (ss_remote_records s)"

definition apply_spec ::
  "bool \<Rightarrow> CdmpStateChangeMessage \<Rightarrow> (u8 \<times> u8 \<rightharpoonup> RemoteRecord) \<Rightarrow> u8 \<times> u8 \<rightharpoonup> RemoteRecord" where
  "apply_spec is_full m M =
     (let k = (sc_source_device_id m, sc_state_type m);
          new = \<lparr>rr_source = fst k, rr_state_type = snd k, rr_version = sc_version m,
                 rr_is_stale = False, rr_data = sc_data m\<rparr>
      in case M k of
           Some r \<Rightarrow> if \<not> rr_is_stale r \<and> \<not> IsNewer (sc_version m) (rr_version r) then M
                     else M(k := if sc_data m = [] then None else Some new)
         | None \<Rightarrow> if sc_data m = [] \<or> is_full then M else M(k \<mapsto> new))"

lemma remote_lookup:
  assumes "remote_wf cfg s" and "i = lower_bound rr_key (src, t) (ss_remote_records s)"
  shows "remote_state s (src, t) =
     (if i < length (ss_remote_records s) \<and> rr_source (ss_remote_records s ! i) = src \<and>
         rr_state_type (ss_remote_records s ! i) = t then Some (ss_remote_records s ! i) else None)"
proof -
  have srt: "sorted_by rr_key (ss_remote_records s)" using assms(1) by (simp add: remote_wf_def)
  show ?thesis
    using remote_table.search_lookup [OF srt, of "(src, t)"] remote_table.search_found [OF srt, of "(src, t)"]
      assms(2) by (auto simp: remote_state_def rr_key_def lookup_by_None_iff)
qed

lemma remote_state_remove:
  assumes "remote_wf cfg s"
  shows "remote_state (RemoveRemoteRecords P s) k =
     (case remote_state s k of None \<Rightarrow> None | Some r \<Rightarrow> if P r then None else Some r)"
  using assms by (simp add: remote_state_def remote_wf_def remote_table.filter_lookup split: option.split)

lemma remote_state_key: "remote_state s k = Some r \<Longrightarrow> rr_key r = k \<and> r \<in> set (ss_remote_records s)"
  by (auto simp: remote_state_def dest: lookup_by_SomeD)

lemma remote_state_mem: "remote_wf cfg s \<Longrightarrow> r \<in> set (ss_remote_records s) \<Longrightarrow> remote_state s (rr_key r) = Some r"
  by (simp add: remote_state_def remote_wf_def remote_table.lookup_unique)

definition is_full :: "state_config \<Rightarrow> CdmpStateService \<Rightarrow> bool" where
  "is_full cfg s \<longleftrightarrow> length (ss_remote_records s) = cfg_max_remote cfg"

text \<open>The three ways a notification changes the table.\<close>

lemma remote_remove:
  assumes "remote_wf cfg s"
  shows "remote_state (RemoveRemoteRecords (\<lambda>r. rr_source r = src \<and> rr_state_type r = t) s) =
     (remote_state s)((src, t) := None)"
proof
  fix k
  show "remote_state (RemoveRemoteRecords (\<lambda>r. rr_source r = src \<and> rr_state_type r = t) s) k =
      ((remote_state s)((src, t) := None)) k"
    unfolding remote_state_remove [OF assms]
    by (cases k) (auto simp: rr_key_def split: option.split dest!: remote_state_key)
qed

lemma remote_overwrite:
  assumes wf: "remote_wf cfg s" and i: "i < length (ss_remote_records s)" "rr_key x = rr_key (ss_remote_records s ! i)"
    and ok: "remote_ok x"
    and s': "ss_remote_records s' = (ss_remote_records s)[i := x]" "length (ss_sources s') = length (ss_sources s)"
  shows "remote_wf cfg s' \<and> remote_state s' = (remote_state s)(rr_key x \<mapsto> x)"
proof
  have srt: "sorted_by rr_key (ss_remote_records s)" using wf by (simp add: remote_wf_def)
  show "remote_wf cfg s'"
    using wf ok remote_table.overwrite_sorted [OF srt i] s'
    by (auto simp: remote_wf_def dest!: set_update_subset_insert [THEN subsetD])
  show "remote_state s' = (remote_state s)(rr_key x \<mapsto> x)"
    using remote_table.overwrite_lookup [OF srt i] s' by (intro ext) (simp add: remote_state_def)
qed

lemma remote_insert:
  assumes wf: "remote_wf cfg s" and fresh: "remote_state s (rr_key x) = None" and ok: "remote_ok x"
    and room: "\<not> is_full cfg s"
    and s': "ss_remote_records s' = insert_at (lower_bound rr_key (rr_key x) (ss_remote_records s)) x (ss_remote_records s)"
      "length (ss_sources s') = length (ss_sources s)"
  shows "remote_wf cfg s' \<and> remote_state s' = (remote_state s)(rr_key x \<mapsto> x)"
proof
  have srt: "sorted_by rr_key (ss_remote_records s)" using wf by (simp add: remote_wf_def)
  have new: "rr_key x \<notin> rr_key ` set (ss_remote_records s)"
    using fresh by (simp add: remote_state_def lookup_by_None_iff)
  show "remote_wf cfg s'"
    using wf ok remote_table.insert_sorted [OF srt new] s' room by (auto simp: remote_wf_def is_full_def)
  show "remote_state s' = (remote_state s)(rr_key x \<mapsto> x)"
    using remote_table.insert_lookup [OF srt new] s' by (intro ext) (simp add: remote_state_def)
qed

lemma ApplyRecord_refines:
  assumes wf: "remote_wf cfg s" and m: "sc_state_type m \<noteq> 0" "length (sc_data m) \<le> STATE_DATA_MAX_SIZE"
  shows "remote_wf cfg (ApplyRecord cfg now m s) \<and>
     remote_state (ApplyRecord cfg now m s) = apply_spec (is_full cfg s) m (remote_state s)"
proof -
  let ?src = "sc_source_device_id m" and ?t = "sc_state_type m" and ?rs = "ss_remote_records s"
  let ?k = "(?src, ?t)" and ?s = "ApplyRecord cfg now m s"
  define i where "i = lower_bound rr_key ?k ?rs"
  define new where "new = \<lparr>rr_source = ?src, rr_state_type = ?t, rr_version = sc_version m,
    rr_is_stale = False, rr_data = sc_data m\<rparr>"
  define found where "found \<longleftrightarrow> i < length ?rs \<and> rr_source (?rs ! i) = ?src \<and> rr_state_type (?rs ! i) = ?t"
  have look: "remote_state s ?k = (if found then Some (?rs ! i) else None)"
    using remote_lookup [OF wf i_def] by (simp add: found_def)
  have key_new: "rr_key new = ?k" by (simp add: new_def rr_key_def)
  show ?thesis
  proof (cases "found \<and> \<not> rr_is_stale (?rs ! i) \<and> \<not> IsNewer (sc_version m) (rr_version (?rs ! i))")
    case True
    then have "?s = s" by (simp add: ApplyRecord_def Let_def i_def [symmetric] found_def)
    with True wf look show ?thesis by (simp add: apply_spec_def Let_def)
  next
    case newer: False
    consider (absent) "sc_data m = []" "\<not> found" | (remove) "sc_data m = []" found
      | (overwrite) "sc_data m \<noteq> []" found | (full) "sc_data m \<noteq> []" "\<not> found" "is_full cfg s"
      | (insert) "sc_data m \<noteq> []" "\<not> found" "\<not> is_full cfg s" by blast
    then show ?thesis
    proof cases
      case absent
      then have "?s = s" by (auto simp: ApplyRecord_def Let_def i_def [symmetric] found_def)
      with absent wf look show ?thesis by (simp add: apply_spec_def Let_def)
    next
      case remove
      then have s: "?s = RemoveRemoteRecords (\<lambda>r. rr_source r = ?src \<and> rr_state_type r = ?t) s"
        using newer by (auto simp: ApplyRecord_def Let_def i_def [symmetric] found_def)
      show ?thesis
        using remove newer look RemoveRemoteRecords_wf [OF wf] remote_remove [OF wf]
        unfolding s by (auto simp: apply_spec_def Let_def)
    next
      case overwrite
      have "(?rs ! i)\<lparr>rr_version := sc_version m, rr_data := sc_data m, rr_is_stale := False\<rparr> = new"
        using overwrite(2) by (cases "?rs ! i") (simp add: found_def new_def)
      then have rs': "ss_remote_records ?s = ?rs[i := new]" "length (ss_sources ?s) = length (ss_sources s)"
        using overwrite newer by (auto simp: ApplyRecord_def Let_def i_def [symmetric] found_def frame)
      have i: "i < length ?rs" "rr_key new = rr_key (?rs ! i)"
        using overwrite(2) by (auto simp: found_def new_def rr_key_def)
      show ?thesis
        using remote_overwrite [OF wf i _ rs'] m overwrite newer look
        by (auto simp: apply_spec_def Let_def new_def remote_ok_def rr_key_def)
    next
      case full
      then have "?s = MarkOverflowed now ?src s"
        by (auto simp: ApplyRecord_def Let_def i_def [symmetric] found_def is_full_def)
      with full wf look show ?thesis
        using remote_wf_sources [OF wf] MarkOverflowed_frame(3,4)
        by (auto simp: apply_spec_def Let_def remote_state_def)
    next
      case insert
      have rs': "ss_remote_records ?s = insert_at i new ?rs" "length (ss_sources ?s) = length (ss_sources s)"
        using insert by (auto simp: ApplyRecord_def Let_def i_def [symmetric] found_def new_def is_full_def frame)
      show ?thesis
        using remote_insert [OF wf, of new ?s] m insert look rs'
        by (auto simp: apply_spec_def Let_def new_def remote_ok_def rr_key_def i_def)
    qed
  qed
qed

section \<open>Runs of the service\<close>

text \<open>
  Every call the rest of the unit makes into the service, with what it may pass. The device object
  is shared: its other owners may change all of it but the digest, which only this service sets.
  \<open>deliver\<close> takes the effects over.
\<close>

inductive state_step :: "state_config \<Rightarrow> CdmpStateService \<Rightarrow> CdmpStateService \<Rightarrow> bool"
  for cfg :: state_config where
  initialize: "state_step cfg s (StateService_DoInitialize s)"
| start: "state_step cfg s (snd (StateService_DoStart i j s))"
| stop: "state_step cfg s (StateService_DoStop s)"
| canbus: "state_step cfg s (s\<lparr>ss_canbus_valid := b\<rparr>)"
| device: "dev_state_digest d = dev_state_digest (ss_device s) \<Longrightarrow> state_step cfg s (s\<lparr>ss_device := d\<rparr>)"
| deliver: "state_step cfg s (s\<lparr>ss_outbox := []\<rparr>)"
| queue: "state_step cfg s (QueueFrame frame is_response s)"
| receive: "state_step cfg s (ReceiveFrames cfg now is_online s)"
| status_changed: "state_step cfg s (OnDeviceStatusChanged old_status new_status s)"
| device_event: "state_step cfg s (OnDeviceEvent event device_id s)"
| heartbeat: "state_step cfg s (OnHeartbeat cfg now hb s)"
| sync_request: "state_step cfg s (snd (ProcessSyncRequest request s))"
| transmit: "peers_ok peers \<Longrightarrow> state_step cfg s (Transmit ms peers s)"
| replay: "state_step cfg s (snd (ReplayRecords s))"
| notify: "state_step cfg s (NotifyStateHandlers s)"
| set_local_state: "state_step cfg s (snd (SetLocalState cfg t d s))"
| clear_local_state: "state_step cfg s (ClearLocalState cfg t s)"
| register_handler: "state_step cfg s (snd (RegisterStateHandler t s))"
| unregister_handler: "state_step cfg s (UnregisterStateHandler i s)"

inductive_cases state_stepE: "state_step cfg s s'"

abbreviation state_init :: "state_config \<Rightarrow> CdmpStateService \<Rightarrow> bool" where
  "state_init cfg s \<equiv> config_ok cfg \<and> (\<exists>d. dev_state_digest d = 0 \<and> s = StateService_new cfg d)"

abbreviation state_reachable :: "state_config \<Rightarrow> CdmpStateService \<Rightarrow> bool" where
  "state_reachable cfg \<equiv> reachable (state_init cfg) (state_step cfg)"

definition rx_wf :: "CdmpStateService \<Rightarrow> bool" where
  "rx_wf s \<longleftrightarrow> length (ss_rx_queue s) \<le> RX_QUEUE_SIZE \<and>
     (\<forall>f\<in>set (ss_rx_queue s). length (rf_data f) \<le> STATE_CHANGE_MAX_FRAME_SIZE)"

lemma state_wf_parts: "state_wf cfg s \<longleftrightarrow> local_wf cfg s \<and> remote_wf cfg s \<and> rx_wf s"
  by (simp only: state_wf_def rx_wf_def)

lemma state_wf_cong:
  "local_part s = local_part t \<Longrightarrow> remote_part s = remote_part t \<Longrightarrow> ss_rx_queue s = ss_rx_queue t \<Longrightarrow>
   state_wf cfg t \<Longrightarrow> state_wf cfg s"
  using local_wf_cong [of s t cfg] remote_wf_cong [of s t cfg] by (simp add: state_wf_parts rx_wf_def)

lemma state_wf_remote:
  "state_wf cfg t \<Longrightarrow> local_part s = local_part t \<Longrightarrow> remote_wf cfg s \<Longrightarrow> ss_rx_queue s = ss_rx_queue t \<Longrightarrow>
   state_wf cfg s"
  using local_wf_cong [of s t cfg] by (simp add: state_wf_parts rx_wf_def)

lemma state_wf_sources:
  "state_wf cfg t \<Longrightarrow> local_part s = local_part t \<Longrightarrow> ss_remote_records s = ss_remote_records t \<Longrightarrow>
   length (ss_sources s) = length (ss_sources t) \<Longrightarrow> ss_rx_queue s = ss_rx_queue t \<Longrightarrow> state_wf cfg s"
  using local_wf_cong [of s t cfg] by (simp add: state_wf_parts rx_wf_def remote_wf_def)

lemma state_wf_local:
  "state_wf cfg t \<Longrightarrow> local_wf cfg s \<Longrightarrow> remote_part s = remote_part t \<Longrightarrow> ss_rx_queue s = ss_rx_queue t \<Longrightarrow>
   state_wf cfg s"
  using remote_wf_cong [of s t cfg] by (simp add: state_wf_parts rx_wf_def)

lemma ApplyRecord_frame [frame]:
  "local_part (ApplyRecord cfg now m s) = local_part s"
  "ss_rx_queue (ApplyRecord cfg now m s) = ss_rx_queue s"
  by (simp_all add: ApplyRecord_def Let_def frame MarkOverflowed_frame)

lemma try_from_frame_ok:
  "StateChange_TryFromCanFrame frame = Some m \<Longrightarrow> length (sc_data m) \<le> STATE_DATA_MAX_SIZE"
  by (auto simp: StateChange_TryFromCanFrame_def CdmpStateData_new_def split: if_splits)

lemma ProcessStateChangeFrame_wf:
  assumes "state_wf cfg s"
  shows "state_wf cfg (ProcessStateChangeFrame cfg now is_online frame s)"
proof -
  have "state_wf cfg (SendResponse m (ApplyRecord cfg now m s))"
    if "sc_state_type m \<noteq> 0" "StateChange_TryFromCanFrame frame = Some m" for m
  proof (rule state_wf_remote [OF assms])
    have "remote_wf cfg (ApplyRecord cfg now m s)"
      using ApplyRecord_refines that try_from_frame_ok assms by (simp add: state_wf_parts)
    then show "remote_wf cfg (SendResponse m (ApplyRecord cfg now m s))"
      using remote_wf_cong [OF SendResponse_frame(2)] by blast
  qed (simp_all add: frame)
  moreover have "state_wf cfg (s\<lparr>ss_rx_dropped := n\<rparr>)" for n
    by (rule state_wf_cong [OF _ _ _ assms]) (simp_all add: local_part_def remote_part_def)
  ultimately show ?thesis using assms by (auto simp: ProcessStateChangeFrame_def split: option.split)
qed

lemma ProcessStateChangeResponseFrame_wf:
  assumes "state_wf cfg s"
  shows "state_wf cfg (ProcessStateChangeResponseFrame frame s)"
proof -
  have "state_wf cfg (RemoveFromAcknowledgementSets p v s)" for p v
    using assms RemoveFromAcknowledgementSets_wf [of cfg s p v]
    by (intro state_wf_local [OF assms]) (simp_all add: frame state_wf_parts)
  moreover have "state_wf cfg (s\<lparr>ss_rx_dropped := n\<rparr>)" for n
    by (rule state_wf_cong [OF _ _ _ assms]) (simp_all add: local_part_def remote_part_def)
  ultimately show ?thesis using assms
    by (auto simp: ProcessStateChangeResponseFrame_def split: option.split)
qed

lemma ReceiveFrames_wf:
  assumes "state_wf cfg s"
  shows "state_wf cfg (ReceiveFrames cfg now is_online s)"
proof -
  have "state_wf cfg (fold (process_received cfg now is_online) fs s)" if "state_wf cfg s" for fs s
    using that
    by (induction fs arbitrary: s)
      (simp_all add: process_received_def ProcessStateChangeFrame_wf ProcessStateChangeResponseFrame_wf)
  moreover have "state_wf cfg (s\<lparr>ss_rx_queue := []\<rparr>)"
    using assms local_wf_cong [of "s\<lparr>ss_rx_queue := []\<rparr>" s cfg] remote_wf_cong [of "s\<lparr>ss_rx_queue := []\<rparr>" s cfg]
    by (simp add: state_wf_parts rx_wf_def local_part_def remote_part_def)
  ultimately have "state_wf cfg (fold (process_received cfg now is_online) (ss_rx_queue s) (s\<lparr>ss_rx_queue := []\<rparr>))"
    by blast
  then show ?thesis
    unfolding ReceiveFrames_def
    by (rule state_wf_cong [rotated 3]) (simp_all add: local_part_def remote_part_def)
qed

lemma ForgetNetwork_state_wf:
  assumes "state_wf cfg s"
  shows "state_wf cfg (ForgetNetwork s)"
  using assms ForgetNetwork_wf [of cfg s] by (simp add: state_wf_parts remote_wf_def rx_wf_def frame)

lemma DropSource_wf:
  assumes "state_wf cfg s"
  shows "state_wf cfg (DropSource src s)"
proof -
  let ?r = "RemoveRemoteRecords (\<lambda>r. rr_source r = src) s"
  let ?s = "RemoveFromAcknowledgementSets src None ?r"
  have "local_wf cfg ?r"
    using assms local_wf_cong [OF RemoveRemoteRecords_frame(1)] by (simp add: state_wf_parts)
  then have "local_wf cfg ?s" using RemoveFromAcknowledgementSets_wf [of cfg ?r] by simp
  moreover have "remote_wf cfg ?s"
    using assms RemoveRemoteRecords_wf remote_wf_cong [OF RemoveFromAcknowledgementSets_frame(1)]
    by (simp add: state_wf_parts)
  ultimately have wf: "state_wf cfg ?s" using assms by (simp add: state_wf_parts rx_wf_def frame)
  obtain r s' where f: "FindSourceState 0 src False ?s = (r, s')" by fastforce
  have "state_wf cfg s'" "state_wf cfg (s'\<lparr>ss_sources := (ss_sources s')[i := x]\<rparr>)" for i x
    using FindSourceState_frame [OF f] by (auto intro!: state_wf_sources [OF wf] simp: part_updates)
  then show ?thesis using f by (auto simp: DropSource_def split: option.split)
qed

lemma update_source_records_state_wf:
  assumes "state_wf cfg s"
  shows "state_wf cfg (update_source_records src (set_stale b) s)"
  using assms update_source_records_wf [of cfg s]
  by (intro state_wf_remote [OF assms]) (simp_all add: frame state_wf_parts)

lemma OnHeartbeat_wf:
  assumes "state_wf cfg s"
  shows "state_wf cfg (OnHeartbeat cfg now hb s)"
proof -
  let ?src = "hb_device_id hb"
  obtain b s' where f: "StartSyncRequest now ?src (update_source_records ?src (set_stale True) s) = (b, s')"
    by fastforce
  note fr = StartSyncRequest_frame [OF f]
  have upd: "state_wf cfg (update_source_records ?src (set_stale c) s)" for c
    using assms by (rule update_source_records_state_wf)
  have "state_wf cfg s'"
    using fr by (intro state_wf_sources [OF upd [of True]]) simp_all
  moreover from this have "state_wf cfg (emit e s')" for e
    by (rule state_wf_cong [rotated 3]) (simp_all add: frame)
  moreover have "state_wf cfg (RemoveRemoteRecords P s)" for P
    using assms RemoveRemoteRecords_wf [of cfg s P]
    by (intro state_wf_remote [OF assms]) (simp_all add: frame state_wf_parts)
  ultimately show ?thesis using assms upd f by (auto simp: OnHeartbeat_def Let_def split: if_splits)
qed

text \<open>Functions that touch neither the records nor the queue.\<close>

lemma idle_steps [frame]:
  "local_part (StateService_DoInitialize s) = local_part s" "remote_part (StateService_DoInitialize s) = remote_part s"
  "ss_rx_queue (StateService_DoInitialize s) = ss_rx_queue s"
  "local_part (UnregisterCanHandlers s) = local_part s" "remote_part (UnregisterCanHandlers s) = remote_part s"
  "ss_rx_queue (UnregisterCanHandlers s) = ss_rx_queue s"
  "local_part (NotifyStateHandlers s) = local_part s" "remote_part (NotifyStateHandlers s) = remote_part s"
  "ss_rx_queue (NotifyStateHandlers s) = ss_rx_queue s"
  "local_part (snd (ReplayRecords s)) = local_part s" "remote_part (snd (ReplayRecords s)) = remote_part s"
  "ss_rx_queue (snd (ReplayRecords s)) = ss_rx_queue s"
  "local_part (snd (RegisterStateHandler t s)) = local_part s"
  "remote_part (snd (RegisterStateHandler t s)) = remote_part s"
  "ss_rx_queue (snd (RegisterStateHandler t s)) = ss_rx_queue s"
  "local_part (UnregisterStateHandler i s) = local_part s"
  "remote_part (UnregisterStateHandler i s) = remote_part s"
  "ss_rx_queue (UnregisterStateHandler i s) = ss_rx_queue s"
  by (simp_all add: StateService_DoInitialize_def UnregisterCanHandlers_def NotifyStateHandlers_def
      RegisterStateHandler_def UnregisterStateHandler_def ReplayRecords_def Let_def fold_SendNotification_frame)
    (simp_all add: local_part_def remote_part_def emit_def)

lemma state_wf_idle:
  "state_wf cfg s \<Longrightarrow> local_part s' = local_part s \<Longrightarrow> remote_part s' = remote_part s \<Longrightarrow>
   ss_rx_queue s' = ss_rx_queue s \<Longrightarrow> state_wf cfg s'"
  by (rule state_wf_cong)

lemma StateService_DoStart_frame [frame]:
  "local_part (snd (StateService_DoStart i j s)) = local_part s"
  "remote_part (snd (StateService_DoStart i j s)) = remote_part s"
  "ss_rx_queue (snd (StateService_DoStart i j s)) = ss_rx_queue s"
  by (auto simp: StateService_DoStart_def RegisterCanHandlers_def UnregisterCanHandlers_def Let_def
      local_part_def remote_part_def emit_def)

lemma ProcessSyncRequest_frame [frame]:
  "local_part (snd (ProcessSyncRequest request s)) = local_part s"
  "remote_part (snd (ProcessSyncRequest request s)) = remote_part s"
  "ss_rx_queue (snd (ProcessSyncRequest request s)) = ss_rx_queue s"
  using idle_steps(10-12) [of s]
  by (cases "ReplayRecords s"; simp add: ProcessSyncRequest_def emit_frame split: option.split)+

lemma StateService_DoStop_wf:
  assumes "state_wf cfg s"
  shows "state_wf cfg (StateService_DoStop s)"
proof -
  let ?s1 = "(UnregisterCanHandlers s)\<lparr>ss_is_started := False\<rparr>"
  let ?s2 = "(if ss_has_tasks ?s1 then emit TasksCancel ?s1 else ?s1)\<lparr>ss_rx_queue := []\<rparr>"
  have "local_part ?s1 = local_part s" "remote_part ?s1 = remote_part s"
    using idle_steps(4,5) [of s] by (simp_all add: local_part_def remote_part_def)
  then have "local_part ?s2 = local_part s" "remote_part ?s2 = remote_part s" by (simp_all add: frame)
  then have "state_wf cfg ?s2"
    using assms local_wf_cong [of ?s2 s cfg] remote_wf_cong [of ?s2 s cfg]
    by (simp add: state_wf_parts rx_wf_def)
  then show ?thesis unfolding StateService_DoStop_def Let_def by (rule ForgetNetwork_state_wf)
qed

lemma QueueFrame_wf:
  assumes "state_wf cfg s"
  shows "state_wf cfg (QueueFrame frame is_response s)"
proof -
  have "local_part (QueueFrame frame is_response s) = local_part s"
    "remote_part (QueueFrame frame is_response s) = remote_part s"
    by (simp_all add: QueueFrame_def Let_def frame)
  moreover have "rx_wf (QueueFrame frame is_response s)"
    using assms by (auto simp: state_wf_parts QueueFrame_def Let_def rx_wf_def emit_def)
  ultimately show ?thesis
    using assms local_wf_cong [of "QueueFrame frame is_response s" s cfg]
      remote_wf_cong [of "QueueFrame frame is_response s" s cfg]
    by (simp add: state_wf_parts)
qed

lemma OnDeviceStatusChanged_wf:
  assumes "state_wf cfg s"
  shows "state_wf cfg (OnDeviceStatusChanged old_status new_status s)"
proof -
  have "state_wf cfg (emit e (s\<lparr>ss_is_announce_all_pending := True\<rparr>))"
    "state_wf cfg (s\<lparr>ss_is_announce_all_pending := True\<rparr>)" for e
    by (rule state_wf_idle [OF assms]; simp add: emit_def local_part_def remote_part_def)+
  with assms ForgetNetwork_state_wf [OF assms] show ?thesis by (simp add: OnDeviceStatusChanged_def Let_def)
qed

lemma OnDeviceEvent_wf: "state_wf cfg s \<Longrightarrow> state_wf cfg (OnDeviceEvent event device_id s)"
  by (cases event) (simp_all add: update_source_records_state_wf DropSource_wf)

lemma set_local_frame [frame]:
  "remote_part (set_local i f s) = remote_part s" "ss_rx_queue (set_local i f s) = ss_rx_queue s"
  by (simp_all add: set_local_def remote_part_def)

lemma AddLocalRecord_frame:
  assumes "AddLocalRecord cfg t s = Some (i, s')"
  shows "remote_part s' = remote_part s" "ss_rx_queue s' = ss_rx_queue s"
  using assms by (auto simp: AddLocalRecord_def Let_def frame split: option.splits if_splits)

lemma local_steps_frame [frame]:
  "remote_part (ClearLocalState cfg t s) = remote_part s" "ss_rx_queue (ClearLocalState cfg t s) = ss_rx_queue s"
  "remote_part (store_local cfg i d s) = remote_part s" "ss_rx_queue (store_local cfg i d s) = ss_rx_queue s"
  by (simp_all add: ClearLocalState_def store_local_def StampChange_frame set_local_frame split: option.split)

lemma SetLocalState_frame [frame]:
  "remote_part (snd (SetLocalState cfg t d s)) = remote_part s"
  "ss_rx_queue (snd (SetLocalState cfg t d s)) = ss_rx_queue s"
  by (simp_all add: SetLocalState_def local_steps_frame AddLocalRecord_frame split: option.split)

lemma ClearLocalState_wf:
  assumes "state_wf cfg s" and "config_ok cfg"
  shows "state_wf cfg (ClearLocalState cfg t s)"
proof (rule state_wf_local [OF assms(1)])
  show "local_wf cfg (ClearLocalState cfg t s)"
    using ClearLocalState_change [of cfg s t] assms by (simp add: state_wf_parts local_change_def)
qed (simp_all add: frame)

lemma SetLocalState_wf:
  assumes "state_wf cfg s" and "config_ok cfg"
  shows "state_wf cfg (snd (SetLocalState cfg t d s))"
proof (rule state_wf_local [OF assms(1)])
  show "local_wf cfg (snd (SetLocalState cfg t d s))"
    using SetLocalState_change [of cfg s t d] assms
    by (cases "SetLocalState cfg t d s") (simp add: state_wf_parts local_change_def)
qed (simp_all add: frame)

lemma Transmit_state_wf:
  assumes "state_wf cfg s" and "peers_ok peers"
  shows "state_wf cfg (Transmit now peers s)"
proof (rule state_wf_local [OF assms(1)])
  show "local_wf cfg (Transmit now peers s)"
    using Transmit_wf [of cfg s peers now] assms by (simp add: state_wf_parts)
qed (simp_all add: frame)

lemma state_step_wf:
  assumes "state_step cfg s s'" and wf: "config_ok cfg \<and> state_wf cfg s"
  shows "config_ok cfg \<and> state_wf cfg s'"
  using assms(1)
proof (cases rule: state_step.cases)
  case (device d)
  then have "local_wf cfg s'" using wf by (simp add: state_wf_parts local_wf_def)
  then show ?thesis using wf device by (auto intro: state_wf_local simp: frame)
next
  case (canbus b)
  have "local_part s' = local_part s" "remote_part s' = remote_part s" "ss_rx_queue s' = ss_rx_queue s"
    unfolding canbus by (simp_all add: local_part_def remote_part_def)
  then show ?thesis using wf state_wf_idle by blast
qed (use wf in \<open>simp_all add: ReceiveFrames_wf OnHeartbeat_wf StateService_DoStop_wf QueueFrame_wf
    OnDeviceStatusChanged_wf OnDeviceEvent_wf ClearLocalState_wf SetLocalState_wf Transmit_state_wf
    state_wf_idle [of cfg s] frame\<close>)

interpretation state_runs: invariant_of "state_init cfg" "state_step cfg" "\<lambda>s. config_ok cfg \<and> state_wf cfg s"
  for cfg
proof unfold_locales
  show "state_init cfg s \<Longrightarrow> config_ok cfg \<and> state_wf cfg s" for s
    by (auto simp: StateService_new_def state_wf_parts local_wf_def remote_wf_def rx_wf_def)
qed (rule state_step_wf)

end
