(* ===== verification/Cdmp_State_Props.thy ===== *)
theory Cdmp_State_Props
  imports Cdmp_State_Inv
begin

text \<open>
  What the shared-state service guarantees: its invariant, the record API as a map, notifications
  as updates of a map of copies, version order across the wrap of the counter, recovery by replay
  and digest, bounded retransmission and rate-limited sync requests.
\<close>

section \<open>Concrete states for the witnesses\<close>

definition demo_cfg :: state_config where
  "demo_cfg = \<lparr>cfg_max_local = 8, cfg_max_remote = 32, cfg_crc8 = \<lambda>d bs. fold (\<lambda>b acc. acc + b) bs (d + 1)\<rparr>"

definition demo_device :: "u8 \<Rightarrow> CdmpDevice" where
  "demo_device i = \<lparr>dev_device_id = i, dev_uid = 7, dev_protocol_version = 0x10, dev_health_status = 0,
     dev_features = 0, dev_last_heartbeat = 0, dev_uptime_counter = 0, dev_is_lowest_id_on_network = True,
     dev_staggered_message_delay = 0, dev_state_digest = 0, dev_status_machine = CdmpStatusMachine_new ONLINE\<rparr>"

definition demo_service :: CdmpStateService where
  "demo_service = StateService_new demo_cfg (demo_device 3)"

lemma demo_reachable: "state_reachable demo_cfg demo_service"
proof (rule reachable.start)
  have "config_ok demo_cfg" by (simp add: config_ok_def demo_cfg_def STATE_VERSION_REFRESH_LAG_def)
  moreover have "dev_state_digest (demo_device 3) = 0" by (simp add: demo_device_def)
  ultimately show "state_init demo_cfg demo_service" unfolding demo_service_def by blast
qed

lemma reachable_wf: "state_reachable cfg s \<Longrightarrow> local_wf cfg s \<and> remote_wf cfg s \<and> config_ok cfg"
  using state_runs.reachable_inv [of cfg s] by (simp add: state_wf_parts)

section \<open>Invariant and record API\<close>

text \<open>
  C2. In every state the service reaches, by any interleaving of its calls and of changes of the
  device by others, its tables are sorted, without duplicates and within their capacities, records
  have legal types and sizes, acknowledgement sets hold at most eight distinct peers, no live
  record is more than 61 versions plus the table size behind the counter, and the digest the
  heartbeats carry is the one of this unit's live records.
\<close>

theorem state_service_invariant:
  assumes "state_reachable cfg s"
  shows "state_wf cfg s"
  using state_runs.reachable_inv [OF assms] by simp

theorem state_service_invariant_witness:
  "state_wf demo_cfg (snd (SetLocalState demo_cfg 1 [5] demo_service))"
  by (rule state_service_invariant)
    (rule reachable.move [OF demo_reachable state_step.set_local_state])

text \<open>
  C28. Seen from the record API, this unit's records are a map from state types to data. A call of
  \<open>SetLocalState\<close> succeeds just when the type is not 0, the data has at most five bytes and there
  is a slot (the type has one, the table is not full, or a withdrawn record can give way; a
  withdrawal needs none); it then updates that one type, empty data removing it, and a call that
  fails changes nothing.
\<close>

theorem set_local_state_refines:
  assumes "state_reachable cfg s" and "SetLocalState cfg t d s = (b, s')"
  shows "(b \<longleftrightarrow> t \<noteq> 0 \<and> length d \<le> STATE_DATA_MAX_SIZE \<and> (d = [] \<or> has_room cfg t s)) \<and>
     local_state s' = (if b then (local_state s)(t := if d = [] then None else Some d) else local_state s)"
  using SetLocalState_change [of cfg s t d b s'] reachable_wf [OF assms(1)] assms(2)
  by (simp add: local_change_def)

theorem set_local_state_refines_witness:
  "\<exists>s'. SetLocalState demo_cfg 1 [5] demo_service = (True, s') \<and> local_state s' 1 = Some [5]"
proof -
  obtain b s' where run: "SetLocalState demo_cfg 1 [5] demo_service = (b, s')" by fastforce
  have "has_room demo_cfg 1 demo_service"
    by (simp add: has_room_def demo_service_def StateService_new_def demo_cfg_def)
  then show ?thesis
    using set_local_state_refines [OF demo_reachable run] run by (simp add: STATE_DATA_MAX_SIZE_def)
qed



section \<open>Copies\<close>

text \<open>
  C29. The copies are a map from source and type to records, and a notification acts on it as the
  protocol says: an older or repeated version of a record that is not stale changes nothing, empty
  data removes the record, and anything else replaces it and makes it fresh; a new record is added
  unless the table is full.
\<close>

theorem apply_record_refines:
  assumes "state_reachable cfg s" and "sc_state_type m \<noteq> 0" and "length (sc_data m) \<le> STATE_DATA_MAX_SIZE"
  shows "remote_state (ApplyRecord cfg now m s) = apply_spec (is_full cfg s) m (remote_state s)"
  using ApplyRecord_refines [of cfg s m now] reachable_wf [OF assms(1)] assms(2,3) by simp

theorem apply_record_refines_witness:
  "remote_state (ApplyRecord demo_cfg 0
      \<lparr>sc_source_device_id = 4, sc_version = 9, sc_state_type = 2, sc_data = [1]\<rparr> demo_service) (4, 2) =
     Some \<lparr>rr_source = 4, rr_state_type = 2, rr_version = 9, rr_is_stale = False, rr_data = [1]\<rparr>"
proof -
  let ?m = "\<lparr>sc_source_device_id = 4, sc_version = 9, sc_state_type = 2, sc_data = [1]\<rparr> :: CdmpStateChangeMessage"
  have "remote_state demo_service (4, 2) = None" "\<not> is_full demo_cfg demo_service"
    by (simp_all add: remote_state_def demo_service_def StateService_new_def is_full_def demo_cfg_def)
  then show ?thesis
    using apply_record_refines [OF demo_reachable, of ?m 0]
    by (simp add: apply_spec_def STATE_DATA_MAX_SIZE_def)
qed

lemma filter_type_sorted:
  assumes "sorted_by rr_key rs"
  shows "sorted_wrt (<) (map rr_source (filter (\<lambda>r. rr_state_type r = t) rs))"
  using assms by (induction rs) (auto simp: rr_key_def less_prod_def)

text \<open>
  \<open>GetRemoteStates\<close> with room for every copy returns exactly the copies of the type, each
  device once, in ascending order of device IDs; with less room it returns those of the lowest.
\<close>

theorem get_remote_states_exact:
  assumes "state_reachable cfg s"
  shows "sorted_wrt (<) (map rs_device_id (GetRemoteStates t n s)) \<and>
     (cfg_max_remote cfg \<le> n \<longrightarrow>
      (\<forall>x. x \<in> set (GetRemoteStates t n s) \<longleftrightarrow>
        (\<exists>r. remote_state s (rs_device_id x, t) = Some r \<and> rs_data x = rr_data r \<and>
          rs_is_stale x = rr_is_stale r))) \<and>
     (\<exists>rest. GetRemoteStates t (cfg_max_remote cfg) s = GetRemoteStates t (min n (cfg_max_remote cfg)) s @ rest)"
proof -
  let ?f = "\<lambda>r. \<lparr>rs_device_id = rr_source r, rs_data = rr_data r, rs_is_stale = rr_is_stale r\<rparr>"
  let ?rs = "filter (\<lambda>r. rr_state_type r = t) (ss_remote_records s)"
  have wf: "remote_wf cfg s" using reachable_wf [OF assms] by blast
  have "map rs_device_id (GetRemoteStates t n s) = take n (map rr_source ?rs)"
    by (simp add: GetRemoteStates_def take_map comp_def)
  moreover have "sorted_wrt (<) (take n (map rr_source ?rs))"
    using wf filter_type_sorted [of "ss_remote_records s" t] by (auto simp: remote_wf_def intro: sorted_wrt_take)
  moreover have "x \<in> set (GetRemoteStates t n s) \<longleftrightarrow>
        (\<exists>r. remote_state s (rs_device_id x, t) = Some r \<and> rs_data x = rr_data r \<and> rs_is_stale x = rr_is_stale r)"
    if "cfg_max_remote cfg \<le> n" for x
  proof -
    have "length ?rs \<le> length (ss_remote_records s)" by (rule length_filter_le)
    also have "\<dots> \<le> n" using wf that by (simp add: remote_wf_def)
    finally have "length ?rs \<le> n" .
    then have img: "set (GetRemoteStates t n s) = ?f ` set ?rs" by (simp add: GetRemoteStates_def)
    have mem: "r \<in> set ?rs \<longleftrightarrow> remote_state s (rr_source r, t) = Some r" for r
      using remote_state_mem [OF wf, of r] remote_state_key [of s "(rr_source r, t)" r] by (auto simp: rr_key_def)
    have src: "rr_source r = i" if "remote_state s (i, t) = Some r" for i r
      using remote_state_key [OF that] by (simp add: rr_key_def)
    have eq: "x = ?f r \<longleftrightarrow> rs_device_id x = rr_source r \<and> rs_data x = rr_data r \<and> rs_is_stale x = rr_is_stale r" for r
      by (cases x) auto
    show ?thesis unfolding img image_iff eq Bex_def mem by (metis src)
  qed
  moreover have "\<exists>rest. GetRemoteStates t (cfg_max_remote cfg) s = GetRemoteStates t (min n (cfg_max_remote cfg)) s @ rest"
  proof (cases "n \<le> cfg_max_remote cfg")
    case True
    then obtain k where "cfg_max_remote cfg = n + k" using le_Suc_ex by blast
    then show ?thesis by (simp add: GetRemoteStates_def take_add)
  qed (simp add: GetRemoteStates_def)
  ultimately show ?thesis by simp
qed

theorem get_remote_states_exact_witness:
  "sorted_wrt (<) (map rs_device_id (GetRemoteStates 2 32 demo_service)) \<and> GetRemoteStates 2 32 demo_service = []"
  using get_remote_states_exact [OF demo_reachable, of 2 32]
  by (simp add: GetRemoteStates_def demo_service_def StateService_new_def)

section \<open>Recovery by replay and digest\<close>

text \<open>The copy of a record of the unit with ID \<open>a\<close> that is in step with it.\<close>

definition copy_of :: "u8 \<Rightarrow> LocalRecord \<Rightarrow> RemoteRecord" where
  "copy_of a l = \<lparr>rr_source = a, rr_state_type = lr_state_type l, rr_version = lr_version l,
     rr_is_stale = False, rr_data = lr_data l\<rparr>"

definition live_records :: "CdmpStateService \<Rightarrow> LocalRecord list" where
  "live_records s = filter (\<lambda>r. \<not> lr_is_withdrawn r) (ss_local_records s)"

lemma copy_of_fields [simp]:
  "rr_key (copy_of a l) = (a, lr_state_type l)" "\<not> rr_is_stale (copy_of a l)" "rr_source (copy_of a l) = a"
  "rr_state_type (copy_of a l) = lr_state_type l" "rr_version (copy_of a l) = lr_version l"
  "rr_data (copy_of a l) = lr_data l"
  by (simp_all add: copy_of_def rr_key_def)

lemma copies_digest: "fold (add_remote cfg) (map (copy_of a) ls) d =
   fold (\<lambda>l d. AddToDigest cfg d (lr_state_type l) (lr_version l) (lr_data l)) ls d"
  by (induction ls arbitrary: d) (simp_all add: add_remote_def)

lemma live_digest: "fold (add_local cfg) rs d =
   fold (\<lambda>l d. AddToDigest cfg d (lr_state_type l) (lr_version l) (lr_data l)) (filter (\<lambda>r. \<not> lr_is_withdrawn r) rs) d"
  by (induction rs arbitrary: d) (simp_all add: add_local_def)

lemma fresh_digest_filter:
  "fold (\<lambda>r d. if rr_is_stale r then d else add_remote cfg r d) rs d =
   fold (add_remote cfg) (filter (\<lambda>r. \<not> rr_is_stale r) rs) d"
  by (induction rs arbitrary: d) simp_all

text \<open>Two strictly sorted tables with the same elements are the same list.\<close>

lemma sorted_tables_equal:
  assumes "sorted_by rr_key xs" and "sorted_by rr_key ys" and "set xs = set ys"
  shows "xs = ys"
proof -
  have "map rr_key xs = map rr_key ys"
    using assms by (intro strict_sorted_equal) auto
  moreover have "inj_on rr_key (set xs \<union> set ys)"
    using remote_table.keys_distinct [OF assms(1)] assms(3) by (simp add: distinct_map)
  ultimately show ?thesis by (simp add: inj_on_map_eq_map)
qed

text \<open>
  The state of a receiver while it works through a replay: the types already replayed have in-step
  copies, the others are as before, nothing was dropped for lack of room.
\<close>

definition replayed :: "u8 \<Rightarrow> LocalRecord list \<Rightarrow> CdmpStateService \<Rightarrow> CdmpStateService \<Rightarrow> bool" where
  "replayed a ls s s' \<longleftrightarrow>
     (\<forall>k. remote_state s' k =
        (case find (\<lambda>l. (a, lr_state_type l) = k) ls of Some l \<Rightarrow> Some (copy_of a l) | None \<Rightarrow> remote_state s k)) \<and>
     ss_sources s' = ss_sources s \<and> local_part s' = local_part s \<and>
     length (ss_remote_records s') \<le> length (ss_remote_records s) + length ls"

lemma apply_replayed_record:
  assumes wf: "remote_wf cfg s" and room: "length (ss_remote_records s) < cfg_max_remote cfg"
    and stale: "\<And>r. remote_state s (a, lr_state_type l) = Some r \<Longrightarrow> rr_is_stale r"
    and l: "local_ok l" "\<not> lr_is_withdrawn l"
  shows "remote_wf cfg (ApplyRecord cfg now (record_message a l) s) \<and>
     remote_state (ApplyRecord cfg now (record_message a l) s) = (remote_state s)((a, lr_state_type l) \<mapsto> copy_of a l) \<and>
     ss_sources (ApplyRecord cfg now (record_message a l) s) = ss_sources s \<and>
     length (ss_remote_records (ApplyRecord cfg now (record_message a l) s)) \<le> Suc (length (ss_remote_records s))"
proof -
  let ?m = "record_message a l"
  have m: "sc_source_device_id ?m = a" "sc_state_type ?m = lr_state_type l" "sc_version ?m = lr_version l"
    "sc_data ?m = lr_data l"
    by (simp_all add: record_message_def)
  have ok: "sc_state_type ?m \<noteq> 0" "length (sc_data ?m) \<le> STATE_DATA_MAX_SIZE" "sc_data ?m \<noteq> []"
    using l by (auto simp: m local_ok_def)
  have "\<not> is_full cfg s" using room by (simp add: is_full_def)
  then have "apply_spec (is_full cfg s) ?m (remote_state s) = (remote_state s)((a, lr_state_type l) \<mapsto> copy_of a l)"
    using stale ok(3) by (auto simp: apply_spec_def Let_def m copy_of_def split: option.split)
  moreover have "ss_sources (ApplyRecord cfg now ?m s) = ss_sources s \<and>
      length (ss_remote_records (ApplyRecord cfg now ?m s)) \<le> Suc (length (ss_remote_records s))"
    using ok(3) room by (simp add: ApplyRecord_def Let_def frame)
  ultimately show ?thesis using ApplyRecord_refines [OF wf ok(1,2), of now] by simp
qed

lemma replay_applied:
  assumes wf: "remote_wf cfg s" and room: "length (ss_remote_records s) + length ls \<le> cfg_max_remote cfg"
    and ls: "distinct (map lr_state_type ls)" "\<forall>l\<in>set ls. local_ok l \<and> \<not> lr_is_withdrawn l"
    and stale: "\<And>l r. l \<in> set ls \<Longrightarrow> remote_state s (a, lr_state_type l) = Some r \<Longrightarrow> rr_is_stale r"
  shows "remote_wf cfg (fold (ApplyRecord cfg now) (map (record_message a) ls) s) \<and>
     replayed a ls s (fold (ApplyRecord cfg now) (map (record_message a) ls) s)"
  using assms
proof (induction ls arbitrary: s)
  case Nil
  then show ?case by (simp add: replayed_def)
next
  case (Cons l ls)
  let ?s = "ApplyRecord cfg now (record_message a l) s"
  have step: "remote_wf cfg ?s" "remote_state ?s = (remote_state s)((a, lr_state_type l) \<mapsto> copy_of a l)"
    "ss_sources ?s = ss_sources s" "length (ss_remote_records ?s) \<le> Suc (length (ss_remote_records s))"
    using apply_replayed_record [of cfg s a l now] Cons.prems by auto
  have dist: "lr_state_type l \<notin> lr_state_type ` set ls" using Cons.prems(3) by simp
  have "remote_wf cfg (fold (ApplyRecord cfg now) (map (record_message a) ls) ?s) \<and>
     replayed a ls ?s (fold (ApplyRecord cfg now) (map (record_message a) ls) ?s)"
  proof (rule Cons.IH [OF step(1)])
    show "length (ss_remote_records ?s) + length ls \<le> cfg_max_remote cfg" using step(4) Cons.prems(2) by simp
    show "rr_is_stale r" if "k \<in> set ls" "remote_state ?s (a, lr_state_type k) = Some r" for k r
    proof -
      have "lr_state_type k \<noteq> lr_state_type l" using that(1) dist by (metis image_eqI)
      then show ?thesis using that Cons.prems(5) [of k r] by (simp add: step(2))
    qed
  qed (use Cons.prems in auto)
  moreover have "find (\<lambda>k. lr_state_type k = lr_state_type l) ls = None"
    unfolding find_None_iff using dist by (metis image_eqI)
  ultimately show ?case
    using step(2-4) by (auto simp: replayed_def frame split: option.splits)
qed

lemma find_unique:
  assumes "distinct (map f xs)" and "x \<in> set xs"
  shows "find (\<lambda>y. f y = f x) xs = Some x"
  using assms by (induction xs) auto

lemma copies_sorted:
  "sorted_by lr_state_type ls \<Longrightarrow> sorted_by rr_key (map (copy_of a) ls)"
  by (induction ls) (auto simp: less_prod_def)

text \<open>After the replay, the fresh copies are in step with the source's live records, in its order.\<close>

lemma fresh_copies:
  assumes wf: "remote_wf cfg s'" and rep: "replayed a ls s s'" and srt: "sorted_by lr_state_type ls"
    and stale: "\<forall>r\<in>set (ss_remote_records s). rr_source r = a \<longrightarrow> rr_is_stale r"
  shows "filter (\<lambda>r. \<not> rr_is_stale r) (SourceRecords a s') = map (copy_of a) ls"
proof (rule sorted_tables_equal)
  have src: "SourceRecords a s' = filter (\<lambda>r. rr_source r = a) (ss_remote_records s')"
    using wf by (rule SourceRecords_filter)
  show "sorted_by rr_key (filter (\<lambda>r. \<not> rr_is_stale r) (SourceRecords a s'))"
    using wf unfolding src by (simp add: remote_wf_def remote_table.filter_sorted)
  show "sorted_by rr_key (map (copy_of a) ls)" using srt by (rule copies_sorted)
  have state: "remote_state s' (a, t) =
      (case find (\<lambda>l. lr_state_type l = t) ls of Some l \<Rightarrow> Some (copy_of a l) | None \<Rightarrow> remote_state s (a, t))" for t
    using rep by (simp add: replayed_def)
  have "r \<in> set (map (copy_of a) ls)" if "r \<in> set (ss_remote_records s')" "rr_source r = a" "\<not> rr_is_stale r" for r
  proof -
    have r: "remote_state s' (a, rr_state_type r) = Some r"
      using remote_state_mem [OF wf that(1)] that(2) by (simp add: rr_key_def)
    show ?thesis
    proof (cases "find (\<lambda>l. lr_state_type l = rr_state_type r) ls")
      case None
      then have "remote_state s (a, rr_state_type r) = Some r" using r state by simp
      then have "r \<in> set (ss_remote_records s)" by (blast dest: remote_state_key)
      then show ?thesis using stale that(2,3) by blast
    next
      case (Some l)
      then have "l \<in> set ls" by (auto simp: find_Some_iff)
      then show ?thesis using Some r state by auto
    qed
  qed
  moreover have "copy_of a l \<in> set (ss_remote_records s')" if "l \<in> set ls" for l
  proof -
    have "find (\<lambda>k. lr_state_type k = lr_state_type l) ls = Some l"
      using local_table.keys_distinct [OF srt] that by (rule find_unique)
    then have "remote_state s' (a, lr_state_type l) = Some (copy_of a l)" using state by simp
    then show ?thesis by (blast dest: remote_state_key)
  qed
  ultimately show "set (filter (\<lambda>r. \<not> rr_is_stale r) (SourceRecords a s')) = set (map (copy_of a) ls)"
    unfolding src by auto
qed

definition sync_requests :: "CdmpStateService \<Rightarrow> u8 list" where
  "sync_requests s = concat (map (\<lambda>e. case e of SendSyncRequest i \<Rightarrow> [i] | _ \<Rightarrow> []) (ss_outbox s))"

lemma sync_requests_emit [simp]:
  "sync_requests (emit e s) = sync_requests s @ (case e of SendSyncRequest i \<Rightarrow> [i] | _ \<Rightarrow> [])"
  by (simp add: sync_requests_def emit_def)

lemma sync_requests_cong: "ss_outbox s = ss_outbox t \<Longrightarrow> sync_requests s = sync_requests t"
  by (simp add: sync_requests_def)

lemma sync_requests_frame [simp]:
  "sync_requests (RemoveRemoteRecords P s) = sync_requests s"
  "sync_requests (update_source_records src f s) = sync_requests s"
  by (auto simp: RemoveRemoteRecords_def ScheduleStateHandlers_def update_source_records_def Let_def
      intro!: sync_requests_cong)

lemma SourceRecords_remove_stale:
  assumes "remote_wf cfg s"
  shows "SourceRecords a (RemoveRemoteRecords (\<lambda>r. rr_source r = a \<and> rr_is_stale r) s) =
     filter (\<lambda>r. \<not> rr_is_stale r) (SourceRecords a s)"
  unfolding SourceRecords_filter [OF assms] SourceRecords_filter [OF RemoveRemoteRecords_wf [OF assms]]
  by (auto simp: intro: filter_cong)

lemma SourceRecords_set_stale:
  assumes "remote_wf cfg s"
  shows "SourceRecords a (update_source_records a (set_stale b) s) = map (set_stale b) (SourceRecords a s)"
proof -
  have "filter (\<lambda>r. rr_source r = a) (map (\<lambda>r. if rr_source r = a then set_stale b r else r) rs) =
      map (set_stale b) (filter (\<lambda>r. rr_source r = a) rs)" for rs
    by (induction rs) auto
  then show ?thesis
    unfolding SourceRecords_filter [OF assms] SourceRecords_filter [OF update_source_records_wf [OF assms]]
      update_source_records_map [OF assms] .
qed

text \<open>
  What a heartbeat does when the fresh copies alone give its digest: it asks for nothing, and unless
  the stale copies happen to give the same digest, only the fresh ones are left.
\<close>

lemma heartbeat_after_replay:
  assumes wf: "remote_wf cfg s" and online: "IsOnline (ss_device s)"
    and overflow: "\<not> is_source_overflowed (hb_device_id hb) s"
    and digest: "fold (add_remote cfg) (filter (\<lambda>r. \<not> rr_is_stale r) (SourceRecords (hb_device_id hb) s)) 0 = hb_state_digest hb"
  shows "sync_requests (OnHeartbeat cfg now hb s) = sync_requests s \<and>
     SourceRecords (hb_device_id hb) (OnHeartbeat cfg now hb s) =
       (if fold (add_remote cfg) (SourceRecords (hb_device_id hb) s) 0 = hb_state_digest hb
        then map (set_stale False) (SourceRecords (hb_device_id hb) s)
        else filter (\<lambda>r. \<not> rr_is_stale r) (SourceRecords (hb_device_id hb) s))"
proof -
  let ?rs = "SourceRecords (hb_device_id hb) s"
  have "\<not> list_ex rr_is_stale ?rs \<Longrightarrow> filter (\<lambda>r. \<not> rr_is_stale r) ?rs = ?rs"
    by (simp add: list_ex_iff filter_id_conv)
  then have "\<not> list_ex rr_is_stale ?rs \<Longrightarrow> fold (add_remote cfg) ?rs 0 = hb_state_digest hb"
    using digest by simp
  then show ?thesis
    using online overflow digest SourceRecords_set_stale [OF wf] SourceRecords_remove_stale [OF wf]
    by (auto simp: OnHeartbeat_def Let_def fresh_digest_filter)
qed

text \<open>
  C1. Recovery. Take a source and a receiver in any states they reach, where the receiver has marked
  its copies of the source stale (it saw a digest that differs, or the source restarted) and has room
  for the source's records. Once the source's replay arrived and its next heartbeat with its digest
  arrives, the receiver holds a fresh copy in step with every live record of the source and asks for
  no further replay; and it holds nothing else of the source, except when its stale copies happen to
  give the very digest of the heartbeat.
\<close>

theorem replay_recovers:
  assumes source: "state_reachable cfg_s S" and receiver: "state_reachable cfg R"
    and crc: "cfg_crc8 cfg_s = cfg_crc8 cfg" and a: "dev_device_id (ss_device S) = a"
    and online: "IsOnline (ss_device R)" and tracked: "\<not> is_source_overflowed a R"
    and stale: "\<forall>r\<in>set (ss_remote_records R). rr_source r = a \<longrightarrow> rr_is_stale r"
    and room: "length (ss_remote_records R) + length (live_records S) \<le> cfg_max_remote cfg"
    and hb: "hb_device_id hb = a" "hb_state_digest hb = dev_state_digest (ss_device S)"
    and R1: "R1 = fold (ApplyRecord cfg now) (replay_messages S) R"
    and R2: "R2 = OnHeartbeat cfg now' hb R1"
  shows "set (map (copy_of a) (live_records S)) \<subseteq> set (SourceRecords a R2) \<and>
     sync_requests R2 = sync_requests R1 \<and>
     (SourceRecords a R2 = map (copy_of a) (live_records S) \<or>
      list_ex rr_is_stale (SourceRecords a R1) \<and> fold (add_remote cfg) (SourceRecords a R1) 0 = hb_state_digest hb)"
proof -
  have S: "local_wf cfg_s S" and R: "remote_wf cfg R" using reachable_wf source receiver by blast+
  let ?ls = "live_records S"
  have msgs: "replay_messages S = map (record_message a) ?ls"
    by (simp add: replay_messages_def live_records_def a)
  have srt: "sorted_by lr_state_type ?ls"
    using local_wf_sorted [OF S] by (simp add: live_records_def local_table.filter_sorted)
  have rep: "remote_wf cfg R1 \<and> replayed a ?ls R R1"
    unfolding R1 msgs
  proof (rule replay_applied [OF R room local_table.keys_distinct [OF srt]])
    show "\<forall>l\<in>set ?ls. local_ok l \<and> \<not> lr_is_withdrawn l"
      using local_wf_ok [OF S] by (simp add: live_records_def)
    show "rr_is_stale r" if "remote_state R (a, lr_state_type l) = Some r" for l r
      using remote_state_key [OF that] stale by (auto simp: rr_key_def)
  qed
  then have wf1: "remote_wf cfg R1" and fresh: "filter (\<lambda>r. \<not> rr_is_stale r) (SourceRecords a R1) = map (copy_of a) ?ls"
    using fresh_copies [OF _ _ srt stale] by blast+
  have "AddToDigest cfg = AddToDigest cfg_s" by (intro ext) (simp add: AddToDigest_def crc)
  then have digest: "fold (add_remote cfg) (map (copy_of a) ?ls) 0 = hb_state_digest hb"
    unfolding copies_digest hb(2) local_wf_digest [OF S] live_digest by (simp add: live_records_def)
  have same: "ss_device R1 = ss_device R" "is_source_overflowed a R1 = is_source_overflowed a R"
    using rep by (auto simp: replayed_def local_part_def is_source_overflowed_def FindSourceState_def split: option.split)
  note beat = heartbeat_after_replay [of cfg R1 hb now', unfolded hb(1) fresh R2 [symmetric] same,
      OF wf1 online tracked digest]
  have "copy_of a ` set ?ls \<subseteq> set_stale False ` set (SourceRecords a R1)"
  proof
    fix r
    assume "r \<in> copy_of a ` set ?ls"
    then have "r \<in> set (filter (\<lambda>r. \<not> rr_is_stale r) (SourceRecords a R1))" unfolding fresh by simp
    then have "r \<in> set (SourceRecords a R1)" "set_stale False r = r" by (auto simp: set_stale_def)
    then show "r \<in> set_stale False ` set (SourceRecords a R1)" by (metis image_eqI)
  qed
  moreover have "map (set_stale False) (SourceRecords a R1) = map (copy_of a) ?ls" if "\<not> list_ex rr_is_stale (SourceRecords a R1)"
  proof -
    have "\<forall>r\<in>set (SourceRecords a R1). set_stale False r = r"
      using that by (auto simp: list_ex_iff set_stale_def)
    moreover have "filter (\<lambda>r. \<not> rr_is_stale r) (SourceRecords a R1) = SourceRecords a R1"
      using that by (simp add: list_ex_iff filter_id_conv)
    ultimately show ?thesis using fresh by (simp add: map_idI)
  qed
  ultimately show ?thesis using beat by auto
qed

definition demo_source :: CdmpStateService where
  "demo_source = snd (SetLocalState demo_cfg 1 [5] demo_service)"

definition demo_receiver :: CdmpStateService where
  "demo_receiver = StateService_new demo_cfg (demo_device 9)"

lemma demo_source_reachable: "state_reachable demo_cfg demo_source"
  unfolding demo_source_def by (rule reachable.move [OF demo_reachable state_step.set_local_state])

lemma demo_receiver_reachable: "state_reachable demo_cfg demo_receiver"
proof (rule reachable.start)
  have "config_ok demo_cfg" using reachable_wf [OF demo_reachable] by blast
  moreover have "dev_state_digest (demo_device 9) = 0" by (simp add: demo_device_def)
  ultimately show "state_init demo_cfg demo_receiver" unfolding demo_receiver_def by blast
qed

theorem replay_recovers_witness:
  "SourceRecords 3 (OnHeartbeat demo_cfg 100
      \<lparr>hb_device_id = 3, hb_health_status = 0, hb_sequence_number = 1, hb_features = 0,
       hb_state_digest = dev_state_digest (ss_device demo_source)\<rparr>
      (fold (ApplyRecord demo_cfg 0) (replay_messages demo_source) demo_receiver)) \<noteq> []"
proof -
  let ?hb = "\<lparr>hb_device_id = 3, hb_health_status = 0, hb_sequence_number = 1, hb_features = 0,
       hb_state_digest = dev_state_digest (ss_device demo_source)\<rparr>"
  have "local_wf demo_cfg demo_source" using reachable_wf [OF demo_source_reachable] by blast
  then have "length (live_records demo_source) \<le> cfg_max_local demo_cfg"
    unfolding live_records_def by (intro le_trans [OF length_filter_le local_wf_length])
  then have room: "length (ss_remote_records demo_receiver) + length (live_records demo_source) \<le> cfg_max_remote demo_cfg"
    by (simp add: demo_receiver_def StateService_new_def demo_cfg_def)
  have id: "dev_device_id (ss_device demo_source) = 3" and live: "live_records demo_source \<noteq> []"
    by (simp_all add: demo_source_def demo_service_def SetLocalState_def FindLocalRecord_def StateService_new_def
        AddLocalRecord_def demo_cfg_def STATE_DATA_MAX_SIZE_def store_local_def set_local_def StampChange_def
        RefreshLaggingVersions_def UpdateDigest_def LocalRecord_new_def restamp_def live_records_def
        STATE_VERSION_REFRESH_LAG_def demo_device_def IsOnline_def Let_def)
  have receiver: "ss_remote_records demo_receiver = []" "IsOnline (ss_device demo_receiver)"
    "\<not> is_source_overflowed 3 demo_receiver"
    by (simp_all add: demo_receiver_def StateService_new_def demo_device_def IsOnline_def CdmpStatusMachine_new_def
        is_source_overflowed_def FindSourceState_def find_index_def demo_cfg_def SourceState_new_def
        DEVICE_ID_UNASSIGNED_def takeWhile_replicate Let_def split: option.split)
  have "set (map (copy_of 3) (live_records demo_source)) \<subseteq> set (SourceRecords 3 (OnHeartbeat demo_cfg 100 ?hb
      (fold (ApplyRecord demo_cfg 0) (replay_messages demo_source) demo_receiver)))"
    using replay_recovers [OF demo_source_reachable demo_receiver_reachable refl id receiver(2,3) _ room _ _ refl refl]
      receiver(1) by simp
  with live show ?thesis by auto
qed

section \<open>Retransmission and acknowledgement\<close>

text \<open>How often a record can still be sent until it is stamped or announced again.\<close>

definition send_budget :: "LocalRecord \<Rightarrow> nat" where
  "send_budget r =
     (if lr_is_announce_pending r then Suc (length STATE_RETRANSMIT_BACKOFFS_MS)
      else if lr_unacknowledged r = [] then 0
      else length STATE_RETRANSMIT_BACKOFFS_MS - lr_retransmit_count r)"

text \<open>The passes of \<open>Transmit\<close> over one record at given times, and how many of them send it.\<close>

fun count_sends :: "(int \<times> CdmpDeviceInfo list) list \<Rightarrow> LocalRecord \<Rightarrow> nat" where
  "count_sends [] r = 0"
| "count_sends ((now, peers) # ps) r =
     (case transmit_record now peers r of (r', sent) \<Rightarrow> (if sent then 1 else 0) + count_sends ps r')"

lemma transmit_spends:
  assumes "local_ok r" and "transmit_record now peers r = (r', sent)"
  shows "send_budget r' + (if sent then 1 else 0) \<le> send_budget r"
  using assms
  by (auto simp: transmit_record_def send_budget_def local_ok_def Let_def STATE_RETRANSMIT_BACKOFFS_MS_def
      split: if_splits)

text \<open>
  A record goes out at most four times per stamp or announcement, whenever the transmit task runs
  and whoever fails to acknowledge: once, and then after the three backoffs. A record that is
  acknowledged by everybody, or whose last resend is over, is not sent at all.
\<close>

theorem sends_bounded:
  assumes "local_ok r" and "\<forall>p\<in>set passes. peers_ok (snd p)"
  shows "count_sends passes r \<le> send_budget r \<and> send_budget r \<le> 4"
proof -
  have "count_sends passes r \<le> send_budget r"
    using assms
  proof (induction passes arbitrary: r)
    case (Cons p ps)
    obtain now peers where p: "p = (now, peers)" by (cases p)
    obtain r' sent where t: "transmit_record now peers r = (r', sent)" by fastforce
    have "local_ok r'" using transmit_record_ok [of peers r now] Cons.prems p t by simp
    then have "count_sends ps r' \<le> send_budget r'" using Cons by simp
    then show ?case using transmit_spends [OF Cons.prems(1) t] p t by (simp split: if_splits)
  qed simp
  moreover have "send_budget r \<le> 4" by (auto simp: send_budget_def STATE_RETRANSMIT_BACKOFFS_MS_def)
  ultimately show ?thesis ..
qed

theorem sends_bounded_witness:
  "count_sends [(0, []), (60, [])] (restamp 1 (LocalRecord_new 1 \<lparr>lr_data := [5]\<rparr>)) \<le> 4"
proof -
  have "local_ok (restamp 1 (LocalRecord_new 1 \<lparr>lr_data := [5]\<rparr>))"
    by (simp add: local_ok_def LocalRecord_new_def STATE_DATA_MAX_SIZE_def)
  then show ?thesis
    using sends_bounded [of "restamp 1 (LocalRecord_new 1 \<lparr>lr_data := [5]\<rparr>)" "[(0, []), (60, [])]"]
    by (simp add: peers_ok_def)
qed

text \<open>
  An acknowledgement from a peer for a version takes the peer off the records with just that
  version and off no other; a peer that leaves is taken off all of them. A withdrawn record whose
  withdrawal went out and is owed by nobody any more gives its slot back, and this is the only way
  a record disappears. The values this unit shares stay.
\<close>

theorem acknowledgement_exact:
  assumes "state_reachable cfg s"
  shows "local_state (RemoveFromAcknowledgementSets peer v s) = local_state s \<and>
     (\<forall>r. r \<in> set (ss_local_records (RemoveFromAcknowledgementSets peer v s)) \<longleftrightarrow>
        (\<exists>q\<in>set (ss_local_records s).
           r = (if v = None \<or> v = Some (lr_version q)
                then q\<lparr>lr_unacknowledged := swap_remove peer (lr_unacknowledged q)\<rparr> else q) \<and>
           (v = None \<or> v = Some (lr_version q) \<longrightarrow> set (lr_unacknowledged r) = set (lr_unacknowledged q) - {peer}) \<and>
           \<not> (lr_is_withdrawn r \<and> \<not> lr_is_announce_pending r \<and> lr_unacknowledged r = [])))"
proof -
  have wf: "local_wf cfg s" using reachable_wf [OF assms] by blast
  have rem: "set (swap_remove peer (lr_unacknowledged q)) = set (lr_unacknowledged q) - {peer}"
    if "q \<in> set (ss_local_records s)" for q
  proof -
    have "distinct (lr_unacknowledged q)" using local_wf_ok [OF wf] that by (simp add: local_ok_def)
    then show ?thesis by (simp add: swap_remove_distinct)
  qed
  let ?hit = "\<lambda>q. v = None \<or> v = Some (lr_version q)"
  let ?f = "\<lambda>q. if ?hit q then q\<lparr>lr_unacknowledged := swap_remove peer (lr_unacknowledged q)\<rparr> else q"
  have f: "(\<lambda>r. if v \<noteq> None \<and> lr_version r \<noteq> the v then r
      else r\<lparr>lr_unacknowledged := swap_remove peer (lr_unacknowledged r)\<rparr>) = ?f"
    by (rule ext) auto
  have rs: "ss_local_records (RemoveFromAcknowledgementSets peer v s) = filter (\<lambda>r. \<not> (lr_is_withdrawn r \<and>
      \<not> lr_is_announce_pending r \<and> lr_unacknowledged r = [])) (map ?f (ss_local_records s))"
    unfolding RemoveFromAcknowledgementSets_def FreeAcknowledgedWithdrawals_def f by simp
  have hit: "?hit q \<longrightarrow> set (lr_unacknowledged (?f q)) = set (lr_unacknowledged q) - {peer}"
    if "q \<in> set (ss_local_records s)" for q
    using rem [OF that] by simp
  have "r \<in> set (ss_local_records (RemoveFromAcknowledgementSets peer v s)) \<longleftrightarrow>
     (\<exists>q\<in>set (ss_local_records s). r = ?f q \<and> (?hit q \<longrightarrow> set (lr_unacknowledged r) = set (lr_unacknowledged q) - {peer}) \<and>
       \<not> (lr_is_withdrawn r \<and> \<not> lr_is_announce_pending r \<and> lr_unacknowledged r = []))" for r
    unfolding rs set_filter set_map mem_Collect_eq image_iff using hit by blast
  with RemoveFromAcknowledgementSets_wf [OF wf, of peer v] show ?thesis by blast
qed

theorem acknowledgement_exact_witness:
  "local_state (RemoveFromAcknowledgementSets 4 (Some 1) demo_source) = local_state demo_source"
  using acknowledgement_exact [OF demo_source_reachable, of 4 "Some 1"] by blast

section \<open>Heartbeats\<close>

lemma find_index_same:
  assumes "find_index P xs = Some i" and "P x"
  shows "find_index P (xs[i := x]) = Some i"
proof -
  have i: "i < length xs" using find_index_Some [OF assms(1)] by blast
  have "\<forall>j<i. \<not> P (xs ! j)" using assms(1) by (rule find_index_first)
  then have "\<forall>y\<in>set (take i xs). \<not> P y" using i by (auto simp: in_set_conv_nth)
  moreover have "xs[i := x] = take i xs @ x # drop (Suc i) xs" using i by (rule upd_conv_take_nth_drop)
  ultimately show ?thesis using i assms(2) by (simp add: find_index_def Let_def takeWhile_append)
qed

lemma find_index_added:
  assumes "find_index (\<lambda>x. so_device_id x = src) xs = None" and "i < length xs" and "so_device_id y = src"
  shows "find_index (\<lambda>x. so_device_id x = src) (xs[i := y]) = Some i"
proof -
  have "\<forall>x\<in>set (take i xs). so_device_id x \<noteq> src" using assms(1) by (auto simp: find_index_None dest: in_set_takeD)
  moreover have "xs[i := y] = take i xs @ y # drop (Suc i) xs" using assms(2) by (rule upd_conv_take_nth_drop)
  ultimately show ?thesis using assms(2,3) by (simp add: find_index_def Let_def takeWhile_append)
qed

text \<open>After a granted request, the source's slot holds the time of the request.\<close>

lemma StartSyncRequest_slot:
  assumes "StartSyncRequest now src s = (True, s')"
  shows "\<exists>i. find_index (\<lambda>x. so_device_id x = src) (ss_sources s') = Some i \<and>
     so_has_requested_sync (ss_sources s' ! i) \<and> so_sync_requested_at_ms (ss_sources s' ! i) = now \<and>
     so_is_overflowed (ss_sources s' ! i) = is_source_overflowed src s"
proof (cases "find_index (\<lambda>x. so_device_id x = src) (ss_sources s)")
  case (Some i)
  let ?x = "(ss_sources s ! i)\<lparr>so_has_requested_sync := True, so_sync_requested_at_ms := now\<rparr>"
  have i: "i < length (ss_sources s)" "so_device_id (ss_sources s ! i) = src"
    using find_index_Some [OF Some] by auto
  have "s' = s\<lparr>ss_sources := (ss_sources s)[i := ?x]\<rparr>"
    using assms Some by (auto simp: StartSyncRequest_def FindSourceState_def Let_def split: if_splits)
  then show ?thesis
    using find_index_same [OF Some, of ?x] i Some
    by (auto simp: is_source_overflowed_def FindSourceState_def)
next
  case None
  then obtain i where i: "find_index (is_reusable now) (ss_sources s) = Some i"
    using assms by (auto simp: StartSyncRequest_def FindSourceState_def split: option.splits)
  let ?x = "SourceState_new\<lparr>so_device_id := src, so_has_requested_sync := True, so_sync_requested_at_ms := now\<rparr>"
  have "i < length (ss_sources s)" using find_index_Some [OF i] by blast
  moreover from this have "s' = s\<lparr>ss_sources := (ss_sources s)[i := ?x]\<rparr>"
    using assms None i by (auto simp: StartSyncRequest_def FindSourceState_def Let_def SourceState_new_def)
  ultimately show ?thesis
    using find_index_added [OF None, of i ?x] None
    by (auto simp: is_source_overflowed_def FindSourceState_def SourceState_new_def)
qed

lemma StartSyncRequest_limited:
  assumes "find_index (\<lambda>x. so_device_id x = src) (ss_sources s) = Some i"
    and "so_has_requested_sync (ss_sources s ! i)"
    and "later - so_sync_requested_at_ms (ss_sources s ! i) < STATE_SYNC_REQUEST_MIN_INTERVAL_MS"
  shows "StartSyncRequest later src s = (False, s)"
  using assms by (simp add: StartSyncRequest_def FindSourceState_def Let_def)

text \<open>
  A heartbeat whose digest matches the copies makes them fresh and sends nothing. One that
  matches neither all the copies nor the fresh ones marks them all stale, so that the replay is
  accepted whatever its versions, and asks for a replay at most once per interval: after a request at
  time \<open>now\<close>, a heartbeat of the same source less than \<open>STATE_SYNC_REQUEST_MIN_INTERVAL_MS\<close> later (on
  the wrapping 32-bit clock) asks for none.
\<close>

theorem heartbeat_checks_digest:
  assumes "state_reachable cfg s" and "IsOnline (ss_device s)"
    and "\<not> is_source_overflowed (hb_device_id hb) s"
  shows "let src = hb_device_id hb; s' = OnHeartbeat cfg now hb s in
     (fold (add_remote cfg) (SourceRecords src s) 0 = hb_state_digest hb \<longrightarrow>
        SourceRecords src s' = map (set_stale False) (SourceRecords src s) \<and> sync_requests s' = sync_requests s) \<and>
     (sync_requests s' \<noteq> sync_requests s \<longrightarrow>
        sync_requests s' = sync_requests s @ [src] \<and>
        SourceRecords src s' = map (set_stale True) (SourceRecords src s) \<and>
        (\<forall>later hb'. hb_device_id hb' = src \<longrightarrow> later - now < STATE_SYNC_REQUEST_MIN_INTERVAL_MS \<longrightarrow>
           sync_requests (OnHeartbeat cfg later hb' s') = sync_requests s'))"
proof -
  have wf: "remote_wf cfg s" using reachable_wf [OF assms(1)] by blast
  let ?src = "hb_device_id hb" and ?s' = "OnHeartbeat cfg now hb s"
  let ?u = "update_source_records ?src (set_stale True) s"
  have match: "?s' = update_source_records ?src (set_stale False) s"
    if "fold (add_remote cfg) (SourceRecords ?src s) 0 = hb_state_digest hb"
    using that assms(2,3) by (simp add: OnHeartbeat_def Let_def)
  have request: "sync_requests ?s' = sync_requests s @ [?src] \<and>
      SourceRecords ?src ?s' = map (set_stale True) (SourceRecords ?src s) \<and>
      (\<exists>i. find_index (\<lambda>x. so_device_id x = ?src) (ss_sources ?s') = Some i \<and>
         so_has_requested_sync (ss_sources ?s' ! i) \<and> so_sync_requested_at_ms (ss_sources ?s' ! i) = now)"
    if "sync_requests ?s' \<noteq> sync_requests s"
  proof -
    obtain b s2 where b: "StartSyncRequest now ?src ?u = (b, s2)" by fastforce
    have out: "sync_requests s2 = sync_requests s"
      using sync_requests_frame(2) [of ?src "set_stale True" s] b FindSourceState_frame
      by (auto simp: StartSyncRequest_def Let_def sync_requests_def split: prod.splits option.splits if_splits)
    with that assms(2,3) b have s': "?s' = emit (SendSyncRequest ?src) s2" and "b"
      by (auto simp: OnHeartbeat_def Let_def split: if_splits)
    obtain i where i: "find_index (\<lambda>x. so_device_id x = ?src) (ss_sources s2) = Some i"
      "so_has_requested_sync (ss_sources s2 ! i)" "so_sync_requested_at_ms (ss_sources s2 ! i) = now"
      using StartSyncRequest_slot [of now ?src ?u s2] b \<open>b\<close> by auto
    have "ss_remote_records ?s' = ss_remote_records ?u" "ss_sources ?s' = ss_sources s2"
      using StartSyncRequest_frame [OF b] by (simp_all add: s' frame)
    moreover from this have "SourceRecords ?src ?s' = SourceRecords ?src ?u" by (simp add: SourceRecords_def)
    ultimately show ?thesis using i s' out SourceRecords_set_stale [OF wf] by auto
  qed
  have quiet: "sync_requests (OnHeartbeat cfg later hb' t) = sync_requests t"
    if "find_index (\<lambda>x. so_device_id x = hb_device_id hb') (ss_sources t) = Some i"
      "so_has_requested_sync (ss_sources t ! i)"
      "later - so_sync_requested_at_ms (ss_sources t ! i) < STATE_SYNC_REQUEST_MIN_INTERVAL_MS" for later hb' t i
    using that StartSyncRequest_limited [of "hb_device_id hb'" "update_source_records (hb_device_id hb') (set_stale True) t" i later]
    by (auto simp: OnHeartbeat_def Let_def frame)
  show ?thesis
    using match request quiet SourceRecords_set_stale [OF wf] unfolding Let_def by fastforce
qed

theorem heartbeat_checks_digest_witness:
  "sync_requests (OnHeartbeat demo_cfg 100 \<lparr>hb_device_id = 3, hb_health_status = 0, hb_sequence_number = 1,
     hb_features = 0, hb_state_digest = 0\<rparr> demo_receiver) = sync_requests demo_receiver"
proof -
  let ?hb = "\<lparr>hb_device_id = 3, hb_health_status = 0, hb_sequence_number = 1, hb_features = 0, hb_state_digest = 0\<rparr>"
  have "IsOnline (ss_device demo_receiver)" "\<not> is_source_overflowed (hb_device_id ?hb) demo_receiver"
    "SourceRecords 3 demo_receiver = []"
    by (simp_all add: demo_receiver_def StateService_new_def demo_device_def IsOnline_def CdmpStatusMachine_new_def
        is_source_overflowed_def FindSourceState_def find_index_def demo_cfg_def SourceState_new_def
        DEVICE_ID_UNASSIGNED_def takeWhile_replicate Let_def SourceRecords_def subspan_def split: option.split)
  then show ?thesis
    using heartbeat_checks_digest [OF demo_receiver_reachable, of ?hb 100] by (simp add: Let_def)
qed

section \<open>Reporting changes\<close>

text \<open>The values of a type that readers see, by device.\<close>

definition copy_values :: "u8 \<Rightarrow> CdmpStateService \<Rightarrow> u8 \<rightharpoonup> CdmpStateData" where
  "copy_values t s a = map_option rr_data (remote_state s (a, t))"

definition reported :: "CdmpStateService \<Rightarrow> CdmpStateService \<Rightarrow> bool" where
  "reported s s' \<longleftrightarrow> ss_changed_types s \<subseteq> ss_changed_types s' \<and>
     (\<forall>t. copy_values t s' \<noteq> copy_values t s \<longrightarrow> t \<in> ss_changed_types s')"

lemma reported_trans: "reported s t \<Longrightarrow> reported t u \<Longrightarrow> reported s u"
  unfolding reported_def by (metis subset_iff)

lemma reported_same:
  "ss_remote_records s' = ss_remote_records s \<Longrightarrow> ss_changed_types s' = ss_changed_types s \<Longrightarrow> reported s s'"
  unfolding reported_def copy_values_def remote_state_def by simp

lemma RemoveRemoteRecords_reported:
  assumes "remote_wf cfg s"
  shows "reported s (RemoveRemoteRecords P s)"
proof -
  have "t \<in> rr_state_type ` {r \<in> set (ss_remote_records s). P r}"
    if "copy_values t (RemoveRemoteRecords P s) a \<noteq> copy_values t s a" for t a
    using that remote_state_key [of s "(a, t)"]
    by (force simp: copy_values_def remote_state_remove [OF assms] rr_key_def split: option.splits if_splits)
  then show ?thesis by (auto simp: reported_def fun_eq_iff)
qed

lemma set_stale_reported:
  assumes "remote_wf cfg s"
  shows "reported s (update_source_records src (set_stale b) s)"
proof -
  have "map_option rr_data (lookup_by rr_key k (map (\<lambda>r. if rr_source r = src then set_stale b r else r) rs)) =
      map_option rr_data (lookup_by rr_key k rs)" for k rs
    by (induction rs) auto
  then have "copy_values t (update_source_records src (set_stale b) s) = copy_values t s" for t
    by (intro ext) (simp add: copy_values_def remote_state_def update_source_records_map [OF assms])
  moreover have "ss_changed_types (update_source_records src (set_stale b) s) = ss_changed_types s"
    by (simp add: update_source_records_def Let_def)
  ultimately show ?thesis by (simp add: reported_def)
qed

lemma MarkOverflowed_changed: "ss_changed_types (MarkOverflowed now src s) = ss_changed_types s"
  by (auto simp: MarkOverflowed_def split: prod.splits option.splits dest!: FindSourceState_frame)

lemma ApplyRecord_reported:
  assumes wf: "remote_wf cfg s" and m: "sc_state_type m \<noteq> 0" "length (sc_data m) \<le> STATE_DATA_MAX_SIZE"
  shows "reported s (ApplyRecord cfg now m s)"
proof -
  let ?src = "sc_source_device_id m" and ?t = "sc_state_type m" and ?rs = "ss_remote_records s"
  let ?s = "ApplyRecord cfg now m s"
  define i where "i = lower_bound rr_key (?src, ?t) ?rs"
  have look: "remote_state s (?src, ?t) = (if i < length ?rs \<and> rr_source (?rs ! i) = ?src \<and>
      rr_state_type (?rs ! i) = ?t then Some (?rs ! i) else None)"
    using remote_lookup [OF wf i_def] .
  have spec: "remote_state ?s = apply_spec (is_full cfg s) m (remote_state s)"
    using ApplyRecord_refines [OF wf m] by blast
  have other: "remote_state ?s (a, u) = remote_state s (a, u)" if "(a, u) \<noteq> (?src, ?t)" for a u
    unfolding spec using that by (auto simp: apply_spec_def Let_def split: option.split)
  have mono: "ss_changed_types s \<subseteq> ss_changed_types ?s"
    by (auto simp: ApplyRecord_def Let_def frame MarkOverflowed_changed)
  have here: "copy_values ?t ?s ?src = copy_values ?t s ?src" if "?t \<notin> ss_changed_types ?s"
    using that spec look unfolding copy_values_def
    by (auto simp: ApplyRecord_def Let_def frame i_def [symmetric] apply_spec_def is_full_def image_iff
        split: if_splits)
  have "u \<in> ss_changed_types ?s" if "copy_values u ?s a \<noteq> copy_values u s a" for u a
    using that here other [of a u] by (cases "(a, u) = (?src, ?t)") (auto simp: copy_values_def)
  with mono show ?thesis by (auto simp: reported_def fun_eq_iff)
qed

lemma process_received_reported:
  assumes "state_wf cfg s"
  shows "reported s (process_received cfg now is_online f s)"
proof (cases "rf_is_response f")
  case True
  have "reported s (RemoveFromAcknowledgementSets p v s)" for p v
    by (rule reported_same) (simp_all add: frame RemoveFromAcknowledgementSets_def FreeAcknowledgedWithdrawals_def)
  then show ?thesis
    using True by (auto simp: process_received_def ProcessStateChangeResponseFrame_def reported_same split: option.split)
next
  case False
  have wf: "remote_wf cfg s" using assms by (simp add: state_wf_parts)
  have "reported s (SendResponse m (ApplyRecord cfg now m s))"
    if "StateChange_TryFromCanFrame (rf_data f) = Some m" "sc_state_type m \<noteq> 0" for m
  proof (rule reported_trans [OF ApplyRecord_reported [OF wf that(2) try_from_frame_ok [OF that(1)]]])
    show "reported (ApplyRecord cfg now m s) (SendResponse m (ApplyRecord cfg now m s))"
      by (rule reported_same) (simp_all add: SendResponse_def frame)
  qed
  then show ?thesis
    using False by (auto simp: process_received_def ProcessStateChangeFrame_def reported_same split: option.split)
qed

lemma ReceiveFrames_reported:
  assumes "state_wf cfg s"
  shows "reported s (ReceiveFrames cfg now is_online s)"
proof -
  have fold: "reported s (fold (process_received cfg now is_online) fs s)" if "state_wf cfg s" for fs s
    using that
  proof (induction fs arbitrary: s)
    case (Cons f fs)
    have "state_wf cfg (process_received cfg now is_online f s)"
      using Cons.prems by (simp add: process_received_def ProcessStateChangeFrame_wf ProcessStateChangeResponseFrame_wf)
    then have "reported (process_received cfg now is_online f s)
        (fold (process_received cfg now is_online) fs (process_received cfg now is_online f s))" by (rule Cons.IH)
    then show ?case using reported_trans [OF process_received_reported [OF Cons.prems]] by simp
  qed (simp add: reported_same)
  have "state_wf cfg (s\<lparr>ss_rx_queue := []\<rparr>)"
    using assms local_wf_cong [of "s\<lparr>ss_rx_queue := []\<rparr>" s cfg] remote_wf_cong [of "s\<lparr>ss_rx_queue := []\<rparr>" s cfg]
    by (simp add: state_wf_parts rx_wf_def frame)
  then have "reported (s\<lparr>ss_rx_queue := []\<rparr>) (fold (process_received cfg now is_online) (ss_rx_queue s) (s\<lparr>ss_rx_queue := []\<rparr>))"
    by (rule fold)
  moreover have "reported s (s\<lparr>ss_rx_queue := []\<rparr>)" by (rule reported_same) simp_all
  ultimately have "reported s (fold (process_received cfg now is_online) (ss_rx_queue s) (s\<lparr>ss_rx_queue := []\<rparr>))"
    by (rule reported_trans [rotated])
  then show ?thesis unfolding ReceiveFrames_def by (rule reported_trans) (rule reported_same, simp_all)
qed

lemma ForgetNetwork_reported:
  assumes "remote_wf cfg s"
  shows "reported s (ForgetNetwork s)"
proof (rule reported_trans [OF RemoveRemoteRecords_reported [OF assms, of "\<lambda>_. True"]])
  show "reported (RemoveRemoteRecords (\<lambda>_. True) s) (ForgetNetwork s)"
    by (rule reported_same) (simp_all add: ForgetNetwork_def Let_def)
qed

lemma DropSource_reported:
  assumes "remote_wf cfg s"
  shows "reported s (DropSource src s)"
proof (rule reported_trans [OF RemoveRemoteRecords_reported [OF assms, of "\<lambda>r. rr_source r = src"]])
  let ?r = "RemoveRemoteRecords (\<lambda>r. rr_source r = src) s"
  obtain r s' where f: "FindSourceState 0 src False (RemoveFromAcknowledgementSets src None ?r) = (r, s')" by fastforce
  have "ss_changed_types (RemoveFromAcknowledgementSets src None ?r) = ss_changed_types ?r"
    by (simp add: RemoveFromAcknowledgementSets_def FreeAcknowledgedWithdrawals_def)
  then show "reported ?r (DropSource src s)"
    using FindSourceState_frame [OF f] f
    by (intro reported_same) (auto simp: DropSource_def Let_def frame split: option.split)
qed

lemma OnHeartbeat_reported:
  assumes "remote_wf cfg s"
  shows "reported s (OnHeartbeat cfg now hb s)"
proof -
  let ?u = "update_source_records (hb_device_id hb) (set_stale True) s"
  obtain b s2 where b: "StartSyncRequest now (hb_device_id hb) ?u = (b, s2)" by fastforce
  have "ss_changed_types s2 = ss_changed_types ?u" "ss_remote_records s2 = ss_remote_records ?u"
    using StartSyncRequest_frame [OF b] by blast+
  then have "reported ?u s2" "\<And>e. reported ?u (emit e s2)"
    by (simp_all only: emit_frame reported_same)
  then have "reported s s2" "\<And>e. reported s (emit e s2)"
    using reported_trans [OF set_stale_reported [OF assms]] by blast+
  then show ?thesis
    using b set_stale_reported [OF assms] RemoveRemoteRecords_reported [OF assms]
    by (simp add: OnHeartbeat_def Let_def reported_same)
qed

lemma StateService_DoStop_reported:
  assumes "remote_wf cfg s"
  shows "reported s (StateService_DoStop s)"
proof -
  let ?s1 = "(UnregisterCanHandlers s)\<lparr>ss_is_started := False\<rparr>"
  let ?s2 = "(if ss_has_tasks ?s1 then emit TasksCancel ?s1 else ?s1)\<lparr>ss_rx_queue := []\<rparr>"
  have same: "ss_remote_records ?s2 = ss_remote_records s" "ss_changed_types ?s2 = ss_changed_types s"
    "ss_sources ?s2 = ss_sources s"
    by (simp_all add: UnregisterCanHandlers_def Let_def emit_def)
  then have "remote_wf cfg ?s2" using remote_wf_cong [of ?s2 s cfg] assms by (simp add: remote_part_def)
  then have "reported ?s2 (ForgetNetwork ?s2)" by (rule ForgetNetwork_reported)
  moreover have "reported s ?s2" using same by (intro reported_same)
  ultimately show ?thesis unfolding StateService_DoStop_def Let_def by (rule reported_trans [rotated])
qed

text \<open>
  C30. No change of another unit's record goes unreported: whatever call changes the value that
  readers see for a type on any device (a record added, changed or removed), that type is among the
  changed types afterwards, for the state handlers of the type to be called.
\<close>

theorem changes_are_reported:
  assumes "state_reachable cfg s" and "state_step cfg s s'" and "copy_values t s' \<noteq> copy_values t s"
  shows "t \<in> ss_changed_types s'"
proof -
  have wf: "state_wf cfg s" "remote_wf cfg s"
    using state_runs.reachable_inv [OF assms(1)] by (simp_all add: state_wf_parts)
  have same: "copy_values t u = copy_values t s" if "remote_part u = remote_part s" for u
    using that by (intro ext) (simp add: copy_values_def remote_state_def remote_part_def)
  with assms(3) have contra: "remote_part s' \<noteq> remote_part s" by blast
  have rep: "t \<in> ss_changed_types s'" if "reported s s'" using that assms(3) by (simp add: reported_def)
  show ?thesis
    using assms(2)
  proof (cases rule: state_step.cases)
    case (status_changed old_status new_status)
    have "reported s (emit e (s\<lparr>ss_is_announce_all_pending := True\<rparr>))"
      "reported s (s\<lparr>ss_is_announce_all_pending := True\<rparr>)" for e
      by (rule reported_same; simp add: emit_def)+
    with status_changed ForgetNetwork_reported [OF wf(2)] show ?thesis
      by (intro rep) (simp add: OnDeviceStatusChanged_def Let_def reported_same)
  next
    case (device_event event device_id)
    then show ?thesis
      using set_stale_reported [OF wf(2)] DropSource_reported [OF wf(2)]
      by (intro rep) (cases event; simp add: reported_same)
  next
    case canbus
    have "remote_part s' = remote_part s" unfolding canbus by (simp add: remote_part_def)
    with contra show ?thesis ..
  next
    case queue
    have "remote_part s' = remote_part s" unfolding queue by (simp add: QueueFrame_def Let_def frame)
    with contra show ?thesis ..
  next
    case receive
    then show ?thesis using rep ReceiveFrames_reported [OF wf(1)] by blast
  next
    case heartbeat
    then show ?thesis using rep OnHeartbeat_reported [OF wf(2)] by blast
  next
    case stop
    then show ?thesis using rep StateService_DoStop_reported [OF wf(2)] by blast
  qed (use contra in \<open>simp_all add: frame\<close>)
qed

definition demo_heard :: CdmpStateService where
  "demo_heard = QueueFrame [4, 9, 2, 1] False demo_receiver"

lemma demo_heard_reachable: "state_reachable demo_cfg demo_heard"
  unfolding demo_heard_def by (rule reachable.move [OF demo_receiver_reachable state_step.queue])

theorem changes_are_reported_witness:
  "2 \<in> ss_changed_types (ReceiveFrames demo_cfg 0 (\<lambda>_. True) demo_heard)"
proof (rule changes_are_reported [OF demo_heard_reachable state_step.receive])
  have "copy_values 2 (ReceiveFrames demo_cfg 0 (\<lambda>_. True) demo_heard) 4 = Some [1]"
    "copy_values 2 demo_heard 4 = None"
    by (simp_all add: demo_heard_def demo_receiver_def StateService_new_def QueueFrame_def ReceiveFrames_def
        process_received_def ProcessStateChangeFrame_def StateChange_TryFromCanFrame_def state_sizes
        CdmpStateData_new_def ApplyRecord_def demo_cfg_def demo_device_def IsOnline_def CdmpStatusMachine_new_def
        ScheduleStateHandlers_def SendResponse_def copy_values_def remote_state_def rr_key_def RX_QUEUE_SIZE_def Let_def)
  then show "copy_values 2 (ReceiveFrames demo_cfg 0 (\<lambda>_. True) demo_heard) \<noteq> copy_values 2 demo_heard"
    by (metis option.distinct(1))
qed

section \<open>What the service relies on\<close>

text \<open>
  The contract of the device table the service asks for its peers: at most as many as there is room
  for, each device once, and only devices it reports online.
\<close>

locale device_directory =
  fixes peers_of :: "'d \<Rightarrow> nat \<Rightarrow> CdmpDeviceInfo list"
    and online :: "'d \<Rightarrow> u8 \<Rightarrow> bool"
    and directory_ok :: "'d \<Rightarrow> bool"
  assumes peers_bounded: "directory_ok d \<Longrightarrow> length (peers_of d n) \<le> n"
    and peers_distinct: "directory_ok d \<Longrightarrow> distinct (map di_device_id (peers_of d n))"
    and peers_online: "directory_ok d \<Longrightarrow> p \<in> set (peers_of d n) \<Longrightarrow> di_status p = ONLINE \<Longrightarrow>
      online d (di_device_id p)"
begin

lemma peers_acceptable: "directory_ok d \<Longrightarrow> peers_ok (peers_of d STATE_ACK_PEERS_MAX)"
  using peers_bounded peers_distinct by (simp add: peers_ok_def)

lemma transmit_reachable:
  "state_reachable cfg s \<Longrightarrow> directory_ok d \<Longrightarrow>
   state_reachable cfg (Transmit now (peers_of d STATE_ACK_PEERS_MAX) s)"
  by (erule reachable.move) (rule state_step.transmit, rule peers_acceptable)

lemma transmit_awaits_online:
  assumes "directory_ok d" and "lr_is_announce_pending r"
  shows "\<forall>i\<in>set (lr_unacknowledged (fst (transmit_record now (peers_of d n) r))). online d i"
  using assms peers_online by (auto simp: transmit_record_def)

end

end
