(* ===== verification/Cdmp_Network.thy ===== *)
theory Cdmp_Network
  imports Cdmp_State_Props
begin

text \<open>
  Discovery, ID claim and the table of other devices,
  \<open>src/subsys/cdmp/services/cdmp_network_service.h/.cpp\<close>. The unordered map of devices is an
  association list in iteration order (a new device comes last; no theorem depends on the order).
  The array of pending claims is a list of its eight slots. Effects go to \<open>ns_outbox\<close>: frames,
  scheduling of the three tasks, notifications with the handlers they go to, changes of the
  device's status, and work handed to the work queue for a session. Each function reads the clock
  once. A function that throws returns the error next to the state it leaves behind.
\<close>

section \<open>Data\<close>

record PendingIdClaim =
  pc_device_id :: u8
  pc_uid :: u32
  pc_claimed_at_ms :: int

datatype session_work =
    WorkProcessFrame bytes
  | WorkStartInitialization
  | WorkStartIdClaim
  | WorkSendDiscoveryResponse
  | WorkEnterVersionMismatch
  | WorkEnterError

datatype network_effect =
    SendManagement bytes
  | SleepMs nat
  | RescheduleDiscovery
  | RescheduleIdClaim
  | ScheduleValidation
  | CancelDiscovery
  | CancelIdClaim
  | CancelValidation
  | RunInSession nat session_work
  | NotifyDeviceEvent "int list" CdmpDeviceEvent CdmpDeviceInfo
  | NotifyHeartbeat "int list" CdmpHeartbeatMessage
  | StatusCalls "status_call list"
  | StopService
  | RemoveManagementHandler int

record CdmpNetworkService =
  ns_canbus_valid :: bool
  ns_device :: CdmpDevice
  ns_is_running :: bool
  ns_has_tasks :: bool
  ns_is_validation_task_running :: bool
  ns_canbus_handler_id :: int
  ns_session :: nat
  ns_network_devices :: "(u8 \<times> CdmpDevice) list"
  ns_pending_id_claims :: "PendingIdClaim list"
  ns_next_handler_id :: int
  ns_device_event_handlers :: "int list"
  ns_heartbeat_handlers :: "int list"
  ns_auto_discovery_enabled :: bool
  ns_discovery_attempt :: nat
  ns_discovery_backoff_resets :: nat
  ns_discovery_response_received :: bool
  ns_lower_uid_discovering :: bool
  ns_claiming_device_id :: u8
  ns_id_claim_attempt :: nat
  ns_id_claim_result :: "u8 option"
  ns_rediscovery_requested_at_ms :: "int option"
  ns_outbox :: "network_effect list"

definition PendingIdClaim_new :: PendingIdClaim where
  "PendingIdClaim_new = \<lparr>pc_device_id = DEVICE_ID_UNASSIGNED, pc_uid = 0, pc_claimed_at_ms = 0\<rparr>"

definition NetworkService_new :: "CdmpDevice \<Rightarrow> CdmpNetworkService" where
  "NetworkService_new d = \<lparr>ns_canbus_valid = False, ns_device = d, ns_is_running = False,
     ns_has_tasks = False, ns_is_validation_task_running = False, ns_canbus_handler_id = -1,
     ns_session = 0, ns_network_devices = [],
     ns_pending_id_claims = replicate PENDING_ID_CLAIMS_MAX PendingIdClaim_new,
     ns_next_handler_id = 0, ns_device_event_handlers = [], ns_heartbeat_handlers = [],
     ns_auto_discovery_enabled = True, ns_discovery_attempt = 0, ns_discovery_backoff_resets = 0,
     ns_discovery_response_received = False, ns_lower_uid_discovering = False,
     ns_claiming_device_id = DEVICE_ID_UNASSIGNED, ns_id_claim_attempt = 0, ns_id_claim_result = None,
     ns_rediscovery_requested_at_ms = None, ns_outbox = []\<rparr>"

definition out :: "network_effect \<Rightarrow> CdmpNetworkService \<Rightarrow> CdmpNetworkService" where
  "out e s = s\<lparr>ns_outbox := ns_outbox s @ [e]\<rparr>"

text \<open>A change of the device's status, with the calls of its handlers.\<close>

definition with_status ::
  "(CdmpDevice \<Rightarrow> CdmpDevice \<times> status_call list) \<Rightarrow> CdmpNetworkService \<Rightarrow> CdmpNetworkService" where
  "with_status f s = (case f (ns_device s) of (d, calls) \<Rightarrow> out (StatusCalls calls) (s\<lparr>ns_device := d\<rparr>))"

definition run_in_session :: "session_work \<Rightarrow> CdmpNetworkService \<Rightarrow> CdmpNetworkService" where
  "run_in_session w s = out (RunInSession (ns_session s) w) s"

section \<open>Table of devices\<close>

definition table :: "CdmpNetworkService \<Rightarrow> u8 \<rightharpoonup> CdmpDevice" where
  "table s = map_of (ns_network_devices s)"

definition ExpirePendingIdClaims :: "int \<Rightarrow> CdmpNetworkService \<Rightarrow> CdmpNetworkService" where
  "ExpirePendingIdClaims now s =
     s\<lparr>ns_pending_id_claims := map (\<lambda>c.
        if pc_device_id c \<noteq> DEVICE_ID_UNASSIGNED \<and> now - pc_claimed_at_ms c > HEARTBEAT_TIMEOUT_MS
        then PendingIdClaim_new else c) (ns_pending_id_claims s)\<rparr>"

definition FindPendingIdClaim :: "int \<Rightarrow> u8 \<Rightarrow> CdmpNetworkService \<Rightarrow> nat option \<times> CdmpNetworkService" where
  "FindPendingIdClaim now i s =
     (let s' = ExpirePendingIdClaims now s
      in (find_index (\<lambda>c. pc_device_id c = i) (ns_pending_id_claims s'), s'))"

definition FindDeviceIdByUid :: "u32 \<Rightarrow> CdmpNetworkService \<Rightarrow> u8 option" where
  "FindDeviceIdByUid uid s = map_option fst (find (\<lambda>(_, d). dev_uid d = uid) (ns_network_devices s))"

definition IsPeerDeviceId :: "u8 \<Rightarrow> CdmpNetworkService \<Rightarrow> bool" where
  "IsPeerDeviceId i s \<longleftrightarrow> i \<noteq> DEVICE_ID_UNASSIGNED \<and> i \<noteq> DEVICE_ID_BROADCAST \<and>
     \<not> (IsOnline (ns_device s) \<and> i = dev_device_id (ns_device s))"

text \<open>The first of the oldest claims (\<open>std::ranges::min_element\<close>).\<close>

definition oldest_claim :: "PendingIdClaim list \<Rightarrow> nat" where
  "oldest_claim cs =
     length (takeWhile (\<lambda>c. pc_claimed_at_ms c \<noteq> Min (set (map pc_claimed_at_ms cs))) cs)"

definition StorePendingIdClaim ::
  "int \<Rightarrow> CdmpIdClaimRequestMessage \<Rightarrow> CdmpNetworkService \<Rightarrow> CdmpNetworkService" where
  "StorePendingIdClaim now claim s =
     (let s1 = s\<lparr>ns_pending_id_claims := map (\<lambda>c.
             if pc_uid c = ic_uid claim \<and> pc_device_id c \<noteq> ic_claiming_device_id claim
             then PendingIdClaim_new else c) (ns_pending_id_claims s)\<rparr>
      in case FindPendingIdClaim now (ic_claiming_device_id claim) s1 of
           (found, s2) \<Rightarrow>
             (case (case found of Some i \<Rightarrow> (Some i, s2)
                    | None \<Rightarrow> FindPendingIdClaim now DEVICE_ID_UNASSIGNED s2) of
                (slot, s3) \<Rightarrow>
                  let i = (case slot of Some i \<Rightarrow> i | None \<Rightarrow> oldest_claim (ns_pending_id_claims s3))
                  in s3\<lparr>ns_pending_id_claims := (ns_pending_id_claims s3)[i :=
                       \<lparr>pc_device_id = ic_claiming_device_id claim, pc_uid = ic_uid claim,
                        pc_claimed_at_ms = now\<rparr>]\<rparr>))"

definition GetAllDeviceIds :: "CdmpNetworkService \<Rightarrow> u8 list" where
  "GetAllDeviceIds s = map fst (ns_network_devices s)"

definition GetOnlineDeviceIds :: "CdmpNetworkService \<Rightarrow> u8 list" where
  "GetOnlineDeviceIds s = map fst (filter (\<lambda>(_, d). dev_status d = ONLINE) (ns_network_devices s))"

definition GetDeviceCount :: "CdmpNetworkService \<Rightarrow> nat" where
  "GetDeviceCount s = length (ns_network_devices s)"

definition GetNetworkDevices :: "nat \<Rightarrow> CdmpNetworkService \<Rightarrow> CdmpDeviceInfo list" where
  "GetNetworkDevices n s =
     sort_key di_device_id (map (\<lambda>(_, d). ToDeviceInfo d) (take n (ns_network_devices s)))"

definition IsDeviceOnline :: "u8 \<Rightarrow> CdmpNetworkService \<Rightarrow> bool" where
  "IsDeviceOnline i s = (case table s i of None \<Rightarrow> False | Some d \<Rightarrow> dev_status d = ONLINE)"

definition lowest_id :: "CdmpNetworkService \<Rightarrow> u8" where
  "lowest_id s = fold (\<lambda>i m. if i < m then min m i else m) (GetAllDeviceIds s) (dev_device_id (ns_device s))"

definition UpdateLowestIdOnNetwork :: "CdmpNetworkService \<Rightarrow> CdmpNetworkService" where
  "UpdateLowestIdOnNetwork s =
     s\<lparr>ns_device := (ns_device s)\<lparr>dev_is_lowest_id_on_network := (dev_device_id (ns_device s) = lowest_id s)\<rparr>,
       ns_network_devices := map (\<lambda>(i, d). (i, d\<lparr>dev_is_lowest_id_on_network := (i = lowest_id s)\<rparr>))
         (ns_network_devices s)\<rparr>"

definition UpdateStaggeredMessageDelay :: "CdmpNetworkService \<Rightarrow> CdmpNetworkService" where
  "UpdateStaggeredMessageDelay s =
     s\<lparr>ns_device := (ns_device s)\<lparr>dev_staggered_message_delay :=
         CalculateStaggeredMessageTimeOffset (GetAllDeviceIds s) (dev_device_id (ns_device s))\<rparr>,
       ns_network_devices := map (\<lambda>(i, d). (i, d\<lparr>dev_staggered_message_delay :=
         CalculateStaggeredMessageTimeOffset (GetAllDeviceIds s) i\<rparr>)) (ns_network_devices s)\<rparr>"

definition UpdateNetworkDevices :: "CdmpNetworkService \<Rightarrow> CdmpNetworkService" where
  "UpdateNetworkDevices s = UpdateStaggeredMessageDelay (UpdateLowestIdOnNetwork s)"

definition notify_device_event ::
  "CdmpDeviceEvent \<Rightarrow> CdmpDeviceInfo \<Rightarrow> CdmpNetworkService \<Rightarrow> CdmpNetworkService" where
  "notify_device_event e d s = out (NotifyDeviceEvent (ns_device_event_handlers s) e d) s"

definition notify_heartbeat :: "CdmpHeartbeatMessage \<Rightarrow> CdmpNetworkService \<Rightarrow> CdmpNetworkService" where
  "notify_heartbeat hb s = out (NotifyHeartbeat (ns_heartbeat_handlers s) hb) s"

text \<open>Whether the device was added, or the exception of the constructor of \<open>CdmpDevice\<close>.\<close>

definition AddOrUpdateDevice ::
  "int \<Rightarrow> u8 \<Rightarrow> u32 \<Rightarrow> u16 \<Rightarrow> CdmpNetworkService \<Rightarrow> (bool \<times> CdmpNetworkService) result" where
  "AddOrUpdateDevice now i uid features s =
     (case table s i of
        Some _ \<Rightarrow> Inr (False, s\<lparr>ns_network_devices := map (\<lambda>(j, d).
            if j = i then (j, (fst (GoOnline True (UpdateHeartbeat now d)))\<lparr>dev_features := features\<rparr>) else (j, d))
            (ns_network_devices s)\<rparr>)
      | None \<Rightarrow> try_bind (CdmpDevice_new now uid features ONLINE) (\<lambda>d.
          Inr (True, UpdateNetworkDevices
            (s\<lparr>ns_network_devices := ns_network_devices s @ [(i, d\<lparr>dev_device_id := i\<rparr>)]\<rparr>))))"

definition RemoveDevice :: "u8 \<Rightarrow> CdmpNetworkService \<Rightarrow> CdmpNetworkService" where
  "RemoveDevice i s =
     (case table s i of
        None \<Rightarrow> s
      | Some d \<Rightarrow> notify_device_event LEFT (ToDeviceInfo d)
          (UpdateNetworkDevices (s\<lparr>ns_network_devices := filter (\<lambda>(j, _). j \<noteq> i) (ns_network_devices s)\<rparr>)))"

definition ClearAllDevices :: "CdmpNetworkService \<Rightarrow> CdmpNetworkService" where
  "ClearAllDevices s =
     s\<lparr>ns_network_devices := [],
       ns_pending_id_claims := map (\<lambda>_. PendingIdClaim_new) (ns_pending_id_claims s)\<rparr>"

definition RemoveOfflineDevices :: "int \<Rightarrow> CdmpNetworkService \<Rightarrow> CdmpNetworkService" where
  "RemoveOfflineDevices now s =
     fold RemoveDevice (map fst (filter (\<lambda>(_, d). GetLastHeartbeatDeltaMs now d > HEARTBEAT_TIMEOUT_MS)
       (ns_network_devices s))) s"

definition ProcessPeriodicTasks :: "int \<Rightarrow> CdmpNetworkService \<Rightarrow> CdmpNetworkService" where
  "ProcessPeriodicTasks now s = UpdateNetworkDevices (RemoveOfflineDevices now s)"

text \<open>The delay to run again after, if the task is rescheduled.\<close>

definition ProcessPeriodicValidation :: "int \<Rightarrow> CdmpNetworkService \<Rightarrow> int option \<times> CdmpNetworkService" where
  "ProcessPeriodicValidation now s =
     (if \<not> ns_is_validation_task_running s then (None, s)
      else let s' = ProcessPeriodicTasks now s
           in (if ns_is_validation_task_running s' then Some NETWORK_VALIDATION_INTERVAL_MS else None, s'))"

text \<open>The loop over the IDs above \<open>after\<close>: an 8-bit counter that stops at the broadcast ID.\<close>

function lowest_available :: "int \<Rightarrow> u8 \<Rightarrow> CdmpNetworkService \<Rightarrow> u8 result \<times> CdmpNetworkService" where
  "lowest_available now i s =
     (if i < DEVICE_ID_BROADCAST
      then if table s i = None
           then (case FindPendingIdClaim now i s of
                   (None, s') \<Rightarrow> (Inr i, s')
                 | (Some _, s') \<Rightarrow> lowest_available now (i + 1) s')
           else lowest_available now (i + 1) s
      else (Inl RuntimeError, s))"
  by pat_completeness auto

lemma next_id_closer: "i < DEVICE_ID_BROADCAST \<Longrightarrow> 255 - unat (i + 1) < 255 - unat i"
proof -
  assume "i < DEVICE_ID_BROADCAST"
  then have lt: "unat i < 255" by (simp add: DEVICE_ID_BROADCAST_def word_less_nat_alt)
  then have "unat (i + 1) = Suc (unat i)" using unat_diff_Suc [of i 0] by simp
  with lt show ?thesis by simp
qed

termination lowest_available
  by (relation "measure (\<lambda>(now, i, s). 255 - unat i)") (simp_all add: next_id_closer)

declare lowest_available.simps [simp del]

definition GetLowestAvailableId ::
  "int \<Rightarrow> u8 \<Rightarrow> CdmpNetworkService \<Rightarrow> u8 result \<times> CdmpNetworkService" where
  "GetLowestAvailableId now after s = lowest_available now (after + 1) s"

section \<open>Discovery\<close>

definition StartInitialization :: "CdmpNetworkService \<Rightarrow> CdmpNetworkService" where
  "StartInitialization s =
     (let s1 = s\<lparr>ns_discovery_attempt := 0, ns_discovery_backoff_resets := 0,
                 ns_discovery_response_received := False, ns_lower_uid_discovering := False\<rparr>
      in if ns_has_tasks s1 then out RescheduleDiscovery s1 else s1)"

definition SendDiscoveryRequest :: "CdmpNetworkService \<Rightarrow> CdmpNetworkService" where
  "SendDiscoveryRequest s =
     (if ns_canbus_valid s
      then out (SendManagement (DiscoveryRequest_ToCanFrame \<lparr>dq_uid = dev_uid (ns_device s)\<rparr>)) s else s)"

definition SendDiscoveryResponse :: "CdmpNetworkService \<Rightarrow> CdmpNetworkService" where
  "SendDiscoveryResponse s =
     (if \<not> IsOnline (ns_device s) \<or> \<not> ns_canbus_valid s then s
      else out (SendManagement (DiscoveryResponse_ToCanFrame
             \<lparr>dr_device_id = dev_device_id (ns_device s), dr_uid = dev_uid (ns_device s),
              dr_features = dev_features (ns_device s)\<rparr>))
             (out (SleepMs (dev_staggered_message_delay (ns_device s))) s))"

definition RunDiscoveryAttempt :: "CdmpNetworkService \<Rightarrow> int option \<times> CdmpNetworkService" where
  "RunDiscoveryAttempt s =
     (if dev_status (ns_device s) \<noteq> INIT then (None, s)
      else if ns_discovery_attempt s > 0 \<and> ns_discovery_response_received s
      then (None, with_status ClaimId s)
      else let s1 = (if ns_discovery_attempt s > 0 \<and> ns_lower_uid_discovering s \<and>
                        ns_discovery_backoff_resets s < DISCOVERY_MAX_BACKOFF_RESETS
                     then s\<lparr>ns_discovery_backoff_resets := Suc (ns_discovery_backoff_resets s),
                            ns_discovery_attempt := 0\<rparr>
                     else s)
           in if ns_discovery_attempt s1 = length RETRY_BACKOFFS_MS
              then (None, with_status ClaimId s1)
              else (Some (RETRY_BACKOFFS_MS ! ns_discovery_attempt s1),
                    SendDiscoveryRequest (s1\<lparr>ns_discovery_attempt := Suc (ns_discovery_attempt s1),
                                             ns_lower_uid_discovering := False\<rparr>)))"

definition RequestRediscovery :: "int \<Rightarrow> CdmpNetworkService \<Rightarrow> CdmpNetworkService" where
  "RequestRediscovery now s =
     (if \<not> IsOnline (ns_device s) \<or> \<not> ns_is_running s then s
      else if (case ns_rediscovery_requested_at_ms s of
                 None \<Rightarrow> False | Some at \<Rightarrow> now - at < HEARTBEAT_INTERVAL_MS) then s
      else SendDiscoveryRequest (s\<lparr>ns_rediscovery_requested_at_ms := Some now\<rparr>))"

text \<open>\<open>*claim = {}\<close> for the claim found for a device.\<close>

definition clear_claim :: "nat option \<Rightarrow> CdmpNetworkService \<Rightarrow> CdmpNetworkService" where
  "clear_claim claim s =
     (case claim of None \<Rightarrow> s
      | Some i \<Rightarrow> s\<lparr>ns_pending_id_claims := (ns_pending_id_claims s)[i := PendingIdClaim_new]\<rparr>)"

text \<open>The part under the lock when a device is added or refreshed, with its \<open>JOINED\<close> event.\<close>

definition notify_joined :: "bool \<Rightarrow> u8 \<Rightarrow> CdmpNetworkService \<Rightarrow> CdmpNetworkService" where
  "notify_joined is_added i s =
     (if is_added then (case table s i of Some d \<Rightarrow> notify_device_event JOINED (ToDeviceInfo d) s | None \<Rightarrow> s)
      else s)"

definition UpdateDeviceFromDiscovery ::
  "int \<Rightarrow> CdmpDiscoveryResponseMessage \<Rightarrow> CdmpNetworkService \<Rightarrow> cxx_error option \<times> CdmpNetworkService" where
  "UpdateDeviceFromDiscovery now discovery s =
     (let i = dr_device_id discovery
      in if \<not> IsPeerDeviceId i s then (None, s)
         else let s1 = (case FindDeviceIdByUid (dr_uid discovery) s of
                          None \<Rightarrow> s
                        | Some previous \<Rightarrow> if previous \<noteq> i then RemoveDevice previous s else s)
              in case AddOrUpdateDevice now i (dr_uid discovery) (dr_features discovery) s1 of
                   Inl e \<Rightarrow> (Some e, s1)
                 | Inr (is_added, s2) \<Rightarrow>
                     (case FindPendingIdClaim now i s2 of
                        (claim, s3) \<Rightarrow> (None, notify_joined is_added i (clear_claim claim s3))))"

definition UpdateDeviceFromHeartbeat ::
  "int \<Rightarrow> CdmpHeartbeatMessage \<Rightarrow> CdmpNetworkService \<Rightarrow> cxx_error option \<times> CdmpNetworkService" where
  "UpdateDeviceFromHeartbeat now heartbeat s =
     (let i = hb_device_id heartbeat
      in if \<not> IsPeerDeviceId i s then (None, s)
         else case FindPendingIdClaim now i s of
                (Some k, s1) \<Rightarrow>
                  (case AddOrUpdateDevice now i (pc_uid (ns_pending_id_claims s1 ! k)) (hb_features heartbeat) s1 of
                     Inl e \<Rightarrow> (Some e, s1)
                   | Inr (is_added, s2) \<Rightarrow>
                       (None, notify_heartbeat heartbeat (notify_joined is_added i (clear_claim (Some k) s2))))
              | (None, s1) \<Rightarrow>
                  (case table s1 i of
                     Some d \<Rightarrow>
                       (case AddOrUpdateDevice now i (dev_uid d) (hb_features heartbeat) s1 of
                          Inl e \<Rightarrow> (Some e, s1)
                        | Inr (_, s2) \<Rightarrow> (None, notify_heartbeat heartbeat s2))
                   | None \<Rightarrow> (None, RequestRediscovery now s1)))"

definition ProcessDiscoveryRequestFrame :: "bytes \<Rightarrow> CdmpNetworkService \<Rightarrow> CdmpNetworkService" where
  "ProcessDiscoveryRequestFrame frame s =
     (case DiscoveryRequest_FromCanFrame frame of
        Inl _ \<Rightarrow> s
      | Inr m \<Rightarrow>
          run_in_session WorkSendDiscoveryResponse
            (if dev_status (ns_device s) = INIT \<and> dq_uid m < dev_uid (ns_device s)
             then s\<lparr>ns_lower_uid_discovering := True\<rparr> else s))"

definition ProcessDiscoveryResponseFrame :: "int \<Rightarrow> bytes \<Rightarrow> CdmpNetworkService \<Rightarrow> CdmpNetworkService" where
  "ProcessDiscoveryResponseFrame now frame s =
     (case DiscoveryResponse_FromCanFrame frame of
        Inl _ \<Rightarrow> s
      | Inr m \<Rightarrow>
          let s1 = s\<lparr>ns_discovery_response_received := True\<rparr>
          in if dr_uid m = dev_uid (ns_device s1) then with_status EnterError s1
             else snd (UpdateDeviceFromDiscovery now m s1))"

section \<open>ID claim\<close>

definition StartIdClaim :: "CdmpNetworkService \<Rightarrow> CdmpNetworkService" where
  "StartIdClaim s =
     (let s1 = s\<lparr>ns_claiming_device_id := DEVICE_ID_UNASSIGNED, ns_id_claim_attempt := 0,
                 ns_id_claim_result := None\<rparr>
      in if ns_has_tasks s1 then out RescheduleIdClaim s1 else s1)"

definition CompleteIdClaim :: "CdmpNetworkService \<Rightarrow> CdmpNetworkService" where
  "CompleteIdClaim s =
     with_status (GoOnline False) (UpdateNetworkDevices
       (s\<lparr>ns_device := (ns_device s)\<lparr>dev_device_id := ns_claiming_device_id s\<rparr>,
          ns_claiming_device_id := DEVICE_ID_UNASSIGNED\<rparr>))"

definition SendIdClaim :: "CdmpNetworkService \<Rightarrow> CdmpNetworkService" where
  "SendIdClaim s = out (SendManagement (IdClaimRequest_ToCanFrame
     \<lparr>ic_claiming_device_id = ns_claiming_device_id s, ic_uid = dev_uid (ns_device s),
      ic_protocol_version = dev_protocol_version (ns_device s)\<rparr>)) s"

text \<open>Sends the claim for the ID chosen, and comes back after the response timeout.\<close>

definition send_claim_attempt :: "CdmpNetworkService \<Rightarrow> int option \<times> CdmpNetworkService" where
  "send_claim_attempt s =
     (Some ID_CLAIM_RESPONSE_TIMEOUT_MS, (SendIdClaim s)\<lparr>ns_id_claim_attempt := Suc (ns_id_claim_attempt s)\<rparr>)"

definition RunIdClaimAttempt :: "int \<Rightarrow> CdmpNetworkService \<Rightarrow> int option \<times> CdmpNetworkService" where
  "RunIdClaimAttempt now s =
     (let idle = s\<lparr>ns_claiming_device_id := DEVICE_ID_UNASSIGNED\<rparr>
      in if dev_status (ns_device s) \<noteq> CLAIMING \<or> \<not> ns_canbus_valid s then (None, idle)
         else if ns_id_claim_result s = Some CLAIM_VERSION_INCOMPATIBLE
         then (None, run_in_session WorkEnterVersionMismatch idle)
         else if ns_id_claim_result s = Some CLAIM_ACCEPT then (None, CompleteIdClaim s)
         else if ns_claiming_device_id s = DEVICE_ID_UNASSIGNED \<or> ns_id_claim_result s = Some CLAIM_REJECT
         then (case GetLowestAvailableId now (ns_claiming_device_id s) s of
                 (Inl _, s1) \<Rightarrow>
                   (None, run_in_session WorkEnterError (s1\<lparr>ns_claiming_device_id := DEVICE_ID_UNASSIGNED\<rparr>))
               | (Inr i, s1) \<Rightarrow>
                   send_claim_attempt (s1\<lparr>ns_claiming_device_id := i, ns_id_claim_attempt := 0,
                     ns_id_claim_result := None\<rparr>))
         else if ns_id_claim_attempt s = ID_CLAIM_MAX_ATTEMPTS then (None, CompleteIdClaim s)
         else send_claim_attempt s)"

text \<open>Everything under the lock of \<open>RecordIdClaim\<close>, then the two notifications.\<close>

definition RecordIdClaim ::
  "int \<Rightarrow> CdmpIdClaimRequestMessage \<Rightarrow> CdmpNetworkService \<Rightarrow> CdmpNetworkService" where
  "RecordIdClaim now claim s =
     (let i = ic_claiming_device_id claim
      in if \<not> IsPeerDeviceId i s \<or> ic_uid claim = dev_uid (ns_device s)
            \<or> \<not> IsProtocolCompatible (ic_protocol_version claim) (ns_device s) then s
         else case table s i of
                Some d \<Rightarrow>
                  if dev_uid d \<noteq> ic_uid claim then s
                  else (case FindPendingIdClaim now i s of
                          (pending, s1) \<Rightarrow>
                            let restarted = (case pending of None \<Rightarrow> True
                                   | Some k \<Rightarrow> pc_uid (ns_pending_id_claims s1 ! k) \<noteq> ic_uid claim);
                                s2 = StorePendingIdClaim now claim (s1\<lparr>ns_network_devices := map (\<lambda>(j, d).
                                       if j = i then (j, UpdateHeartbeat now d) else (j, d)) (ns_network_devices s1)\<rparr>)
                            in if restarted then notify_device_event RESTARTED (ToDeviceInfo d) s2 else s2)
              | None \<Rightarrow>
                  let s1 = StorePendingIdClaim now claim s
                  in case FindDeviceIdByUid (ic_uid claim) s of
                       None \<Rightarrow> s1 | Some previous \<Rightarrow> RemoveDevice previous s1)"

definition claim_answer :: "CdmpIdClaimRequestMessage \<Rightarrow> CdmpDevice \<Rightarrow> u8 option" where
  "claim_answer claim d =
     (if dev_is_lowest_id_on_network d \<and> \<not> IsProtocolCompatible (ic_protocol_version claim) d
      then Some CLAIM_VERSION_INCOMPATIBLE
      else if dev_device_id d = ic_claiming_device_id claim then Some CLAIM_REJECT
      else if dev_is_lowest_id_on_network d then Some CLAIM_ACCEPT
      else None)"

definition ProcessIdClaimRequestFrame :: "int \<Rightarrow> bytes \<Rightarrow> CdmpNetworkService \<Rightarrow> CdmpNetworkService" where
  "ProcessIdClaimRequestFrame now frame s =
     (case IdClaimRequest_FromCanFrame frame of
        Inl _ \<Rightarrow> s
      | Inr claim \<Rightarrow>
          let s1 = RecordIdClaim now claim s
          in if \<not> ns_canbus_valid s1 \<or> \<not> IsOnline (ns_device s1) then s1
             else (case claim_answer claim (ns_device s1) of
                     None \<Rightarrow> s1
                   | Some r \<Rightarrow> out (SendManagement (IdClaimResponse_ToCanFrame
                       \<lparr>cr_responding_device_id = dev_device_id (ns_device s1),
                        cr_claiming_device_id = ic_claiming_device_id claim,
                        cr_claiming_device_uid = ic_uid claim, cr_result = r\<rparr>)) s1))"

definition ProcessIdClaimResponseFrame :: "bytes \<Rightarrow> CdmpNetworkService \<Rightarrow> CdmpNetworkService" where
  "ProcessIdClaimResponseFrame frame s =
     (case IdClaimResponse_FromCanFrame frame of
        Inl _ \<Rightarrow> s
      | Inr r \<Rightarrow>
          if dev_status (ns_device s) \<noteq> CLAIMING \<or> cr_claiming_device_id r \<noteq> ns_claiming_device_id s then s
          else if cr_result r \<noteq> CLAIM_ACCEPT \<or> ns_id_claim_result s = None
          then s\<lparr>ns_id_claim_result := Some (cr_result r)\<rparr> else s)"

section \<open>Frames, session work, status and lifecycle\<close>

text \<open>
  An empty frame has no type byte to read, which is undefined in the language. The same holds for a
  frame too short for its type, where the decoders above give \<open>OutOfBounds\<close>: the model drops such
  a frame as the \<open>catch\<close> clauses drop a malformed one.
\<close>

definition ProcessFrame :: "int \<Rightarrow> bytes \<Rightarrow> CdmpNetworkService \<Rightarrow> cxx_error option \<times> CdmpNetworkService" where
  "ProcessFrame now frame s =
     (case span_at frame 0 of
        Inl e \<Rightarrow> (Some e, s)
      | Inr t \<Rightarrow>
          (None,
           if t = MT_DISCOVERY_REQUEST then ProcessDiscoveryRequestFrame frame s
           else if t = MT_DISCOVERY_RESPONSE then ProcessDiscoveryResponseFrame now frame s
           else if t = MT_ID_CLAIM then ProcessIdClaimRequestFrame now frame s
           else if t = MT_ID_CLAIM_RESPONSE then ProcessIdClaimResponseFrame frame s
           else s))"

fun do_work :: "int \<Rightarrow> session_work \<Rightarrow> CdmpNetworkService \<Rightarrow> CdmpNetworkService" where
  "do_work now (WorkProcessFrame frame) s = snd (ProcessFrame now frame s)"
| "do_work now WorkStartInitialization s = StartInitialization s"
| "do_work now WorkStartIdClaim s = StartIdClaim s"
| "do_work now WorkSendDiscoveryResponse s = SendDiscoveryResponse s"
| "do_work now WorkEnterVersionMismatch s = with_status EnterVersionMismatch s"
| "do_work now WorkEnterError s = with_status EnterError s"

definition run_session_work :: "int \<Rightarrow> nat \<Rightarrow> session_work \<Rightarrow> CdmpNetworkService \<Rightarrow> CdmpNetworkService" where
  "run_session_work now session w s = (if ns_session s = session then do_work now w s else s)"

definition OnManagementFrame :: "bytes \<Rightarrow> CdmpNetworkService \<Rightarrow> CdmpNetworkService" where
  "OnManagementFrame frame s = run_in_session (WorkProcessFrame frame) s"

definition StartValidationTask :: "CdmpNetworkService \<Rightarrow> CdmpNetworkService" where
  "StartValidationTask s =
     (if \<not> ns_is_validation_task_running s \<and> ns_has_tasks s \<and> dev_status (ns_device s) = ONLINE
      then (out ScheduleValidation s)\<lparr>ns_is_validation_task_running := True\<rparr> else s)"

definition Network_OnDeviceStatusChanged ::
  "CdmpDeviceStatus \<Rightarrow> CdmpNetworkService \<Rightarrow> CdmpNetworkService" where
  "Network_OnDeviceStatusChanged new_status s =
     (if new_status = INIT then run_in_session WorkStartInitialization s
      else if new_status = CLAIMING then run_in_session WorkStartIdClaim s
      else if new_status = ONLINE then StartValidationTask s
      else if new_status = VERSION_MISMATCH \<or> new_status = STATUS_ERROR then out StopService s
      else s)"

definition NetworkService_DoInitialize :: "CdmpNetworkService \<Rightarrow> CdmpNetworkService" where
  "NetworkService_DoInitialize s = s\<lparr>ns_has_tasks := True\<rparr>"

definition Network_RegisterCanHandlers ::
  "int \<Rightarrow> CdmpNetworkService \<Rightarrow> cxx_error option \<times> CdmpNetworkService" where
  "Network_RegisterCanHandlers i s =
     (if \<not> ns_canbus_valid s then (None, s)
      else let s1 = s\<lparr>ns_canbus_handler_id := i\<rparr> in (if i < 0 then Some RuntimeError else None, s1))"

definition Network_UnregisterCanHandlers :: "CdmpNetworkService \<Rightarrow> CdmpNetworkService" where
  "Network_UnregisterCanHandlers s =
     (if \<not> ns_canbus_valid s then s
      else (if 0 \<le> ns_canbus_handler_id s then out (RemoveManagementHandler (ns_canbus_handler_id s)) s else s)
             \<lparr>ns_canbus_handler_id := -1\<rparr>)"

definition NetworkService_DoStart :: "int \<Rightarrow> CdmpNetworkService \<Rightarrow> cxx_error option \<times> CdmpNetworkService" where
  "NetworkService_DoStart i s =
     (case Network_RegisterCanHandlers i (ClearAllDevices s) of
        (Some e, s1) \<Rightarrow> (Some e, s1)
      | (None, s1) \<Rightarrow> (None, StartValidationTask s1))"

definition NetworkService_DoStop :: "CdmpNetworkService \<Rightarrow> CdmpNetworkService" where
  "NetworkService_DoStop s =
     (let s1 = Network_UnregisterCanHandlers s;
          s2 = s1\<lparr>ns_session := Suc (ns_session s1)\<rparr>;
          s3 = (if ns_has_tasks s2 then out CancelIdClaim (out CancelDiscovery s2) else s2)
                 \<lparr>ns_is_validation_task_running := False\<rparr>;
          s4 = (if ns_has_tasks s3 then out CancelValidation s3 else s3)
      in ClearAllDevices s4)"

definition RegisterDeviceEventHandler :: "CdmpNetworkService \<Rightarrow> int \<times> CdmpNetworkService" where
  "RegisterDeviceEventHandler s =
     (let i = ns_next_handler_id s
      in (i, s\<lparr>ns_next_handler_id := i + 1, ns_device_event_handlers := ns_device_event_handlers s @ [i]\<rparr>))"

definition UnregisterDeviceEventHandler :: "int \<Rightarrow> CdmpNetworkService \<Rightarrow> CdmpNetworkService" where
  "UnregisterDeviceEventHandler i s =
     s\<lparr>ns_device_event_handlers := filter (\<lambda>j. j \<noteq> i) (ns_device_event_handlers s)\<rparr>"

definition RegisterHeartbeatHandler :: "CdmpNetworkService \<Rightarrow> int \<times> CdmpNetworkService" where
  "RegisterHeartbeatHandler s =
     (let i = ns_next_handler_id s
      in (i, s\<lparr>ns_next_handler_id := i + 1, ns_heartbeat_handlers := ns_heartbeat_handlers s @ [i]\<rparr>))"

definition UnregisterHeartbeatHandler :: "int \<Rightarrow> CdmpNetworkService \<Rightarrow> CdmpNetworkService" where
  "UnregisterHeartbeatHandler i s =
     s\<lparr>ns_heartbeat_handlers := filter (\<lambda>j. j \<noteq> i) (ns_heartbeat_handlers s)\<rparr>"

definition SetAutoDiscovery :: "bool \<Rightarrow> CdmpNetworkService \<Rightarrow> CdmpNetworkService" where
  "SetAutoDiscovery enabled s = s\<lparr>ns_auto_discovery_enabled := enabled\<rparr>"

end
