(* ===== verification/Cdmp_Network_Props.thy ===== *)
theory Cdmp_Network_Props
  imports Cdmp_Network "HOL-Library.Multiset"
begin

text \<open>
  What the network service guarantees: the device table stays well-formed under every sequence of
  calls and matches the events it reports, discovery and the ID claim end within a fixed number of
  attempts, the lowest free ID is claimed, an objection outweighs an acceptance, and at most one of
  two units that know each other accepts a claim.
\<close>

section \<open>Invariant\<close>

definition device_entry_ok :: "u8 \<Rightarrow> CdmpDevice \<Rightarrow> bool" where
  "device_entry_ok i d \<longleftrightarrow> dev_device_id d = i \<and> dev_uid d \<noteq> 0 \<and> dev_status d = ONLINE \<and>
     i \<noteq> DEVICE_ID_UNASSIGNED \<and> i \<noteq> DEVICE_ID_BROADCAST"

definition devices_wf :: "(u8 \<times> CdmpDevice) list \<Rightarrow> bool" where
  "devices_wf ds \<longleftrightarrow> distinct (map fst ds) \<and> (\<forall>(i, d)\<in>set ds. device_entry_ok i d)"

definition network_wf :: "CdmpNetworkService \<Rightarrow> bool" where
  "network_wf s \<longleftrightarrow> devices_wf (ns_network_devices s) \<and>
     length (ns_pending_id_claims s) = PENDING_ID_CLAIMS_MAX"

text \<open>What a function may leave alone, and what the table and its events are to a client.\<close>

definition table_part where
  "table_part s = (ns_network_devices s, length (ns_pending_id_claims s))"

definition device_events :: "network_effect list \<Rightarrow> (CdmpDeviceEvent \<times> u8) list" where
  "device_events es = concat (map (\<lambda>e. case e of NotifyDeviceEvent _ ev d \<Rightarrow> [(ev, di_device_id d)] | _ \<Rightarrow> []) es)"

fun apply_event :: "CdmpDeviceEvent \<times> u8 \<Rightarrow> u8 set \<Rightarrow> u8 set" where
  "apply_event (JOINED, i) ids = insert i ids"
| "apply_event (LEFT, i) ids = ids - {i}"
| "apply_event (RESTARTED, i) ids = ids"

definition ids :: "CdmpNetworkService \<Rightarrow> u8 set" where
  "ids s = fst ` set (ns_network_devices s)"

text \<open>
  A call keeps the table in step with its events: the new effects, replayed on the IDs before, give
  the IDs after.
\<close>

definition tracks :: "CdmpNetworkService \<Rightarrow> CdmpNetworkService \<Rightarrow> bool" where
  "tracks s s' \<longleftrightarrow> (\<exists>es. ns_outbox s' = ns_outbox s @ es \<and> ids s' = fold apply_event (device_events es) (ids s))"

definition sound :: "CdmpNetworkService \<Rightarrow> CdmpNetworkService \<Rightarrow> bool" where
  "sound s s' \<longleftrightarrow> (network_wf s \<longrightarrow> network_wf s' \<and> tracks s s')"

lemma device_events_simps [simp]:
  "device_events [] = []"
  "device_events (es @ fs) = device_events es @ device_events fs"
  "device_events [NotifyDeviceEvent hs ev d] = [(ev, di_device_id d)]"
  by (simp_all add: device_events_def)

lemma tracks_refl: "tracks s s"
  by (auto simp: tracks_def)

lemma tracks_trans: "tracks s t \<Longrightarrow> tracks t u \<Longrightarrow> tracks s u"
  unfolding tracks_def by (metis append.assoc device_events_simps(2) fold_append comp_apply)

lemma sound_refl [simp]: "sound s s"
  by (simp add: sound_def tracks_refl)

lemma sound_trans: "sound s t \<Longrightarrow> sound t u \<Longrightarrow> sound s u"
  by (auto simp: sound_def intro: tracks_trans)

lemma sound_idle:
  assumes "ns_network_devices s' = ns_network_devices s"
    "length (ns_pending_id_claims s') = length (ns_pending_id_claims s)"
    "ns_outbox s' = ns_outbox s @ es" "device_events es = []"
  shows "sound s s'"
  using assms by (auto simp: sound_def network_wf_def tracks_def ids_def)

text \<open>Functions that map the devices of the table without touching what identifies them.\<close>

lemma sound_map:
  assumes "ns_network_devices s' = map (\<lambda>(i, d). (i, f i d)) (ns_network_devices s)"
    and "\<And>i d. device_entry_ok i d \<Longrightarrow> device_entry_ok i (f i d)"
    "length (ns_pending_id_claims s') = length (ns_pending_id_claims s)" "ns_outbox s' = ns_outbox s"
  shows "sound s s'"
proof -
  have keys: "map fst (ns_network_devices s') = map fst (ns_network_devices s)"
    using assms(1) by (simp add: case_prod_unfold comp_def)
  then have "ids s' = ids s" unfolding ids_def set_map [symmetric] by simp
  then have "tracks s s'" using assms(4) by (simp add: tracks_def)
  moreover have "devices_wf (ns_network_devices s) \<Longrightarrow> devices_wf (ns_network_devices s')"
    unfolding devices_wf_def keys using assms(1,2) by auto
  ultimately show ?thesis using assms(3) by (simp add: sound_def network_wf_def)
qed

lemma UpdateNetworkDevices_sound: "sound s (UpdateNetworkDevices s)"
proof -
  have "sound s (UpdateLowestIdOnNetwork s)"
    by (rule sound_map [where f = "\<lambda>i d. d\<lparr>dev_is_lowest_id_on_network := (i = lowest_id s)\<rparr>"])
      (simp_all add: UpdateLowestIdOnNetwork_def device_entry_ok_def)
  moreover have "sound t (UpdateStaggeredMessageDelay t)" for t
    by (rule sound_map [where f = "\<lambda>i d. d\<lparr>dev_staggered_message_delay :=
        CalculateStaggeredMessageTimeOffset (GetAllDeviceIds t) i\<rparr>"])
      (simp_all add: UpdateStaggeredMessageDelay_def device_entry_ok_def)
  ultimately show ?thesis unfolding UpdateNetworkDevices_def by (rule sound_trans)
qed

lemma UpdateNetworkDevices_fields [simp]:
  "map fst (ns_network_devices (UpdateNetworkDevices s)) = map fst (ns_network_devices s)"
  "ns_outbox (UpdateNetworkDevices s) = ns_outbox s"
  "ns_pending_id_claims (UpdateNetworkDevices s) = ns_pending_id_claims s"
  by (simp_all add: UpdateNetworkDevices_def UpdateStaggeredMessageDelay_def UpdateLowestIdOnNetwork_def
      case_prod_unfold comp_def)

lemma UpdateNetworkDevices_ids [simp]: "ids (UpdateNetworkDevices s) = ids s"
  unfolding ids_def set_map [symmetric] by simp

lemma UpdateNetworkDevices_table:
  "table (UpdateNetworkDevices s) i = map_option (\<lambda>d. d\<lparr>dev_is_lowest_id_on_network := (i = lowest_id s),
     dev_staggered_message_delay := CalculateStaggeredMessageTimeOffset (GetAllDeviceIds s) i\<rparr>) (table s i)"
proof -
  have "map_of (map (\<lambda>(i, d). (i, f i d)) ds) i = map_option (f i) (map_of ds i)"
    for f :: "u8 \<Rightarrow> CdmpDevice \<Rightarrow> CdmpDevice" and ds
    by (induction ds) auto
  then show ?thesis
    by (simp add: table_def UpdateNetworkDevices_def UpdateStaggeredMessageDelay_def UpdateLowestIdOnNetwork_def
        option.map_comp comp_def GetAllDeviceIds_def case_prod_unfold)
qed

lemma claims_sound:
  "ns_network_devices s' = ns_network_devices s \<Longrightarrow>
   length (ns_pending_id_claims s') = length (ns_pending_id_claims s) \<Longrightarrow> ns_outbox s' = ns_outbox s \<Longrightarrow> sound s s'"
  by (rule sound_idle [where es = "[]"]) simp_all

lemma ExpirePendingIdClaims_fields [simp]:
  "ns_network_devices (ExpirePendingIdClaims now s) = ns_network_devices s"
  "length (ns_pending_id_claims (ExpirePendingIdClaims now s)) = length (ns_pending_id_claims s)"
  "ns_outbox (ExpirePendingIdClaims now s) = ns_outbox s"
  "ns_device (ExpirePendingIdClaims now s) = ns_device s"
  by (simp_all add: ExpirePendingIdClaims_def)

lemma FindPendingIdClaim_fields:
  assumes "FindPendingIdClaim now i s = (c, s')"
  shows "ns_network_devices s' = ns_network_devices s"
    "length (ns_pending_id_claims s') = length (ns_pending_id_claims s)"
    "ns_outbox s' = ns_outbox s" "ns_device s' = ns_device s"
  using assms by (auto simp: FindPendingIdClaim_def Let_def)

lemma StorePendingIdClaim_fields [simp]:
  "ns_network_devices (StorePendingIdClaim now claim s) = ns_network_devices s"
  "length (ns_pending_id_claims (StorePendingIdClaim now claim s)) = length (ns_pending_id_claims s)"
  "ns_outbox (StorePendingIdClaim now claim s) = ns_outbox s"
  by (auto simp: StorePendingIdClaim_def FindPendingIdClaim_def Let_def split: option.split)

lemma clear_claim_fields [simp]:
  "ns_network_devices (clear_claim c s) = ns_network_devices s"
  "length (ns_pending_id_claims (clear_claim c s)) = length (ns_pending_id_claims s)"
  "ns_outbox (clear_claim c s) = ns_outbox s"
  by (simp_all add: clear_claim_def split: option.split)

lemma out_fields [simp]:
  "ns_network_devices (out e s) = ns_network_devices s"
  "ns_pending_id_claims (out e s) = ns_pending_id_claims s"
  "ns_outbox (out e s) = ns_outbox s @ [e]" "ns_device (out e s) = ns_device s"
  by (simp_all add: out_def)

lemma out_sound: "device_events [e] = [] \<Longrightarrow> sound s (out e s)"
  by (rule sound_idle [where es = "[e]"]) simp_all

lemma quiet_effects [simp]:
  "device_events [SendManagement b] = []" "device_events [SleepMs n] = []" "device_events [RescheduleDiscovery] = []"
  "device_events [RescheduleIdClaim] = []" "device_events [ScheduleValidation] = []"
  "device_events [CancelDiscovery] = []" "device_events [CancelIdClaim] = []" "device_events [CancelValidation] = []"
  "device_events [RunInSession n w] = []" "device_events [NotifyHeartbeat hs hb] = []"
  "device_events [StatusCalls cs] = []" "device_events [StopService] = []" "device_events [RemoveManagementHandler i] = []"
  by (simp_all add: device_events_def)

lemma table_mem: "table s i = Some d \<Longrightarrow> (i, d) \<in> set (ns_network_devices s)"
  by (simp add: table_def map_of_SomeD)

lemma table_None: "table s i = None \<longleftrightarrow> i \<notin> ids s"
  by (simp add: table_def ids_def map_of_eq_None_iff)

lemma RemoveDevice_sound: "sound s (RemoveDevice i s)"
proof (cases "table s i")
  case None
  then show ?thesis by (simp add: RemoveDevice_def)
next
  case (Some d)
  let ?t = "s\<lparr>ns_network_devices := filter (\<lambda>(j, _). j \<noteq> i) (ns_network_devices s)\<rparr>"
  let ?u = "UpdateNetworkDevices ?t"
  have res: "RemoveDevice i s = notify_device_event LEFT (ToDeviceInfo d) ?u" using Some by (simp add: RemoveDevice_def)
  show ?thesis
    unfolding sound_def
  proof
    assume wf: "network_wf s"
    have "network_wf ?t"
      using wf by (auto simp: network_wf_def devices_wf_def distinct_map inj_on_def case_prod_unfold)
    then have "network_wf ?u" using UpdateNetworkDevices_sound by (auto simp: sound_def)
    moreover have "dev_device_id d = i"
      using wf table_mem [OF Some] by (auto simp: network_wf_def devices_wf_def device_entry_ok_def)
    moreover have "ids ?t = ids s - {i}" by (auto simp: ids_def case_prod_unfold image_iff)
    ultimately show "network_wf (RemoveDevice i s) \<and> tracks s (RemoveDevice i s)"
      unfolding res by (auto simp: notify_device_event_def network_wf_def tracks_def ids_def [of "out _ _"]
          ToDeviceInfo_def simp flip: ids_def)
  qed
qed

lemma fold_RemoveDevice_sound: "sound s (fold RemoveDevice is s)"
  by (induction "is" arbitrary: s) (auto intro: sound_trans RemoveDevice_sound)

lemma AddOrUpdateDevice_cases:
  assumes "AddOrUpdateDevice now i uid features s = Inr (b, s')" and peer: "i \<noteq> DEVICE_ID_UNASSIGNED" "i \<noteq> DEVICE_ID_BROADCAST"
    and wf: "network_wf s"
  shows "network_wf s' \<and> ns_outbox s' = ns_outbox s \<and> ids s' = insert i (ids s) \<and> (b \<longleftrightarrow> i \<notin> ids s) \<and>
     (\<exists>d. table s' i = Some d \<and> device_entry_ok i d)"
proof (cases "table s i")
  case None
  then obtain d where d: "CdmpDevice_new now uid features ONLINE = Inr d" and b: "b"
    and s': "s' = UpdateNetworkDevices (s\<lparr>ns_network_devices := ns_network_devices s @ [(i, d\<lparr>dev_device_id := i\<rparr>)]\<rparr>)"
    using assms(1) by (auto simp: AddOrUpdateDevice_def try_bind_Inr_iff)
  let ?t = "s\<lparr>ns_network_devices := ns_network_devices s @ [(i, d\<lparr>dev_device_id := i\<rparr>)]\<rparr>"
  have ok: "device_entry_ok i (d\<lparr>dev_device_id := i\<rparr>)"
    using d peer by (auto simp: CdmpDevice_new_def device_entry_ok_def UpdateHeartbeat_def CdmpStatusMachine_new_def split: if_splits)
  then have "network_wf ?t"
    using wf None by (auto simp: network_wf_def devices_wf_def table_None ids_def)
  then have "network_wf s'" unfolding s' using UpdateNetworkDevices_sound by (auto simp: sound_def)
  moreover have "table ?t i = Some (d\<lparr>dev_device_id := i\<rparr>)"
    using None by (simp add: table_def map_add_def)
  moreover have "ids ?t = insert i (ids s)" by (auto simp: ids_def)
  ultimately show ?thesis
    using None b ok unfolding s' by (simp add: UpdateNetworkDevices_table table_None device_entry_ok_def)
next
  case (Some d)
  let ?f = "\<lambda>j d. if j = i then (fst (GoOnline True (UpdateHeartbeat now d)))\<lparr>dev_features := features\<rparr> else d"
  have s': "ns_network_devices s' = map (\<lambda>(j, d). (j, ?f j d)) (ns_network_devices s)" "\<not> b"
    "ns_outbox s' = ns_outbox s" "ns_pending_id_claims s' = ns_pending_id_claims s"
    using assms(1) Some by (auto simp: AddOrUpdateDevice_def)
  have ok: "device_entry_ok j d \<Longrightarrow> device_entry_ok j (?f j d)" for j d
    by (auto simp: device_entry_ok_def GoOnline_def UpdateHeartbeat_def dev_SetStatus_status)
  have snd: "sound s s'" by (rule sound_map [where f = ?f]) (use s' ok in auto)
  have "map_of (map (\<lambda>(j, d). (j, ?f j d)) ds) i = map_option (?f i) (map_of ds i)" for ds
    by (induction ds) auto
  then have "table s' i = Some (?f i d)" using Some s'(1) by (simp add: table_def)
  moreover have "device_entry_ok i d" using wf table_mem [OF Some] by (auto simp: network_wf_def devices_wf_def)
  moreover have "ids s' = ids s" using s'(1) by (force simp: ids_def case_prod_unfold)
  moreover have "i \<in> ids s" using Some table_None [of s i] by auto
  ultimately show ?thesis using snd wf s' ok [of i d] by (auto simp: sound_def)
qed

lemma joined_sound:
  assumes add: "AddOrUpdateDevice now i uid features s = Inr (b, s1)" and peer: "i \<noteq> DEVICE_ID_UNASSIGNED" "i \<noteq> DEVICE_ID_BROADCAST"
    and t: "ns_network_devices t = ns_network_devices s1" "length (ns_pending_id_claims t) = length (ns_pending_id_claims s1)"
      "ns_outbox t = ns_outbox s1"
  shows "sound s (notify_joined b i t)"
  unfolding sound_def
proof
  assume wf: "network_wf s"
  obtain d where d: "table s1 i = Some d" "device_entry_ok i d" and s1: "network_wf s1" "ns_outbox s1 = ns_outbox s"
    "ids s1 = insert i (ids s)" "b \<longleftrightarrow> i \<notin> ids s"
    using AddOrUpdateDevice_cases [OF add peer wf] by blast
  have t': "table t i = Some d" "ids t = ids s1" "network_wf t"
    using d s1 t by (simp_all add: table_def ids_def network_wf_def)
  have "di_device_id (ToDeviceInfo d) = i" using d(2) by (simp add: ToDeviceInfo_def device_entry_ok_def)
  moreover have "\<not> b \<Longrightarrow> ids t = ids s" using s1(3,4) t'(2) by auto
  ultimately show "network_wf (notify_joined b i t) \<and> tracks s (notify_joined b i t)"
    using t' s1 t(3) by (auto simp: notify_joined_def notify_device_event_def network_wf_def tracks_def ids_def [of "out _ _"]
        simp flip: ids_def)
qed

lemma UpdateDeviceFromDiscovery_sound: "sound s (snd (UpdateDeviceFromDiscovery now m s))"
proof (cases "IsPeerDeviceId (dr_device_id m) s")
  case False
  then show ?thesis by (simp add: UpdateDeviceFromDiscovery_def Let_def)
next
  case True
  then have peer: "dr_device_id m \<noteq> DEVICE_ID_UNASSIGNED" "dr_device_id m \<noteq> DEVICE_ID_BROADCAST"
    by (auto simp: IsPeerDeviceId_def)
  let ?i = "dr_device_id m"
  define s1 where "s1 = (case FindDeviceIdByUid (dr_uid m) s of None \<Rightarrow> s
     | Some previous \<Rightarrow> if previous \<noteq> ?i then RemoveDevice previous s else s)"
  have s1: "sound s s1" by (simp add: s1_def RemoveDevice_sound split: option.split)
  show ?thesis
  proof (cases "AddOrUpdateDevice now ?i (dr_uid m) (dr_features m) s1")
    case (Inl e)
    then show ?thesis using True s1 by (simp add: UpdateDeviceFromDiscovery_def Let_def s1_def)
  next
    case (Inr p)
    obtain b s2 where p: "p = (b, s2)" by (cases p)
    obtain c s3 where c: "FindPendingIdClaim now ?i s2 = (c, s3)" by fastforce
    have "sound s1 (notify_joined b ?i (clear_claim c s3))"
      by (rule joined_sound [OF Inr [unfolded p] peer]) (simp_all add: FindPendingIdClaim_fields [OF c])
    moreover have "snd (UpdateDeviceFromDiscovery now m s) = notify_joined b ?i (clear_claim c s3)"
      using True Inr p c by (simp add: UpdateDeviceFromDiscovery_def Let_def s1_def)
    ultimately show ?thesis using s1 sound_trans by metis
  qed
qed

lemma SendDiscoveryRequest_sound: "sound s (SendDiscoveryRequest s)"
  by (simp add: SendDiscoveryRequest_def out_sound)

lemma RequestRediscovery_sound: "sound s (RequestRediscovery now s)"
proof -
  have "sound s (s\<lparr>ns_rediscovery_requested_at_ms := x\<rparr>)" for x by (rule claims_sound) simp_all
  then show ?thesis
    using sound_trans [OF _ SendDiscoveryRequest_sound] by (auto simp: RequestRediscovery_def)
qed

lemma notify_heartbeat_sound: "sound s (notify_heartbeat hb s)"
  by (simp add: notify_heartbeat_def out_sound)

lemma UpdateDeviceFromHeartbeat_sound: "sound s (snd (UpdateDeviceFromHeartbeat now hb s))"
proof (cases "IsPeerDeviceId (hb_device_id hb) s")
  case False
  then show ?thesis by (simp add: UpdateDeviceFromHeartbeat_def Let_def)
next
  case True
  then have peer: "hb_device_id hb \<noteq> DEVICE_ID_UNASSIGNED" "hb_device_id hb \<noteq> DEVICE_ID_BROADCAST"
    by (auto simp: IsPeerDeviceId_def)
  let ?i = "hb_device_id hb"
  obtain c s1 where c: "FindPendingIdClaim now ?i s = (c, s1)" by fastforce
  have s1: "sound s s1" by (rule claims_sound) (simp_all add: FindPendingIdClaim_fields [OF c])
  have added: "sound s1 (notify_heartbeat hb (notify_joined b ?i t))"
    if "AddOrUpdateDevice now ?i uid f s1 = Inr (b, s2)" "ns_network_devices t = ns_network_devices s2"
      "length (ns_pending_id_claims t) = length (ns_pending_id_claims s2)" "ns_outbox t = ns_outbox s2" for uid f b s2 t
    by (rule sound_trans [OF joined_sound [OF that(1) peer that(2-4)] notify_heartbeat_sound])
  show ?thesis
  proof (cases c)
    case (Some k)
    show ?thesis
      using True c Some s1 sound_trans [OF s1 added]
      by (auto simp: UpdateDeviceFromHeartbeat_def Let_def split: sum.split prod.split)
  next
    case None
    show ?thesis
    proof (cases "table s1 ?i")
      case table: None
      then show ?thesis
        using True c None sound_trans [OF s1 RequestRediscovery_sound] by (simp add: UpdateDeviceFromHeartbeat_def Let_def)
    next
      case (Some d)
      then have "AddOrUpdateDevice now ?i (dev_uid d) (hb_features hb) s1 = Inr (b, s2) \<Longrightarrow> \<not> b" for b s2
        by (auto simp: AddOrUpdateDevice_def)
      then have "sound s1 (notify_heartbeat hb s2)"
        if "AddOrUpdateDevice now ?i (dev_uid d) (hb_features hb) s1 = Inr (b, s2)" for b s2
        using added [OF that refl refl refl] that by (simp add: notify_joined_def)
      then show ?thesis
        using True c None Some s1 sound_trans [OF s1]
        by (auto simp: UpdateDeviceFromHeartbeat_def Let_def split: sum.split prod.split)
    qed
  qed
qed

lemma RecordIdClaim_sound: "sound s (RecordIdClaim now claim s)"
proof -
  let ?i = "ic_claiming_device_id claim"
  obtain c s1 where c: "FindPendingIdClaim now ?i s = (c, s1)" by fastforce
  let ?t = "s1\<lparr>ns_network_devices := map (\<lambda>(j, d). if j = ?i then (j, UpdateHeartbeat now d) else (j, d)) (ns_network_devices s1)\<rparr>"
  have "sound s ?t"
    by (rule sound_map [where f = "\<lambda>j d. if j = ?i then UpdateHeartbeat now d else d"])
      (auto simp: FindPendingIdClaim_fields [OF c] device_entry_ok_def UpdateHeartbeat_def)
  moreover have "sound u (StorePendingIdClaim now claim u)" for u by (rule claims_sound) simp_all
  ultimately have known: "sound s (StorePendingIdClaim now claim ?t)" and new: "sound s (StorePendingIdClaim now claim s)"
    using sound_trans by blast+
  have restarted: "sound u (notify_device_event RESTARTED d u)" for u d
    by (auto simp: sound_def notify_device_event_def network_wf_def tracks_def ids_def)
  show ?thesis
    using c sound_trans [OF known restarted] known sound_trans [OF new RemoveDevice_sound] new
    by (simp add: RecordIdClaim_def Let_def split: option.split)
qed

lemma with_status_sound: "sound s (with_status f s)"
  by (rule sound_idle [where es = "[StatusCalls (snd (f (ns_device s)))]"])
    (simp_all add: with_status_def split: prod.split)

lemma run_in_session_sound: "sound s (run_in_session w s)"
  by (simp add: run_in_session_def out_sound)

lemma ProcessIdClaimRequestFrame_sound: "sound s (ProcessIdClaimRequestFrame now frame s)"
  using RecordIdClaim_sound [of s now] sound_trans [OF RecordIdClaim_sound out_sound]
  by (auto simp: ProcessIdClaimRequestFrame_def Let_def split: sum.split option.split)

lemma ProcessIdClaimResponseFrame_sound: "sound s (ProcessIdClaimResponseFrame frame s)"
proof -
  have "sound s (s\<lparr>ns_id_claim_result := r\<rparr>)" for r by (rule claims_sound) simp_all
  then show ?thesis by (auto simp: ProcessIdClaimResponseFrame_def split: sum.split)
qed

lemma ProcessDiscoveryRequestFrame_sound: "sound s (ProcessDiscoveryRequestFrame frame s)"
proof -
  have "sound s (s\<lparr>ns_lower_uid_discovering := True\<rparr>)" by (rule claims_sound) simp_all
  then show ?thesis
    using run_in_session_sound [of s] sound_trans [OF _ run_in_session_sound]
    by (auto simp: ProcessDiscoveryRequestFrame_def split: sum.split)
qed

lemma ProcessDiscoveryResponseFrame_sound: "sound s (ProcessDiscoveryResponseFrame now frame s)"
proof -
  have "sound s (s\<lparr>ns_discovery_response_received := True\<rparr>)" by (rule claims_sound) simp_all
  then show ?thesis
    using sound_trans [OF _ with_status_sound] sound_trans [OF _ UpdateDeviceFromDiscovery_sound]
    by (auto simp: ProcessDiscoveryResponseFrame_def Let_def split: sum.split)
qed

lemma ProcessFrame_sound: "sound s (snd (ProcessFrame now frame s))"
  by (simp add: ProcessFrame_def ProcessIdClaimRequestFrame_sound ProcessIdClaimResponseFrame_sound
      ProcessDiscoveryRequestFrame_sound ProcessDiscoveryResponseFrame_sound split: sum.split)

lemma reset_then_out:
  assumes "ns_network_devices t = ns_network_devices s" "ns_pending_id_claims t = ns_pending_id_claims s"
    "ns_outbox t = ns_outbox s" "device_events [e] = []"
  shows "sound s (if b then out e t else t)"
proof -
  have "sound s t" by (rule claims_sound) (simp_all add: assms)
  then show ?thesis using sound_trans [OF _ out_sound [OF assms(4)]] by auto
qed

lemma do_work_sound: "sound s (do_work now w s)"
proof (cases w)
  case WorkSendDiscoveryResponse
  then show ?thesis
    using sound_trans [OF out_sound out_sound] by (simp add: SendDiscoveryResponse_def)
qed (simp_all add: ProcessFrame_sound with_status_sound StartInitialization_def StartIdClaim_def Let_def
    reset_then_out)

lemma RunDiscoveryAttempt_sound: "sound s (snd (RunDiscoveryAttempt s))"
proof -
  have "sound s (with_status ClaimId t)" "sound s (SendDiscoveryRequest t)"
    if "ns_network_devices t = ns_network_devices s" "ns_pending_id_claims t = ns_pending_id_claims s"
      "ns_outbox t = ns_outbox s" for t
  proof -
    have "sound s t" by (rule claims_sound) (simp_all add: that)
    then show "sound s (with_status ClaimId t)" "sound s (SendDiscoveryRequest t)"
      using sound_trans with_status_sound SendDiscoveryRequest_sound by blast+
  qed
  then show ?thesis by (auto simp: RunDiscoveryAttempt_def Let_def)
qed

lemma lowest_available_fields:
  "ns_network_devices (snd (lowest_available now i s)) = ns_network_devices s \<and>
   length (ns_pending_id_claims (snd (lowest_available now i s))) = length (ns_pending_id_claims s) \<and>
   ns_outbox (snd (lowest_available now i s)) = ns_outbox s \<and> ns_device (snd (lowest_available now i s)) = ns_device s"
proof (induction now i s rule: lowest_available.induct)
  case (1 now i s)
  obtain c s' where c: "FindPendingIdClaim now i s = (c, s')" by fastforce
  show ?case
    using 1 c FindPendingIdClaim_fields [OF c] by (subst (1 2 3 4) lowest_available.simps) (auto split: option.split)
qed

lemma CompleteIdClaim_sound: "sound s (CompleteIdClaim s)"
proof -
  have "sound s (s\<lparr>ns_device := d, ns_claiming_device_id := i\<rparr>)" for d i by (rule claims_sound) simp_all
  then show ?thesis
    unfolding CompleteIdClaim_def
    using sound_trans [OF sound_trans [OF _ UpdateNetworkDevices_sound] with_status_sound] by blast
qed

lemma send_claim_attempt_sound: "sound s (snd (send_claim_attempt s))"
  by (rule sound_idle [where es = "[SendManagement (IdClaimRequest_ToCanFrame
       \<lparr>ic_claiming_device_id = ns_claiming_device_id s, ic_uid = dev_uid (ns_device s),
        ic_protocol_version = dev_protocol_version (ns_device s)\<rparr>)]"])
    (simp_all add: send_claim_attempt_def SendIdClaim_def)

lemma RunIdClaimAttempt_sound: "sound s (snd (RunIdClaimAttempt now s))"
proof -
  let ?idle = "s\<lparr>ns_claiming_device_id := DEVICE_ID_UNASSIGNED\<rparr>"
  have idle: "sound s ?idle" by (rule claims_sound) simp_all
  obtain r s1 where l: "GetLowestAvailableId now (ns_claiming_device_id s) s = (r, s1)" by fastforce
  have s1: "ns_network_devices s1 = ns_network_devices s" "ns_outbox s1 = ns_outbox s"
    "length (ns_pending_id_claims s1) = length (ns_pending_id_claims s)"
    using lowest_available_fields [of now "ns_claiming_device_id s + 1" s] l by (simp_all add: GetLowestAvailableId_def)
  have "sound s (s1\<lparr>ns_claiming_device_id := i\<rparr>)"
    "sound s (s1\<lparr>ns_claiming_device_id := i, ns_id_claim_attempt := n, ns_id_claim_result := x\<rparr>)" for i n x
    by (rule claims_sound; simp add: s1)+
  then have "sound s (run_in_session WorkEnterError (s1\<lparr>ns_claiming_device_id := i\<rparr>))"
    "sound s (snd (send_claim_attempt (s1\<lparr>ns_claiming_device_id := i, ns_id_claim_attempt := n, ns_id_claim_result := x\<rparr>)))" for i n x
    using sound_trans run_in_session_sound send_claim_attempt_sound by blast+
  then show ?thesis
    using idle l sound_trans [OF idle run_in_session_sound] CompleteIdClaim_sound [of s] send_claim_attempt_sound [of s]
    by (simp add: RunIdClaimAttempt_def Let_def split: sum.split)
qed

lemma ProcessPeriodicValidation_sound: "sound s (snd (ProcessPeriodicValidation now s))"
  using sound_trans [OF fold_RemoveDevice_sound UpdateNetworkDevices_sound]
  by (simp add: ProcessPeriodicValidation_def ProcessPeriodicTasks_def RemoveOfflineDevices_def Let_def)

section \<open>Runs of the service\<close>

text \<open>
  The calls that keep the table and its events together, and the lifecycle, which forgets the table
  without events. The device object is shared, and its other owners may change all of it.
\<close>

inductive network_call :: "CdmpNetworkService \<Rightarrow> CdmpNetworkService \<Rightarrow> bool" where
  management_frame: "network_call s (OnManagementFrame frame s)"
| session_work: "network_call s (run_session_work now session w s)"
| status_changed: "network_call s (Network_OnDeviceStatusChanged new_status s)"
| discovery_attempt: "network_call s (snd (RunDiscoveryAttempt s))"
| claim_attempt: "network_call s (snd (RunIdClaimAttempt now s))"
| validation: "network_call s (snd (ProcessPeriodicValidation now s))"
| heartbeat: "network_call s (snd (UpdateDeviceFromHeartbeat now hb s))"
| remove_device: "network_call s (RemoveDevice i s)"
| register: "network_call s (snd (RegisterDeviceEventHandler s))"
| unregister: "network_call s (UnregisterDeviceEventHandler h s)"
| register_heartbeat: "network_call s (snd (RegisterHeartbeatHandler s))"
| unregister_heartbeat: "network_call s (UnregisterHeartbeatHandler h s)"
| auto_discovery: "network_call s (SetAutoDiscovery b s)"
| canbus: "network_call s (s\<lparr>ns_canbus_valid := b\<rparr>)"
| running: "network_call s (s\<lparr>ns_is_running := b\<rparr>)"
| device: "network_call s (s\<lparr>ns_device := d\<rparr>)"

inductive network_step :: "CdmpNetworkService \<Rightarrow> CdmpNetworkService \<Rightarrow> bool" where
  call: "network_call s s' \<Longrightarrow> network_step s s'"
| initialize: "network_step s (NetworkService_DoInitialize s)"
| start: "network_step s (snd (NetworkService_DoStart i s))"
| stop: "network_step s (NetworkService_DoStop s)"
| clear: "network_step s (ClearAllDevices s)"
| deliver: "network_step s (s\<lparr>ns_outbox := []\<rparr>)"

abbreviation network_init :: "CdmpNetworkService \<Rightarrow> bool" where
  "network_init s \<equiv> \<exists>d. s = NetworkService_new d"

abbreviation network_reachable :: "CdmpNetworkService \<Rightarrow> bool" where
  "network_reachable \<equiv> reachable network_init network_step"

lemma Network_OnDeviceStatusChanged_sound: "sound s (Network_OnDeviceStatusChanged new_status s)"
proof -
  have "sound s ((out ScheduleValidation s)\<lparr>ns_is_validation_task_running := True\<rparr>)"
    by (rule sound_idle [where es = "[ScheduleValidation]"]) simp_all
  then show ?thesis
    by (simp add: Network_OnDeviceStatusChanged_def run_in_session_sound StartValidationTask_def out_sound)
qed

lemma network_call_sound:
  assumes "network_call s s'"
  shows "sound s s'"
proof -
  have idle: "sound s t" if "ns_network_devices t = ns_network_devices s" "ns_pending_id_claims t = ns_pending_id_claims s"
    "ns_outbox t = ns_outbox s" for t
    by (rule claims_sound) (simp_all add: that)
  from assms show ?thesis
    by cases (simp_all add: OnManagementFrame_def run_in_session_sound run_session_work_def do_work_sound
        Network_OnDeviceStatusChanged_sound RunDiscoveryAttempt_sound RunIdClaimAttempt_sound
        ProcessPeriodicValidation_sound UpdateDeviceFromHeartbeat_sound RemoveDevice_sound idle
        RegisterDeviceEventHandler_def UnregisterDeviceEventHandler_def RegisterHeartbeatHandler_def
        UnregisterHeartbeatHandler_def SetAutoDiscovery_def Let_def)
qed

lemma ClearAllDevices_wf: "network_wf s \<Longrightarrow> network_wf (ClearAllDevices s)"
  by (simp add: network_wf_def devices_wf_def ClearAllDevices_def)

lemma network_step_wf:
  assumes "network_step s s'" and "network_wf s"
  shows "network_wf s'"
  using assms(1)
proof cases
  case call
  then show ?thesis using network_call_sound assms(2) by (auto simp: sound_def)
next
  case (start i)
  have "network_wf (t\<lparr>ns_canbus_handler_id := j\<rparr>)" "network_wf (out e t)" "network_wf (t\<lparr>ns_is_validation_task_running := b\<rparr>)"
    if "network_wf t" for t j e b
    using that by (simp_all add: network_wf_def)
  then show ?thesis
    using start ClearAllDevices_wf [OF assms(2)]
    by (auto simp: NetworkService_DoStart_def Network_RegisterCanHandlers_def StartValidationTask_def Let_def)
next
  case stop
  then show ?thesis using assms(2)
    by (auto simp: NetworkService_DoStop_def Network_UnregisterCanHandlers_def network_wf_def devices_wf_def
        ClearAllDevices_def Let_def)
qed (use assms(2) in \<open>simp_all add: network_wf_def devices_wf_def NetworkService_DoInitialize_def ClearAllDevices_def\<close>)

interpretation network_runs: invariant_of network_init network_step network_wf
proof unfold_locales
  show "network_init s \<Longrightarrow> network_wf s" for s
    by (auto simp: NetworkService_new_def network_wf_def devices_wf_def)
qed (rule network_step_wf)

lemma network_devices_infos:
  assumes "network_wf s"
  shows "set (GetNetworkDevices n s) = (\<lambda>(_, d). ToDeviceInfo d) ` set (take n (ns_network_devices s))"
    and "map di_device_id (GetNetworkDevices n s) = sort (map fst (take n (ns_network_devices s)))"
proof -
  show "set (GetNetworkDevices n s) = (\<lambda>(_, d). ToDeviceInfo d) ` set (take n (ns_network_devices s))"
    by (simp add: GetNetworkDevices_def)
  have keys: "map di_device_id (map (\<lambda>(_, d). ToDeviceInfo d) (take n (ns_network_devices s))) = map fst (take n (ns_network_devices s))"
    using assms by (fastforce simp: network_wf_def devices_wf_def device_entry_ok_def ToDeviceInfo_def dest: in_set_takeD)
  have sort: "map di_device_id (sort_key di_device_id xs) = sort (map di_device_id xs)" for xs :: "CdmpDeviceInfo list"
    by (rule properties_for_sort [symmetric]) simp_all
  show "map di_device_id (GetNetworkDevices n s) = sort (map fst (take n (ns_network_devices s)))"
    unfolding GetNetworkDevices_def sort keys ..
qed

text \<open>The network service keeps the promises the shared-state service relies on.\<close>

interpretation network_directory: device_directory "\<lambda>s n. GetNetworkDevices n s" "\<lambda>s i. IsDeviceOnline i s" network_wf
proof unfold_locales
  fix d n p
  assume wf: "network_wf d"
  show "length (GetNetworkDevices n d) \<le> n" by (simp add: GetNetworkDevices_def)
  show "distinct (map di_device_id (GetNetworkDevices n d))"
    using wf by (simp add: network_devices_infos(2) network_wf_def devices_wf_def distinct_take flip: take_map)
  assume "p \<in> set (GetNetworkDevices n d)" "di_status p = ONLINE"
  then obtain i x where x: "(i, x) \<in> set (ns_network_devices d)" "p = ToDeviceInfo x"
    using network_devices_infos(1) [OF wf] by (auto dest: in_set_takeD)
  then have "table d i = Some x" "dev_device_id x = i" "dev_status x = ONLINE"
    using wf by (auto simp: table_def network_wf_def devices_wf_def device_entry_ok_def)
  then show "IsDeviceOnline (di_device_id p) d" using x by (simp add: IsDeviceOnline_def ToDeviceInfo_def)
qed

section \<open>Properties\<close>

definition demo_network :: CdmpNetworkService where
  "demo_network = NetworkService_new (demo_device 3)"

lemma demo_network_reachable: "network_reachable demo_network"
  by (rule reachable.start) (auto simp: demo_network_def)



text \<open>An ID is free when no device has it and no claim that is still valid holds it.\<close>

definition is_free :: "int \<Rightarrow> CdmpNetworkService \<Rightarrow> u8 \<Rightarrow> bool" where
  "is_free now s i \<longleftrightarrow> i \<notin> ids s \<and>
     (\<forall>c\<in>set (ns_pending_id_claims s). pc_device_id c = i \<longrightarrow> now - pc_claimed_at_ms c > HEARTBEAT_TIMEOUT_MS)"

lemma is_free_find:
  assumes "i \<noteq> DEVICE_ID_UNASSIGNED" and "table s i = None"
  shows "fst (FindPendingIdClaim now i s) = None \<longleftrightarrow> is_free now s i"
  using assms by (auto simp: FindPendingIdClaim_def Let_def find_index_None ExpirePendingIdClaims_def is_free_def
      table_None PendingIdClaim_new_def)

lemma is_free_expired [simp]: "i \<noteq> DEVICE_ID_UNASSIGNED \<Longrightarrow> is_free now (ExpirePendingIdClaims now s) i = is_free now s i"
  by (auto simp: is_free_def ExpirePendingIdClaims_def ids_def PendingIdClaim_new_def)

lemma lowest_available_spec:
  assumes "0 < i"
  shows "case fst (lowest_available now i s) of
     Inr k \<Rightarrow> i \<le> k \<and> k < DEVICE_ID_BROADCAST \<and> is_free now s k \<and> (\<forall>j. i \<le> j \<and> j < k \<longrightarrow> \<not> is_free now s j)
   | Inl e \<Rightarrow> e = RuntimeError \<and> (\<forall>j. i \<le> j \<and> j < DEVICE_ID_BROADCAST \<longrightarrow> \<not> is_free now s j)"
  using assms
proof (induction now i s rule: lowest_available.induct)
  case (1 now i s)
  have i: "i \<noteq> DEVICE_ID_UNASSIGNED" using 1(3) by (auto simp: DEVICE_ID_UNASSIGNED_def)
  obtain c s' where c: "FindPendingIdClaim now i s = (c, s')" by fastforce
  have s': "s' = ExpirePendingIdClaims now s" using c by (simp add: FindPendingIdClaim_def Let_def)
  show ?case
  proof (cases "i < DEVICE_ID_BROADCAST")
    case False
    then show ?thesis by (auto simp: lowest_available.simps [of now i s])
  next
    case True
    have lt: "unat i < 255" using True by (simp add: DEVICE_ID_BROADCAST_def word_less_nat_alt)
    then have Suc: "unat (i + 1) = Suc (unat i)" using unat_diff_Suc [of i 0] by simp
    have split: "i \<le> j \<longleftrightarrow> j = i \<or> i + 1 \<le> j" for j :: u8
      unfolding word_le_nat_alt u8_eq_iff_unat Suc by auto
    have pos: "0 < i + 1" unfolding word_less_nat_alt Suc by simp
    consider (here) "table s i = None" "c = None" | (claimed) k where "table s i = None" "c = Some k"
      | (known) d where "table s i = Some d" by (cases c; cases "table s i") auto
    then show ?thesis
    proof cases
      case here
      then have "is_free now s i" using is_free_find [OF i, of s now] c by simp
      then show ?thesis using True here c by (auto simp: lowest_available.simps [of now i s])
    next
      case claimed
      then have busy: "\<not> is_free now s i" using is_free_find [OF i, of s now] c by simp
      have nz: "j \<noteq> DEVICE_ID_UNASSIGNED" if "i + 1 \<le> j" for j
        using that pos by (auto simp: DEVICE_ID_UNASSIGNED_def)
      have same: "is_free now s' j = is_free now s j" if "i + 1 \<le> j" for j
        unfolding s' by (rule is_free_expired [OF nz [OF that]])
      show ?thesis
        using 1(1) [OF True claimed(1) c [symmetric] claimed(2) pos] True claimed c busy same
        unfolding split by (subst lowest_available.simps) (auto split: sum.splits)
    next
      case known
      then have busy: "\<not> is_free now s i" using table_None [of s i] by (auto simp: is_free_def)
      show ?thesis
        using 1(2) [OF True _ pos] True known busy unfolding split
        by (subst lowest_available.simps) (auto split: sum.splits)
    qed
  qed
qed

text \<open>
  The ID a unit claims is the lowest one above the given one that is neither in the table nor held
  by a claim that has not expired; the call throws just when there is none below the broadcast ID.
\<close>

theorem lowest_available_id:
  assumes "after < DEVICE_ID_BROADCAST"
  shows "case fst (GetLowestAvailableId now after s) of
     Inr k \<Rightarrow> after < k \<and> k < DEVICE_ID_BROADCAST \<and> is_free now s k \<and> (\<forall>j. after < j \<and> j < k \<longrightarrow> \<not> is_free now s j)
   | Inl e \<Rightarrow> e = RuntimeError \<and> (\<forall>j. after < j \<and> j < DEVICE_ID_BROADCAST \<longrightarrow> \<not> is_free now s j)"
proof -
  have lt: "unat after < 255" using assms by (simp add: DEVICE_ID_BROADCAST_def word_less_nat_alt)
  then have Suc: "unat (after + 1) = Suc (unat after)" using unat_diff_Suc [of after 0] by simp
  have le: "after + 1 \<le> j \<longleftrightarrow> after < j" for j unfolding word_le_nat_alt word_less_nat_alt Suc by auto
  have "0 < after + 1" unfolding word_less_nat_alt Suc by simp
  from lowest_available_spec [OF this, of now s, unfolded le] show ?thesis by (simp add: GetLowestAvailableId_def)
qed

theorem lowest_available_id_witness:
  "case fst (GetLowestAvailableId 0 0 demo_network) of
     Inr k \<Rightarrow> 0 < k \<and> is_free 0 demo_network k | Inl e \<Rightarrow> \<not> is_free 0 demo_network 1"
  using lowest_available_id [of 0 0 demo_network] by (auto simp: DEVICE_ID_BROADCAST_def split: sum.splits)

definition discovery_budget :: "CdmpNetworkService \<Rightarrow> nat" where
  "discovery_budget s = 3 * (DISCOVERY_MAX_BACKOFF_RESETS - ns_discovery_backoff_resets s) + (3 - ns_discovery_attempt s)"

definition discovery_ok :: "CdmpNetworkService \<Rightarrow> bool" where
  "discovery_ok s \<longleftrightarrow> ns_discovery_attempt s \<le> 3 \<and> ns_discovery_backoff_resets s \<le> DISCOVERY_MAX_BACKOFF_RESETS"

lemma SendDiscoveryRequest_fields [simp]:
  "ns_discovery_attempt (SendDiscoveryRequest s) = ns_discovery_attempt s"
  "ns_discovery_backoff_resets (SendDiscoveryRequest s) = ns_discovery_backoff_resets s"
  "ns_device (SendDiscoveryRequest s) = ns_device s"
  by (simp_all add: SendDiscoveryRequest_def out_def)

lemma with_status_device [simp]: "ns_device (with_status f s) = fst (f (ns_device s))"
  by (simp add: with_status_def split: prod.split)

text \<open>
  Discovery ends: an attempt in \<open>INIT\<close> either ends it, leaving the device in \<open>CLAIMING\<close>, or is
  repeated after one of the configured backoffs and uses up one of at most 33 requests, whatever
  responses and requests of lower UIDs arrive in between (they only set the two flags).
\<close>

theorem discovery_ends:
  assumes "dev_status (ns_device s) = INIT" and "discovery_ok s"
  shows "discovery_ok (StartInitialization s) \<and> discovery_budget (StartInitialization s) = 33 \<and>
    (case RunDiscoveryAttempt s of
       (None, s') \<Rightarrow> dev_status (ns_device s') = CLAIMING
     | (Some backoff, s') \<Rightarrow> backoff \<in> set RETRY_BACKOFFS_MS \<and> dev_status (ns_device s') = INIT \<and>
         discovery_ok s' \<and> discovery_budget s' < discovery_budget s)"
proof -
  have claim: "dev_status (fst (ClaimId (ns_device s))) = CLAIMING"
    using assms(1) by (simp add: ClaimId_def dev_SetStatus_status)
  have init: "discovery_ok (StartInitialization s) \<and> discovery_budget (StartInitialization s) = 33"
    by (simp add: StartInitialization_def discovery_ok_def discovery_budget_def Let_def out_def DISCOVERY_MAX_BACKOFF_RESETS_def)
  have "RETRY_BACKOFFS_MS ! k \<in> set RETRY_BACKOFFS_MS" if "k < 3" for k
    using that by (auto simp: RETRY_BACKOFFS_MS_def nth_Cons')
  then show ?thesis
    using assms claim init
    by (auto simp: RunDiscoveryAttempt_def Let_def discovery_ok_def discovery_budget_def RETRY_BACKOFFS_MS_def
        DISCOVERY_MAX_BACKOFF_RESETS_def split: if_splits)
qed

definition demo_unit :: "CdmpDeviceStatus \<Rightarrow> CdmpNetworkService" where
  "demo_unit st = demo_network\<lparr>ns_canbus_valid := True,
     ns_device := (demo_device 0)\<lparr>dev_status_machine := CdmpStatusMachine_new st\<rparr>\<rparr>"

lemma demo_unit_fields [simp]:
  "dev_status (ns_device (demo_unit st)) = st" "ns_canbus_valid (demo_unit st)"
  "ns_discovery_attempt (demo_unit st) = 0" "ns_discovery_backoff_resets (demo_unit st) = 0"
  "ns_claiming_device_id (demo_unit st) = 0" "ns_id_claim_attempt (demo_unit st) = 0"
  "ns_id_claim_result (demo_unit st) = None" "ns_network_devices (demo_unit st) = []"
  "ns_pending_id_claims (demo_unit st) = replicate PENDING_ID_CLAIMS_MAX PendingIdClaim_new"
  "dev_uid (ns_device (demo_unit st)) = 7" "ns_outbox (demo_unit st) = []"
  by (simp_all add: demo_unit_def demo_network_def NetworkService_new_def CdmpStatusMachine_new_def demo_device_def
      DEVICE_ID_UNASSIGNED_def)

theorem discovery_ends_witness:
  "case RunDiscoveryAttempt (demo_unit INIT) of (None, s') \<Rightarrow> False | (Some backoff, s') \<Rightarrow> discovery_budget s' < 33"
proof -
  have "discovery_ok (demo_unit INIT)" "discovery_budget (demo_unit INIT) = 33"
    by (simp_all add: discovery_ok_def discovery_budget_def DISCOVERY_MAX_BACKOFF_RESETS_def)
  moreover have "fst (RunDiscoveryAttempt (demo_unit INIT)) = Some 100"
    by (simp add: RunDiscoveryAttempt_def RETRY_BACKOFFS_MS_def)
  ultimately show ?thesis
    using discovery_ends [of "demo_unit INIT"] by (auto split: prod.splits option.splits)
qed

definition claim_budget :: "CdmpNetworkService \<Rightarrow> nat" where
  "claim_budget s = 11 * (255 - unat (ns_claiming_device_id s)) + (ID_CLAIM_MAX_ATTEMPTS - ns_id_claim_attempt s)"

lemma send_claim_attempt_fields [simp]:
  "fst (send_claim_attempt s) = Some ID_CLAIM_RESPONSE_TIMEOUT_MS"
  "ns_claiming_device_id (snd (send_claim_attempt s)) = ns_claiming_device_id s"
  "ns_id_claim_attempt (snd (send_claim_attempt s)) = Suc (ns_id_claim_attempt s)"
  "ns_device (snd (send_claim_attempt s)) = ns_device s"
  "ns_canbus_valid (snd (send_claim_attempt s)) = ns_canbus_valid s"
  "ns_id_claim_result (snd (send_claim_attempt s)) = ns_id_claim_result s"
  by (simp_all add: send_claim_attempt_def SendIdClaim_def out_def)

text \<open>
  The ID claim ends: an attempt that asks to be run again waits the response timeout and has used
  up one of at most ten attempts for the ID or moved on to a higher ID, so a claim takes fewer than
  \<open>11 * 255 + 11\<close> attempts however often it is rejected.
\<close>

theorem claim_ends:
  assumes "ns_id_claim_attempt s \<le> ID_CLAIM_MAX_ATTEMPTS" and "ns_claiming_device_id s < DEVICE_ID_BROADCAST"
    and "RunIdClaimAttempt now s = (Some delay, s')"
  shows "delay = ID_CLAIM_RESPONSE_TIMEOUT_MS \<and> claim_budget s' < claim_budget s \<and>
     ns_id_claim_attempt s' \<le> ID_CLAIM_MAX_ATTEMPTS \<and> ns_claiming_device_id s' < DEVICE_ID_BROADCAST \<and>
     claim_budget s < 11 * 255 + 11"
proof (cases "ns_claiming_device_id s = DEVICE_ID_UNASSIGNED \<or> ns_id_claim_result s = Some CLAIM_REJECT")
  case True
  obtain r s1 where l: "GetLowestAvailableId now (ns_claiming_device_id s) s = (r, s1)" by fastforce
  have run: "(case r of Inl _ \<Rightarrow> (None, run_in_session WorkEnterError (s1\<lparr>ns_claiming_device_id := DEVICE_ID_UNASSIGNED\<rparr>))
      | Inr i \<Rightarrow> send_claim_attempt (s1\<lparr>ns_claiming_device_id := i, ns_id_claim_attempt := 0, ns_id_claim_result := None\<rparr>)) = (Some delay, s')"
    using assms(3) True l by (auto simp: RunIdClaimAttempt_def Let_def split: if_splits)
  then obtain i where i: "r = Inr i"
    "send_claim_attempt (s1\<lparr>ns_claiming_device_id := i, ns_id_claim_attempt := 0, ns_id_claim_result := None\<rparr>) = (Some delay, s')"
    by (auto split: sum.splits)
  have above: "ns_claiming_device_id s < i" "i < DEVICE_ID_BROADCAST"
    using lowest_available_id [OF assms(2), of now s] l i(1) by auto
  have "delay = ID_CLAIM_RESPONSE_TIMEOUT_MS" "ns_claiming_device_id s' = i" "ns_id_claim_attempt s' = 1"
    using i(2) send_claim_attempt_fields [of "s1\<lparr>ns_claiming_device_id := i, ns_id_claim_attempt := 0, ns_id_claim_result := None\<rparr>"]
    by auto
  moreover have "unat (ns_claiming_device_id s) < unat i" "unat i < 255"
    using above by (simp_all add: word_less_nat_alt DEVICE_ID_BROADCAST_def)
  ultimately show ?thesis
    using above(2) by (auto simp: claim_budget_def ID_CLAIM_MAX_ATTEMPTS_def)
next
  case False
  then have "send_claim_attempt s = (Some delay, s')" "ns_id_claim_attempt s \<noteq> ID_CLAIM_MAX_ATTEMPTS"
    using assms(3) by (auto simp: RunIdClaimAttempt_def Let_def split: if_splits)
  then show ?thesis
    using send_claim_attempt_fields [of s] assms(1,2) by (auto simp: claim_budget_def ID_CLAIM_MAX_ATTEMPTS_def)
qed

lemma demo_unit_lowest: "fst (GetLowestAvailableId now 0 (demo_unit st)) = Inr 1"
  by (simp add: GetLowestAvailableId_def lowest_available.simps table_def FindPendingIdClaim_def ExpirePendingIdClaims_def
      find_index_None PendingIdClaim_new_def DEVICE_ID_UNASSIGNED_def DEVICE_ID_BROADCAST_def Let_def
      find_index_def takeWhile_replicate)

theorem claim_ends_witness:
  "\<exists>s'. RunIdClaimAttempt 0 (demo_unit CLAIMING) = (Some 50, s') \<and> claim_budget s' < claim_budget (demo_unit CLAIMING)"
proof -
  obtain s1 where l: "GetLowestAvailableId 0 0 (demo_unit CLAIMING) = (Inr 1, s1)"
    using demo_unit_lowest [of 0 CLAIMING] by (metis prod.collapse)
  then have run: "RunIdClaimAttempt 0 (demo_unit CLAIMING) = (Some 50, snd (RunIdClaimAttempt 0 (demo_unit CLAIMING)))"
    by (simp add: RunIdClaimAttempt_def Let_def DEVICE_ID_UNASSIGNED_def send_claim_attempt_def ID_CLAIM_RESPONSE_TIMEOUT_MS_def)
  show ?thesis
    using claim_ends [OF _ _ run] run by (auto simp: ID_CLAIM_MAX_ATTEMPTS_def DEVICE_ID_BROADCAST_def)
qed

text \<open>Attempts at given times with nothing received in between.\<close>

definition claim_attempts :: "int list \<Rightarrow> CdmpNetworkService \<Rightarrow> CdmpNetworkService" where
  "claim_attempts ts s = fold (\<lambda>now s. snd (RunIdClaimAttempt now s)) ts s"

definition claiming :: "u8 \<Rightarrow> nat \<Rightarrow> CdmpNetworkService \<Rightarrow> bool" where
  "claiming i k s \<longleftrightarrow> dev_status (ns_device s) = CLAIMING \<and> ns_canbus_valid s \<and> ns_claiming_device_id s = i \<and>
     ns_id_claim_attempt s = k \<and> ns_id_claim_result s = None"

lemma claim_repeats:
  assumes "claiming i k s" and "i \<noteq> DEVICE_ID_UNASSIGNED" and "k + length ts = ID_CLAIM_MAX_ATTEMPTS"
  shows "claiming i ID_CLAIM_MAX_ATTEMPTS (claim_attempts ts s)"
  using assms
proof (induction ts arbitrary: k s)
  case (Cons t ts)
  have "RunIdClaimAttempt t s = send_claim_attempt s"
    using Cons.prems by (auto simp: RunIdClaimAttempt_def Let_def claiming_def)
  then have "claiming i (Suc k) (snd (RunIdClaimAttempt t s))" using Cons.prems(1) by (simp add: claiming_def)
  then show ?case using Cons by (simp add: claim_attempts_def)
qed (simp add: claim_attempts_def claiming_def)

lemma lowest_available_claim_state:
  "dev_status (ns_device (snd (lowest_available now i s))) = dev_status (ns_device s) \<and>
   ns_canbus_valid (snd (lowest_available now i s)) = ns_canbus_valid s"
proof (induction now i s rule: lowest_available.induct)
  case (1 now i s)
  obtain c s' where c: "FindPendingIdClaim now i s = (c, s')" by fastforce
  moreover have "ns_canbus_valid s' = ns_canbus_valid s" "ns_device s' = ns_device s"
    using c by (auto simp: FindPendingIdClaim_def ExpirePendingIdClaims_def Let_def)
  ultimately show ?case using 1 by (subst (1 2) lowest_available.simps) (auto split: option.split)
qed



text \<open>The results of the responses to a unit's own claim among received frames.\<close>

definition claim_results_for :: "u8 \<Rightarrow> bytes list \<Rightarrow> u8 list" where
  "claim_results_for i fs = concat (map (\<lambda>f. case IdClaimResponse_FromCanFrame f of
     Inl _ \<Rightarrow> [] | Inr r \<Rightarrow> if cr_claiming_device_id r = i then [cr_result r] else []) fs)"

text \<open>
  Whatever the order of the answers to a claim, an objection outweighs an acceptance: the attempt
  is accepted just when there are answers and all of them accept; otherwise it ends with the last
  objection, and without answers it stays open.
\<close>

theorem objection_outweighs:
  assumes "dev_status (ns_device s) = CLAIMING" and "ns_id_claim_result s = None"
  shows "ns_id_claim_result (fold ProcessIdClaimResponseFrame fs s) =
     (let rs = claim_results_for (ns_claiming_device_id s) fs; objections = filter (\<lambda>r. r \<noteq> CLAIM_ACCEPT) rs
      in if rs = [] then None else if objections = [] then Some CLAIM_ACCEPT else Some (last objections))"
proof -
  have "ns_id_claim_result (fold ProcessIdClaimResponseFrame fs t) =
     (let rs = claim_results_for (ns_claiming_device_id t) fs; objections = filter (\<lambda>r. r \<noteq> CLAIM_ACCEPT) rs
      in if objections \<noteq> [] then Some (last objections)
         else if rs = [] then ns_id_claim_result t
         else if ns_id_claim_result t = None then Some CLAIM_ACCEPT else ns_id_claim_result t)"
    if "dev_status (ns_device t) = CLAIMING" for t
    using that
  proof (induction fs arbitrary: t)
    case Nil
    then show ?case by (simp add: claim_results_for_def)
  next
    case (Cons f fs)
    let ?t = "ProcessIdClaimResponseFrame f t"
    have t: "dev_status (ns_device ?t) = CLAIMING" "ns_claiming_device_id ?t = ns_claiming_device_id t"
      using Cons.prems by (auto simp: ProcessIdClaimResponseFrame_def split: sum.split)
    show ?case
    proof (cases "IdClaimResponse_FromCanFrame f")
      case (Inl e)
      then have "?t = t" "claim_results_for i (f # fs) = claim_results_for i fs" for i
        by (simp_all add: claim_results_for_def ProcessIdClaimResponseFrame_def)
      then show ?thesis using Cons.IH [OF Cons.prems] by simp
    next
      case (Inr r)
      let ?own = "cr_claiming_device_id r = ns_claiming_device_id t"
      have cons: "claim_results_for (ns_claiming_device_id t) (f # fs) =
          (if ?own then [cr_result r] else []) @ claim_results_for (ns_claiming_device_id t) fs"
        using Inr by (simp add: claim_results_for_def)
      have res: "ns_id_claim_result ?t = (if ?own \<and> (cr_result r \<noteq> CLAIM_ACCEPT \<or> ns_id_claim_result t = None)
          then Some (cr_result r) else ns_id_claim_result t)"
        using Inr Cons.prems by (simp add: ProcessIdClaimResponseFrame_def)
      show ?thesis
        using Cons.IH [OF t(1)] unfolding t(2) cons res fold_Cons comp_apply Let_def
        by (cases ?own; cases "cr_result r = CLAIM_ACCEPT"; simp split: if_splits)
    qed
  qed
  from this [OF assms(1)] assms(2) show ?thesis by (simp add: Let_def)
qed

theorem objection_outweighs_witness:
  "ns_id_claim_result (fold ProcessIdClaimResponseFrame [[2, 9, 0, 1], [2, 3, 0, 0]] (demo_unit CLAIMING)) = Some CLAIM_REJECT"
  using objection_outweighs [of "demo_unit CLAIMING" "[[2, 9, 0, 1], [2, 3, 0, 0]]"]
  by (simp add: claim_results_for_def IdClaimResponse_FromCanFrame_def message_types claim_results)

lemma lowest_id_le: "lowest_id s \<le> dev_device_id (ns_device s) \<and> (\<forall>i\<in>ids s. lowest_id s \<le> i)"
proof -
  have "fold (\<lambda>i m. if i < m then min m i else m) xs a \<le> a \<and> (\<forall>i\<in>set xs. fold (\<lambda>i m. if i < m then min m i else m) xs a \<le> i)"
    for xs :: "u8 list" and a
  proof (induction xs arbitrary: a)
    case (Cons x xs)
    have "min a x \<le> a" "min a x \<le> x" "(if x < a then min a x else a) = min a x" by auto
    then show ?case using Cons.IH [of "min a x"] by (auto intro: order_trans)
  qed simp
  from this [of "GetAllDeviceIds s" "dev_device_id (ns_device s)"] show ?thesis
    by (simp add: lowest_id_def GetAllDeviceIds_def ids_def)
qed



definition timed_out :: "int \<Rightarrow> CdmpNetworkService \<Rightarrow> u8 set" where
  "timed_out now s = {i. \<exists>d. table s i = Some d \<and> GetLastHeartbeatDeltaMs now d > HEARTBEAT_TIMEOUT_MS}"

lemma RemoveDevice_table:
  "table (RemoveDevice i s) j = None \<longleftrightarrow> j = i \<or> table s j = None"
  "table (RemoveDevice i s) j = Some d' \<Longrightarrow> \<exists>d. table s j = Some d \<and> dev_uid d' = dev_uid d \<and> dev_last_heartbeat d' = dev_last_heartbeat d"
proof -
  have eq: "map_of (filter (\<lambda>(k, _). k \<noteq> i) ds) j = (if j = i then None else map_of ds j)" for ds :: "(u8 \<times> CdmpDevice) list"
    by (induction ds) auto
  show "table (RemoveDevice i s) j = None \<longleftrightarrow> j = i \<or> table s j = None"
    using eq UpdateNetworkDevices_table [of "s\<lparr>ns_network_devices := filter (\<lambda>(k, _). k \<noteq> i) (ns_network_devices s)\<rparr>" j]
    by (auto simp: RemoveDevice_def notify_device_event_def table_def split: option.split)
  show "table (RemoveDevice i s) j = Some d' \<Longrightarrow> \<exists>d. table s j = Some d \<and> dev_uid d' = dev_uid d \<and> dev_last_heartbeat d' = dev_last_heartbeat d"
    using eq UpdateNetworkDevices_table [of "s\<lparr>ns_network_devices := filter (\<lambda>(k, _). k \<noteq> i) (ns_network_devices s)\<rparr>" j]
    by (auto simp: RemoveDevice_def notify_device_event_def table_def split: option.splits if_splits)
qed

lemma fold_RemoveDevice_table:
  "(table (fold RemoveDevice is s) j = None \<longleftrightarrow> j \<in> set is \<or> table s j = None) \<and>
   (\<forall>d'. table (fold RemoveDevice is s) j = Some d' \<longrightarrow>
      (\<exists>d. table s j = Some d \<and> dev_uid d' = dev_uid d \<and> dev_last_heartbeat d' = dev_last_heartbeat d))"
proof (induction "is" arbitrary: s)
  case (Cons i "is")
  show ?case using Cons.IH [of "RemoveDevice i s"] RemoveDevice_table [of i s j] by fastforce
qed simp

text \<open>
  The validation drops exactly the devices whose last heartbeat is more than the timeout ago, and
  keeps the others with their identity and heartbeat time.
\<close>

theorem validation_drops_timed_out:
  assumes "network_reachable s"
  shows "ids (ProcessPeriodicTasks now s) = ids s - timed_out now s \<and>
     (\<forall>i d'. table (ProcessPeriodicTasks now s) i = Some d' \<longrightarrow>
        (\<exists>d. table s i = Some d \<and> dev_uid d' = dev_uid d \<and> dev_last_heartbeat d' = dev_last_heartbeat d))"
proof -
  let ?late = "map fst (filter (\<lambda>(_, d). GetLastHeartbeatDeltaMs now d > HEARTBEAT_TIMEOUT_MS) (ns_network_devices s))"
  have "distinct (map fst (ns_network_devices s))"
    using network_runs.reachable_inv [OF assms] by (simp add: network_wf_def devices_wf_def)
  then have late: "set ?late = timed_out now s"
    by (auto simp: timed_out_def table_def image_iff)
  have "i \<in> ids (ProcessPeriodicTasks now s) \<longleftrightarrow> i \<in> ids s - timed_out now s" for i
    using fold_RemoveDevice_table [of ?late s i, unfolded late table_None]
    unfolding ProcessPeriodicTasks_def RemoveOfflineDevices_def UpdateNetworkDevices_ids by blast
  moreover have "\<exists>d. table s i = Some d \<and> dev_uid d' = dev_uid d \<and> dev_last_heartbeat d' = dev_last_heartbeat d"
    if "table (ProcessPeriodicTasks now s) i = Some d'" for i d'
    using that fold_RemoveDevice_table [of ?late s i]
    by (auto simp: ProcessPeriodicTasks_def RemoveOfflineDevices_def UpdateNetworkDevices_table)
  ultimately show ?thesis by blast
qed

theorem validation_drops_timed_out_witness:
  "ids (ProcessPeriodicTasks 9001 demo_network) = ids demo_network - timed_out 9001 demo_network"
  using validation_drops_timed_out [OF demo_network_reachable] by blast

end
