(* ===== verification/Service_Base.thy ===== *)
theory Service_Base
  imports Rt_Prelude
begin

text \<open>
  The life cycle of a service, \<open>src/subsys/threading/service_base.h\<close>. A service implements the work
  of each transition; \<open>ServiceBase\<close> owns the state. The work of a transition acts on the whole
  service, since it may drive transitions of its own (the transition mutex is recursive), and it
  either returns a flag or throws. Two threads never run transitions at once, so a transition is one
  function call.
\<close>

section \<open>Model\<close>

datatype ServiceState = STOPPED | STARTING | RUNNING | PAUSED | STOPPING

record 's ServiceBase =
  sb_state :: ServiceState
  sb_work :: 's

type_synonym 's do_work = "'s ServiceBase \<Rightarrow> bool result \<times> 's ServiceBase"

definition ServiceBase_new :: "'s \<Rightarrow> 's ServiceBase" where
  "ServiceBase_new s = \<lparr>sb_state = STOPPED, sb_work = s\<rparr>"

definition Service_Initialize :: "'s do_work \<Rightarrow> 's do_work" where
  "Service_Initialize do_initialize sb =
     (if sb_state sb \<noteq> STOPPED then (Inr False, sb) else do_initialize sb)"

definition Service_Start :: "'s do_work \<Rightarrow> 's do_work" where
  "Service_Start do_start sb =
     (let previous = sb_state sb
      in if previous = RUNNING then (Inr True, sb)
         else if previous = STARTING then (Inr False, sb)
         else (case do_start (sb\<lparr>sb_state := STARTING\<rparr>) of
                 (Inl e, sb') \<Rightarrow> (Inl e, sb'\<lparr>sb_state := previous\<rparr>)
               | (Inr is_started, sb') \<Rightarrow>
                   if \<not> is_started then (Inr False, sb'\<lparr>sb_state := previous\<rparr>)
                   else (Inr True, sb'\<lparr>sb_state := RUNNING\<rparr>)))"

definition Service_Stop :: "'s do_work \<Rightarrow> 's do_work" where
  "Service_Stop do_stop sb =
     (let previous = sb_state sb
      in if previous = STOPPED then (Inr True, sb)
         else if previous = STOPPING then (Inr False, sb)
         else (case do_stop (sb\<lparr>sb_state := STOPPING\<rparr>) of
                 (Inl e, sb') \<Rightarrow> (Inl e, sb'\<lparr>sb_state := previous\<rparr>)
               | (Inr is_stopped, sb') \<Rightarrow>
                   if \<not> is_stopped then (Inr False, sb'\<lparr>sb_state := previous\<rparr>)
                   else (Inr True, sb'\<lparr>sb_state := STOPPED\<rparr>)))"

definition Service_Pause :: "bool \<Rightarrow> 's do_work \<Rightarrow> 's do_work" where
  "Service_Pause is_pausable do_pause sb =
     (if \<not> is_pausable \<or> sb_state sb \<noteq> RUNNING then (Inr False, sb)
      else (case do_pause sb of
              (Inl e, sb') \<Rightarrow> (Inl e, sb')
            | (Inr is_paused, sb') \<Rightarrow>
                if \<not> is_paused then (Inr False, sb') else (Inr True, sb'\<lparr>sb_state := PAUSED\<rparr>)))"

definition Service_Resume :: "bool \<Rightarrow> 's do_work \<Rightarrow> 's do_work" where
  "Service_Resume is_pausable do_resume sb =
     (if \<not> is_pausable \<or> sb_state sb \<noteq> PAUSED then (Inr False, sb)
      else (case do_resume sb of
              (Inl e, sb') \<Rightarrow> (Inl e, sb')
            | (Inr is_resumed, sb') \<Rightarrow>
                if \<not> is_resumed then (Inr False, sb') else (Inr True, sb'\<lparr>sb_state := RUNNING\<rparr>)))"

lemmas service_defs = Service_Initialize_def Service_Start_def Service_Stop_def Service_Pause_def
  Service_Resume_def

text \<open>Work that only touches the service's own data, and may throw.\<close>

definition own_work :: "('s \<Rightarrow> cxx_error option \<times> 's) \<Rightarrow> 's do_work" where
  "own_work f sb = (case f (sb_work sb) of
     (None, s) \<Rightarrow> (Inr True, sb\<lparr>sb_work := s\<rparr>)
   | (Some e, s) \<Rightarrow> (Inl e, sb\<lparr>sb_work := s\<rparr>))"

text \<open>The default \<open>DoPause\<close> and \<open>DoResume\<close>.\<close>

definition refuse_work :: "'s do_work" where
  "refuse_work sb = (Inr False, sb)"

definition transitional :: "ServiceState \<Rightarrow> bool" where
  "transitional st \<longleftrightarrow> st = STARTING \<or> st = STOPPING"

section \<open>Outcomes\<close>

lemma Service_Start_outcome:
  "sb_state (snd (Service_Start f sb)) = (if fst (Service_Start f sb) = Inr True then RUNNING else sb_state sb)"
  by (auto simp: Service_Start_def Let_def split: if_splits prod.splits sum.splits)

lemma Service_Stop_outcome:
  "sb_state (snd (Service_Stop f sb)) = (if fst (Service_Stop f sb) = Inr True then STOPPED else sb_state sb)"
  by (auto simp: Service_Stop_def Let_def split: if_splits prod.splits sum.splits)

text \<open>
  Whatever a service's work does, itself driving transitions included, a start that returns true
  leaves the service running and a stop that returns true leaves it stopped; a start or stop that
  returns false or throws leaves the state it found, so a call never ends in a transitional state it
  did not start in.
\<close>

theorem transitions_settle:
  "(case Service_Start do_start sb of (r, sb') \<Rightarrow>
      sb_state sb' = (if r = Inr True then RUNNING else sb_state sb)) \<and>
   (case Service_Stop do_stop sb of (r, sb') \<Rightarrow>
      sb_state sb' = (if r = Inr True then STOPPED else sb_state sb))"
  using Service_Start_outcome [of do_start sb] Service_Stop_outcome [of do_stop sb] by (auto split: prod.split)

section \<open>The contract of a service\<close>

text \<open>
  What a service promises: its work keeps an invariant of its data, whether it returns or throws, and
  initialisation and pausing leave the service state to \<open>ServiceBase\<close>. In return every run of calls
  keeps the invariant and leaves the service stopped, running or, when it can be paused, paused.
\<close>

locale service_work =
  fixes do_initialize do_start do_stop do_pause do_resume :: "'s do_work"
    and is_pausable :: bool
    and inv :: "'s \<Rightarrow> bool"
  assumes initialize_keeps: "inv (sb_work sb) \<Longrightarrow>
      inv (sb_work (snd (do_initialize sb))) \<and> sb_state (snd (do_initialize sb)) = sb_state sb"
    and start_keeps: "inv (sb_work sb) \<Longrightarrow> inv (sb_work (snd (do_start sb)))"
    and stop_keeps: "inv (sb_work sb) \<Longrightarrow> inv (sb_work (snd (do_stop sb)))"
    and pause_keeps: "inv (sb_work sb) \<Longrightarrow>
      inv (sb_work (snd (do_pause sb))) \<and> sb_state (snd (do_pause sb)) = sb_state sb"
    and resume_keeps: "inv (sb_work sb) \<Longrightarrow>
      inv (sb_work (snd (do_resume sb))) \<and> sb_state (snd (do_resume sb)) = sb_state sb"
begin

definition settled :: "'s ServiceBase \<Rightarrow> bool" where
  "settled sb \<longleftrightarrow> inv (sb_work sb) \<and> \<not> transitional (sb_state sb) \<and> (sb_state sb = PAUSED \<longrightarrow> is_pausable)"

definition lifecycle_calls :: "'s do_work set" where
  "lifecycle_calls = {Service_Initialize do_initialize, Service_Start do_start, Service_Stop do_stop,
     Service_Pause is_pausable do_pause, Service_Resume is_pausable do_resume}"

lemma settled_new: "inv s \<Longrightarrow> settled (ServiceBase_new s)"
  by (simp add: settled_def ServiceBase_new_def transitional_def)

lemma start_inv: "inv (sb_work sb) \<Longrightarrow> inv (sb_work (snd (Service_Start do_start sb)))"
  using start_keeps [of "sb\<lparr>sb_state := STARTING\<rparr>"]
  by (auto simp: Service_Start_def Let_def split: prod.split sum.split)

lemma stop_inv: "inv (sb_work sb) \<Longrightarrow> inv (sb_work (snd (Service_Stop do_stop sb)))"
  using stop_keeps [of "sb\<lparr>sb_state := STOPPING\<rparr>"]
  by (auto simp: Service_Stop_def Let_def split: prod.split sum.split)

lemma settled_start: "settled sb \<Longrightarrow> settled (snd (Service_Start do_start sb))"
  using start_inv [of sb] Service_Start_outcome [of do_start sb]
  by (auto simp: settled_def transitional_def)

lemma settled_stop: "settled sb \<Longrightarrow> settled (snd (Service_Stop do_stop sb))"
  using stop_inv [of sb] Service_Stop_outcome [of do_stop sb]
  by (auto simp: settled_def transitional_def)

lemma settled_others: "settled sb \<Longrightarrow>
   settled (snd (Service_Initialize do_initialize sb)) \<and> settled (snd (Service_Pause is_pausable do_pause sb)) \<and>
   settled (snd (Service_Resume is_pausable do_resume sb))"
  using initialize_keeps [of sb] pause_keeps [of sb] resume_keeps [of sb]
  by (auto simp: service_defs settled_def transitional_def split: prod.split sum.split)

theorem settled_call: "settled sb \<Longrightarrow> c \<in> lifecycle_calls \<Longrightarrow> settled (snd (c sb))"
  using settled_start settled_stop settled_others by (auto simp: lifecycle_calls_def)

theorem settled_run: "inv s \<Longrightarrow> set cs \<subseteq> lifecycle_calls \<Longrightarrow>
   settled (fold (\<lambda>c sb. snd (c sb)) cs (ServiceBase_new s))"
proof (induction cs rule: rev_induct)
  case Nil then show ?case by (simp add: settled_new)
next
  case (snoc c cs)
  then show ?case using settled_call by simp
qed

end

section \<open>Services whose work touches only their own data\<close>

lemma own_work_keeps:
  assumes "\<And>s. P s \<Longrightarrow> P (snd (f s))" and "P (sb_work sb)"
  shows "P (sb_work (snd (own_work f sb))) \<and> sb_state (snd (own_work f sb)) = sb_state sb"
  using assms(1) [OF assms(2)] by (auto simp: own_work_def split: prod.split option.split)

locale plain_service =
  fixes initialize start stop :: "'s \<Rightarrow> cxx_error option \<times> 's"
    and inv :: "'s \<Rightarrow> bool"
  assumes initialize_inv: "inv s \<Longrightarrow> inv (snd (initialize s))"
    and start_inv: "inv s \<Longrightarrow> inv (snd (start s))"
    and stop_inv: "inv s \<Longrightarrow> inv (snd (stop s))"

sublocale plain_service \<subseteq> lifecycle: service_work "own_work initialize" "own_work start" "own_work stop"
  refuse_work refuse_work False inv
  by unfold_locales
    (simp_all add: refuse_work_def own_work_keeps [of inv] initialize_inv start_inv stop_inv)

end
