(* ===== verification/Canbus_Bus.thy ===== *)
theory Canbus_Bus
  imports Canbus_Ids Service_Base "HOL-Library.AList"
begin

text \<open>
  The CAN bus, \<open>src/subsys/canbus/canbus.h/.cpp\<close>: the registry of frame handlers behind shared hardware
  filters, the dispatch of received frames and the sending of frames. Zephyr's CAN driver is not in the
  repository; what it answers is the record \<open>can_driver\<close>, an argument of the operations that call it, and
  what it was told is kept in the \<open>hw\<close> fields and the outbox. A frame handler is a number; what a
  handler does to the bus is an argument of the dispatch. Bus operations hold the bus's lock and are
  therefore atomic.
\<close>

section \<open>Data\<close>

record CanFrame =
  frame_id :: u32
  frame_is_extended :: bool
  frame_is_transmit :: bool
  frame_is_can_fd :: bool
  frame_is_bitrate_switch :: bool
  frame_is_remote_request :: bool
  frame_data :: bytes

text \<open>Zephyr's \<open>can_frame\<close>, its flags one by one.\<close>

record raw_frame =
  rf_id :: u32
  rf_dlc :: u8
  rf_fdf :: bool
  rf_brs :: bool
  rf_ide :: bool
  rf_rtr :: bool
  rf_data :: bytes

datatype CanbusType = NO_CAN | CLASSICAL_CAN | CANFD

record CanbusConfig =
  cc_canbus_dev :: nat
  cc_type :: CanbusType
  cc_bitrate :: u32
  cc_data_bitrate :: u32
  cc_extra_modes :: u32

record FilterEntry =
  fe_filter :: CanFilter
  fe_filter_id :: int
  fe_handlers :: "(int \<times> nat) list"

text \<open>A filter the controller has: its device, number and condition.\<close>

type_synonym hw_filter = "nat \<times> int \<times> CanFilter"

datatype bus_effect =
    HwSetMode u32
  | HwStart u32 u32
  | HwStop
  | HwSend raw_frame
  | CalledHandler int CanFrame
  | CalledBitrateDetected u32
  | ThreadStarted
  | ThreadJoined

record Canbus =
  cb_config :: CanbusConfig
  cb_exact_entries :: "(u32 \<times> FilterEntry) list"
  cb_mask_entries :: "FilterEntry option list"
  cb_next_handler_id :: int
  cb_is_initialized :: bool
  cb_bitrate_detected :: bool
  cb_auto_detect_running :: bool
  cb_frame_msgq :: "raw_frame list"
  cb_rx_dropped :: u32
  cb_has_bitrate_detected_fn :: bool
  cb_state_change_callback_dev :: "nat option"
  cb_hw_filters :: "hw_filter list"
  cb_hw_mode :: u32
  cb_outbox :: "bus_effect list"

text \<open>The driver's answers. \<open>cd_mode_fd\<close> and \<open>cd_mode_listenonly\<close> are its mode flags, the last two its error numbers.\<close>

record can_driver =
  cd_is_ready :: "nat \<Rightarrow> bool"
  cd_capabilities :: "u32 option"
  cd_mode_fd :: u32
  cd_mode_listenonly :: u32
  cd_set_mode :: "u32 \<Rightarrow> bool"
  cd_set_bitrate :: "u32 \<Rightarrow> bool"
  cd_set_bitrate_data :: "u32 \<Rightarrow> bool"
  cd_start :: "u32 \<Rightarrow> u32 \<Rightarrow> bool"
  cd_stop :: bool
  cd_add_rx_filter :: "hw_filter list \<Rightarrow> nat \<Rightarrow> CanFilter \<Rightarrow> int"
  cd_frames_seen :: "u32 \<Rightarrow> nat"
  cd_error_free :: "u32 \<Rightarrow> bool"
  cd_add_state_change_callback :: "nat \<Rightarrow> bool"
  cd_bytes_to_dlc :: "nat \<Rightarrow> u8"
  cd_dlc_to_bytes :: "u8 \<Rightarrow> nat"
  cd_max_dlen :: nat
  cd_send :: "raw_frame \<Rightarrow> int"
  cd_ENETDOWN :: int
  cd_EINVAL :: int

definition ERR_NOT_INITIALIZED :: int where "ERR_NOT_INITIALIZED = -1"
definition ERR_FILTER_REJECTED :: int where "ERR_FILTER_REJECTED = -2"
definition ERR_TOO_MANY_HANDLERS :: int where "ERR_TOO_MANY_HANDLERS = -3"
definition ERR_INVALID_ARGUMENT :: int where "ERR_INVALID_ARGUMENT = -4"
definition ERR_FILTER_OVERLAP :: int where "ERR_FILTER_OVERLAP = -5"
definition ERR_TOO_MANY_FILTERS :: int where "ERR_TOO_MANY_FILTERS = -6"

definition MAX_HANDLERS_PER_FILTER :: nat where "MAX_HANDLERS_PER_FILTER = 8"
definition MAX_MASK_FILTERS :: nat where "MAX_MASK_FILTERS = 4"

lemmas bus_errors = ERR_NOT_INITIALIZED_def ERR_FILTER_REJECTED_def ERR_TOO_MANY_HANDLERS_def ERR_INVALID_ARGUMENT_def
  ERR_FILTER_OVERLAP_def ERR_TOO_MANY_FILTERS_def

definition cb_put :: "bus_effect \<Rightarrow> Canbus \<Rightarrow> Canbus" where
  "cb_put e s = s\<lparr>cb_outbox := cb_outbox s @ [e]\<rparr>"

text \<open>The constructor; a CAN FD bus without a data bitrate uses the nominal one.\<close>

definition with_data_bitrate :: "CanbusConfig \<Rightarrow> CanbusConfig" where
  "with_data_bitrate c = (if cc_type c = CANFD \<and> cc_data_bitrate c = 0 then c\<lparr>cc_data_bitrate := cc_bitrate c\<rparr> else c)"

definition Canbus_new :: "CanbusConfig \<Rightarrow> Canbus" where
  "Canbus_new config = \<lparr>cb_config = with_data_bitrate config, cb_exact_entries = [],
     cb_mask_entries = replicate MAX_MASK_FILTERS None, cb_next_handler_id = 1, cb_is_initialized = False,
     cb_bitrate_detected = False, cb_auto_detect_running = False, cb_frame_msgq = [], cb_rx_dropped = 0,
     cb_has_bitrate_detected_fn = False, cb_state_change_callback_dev = None, cb_hw_filters = [],
     cb_hw_mode = 0, cb_outbox = []\<rparr>"

section \<open>Filter entries\<close>

text \<open>Where an entry is: under the key of its identifier, or in a slot of the mask filters.\<close>

datatype entry_ref = ExactEntry u32 | MaskEntry nat

primrec entry_at :: "entry_ref \<Rightarrow> Canbus \<Rightarrow> FilterEntry option" where
  "entry_at (ExactEntry k) s = map_of (cb_exact_entries s) k"
| "entry_at (MaskEntry i) s = (if i < length (cb_mask_entries s) then cb_mask_entries s ! i else None)"

primrec set_entry :: "entry_ref \<Rightarrow> FilterEntry \<Rightarrow> Canbus \<Rightarrow> Canbus" where
  "set_entry (ExactEntry k) e s = s\<lparr>cb_exact_entries := AList.update k e (cb_exact_entries s)\<rparr>"
| "set_entry (MaskEntry i) e s = s\<lparr>cb_mask_entries := (cb_mask_entries s)[i := Some e]\<rparr>"

definition filter_key :: "CanFilter \<Rightarrow> u32" where
  "filter_key f = Key \<lparr>can_id = cf_id f, is_extended = cf_is_extended f\<rparr>"

definition has_filter :: "CanFilter \<Rightarrow> FilterEntry option \<Rightarrow> bool" where
  "has_filter f e \<longleftrightarrow> (case e of None \<Rightarrow> False | Some x \<Rightarrow> fe_filter x = f)"

definition FindEntry :: "CanFilter \<Rightarrow> Canbus \<Rightarrow> entry_ref option" where
  "FindEntry f s =
     (if IsExact f then (if map_of (cb_exact_entries s) (filter_key f) \<noteq> None then Some (ExactEntry (filter_key f)) else None)
      else map_option MaskEntry (find_index (has_filter f) (cb_mask_entries s)))"

definition has_handler :: "int \<Rightarrow> FilterEntry option \<Rightarrow> bool" where
  "has_handler h e \<longleftrightarrow> (case e of None \<Rightarrow> False | Some x \<Rightarrow> h \<in> fst ` set (fe_handlers x))"

definition FindEntryByHandler :: "int \<Rightarrow> Canbus \<Rightarrow> entry_ref option" where
  "FindEntryByHandler h s =
     (case find (\<lambda>(_, e). has_handler h (Some e)) (cb_exact_entries s) of
        Some (k, _) \<Rightarrow> Some (ExactEntry k)
      | None \<Rightarrow> map_option MaskEntry (find_index (has_handler h) (cb_mask_entries s)))"

definition has_match :: "CanId \<Rightarrow> FilterEntry option \<Rightarrow> bool" where
  "has_match c e \<longleftrightarrow> (case e of None \<Rightarrow> False | Some x \<Rightarrow> Matches (fe_filter x) c)"

definition FindMatchingEntry :: "CanId \<Rightarrow> Canbus \<Rightarrow> entry_ref option" where
  "FindMatchingEntry c s =
     (if map_of (cb_exact_entries s) (Key c) \<noteq> None then Some (ExactEntry (Key c))
      else map_option MaskEntry (find_index (has_match c) (cb_mask_entries s)))"

definition FilterEntry_new :: "CanFilter \<Rightarrow> FilterEntry" where
  "FilterEntry_new f = \<lparr>fe_filter = f, fe_filter_id = -1, fe_handlers = []\<rparr>"

definition CreateEntry :: "CanFilter \<Rightarrow> Canbus \<Rightarrow> (entry_ref \<times> Canbus) option" where
  "CreateEntry f s =
     (if IsExact f
      then Some (ExactEntry (filter_key f),
             if map_of (cb_exact_entries s) (filter_key f) = None then set_entry (ExactEntry (filter_key f)) (FilterEntry_new f) s else s)
      else map_option (\<lambda>i. (MaskEntry i, set_entry (MaskEntry i) (FilterEntry_new f) s))
             (find_index (\<lambda>e. e = None) (cb_mask_entries s)))"

definition EraseEntry :: "CanFilter \<Rightarrow> Canbus \<Rightarrow> Canbus" where
  "EraseEntry f s =
     (if IsExact f then s\<lparr>cb_exact_entries := AList.delete (filter_key f) (cb_exact_entries s)\<rparr>
      else s\<lparr>cb_mask_entries := map (\<lambda>e. if has_filter f e then None else e) (cb_mask_entries s)\<rparr>)"

definition overlaps_entry :: "CanFilter \<Rightarrow> FilterEntry option \<Rightarrow> bool" where
  "overlaps_entry f e \<longleftrightarrow> (case e of None \<Rightarrow> False | Some x \<Rightarrow> Overlaps (fe_filter x) f)"

definition HasOverlap :: "CanFilter \<Rightarrow> Canbus \<Rightarrow> bool" where
  "HasOverlap f s \<longleftrightarrow> list_ex (\<lambda>(_, e). overlaps_entry f (Some e)) (cb_exact_entries s) \<or>
     list_ex (overlaps_entry f) (cb_mask_entries s)"

section \<open>Hardware filters\<close>

definition InstallFilter :: "can_driver \<Rightarrow> entry_ref \<Rightarrow> Canbus \<Rightarrow> bool \<times> Canbus" where
  "InstallFilter drv r s =
     (case entry_at r s of
        None \<Rightarrow> (False, s)
      | Some e \<Rightarrow>
          if fe_filter_id e \<ge> 0 then (True, s)
          else let dev = cc_canbus_dev (cb_config s);
                   i = cd_add_rx_filter drv (cb_hw_filters s) dev (fe_filter e)
               in if i < 0 then (False, s)
                  else (True, (set_entry r (e\<lparr>fe_filter_id := i\<rparr>) s)\<lparr>cb_hw_filters := (dev, i, fe_filter e) # cb_hw_filters s\<rparr>))"

definition remove_hw_filter :: "nat \<Rightarrow> int \<Rightarrow> hw_filter list \<Rightarrow> hw_filter list" where
  "remove_hw_filter dev i fs = filter (\<lambda>(d, j, _). \<not> (d = dev \<and> j = i)) fs"

definition UninstallFilter :: "entry_ref \<Rightarrow> Canbus \<Rightarrow> Canbus" where
  "UninstallFilter r s =
     (case entry_at r s of
        None \<Rightarrow> s
      | Some e \<Rightarrow>
          if fe_filter_id e < 0 then s
          else (set_entry r (e\<lparr>fe_filter_id := -1\<rparr>) s)
                 \<lparr>cb_hw_filters := remove_hw_filter (cc_canbus_dev (cb_config s)) (fe_filter_id e) (cb_hw_filters s)\<rparr>)"

text \<open>All entries, the exact ones first; an unused mask slot has none.\<close>

definition entry_refs :: "Canbus \<Rightarrow> entry_ref list" where
  "entry_refs s = map (ExactEntry \<circ> fst) (cb_exact_entries s) @ map MaskEntry [0..<length (cb_mask_entries s)]"

definition InstallDeferredFilters :: "can_driver \<Rightarrow> Canbus \<Rightarrow> Canbus" where
  "InstallDeferredFilters drv s = fold (\<lambda>r u. snd (InstallFilter drv r u)) (entry_refs s) s"

definition RemoveAllFilters :: "Canbus \<Rightarrow> Canbus" where
  "RemoveAllFilters s = fold UninstallFilter (entry_refs s) s"

definition ClearEntries :: "Canbus \<Rightarrow> Canbus" where
  "ClearEntries s = s\<lparr>cb_exact_entries := [], cb_mask_entries := map (\<lambda>_. None) (cb_mask_entries s)\<rparr>"

section \<open>Handlers\<close>

definition update_handlers :: "((int \<times> nat) list \<Rightarrow> (int \<times> nat) list) \<Rightarrow> entry_ref \<Rightarrow> Canbus \<Rightarrow> Canbus" where
  "update_handlers f r s =
     (case entry_at r s of None \<Rightarrow> s | Some e \<Rightarrow> set_entry r (e\<lparr>fe_handlers := f (fe_handlers e)\<rparr>) s)"

definition handlers_at :: "entry_ref \<Rightarrow> Canbus \<Rightarrow> (int \<times> nat) list" where
  "handlers_at r s = (case entry_at r s of None \<Rightarrow> [] | Some e \<Rightarrow> fe_handlers e)"

text \<open>The entry for a filter, found or created.\<close>

definition find_or_create :: "CanFilter \<Rightarrow> Canbus \<Rightarrow> int + entry_ref \<times> Canbus" where
  "find_or_create f s =
     (case FindEntry f s of
        Some r \<Rightarrow> Inr (r, s)
      | None \<Rightarrow>
          if HasOverlap f s then Inl ERR_FILTER_OVERLAP
          else (case CreateEntry f s of None \<Rightarrow> Inl ERR_TOO_MANY_FILTERS | Some rs \<Rightarrow> Inr rs))"

text \<open>\<open>handler = None\<close> is an empty handler.\<close>

definition RegisterFrameReceivedHandler :: "can_driver \<Rightarrow> CanFilter \<Rightarrow> nat option \<Rightarrow> Canbus \<Rightarrow> int \<times> Canbus" where
  "RegisterFrameReceivedHandler drv requested handler s =
     (if \<not> cb_is_initialized s then (ERR_NOT_INITIALIZED, s)
      else case handler of
        None \<Rightarrow> (ERR_INVALID_ARGUMENT, s)
      | Some h \<Rightarrow>
          if \<not> CanFilter_IsValid requested then (ERR_INVALID_ARGUMENT, s)
          else let f = Normalized requested
               in case find_or_create f s of
                    Inl e \<Rightarrow> (e, s)
                  | Inr (r, s1) \<Rightarrow>
                      if length (handlers_at r s1) \<ge> MAX_HANDLERS_PER_FILTER then (ERR_TOO_MANY_HANDLERS, s1)
                      else let handler_id = cb_next_handler_id s1;
                               s2 = update_handlers (\<lambda>hs. hs @ [(handler_id, h)]) r (s1\<lparr>cb_next_handler_id := handler_id + 1\<rparr>)
                           in if cb_auto_detect_running s2 \<and> \<not> cb_bitrate_detected s2 then (handler_id, s2)
                              else (case InstallFilter drv r s2 of
                                      (True, s3) \<Rightarrow> (handler_id, s3)
                                    | (False, s3) \<Rightarrow>
                                        let s4 = update_handlers (filter (\<lambda>(i, _). i \<noteq> handler_id)) r s3
                                        in (ERR_FILTER_REJECTED, if handlers_at r s4 = [] then EraseEntry f s4 else s4)))"

definition RemoveFrameReceivedHandler :: "int \<Rightarrow> Canbus \<Rightarrow> bool \<times> Canbus" where
  "RemoveFrameReceivedHandler handler_id s =
     (if \<not> cb_is_initialized s then (False, s)
      else case FindEntryByHandler handler_id s of
        None \<Rightarrow> (False, s)
      | Some r \<Rightarrow>
          let s1 = update_handlers (filter (\<lambda>(i, _). i \<noteq> handler_id)) r s
          in if handlers_at r s1 \<noteq> [] then (True, s1)
             else (case entry_at r s1 of
                     None \<Rightarrow> (True, s1)
                   | Some e \<Rightarrow> (True, EraseEntry (fe_filter e) (UninstallFilter r s1))))"

section \<open>Frames\<close>

definition CAN_FRAME_MAX_DATA_LENGTH :: nat where "CAN_FRAME_MAX_DATA_LENGTH = 64"

definition Assign :: "bytes \<Rightarrow> bytes" where
  "Assign d = take CAN_FRAME_MAX_DATA_LENGTH d"

definition GetMaxDataLength :: "CanbusType \<Rightarrow> nat" where
  "GetMaxDataLength t = (if t = CANFD then CAN_FRAME_MAX_DATA_LENGTH else 8)"

definition raw_of :: "can_driver \<Rightarrow> CanbusType \<Rightarrow> CanId \<Rightarrow> bytes \<Rightarrow> raw_frame" where
  "raw_of drv t i d = \<lparr>rf_id = can_id i, rf_dlc = cd_bytes_to_dlc drv (length d), rf_fdf = (t = CANFD), rf_brs = (t = CANFD),
     rf_ide = is_extended i, rf_rtr = False, rf_data = d @ replicate (cd_max_dlen drv - length d) 0\<rparr>"

definition SendFrame :: "can_driver \<Rightarrow> ServiceState \<Rightarrow> CanId \<Rightarrow> bytes \<Rightarrow> Canbus \<Rightarrow> int \<times> Canbus" where
  "SendFrame drv state i d s =
     (if \<not> cb_is_initialized s \<or> \<not> cb_bitrate_detected s \<or> state \<noteq> RUNNING then (- cd_ENETDOWN drv, s)
      else if \<not> CanId_IsValid i then (- cd_EINVAL drv, s)
      else let t = cc_type (cb_config s)
           in if length d > min (GetMaxDataLength t) (cd_max_dlen drv) then (- cd_EINVAL drv, s)
              else let raw = raw_of drv t i d; res = cd_send drv raw
                   in if res \<noteq> 0 then (res, s) else (0, cb_put (HwSend raw) s))"

definition CanFrameReceivedCallback :: "nat \<Rightarrow> raw_frame \<Rightarrow> Canbus \<Rightarrow> Canbus" where
  "CanFrameReceivedCallback queue_size frame s =
     (if length (cb_frame_msgq s) \<ge> queue_size then s\<lparr>cb_rx_dropped := cb_rx_dropped s + 1\<rparr>
      else s\<lparr>cb_frame_msgq := cb_frame_msgq s @ [frame]\<rparr>)"

text \<open>\<open>run handler frame\<close> is what a handler does to the bus; a call is noted first.\<close>

fun dispatch_to :: "(nat \<Rightarrow> CanFrame \<Rightarrow> Canbus \<Rightarrow> Canbus) \<Rightarrow> CanId \<Rightarrow> CanFrame \<Rightarrow> int list \<Rightarrow> Canbus \<Rightarrow> Canbus" where
  "dispatch_to run c frame [] s = s"
| "dispatch_to run c frame (h # hs) s =
     (case FindMatchingEntry c s of
        None \<Rightarrow> s
      | Some r \<Rightarrow>
          (case map_of (handlers_at r s) h of
             None \<Rightarrow> dispatch_to run c frame hs s
           | Some handler \<Rightarrow> dispatch_to run c frame hs (run handler frame (cb_put (CalledHandler h frame) s))))"

definition DispatchFrame :: "(nat \<Rightarrow> CanFrame \<Rightarrow> Canbus \<Rightarrow> Canbus) \<Rightarrow> CanFrame \<Rightarrow> Canbus \<Rightarrow> Canbus" where
  "DispatchFrame run frame s =
     (let c = \<lparr>can_id = frame_id frame, is_extended = frame_is_extended frame\<rparr>
      in case FindMatchingEntry c s of
           None \<Rightarrow> s
         | Some r \<Rightarrow> dispatch_to run c frame (take MAX_HANDLERS_PER_FILTER (map fst (handlers_at r s))) s)"

definition frame_of_raw :: "can_driver \<Rightarrow> raw_frame \<Rightarrow> CanFrame" where
  "frame_of_raw drv raw =
     (let size = (if rf_rtr raw then 0
                  else min (min (cd_dlc_to_bytes drv (rf_dlc raw)) (if rf_fdf raw then cd_max_dlen drv else 8)) (length (rf_data raw)))
      in \<lparr>frame_id = rf_id raw, frame_is_extended = rf_ide raw, frame_is_transmit = False, frame_is_can_fd = rf_fdf raw,
          frame_is_bitrate_switch = rf_brs raw, frame_is_remote_request = rf_rtr raw, frame_data = Assign (take size (rf_data raw))\<rparr>)"

definition ProcessFramesTask :: "can_driver \<Rightarrow> (nat \<Rightarrow> CanFrame \<Rightarrow> Canbus \<Rightarrow> Canbus) \<Rightarrow> Canbus \<Rightarrow> Canbus" where
  "ProcessFramesTask drv run s =
     (case cb_frame_msgq s of
        [] \<Rightarrow> s
      | raw # rest \<Rightarrow> DispatchFrame run (frame_of_raw drv raw) (s\<lparr>cb_frame_msgq := rest\<rparr>))"

section \<open>Entries as a map\<close>

lemma set_entry_fields [simp]:
  "cb_config (set_entry r e s) = cb_config s" "cb_next_handler_id (set_entry r e s) = cb_next_handler_id s"
  "cb_is_initialized (set_entry r e s) = cb_is_initialized s" "cb_bitrate_detected (set_entry r e s) = cb_bitrate_detected s"
  "cb_auto_detect_running (set_entry r e s) = cb_auto_detect_running s" "cb_hw_filters (set_entry r e s) = cb_hw_filters s"
  "cb_outbox (set_entry r e s) = cb_outbox s"
  by (cases r; simp)+

definition tables_ok :: "Canbus \<Rightarrow> bool" where
  "tables_ok s \<longleftrightarrow> distinct (map fst (cb_exact_entries s)) \<and> length (cb_mask_entries s) = MAX_MASK_FILTERS"

lemma entry_set_entry:
  assumes "entry_at r s \<noteq> None"
  shows "entry_at x (set_entry r e s) = (if x = r then Some e else entry_at x s)"
  using assms by (cases r; cases x) (auto simp: update_conv' nth_list_update split: if_splits)

lemma tables_ok_set_entry [simp]: "tables_ok s \<Longrightarrow> tables_ok (set_entry r e s)"
  by (cases r) (simp_all add: tables_ok_def distinct_update)

lemma exact_entry_iff:
  "distinct (map fst (cb_exact_entries s)) \<Longrightarrow> (k, e) \<in> set (cb_exact_entries s) \<longleftrightarrow> entry_at (ExactEntry k) s = Some e"
  by (simp add: map_of_eq_Some_iff)

lemma mask_entry_iff:
  "Some e \<in> set (cb_mask_entries s) \<longleftrightarrow> (\<exists>i. entry_at (MaskEntry i) s = Some e)"
  by (auto simp: in_set_conv_nth)

lemma entry_ref_all: "(\<forall>r. P r) \<longleftrightarrow> (\<forall>k. P (ExactEntry k)) \<and> (\<forall>i. P (MaskEntry i))"
  by (metis entry_ref.exhaust)

lemma HasOverlap_iff:
  assumes "tables_ok s"
  shows "HasOverlap f s \<longleftrightarrow> (\<exists>r e. entry_at r s = Some e \<and> Overlaps (fe_filter e) f)"
proof -
  have d: "distinct (map fst (cb_exact_entries s))" using assms by (simp add: tables_ok_def)
  have "list_ex (\<lambda>(_, e). overlaps_entry f (Some e)) (cb_exact_entries s) \<longleftrightarrow>
      (\<exists>k e. entry_at (ExactEntry k) s = Some e \<and> Overlaps (fe_filter e) f)"
    unfolding exact_entry_iff [OF d, symmetric] by (auto simp: list_ex_iff overlaps_entry_def)
  moreover have "list_ex (overlaps_entry f) (cb_mask_entries s) \<longleftrightarrow>
      (\<exists>e. Some e \<in> set (cb_mask_entries s) \<and> Overlaps (fe_filter e) f)"
    by (fastforce simp: list_ex_iff overlaps_entry_def split: option.splits)
  moreover have "(\<exists>r e. entry_at r s = Some e \<and> Overlaps (fe_filter e) f) \<longleftrightarrow>
      (\<exists>k e. entry_at (ExactEntry k) s = Some e \<and> Overlaps (fe_filter e) f) \<or>
      (\<exists>i e. entry_at (MaskEntry i) s = Some e \<and> Overlaps (fe_filter e) f)"
    by (metis entry_ref.exhaust)
  ultimately show ?thesis unfolding HasOverlap_def mask_entry_iff by blast
qed

text \<open>Each entry is where its filter belongs.\<close>

primrec belongs :: "entry_ref \<Rightarrow> CanFilter \<Rightarrow> bool" where
  "belongs (ExactEntry k) f \<longleftrightarrow> IsExact f \<and> k = filter_key f"
| "belongs (MaskEntry i) f \<longleftrightarrow> \<not> IsExact f"

definition placed :: "Canbus \<Rightarrow> bool" where
  "placed s \<longleftrightarrow> tables_ok s \<and> (\<forall>r e. entry_at r s = Some e \<longrightarrow>
     CanFilter_IsValid (fe_filter e) \<and> Normalized (fe_filter e) = fe_filter e \<and>
     belongs r (fe_filter e))"

lemma width_mask_top: "\<not> bit (WidthMask x) 31"
  by (simp add: WidthMask_def CAN_EXT_ID_MASK_def CAN_STD_ID_MASK_def bit_numeral_simps)

lemma Key_inject:
  assumes "can_id c AND NOT (WidthMask (is_extended c)) = 0" and "can_id d AND NOT (WidthMask (is_extended d)) = 0" and "Key c = Key d"
  shows "c = d"
proof -
  have top: "\<not> bit (can_id x) 31" if "can_id x AND NOT (WidthMask (is_extended x)) = 0" for x
  proof
    assume "bit (can_id x) 31"
    then have "bit (can_id x AND NOT (WidthMask (is_extended x))) 31" using width_mask_top by (simp add: bit_and_iff bit_not_iff)
    then show False using that by simp
  qed
  have flag: "bit (if b then 0x80000000 else 0 :: u32) n \<longleftrightarrow> b \<and> n = 31" for b n
  proof -
    have e: "(0x80000000 :: u32) = push_bit 31 1" by simp
    have "bit (0x80000000 :: u32) n \<longleftrightarrow> n = 31" unfolding e bit_push_bit_iff bit_1_iff by auto
    then show ?thesis by simp
  qed
  have bits: "bit (Key c) n = bit (Key d) n" for n using assms(3) by simp
  have ext: "is_extended c = is_extended d"
    using bits [of 31] top [OF assms(1)] top [OF assms(2)] unfolding Key_def bit_or_iff flag by simp
  have "can_id c = can_id d"
  proof (rule bit_word_eqI)
    fix n
    show "bit (can_id c) n = bit (can_id d) n"
      using bits [of n] top [OF assms(1)] top [OF assms(2)] ext unfolding Key_def bit_or_iff flag by (cases "n = 31") auto
  qed
  with ext show ?thesis by simp
qed

lemma filter_key_inject:
  assumes "CanFilter_IsValid f" and "CanFilter_IsValid g" and "IsExact f" and "IsExact g" and "filter_key f = filter_key g"
  shows "f = g"
proof -
  let ?c = "\<lparr>can_id = cf_id f, is_extended = cf_is_extended f\<rparr>" and ?d = "\<lparr>can_id = cf_id g, is_extended = cf_is_extended g\<rparr>"
  have "?c = ?d" by (rule Key_inject) (use assms in \<open>simp_all add: CanFilter_IsValid_def filter_key_def\<close>)
  then show ?thesis using assms(3,4) by (simp add: IsExact_def)
qed

lemma Normalized_valid: "CanFilter_IsValid f \<Longrightarrow> CanFilter_IsValid (Normalized f)" "Normalized (Normalized f) = Normalized f"
proof -
  have "(cf_id f AND cf_mask f) AND NOT (WidthMask (cf_is_extended f)) = (cf_id f AND NOT (WidthMask (cf_is_extended f))) AND cf_mask f"
    by (simp add: ac_simps)
  then show "CanFilter_IsValid f \<Longrightarrow> CanFilter_IsValid (Normalized f)"
    unfolding CanFilter_IsValid_def by (simp add: Normalized_def)
  show "Normalized (Normalized f) = Normalized f" by (simp add: Normalized_def and.assoc)
qed

lemma Normalized_matches: "Matches (Normalized f) c \<longleftrightarrow> Matches f c"
proof -
  have "(i XOR (a AND m)) AND m = (i XOR a) AND m" for i a m :: u32
    by (rule bit_word_eqI) (auto simp: bit_simps)
  then show ?thesis by (simp add: Matches_def Normalized_def)
qed

lemma FindEntry_Some:
  assumes "FindEntry f s = Some r" and "placed s" and "CanFilter_IsValid f"
  shows "\<exists>e. entry_at r s = Some e \<and> fe_filter e = f"
proof (cases "IsExact f")
  case True
  then obtain e where e: "r = ExactEntry (filter_key f)" "entry_at r s = Some e"
    using assms(1) by (auto simp: FindEntry_def split: if_splits)
  have "CanFilter_IsValid (fe_filter e)" "IsExact (fe_filter e)" "filter_key f = filter_key (fe_filter e)"
    using assms(2) e unfolding placed_def by fastforce+
  then show ?thesis using filter_key_inject [OF assms(3) _ True] e(2) by blast
next
  case False
  then obtain i where i: "r = MaskEntry i" "find_index (has_filter f) (cb_mask_entries s) = Some i"
    using assms(1) by (auto simp: FindEntry_def)
  show ?thesis using find_index_Some [OF i(2)] i(1) by (auto simp: has_filter_def split: option.splits)
qed

lemma FindEntry_None:
  assumes "FindEntry f s = None" and "placed s" and "entry_at r s = Some e"
  shows "fe_filter e \<noteq> f"
proof
  assume f: "fe_filter e = f"
  show False
  proof (cases r)
    case (ExactEntry k)
    then have "IsExact f" "k = filter_key f" using assms(2,3) f unfolding placed_def by fastforce+
    then show False using assms(1,3) ExactEntry by (simp add: FindEntry_def)
  next
    case (MaskEntry i)
    then have x: "\<not> IsExact f" using assms(2,3) f unfolding placed_def by fastforce
    have "Some e \<in> set (cb_mask_entries s)" using assms(3) MaskEntry mask_entry_iff by blast
    then show False using assms(1) x f by (auto simp: FindEntry_def find_index_None has_filter_def)
  qed
qed

section \<open>What holds of the registry\<close>

definition handler_ids :: "FilterEntry \<Rightarrow> int set" where
  "handler_ids e = fst ` set (fe_handlers e)"

definition entry_ok :: "int \<Rightarrow> FilterEntry \<Rightarrow> bool" where
  "entry_ok n e \<longleftrightarrow> distinct (map fst (fe_handlers e)) \<and> length (fe_handlers e) \<le> MAX_HANDLERS_PER_FILTER \<and>
     (\<forall>h\<in>handler_ids e. 0 < h \<and> h < n)"

text \<open>No two entries accept a common identifier or have a common handler.\<close>

definition apart :: "Canbus \<Rightarrow> bool" where
  "apart s \<longleftrightarrow> (\<forall>r r' e e'. r \<noteq> r' \<longrightarrow> entry_at r s = Some e \<longrightarrow> entry_at r' s = Some e' \<longrightarrow>
     \<not> Overlaps (fe_filter e) (fe_filter e') \<and> handler_ids e \<inter> handler_ids e' = {})"

definition registry_wf :: "Canbus \<Rightarrow> bool" where
  "registry_wf s \<longleftrightarrow> placed s \<and> 0 < cb_next_handler_id s \<and> apart s \<and>
     (\<forall>r e. entry_at r s = Some e \<longrightarrow> entry_ok (cb_next_handler_id s) e)"

text \<open>The controller has exactly the filters of the entries that are installed.\<close>

definition hw_installed :: "Canbus \<Rightarrow> int \<Rightarrow> CanFilter \<Rightarrow> bool" where
  "hw_installed s i f \<longleftrightarrow> (\<exists>r e. entry_at r s = Some e \<and> fe_filter_id e = i \<and> fe_filter e = f)"

definition hw_wf :: "Canbus \<Rightarrow> bool" where
  "hw_wf s \<longleftrightarrow> distinct (map (\<lambda>(d, i, _). (d, i)) (cb_hw_filters s)) \<and>
     (\<forall>d i f. (d, i, f) \<in> set (cb_hw_filters s) \<longleftrightarrow> d = cc_canbus_dev (cb_config s) \<and> 0 \<le> i \<and> hw_installed s i f)"

definition no_empty :: "Canbus \<Rightarrow> bool" where
  "no_empty s \<longleftrightarrow> (\<forall>r e. entry_at r s = Some e \<longrightarrow> fe_handlers e \<noteq> [])"

definition bus_wf :: "Canbus \<Rightarrow> bool" where
  "bus_wf s \<longleftrightarrow> registry_wf s \<and> hw_wf s \<and> no_empty s"

text \<open>The abstract registry: the registered handlers with their filters.\<close>

definition registrations :: "Canbus \<Rightarrow> (int \<times> CanFilter) set" where
  "registrations s = {(h, f). \<exists>r e. entry_at r s = Some e \<and> h \<in> handler_ids e \<and> fe_filter e = f}"

lemma Overlaps_sym: "Overlaps f g \<longleftrightarrow> Overlaps g f"
  by (auto simp: Overlaps_def xor.commute and.commute and.left_commute)

lemma Overlaps_refl: "Overlaps f f"
  by (simp add: Overlaps_def)

lemma apartD:
  "apart s \<Longrightarrow> entry_at r s = Some e \<Longrightarrow> entry_at r' s = Some e' \<Longrightarrow> Overlaps (fe_filter e) (fe_filter e') \<Longrightarrow> r = r'"
  "apart s \<Longrightarrow> entry_at r s = Some e \<Longrightarrow> entry_at r' s = Some e' \<Longrightarrow> h \<in> handler_ids e \<Longrightarrow> h \<in> handler_ids e' \<Longrightarrow> r = r'"
  unfolding apart_def by blast+

lemma placedD:
  assumes "placed s" and "entry_at r s = Some e"
  shows "CanFilter_IsValid (fe_filter e)" "Normalized (fe_filter e) = fe_filter e"
    "belongs r (fe_filter e)"
  using assms unfolding placed_def by blast+

text \<open>An entry keeps its filter and may get handlers with new numbers.\<close>

lemma registry_update:
  assumes wf: "registry_wf s" and r: "entry_at r s = Some e" and same: "fe_filter e' = fe_filter e"
    and new: "\<And>x. entry_at x s' = (if x = r then Some e' else entry_at x s)" and t: "tables_ok s'"
    and n: "cb_next_handler_id s \<le> cb_next_handler_id s'" and ok: "entry_ok (cb_next_handler_id s') e'"
    and ids: "\<And>h. h \<in> handler_ids e' \<Longrightarrow> h \<in> handler_ids e \<or> cb_next_handler_id s \<le> h"
  shows "registry_wf s'"
proof -
  have old: "placed s" "0 < cb_next_handler_id s" "apart s" "\<And>x y. entry_at x s = Some y \<Longrightarrow> entry_ok (cb_next_handler_id s) y"
    using wf by (auto simp: registry_wf_def)
  have "placed s'"
    unfolding placed_def
  proof (intro conjI allI impI t)
    fix x y
    assume "entry_at x s' = Some y"
    then obtain z where "entry_at x s = Some z" "fe_filter y = fe_filter z"
      using new r same by (cases "x = r") auto
    from placedD [OF old(1) this(1)] this(2)
    show "CanFilter_IsValid (fe_filter y)" "Normalized (fe_filter y) = fe_filter y"
      "belongs x (fe_filter y)"
      by simp_all
  qed
  moreover have "apart s'"
  proof -
    have *: "\<not> Overlaps (fe_filter e') (fe_filter y) \<and> handler_ids e' \<inter> handler_ids y = {}"
      if "x \<noteq> r" "entry_at x s = Some y" for x y
    proof -
      have lt: "h < cb_next_handler_id s" if "h \<in> handler_ids y" for h
        using old(4) [OF \<open>entry_at x s = Some y\<close>] that by (simp add: entry_ok_def)
      have "h \<notin> handler_ids y" if "h \<in> handler_ids e'" for h
        using ids [OF that] lt [of h] apartD(2) [OF old(3) r \<open>entry_at x s = Some y\<close>, of h] \<open>x \<noteq> r\<close> by fastforce
      moreover have "\<not> Overlaps (fe_filter e') (fe_filter y)"
        using apartD(1) [OF old(3) r \<open>entry_at x s = Some y\<close>] \<open>x \<noteq> r\<close> same by auto
      ultimately show ?thesis by blast
    qed
    have **: "\<not> Overlaps (fe_filter y) (fe_filter e') \<and> handler_ids y \<inter> handler_ids e' = {}"
      if "x \<noteq> r" "entry_at x s = Some y" for x y using * [OF that] Overlaps_sym [of "fe_filter y"] by blast
    show ?thesis
      unfolding apart_def
    proof (intro allI impI)
      fix a b x y
      assume "a \<noteq> b" "entry_at a s' = Some x" "entry_at b s' = Some y"
      then show "\<not> Overlaps (fe_filter x) (fe_filter y) \<and> handler_ids x \<inter> handler_ids y = {}"
        using * [of b y] ** [of a x] old(3) unfolding new apart_def by (cases "a = r"; cases "b = r") auto
    qed
  qed
  moreover have "entry_ok (cb_next_handler_id s') y" if "entry_at x s' = Some y" for x y
    using that new ok old(4) [of x y] n by (cases "x = r") (auto simp: entry_ok_def)
  ultimately show ?thesis using old(2) n by (simp add: registry_wf_def)
qed

lemma registry_add:
  assumes wf: "registry_wf s" and r: "entry_at r s = None" and e: "e = FilterEntry_new f" and f: "CanFilter_IsValid f" "Normalized f = f"
    and place: "belongs r f"
    and new: "\<And>x. entry_at x s' = (if x = r then Some e else entry_at x s)" and t: "tables_ok s'"
    and n: "cb_next_handler_id s' = cb_next_handler_id s" and o: "\<not> HasOverlap f s"
  shows "registry_wf s'"
proof -
  have old: "placed s" "apart s" "tables_ok s" using wf by (auto simp: registry_wf_def placed_def)
  have no: "\<not> Overlaps (fe_filter y) f" if "entry_at x s = Some y" for x y using o that HasOverlap_iff [OF old(3)] by blast
  have "placed s'"
    using old(1) f place t unfolding placed_def new e by (auto simp: FilterEntry_new_def)
  moreover have "apart s'"
    using old(2) no Overlaps_sym [of f] unfolding apart_def new e by (auto simp: FilterEntry_new_def handler_ids_def)
  moreover have "entry_ok (cb_next_handler_id s') y" if "entry_at x s' = Some y" for x y
    using that new wf n e by (cases "x = r") (auto simp: registry_wf_def entry_ok_def FilterEntry_new_def handler_ids_def)
  ultimately show ?thesis using wf n by (simp add: registry_wf_def)
qed

lemma registry_remove:
  assumes wf: "registry_wf s" and new: "\<And>x. entry_at x s' = (if x = r then None else entry_at x s)" and t: "tables_ok s'"
    and n: "cb_next_handler_id s' = cb_next_handler_id s"
  shows "registry_wf s'"
  using wf t n unfolding registry_wf_def placed_def apart_def new by (auto split: if_splits)

lemma hw_same:
  assumes "hw_wf s" and "cb_hw_filters s' = cb_hw_filters s" and "cc_canbus_dev (cb_config s') = cc_canbus_dev (cb_config s)"
    and "\<And>i f. 0 \<le> i \<Longrightarrow> hw_installed s' i f \<longleftrightarrow> hw_installed s i f"
  shows "hw_wf s'"
  using assms unfolding hw_wf_def by auto

section \<open>The operations on entries\<close>

lemma find_SomeD: "find P xs = Some x \<Longrightarrow> x \<in> set xs \<and> P x"
  by (induction xs) (auto split: if_splits)

lemma FindEntryByHandler_Some:
  assumes "FindEntryByHandler h s = Some r" and "tables_ok s"
  shows "\<exists>e. entry_at r s = Some e \<and> h \<in> handler_ids e"
proof (cases "find (\<lambda>(_, e). has_handler h (Some e)) (cb_exact_entries s)")
  case None
  then obtain i where i: "r = MaskEntry i" "find_index (has_handler h) (cb_mask_entries s) = Some i"
    using assms(1) by (auto simp: FindEntryByHandler_def)
  show ?thesis using find_index_Some [OF i(2)] i(1) by (auto simp: has_handler_def handler_ids_def split: option.splits)
next
  case (Some x)
  obtain k e where x: "x = (k, e)" by (cases x)
  have "(k, e) \<in> set (cb_exact_entries s)" "h \<in> handler_ids e"
    using find_SomeD [OF Some] x by (simp_all add: has_handler_def handler_ids_def)
  moreover have "distinct (map fst (cb_exact_entries s))" using assms(2) by (simp add: tables_ok_def)
  ultimately have "entry_at (ExactEntry k) s = Some e \<and> h \<in> handler_ids e" using exact_entry_iff by blast
  moreover have "r = ExactEntry k" using assms(1) Some x by (simp add: FindEntryByHandler_def)
  ultimately show ?thesis by blast
qed

lemma FindEntryByHandler_None:
  assumes "FindEntryByHandler h s = None" and "tables_ok s" and "entry_at r s = Some e"
  shows "h \<notin> handler_ids e"
proof -
  have none: "find (\<lambda>(_, e). has_handler h (Some e)) (cb_exact_entries s) = None" "find_index (has_handler h) (cb_mask_entries s) = None"
    using assms(1) by (auto simp: FindEntryByHandler_def split: option.splits prod.splits)
  show ?thesis
  proof (cases r)
    case (ExactEntry k)
    then have "(k, e) \<in> set (cb_exact_entries s)" using assms(3) map_of_SomeD by fastforce
    then show ?thesis using none(1) by (auto simp: find_None_iff has_handler_def handler_ids_def)
  next
    case (MaskEntry i)
    then have "Some e \<in> set (cb_mask_entries s)" using assms(3) mask_entry_iff by blast
    then have "\<not> has_handler h (Some e)" using none(2) unfolding find_index_None by blast
    then show ?thesis by (simp add: has_handler_def handler_ids_def)
  qed
qed

lemma exact_key_match:
  assumes "placed s" and "entry_at (ExactEntry k) s = Some e" and "CanId_IsValid c"
  shows "Matches (fe_filter e) c \<longleftrightarrow> Key c = k"
proof -
  let ?f = "fe_filter e"
  have f: "CanFilter_IsValid ?f" "IsExact ?f" "k = filter_key ?f" using placedD [OF assms(1,2)] by simp_all
  let ?d = "\<lparr>can_id = cf_id ?f, is_extended = cf_is_extended ?f\<rparr>"
  have d: "CanId_IsValid ?d" using f(1) by (simp add: CanFilter_IsValid_def CanId_IsValid_def)
  have "CanFilter_exact ?d = ?f" using f(2) by (simp add: CanFilter_exact_def IsExact_def)
  then have "Matches ?f c \<longleftrightarrow> c = ?d" using exact_filter_matches [OF d assms(3)] by simp
  moreover have "Key c = k \<longleftrightarrow> c = ?d"
    using Key_inject [of c ?d] assms(3) d f(3) by (auto simp: CanId_IsValid_def filter_key_def)
  ultimately show ?thesis by simp
qed

lemma FindMatchingEntry_Some:
  assumes "FindMatchingEntry c s = Some r" and "placed s" and "CanId_IsValid c"
  shows "\<exists>e. entry_at r s = Some e \<and> Matches (fe_filter e) c"
proof (cases "map_of (cb_exact_entries s) (Key c)")
  case None
  then obtain i where i: "r = MaskEntry i" "find_index (has_match c) (cb_mask_entries s) = Some i"
    using assms(1) by (auto simp: FindMatchingEntry_def)
  show ?thesis using find_index_Some [OF i(2)] i(1) by (auto simp: has_match_def split: option.splits)
next
  case (Some e)
  then have e: "entry_at (ExactEntry (Key c)) s = Some e" by simp
  moreover have "r = ExactEntry (Key c)" using assms(1) Some by (simp add: FindMatchingEntry_def)
  moreover have "Matches (fe_filter e) c" using exact_key_match [OF assms(2) e assms(3)] by simp
  ultimately show ?thesis by blast
qed

lemma FindMatchingEntry_None:
  assumes "FindMatchingEntry c s = None" and "placed s" and "CanId_IsValid c" and "entry_at r s = Some e"
  shows "\<not> Matches (fe_filter e) c"
proof (cases r)
  case (ExactEntry k)
  then show ?thesis using assms exact_key_match [of s k e c] by (auto simp: FindMatchingEntry_def split: if_splits)
next
  case (MaskEntry i)
  then have "Some e \<in> set (cb_mask_entries s)" using assms(4) mask_entry_iff by blast
  then show ?thesis using assms(1) by (auto simp: FindMatchingEntry_def find_index_None has_match_def split: if_splits)
qed

lemma CreateEntry_Some:
  assumes "CreateEntry f s = Some (r, s')" and "FindEntry f s = None" and "tables_ok s"
  shows "entry_at r s = None" "entry_at x s' = (if x = r then Some (FilterEntry_new f) else entry_at x s)" "belongs r f" "tables_ok s'"
    "s' = set_entry r (FilterEntry_new f) s"
proof -
  have r: "entry_at r s = None \<and> belongs r f \<and> s' = set_entry r (FilterEntry_new f) s \<and> (\<forall>i. r = MaskEntry i \<longrightarrow> i < length (cb_mask_entries s))"
  proof (cases "IsExact f")
    case True
    then show ?thesis using assms(1,2) by (auto simp: CreateEntry_def FindEntry_def split: if_splits)
  next
    case False
    then obtain i where i: "find_index (\<lambda>e. e = None) (cb_mask_entries s) = Some i" "r = MaskEntry i" "s' = set_entry r (FilterEntry_new f) s"
      using assms(1) by (auto simp: CreateEntry_def)
    then show ?thesis using find_index_Some [OF i(1)] False by simp
  qed
  then show "entry_at r s = None" "belongs r f" "tables_ok s'" "s' = set_entry r (FilterEntry_new f) s" using assms(3) by simp_all
  show "entry_at x s' = (if x = r then Some (FilterEntry_new f) else entry_at x s)"
    using r by (cases r; cases x) (auto simp: update_conv' nth_list_update)
qed

lemma EraseEntry_entry:
  assumes "placed s" and "entry_at r s = Some e" and "fe_filter e = f" and "apart s"
  shows "entry_at x (EraseEntry f s) = (if x = r then None else entry_at x s)" "tables_ok (EraseEntry f s)"
proof -
  have same: "y = r" if "entry_at y s = Some z" "fe_filter z = f" for y z
    using apartD(1) [OF assms(4) that(1) assms(2)] that(2) assms(3) Overlaps_refl by simp
  have b: "belongs r f" using placedD(3) [OF assms(1,2)] assms(3) by simp
  have t: "tables_ok s" using assms(1) by (simp add: placed_def)
  show "tables_ok (EraseEntry f s)" using t by (auto simp: tables_ok_def EraseEntry_def distinct_delete)
  show "entry_at x (EraseEntry f s) = (if x = r then None else entry_at x s)"
  proof (cases r)
    case (ExactEntry k)
    then show ?thesis using b by (cases x) (auto simp: EraseEntry_def delete_conv')
  next
    case (MaskEntry j)
    then have ne: "\<not> IsExact f" using b by simp
    show ?thesis
    proof (cases x)
      case (ExactEntry k)
      then show ?thesis using ne MaskEntry by (simp add: EraseEntry_def)
    next
      case x: (MaskEntry i)
      have "has_filter f (cb_mask_entries s ! i) \<longleftrightarrow> i = j" if "i < length (cb_mask_entries s)"
      proof
        assume "has_filter f (cb_mask_entries s ! i)"
        then obtain z where "cb_mask_entries s ! i = Some z" "fe_filter z = f" by (auto simp: has_filter_def split: option.splits)
        then show "i = j" using same [of "MaskEntry i" z] MaskEntry that by simp
      next
        assume "i = j"
        then show "has_filter f (cb_mask_entries s ! i)" using assms(2,3) MaskEntry that by (simp add: has_filter_def)
      qed
      then show ?thesis using ne x MaskEntry by (auto simp: EraseEntry_def)
    qed
  qed
qed

lemma EraseEntry_fields [simp]:
  "cb_config (EraseEntry f s) = cb_config s" "cb_next_handler_id (EraseEntry f s) = cb_next_handler_id s"
  "cb_hw_filters (EraseEntry f s) = cb_hw_filters s" "cb_is_initialized (EraseEntry f s) = cb_is_initialized s"
  by (simp_all add: EraseEntry_def)

lemma update_handlers_entry:
  assumes "entry_at r s = Some e"
  shows "entry_at x (update_handlers g r s) = (if x = r then Some (e\<lparr>fe_handlers := g (fe_handlers e)\<rparr>) else entry_at x s)"
    "handlers_at r (update_handlers g r s) = g (fe_handlers e)" "tables_ok s \<Longrightarrow> tables_ok (update_handlers g r s)"
  using assms entry_set_entry [of r s] by (simp_all add: update_handlers_def handlers_at_def)

lemma update_handlers_fields [simp]:
  "cb_config (update_handlers g r s) = cb_config s" "cb_next_handler_id (update_handlers g r s) = cb_next_handler_id s"
  "cb_hw_filters (update_handlers g r s) = cb_hw_filters s" "cb_is_initialized (update_handlers g r s) = cb_is_initialized s"
  "cb_auto_detect_running (update_handlers g r s) = cb_auto_detect_running s" "cb_outbox (update_handlers g r s) = cb_outbox s"
  "cb_bitrate_detected (update_handlers g r s) = cb_bitrate_detected s"
  by (simp_all add: update_handlers_def split: option.split)

text \<open>The registered handlers after a change of one entry.\<close>

lemma some_entry_iff:
  assumes "entry_at r s = Some e"
  shows "(\<exists>x y. entry_at x s = Some y \<and> P y) \<longleftrightarrow> P e \<or> (\<exists>x y. x \<noteq> r \<and> entry_at x s = Some y \<and> P y)"
  using assms by (metis option.inject)

lemma registrations_change:
  assumes r: "entry_at r s = Some e" and same: "fe_filter e' = fe_filter e" and new: "\<And>x. entry_at x s' = (if x = r then Some e' else entry_at x s)"
  shows "handler_ids e' = handler_ids e \<Longrightarrow> registrations s' = registrations s"
    and "handler_ids e' = insert h (handler_ids e) \<Longrightarrow> registrations s' = insert (h, fe_filter e) (registrations s)"
    and "handler_ids e' = handler_ids e - {h} \<Longrightarrow> h \<in> handler_ids e \<Longrightarrow> apart s \<Longrightarrow> registrations s' = {(g, f) \<in> registrations s. g \<noteq> h}"
proof -
  define others where "others = {(g, f). \<exists>x y. x \<noteq> r \<and> entry_at x s = Some y \<and> g \<in> handler_ids y \<and> fe_filter y = f}"
  have new_r: "entry_at r s' = Some e'" and new_x: "x \<noteq> r \<Longrightarrow> entry_at x s' = entry_at x s" for x by (simp_all add: new)
  have old: "registrations s = handler_ids e \<times> {fe_filter e} \<union> others"
    unfolding registrations_def others_def using some_entry_iff [OF r, of "\<lambda>y. _ \<in> handler_ids y \<and> fe_filter y = _"] by auto
  have "registrations s' = handler_ids e' \<times> {fe_filter e'} \<union> {(g, f). \<exists>x y. x \<noteq> r \<and> entry_at x s' = Some y \<and> g \<in> handler_ids y \<and> fe_filter y = f}"
    unfolding registrations_def using some_entry_iff [OF new_r, of "\<lambda>y. _ \<in> handler_ids y \<and> fe_filter y = _"] by auto
  also have "\<dots> = handler_ids e' \<times> {fe_filter e} \<union> others"
    unfolding others_def same using new_x by (metis (mono_tags, lifting))
  finally have now: "registrations s' = handler_ids e' \<times> {fe_filter e} \<union> others" .
  show "handler_ids e' = handler_ids e \<Longrightarrow> registrations s' = registrations s"
    "handler_ids e' = insert h (handler_ids e) \<Longrightarrow> registrations s' = insert (h, fe_filter e) (registrations s)"
    unfolding old now by auto
  have "h \<noteq> g" if "h \<in> handler_ids e" "apart s" "(g, f) \<in> others" for g f
    using apartD(2) [OF that(2) r] that(1,3) unfolding others_def by blast
  then show "handler_ids e' = handler_ids e - {h} \<Longrightarrow> h \<in> handler_ids e \<Longrightarrow> apart s \<Longrightarrow> registrations s' = {(g, f) \<in> registrations s. g \<noteq> h}"
    unfolding old now by auto
qed

lemma registrations_empty:
  assumes "\<And>y. entry_at r s = Some y \<Longrightarrow> handler_ids y = {}" and "\<And>y. entry_at r s' = Some y \<Longrightarrow> handler_ids y = {}"
    and "\<And>x. x \<noteq> r \<Longrightarrow> entry_at x s' = entry_at x s"
  shows "registrations s' = registrations s"
proof -
  have "(\<exists>x y. entry_at x s' = Some y \<and> h \<in> handler_ids y \<and> fe_filter y = f) \<longleftrightarrow>
      (\<exists>x y. entry_at x s = Some y \<and> h \<in> handler_ids y \<and> fe_filter y = f)" for h f
    using assms by (metis empty_iff)
  then show ?thesis by (simp add: registrations_def)
qed

lemma installed_same:
  assumes "\<And>x. x \<noteq> r \<Longrightarrow> entry_at x s' = entry_at x s"
    and "(\<exists>y. entry_at r s' = Some y \<and> fe_filter_id y = i \<and> fe_filter y = f) \<longleftrightarrow> (\<exists>y. entry_at r s = Some y \<and> fe_filter_id y = i \<and> fe_filter y = f)"
  shows "hw_installed s' i f \<longleftrightarrow> hw_installed s i f"
  unfolding hw_installed_def using assms by metis

text \<open>What the driver promises: a filter it accepts gets a number no filter of the device has.\<close>

definition driver_ok :: "can_driver \<Rightarrow> bool" where
  "driver_ok drv \<longleftrightarrow> (\<forall>fs d f g. 0 \<le> cd_add_rx_filter drv fs d f \<longrightarrow> (d, cd_add_rx_filter drv fs d f, g) \<notin> set fs)"

text \<open>Everything about the bus but its entries and hardware filters is as before.\<close>

definition bus_kept :: "Canbus \<Rightarrow> Canbus \<Rightarrow> bool" where
  "bus_kept s s' \<longleftrightarrow> cb_config s' = cb_config s \<and> cb_is_initialized s' = cb_is_initialized s \<and>
     cb_bitrate_detected s' = cb_bitrate_detected s \<and> cb_auto_detect_running s' = cb_auto_detect_running s \<and> cb_outbox s' = cb_outbox s"

lemma InstallFilter_ok:
  assumes wf: "registry_wf s" "hw_wf s" "driver_ok drv" and r: "entry_at r s = Some e" and out: "InstallFilter drv r s = (b, s')"
  shows "\<exists>e'. (\<forall>x. entry_at x s' = (if x = r then Some e' else entry_at x s)) \<and> fe_filter e' = fe_filter e \<and> fe_handlers e' = fe_handlers e \<and>
    (b \<longleftrightarrow> 0 \<le> fe_filter_id e') \<and> registry_wf s' \<and> hw_wf s' \<and> bus_kept s s' \<and> cb_next_handler_id s' = cb_next_handler_id s"
proof -
  let ?d = "cc_canbus_dev (cb_config s)"
  define i where "i = cd_add_rx_filter drv (cb_hw_filters s) ?d (fe_filter e)"
  show ?thesis
  proof (cases "0 \<le> fe_filter_id e \<or> i < 0")
    case True
    then have "s' = s" "b \<longleftrightarrow> 0 \<le> fe_filter_id e" using out r by (auto simp: InstallFilter_def Let_def i_def split: if_splits)
    then show ?thesis using wf r by (intro exI [of _ e]) (simp add: bus_kept_def)
  next
    case False
    let ?e = "e\<lparr>fe_filter_id := i\<rparr>"
    have s': "s' = (set_entry r ?e s)\<lparr>cb_hw_filters := (?d, i, fe_filter e) # cb_hw_filters s\<rparr>" and b: b
      using out r False by (auto simp: InstallFilter_def Let_def i_def)
    have at: "entry_at x (s\<lparr>cb_hw_filters := y\<rparr>) = entry_at x s" for x y s by (cases x) simp_all
    have new: "entry_at x s' = (if x = r then Some ?e else entry_at x s)" for x
      unfolding s' at using entry_set_entry [of r s x ?e] r by simp
    have same: "fe_filter ?e = fe_filter e" "fe_handlers ?e = fe_handlers e" "handler_ids ?e = handler_ids e" by (simp_all add: handler_ids_def)
    have fields: "cb_next_handler_id s' = cb_next_handler_id s" "bus_kept s s'" "tables_ok s'"
      using wf(1) tables_ok_set_entry [of s r ?e] by (simp_all add: s' bus_kept_def registry_wf_def placed_def tables_ok_def)
    have reg: "registry_wf s'"
      by (rule registry_update [OF wf(1) r same(1) new fields(3)])
        (use fields(1) wf(1) r same in \<open>auto simp: registry_wf_def entry_ok_def handler_ids_def\<close>)
    have fresh: "(?d, i, g) \<notin> set (cb_hw_filters s)" for g
      using wf(3) False unfolding driver_ok_def i_def by auto
    have inst: "hw_installed s' j f \<longleftrightarrow> (if j = i \<and> f = fe_filter e then True else hw_installed s j f)" if "0 \<le> j" for j f
    proof -
      have "\<not> (fe_filter_id e = j)" using False that by simp
      then show ?thesis unfolding hw_installed_def new using r by (auto split: if_splits) (metis option.inject)+
    qed
    have "hw_wf s'"
      using wf(2) fresh False inst unfolding hw_wf_def by (auto simp: s' split: if_splits)
    with new same reg fields b False show ?thesis by (intro exI [of _ ?e]) simp
  qed
qed

lemma UninstallFilter_ok:
  assumes wf: "registry_wf s" "hw_wf s" and r: "entry_at r s = Some e" and s': "s' = UninstallFilter r s"
  shows "\<exists>e'. (\<forall>x. entry_at x s' = (if x = r then Some e' else entry_at x s)) \<and> fe_filter e' = fe_filter e \<and> fe_handlers e' = fe_handlers e \<and>
    fe_filter_id e' < 0 \<and> registry_wf s' \<and> hw_wf s' \<and> bus_kept s s' \<and> cb_next_handler_id s' = cb_next_handler_id s"
proof (cases "fe_filter_id e < 0")
  case True
  then show ?thesis using wf r s' by (intro exI [of _ e]) (simp add: UninstallFilter_def bus_kept_def)
next
  case False
  let ?d = "cc_canbus_dev (cb_config s)" and ?e = "e\<lparr>fe_filter_id := -1\<rparr>"
  have s': "s' = (set_entry r ?e s)\<lparr>cb_hw_filters := remove_hw_filter ?d (fe_filter_id e) (cb_hw_filters s)\<rparr>"
    using s' r False by (simp add: UninstallFilter_def)
  have at: "entry_at x (s\<lparr>cb_hw_filters := y\<rparr>) = entry_at x s" for x y s by (cases x) simp_all
  have new: "entry_at x s' = (if x = r then Some ?e else entry_at x s)" for x
    unfolding s' at using entry_set_entry [of r s x ?e] r by simp
  have same: "fe_filter ?e = fe_filter e" "fe_handlers ?e = fe_handlers e" "handler_ids ?e = handler_ids e" by (simp_all add: handler_ids_def)
  have fields: "cb_next_handler_id s' = cb_next_handler_id s" "bus_kept s s'" "tables_ok s'"
    using wf(1) tables_ok_set_entry [of s r ?e] by (simp_all add: s' bus_kept_def registry_wf_def placed_def tables_ok_def)
  have reg: "registry_wf s'"
    by (rule registry_update [OF wf(1) r same(1) new fields(3)])
      (use fields(1) wf(1) r same in \<open>auto simp: registry_wf_def entry_ok_def handler_ids_def\<close>)
  have mine: "x = r" if "entry_at x s = Some y" "fe_filter_id y = fe_filter_id e" for x y
  proof -
    have in_hw: "(?d, fe_filter_id e, fe_filter y) \<in> set (cb_hw_filters s)" "(?d, fe_filter_id e, fe_filter e) \<in> set (cb_hw_filters s)"
      using wf(2) that r False unfolding hw_wf_def hw_installed_def by fastforce+
    have "distinct (map (\<lambda>(d, i, _). (d, i)) (cb_hw_filters s))" using wf(2) by (simp add: hw_wf_def)
    from inj_onD [OF distinct_map [THEN iffD1, OF this, THEN conjunct2] _ in_hw] have "fe_filter y = fe_filter e" by simp
    then show ?thesis using apartD(1) [OF _ that(1) r] wf(1) Overlaps_refl by (simp add: registry_wf_def)
  qed
  have inst: "hw_installed s' j f \<longleftrightarrow> hw_installed s j f \<and> j \<noteq> fe_filter_id e" if "0 \<le> j" for j f
  proof
    assume "hw_installed s' j f"
    then obtain x y where y: "entry_at x s' = Some y" "fe_filter_id y = j" "fe_filter y = f" by (auto simp: hw_installed_def)
    then have x: "x \<noteq> r" "entry_at x s = Some y" using that by (auto simp: new split: if_splits)
    then show "hw_installed s j f \<and> j \<noteq> fe_filter_id e" using y mine [OF x(2)] by (auto simp: hw_installed_def)
  next
    assume "hw_installed s j f \<and> j \<noteq> fe_filter_id e"
    then obtain x y where y: "entry_at x s = Some y" "fe_filter_id y = j" "fe_filter y = f" "j \<noteq> fe_filter_id e" by (auto simp: hw_installed_def)
    moreover from this have "x \<noteq> r" using r by auto
    ultimately have "entry_at x s' = Some y" by (simp add: new)
    with y show "hw_installed s' j f" by (auto simp: hw_installed_def)
  qed
  have "distinct (map (\<lambda>(d, i, _). (d, i)) (cb_hw_filters s'))"
    using wf(2) by (auto simp: s' remove_hw_filter_def hw_wf_def distinct_map_filter)
  moreover have "(d, i, f) \<in> set (cb_hw_filters s') \<longleftrightarrow> d = cc_canbus_dev (cb_config s') \<and> 0 \<le> i \<and> hw_installed s' i f" for d i f
  proof -
    have "(d, i, f) \<in> set (cb_hw_filters s') \<longleftrightarrow> (d, i, f) \<in> set (cb_hw_filters s) \<and> \<not> (d = ?d \<and> i = fe_filter_id e)"
      by (simp add: s' remove_hw_filter_def)
    then show ?thesis using wf(2) inst [of i f] by (auto simp: hw_wf_def s')
  qed
  ultimately have "hw_wf s'" by (simp add: hw_wf_def)
  with new same reg fields show ?thesis by (intro exI [of _ ?e]) simp
qed

section \<open>Registering and removing\<close>

text \<open>An invariant bus but for one entry, which may have no handlers.\<close>

definition almost_wf :: "entry_ref \<Rightarrow> Canbus \<Rightarrow> bool" where
  "almost_wf r s \<longleftrightarrow> registry_wf s \<and> hw_wf s \<and> (\<forall>x y. x \<noteq> r \<longrightarrow> entry_at x s = Some y \<longrightarrow> fe_handlers y \<noteq> [])"

lemma find_or_create_ok:
  assumes wf: "bus_wf s" and f: "CanFilter_IsValid f" "Normalized f = f" and out: "find_or_create f s = Inr (r, s')"
  shows "\<exists>e. entry_at r s' = Some e \<and> fe_filter e = f \<and> almost_wf r s' \<and> registrations s' = registrations s \<and> bus_kept s s' \<and>
    cb_next_handler_id s' = cb_next_handler_id s"
proof (cases "FindEntry f s")
  case None
  then have o: "\<not> HasOverlap f s" and c: "CreateEntry f s = Some (r, s')"
    using out by (auto simp: find_or_create_def split: if_splits option.splits)
  have t: "tables_ok s" using wf by (simp add: bus_wf_def registry_wf_def placed_def)
  note n = CreateEntry_Some [OF c None t]
  let ?e = "FilterEntry_new f"
  have fields: "cb_next_handler_id s' = cb_next_handler_id s" "cb_hw_filters s' = cb_hw_filters s" "bus_kept s s'" "cb_config s' = cb_config s"
    by (simp_all add: n(5) bus_kept_def)
  have reg: "registry_wf s'"
    by (rule registry_add [OF _ n(1) refl f n(3,2,4) fields(1) o]) (use wf in \<open>simp add: bus_wf_def\<close>)
  have "hw_installed s' i g \<longleftrightarrow> hw_installed s i g" if "0 \<le> i" for i g
    by (rule installed_same [of r]) (use n(1,2) that in \<open>auto simp: FilterEntry_new_def\<close>)
  then have hw: "hw_wf s'" using hw_same [of s s'] wf fields by (simp add: bus_wf_def)
  have "registrations s' = registrations s"
    by (rule registrations_empty [of r]) (use n(1,2) in \<open>auto simp: FilterEntry_new_def handler_ids_def\<close>)
  moreover have "fe_handlers y \<noteq> []" if "x \<noteq> r" "entry_at x s' = Some y" for x y
    using wf that n(2) by (auto simp: bus_wf_def no_empty_def)
  ultimately show ?thesis using reg hw n(2) fields by (intro exI [of _ ?e]) (auto simp: almost_wf_def FilterEntry_new_def)
next
  case (Some r')
  then have e: "r' = r" "s' = s" using out by (auto simp: find_or_create_def)
  have "placed s" using wf by (simp add: bus_wf_def registry_wf_def)
  from FindEntry_Some [OF Some this f(1)] e wf show ?thesis by (auto simp: almost_wf_def bus_wf_def no_empty_def bus_kept_def)
qed

lemma handler_added:
  assumes wf: "almost_wf r s" and r: "entry_at r s = Some e" and n: "n = cb_next_handler_id s" and room: "length (fe_handlers e) < MAX_HANDLERS_PER_FILTER"
    and s': "s' = update_handlers (\<lambda>hs. hs @ [(n, h)]) r (s\<lparr>cb_next_handler_id := n + 1\<rparr>)"
  shows "registry_wf s' \<and> hw_wf s' \<and> no_empty s' \<and> registrations s' = insert (n, fe_filter e) (registrations s) \<and> bus_kept s s' \<and>
    cb_next_handler_id s' = n + 1 \<and> entry_at r s' = Some (e\<lparr>fe_handlers := fe_handlers e @ [(n, h)]\<rparr>) \<and> (\<forall>x. x \<noteq> r \<longrightarrow> entry_at x s' = entry_at x s)"
proof -
  let ?e = "e\<lparr>fe_handlers := fe_handlers e @ [(n, h)]\<rparr>" and ?s = "s\<lparr>cb_next_handler_id := n + 1\<rparr>"
  have at: "entry_at x ?s = entry_at x s" for x by (cases x) simp_all
  have r1: "entry_at r ?s = Some e" using r at by simp
  have new: "entry_at x s' = (if x = r then Some ?e else entry_at x s)" for x
    using update_handlers_entry(1) [OF r1, of x "\<lambda>hs. hs @ [(n, h)]"] at by (simp add: s')
  have old: "registry_wf s" "hw_wf s" "entry_ok n e" using wf r n by (auto simp: almost_wf_def registry_wf_def)
  have fields: "cb_next_handler_id s' = n + 1" "cb_hw_filters s' = cb_hw_filters s" "cb_config s' = cb_config s" "tables_ok s'" "bus_kept s s'"
    using old(1) update_handlers_entry(3) [OF r1] by (simp_all add: s' registry_wf_def placed_def tables_ok_def [of s] tables_ok_def [of ?s] bus_kept_def)
  have ids: "handler_ids ?e = insert n (handler_ids e)" by (auto simp: handler_ids_def)
  have "n \<notin> handler_ids e" "0 < n" using old(1,3) n by (auto simp: entry_ok_def registry_wf_def)
  then have ok: "entry_ok (n + 1) ?e" using old(3) room ids by (auto simp: entry_ok_def handler_ids_def)
  have "registry_wf s'"
    by (rule registry_update [OF old(1) r _ new fields(4)]) (use fields(1) n ok ids in auto)
  moreover have "hw_installed s' i f \<longleftrightarrow> hw_installed s i f" for i f
    by (rule installed_same [of r]) (use r new in auto)
  then have "hw_wf s'" using hw_same [OF old(2) fields(2)] fields(3) by simp
  moreover have "no_empty s'" using wf by (auto simp: no_empty_def new almost_wf_def)
  moreover have "registrations s' = insert (n, fe_filter e) (registrations s)"
    by (rule registrations_change(2) [OF r _ new ids]) simp
  ultimately show ?thesis using fields new by simp
qed

lemma handler_removed:
  assumes wf: "bus_wf s" and r: "entry_at r s = Some e" and h: "h \<in> handler_ids e" and s': "s' = update_handlers (filter (\<lambda>(i, _). i \<noteq> h)) r s"
  shows "almost_wf r s' \<and> registrations s' = {(g, f) \<in> registrations s. g \<noteq> h} \<and> bus_kept s s' \<and> cb_next_handler_id s' = cb_next_handler_id s \<and>
    entry_at r s' = Some (e\<lparr>fe_handlers := filter (\<lambda>(i, _). i \<noteq> h) (fe_handlers e)\<rparr>)"
proof -
  let ?e = "e\<lparr>fe_handlers := filter (\<lambda>(i, _). i \<noteq> h) (fe_handlers e)\<rparr>"
  have new: "entry_at x s' = (if x = r then Some ?e else entry_at x s)" for x
    using update_handlers_entry(1) [OF r] by (simp add: s')
  have old: "registry_wf s" "hw_wf s" "entry_ok (cb_next_handler_id s) e" "apart s" using wf r by (auto simp: bus_wf_def registry_wf_def)
  have fields: "cb_next_handler_id s' = cb_next_handler_id s" "cb_hw_filters s' = cb_hw_filters s" "cb_config s' = cb_config s" "tables_ok s'" "bus_kept s s'"
    using old(1) update_handlers_entry(3) [OF r] by (simp_all add: s' registry_wf_def placed_def bus_kept_def)
  have ids: "handler_ids ?e = handler_ids e - {h}" by (force simp: handler_ids_def)
  have "length (fe_handlers e) \<le> MAX_HANDLERS_PER_FILTER" using old(3) by (simp add: entry_ok_def)
  then have len: "length (filter (\<lambda>(i, _). i \<noteq> h) (fe_handlers e)) \<le> MAX_HANDLERS_PER_FILTER" by (rule le_trans [OF length_filter_le])
  have ok: "entry_ok (cb_next_handler_id s') ?e"
    using old(3) ids fields(1) len unfolding entry_ok_def by (simp add: distinct_map_filter)
  have "registry_wf s'" by (rule registry_update [OF old(1) r _ new fields(4)]) (use fields(1) ok ids in auto)
  moreover have "hw_installed s' i f \<longleftrightarrow> hw_installed s i f" for i f by (rule installed_same [of r]) (use r new in auto)
  then have "hw_wf s'" using hw_same [OF old(2) fields(2)] fields(3) by simp
  moreover have "registrations s' = {(g, f) \<in> registrations s. g \<noteq> h}"
    by (rule registrations_change(3) [OF r _ new ids h old(4)]) simp
  ultimately show ?thesis using fields new wf by (auto simp: almost_wf_def bus_wf_def no_empty_def)
qed

lemma entry_dropped:
  assumes wf: "almost_wf r s" and r: "entry_at r s = Some e" and e: "fe_handlers e = []" "fe_filter_id e < 0" and s': "s' = EraseEntry (fe_filter e) s"
  shows "bus_wf s' \<and> registrations s' = registrations s \<and> bus_kept s s' \<and> cb_next_handler_id s' = cb_next_handler_id s"
proof -
  have old: "registry_wf s" "hw_wf s" "placed s" "apart s" using wf by (auto simp: almost_wf_def registry_wf_def)
  note new = EraseEntry_entry [OF old(3) r refl old(4), folded s']
  have fields: "cb_next_handler_id s' = cb_next_handler_id s" "cb_hw_filters s' = cb_hw_filters s" "cb_config s' = cb_config s" "bus_kept s s'"
    by (simp_all add: s' bus_kept_def EraseEntry_def)
  have "registry_wf s'" by (rule registry_remove [OF old(1) new(1,2) fields(1)])
  moreover have "hw_installed s' i f \<longleftrightarrow> hw_installed s i f" if "0 \<le> i" for i f by (rule installed_same [of r]) (use r new(1) e that in auto)
  then have "hw_wf s'" using hw_same [OF old(2) fields(2)] fields(3) by simp
  moreover have "registrations s' = registrations s"
    by (rule registrations_empty [of r]) (use new(1) r e in \<open>auto simp: handler_ids_def\<close>)
  ultimately show ?thesis using fields new(1) wf by (auto simp: bus_wf_def no_empty_def almost_wf_def)
qed

lemma Register_rejected:
  assumes wf: "bus_wf s" and r: "entry_at r s = Some e" and h: "h \<in> handler_ids e" and e: "fe_filter_id e < 0"
    and s1: "s1 = update_handlers (filter (\<lambda>(i, _). i \<noteq> h)) r s"
    and s': "s' = (if handlers_at r s1 = [] then EraseEntry (fe_filter e) s1 else s1)"
  shows "bus_wf s' \<and> registrations s' = {(g, f) \<in> registrations s. g \<noteq> h} \<and> bus_kept s s'"
proof -
  note m = handler_removed [OF wf r h s1]
  let ?e = "e\<lparr>fe_handlers := filter (\<lambda>(i, _). i \<noteq> h) (fe_handlers e)\<rparr>"
  have at: "entry_at r s1 = Some ?e" and al: "almost_wf r s1" using m by blast+
  show ?thesis
  proof (cases "handlers_at r s1 = []")
    case True
    then have "fe_handlers ?e = []" using at by (simp add: handlers_at_def)
    from entry_dropped [OF al at this _ refl] e s' True m show ?thesis by (auto simp: bus_kept_def)
  next
    case False
    then have "fe_handlers ?e \<noteq> []" using at by (simp add: handlers_at_def)
    then have "no_empty s1" using al at unfolding no_empty_def almost_wf_def by (metis option.inject)
    then show ?thesis using False s' m by (simp add: bus_wf_def almost_wf_def)
  qed
qed

text \<open>A handler is registered under a number that was free, or nothing changes.\<close>

lemma Register_ok:
  assumes wf: "bus_wf s" and drv: "driver_ok drv" and out: "RegisterFrameReceivedHandler drv g handler s = (c, s')"
  shows "bus_wf s' \<and> bus_kept s s' \<and>
    (if 0 < c then c \<notin> fst ` registrations s \<and> registrations s' = insert (c, Normalized g) (registrations s)
     else c < 0 \<and> registrations s' = registrations s)"
proof -
  have pos: "0 < cb_next_handler_id s" "\<And>h f. (h, f) \<in> registrations s \<Longrightarrow> h < cb_next_handler_id s"
    using wf by (auto simp: bus_wf_def registry_wf_def registrations_def entry_ok_def)
  have same: ?thesis if "s' = s" "c < 0" using that wf by (simp add: bus_kept_def)
  show ?thesis
  proof (cases "\<not> cb_is_initialized s \<or> handler = None \<or> \<not> CanFilter_IsValid g \<or> (\<exists>e. find_or_create (Normalized g) s = Inl e)")
    case True
    have "e < 0" if "find_or_create (Normalized g) s = Inl e" for e
      using that by (auto simp: find_or_create_def bus_errors split: option.splits if_splits)
    then show ?thesis using same out True by (auto simp: RegisterFrameReceivedHandler_def Let_def bus_errors split: if_splits option.splits)
  next
    case False
    then obtain h r s1 where ok: "cb_is_initialized s" "handler = Some h" "CanFilter_IsValid g" "find_or_create (Normalized g) s = Inr (r, s1)"
      by (metis option.exhaust sum.exhaust surj_pair)
    let ?f = "Normalized g"
    from find_or_create_ok [OF wf Normalized_valid(1) [OF ok(3)] Normalized_valid(2) ok(4)] obtain e where
      e: "entry_at r s1 = Some e" "fe_filter e = ?f" "almost_wf r s1" "registrations s1 = registrations s" "bus_kept s s1"
      "cb_next_handler_id s1 = cb_next_handler_id s" by blast
    define n where "n = cb_next_handler_id s1"
    define s2 where "s2 = update_handlers (\<lambda>hs. hs @ [(n, h)]) r (s1\<lparr>cb_next_handler_id := n + 1\<rparr>)"
    have free: "n \<notin> fst ` registrations s" "0 < n" using pos(1) pos(2) [of n] e(6) by (auto simp: n_def)
    show ?thesis
    proof (cases "MAX_HANDLERS_PER_FILTER \<le> length (handlers_at r s1)")
      case True
      then have "c = ERR_TOO_MANY_HANDLERS" "s' = s1" using out ok by (simp_all add: RegisterFrameReceivedHandler_def)
      moreover have "fe_handlers e \<noteq> []" using True e(1) by (auto simp: handlers_at_def MAX_HANDLERS_PER_FILTER_def)
      then have "no_empty s1" using e(1,3) unfolding no_empty_def almost_wf_def by (metis option.inject)
      ultimately show ?thesis using e by (simp add: bus_errors bus_wf_def almost_wf_def)
    next
      case False
      then have room: "length (fe_handlers e) < MAX_HANDLERS_PER_FILTER" using e(1) by (simp add: handlers_at_def)
      note a = handler_added [OF e(3,1) n_def room s2_def]
      have wf2: "bus_wf s2" using a by (simp add: bus_wf_def)
      have kept2: "bus_kept s s2" using a e(5) by (simp add: bus_kept_def)
      have reg2: "registrations s2 = insert (n, ?f) (registrations s)" using a e by simp
      show ?thesis
      proof (cases "cb_auto_detect_running s2 \<and> \<not> cb_bitrate_detected s2")
        case True
        then have "c = n" "s' = s2" using out ok False by (auto simp: RegisterFrameReceivedHandler_def n_def s2_def Let_def)
        then show ?thesis using wf2 kept2 reg2 free by simp
      next
        case det: False
        let ?e = "e\<lparr>fe_handlers := fe_handlers e @ [(n, h)]\<rparr>"
        obtain b s3 where i: "InstallFilter drv r s2 = (b, s3)" by fastforce
        have r2: "entry_at r s2 = Some ?e" using a by blast
        from InstallFilter_ok [OF _ _ drv r2 i] wf2 obtain e' where
          e': "\<And>x. entry_at x s3 = (if x = r then Some e' else entry_at x s2)" "fe_filter e' = fe_filter ?e" "fe_handlers e' = fe_handlers ?e"
          "b \<longleftrightarrow> 0 \<le> fe_filter_id e'" "registry_wf s3" "hw_wf s3" "bus_kept s2 s3"
          unfolding bus_wf_def by blast
        have "no_empty s3" using wf2 e'(1,3) by (auto simp: no_empty_def bus_wf_def)
        then have wf3: "bus_wf s3" using e' by (simp add: bus_wf_def)
        have ids: "handler_ids e' = handler_ids ?e" using e'(3) by (simp add: handler_ids_def)
        have reg3: "registrations s3 = registrations s2" by (rule registrations_change(1) [OF r2 e'(2,1) ids])
        have r3: "entry_at r s3 = Some e'" by (simp add: e'(1))
        show ?thesis
        proof (cases b)
          case True
          then have "c = n" "s' = s3" using out ok False det i by (auto simp: RegisterFrameReceivedHandler_def n_def s2_def Let_def)
          then show ?thesis using wf3 kept2 e'(7) reg2 reg3 free by (simp add: bus_kept_def)
        next
          case rejected: False
          define s4 where "s4 = update_handlers (filter (\<lambda>(i, _). i \<noteq> n)) r s3"
          have "c = ERR_FILTER_REJECTED" "s' = (if handlers_at r s4 = [] then EraseEntry (fe_filter e') s4 else s4)"
            using out ok False det i rejected e'(2) e(2) by (auto simp: RegisterFrameReceivedHandler_def n_def s2_def s4_def Let_def)
          moreover have "n \<in> handler_ids e'" using ids by (simp add: handler_ids_def)
          ultimately show ?thesis
            using Register_rejected [OF wf3 r3 _ _ s4_def] rejected e'(4,7) reg2 reg3 free kept2
            by (auto simp: bus_errors bus_kept_def image_iff)
        qed
      qed
    qed
  qed
qed

lemma Remove_ok:
  assumes wf: "bus_wf s" and out: "RemoveFrameReceivedHandler h s = (b, s')"
  shows "bus_wf s' \<and> bus_kept s s' \<and>
    (if cb_is_initialized s then b = (h \<in> fst ` registrations s) \<and> registrations s' = {(g, f) \<in> registrations s. g \<noteq> h}
     else \<not> b \<and> s' = s)"
proof (cases "cb_is_initialized s")
  case False
  then show ?thesis using wf out by (simp add: RemoveFrameReceivedHandler_def bus_kept_def)
next
  case init: True
  have t: "tables_ok s" using wf by (simp add: bus_wf_def registry_wf_def placed_def)
  show ?thesis
  proof (cases "FindEntryByHandler h s")
    case None
    then have none: "(h, f) \<notin> registrations s" for f
      using FindEntryByHandler_None [OF None t] by (auto simp: registrations_def)
    then have "registrations s = {(g, f) \<in> registrations s. g \<noteq> h}" by auto
    then show ?thesis using wf out init None none by (auto simp: RemoveFrameReceivedHandler_def bus_kept_def)
  next
    case (Some r)
    obtain e where e: "entry_at r s = Some e" "h \<in> handler_ids e" using FindEntryByHandler_Some [OF Some t] by blast
    have known: "h \<in> fst ` registrations s" using e by (force simp: registrations_def)
    define s1 where "s1 = update_handlers (filter (\<lambda>(i, _). i \<noteq> h)) r s"
    note m = handler_removed [OF wf e s1_def]
    let ?e = "e\<lparr>fe_handlers := filter (\<lambda>(i, _). i \<noteq> h) (fe_handlers e)\<rparr>"
    have at: "entry_at r s1 = Some ?e" and al: "almost_wf r s1" using m by blast+
    show ?thesis
    proof (cases "handlers_at r s1 = []")
      case False
      then have "fe_handlers ?e \<noteq> []" using at by (simp add: handlers_at_def)
      then have "no_empty s1" using al at unfolding no_empty_def almost_wf_def by (metis option.inject)
      moreover have "b" "s' = s1" using out init Some False by (simp_all add: RemoveFrameReceivedHandler_def s1_def)
      ultimately show ?thesis using m known init by (simp add: bus_wf_def almost_wf_def)
    next
      case True
      define s2 where "s2 = UninstallFilter r s1"
      have "registry_wf s1" "hw_wf s1" using al by (simp_all add: almost_wf_def)
      from UninstallFilter_ok [OF this at s2_def] obtain e' where
        e': "\<And>x. entry_at x s2 = (if x = r then Some e' else entry_at x s1)" "fe_filter e' = fe_filter ?e" "fe_handlers e' = fe_handlers ?e"
        "fe_filter_id e' < 0" "registry_wf s2" "hw_wf s2" "bus_kept s1 s2" by blast
      have ids: "handler_ids e' = handler_ids ?e" using e'(3) by (simp add: handler_ids_def)
      have reg: "registrations s2 = registrations s1" by (rule registrations_change(1) [OF at e'(2,1) ids])
      have al2: "almost_wf r s2" using al e' by (auto simp: almost_wf_def)
      have "fe_handlers e' = []" using True at e'(3) by (simp add: handlers_at_def)
      moreover have "b" "s' = EraseEntry (fe_filter e') s2"
        using out init Some True at e'(2) by (simp_all add: RemoveFrameReceivedHandler_def s1_def [symmetric] s2_def [symmetric] Let_def)
      ultimately show ?thesis
        using entry_dropped [OF al2 _ _ e'(4)] e'(1,7) m known init reg by (simp add: bus_kept_def)
    qed
  qed
qed

section \<open>Dispatch\<close>

definition handler_calls :: "Canbus \<Rightarrow> (int \<times> CanFrame) list" where
  "handler_calls s = concat (map (\<lambda>e. case e of CalledHandler h frame \<Rightarrow> [(h, frame)] | _ \<Rightarrow> []) (cb_outbox s))"

text \<open>The handlers a frame is for.\<close>

definition wanted_by :: "CanFrame \<Rightarrow> Canbus \<Rightarrow> int set" where
  "wanted_by frame s = {h. \<exists>f. (h, f) \<in> registrations s \<and> Matches f \<lparr>can_id = frame_id frame, is_extended = frame_is_extended frame\<rparr>}"

lemma put_entry [simp]: "entry_at r (cb_put e s) = entry_at r s"
  by (cases r) (simp_all add: cb_put_def)

lemma put_FindMatchingEntry [simp]: "FindMatchingEntry c (cb_put e s) = FindMatchingEntry c s"
  by (simp add: FindMatchingEntry_def cb_put_def)

lemma calls_put: "handler_calls (cb_put (CalledHandler h frame) s) = handler_calls s @ [(h, frame)]"
  by (simp add: handler_calls_def cb_put_def)

lemma dispatch_all:
  assumes "FindMatchingEntry c s = Some r" and "set hs \<subseteq> fst ` set (handlers_at r s)"
  shows "handler_calls (dispatch_to (\<lambda>_ _ u. u) c frame hs s) = handler_calls s @ map (\<lambda>h. (h, frame)) hs"
  using assms
proof (induction hs arbitrary: s)
  case (Cons h hs)
  then obtain handler where "map_of (handlers_at r s) h = Some handler"
    by (metis list.set_intros(1) map_of_eq_None_iff option.exhaust subsetD)
  moreover have "handlers_at r (cb_put (CalledHandler h frame) s) = handlers_at r s" by (simp add: handlers_at_def)
  ultimately show ?case using Cons.prems Cons.IH [of "cb_put (CalledHandler h frame) s"] by (simp add: calls_put)
qed simp

lemma DispatchFrame_calls:
  assumes wf: "bus_wf s" and valid: "CanId_IsValid \<lparr>can_id = frame_id frame, is_extended = frame_is_extended frame\<rparr>"
  shows "\<exists>hs. handler_calls (DispatchFrame (\<lambda>_ _ u. u) frame s) = handler_calls s @ map (\<lambda>h. (h, frame)) hs \<and> distinct hs \<and> set hs = wanted_by frame s"
proof -
  let ?c = "\<lparr>can_id = frame_id frame, is_extended = frame_is_extended frame\<rparr>"
  have p: "placed s" "apart s" using wf by (simp_all add: bus_wf_def registry_wf_def)
  show ?thesis
  proof (cases "FindMatchingEntry ?c s")
    case None
    then have "wanted_by frame s = {}"
      using FindMatchingEntry_None [OF None p(1) valid] by (auto simp: wanted_by_def registrations_def)
    then show ?thesis using None by (intro exI [of _ "[]"]) (simp add: DispatchFrame_def)
  next
    case (Some r)
    obtain e where e: "entry_at r s = Some e" "Matches (fe_filter e) ?c" using FindMatchingEntry_Some [OF Some p(1) valid] by blast
    have only: "x = r" if "entry_at x s = Some y" "Matches (fe_filter y) ?c" for x y
      by (rule apartD(1) [OF p(2) that(1) e(1)]) (use that(2) e(2) overlaps_common in blast)
    have "wanted_by frame s = handler_ids e"
      using e only by (fastforce simp: wanted_by_def registrations_def)
    moreover have ok: "entry_ok (cb_next_handler_id s) e" using wf e by (auto simp: bus_wf_def registry_wf_def)
    then have "take MAX_HANDLERS_PER_FILTER (map fst (handlers_at r s)) = map fst (fe_handlers e)"
      using e by (simp add: handlers_at_def entry_ok_def)
    ultimately show ?thesis
      using Some e ok dispatch_all [OF Some, of "map fst (fe_handlers e)" frame]
      by (intro exI [of _ "map fst (fe_handlers e)"]) (simp add: DispatchFrame_def handlers_at_def entry_ok_def handler_ids_def)
  qed
qed

end
