(* ===== verification/Cdmp_Command.thy ===== *)
theory Cdmp_Command
  imports Cdmp_Transactions Cdmp_Device Canbus_Bus
begin

text \<open>
  Commands, \<open>src/subsys/cdmp/services/cdmp_command_service.h/.cpp\<close>, and the registration of CAN
  handlers every CDMP service inherits (\<open>cdmp_canbus_service_base.h/.cpp\<close>). The handlers an
  application registers are functions of the model, which return a result or throw; that a handler
  itself calls the service is not modelled. Frames, delays, handler calls and the effects of the
  transaction service are appended to an outbox in program order. A bus that is not valid sends
  nothing.
\<close>

section \<open>Registration of CAN handlers\<close>

text \<open>
  \<open>register f c\<close> is \<open>Canbus::RegisterFrameReceivedHandler\<close> on the bus state \<open>c\<close>: a handler ID or a
  negative error, and the new bus state. The handler passes on the frames whose number is the one
  asked for.
\<close>

definition RegisterReceiveHandler ::
  "(CanFilter \<Rightarrow> 'c \<Rightarrow> int \<times> 'c) \<Rightarrow> u32 \<Rightarrow> CanId \<Rightarrow> 'c \<Rightarrow> int \<times> 'c" where
  "RegisterReceiveHandler register base wanted c =
     (let f = GetReceiveFilter base wanted
      in case register f c of
           (h, c') \<Rightarrow> if h = ERR_FILTER_OVERLAP \<and> \<not> IsExact f then register (CanFilter_exact wanted) c' else (h, c'))"

definition for_id :: "CanId \<Rightarrow> CanId \<Rightarrow> bool" where
  "for_id wanted received \<longleftrightarrow> can_id received = can_id wanted"

section \<open>Data\<close>

record CdmpCommandResult =
  res_result_code :: u8
  res_data :: bytes

type_synonym CommandHandler = "u8 \<Rightarrow> bytes \<Rightarrow> CdmpCommandResult result"
type_synonym ServiceCommandHandler = "CdmpCommandRequestMessage \<Rightarrow> CdmpCommandResult option result"

datatype command_effect =
    SendRequestFrame bytes
  | SendResponseFrame bytes
  | StaggerMs nat
  | CallCommandHandler u8 u8 bytes
  | CallServiceCommandHandler CdmpCommandRequestMessage
  | TransactionEffect transaction_effect
  | RemoveCommandFrameHandler int

record CdmpCommandService =
  cs_canbus_valid :: bool
  cs_device :: CdmpDevice
  cs_canbus_handler_id :: int
  cs_canbus_response_handler_id :: int
  cs_transaction_service :: CdmpTransactionService
  cs_command_handlers :: "u8 \<rightharpoonup> CommandHandler"
  cs_service_command_handlers :: "u8 \<rightharpoonup> ServiceCommandHandler"
  cs_outbox :: "command_effect list"

definition CommandService_new :: "CdmpDevice \<Rightarrow> CdmpCommandService" where
  "CommandService_new d = \<lparr>cs_canbus_valid = False, cs_device = d, cs_canbus_handler_id = -1,
     cs_canbus_response_handler_id = -1, cs_transaction_service = TransactionService_new,
     cs_command_handlers = Map.empty, cs_service_command_handlers = Map.empty, cs_outbox = []\<rparr>"

definition effects :: "command_effect list \<Rightarrow> CdmpCommandService \<Rightarrow> CdmpCommandService" where
  "effects es s = s\<lparr>cs_outbox := cs_outbox s @ es\<rparr>"

section \<open>Handlers\<close>

definition IsValidServiceCommandCode :: "u8 \<Rightarrow> bool" where
  "IsValidServiceCommandCode c \<longleftrightarrow>
     c = CMD_STATUS_REQUEST \<or> c = CMD_RESET_DEVICE \<or> c = CMD_STATE_SYNC_REQUEST"

definition IsValidUserCommandCode :: "u8 \<Rightarrow> bool" where
  "IsValidUserCommandCode c \<longleftrightarrow> USER_COMMAND_CODE_MIN \<le> c \<and> c \<le> USER_COMMAND_CODE_MAX"

definition RegisterCommandHandler ::
  "u8 \<Rightarrow> CommandHandler \<Rightarrow> CdmpCommandService \<Rightarrow> CdmpCommandService result" where
  "RegisterCommandHandler c h s =
     (if c = 0 then Inl RuntimeError else Inr (s\<lparr>cs_command_handlers := (cs_command_handlers s)(c \<mapsto> h)\<rparr>))"

definition RegisterUserCommandHandler ::
  "u8 \<Rightarrow> CommandHandler \<Rightarrow> CdmpCommandService \<Rightarrow> CdmpCommandService result" where
  "RegisterUserCommandHandler c h s =
     (if \<not> IsValidUserCommandCode c then Inl RuntimeError else RegisterCommandHandler c h s)"

definition RegisterServiceCommandHandler ::
  "u8 \<Rightarrow> ServiceCommandHandler \<Rightarrow> CdmpCommandService \<Rightarrow> CdmpCommandService result" where
  "RegisterServiceCommandHandler c h s =
     (if \<not> IsValidServiceCommandCode c \<or> c = CMD_STATUS_REQUEST then Inl RuntimeError
      else Inr (s\<lparr>cs_service_command_handlers := (cs_service_command_handlers s)(c \<mapsto> h)\<rparr>))"

definition UnregisterCommandHandler :: "u8 \<Rightarrow> CdmpCommandService \<Rightarrow> CdmpCommandService" where
  "UnregisterCommandHandler c s = s\<lparr>cs_command_handlers := (cs_command_handlers s)(c := None)\<rparr>"

definition UnregisterServiceCommandHandler :: "u8 \<Rightarrow> CdmpCommandService \<Rightarrow> CdmpCommandService" where
  "UnregisterServiceCommandHandler c s =
     s\<lparr>cs_service_command_handlers := (cs_service_command_handlers s)(c := None)\<rparr>"

definition NotifyCommandHandler ::
  "CdmpCommandRequestMessage \<Rightarrow> CdmpCommandService \<Rightarrow> CdmpCommandResult option result \<times> CdmpCommandService" where
  "NotifyCommandHandler c s =
     (case cs_command_handlers s (cq_command_code c) of
        None \<Rightarrow> (Inr None, s)
      | Some h \<Rightarrow>
          (map_sum id Some (h (cq_transaction_id c) (cq_data c)),
           effects [CallCommandHandler (cq_command_code c) (cq_transaction_id c) (cq_data c)] s))"

section \<open>Requests and responses\<close>

definition SendCommandResponse ::
  "u8 \<Rightarrow> CdmpCommandResponseMessage \<Rightarrow> CdmpCommandService \<Rightarrow> CdmpCommandService" where
  "SendCommandResponse target response s =
     (if \<not> cs_canbus_valid s then s
      else effects
        ((if target \<noteq> dev_device_id (cs_device s) then [StaggerMs (dev_staggered_message_delay (cs_device s))] else [])
          @ [SendResponseFrame (CommandResponse_ToCanFrame response)]) s)"

definition response_to ::
  "u8 \<Rightarrow> CdmpCommandRequestMessage \<Rightarrow> u8 \<Rightarrow> bytes \<Rightarrow> CdmpCommandResponseMessage" where
  "response_to own c rc d =
     \<lparr>cp_source_device_id = own, cp_command_code = cq_command_code c,
      cp_transaction_id = cq_transaction_id c, cp_result_code = rc, cp_data = d\<rparr>"

definition ProcessServiceRequestFrame :: "CdmpCommandRequestMessage \<Rightarrow> CdmpCommandService \<Rightarrow> CdmpCommandService" where
  "ProcessServiceRequestFrame c s =
     (if cq_command_code c = CMD_STATUS_REQUEST then
        (case NotifyCommandHandler c s of
           (Inl _, s1) \<Rightarrow> s1
         | (Inr _, s1) \<Rightarrow>
             SendCommandResponse (cq_target_device_id c)
               (CommandResponseStatus_new (dev_device_id (cs_device s)) (cq_transaction_id c) RC_SUCCESS
                  (dev_status (cs_device s)) (dev_protocol_version (cs_device s)) (dev_health_status (cs_device s))) s1)
      else if dev_status (cs_device s) = ONLINE then
        (case cs_service_command_handlers s (cq_command_code c) of
           None \<Rightarrow> snd (NotifyCommandHandler c s)
         | Some h \<Rightarrow>
             let s1 = effects [CallServiceCommandHandler c] s
             in case h c of
                  Inl _ \<Rightarrow> s1
                | Inr None \<Rightarrow> s1
                | Inr (Some r) \<Rightarrow>
                    if cq_target_device_id c \<noteq> dev_device_id (cs_device s) then s1
                    else SendCommandResponse (cq_target_device_id c) (response_to (dev_device_id (cs_device s1)) c (res_result_code r) (res_data r)) s1)
      else s)"

definition ProcessRequestFrame :: "bytes \<Rightarrow> CdmpCommandService \<Rightarrow> CdmpCommandService" where
  "ProcessRequestFrame frame s =
     (case CommandRequest_FromCanFrame frame of
        Inl _ \<Rightarrow> s
      | Inr c \<Rightarrow>
          if cq_target_device_id c \<noteq> dev_device_id (cs_device s) \<and> cq_target_device_id c \<noteq> DEVICE_ID_BROADCAST then s
          else if IsValidServiceCommandCode (cq_command_code c) then ProcessServiceRequestFrame c s
          else if dev_status (cs_device s) \<noteq> ONLINE then s
          else if \<not> IsValidUserCommandCode (cq_command_code c) then s
          else (case NotifyCommandHandler c s of
                  (Inl _, s1) \<Rightarrow> s1
                | (Inr (Some r), s1) \<Rightarrow>
                    SendCommandResponse (cq_target_device_id c) (response_to (dev_device_id (cs_device s1)) c (res_result_code r) (res_data r)) s1
                | (Inr None, s1) \<Rightarrow>
                    if cq_target_device_id c = dev_device_id (cs_device s1)
                    then SendCommandResponse (cq_target_device_id c) (response_to (dev_device_id (cs_device s1)) c RC_UNSUPPORTED_COMMAND []) s1
                    else s1))"

definition with_transactions ::
  "(CdmpTransactionService \<Rightarrow> CdmpTransactionService \<times> transaction_effect list) \<Rightarrow> CdmpCommandService \<Rightarrow> CdmpCommandService" where
  "with_transactions f s =
     (case f (cs_transaction_service s) of
        (t, es) \<Rightarrow> effects (map TransactionEffect es) (s\<lparr>cs_transaction_service := t\<rparr>))"

definition ProcessResponseFrame :: "bytes \<Rightarrow> CdmpCommandService \<Rightarrow> CdmpCommandService" where
  "ProcessResponseFrame frame s =
     (case CommandResponse_FromCanFrame frame of
        Inl _ \<Rightarrow> s
      | Inr response \<Rightarrow> with_transactions (CompleteTransaction response) s)"

text \<open>\<open>timeout\<close> is \<open>CONFIG_EERIE_LEAP_CDMP_CMD_TRANSACTION_TIMEOUT_MS\<close>; \<open>None\<close> is a call that never returns.\<close>

definition SendCommand ::
  "int \<Rightarrow> u64 \<Rightarrow> u8 \<Rightarrow> u8 \<Rightarrow> bytes \<Rightarrow> nat option \<Rightarrow> CdmpCommandService \<Rightarrow> (u8 \<times> CdmpCommandService) option" where
  "SendCommand timeout now target code d callback s =
     (if \<not> cs_canbus_valid s then Some (0, s)
      else if code = 0 then Some (0, s)
      else map_option (\<lambda>(i, t).
        (i, effects [SendRequestFrame (CommandRequest_ToCanFrame
               \<lparr>cq_target_device_id = target, cq_command_code = code, cq_transaction_id = i, cq_data = d\<rparr>)]
              (s\<lparr>cs_transaction_service := t\<rparr>)))
        (StartTransaction now target code timeout callback (cs_transaction_service s)))"

section \<open>Life cycle\<close>

definition CommandService_DoInitialize :: "CdmpCommandService \<Rightarrow> CdmpCommandService" where
  "CommandService_DoInitialize s =
     s\<lparr>cs_transaction_service := TransactionService_Initialize (cs_transaction_service s)\<rparr>"

text \<open>\<open>i\<close> and \<open>j\<close> are what the bus answers to the two registrations.\<close>

definition CommandService_DoStart :: "int \<Rightarrow> int \<Rightarrow> CdmpCommandService \<Rightarrow> CdmpCommandService" where
  "CommandService_DoStart i j s =
     (if \<not> cs_canbus_valid s then s
      else s\<lparr>cs_canbus_handler_id := i, cs_canbus_response_handler_id := j\<rparr>)"

definition CommandService_DoStop :: "CdmpCommandService \<Rightarrow> CdmpCommandService" where
  "CommandService_DoStop s =
     (if \<not> cs_canbus_valid s then s
      else let s1 = (if 0 \<le> cs_canbus_handler_id s
                     then (effects [RemoveCommandFrameHandler (cs_canbus_handler_id s)] s)\<lparr>cs_canbus_handler_id := -1\<rparr>
                     else s)
           in if 0 \<le> cs_canbus_response_handler_id s1
              then (effects [RemoveCommandFrameHandler (cs_canbus_response_handler_id s1)] s1)
                     \<lparr>cs_canbus_response_handler_id := -1\<rparr>
              else s1)"

definition Command_OnDeviceStatusChanged :: "CdmpDeviceStatus \<Rightarrow> CdmpCommandService \<Rightarrow> CdmpCommandService" where
  "Command_OnDeviceStatusChanged new_status s =
     (if new_status = ONLINE then with_transactions TransactionService_Start s
      else with_transactions TransactionService_Stop s)"

section \<open>Responses to requests\<close>

definition responses :: "CdmpCommandService \<Rightarrow> bytes list" where
  "responses s = concat (map (\<lambda>e. case e of SendResponseFrame f \<Rightarrow> [f] | _ \<Rightarrow> []) (cs_outbox s))"

lemma effects_simps [simp]:
  "cs_outbox (effects es s) = cs_outbox s @ es" "cs_canbus_valid (effects es s) = cs_canbus_valid s"
  "cs_device (effects es s) = cs_device s" "cs_transaction_service (effects es s) = cs_transaction_service s"
  by (simp_all add: effects_def)

lemma NotifyCommandHandler_frame:
  assumes "NotifyCommandHandler c s = (r, s')"
  shows "responses s' = responses s \<and> cs_device s' = cs_device s \<and> cs_canbus_valid s' = cs_canbus_valid s"
  using assms by (auto simp: NotifyCommandHandler_def responses_def split: option.splits)

lemma SendCommandResponse_responses:
  "responses (SendCommandResponse t r s) =
     responses s @ (if cs_canbus_valid s then [CommandResponse_ToCanFrame r] else [])"
  by (simp add: SendCommandResponse_def responses_def)

definition answer :: "CdmpCommandService \<Rightarrow> CdmpCommandRequestMessage \<Rightarrow> u8 \<Rightarrow> bytes \<Rightarrow> bytes" where
  "answer s c rc d = CommandResponse_ToCanFrame (response_to (dev_device_id (cs_device s)) c rc d)"

lemma status_response:
  "cq_command_code c = CMD_STATUS_REQUEST \<Longrightarrow>
     CommandResponseStatus_new own (cq_transaction_id c) rc st v h =
       response_to own c rc [status_code st, v, h]"
  by (simp add: CommandResponseStatus_new_def response_to_def)

definition one_answer :: "CdmpCommandService \<Rightarrow> CdmpCommandRequestMessage \<Rightarrow> CdmpCommandService \<Rightarrow> bool" where
  "one_answer s c s' \<longleftrightarrow> (\<exists>rc d. responses s' \<in> {responses s, responses s @ [answer s c rc d]})"

lemma one_answer_send:
  "responses s1 = responses s \<Longrightarrow>
     one_answer s c (SendCommandResponse t (response_to (dev_device_id (cs_device s)) c rc d) s1)"
  unfolding one_answer_def SendCommandResponse_responses
  by (intro exI [of _ rc] exI [of _ d]) (simp add: answer_def)

lemma one_answer_none: "responses s1 = responses s \<Longrightarrow> one_answer s c s1"
  by (simp add: one_answer_def)

lemma ProcessServiceRequestFrame_answer: "one_answer s c (ProcessServiceRequestFrame c s)"
proof -
  obtain r s1 where n: "NotifyCommandHandler c s = (r, s1)" by fastforce
  note f = NotifyCommandHandler_frame [OF n]
  have h: "responses (effects [CallServiceCommandHandler c] s) = responses s" by (simp add: responses_def)
  show ?thesis
  proof (cases "cq_command_code c = CMD_STATUS_REQUEST")
    case True
    then show ?thesis
      using n f one_answer_send [of s1 s c] one_answer_none [of s1 s c]
      by (auto simp: ProcessServiceRequestFrame_def status_response split: sum.split)
  next
    case False
    then show ?thesis
      using n f h one_answer_send [of "effects [CallServiceCommandHandler c] s" s c]
      by (auto simp: ProcessServiceRequestFrame_def one_answer_none Let_def split: option.split sum.split)
  qed
qed

lemma ProcessRequestFrame_answer:
  assumes "CommandRequest_FromCanFrame frame = Inr c"
  shows "one_answer s c (ProcessRequestFrame frame s)"
proof -
  obtain r s1 where n: "NotifyCommandHandler c s = (r, s1)" by fastforce
  note f = NotifyCommandHandler_frame [OF n]
  show ?thesis
    using assms n f one_answer_send [of s1 s c] ProcessServiceRequestFrame_answer [of s c]
    by (auto simp: ProcessRequestFrame_def one_answer_none split: option.split sum.split)
qed

lemma user_request_answered:
  assumes "CommandRequest_FromCanFrame frame = Inr c" and "cs_canbus_valid s" and "IsOnline (cs_device s)"
    and "cq_target_device_id c = dev_device_id (cs_device s)" and "\<not> IsValidServiceCommandCode (cq_command_code c)"
    and "IsValidUserCommandCode (cq_command_code c)"
    and "\<And>h. cs_command_handlers s (cq_command_code c) = Some h \<Longrightarrow> h (cq_transaction_id c) (cq_data c) = Inr r"
  shows "responses (ProcessRequestFrame frame s) = responses s @
    [if cs_command_handlers s (cq_command_code c) = None then answer s c RC_UNSUPPORTED_COMMAND []
     else answer s c (res_result_code r) (res_data r)]"
proof (cases "cs_command_handlers s (cq_command_code c)")
  case None
  with assms show ?thesis
    by (simp add: ProcessRequestFrame_def NotifyCommandHandler_def IsOnline_def SendCommandResponse_responses answer_def)
next
  case (Some h)
  with assms(1-6) assms(7) [OF Some] show ?thesis
    by (simp add: ProcessRequestFrame_def NotifyCommandHandler_def IsOnline_def SendCommandResponse_responses
        answer_def) (simp add: responses_def)
qed

lemma broadcast_service_silent:
  assumes "cq_target_device_id c \<noteq> dev_device_id (cs_device s)" and "cq_command_code c \<noteq> CMD_STATUS_REQUEST"
  shows "responses (ProcessServiceRequestFrame c s) = responses s"
proof -
  obtain r s1 where n: "NotifyCommandHandler c s = (r, s1)" by fastforce
  have h: "responses (effects [CallServiceCommandHandler c] s) = responses s" by (simp add: responses_def)
  show ?thesis
    using assms n h NotifyCommandHandler_frame [OF n]
    by (auto simp: ProcessServiceRequestFrame_def Let_def split: option.split sum.split)
qed


section \<open>A command and its answer\<close>

inductive command_step :: "CdmpCommandService \<Rightarrow> CdmpCommandService \<Rightarrow> bool" where
  request: "command_step s (ProcessRequestFrame frame s)"
| response: "command_step s (ProcessResponseFrame frame s)"
| send: "SendCommand timeout now target code d callback s = Some (i, s') \<Longrightarrow> command_step s s'"
| timeouts: "command_step s (with_transactions (ProcessTransactionTimeouts timeout now) s)"
| status: "command_step s (Command_OnDeviceStatusChanged new_status s)"
| initialize: "command_step s (CommandService_DoInitialize s)"
| start: "command_step s (CommandService_DoStart i j s)"
| stop: "command_step s (CommandService_DoStop s)"
| register_handler: "RegisterCommandHandler c h s = Inr s' \<Longrightarrow> command_step s s'"
| register_service_handler: "RegisterServiceCommandHandler c sh s = Inr s' \<Longrightarrow> command_step s s'"
| unregister_handler: "command_step s (UnregisterCommandHandler c s)"
| unregister_service_handler: "command_step s (UnregisterServiceCommandHandler c s)"
| device_changed: "command_step s (s\<lparr>cs_device := dev\<rparr>)"
| configure: "command_step s (s\<lparr>cs_canbus_valid := valid\<rparr>)"

inductive_cases command_stepE: "command_step s s'"

abbreviation command_reachable :: "CdmpCommandService \<Rightarrow> bool" where
  "command_reachable \<equiv> reachable (\<lambda>s. \<exists>dev. s = CommandService_new dev) command_step"

abbreviation transactions_reachable :: "CdmpTransactionService \<Rightarrow> bool" where
  "transactions_reachable \<equiv> reachable (\<lambda>s. s = TransactionService_new) transaction_step"

lemma transactions_simps [simp]:
  "cs_transaction_service (with_transactions f s) = fst (f (cs_transaction_service s))"
  "cs_transaction_service (SendCommandResponse t r s) = cs_transaction_service s"
  "cs_transaction_service (snd (NotifyCommandHandler c s)) = cs_transaction_service s"
  by (auto simp: with_transactions_def SendCommandResponse_def NotifyCommandHandler_def split: prod.split option.split)

lemma ProcessRequestFrame_transactions [simp]:
  "cs_transaction_service (ProcessRequestFrame frame s) = cs_transaction_service s"
proof -
  have n: "cs_transaction_service s1 = cs_transaction_service s" if "NotifyCommandHandler c s = (r, s1)" for c r s1
    using transactions_simps(3) [of c s] that by simp
  have "cs_transaction_service (ProcessServiceRequestFrame c s) = cs_transaction_service s" for c
    by (auto simp: ProcessServiceRequestFrame_def Let_def n split: prod.split sum.split option.split)
  then show ?thesis
    by (auto simp: ProcessRequestFrame_def n split: prod.split sum.split option.split)
qed

text \<open>The command service drives its transaction service only through the steps of the latter.\<close>

lemma command_step_simulates:
  "command_step s s' \<Longrightarrow> cs_transaction_service s' = cs_transaction_service s \<or>
     transaction_step (cs_transaction_service s) (cs_transaction_service s')"
proof (induction rule: command_step.induct)
  case (response s frame)
  then show ?case by (auto simp: ProcessResponseFrame_def intro: transaction_step.complete split: sum.split)
next
  case (send timeout now target code d callback s i s')
  then show ?case
    by (auto simp: SendCommand_def intro: transaction_step.begin_transaction split: if_splits)
qed (auto simp: Command_OnDeviceStatusChanged_def CommandService_DoInitialize_def CommandService_DoStart_def
      CommandService_DoStop_def RegisterCommandHandler_def RegisterServiceCommandHandler_def
      UnregisterCommandHandler_def UnregisterServiceCommandHandler_def Let_def
      intro: transaction_step.intros split: if_splits)

lemma command_reachable_transactions: "command_reachable s \<Longrightarrow> transactions_reachable (cs_transaction_service s)"
proof (induction rule: reachable.induct)
  case (start s)
  then show ?case by (auto simp: CommandService_new_def intro: reachable.start)
next
  case (move s t)
  then show ?case using command_step_simulates [OF move(2)] by (auto intro: reachable.move)
qed

lemma SendCommand_some:
  assumes "command_reachable s" and "cs_canbus_valid s" and "code \<noteq> 0"
  shows "\<exists>i t. SendCommand timeout now target code d callback s =
     Some (i, effects [SendRequestFrame (CommandRequest_ToCanFrame
        \<lparr>cq_target_device_id = target, cq_command_code = code, cq_transaction_id = i, cq_data = d\<rparr>)]
        (s\<lparr>cs_transaction_service := t\<rparr>)) \<and> transactions_wf t \<and>
     map_of (ts_pending_transactions t) i = Some \<lparr>pt_transaction_id = i, pt_start_time = now,
        pt_timeout = word_of_int timeout, pt_callback = callback, pt_expected_command = code, pt_target_device_id = target\<rparr>"
proof -
  have wf: "transactions_wf (cs_transaction_service s)"
    by (rule transaction_runs.reachable_inv [OF command_reachable_transactions [OF assms(1)]])
  obtain i t where start: "StartTransaction now target code timeout callback (cs_transaction_service s) = Some (i, t)"
    using StartTransaction_some [OF wf] by metis
  with StartTransaction_keeps [OF wf start] assms(2,3) show ?thesis by (auto simp: SendCommand_def)
qed

lemma ProcessResponseFrame_completes:
  assumes "CommandResponse_FromCanFrame g = Inr r" and "IsResponseTo t r"
    and "map_of (ts_pending_transactions (cs_transaction_service s)) (cp_transaction_id r) = Some t"
    and "pt_callback t = Some k"
  shows "cs_outbox (ProcessResponseFrame g s) =
      cs_outbox s @ [TransactionEffect (TransactionCallback k (pt_transaction_id t) (cp_result_code r) (cp_data r))] \<and>
    \<not> IsTransactionPending (cp_transaction_id r) (cs_transaction_service (ProcessResponseFrame g s))"
  using assms by (simp add: ProcessResponseFrame_def with_transactions_def CompleteTransaction_def InvokeCallback_def
      IsTransactionPending_def is_pending_def AList.delete_conv')

text \<open>
  C31. A command finds its way there and back: a unit that sends a user command to an online unit with
  a handler for it puts out one request frame; the other unit answers that frame with one response
  frame; and that frame makes the first unit call the callback of the command once, with the
  handler's result and data, and forget the transaction.
\<close>

theorem command_round_trip:
  assumes "command_reachable A" and "cs_canbus_valid A" and "cs_canbus_valid B" and "IsOnline (cs_device B)"
    and "IsValidUserCommandCode code" and "length d \<le> 5"
    and "cs_command_handlers B code = Some h" and "\<forall>i. h i d = Inr (r i) \<and> length (res_data (r i)) \<le> 4"
  shows "\<exists>i A' f g. SendCommand timeout now (dev_device_id (cs_device B)) code d (Some k) A = Some (i, A') \<and>
     cs_outbox A' = cs_outbox A @ [SendRequestFrame f] \<and>
     responses (ProcessRequestFrame f B) = responses B @ [g] \<and>
     cs_outbox (ProcessResponseFrame g A') =
       cs_outbox A' @ [TransactionEffect (TransactionCallback k i (res_result_code (r i)) (res_data (r i)))] \<and>
     \<not> IsTransactionPending i (cs_transaction_service (ProcessResponseFrame g A'))"
proof -
  let ?b = "dev_device_id (cs_device B)"
  have code: "code \<noteq> 0" "\<not> IsValidServiceCommandCode code"
    using assms(5) by (auto simp: IsValidUserCommandCode_def IsValidServiceCommandCode_def command_codes USER_COMMAND_CODE_MIN_def)
  obtain i A' t where send: "SendCommand timeout now ?b code d (Some k) A = Some (i, A')"
    and A': "A' = effects [SendRequestFrame (CommandRequest_ToCanFrame
        \<lparr>cq_target_device_id = ?b, cq_command_code = code, cq_transaction_id = i, cq_data = d\<rparr>)] (A\<lparr>cs_transaction_service := t\<rparr>)"
    and pending: "map_of (ts_pending_transactions t) i = Some \<lparr>pt_transaction_id = i, pt_start_time = now,
        pt_timeout = word_of_int timeout, pt_callback = Some k, pt_expected_command = code, pt_target_device_id = ?b\<rparr>"
    using SendCommand_some [OF assms(1,2) code(1), of timeout now ?b d "Some k"] by metis
  let ?c = "\<lparr>cq_target_device_id = ?b, cq_command_code = code, cq_transaction_id = i, cq_data = d\<rparr>"
  let ?t = "\<lparr>pt_transaction_id = i, pt_start_time = now, pt_timeout = word_of_int timeout, pt_callback = Some k,
    pt_expected_command = code, pt_target_device_id = ?b\<rparr>"
  let ?g = "answer B ?c (res_result_code (r i)) (res_data (r i))"
  have request: "CommandRequest_FromCanFrame (CommandRequest_ToCanFrame ?c) = Inr ?c"
    using assms(6) by (simp add: cq.roundtrip)
  have "responses (ProcessRequestFrame (CommandRequest_ToCanFrame ?c) B) = responses B @ [?g]"
    using user_request_answered [OF request assms(3,4), of "r i"] assms(5,7,8) code(2) by simp
  moreover have response: "CommandResponse_FromCanFrame ?g = Inr (response_to ?b ?c (res_result_code (r i)) (res_data (r i)))"
    using assms(8) by (simp add: answer_def cp.roundtrip response_to_def)
  have "cs_outbox (ProcessResponseFrame ?g A') =
       cs_outbox A' @ [TransactionEffect (TransactionCallback k i (res_result_code (r i)) (res_data (r i)))] \<and>
     \<not> IsTransactionPending i (cs_transaction_service (ProcessResponseFrame ?g A'))"
    using ProcessResponseFrame_completes [OF response, of ?t A' k] pending
    by (simp add: A' response_to_def IsResponseTo_def)
  ultimately show ?thesis using send A' by auto
qed

section \<open>Witnesses\<close>

definition command_device :: "u8 \<Rightarrow> CdmpDevice" where
  "command_device i = \<lparr>dev_device_id = i, dev_uid = 7, dev_protocol_version = 0x10, dev_health_status = 0,
     dev_features = 0, dev_last_heartbeat = 0, dev_uptime_counter = 0, dev_is_lowest_id_on_network = True,
     dev_staggered_message_delay = 0, dev_state_digest = 0, dev_status_machine = CdmpStatusMachine_new ONLINE\<rparr>"

definition demo_sender :: CdmpCommandService where
  "demo_sender = (CommandService_new (command_device 3))\<lparr>cs_canbus_valid := True\<rparr>"

text \<open>A unit that echoes the first byte of command 0x21.\<close>

definition demo_answerer :: CdmpCommandService where
  "demo_answerer = (CommandService_new (command_device 4))\<lparr>cs_canbus_valid := True,
     cs_command_handlers := [0x21 \<mapsto> (\<lambda>_ d. Inr \<lparr>res_result_code = 0, res_data = take 1 d\<rparr>)]\<rparr>"

lemma demo_sender_reachable: "command_reachable demo_sender"
proof -
  have "command_reachable (CommandService_new (command_device 3))" by (rule reachable.start) blast
  then show ?thesis unfolding demo_sender_def by (rule reachable.move) (rule command_step.configure)
qed


theorem command_round_trip_witness:
  "\<exists>i A' f g. SendCommand 100 0 4 0x21 [55] (Some 1) demo_sender = Some (i, A') \<and>
     cs_outbox (ProcessResponseFrame g A') = [SendRequestFrame f, TransactionEffect (TransactionCallback 1 i 0 [55])]"
proof -
  have "cs_canbus_valid demo_sender" "cs_canbus_valid demo_answerer" "IsOnline (cs_device demo_answerer)"
    "IsValidUserCommandCode 0x21" "length [55::u8] \<le> 5" "dev_device_id (cs_device demo_answerer) = 4"
    "cs_command_handlers demo_answerer 0x21 = Some (\<lambda>_ d. Inr \<lparr>res_result_code = 0, res_data = take 1 d\<rparr>)"
    "cs_outbox demo_sender = []"
    by (simp_all add: demo_sender_def demo_answerer_def CommandService_new_def command_device_def IsOnline_def
        CdmpStatusMachine_new_def IsValidUserCommandCode_def USER_COMMAND_CODE_MIN_def USER_COMMAND_CODE_MAX_def)
  with command_round_trip [where B = demo_answerer and code = "0x21" and d = "[55]" and timeout = 100 and now = 0 and k = 1
      and r = "\<lambda>_. \<lparr>res_result_code = 0, res_data = [55]\<rparr>", OF demo_sender_reachable]
  show ?thesis by fastforce
qed

end
