(* ===== verification/Cdmp_Heartbeat.thy ===== *)
theory Cdmp_Heartbeat
  imports Cdmp_Network_Props Cdmp_State_Props Cdmp_Command Service_Base
begin

text \<open>
  Heartbeats, \<open>src/subsys/cdmp/services/cdmp_heartbeat_service.h/.cpp\<close>: the task that sends them and
  the frames it hands to the network service. The theory also shows that the four CDMP services keep
  the contract of \<open>ServiceBase\<close>, each with its own invariant.
\<close>

section \<open>Model\<close>

datatype heartbeat_effect =
    SendHeartbeatFrame bytes
  | ScheduleHeartbeat
  | CancelHeartbeat
  | StopHeartbeatService
  | RemoveHeartbeatFrameHandler int

record CdmpHeartbeatService =
  hs_canbus_valid :: bool
  hs_device :: CdmpDevice
  hs_has_task :: bool
  hs_is_heartbeat_task_running :: bool
  hs_canbus_handler_id :: int
  hs_heartbeat_sequence_number :: u8
  hs_heartbeat_enabled :: bool
  hs_outbox :: "heartbeat_effect list"

definition HeartbeatService_new :: "CdmpDevice \<Rightarrow> CdmpHeartbeatService" where
  "HeartbeatService_new d = \<lparr>hs_canbus_valid = False, hs_device = d, hs_has_task = False,
     hs_is_heartbeat_task_running = False, hs_canbus_handler_id = -1, hs_heartbeat_sequence_number = 0,
     hs_heartbeat_enabled = True, hs_outbox = []\<rparr>"

definition hs_out :: "heartbeat_effect \<Rightarrow> CdmpHeartbeatService \<Rightarrow> CdmpHeartbeatService" where
  "hs_out e s = s\<lparr>hs_outbox := hs_outbox s @ [e]\<rparr>"

definition HeartbeatService_DoInitialize :: "CdmpHeartbeatService \<Rightarrow> CdmpHeartbeatService" where
  "HeartbeatService_DoInitialize s = s\<lparr>hs_has_task := True\<rparr>"

definition StartHeartbeatTask :: "CdmpHeartbeatService \<Rightarrow> CdmpHeartbeatService" where
  "StartHeartbeatTask s =
     (if hs_heartbeat_enabled s \<and> \<not> hs_is_heartbeat_task_running s \<and> hs_has_task s \<and> dev_status (hs_device s) = ONLINE
      then (hs_out ScheduleHeartbeat s)\<lparr>hs_is_heartbeat_task_running := True\<rparr>
      else s)"

text \<open>\<open>i\<close> is what the bus answers to the registration.\<close>

definition Heartbeat_RegisterCanHandlers ::
  "int \<Rightarrow> CdmpHeartbeatService \<Rightarrow> cxx_error option \<times> CdmpHeartbeatService" where
  "Heartbeat_RegisterCanHandlers i s =
     (if \<not> hs_canbus_valid s then (None, s)
      else (if i < 0 then Some RuntimeError else None, s\<lparr>hs_canbus_handler_id := i\<rparr>))"

definition Heartbeat_UnregisterCanHandlers :: "CdmpHeartbeatService \<Rightarrow> CdmpHeartbeatService" where
  "Heartbeat_UnregisterCanHandlers s =
     (if \<not> hs_canbus_valid s then s
      else (if 0 \<le> hs_canbus_handler_id s then hs_out (RemoveHeartbeatFrameHandler (hs_canbus_handler_id s)) s else s)
             \<lparr>hs_canbus_handler_id := -1\<rparr>)"

definition HeartbeatService_DoStart ::
  "int \<Rightarrow> CdmpHeartbeatService \<Rightarrow> cxx_error option \<times> CdmpHeartbeatService" where
  "HeartbeatService_DoStart i s =
     (case Heartbeat_RegisterCanHandlers i s of
        (Some e, s1) \<Rightarrow> (Some e, s1)
      | (None, s1) \<Rightarrow> (None, StartHeartbeatTask s1))"

definition HeartbeatService_DoStop :: "CdmpHeartbeatService \<Rightarrow> CdmpHeartbeatService" where
  "HeartbeatService_DoStop s =
     (let s1 = s\<lparr>hs_is_heartbeat_task_running := False\<rparr>;
          s2 = (if hs_has_task s1 then hs_out CancelHeartbeat s1 else s1)
      in Heartbeat_UnregisterCanHandlers s2)"

definition Heartbeat_OnDeviceStatusChanged ::
  "CdmpDeviceStatus \<Rightarrow> CdmpHeartbeatService \<Rightarrow> CdmpHeartbeatService" where
  "Heartbeat_OnDeviceStatusChanged new_status s =
     (if new_status = ONLINE then StartHeartbeatTask s
      else if new_status = OFFLINE \<or> new_status = VERSION_MISMATCH \<or> new_status = STATUS_ERROR
      then hs_out StopHeartbeatService s
      else s)"

text \<open>A received frame goes to the network service, whose exceptions are caught.\<close>

definition Heartbeat_ProcessFrame :: "int \<Rightarrow> bytes \<Rightarrow> CdmpNetworkService \<Rightarrow> CdmpNetworkService" where
  "Heartbeat_ProcessFrame now frame network =
     (case Heartbeat_FromCanFrame frame of
        Inl _ \<Rightarrow> network
      | Inr heartbeat \<Rightarrow> snd (UpdateDeviceFromHeartbeat now heartbeat network))"

definition SendHeartbeat :: "CdmpHeartbeatService \<Rightarrow> CdmpHeartbeatService" where
  "SendHeartbeat s =
     (if \<not> hs_canbus_valid s \<or> \<not> hs_heartbeat_enabled s then s
      else (hs_out (SendHeartbeatFrame (Heartbeat_ToCanFrame
              \<lparr>hb_device_id = dev_device_id (hs_device s), hb_health_status = dev_health_status (hs_device s),
               hb_sequence_number = hs_heartbeat_sequence_number s, hb_features = dev_features (hs_device s),
               hb_state_digest = dev_state_digest (hs_device s)\<rparr>)) s)
           \<lparr>hs_heartbeat_sequence_number := hs_heartbeat_sequence_number s + 1\<rparr>)"

definition SetHeartbeatEnabled :: "bool \<Rightarrow> CdmpHeartbeatService \<Rightarrow> CdmpHeartbeatService" where
  "SetHeartbeatEnabled enabled s = s\<lparr>hs_heartbeat_enabled := enabled\<rparr>"

text \<open>The delay after which the task runs again, if it does.\<close>

definition ProcessPeriodicHeartbeat :: "CdmpHeartbeatService \<Rightarrow> int option \<times> CdmpHeartbeatService" where
  "ProcessPeriodicHeartbeat s =
     (if \<not> hs_heartbeat_enabled s then (None, s)
      else let s1 = SendHeartbeat s
           in (if hs_heartbeat_enabled s1
               then Some (HEARTBEAT_INTERVAL_MS + int (dev_staggered_message_delay (hs_device s1))) else None, s1))"

section \<open>Life cycle of the services\<close>

text \<open>Work that always succeeds.\<close>

abbreviation succeeds :: "('s \<Rightarrow> 's) \<Rightarrow> 's \<Rightarrow> cxx_error option \<times> 's" where
  "succeeds f s \<equiv> (None, f s)"

interpretation network_service: plain_service "succeeds NetworkService_DoInitialize" "NetworkService_DoStart i"
  "succeeds NetworkService_DoStop" network_wf for i
proof unfold_locales
  fix s assume "network_wf s"
  note step = network_runs.step_inv [OF this]
  show "network_wf (snd (succeeds NetworkService_DoInitialize s))" using step [OF network_step.initialize] by simp
  show "network_wf (snd (NetworkService_DoStart i s))" by (rule step [OF network_step.start])
  show "network_wf (snd (succeeds NetworkService_DoStop s))" using step [OF network_step.stop] by simp
qed

interpretation state_service: plain_service "succeeds StateService_DoInitialize" "StateService_DoStart i j"
  "succeeds StateService_DoStop" "\<lambda>s. config_ok cfg \<and> state_wf cfg s" for i j cfg
proof unfold_locales
  fix s assume "config_ok cfg \<and> state_wf cfg s"
  note step = state_runs.step_inv [OF this]
  show "config_ok cfg \<and> state_wf cfg (snd (succeeds StateService_DoInitialize s))" using step [OF state_step.initialize] by simp
  show "config_ok cfg \<and> state_wf cfg (snd (StateService_DoStart i j s))" by (rule step [OF state_step.start])
  show "config_ok cfg \<and> state_wf cfg (snd (succeeds StateService_DoStop s))" using step [OF state_step.stop] by simp
qed

definition command_wf :: "CdmpCommandService \<Rightarrow> bool" where
  "command_wf s \<longleftrightarrow> transactions_wf (cs_transaction_service s)"

lemma command_step_wf: "command_wf s \<Longrightarrow> command_step s s' \<Longrightarrow> command_wf s'"
  using command_step_simulates [of s s'] transaction_step_wf by (auto simp: command_wf_def)

interpretation command_service: plain_service "succeeds CommandService_DoInitialize"
  "succeeds (CommandService_DoStart i j)" "succeeds CommandService_DoStop" command_wf for i j
proof unfold_locales
  fix s assume "command_wf s"
  note step = command_step_wf [OF this]
  show "command_wf (snd (succeeds CommandService_DoInitialize s))" using step [OF command_step.initialize] by simp
  show "command_wf (snd (succeeds (CommandService_DoStart i j) s))" using step [OF command_step.start] by simp
  show "command_wf (snd (succeeds CommandService_DoStop s))" using step [OF command_step.stop] by simp
qed

definition heartbeat_wf :: "CdmpHeartbeatService \<Rightarrow> bool" where
  "heartbeat_wf s \<longleftrightarrow> (hs_is_heartbeat_task_running s \<longrightarrow> hs_has_task s)"

interpretation heartbeat_service: plain_service "succeeds HeartbeatService_DoInitialize" "HeartbeatService_DoStart i"
  "succeeds HeartbeatService_DoStop" heartbeat_wf for i
  by unfold_locales (auto simp: heartbeat_wf_def HeartbeatService_DoInitialize_def HeartbeatService_DoStart_def
      Heartbeat_RegisterCanHandlers_def StartHeartbeatTask_def HeartbeatService_DoStop_def
      Heartbeat_UnregisterCanHandlers_def hs_out_def Let_def)

section \<open>Heartbeats on the wire\<close>

lemma stagger_bound: "CalculateStaggeredMessageTimeOffset is i \<le> 1275"
proof -
  let ?l = "sort (remdups (i # is))"
  have "length ?l = card (set (i # is))" by (metis length_remdups_card_conv length_sort)
  also have "\<dots> \<le> card (UNIV :: u8 set)" by (rule card_mono) auto
  finally have "length ?l \<le> 256" by (simp add: card_word)
  moreover have "length (takeWhile (\<lambda>j. j \<noteq> i) ?l) < length ?l"
  proof (rule ccontr)
    assume "\<not> ?thesis"
    then have "takeWhile (\<lambda>j. j \<noteq> i) ?l = ?l" by (metis length_takeWhile_le not_le_imp_less order_less_le takeWhile_eq_take take_all)
    then have "\<forall>j\<in>set ?l. j \<noteq> i" by (simp add: takeWhile_eq_all_conv)
    moreover have "i \<in> set ?l" by simp
    ultimately show False by blast
  qed
  ultimately show ?thesis by (simp add: CalculateStaggeredMessageTimeOffset_def STAGGERED_MESSAGE_TIME_OFFSET_MS_def)
qed

lemma FindPendingIdClaim_keeps:
  assumes "FindPendingIdClaim now i s = (c, s')"
  shows "ns_network_devices s' = ns_network_devices s" "ns_outbox s' = ns_outbox s"
    "ns_heartbeat_handlers s' = ns_heartbeat_handlers s"
  using assms by (auto simp: FindPendingIdClaim_def ExpirePendingIdClaims_def Let_def)

text \<open>The entry of a known device after its heartbeat.\<close>

definition refreshed :: "int \<Rightarrow> u16 \<Rightarrow> CdmpDevice \<Rightarrow> CdmpDevice" where
  "refreshed now features d = (fst (GoOnline True (UpdateHeartbeat now d)))\<lparr>dev_features := features\<rparr>"

lemma refreshed_last_heartbeat [simp]: "dev_last_heartbeat (refreshed now features d) = now"
  by (simp add: refreshed_def GoOnline_def dev_SetStatus_def UpdateHeartbeat_def split: prod.split)

lemma map_of_map_key:
  "map_of (map (\<lambda>(j, d). if j = i then (j, f d) else (j, d)) ds) k = (if k = i then map_option f (map_of ds k) else map_of ds k)"
  by (induction ds) auto

lemma known_heartbeat:
  assumes "IsPeerDeviceId (hb_device_id hb) s" and "table s (hb_device_id hb) = Some d"
  shows "fst (UpdateDeviceFromHeartbeat now hb s) = None \<and>
    ns_outbox (snd (UpdateDeviceFromHeartbeat now hb s)) = ns_outbox s @ [NotifyHeartbeat (ns_heartbeat_handlers s) hb] \<and>
    table (snd (UpdateDeviceFromHeartbeat now hb s)) =
      (table s)(hb_device_id hb \<mapsto> refreshed now (hb_features hb) d)"
proof -
  obtain c s1 where c: "FindPendingIdClaim now (hb_device_id hb) s = (c, s1)" by fastforce
  note keeps = FindPendingIdClaim_keeps [OF c]
  have add: "AddOrUpdateDevice now (hb_device_id hb) u (hb_features hb) s1 = Inr (False, s1\<lparr>ns_network_devices :=
     map (\<lambda>(j, d). if j = hb_device_id hb then (j, refreshed now (hb_features hb) d) else (j, d)) (ns_network_devices s1)\<rparr>)" for u
    unfolding refreshed_def using assms(2) keeps(1) by (simp add: AddOrUpdateDevice_def table_def)
  show ?thesis
    using assms c add keeps
    by (cases c) (auto simp: UpdateDeviceFromHeartbeat_def Let_def table_def notify_heartbeat_def out_def notify_joined_def
        clear_claim_def map_of_map_key fun_eq_iff)
qed

text \<open>
  A heartbeat that a unit sends tells every unit that has it in its table what it needs: the
  frame decodes to the unit's ID, features and state digest, the receiver's table entry is refreshed
  with the time of arrival and nothing else in the table changes, and the registered observers are
  given the heartbeat, once. Heartbeats come often enough: twice the interval of the task, stagger
  included, is less than the timeout after which a silent device is dropped.
\<close>

theorem heartbeat_delivered:
  assumes "hs_canbus_valid H" and "hs_heartbeat_enabled H"
    and "dev_staggered_message_delay (hs_device H) = CalculateStaggeredMessageTimeOffset is (dev_device_id (hs_device H))"
    and "IsPeerDeviceId (dev_device_id (hs_device H)) N" and "table N (dev_device_id (hs_device H)) = Some d"
  shows "\<exists>f hb delay H' N'. ProcessPeriodicHeartbeat H = (Some delay, H') \<and> hs_outbox H' = hs_outbox H @ [SendHeartbeatFrame f] \<and>
     Heartbeat_FromCanFrame f = Inr hb \<and> hb_device_id hb = dev_device_id (hs_device H) \<and>
     hb_features hb = dev_features (hs_device H) \<and> hb_state_digest hb = dev_state_digest (hs_device H) \<and>
     hs_heartbeat_sequence_number H' = hb_sequence_number hb + 1 \<and> 2 * delay < HEARTBEAT_TIMEOUT_MS \<and>
     N' = Heartbeat_ProcessFrame now f N \<and> ns_outbox N' = ns_outbox N @ [NotifyHeartbeat (ns_heartbeat_handlers N) hb] \<and>
     table N' = (table N)(hb_device_id hb \<mapsto> refreshed now (hb_features hb) d)"
proof -
  let ?hb = "\<lparr>hb_device_id = dev_device_id (hs_device H), hb_health_status = dev_health_status (hs_device H),
     hb_sequence_number = hs_heartbeat_sequence_number H, hb_features = dev_features (hs_device H),
     hb_state_digest = dev_state_digest (hs_device H)\<rparr>"
  let ?f = "Heartbeat_ToCanFrame ?hb"
  let ?delay = "HEARTBEAT_INTERVAL_MS + int (dev_staggered_message_delay (hs_device H))"
  have dec: "Heartbeat_FromCanFrame ?f = Inr ?hb" by (simp add: hb.roundtrip)
  have run: "ProcessPeriodicHeartbeat H = (Some ?delay, SendHeartbeat H)"
    "hs_outbox (SendHeartbeat H) = hs_outbox H @ [SendHeartbeatFrame ?f]"
    "hs_heartbeat_sequence_number (SendHeartbeat H) = hb_sequence_number ?hb + 1"
    using assms(1,2) by (simp_all add: ProcessPeriodicHeartbeat_def SendHeartbeat_def hs_out_def Let_def)
  have "2 * ?delay < HEARTBEAT_TIMEOUT_MS"
    using assms(3) stagger_bound [of "is" "dev_device_id (hs_device H)"]
    by (simp add: HEARTBEAT_TIMEOUT_MS_def HEARTBEAT_INTERVAL_MS_def)
  moreover have "Heartbeat_ProcessFrame now ?f N = snd (UpdateDeviceFromHeartbeat now ?hb N)"
    by (simp add: Heartbeat_ProcessFrame_def dec)
  ultimately show ?thesis
    using run dec known_heartbeat [of ?hb N d now] assms(4,5)
    by (intro exI [of _ ?f] exI [of _ ?hb] exI [of _ ?delay] exI [of _ "SendHeartbeat H"]
        exI [of _ "Heartbeat_ProcessFrame now ?f N"]) simp
qed

definition demo_heartbeat :: CdmpHeartbeatService where
  "demo_heartbeat = (HeartbeatService_new (demo_device 4))\<lparr>hs_canbus_valid := True\<rparr>"

theorem heartbeat_delivered_witness:
  "\<exists>f. ns_outbox (Heartbeat_ProcessFrame 77 f (demo_network\<lparr>ns_network_devices := [(4, demo_device 4)]\<rparr>)) \<noteq> [] \<and>
     hs_outbox (snd (ProcessPeriodicHeartbeat demo_heartbeat)) = [SendHeartbeatFrame f]"
proof -
  have "hs_canbus_valid demo_heartbeat" "hs_heartbeat_enabled demo_heartbeat" "dev_device_id (hs_device demo_heartbeat) = 4"
    "dev_staggered_message_delay (hs_device demo_heartbeat) = CalculateStaggeredMessageTimeOffset [] 4"
    "IsPeerDeviceId 4 (demo_network\<lparr>ns_network_devices := [(4, demo_device 4)]\<rparr>)"
    "table (demo_network\<lparr>ns_network_devices := [(4, demo_device 4)]\<rparr>) 4 = Some (demo_device 4)" "hs_outbox demo_heartbeat = []"
    by (simp_all add: demo_heartbeat_def HeartbeatService_new_def demo_device_def demo_network_def NetworkService_new_def
        IsPeerDeviceId_def table_def CalculateStaggeredMessageTimeOffset_def DEVICE_ID_UNASSIGNED_def DEVICE_ID_BROADCAST_def)
  with heartbeat_delivered [of demo_heartbeat "[]" "demo_network\<lparr>ns_network_devices := [(4, demo_device 4)]\<rparr>" "demo_device 4" 77]
  show ?thesis by fastforce
qed

section \<open>Runs of the life cycle\<close>

lemma network_new_wf: "network_wf (NetworkService_new d)"
  using network_runs.init_inv by blast

text \<open>The calls of a service whose work touches only its own data.\<close>

definition lifecycle_calls_of ::
  "('s \<Rightarrow> cxx_error option \<times> 's) \<Rightarrow> ('s \<Rightarrow> cxx_error option \<times> 's) \<Rightarrow> ('s \<Rightarrow> cxx_error option \<times> 's) \<Rightarrow> 's do_work set" where
  "lifecycle_calls_of initialize start stop =
     {Service_Initialize (own_work initialize), Service_Start (own_work start), Service_Stop (own_work stop),
      Service_Pause False refuse_work, Service_Resume False refuse_work}"

definition run_lifecycle :: "'s do_work list \<Rightarrow> 's \<Rightarrow> 's ServiceBase" where
  "run_lifecycle cs s = fold (\<lambda>c sb. snd (c sb)) cs (ServiceBase_new s)"



text \<open>
  A heartbeat task that ends because heartbeats were disabled never runs again while the service
  runs: its running flag stays set, so neither enabling heartbeats nor the unit coming online
  schedules it.
\<close>

theorem disabled_heartbeats_stay_off:
  assumes "hs_is_heartbeat_task_running s"
  shows "case ProcessPeriodicHeartbeat (SetHeartbeatEnabled False s) of (reschedule, s1) \<Rightarrow>
    reschedule = None \<and>
    (let s2 = SetHeartbeatEnabled True s1
     in hs_heartbeat_enabled s2 \<and> hs_outbox s2 = hs_outbox s \<and> StartHeartbeatTask s2 = s2 \<and>
        Heartbeat_OnDeviceStatusChanged ONLINE s2 = s2)"
  using assms by (simp add: ProcessPeriodicHeartbeat_def SetHeartbeatEnabled_def StartHeartbeatTask_def
      Heartbeat_OnDeviceStatusChanged_def)

theorem disabled_heartbeats_stay_off_witness:
  "let s = StartHeartbeatTask (HeartbeatService_DoInitialize demo_heartbeat)
   in hs_outbox s = [ScheduleHeartbeat] \<and>
      hs_outbox (Heartbeat_OnDeviceStatusChanged ONLINE (SetHeartbeatEnabled True
        (snd (ProcessPeriodicHeartbeat (SetHeartbeatEnabled False s))))) = [ScheduleHeartbeat]"
proof -
  let ?s = "StartHeartbeatTask (HeartbeatService_DoInitialize demo_heartbeat)"
  have "hs_is_heartbeat_task_running ?s" "hs_outbox ?s = [ScheduleHeartbeat]"
    by (simp_all add: StartHeartbeatTask_def HeartbeatService_DoInitialize_def demo_heartbeat_def HeartbeatService_new_def
        demo_device_def hs_out_def CdmpStatusMachine_new_def)
  with disabled_heartbeats_stay_off [of ?s] show ?thesis by (simp add: Let_def split: prod.splits)
qed

end
