(* ===== verification/Smp_Can.thy ===== *)
theory Smp_Can
  imports Rt_Prelude
begin

text \<open>
  The SMP packet header (\<open>src/subsys/smp/smp_header.h\<close>) and the parts of SMP over CAN
  (\<open>src/subsys/smp/can/\<close>): frame format, framer, reassembler and pacer. A packet is a list of bytes;
  the reassembler's buffer is a list of fixed length that is written in place, and \<open>reassembler_wf\<close>
  shows that the differences of sizes the code takes never run below zero. Times are unbounded
  integers, with the narrowing casts of the code written out.
\<close>

section \<open>Header\<close>

definition SMP_HEADER_SIZE :: nat where "SMP_HEADER_SIZE = 8"
definition OP_READ :: u8 where "OP_READ = 0"
definition OP_READ_RESPONSE :: u8 where "OP_READ_RESPONSE = 1"
definition OP_WRITE :: u8 where "OP_WRITE = 2"
definition OP_WRITE_RESPONSE :: u8 where "OP_WRITE_RESPONSE = 3"

record SmpHeader =
  sh_operation :: u8
  sh_version :: u8
  sh_flags :: u8
  sh_length :: u16
  sh_group :: u16
  sh_sequence :: u8
  sh_command_id :: u8

definition SmpHeader_Parse :: "bytes \<Rightarrow> SmpHeader option" where
  "SmpHeader_Parse d =
     (if length d < SMP_HEADER_SIZE then None
      else Some \<lparr>sh_operation = d ! 0 AND 7, sh_version = drop_bit 3 (d ! 0) AND 3, sh_flags = d ! 1,
                 sh_length = u16_of_be (d ! 2) (d ! 3), sh_group = u16_of_be (d ! 4) (d ! 5),
                 sh_sequence = d ! 6, sh_command_id = d ! 7\<rparr>)"

definition SmpHeader_Encode :: "SmpHeader \<Rightarrow> bytes" where
  "SmpHeader_Encode h =
     [(sh_operation h AND 7) OR push_bit 3 (sh_version h AND 3), sh_flags h] @ u16_be (sh_length h) @
     u16_be (sh_group h) @ [sh_sequence h, sh_command_id h]"

definition GetPacketSize :: "SmpHeader \<Rightarrow> nat" where
  "GetPacketSize h = SMP_HEADER_SIZE + unat (sh_length h)"

definition IsRequest :: "SmpHeader \<Rightarrow> bool" where
  "IsRequest h \<longleftrightarrow> sh_operation h = OP_READ \<or> sh_operation h = OP_WRITE"

definition IsResponse :: "SmpHeader \<Rightarrow> bool" where
  "IsResponse h \<longleftrightarrow> sh_operation h = OP_READ_RESPONSE \<or> sh_operation h = OP_WRITE_RESPONSE"

section \<open>Frame format\<close>

text \<open>A format is its \<open>is_can_fd_\<close>.\<close>

type_synonym SmpCanFrameFormat = bool

definition CLASSIC_FRAME_SIZE :: nat where "CLASSIC_FRAME_SIZE = 8"
definition CAN_FD_FRAME_SIZE :: nat where "CAN_FD_FRAME_SIZE = 64"
definition CAN_FD_LENGTHS :: "nat list" where "CAN_FD_LENGTHS = [12, 16, 20, 24, 32, 48, 64]"
definition START_FLAG :: u8 where "START_FLAG = 0x80"
definition SEQUENCE_MASK :: u8 where "SEQUENCE_MASK = 0x7F"
definition CLASSIC_FRAME_BIT_TIMES :: nat where "CLASSIC_FRAME_BIT_TIMES = 160"
definition CAN_FD_NOMINAL_BIT_TIMES :: nat where "CAN_FD_NOMINAL_BIT_TIMES = 60"
definition CAN_FD_DATA_BIT_TIMES :: nat where "CAN_FD_DATA_BIT_TIMES = 700"
definition NANOS_PER_SECOND :: nat where "NANOS_PER_SECOND = 1000000000"

definition GetFrameSize :: "SmpCanFrameFormat \<Rightarrow> nat" where
  "GetFrameSize fd = (if fd then CAN_FD_FRAME_SIZE else CLASSIC_FRAME_SIZE)"

definition GetDataSize :: "SmpCanFrameFormat \<Rightarrow> nat" where
  "GetDataSize fd = GetFrameSize fd - 1"

definition GetPaddedSize :: "SmpCanFrameFormat \<Rightarrow> nat \<Rightarrow> nat" where
  "GetPaddedSize fd n =
     (if \<not> fd \<or> n \<le> CLASSIC_FRAME_SIZE then n
      else case find (\<lambda>l. n \<le> l) CAN_FD_LENGTHS of Some l \<Rightarrow> l | None \<Rightarrow> n)"

definition GetFrameCount :: "SmpCanFrameFormat \<Rightarrow> nat \<Rightarrow> nat" where
  "GetFrameCount fd packet_size = (packet_size + GetDataSize fd - 1) div GetDataSize fd"

definition GetFrameTimeNs :: "SmpCanFrameFormat \<Rightarrow> u32 \<Rightarrow> u32 \<Rightarrow> u32" where
  "GetFrameTimeNs fd bitrate data_bitrate =
     (if bitrate = 0 then 0
      else if \<not> fd then of_nat (CLASSIC_FRAME_BIT_TIMES * NANOS_PER_SECOND div unat bitrate)
      else let rate = (if data_bitrate = 0 then bitrate else data_bitrate)
           in of_nat (CAN_FD_NOMINAL_BIT_TIMES * NANOS_PER_SECOND div unat bitrate +
                      CAN_FD_DATA_BIT_TIMES * NANOS_PER_SECOND div unat rate))"

lemmas frame_sizes = CLASSIC_FRAME_SIZE_def CAN_FD_FRAME_SIZE_def CAN_FD_LENGTHS_def GetFrameSize_def GetDataSize_def

section \<open>Framer\<close>

record SmpCanFramer =
  fr_packet :: bytes
  fr_format :: SmpCanFrameFormat
  fr_offset :: nat
  fr_sequence :: u8

definition SmpCanFramer_new :: "bytes \<Rightarrow> SmpCanFrameFormat \<Rightarrow> SmpCanFramer" where
  "SmpCanFramer_new packet fmt = \<lparr>fr_packet = packet, fr_format = fmt, fr_offset = 0, fr_sequence = 0\<rparr>"

definition IsDone :: "SmpCanFramer \<Rightarrow> bool" where
  "IsDone f \<longleftrightarrow> length (fr_packet f) \<le> fr_offset f"

definition Framer_data_size :: "SmpCanFramer \<Rightarrow> nat" where
  "Framer_data_size f = min (GetDataSize (fr_format f)) (length (fr_packet f) - fr_offset f)"

text \<open>The first \<open>frame_size\<close> bytes of the frame buffer, with the padding; empty when done.\<close>

definition Framer_Encode :: "SmpCanFramer \<Rightarrow> bytes" where
  "Framer_Encode f =
     (if IsDone f then []
      else let n = Framer_data_size f;
               control = (if fr_offset f = 0 then START_FLAG else 0) OR (fr_sequence f AND SEQUENCE_MASK);
               frame_size = GetPaddedSize (fr_format f) (n + 1)
           in control # take n (drop (fr_offset f) (fr_packet f)) @ replicate (frame_size - (n + 1)) 0)"

definition Framer_Advance :: "SmpCanFramer \<Rightarrow> SmpCanFramer" where
  "Framer_Advance f =
     (if IsDone f then f
      else f\<lparr>fr_offset := fr_offset f + Framer_data_size f,
             fr_sequence := (fr_sequence f + 1) AND SEQUENCE_MASK\<rparr>)"

text \<open>The frames a sender takes from a framer, one \<open>Encode\<close> and \<open>Advance\<close> after the other.\<close>

function frames_of :: "SmpCanFramer \<Rightarrow> bytes list" where
  "frames_of f = (if IsDone f then [] else Framer_Encode f # frames_of (Framer_Advance f))"
  by pat_completeness auto
termination
  by (relation "measure (\<lambda>f. length (fr_packet f) - fr_offset f)")
    (auto simp: Framer_Advance_def IsDone_def Framer_data_size_def frame_sizes)

declare frames_of.simps [simp del]

section \<open>Reassembler\<close>

datatype reassembly = IN_PROGRESS | COMPLETE | DROPPED | IGNORED

record SmpCanReassembler =
  sr_buffer :: bytes
  sr_format :: SmpCanFrameFormat
  sr_timeout_ms :: int
  sr_length :: nat
  sr_packet_size :: nat
  sr_last_frame_ms :: int
  sr_next_sequence :: u8
  sr_is_active :: bool

definition SmpCanReassembler_new :: "int \<Rightarrow> SmpCanReassembler" where
  "SmpCanReassembler_new timeout = \<lparr>sr_buffer = [], sr_format = False, sr_timeout_ms = timeout, sr_length = 0,
     sr_packet_size = 0, sr_last_frame_ms = 0, sr_next_sequence = 0, sr_is_active = False\<rparr>"

definition Reassembler_Reset :: "SmpCanReassembler \<Rightarrow> SmpCanReassembler" where
  "Reassembler_Reset r = r\<lparr>sr_length := 0, sr_packet_size := 0, sr_next_sequence := 0, sr_is_active := False\<rparr>"

definition Reassembler_Attach :: "bytes \<Rightarrow> SmpCanFrameFormat \<Rightarrow> SmpCanReassembler \<Rightarrow> SmpCanReassembler" where
  "Reassembler_Attach buffer fmt r = Reassembler_Reset (r\<lparr>sr_buffer := buffer, sr_format := fmt\<rparr>)"

definition IsExpired :: "int \<Rightarrow> SmpCanReassembler \<Rightarrow> bool" where
  "IsExpired now r \<longleftrightarrow> sr_is_active r \<and> now - sr_last_frame_ms r > sr_timeout_ms r"

definition IsStartFrame :: "bytes \<Rightarrow> bool" where
  "IsStartFrame frame \<longleftrightarrow> frame \<noteq> [] \<and> hd frame AND START_FLAG \<noteq> 0"

definition Reassembler_Drop :: "SmpCanReassembler \<Rightarrow> reassembly \<times> SmpCanReassembler" where
  "Reassembler_Drop r = (DROPPED, Reassembler_Reset r)"

definition finish_append :: "nat \<Rightarrow> nat \<Rightarrow> bytes \<Rightarrow> SmpCanReassembler \<Rightarrow> reassembly \<times> SmpCanReassembler" where
  "finish_append start copied d r =
     (if sr_packet_size r = 0 \<or> sr_length r < sr_packet_size r then
        (if length d < GetDataSize (sr_format r) \<or> copied < length d then Reassembler_Drop r else (IN_PROGRESS, r))
      else if GetPaddedSize (sr_format r) (sr_packet_size r - start + 1) \<noteq> length d + 1 then Reassembler_Drop r
      else (COMPLETE, r\<lparr>sr_length := sr_packet_size r, sr_is_active := False\<rparr>))"

definition Reassembler_Append :: "bytes \<Rightarrow> SmpCanReassembler \<Rightarrow> reassembly \<times> SmpCanReassembler" where
  "Reassembler_Append d r =
     (if d = [] then Reassembler_Drop r
      else let start = sr_length r;
               copied = min (length d) (length (sr_buffer r) - start);
               r1 = r\<lparr>sr_buffer := take start (sr_buffer r) @ take copied d @ drop (start + copied) (sr_buffer r),
                      sr_length := start + copied\<rparr>
           in if sr_packet_size r1 = 0 \<and> SMP_HEADER_SIZE \<le> sr_length r1
              then (case SmpHeader_Parse (take (sr_length r1) (sr_buffer r1)) of
                      None \<Rightarrow> Reassembler_Drop r1
                    | Some header \<Rightarrow>
                        let r2 = r1\<lparr>sr_packet_size := GetPacketSize header\<rparr>
                        in if sr_packet_size r2 > length (sr_buffer r2) then Reassembler_Drop r2
                           else finish_append start copied d r2)
              else finish_append start copied d r1)"

definition Reassembler_Accept :: "bytes \<Rightarrow> int \<Rightarrow> SmpCanReassembler \<Rightarrow> reassembly \<times> SmpCanReassembler" where
  "Reassembler_Accept frame now r0 =
     (let r = (if IsExpired now r0 then Reassembler_Reset r0 else r0)
      in if frame = [] \<or> length frame > GetFrameSize (sr_format r)
         then (if sr_is_active r then Reassembler_Drop r else (IGNORED, r))
         else let sequence = hd frame AND SEQUENCE_MASK;
                  go = (\<lambda>r. Reassembler_Append (tl frame)
                    (r\<lparr>sr_last_frame_ms := now, sr_next_sequence := (sequence + 1) AND SEQUENCE_MASK\<rparr>))
              in if IsStartFrame frame
                 then let r1 = Reassembler_Reset r
                      in if sequence \<noteq> 0 then Reassembler_Drop r1 else go (r1\<lparr>sr_is_active := True\<rparr>)
                 else if \<not> sr_is_active r then (IGNORED, r)
                 else if sequence \<noteq> sr_next_sequence r then Reassembler_Drop r
                 else go r)"

section \<open>Pacer\<close>

record SmpCanPacer =
  pa_rate :: int
  pa_frame_cost :: int
  pa_capacity :: int
  pa_credit :: int
  pa_last_update_us :: int

definition SmpCanPacer_idle :: SmpCanPacer where
  "SmpCanPacer_idle = \<lparr>pa_rate = 0, pa_frame_cost = 0, pa_capacity = 0, pa_credit = 0, pa_last_update_us = 0\<rparr>"

definition SmpCanPacer_new :: "u32 \<Rightarrow> u8 \<Rightarrow> u32 \<Rightarrow> SmpCanPacer result" where
  "SmpCanPacer_new frame_time_ns share_percent burst_frames =
     (if frame_time_ns = 0 \<or> share_percent = 0 \<or> share_percent > 100 \<or> burst_frames = 0 then Inl InvalidArgument
      else Inr \<lparr>pa_rate = uint share_percent * 1000, pa_frame_cost = uint frame_time_ns * 100,
                pa_capacity = uint burst_frames * (uint frame_time_ns * 100), pa_credit = 0, pa_last_update_us = 0\<rparr>)"

definition Pacer_Reset :: "int \<Rightarrow> SmpCanPacer \<Rightarrow> SmpCanPacer" where
  "Pacer_Reset now p = p\<lparr>pa_credit := pa_capacity p, pa_last_update_us := now\<rparr>"

definition Pacer_Update :: "int \<Rightarrow> SmpCanPacer \<Rightarrow> SmpCanPacer" where
  "Pacer_Update now p =
     (if pa_rate p = 0 \<or> now \<le> pa_last_update_us p then p
      else let elapsed = min (now - pa_last_update_us p) (pa_capacity p div pa_rate p + 1)
           in p\<lparr>pa_credit := min (pa_capacity p) (pa_credit p + elapsed * pa_rate p), pa_last_update_us := now\<rparr>)"

definition CanSend :: "SmpCanPacer \<Rightarrow> bool" where
  "CanSend p \<longleftrightarrow> 0 < pa_rate p \<and> pa_frame_cost p \<le> pa_credit p"

definition Pacer_OnSent :: "SmpCanPacer \<Rightarrow> SmpCanPacer" where
  "Pacer_OnSent p = p\<lparr>pa_credit := pa_credit p - pa_frame_cost p\<rparr>"

definition INT64_MAX :: int where "INT64_MAX = 2 ^ 63 - 1"

definition GetWaitUs :: "u32 \<Rightarrow> SmpCanPacer \<Rightarrow> int" where
  "GetWaitUs frames p =
     (if pa_rate p = 0 then INT64_MAX
      else let needed = min (pa_capacity p) (uint (max frames 1) * pa_frame_cost p)
           in if needed \<le> pa_credit p then 0 else (needed - pa_credit p + pa_rate p - 1) div pa_rate p)"

definition GetFramesPerSecond :: "SmpCanPacer \<Rightarrow> u32" where
  "GetFramesPerSecond p =
     (if pa_frame_cost p = 0 then 0 else word_of_int (pa_rate p * 1000000 div pa_frame_cost p))"

section \<open>Headers and control bytes\<close>

lemma Parse_prefix:
  assumes "take 8 a = take 8 b" and "8 \<le> length a" and "8 \<le> length b"
  shows "SmpHeader_Parse a = SmpHeader_Parse b"
proof -
  have "a ! i = b ! i" if "i < 8" for i
    using arg_cong [OF assms(1), of "\<lambda>l. l ! i"] that by simp
  then show ?thesis using assms(2,3) by (simp add: SmpHeader_Parse_def SMP_HEADER_SIZE_def)
qed

lemma GetPacketSize_pos [simp]: "0 < GetPacketSize h" "8 \<le> GetPacketSize h"
  by (simp_all add: GetPacketSize_def SMP_HEADER_SIZE_def)

lemma START_FLAG_bits [simp]: "START_FLAG \<noteq> 0" "START_FLAG AND SEQUENCE_MASK = 0"
  by (simp_all add: START_FLAG_def SEQUENCE_MASK_def)

lemma sequence_bits [simp]:
  "(START_FLAG OR (s AND SEQUENCE_MASK)) AND SEQUENCE_MASK = s AND SEQUENCE_MASK"
  "(START_FLAG OR (s AND SEQUENCE_MASK)) AND START_FLAG \<noteq> 0"
  "(s AND SEQUENCE_MASK) AND SEQUENCE_MASK = s AND SEQUENCE_MASK"
  "(s AND SEQUENCE_MASK) AND START_FLAG = 0"
proof -
  have m: "START_FLAG AND SEQUENCE_MASK = 0" "SEQUENCE_MASK AND START_FLAG = 0" "START_FLAG AND START_FLAG = START_FLAG"
    "SEQUENCE_MASK AND SEQUENCE_MASK = SEQUENCE_MASK" "START_FLAG \<noteq> 0"
    by (simp_all add: START_FLAG_def SEQUENCE_MASK_def)
  show "(s AND SEQUENCE_MASK) AND SEQUENCE_MASK = s AND SEQUENCE_MASK" "(s AND SEQUENCE_MASK) AND START_FLAG = 0"
    by (simp_all add: and.assoc m)
  then show "(START_FLAG OR (s AND SEQUENCE_MASK)) AND SEQUENCE_MASK = s AND SEQUENCE_MASK"
    "(START_FLAG OR (s AND SEQUENCE_MASK)) AND START_FLAG \<noteq> 0"
    by (simp_all add: bit.conj_disj_distrib2 m)
qed

section \<open>Sizes of frames\<close>

lemma GetPaddedSize_ge: "n \<le> GetPaddedSize fd n"
  by (auto simp: GetPaddedSize_def find_Some_iff split: option.split)

lemma GetPaddedSize_full [simp]: "GetPaddedSize fd (Suc (GetDataSize fd)) = Suc (GetDataSize fd)"
  by (cases fd) (simp_all add: GetPaddedSize_def frame_sizes)

lemma GetPaddedSize_le: "n \<le> GetFrameSize fd \<Longrightarrow> GetPaddedSize fd n \<le> GetFrameSize fd"
  by (cases fd) (auto simp: GetPaddedSize_def frame_sizes)

lemma GetDataSize_ge: "7 \<le> GetDataSize fd" "GetFrameSize fd = Suc (GetDataSize fd)"
  by (simp_all add: frame_sizes)

lemma length_Framer_Encode:
  assumes "\<not> IsDone f"
  shows "length (Framer_Encode f) = GetPaddedSize (fr_format f) (Framer_data_size f + 1)"
proof -
  have "Framer_data_size f \<le> length (fr_packet f) - fr_offset f" by (simp add: Framer_data_size_def)
  then show ?thesis
    using assms GetPaddedSize_ge [of "Framer_data_size f + 1" "fr_format f"] by (simp add: Framer_Encode_def Let_def)
qed

section \<open>Reassembly of frames\<close>

text \<open>A packet as SMP sends it: a header, and as many bytes after it as the header says.\<close>

definition smp_packet :: "bytes \<Rightarrow> bool" where
  "smp_packet p \<longleftrightarrow> (\<exists>h. SmpHeader_Parse p = Some h \<and> GetPacketSize h = length p)"

lemma smp_packet_length: "smp_packet p \<Longrightarrow> 8 \<le> length p"
  by (auto simp: smp_packet_def SmpHeader_Parse_def SMP_HEADER_SIZE_def split: if_splits)

text \<open>The packet in progress: \<open>off\<close> bytes of \<open>p\<close> are in the buffer.\<close>

definition holds :: "bytes \<Rightarrow> nat \<Rightarrow> SmpCanReassembler \<Rightarrow> bool" where
  "holds p off r \<longleftrightarrow> sr_is_active r \<and> sr_length r = off \<and> take off (sr_buffer r) = take off p \<and>
     sr_packet_size r = (if 8 \<le> off then length p else 0)"

lemma Append_eq:
  assumes "d \<noteq> []" and "sr_length r = off" and "copied = min (length d) (length (sr_buffer r) - off)"
    and "b = take off (sr_buffer r) @ take copied d @ drop (off + copied) (sr_buffer r)"
  shows "Reassembler_Append d r =
    (if sr_packet_size r = 0 \<and> 8 \<le> off + copied
     then (case SmpHeader_Parse (take (off + copied) b) of
             None \<Rightarrow> Reassembler_Drop (r\<lparr>sr_buffer := b, sr_length := off + copied\<rparr>)
           | Some h \<Rightarrow>
               if GetPacketSize h > length b
               then Reassembler_Drop (r\<lparr>sr_buffer := b, sr_length := off + copied, sr_packet_size := GetPacketSize h\<rparr>)
               else finish_append off copied d
                 (r\<lparr>sr_buffer := b, sr_length := off + copied, sr_packet_size := GetPacketSize h\<rparr>))
     else finish_append off copied d (r\<lparr>sr_buffer := b, sr_length := off + copied\<rparr>))"
  using assms by (simp add: Reassembler_Append_def Let_def SMP_HEADER_SIZE_def del: take_append split: option.split)

lemma packet_size_same: "sr_packet_size r = v \<Longrightarrow> r\<lparr>sr_buffer := b, sr_length := l, sr_packet_size := v\<rparr> = r\<lparr>sr_buffer := b, sr_length := l\<rparr>"
  by (cases r) simp

lemma Append_step:
  assumes r: "holds p off r" and p: "smp_packet p" and off: "off < length p" and fits: "length p \<le> length (sr_buffer r)"
    and n: "n = min (GetDataSize (sr_format r)) (length p - off)"
    and d: "d = take n (drop off p) @ pad" "Suc (length d) = GetPaddedSize (sr_format r) (Suc n)"
  shows "\<exists>b. length b = length (sr_buffer r) \<and>
    (if off + n < length p
     then Reassembler_Append d r =
            (IN_PROGRESS, r\<lparr>sr_buffer := b, sr_length := off + n, sr_packet_size := if 8 \<le> off + n then length p else 0\<rparr>) \<and>
          take (off + n) b = take (off + n) p
     else Reassembler_Append d r =
            (COMPLETE, r\<lparr>sr_buffer := b, sr_length := length p, sr_packet_size := length p, sr_is_active := False\<rparr>) \<and>
          take (length p) b = p)"
proof -
  have r': "sr_length r = off" "take off (sr_buffer r) = take off p" "sr_packet_size r = (if 8 \<le> off then length p else 0)"
    using r by (simp_all add: holds_def)
  have n0: "0 < n" "n \<le> length p - off" using n off GetDataSize_ge(1) [of "sr_format r"] by auto
  have dn: "take n d = take n (drop off p)" "n \<le> length d" "d \<noteq> []" using d n0 by auto
  define copied where "copied = min (length d) (length (sr_buffer r) - off)"
  have cn: "n \<le> copied" using dn n0 fits by (simp add: copied_def)
  define b where "b = take off (sr_buffer r) @ take copied d @ drop (off + copied) (sr_buffer r)"
  have bl: "length b = length (sr_buffer r)"
    using fits off by (simp add: b_def copied_def min_def)
  have bt: "take (off + n) b = take (off + n) p"
  proof -
    have "take (off + n) b = take off p @ take n (take copied d)"
      using r'(2) off fits cn by (auto simp: b_def copied_def min_def take_add)
    also have "take n (take copied d) = take n (drop off p)" using cn dn(1) by (simp add: min_def)
    finally show ?thesis by (simp add: take_add)
  qed
  have header: "SmpHeader_Parse (take (off + copied) b) = SmpHeader_Parse p" if "8 \<le> off + copied" "8 \<le> off + n"
  proof (rule Parse_prefix)
    show "take 8 (take (off + copied) b) = take 8 p"
      using that arg_cong [OF bt, of "take 8"] by (simp add: min_def)
    show "8 \<le> length (take (off + copied) b)" using that bl fits off by (simp add: copied_def)
    show "8 \<le> length p" by (rule smp_packet_length [OF p])
  qed
  obtain h where h: "SmpHeader_Parse p = Some h" "GetPacketSize h = length p" using p by (auto simp: smp_packet_def)
  note eq = Append_eq [OF dn(3) r'(1) copied_def b_def]
  show ?thesis
  proof (cases "off + n < length p")
    case True
    then have nD: "n = GetDataSize (sr_format r)" using n by auto
    then have dD: "length d = n" "copied = n" using d(2) True fits by (auto simp: copied_def)
    have "Reassembler_Append d r =
        (IN_PROGRESS, r\<lparr>sr_buffer := b, sr_length := off + n, sr_packet_size := if 8 \<le> off + n then length p else 0\<rparr>)"
      using r'(3) dD h nD True header fits bl n0 unfolding eq
      by (auto simp: finish_append_def packet_size_same)
    then show ?thesis using True bl bt by auto
  next
    case False
    then have offn: "off + n = length p" using n0 by simp
    have p8: "8 \<le> length p" by (rule smp_packet_length [OF p])
    have used: "length p - off = n" "\<not> off + copied < length p" "8 \<le> off + copied" "p \<noteq> []" using offn p8 cn by auto
    have "Reassembler_Append d r =
        (COMPLETE, r\<lparr>sr_buffer := b, sr_length := length p, sr_packet_size := length p, sr_is_active := False\<rparr>)"
      using r'(3) h header fits bl offn p8 used d(2) unfolding eq
      by (auto simp: finish_append_def packet_size_same)
    then show ?thesis using False bl bt offn by auto
  qed
qed

text \<open>The frame a framer is at, and the packet the reassembler has in progress.\<close>

definition in_step :: "SmpCanFramer \<Rightarrow> SmpCanReassembler \<Rightarrow> bool" where
  "in_step f r \<longleftrightarrow> smp_packet (fr_packet f) \<and> length (fr_packet f) \<le> length (sr_buffer r) \<and>
     fr_format f = sr_format r \<and> \<not> IsDone f \<and> fr_sequence f AND SEQUENCE_MASK = fr_sequence f \<and>
     (if fr_offset f = 0 then fr_sequence f = 0
      else holds (fr_packet f) (fr_offset f) r \<and> sr_next_sequence r = fr_sequence f)"

lemma in_step_start:
  "smp_packet p \<Longrightarrow> length p \<le> length (sr_buffer r) \<Longrightarrow> in_step (SmpCanFramer_new p (sr_format r)) r"
  using smp_packet_length [of p] by (auto simp: in_step_def SmpCanFramer_new_def IsDone_def)

lemma Accept_frame:
  assumes "in_step f r" and "fr_offset f \<noteq> 0 \<Longrightarrow> \<not> IsExpired now r"
  shows "\<exists>r1. Reassembler_Accept (Framer_Encode f) now r = Reassembler_Append (tl (Framer_Encode f)) r1 \<and>
     holds (fr_packet f) (fr_offset f) r1 \<and> sr_buffer r1 = sr_buffer r \<and> sr_format r1 = sr_format r \<and>
     sr_timeout_ms r1 = sr_timeout_ms r \<and>
     sr_last_frame_ms r1 = now \<and> sr_next_sequence r1 = (fr_sequence f + 1) AND SEQUENCE_MASK"
proof -
  have i: "\<not> IsDone f" "fr_format f = sr_format r" "fr_sequence f AND SEQUENCE_MASK = fr_sequence f"
    using assms(1) by (simp_all add: in_step_def)
  have "Framer_data_size f + 1 \<le> GetFrameSize (fr_format f)"
    by (simp add: Framer_data_size_def GetDataSize_ge(2))
  then have size: "\<not> length (Framer_Encode f) > GetFrameSize (sr_format r)"
    using length_Framer_Encode [OF i(1)] GetPaddedSize_le i(2) by fastforce
  have frame: "Framer_Encode f = (((if fr_offset f = 0 then START_FLAG else 0) OR (fr_sequence f AND SEQUENCE_MASK)) # tl (Framer_Encode f))"
    using i(1) by (simp add: Framer_Encode_def Let_def)
  then have ne: "Framer_Encode f \<noteq> []" by (metis list.distinct(1))
  have hd: "hd (Framer_Encode f) = (if fr_offset f = 0 then START_FLAG else 0) OR (fr_sequence f AND SEQUENCE_MASK)"
    using frame by (metis list.sel(1))
  show ?thesis
  proof (cases "fr_offset f = 0")
    case True
    then have "fr_sequence f = 0" using assms(1) by (simp add: in_step_def)
    moreover have "IsStartFrame (Framer_Encode f)" using ne hd True by (simp add: IsStartFrame_def)
    ultimately show ?thesis
      using True size ne hd
      by (auto simp: Reassembler_Accept_def Let_def Reassembler_Reset_def holds_def)
  next
    case False
    then have "\<not> IsStartFrame (Framer_Encode f)" using hd by (simp add: IsStartFrame_def)
    moreover have "holds (fr_packet f) (fr_offset f) r" "sr_next_sequence r = fr_sequence f" "\<not> IsExpired now r"
      using assms False by (simp_all add: in_step_def)
    ultimately show ?thesis
      using False size ne hd i(3)
      by (auto simp: Reassembler_Accept_def Let_def holds_def)
  qed
qed

lemma Accept_step:
  assumes f: "in_step f r" and t: "fr_offset f \<noteq> 0 \<Longrightarrow> \<not> IsExpired now r"
    and acc: "Reassembler_Accept (Framer_Encode f) now r = (res, r')"
  shows "sr_format r' = sr_format r \<and> sr_timeout_ms r' = sr_timeout_ms r \<and> sr_last_frame_ms r' = now \<and>
    length (sr_buffer r') = length (sr_buffer r) \<and>
    (if IsDone (Framer_Advance f)
     then res = COMPLETE \<and> sr_length r' = length (fr_packet f) \<and> take (sr_length r') (sr_buffer r') = fr_packet f \<and> \<not> sr_is_active r'
     else res = IN_PROGRESS \<and> in_step (Framer_Advance f) r')"
proof -
  obtain r1 where r1: "Reassembler_Accept (Framer_Encode f) now r = Reassembler_Append (tl (Framer_Encode f)) r1"
    "holds (fr_packet f) (fr_offset f) r1" "sr_buffer r1 = sr_buffer r" "sr_format r1 = sr_format r"
    "sr_timeout_ms r1 = sr_timeout_ms r" "sr_last_frame_ms r1 = now"
    "sr_next_sequence r1 = (fr_sequence f + 1) AND SEQUENCE_MASK"
    using Accept_frame [OF f t] by blast
  let ?n = "Framer_data_size f"
  have i: "\<not> IsDone f" "smp_packet (fr_packet f)" "length (fr_packet f) \<le> length (sr_buffer r1)" "fr_format f = sr_format r1"
    using f r1 by (simp_all add: in_step_def)
  have off: "fr_offset f < length (fr_packet f)" using i(1) by (simp add: IsDone_def)
  have tl: "tl (Framer_Encode f) = take ?n (drop (fr_offset f) (fr_packet f)) @
      replicate (GetPaddedSize (fr_format f) (?n + 1) - (?n + 1)) 0"
    using i(1) by (simp add: Framer_Encode_def Let_def)
  have len: "Suc (length (tl (Framer_Encode f))) = GetPaddedSize (sr_format r1) (Suc ?n)"
    using length_Framer_Encode [OF i(1)] i(4) GetPaddedSize_ge [of "?n + 1" "fr_format f"] by simp
  have adv: "Framer_Advance f = f\<lparr>fr_offset := fr_offset f + ?n, fr_sequence := (fr_sequence f + 1) AND SEQUENCE_MASK\<rparr>"
    using i(1) by (simp add: Framer_Advance_def)
  have n: "?n = min (GetDataSize (sr_format r1)) (length (fr_packet f) - fr_offset f)" "0 < ?n"
    using i(4) off GetDataSize_ge(1) [of "sr_format r1"] by (auto simp: Framer_data_size_def)
  obtain b where b: "length b = length (sr_buffer r1)"
    "if fr_offset f + ?n < length (fr_packet f)
     then Reassembler_Append (tl (Framer_Encode f)) r1 = (IN_PROGRESS, r1\<lparr>sr_buffer := b, sr_length := fr_offset f + ?n,
            sr_packet_size := if 8 \<le> fr_offset f + ?n then length (fr_packet f) else 0\<rparr>) \<and>
          take (fr_offset f + ?n) b = take (fr_offset f + ?n) (fr_packet f)
     else Reassembler_Append (tl (Framer_Encode f)) r1 = (COMPLETE, r1\<lparr>sr_buffer := b, sr_length := length (fr_packet f),
            sr_packet_size := length (fr_packet f), sr_is_active := False\<rparr>) \<and> take (length (fr_packet f)) b = fr_packet f"
    using Append_step [OF r1(2) i(2) off i(3) n(1) tl len] by blast
  show ?thesis
  proof (cases "fr_offset f + ?n < length (fr_packet f)")
    case True
    then show ?thesis
      using acc r1 b i n(2) by (auto simp: adv IsDone_def in_step_def holds_def)
  next
    case False
    then show ?thesis using acc r1 b i by (auto simp: adv IsDone_def)
  qed
qed

section \<open>Round trip\<close>

fun accept_all :: "(bytes \<times> int) list \<Rightarrow> SmpCanReassembler \<Rightarrow> reassembly list \<times> SmpCanReassembler" where
  "accept_all [] r = ([], r)"
| "accept_all ((frame, now) # fs) r =
     (case Reassembler_Accept frame now r of (x, r1) \<Rightarrow> case accept_all fs r1 of (xs, r2) \<Rightarrow> (x # xs, r2))"

text \<open>Frames that arrive within the timeout of one another.\<close>

fun in_time :: "int \<Rightarrow> int \<Rightarrow> int list \<Rightarrow> bool" where
  "in_time timeout before [] \<longleftrightarrow> True"
| "in_time timeout before (t # ts) \<longleftrightarrow> t - before \<le> timeout \<and> in_time timeout t ts"

lemma accept_frames:
  assumes "in_step f r" and "length ts = length (frames_of f)"
    and "fr_offset f \<noteq> 0 \<Longrightarrow> in_time (sr_timeout_ms r) (sr_last_frame_ms r) ts"
    and "fr_offset f = 0 \<Longrightarrow> in_time (sr_timeout_ms r) (hd ts) (tl ts)"
  shows "\<exists>r'. accept_all (zip (frames_of f) ts) r = (replicate (length ts - 1) IN_PROGRESS @ [COMPLETE], r') \<and>
     take (sr_length r') (sr_buffer r') = fr_packet f"
  using assms
proof (induction f arbitrary: r ts rule: frames_of.induct)
  case (1 f)
  have nd: "\<not> IsDone f" using 1(2) by (simp add: in_step_def)
  then obtain t ts' where ts: "ts = t # ts'" "length ts' = length (frames_of (Framer_Advance f))"
    using 1(3) by (cases ts) (auto simp: frames_of.simps [of f])
  obtain x r1 where acc: "Reassembler_Accept (Framer_Encode f) t r = (x, r1)" by fastforce
  have fresh: "fr_offset f \<noteq> 0 \<Longrightarrow> \<not> IsExpired t r" using 1(4) ts(1) by (auto simp: IsExpired_def)
  note step = Accept_step [OF 1(2) fresh acc]
  show ?case
  proof (cases "IsDone (Framer_Advance f)")
    case True
    then show ?thesis using step ts acc nd by (auto simp: frames_of.simps [of f] frames_of.simps [of "Framer_Advance f"])
  next
    case False
    then have next_step: "in_step (Framer_Advance f) r1" "x = IN_PROGRESS" using step by auto
    have fields: "sr_timeout_ms r1 = sr_timeout_ms r" "sr_last_frame_ms r1 = t" using step by auto
    have off: "fr_offset (Framer_Advance f) \<noteq> 0"
      using nd GetDataSize_ge(1) [of "fr_format f"] by (auto simp: Framer_Advance_def Framer_data_size_def IsDone_def)
    have "in_time (sr_timeout_ms r1) (sr_last_frame_ms r1) ts'"
      using 1(4,5) ts(1) fields by (cases "fr_offset f = 0") auto
    then obtain r' where r': "accept_all (zip (frames_of (Framer_Advance f)) ts') r1 =
        (replicate (length ts' - 1) IN_PROGRESS @ [COMPLETE], r')" "take (sr_length r') (sr_buffer r') = fr_packet (Framer_Advance f)"
      using 1(1) [OF nd next_step(1) ts(2)] off by blast
    have "ts' \<noteq> []" using ts(2) False by (auto simp: frames_of.simps [of "Framer_Advance f"])
    then have "replicate (length ts' - 1) IN_PROGRESS @ [COMPLETE] \<noteq> []"
      "IN_PROGRESS # replicate (length ts' - 1) IN_PROGRESS = replicate (length ts') IN_PROGRESS"
      by (simp_all add: replicate_Suc [symmetric] del: replicate_Suc)
    then show ?thesis
      using r' acc next_step(2) nd ts(1) by (auto simp: frames_of.simps [of f] Framer_Advance_def)
  qed
qed

lemma length_frames_of: "length (frames_of f) = GetFrameCount (fr_format f) (length (fr_packet f) - fr_offset f)"
proof (induction f rule: frames_of.induct)
  case (1 f)
  let ?D = "GetDataSize (fr_format f)" and ?x = "length (fr_packet f) - fr_offset f"
  have D: "0 < ?D" using GetDataSize_ge(1) [of "fr_format f"] by simp
  show ?case
  proof (cases "IsDone f")
    case True
    then show ?thesis using D by (simp add: frames_of.simps [of f] IsDone_def GetFrameCount_def)
  next
    case False
    then have x: "0 < ?x" by (simp add: IsDone_def)
    have IH: "length (frames_of (Framer_Advance f)) = (?x - min ?D ?x + ?D - 1) div ?D"
      using 1 False by (simp add: Framer_Advance_def Framer_data_size_def GetFrameCount_def)
    have "Suc ((?x - min ?D ?x + ?D - 1) div ?D) = (?x + ?D - 1) div ?D"
    proof (cases "?D \<le> ?x")
      case True
      then have "?x + ?D - 1 = (?x - ?D + ?D - 1) + ?D" using D by simp
      then show ?thesis using True D by (metis Suc_eq_plus1 add.commute div_add_self2 less_not_refl min_absorb1)
    next
      case False
      then have "(?x + ?D - 1) div ?D = 1" "(?x - min ?D ?x + ?D - 1) div ?D = 0"
        using x D by (auto intro!: div_nat_eqI)
      then show ?thesis by simp
    qed
    then show ?thesis using IH False by (simp add: frames_of.simps [of f] GetFrameCount_def)
  qed
qed

lemma frames_fit: "frame \<in> set (frames_of f) \<Longrightarrow> length frame \<le> GetFrameSize (fr_format f)"
proof (induction f rule: frames_of.induct)
  case (1 f)
  show ?case
  proof (cases "IsDone f")
    case False
    have "length (Framer_Encode f) \<le> GetFrameSize (fr_format f)"
      using length_Framer_Encode [OF False] GetPaddedSize_le [of "Framer_data_size f + 1" "fr_format f"]
      by (simp add: Framer_data_size_def GetDataSize_ge(2))
    then show ?thesis using 1 False by (auto simp: frames_of.simps [of f] Framer_Advance_def)
  qed (use 1 in \<open>simp add: frames_of.simps [of f]\<close>)
qed

text \<open>
  C27. Framing and reassembly are inverse: the frames of any SMP packet, classic or CAN FD, received in
  order with no gap longer than the timeout, whatever the reassembler was doing before, are all
  accepted; the last one, and no other, completes a packet, which is the one that was sent. Their
  number is the one \<open>GetFrameCount\<close> announces and each fits the format's frame size.
\<close>

theorem packet_round_trip:
  assumes "smp_packet p" and "length p \<le> length (sr_buffer r)"
    and "frames = frames_of (SmpCanFramer_new p (sr_format r))" and "length ts = length frames"
    and "in_time (sr_timeout_ms r) (hd ts) (tl ts)"
  shows "length frames = GetFrameCount (sr_format r) (length p) \<and>
     list_all (\<lambda>frame. length frame \<le> GetFrameSize (sr_format r)) frames \<and>
     (\<exists>r'. accept_all (zip frames ts) r = (replicate (length frames - 1) IN_PROGRESS @ [COMPLETE], r') \<and>
        take (sr_length r') (sr_buffer r') = p)"
  using accept_frames [OF in_step_start [OF assms(1,2)], of ts] assms(3,4,5)
    length_frames_of [of "SmpCanFramer_new p (sr_format r)"] frames_fit [of _ "SmpCanFramer_new p (sr_format r)"]
  by (simp add: SmpCanFramer_new_def list_all_iff)

section \<open>Arbitrary frames\<close>

text \<open>
  What holds of the reassembler whatever arrives: it stays inside its buffer, and once the header of a
  packet in progress is in, the packet's size is the one the header says and there is more to come.
\<close>

definition reassembler_wf :: "SmpCanReassembler \<Rightarrow> bool" where
  "reassembler_wf r \<longleftrightarrow> sr_length r \<le> length (sr_buffer r) \<and>
     (sr_is_active r \<longrightarrow>
        (if sr_packet_size r = 0 then sr_length r < 8
         else 8 \<le> sr_length r \<and> sr_length r < sr_packet_size r \<and> sr_packet_size r \<le> length (sr_buffer r) \<and>
              (\<exists>h. SmpHeader_Parse (take (sr_length r) (sr_buffer r)) = Some h \<and> GetPacketSize h = sr_packet_size r)))"

lemma wf_length: "reassembler_wf r \<Longrightarrow> sr_length r \<le> length (sr_buffer r)"
  by (simp add: reassembler_wf_def)

lemma Reset_wf [simp]: "reassembler_wf (Reassembler_Reset r)" "length (sr_buffer (Reassembler_Reset r)) = length (sr_buffer r)"
  by (simp_all add: reassembler_wf_def Reassembler_Reset_def)

text \<open>What a frame may do: keep the invariant and the buffer's size, and complete only packets.\<close>

definition frame_ok :: "nat \<Rightarrow> reassembly \<times> SmpCanReassembler \<Rightarrow> bool" where
  "frame_ok n x \<longleftrightarrow> reassembler_wf (snd x) \<and> length (sr_buffer (snd x)) = n \<and>
     (fst x = COMPLETE \<longrightarrow> smp_packet (take (sr_length (snd x)) (sr_buffer (snd x)))) \<and>
     (fst x = IN_PROGRESS \<longleftrightarrow> sr_is_active (snd x))"

lemma frame_ok_drop [simp]: "frame_ok n (Reassembler_Drop r) \<longleftrightarrow> length (sr_buffer r) = n"
  by (simp add: frame_ok_def Reassembler_Drop_def) (simp add: Reassembler_Reset_def)

lemma frame_okI:
  "reassembler_wf r \<Longrightarrow> sr_is_active r \<Longrightarrow> length (sr_buffer r) = n \<Longrightarrow> frame_ok n (IN_PROGRESS, r)"
  "sr_length r \<le> length (sr_buffer r) \<Longrightarrow> \<not> sr_is_active r \<Longrightarrow> length (sr_buffer r) = n \<Longrightarrow>
     smp_packet (take (sr_length r) (sr_buffer r)) \<Longrightarrow> frame_ok n (COMPLETE, r)"
  by (simp add: frame_ok_def, simp add: frame_ok_def reassembler_wf_def)

lemma finish_append_ok:
  assumes "sr_is_active r" and "sr_length r \<le> length (sr_buffer r)"
    and size: "if sr_packet_size r = 0 then sr_length r < 8
       else 8 \<le> sr_length r \<and> sr_packet_size r \<le> length (sr_buffer r) \<and>
            (\<exists>h. SmpHeader_Parse (take (sr_length r) (sr_buffer r)) = Some h \<and> GetPacketSize h = sr_packet_size r)"
  shows "frame_ok (length (sr_buffer r)) (finish_append start copied d r)"
proof (cases "sr_packet_size r = 0 \<or> sr_length r < sr_packet_size r")
  case True
  then have "reassembler_wf r" using assms by (simp add: reassembler_wf_def split: if_splits)
  then show ?thesis using True assms(1) by (auto simp: finish_append_def intro: frame_okI)
next
  case False
  then obtain h where h: "SmpHeader_Parse (take (sr_length r) (sr_buffer r)) = Some h" "GetPacketSize h = sr_packet_size r"
    "sr_packet_size r \<le> length (sr_buffer r)" "8 \<le> sr_length r"
    using size by auto
  then have p8: "8 \<le> sr_packet_size r" using GetPacketSize_pos(2) [of h] by simp
  have "SmpHeader_Parse (take (sr_packet_size r) (sr_buffer r)) = Some h"
    using h(1) Parse_prefix [of "take (sr_packet_size r) (sr_buffer r)" "take (sr_length r) (sr_buffer r)"] False p8 h assms(2)
    by (simp add: min_def)
  then have "smp_packet (take (sr_packet_size r) (sr_buffer r))" using h by (simp add: smp_packet_def min_def)
  then show ?thesis using False h(3) by (auto simp: finish_append_def intro!: frame_okI)
qed

lemma Append_ok:
  assumes "reassembler_wf r" and "sr_is_active r"
  shows "frame_ok (length (sr_buffer r)) (Reassembler_Append d r)"
proof (cases "d = []")
  case True then show ?thesis by (simp add: Reassembler_Append_def)
next
  case False
  define off where "off = sr_length r"
  define copied where "copied = min (length d) (length (sr_buffer r) - off)"
  define b where "b = take off (sr_buffer r) @ take copied d @ drop (off + copied) (sr_buffer r)"
  have off: "off \<le> length (sr_buffer r)" using assms(1) by (simp add: reassembler_wf_def off_def)
  then have bl: "length b = length (sr_buffer r)" "off + copied \<le> length b"
    by (auto simp: b_def copied_def min_def)
  have prefix: "take off b = take off (sr_buffer r)" using off by (simp add: b_def)
  have known: "SmpHeader_Parse (take (off + copied) b) = SmpHeader_Parse (take off (sr_buffer r))" if "8 \<le> off"
    using that off bl arg_cong [OF prefix, of "take 8"] by (intro Parse_prefix) (simp_all add: min_def)
  note eq = Append_eq [OF False off_def [symmetric] copied_def b_def]
  have fin: "frame_ok (length b) (finish_append off copied d r1)"
    if "sr_buffer r1 = b" "sr_length r1 = off + copied" "sr_is_active r1"
      "if sr_packet_size r1 = 0 then off + copied < 8
       else 8 \<le> off + copied \<and> sr_packet_size r1 \<le> length b \<and>
            (\<exists>h. SmpHeader_Parse (take (off + copied) b) = Some h \<and> GetPacketSize h = sr_packet_size r1)" for r1
    using finish_append_ok [of r1 off copied d] that bl(2) by simp
  show ?thesis
  proof (cases "sr_packet_size r = 0")
    case True
    show ?thesis
    proof (cases "8 \<le> off + copied")
      case True
      then obtain h where h: "SmpHeader_Parse (take (off + copied) b) = Some h"
        using bl(2) by (auto simp: SmpHeader_Parse_def SMP_HEADER_SIZE_def)
      then show ?thesis
        using \<open>sr_packet_size r = 0\<close> True bl(1) assms(2) fin [of "r\<lparr>sr_buffer := b, sr_length := off + copied, sr_packet_size := GetPacketSize h\<rparr>"]
        unfolding eq by auto
    next
      case False
      then show ?thesis
        using True bl(1) assms(2) fin [of "r\<lparr>sr_buffer := b, sr_length := off + copied\<rparr>"] unfolding eq by auto
    qed
  next
    case False
    then have "8 \<le> off" "sr_packet_size r \<le> length (sr_buffer r)"
      "\<exists>h. SmpHeader_Parse (take off (sr_buffer r)) = Some h \<and> GetPacketSize h = sr_packet_size r"
      using assms by (auto simp: reassembler_wf_def off_def)
    then show ?thesis
      using False bl(1) assms(2) known fin [of "r\<lparr>sr_buffer := b, sr_length := off + copied\<rparr>"] unfolding eq by auto
  qed
qed

lemma Accept_ok:
  assumes "reassembler_wf r"
  shows "frame_ok (length (sr_buffer r)) (Reassembler_Accept frame now r)"
proof -
  have active: "frame_ok (length (sr_buffer u)) (Reassembler_Append (tl frame) (u\<lparr>sr_last_frame_ms := now, sr_next_sequence := q\<rparr>))"
    if "reassembler_wf u" "sr_is_active u" for u q
    using Append_ok [of "u\<lparr>sr_last_frame_ms := now, sr_next_sequence := q\<rparr>" "tl frame"] that by (simp add: reassembler_wf_def)
  have ignored: "frame_ok (length (sr_buffer u)) (IGNORED, u)" if "reassembler_wf u" "\<not> sr_is_active u" for u
    using that by (simp add: frame_ok_def)
  have start: "reassembler_wf ((Reassembler_Reset u)\<lparr>sr_is_active := True\<rparr>)" for u
    by (simp add: reassembler_wf_def Reassembler_Reset_def)
  have go: "frame_ok (length (sr_buffer u)) (Reassembler_Append (tl frame)
      ((Reassembler_Reset u)\<lparr>sr_is_active := True, sr_last_frame_ms := now, sr_next_sequence := q\<rparr>))" for u q
    using active [OF start, of u q] by simp
  define u where "u = (if IsExpired now r then Reassembler_Reset r else r)"
  have u: "reassembler_wf u" "length (sr_buffer u) = length (sr_buffer r)" using assms by (auto simp: u_def)
  show ?thesis
    using active [OF u(1)] ignored [OF u(1)] go [of u] u(2)
    unfolding Reassembler_Accept_def u_def [symmetric] Let_def by auto
qed

lemma accept_all_ok:
  "reassembler_wf r \<Longrightarrow> accept_all fs r = (xs, r') \<Longrightarrow> reassembler_wf r' \<and> length (sr_buffer r') = length (sr_buffer r)"
proof (induction fs r arbitrary: xs r' rule: accept_all.induct)
  case (2 frame now fs r)
  obtain x r1 where a: "Reassembler_Accept frame now r = (x, r1)" by fastforce
  then have "reassembler_wf r1" "length (sr_buffer r1) = length (sr_buffer r)"
    using Accept_ok [OF 2(2), of frame now] by (simp_all add: frame_ok_def)
  then show ?case using 2 a by (auto split: prod.splits)
qed simp

text \<open>
  Whatever frames arrive, in whatever order and at whatever times, a reassembler that starts
  attached to a buffer never writes outside it, and what it reports as complete is an SMP packet: a
  header and exactly as many bytes after it as the header says.
\<close>

theorem reassembly_safe:
  assumes "accept_all fs (Reassembler_Attach buffer fmt r) = (xs, r1)"
    and "Reassembler_Accept frame now r1 = (result, r2)"
  shows "length (sr_buffer r2) = length buffer \<and> sr_length r2 \<le> length buffer \<and>
     (result = COMPLETE \<longrightarrow> smp_packet (take (sr_length r2) (sr_buffer r2)))"
proof -
  have start: "reassembler_wf (Reassembler_Attach buffer fmt r)"
    "length (sr_buffer (Reassembler_Attach buffer fmt r)) = length buffer"
    by (simp_all add: Reassembler_Attach_def)
  then have "reassembler_wf r1" "length (sr_buffer r1) = length buffer" using accept_all_ok [OF start(1) assms(1)] by simp_all
  then show ?thesis using Accept_ok [of r1 frame now] assms(2) wf_length [of r2] by (simp add: frame_ok_def)
qed

section \<open>Lost frames\<close>

lemma mask_take_bit: "w AND SEQUENCE_MASK = take_bit 7 w"
proof -
  have "SEQUENCE_MASK = mask 7" by (simp add: SEQUENCE_MASK_def mask_eq_exp_minus_1)
  then show ?thesis by (simp add: take_bit_eq_mask)
qed

lemma mask_add: "((a AND SEQUENCE_MASK) + b) AND SEQUENCE_MASK = (a + b) AND SEQUENCE_MASK"
proof -
  have "take_bit 7 (take_bit 7 a + b) = take_bit 7 (a + b)" for a b :: u8
  proof -
    have m: "unat (take_bit 7 w) = unat w mod 128" for w :: u8
      by (simp add: take_bit_eq_mod unat_mod)
    have "unat (take_bit 7 (take_bit 7 a + b)) = unat (take_bit 7 (a + b))"
      by (simp add: m unat_word_ariths mod_mod_cancel mod_simps)
    then show ?thesis by (simp add: word_unat_eq_iff)
  qed
  then show ?thesis by (simp add: mask_take_bit)
qed

lemma Framer_Advance_simps:
  "IsDone f \<Longrightarrow> Framer_Advance f = f"
  "\<not> IsDone f \<Longrightarrow> fr_sequence (Framer_Advance f) = (fr_sequence f + 1) AND SEQUENCE_MASK"
  by (simp_all add: Framer_Advance_def)

lemma advance_sequence:
  assumes "\<not> IsDone ((Framer_Advance ^^ k) f)" and "fr_sequence f AND SEQUENCE_MASK = fr_sequence f"
  shows "fr_sequence ((Framer_Advance ^^ k) f) = (fr_sequence f + of_nat k) AND SEQUENCE_MASK"
  using assms(1)
proof (induction k)
  case (Suc k)
  then have nd: "\<not> IsDone ((Framer_Advance ^^ k) f)" using Framer_Advance_simps(1) by fastforce
  then have "fr_sequence ((Framer_Advance ^^ Suc k) f) = ((fr_sequence f + of_nat k) AND SEQUENCE_MASK) + 1 AND SEQUENCE_MASK"
    using Suc.IH by (simp add: Framer_Advance_simps(2))
  then show ?case by (simp add: mask_add add.assoc add.commute [of 1])
qed (simp add: assms(2))

lemma sequence_differs:
  fixes q :: u8
  assumes "0 < k" and "k < 128"
  shows "(q + of_nat k) AND SEQUENCE_MASK \<noteq> q AND SEQUENCE_MASK"
proof
  assume "(q + of_nat k) AND SEQUENCE_MASK = q AND SEQUENCE_MASK"
  then have "take_bit 7 (unat (q + of_nat k)) = take_bit 7 (unat q)"
    by (simp add: mask_take_bit unsigned_take_bit_eq [symmetric])
  moreover have "unat (q + of_nat k) = (unat q + k) mod 256" by (simp add: unat_word_ariths unat_of_nat mod_simps)
  ultimately have "(unat q + k) mod 256 mod 128 = unat q mod 128" by (simp add: take_bit_eq_mod)
  then have "(unat q + k) mod 128 = unat q mod 128" by (simp add: mod_mod_cancel)
  then have "128 dvd k" by (metis add_diff_cancel_left' le_add1 mod_eq_dvd_iff_nat)
  then show False using assms by (auto dest: dvd_imp_le)
qed

text \<open>
  A gap of up to 127 lost frames does not go unnoticed: with a packet in progress, a later frame
  of the same packet that is not the next one drops the packet, and everything that follows of it is
  ignored, so no packet with a hole is ever completed.
\<close>

theorem lost_frames_detected:
  assumes "in_step f r" and "fr_offset f \<noteq> 0" and "0 < k" and "k < 128" and "\<not> IsExpired now r"
    and "\<not> IsDone ((Framer_Advance ^^ k) f)" and "fr_offset ((Framer_Advance ^^ k) f) \<noteq> 0"
    and "list_all (\<lambda>(frame, t). \<not> IsStartFrame frame) later"
  shows "\<exists>r'. Reassembler_Accept (Framer_Encode ((Framer_Advance ^^ k) f)) now r = (DROPPED, r') \<and>
     fst (accept_all later r') = replicate (length later) IGNORED"
proof -
  let ?g = "(Framer_Advance ^^ k) f"
  have i: "sr_is_active r" "sr_next_sequence r = fr_sequence f" "fr_sequence f AND SEQUENCE_MASK = fr_sequence f"
    using assms(1,2) by (simp_all add: in_step_def holds_def)
  have q: "fr_sequence ?g AND SEQUENCE_MASK \<noteq> fr_sequence f"
    using advance_sequence [OF assms(6) i(3)] sequence_differs [OF assms(3,4), of "fr_sequence f"] i(3) by simp
  have hd: "hd (Framer_Encode ?g) = fr_sequence ?g AND SEQUENCE_MASK" "Framer_Encode ?g \<noteq> []"
    using assms(6,7) by (simp_all add: Framer_Encode_def Let_def)
  then have "\<not> IsStartFrame (Framer_Encode ?g)" by (simp add: IsStartFrame_def)
  then have "Reassembler_Accept (Framer_Encode ?g) now r = (DROPPED, Reassembler_Reset r)"
    using hd q i assms(5) by (simp add: Reassembler_Accept_def Let_def Reassembler_Drop_def)
  moreover have "fst (accept_all later u) = replicate (length later) IGNORED" if "\<not> sr_is_active u" for u
    using that assms(8)
  proof (induction later arbitrary: u)
    case (Cons x xs)
    obtain frame t where x: "x = (frame, t)" by (cases x)
    have "Reassembler_Accept frame t u = (IGNORED, u)"
      using Cons.prems x by (auto simp: Reassembler_Accept_def Let_def IsExpired_def)
    then show ?case using Cons x by (auto split: prod.split) (metis fst_conv)
  qed simp
  ultimately show ?thesis by (auto simp: Reassembler_Reset_def)
qed

section \<open>Pacing\<close>

text \<open>A sender that asks for one frame at each of the given times, and how many it may send.\<close>

fun pace :: "int list \<Rightarrow> SmpCanPacer \<Rightarrow> nat \<times> SmpCanPacer" where
  "pace [] p = (0, p)"
| "pace (t # ts) p =
     (let p1 = Pacer_Update t p
      in if CanSend p1 then (case pace ts (Pacer_OnSent p1) of (n, p2) \<Rightarrow> (Suc n, p2)) else pace ts p1)"

definition pacer_ok :: "SmpCanPacer \<Rightarrow> bool" where
  "pacer_ok p \<longleftrightarrow> 0 < pa_rate p \<and> 0 < pa_frame_cost p \<and> pa_frame_cost p \<le> pa_capacity p \<and>
     0 \<le> pa_credit p \<and> pa_credit p \<le> pa_capacity p"

lemma Pacer_Update_ok:
  assumes "pacer_ok p"
  shows "pacer_ok (Pacer_Update now p)" "pa_rate (Pacer_Update now p) = pa_rate p"
    "pa_frame_cost (Pacer_Update now p) = pa_frame_cost p" "pa_capacity (Pacer_Update now p) = pa_capacity p"
    "pa_last_update_us (Pacer_Update now p) = max now (pa_last_update_us p)"
    "pa_credit (Pacer_Update now p) \<le> pa_credit p + pa_rate p * (max now (pa_last_update_us p) - pa_last_update_us p)"
proof -
  let ?e = "min (now - pa_last_update_us p) (pa_capacity p div pa_rate p + 1)"
  have "0 \<le> ?e" if "pa_last_update_us p < now" using that assms by (simp add: pacer_ok_def pos_imp_zdiv_nonneg_iff)
  then show "pacer_ok (Pacer_Update now p)" using assms by (auto simp: pacer_ok_def Pacer_Update_def Let_def)
  show "pa_rate (Pacer_Update now p) = pa_rate p" "pa_frame_cost (Pacer_Update now p) = pa_frame_cost p"
    "pa_capacity (Pacer_Update now p) = pa_capacity p"
    by (simp_all add: Pacer_Update_def Let_def)
  show "pa_last_update_us (Pacer_Update now p) = max now (pa_last_update_us p)"
    using assms by (auto simp: Pacer_Update_def Let_def pacer_ok_def)
  define e where "e = ?e"
  have "e * pa_rate p \<le> pa_rate p * (now - pa_last_update_us p)"
    using assms by (simp add: e_def pacer_ok_def mult.commute mult_left_mono)
  moreover have "pa_credit (Pacer_Update now p) \<le> pa_credit p + e * pa_rate p" if "pa_last_update_us p < now"
    using that assms by (simp add: Pacer_Update_def Let_def pacer_ok_def e_def)
  moreover have "pa_credit (Pacer_Update now p) = pa_credit p" if "\<not> pa_last_update_us p < now"
    using that by (simp add: Pacer_Update_def)
  ultimately show "pa_credit (Pacer_Update now p) \<le> pa_credit p + pa_rate p * (max now (pa_last_update_us p) - pa_last_update_us p)"
    by (cases "pa_last_update_us p < now") (auto simp: max_def)
qed

lemma Pacer_OnSent_ok:
  "pacer_ok p \<Longrightarrow> CanSend p \<Longrightarrow> pacer_ok (Pacer_OnSent p)"
  by (simp add: pacer_ok_def CanSend_def Pacer_OnSent_def)

lemma pace_potential:
  assumes "pacer_ok p" and "pace ts p = (n, p')" and "\<And>t. t \<in> set ts \<Longrightarrow> t \<le> until" and "pa_last_update_us p \<le> until"
  shows "pacer_ok p' \<and> pa_last_update_us p' \<le> until \<and> pa_rate p' = pa_rate p \<and>
    int n * pa_frame_cost p + pa_credit p' + pa_rate p * (until - pa_last_update_us p')
      \<le> pa_credit p + pa_rate p * (until - pa_last_update_us p)"
  using assms
proof (induction ts arbitrary: p n)
  case (Cons t ts)
  let ?p = "Pacer_Update t p"
  note up = Pacer_Update_ok [OF Cons.prems(1), of t]
  have "pa_rate p * (until - pa_last_update_us p) =
      pa_rate p * (max t (pa_last_update_us p) - pa_last_update_us p) + pa_rate p * (until - max t (pa_last_update_us p))"
    by (simp add: algebra_simps)
  then have pot: "pa_credit ?p + pa_rate p * (until - pa_last_update_us ?p) \<le> pa_credit p + pa_rate p * (until - pa_last_update_us p)"
    using up(5,6) by simp
  have t: "pa_last_update_us ?p \<le> until" using up(5) Cons.prems(3,4) by simp
  show ?case
  proof (cases "CanSend ?p")
    case True
    then obtain m where m: "pace ts (Pacer_OnSent ?p) = (m, p')" "n = Suc m"
      using Cons.prems(2) by (auto simp: Let_def split: prod.splits)
    have "pa_rate (Pacer_OnSent ?p) = pa_rate p" "pa_frame_cost (Pacer_OnSent ?p) = pa_frame_cost p"
      "pa_credit (Pacer_OnSent ?p) = pa_credit ?p - pa_frame_cost p" "pa_last_update_us (Pacer_OnSent ?p) = pa_last_update_us ?p"
      using up by (simp_all add: Pacer_OnSent_def)
    then show ?thesis
      using Cons.IH [OF Pacer_OnSent_ok [OF up(1) True] m(1)] Cons.prems(3) t pot m(2)
      by (simp add: distrib_right)
  next
    case False
    then have "pace ts ?p = (n, p')" using Cons.prems(2) by (simp add: Let_def)
    then show ?thesis using Cons.IH [OF up(1)] Cons.prems(3) t pot up(2,3) by simp
  qed
qed simp

lemma ceil_mult:
  fixes a r :: int
  assumes "0 < r" and "0 < a"
  shows "a \<le> (a + r - 1) div r * r \<and> 0 < (a + r - 1) div r"
proof -
  have "(a + r - 1) div r * r = (a + r - 1) - (a + r - 1) mod r" by (simp add: minus_mod_eq_div_mult)
  moreover have "(a + r - 1) mod r < r" using assms(1) by simp
  moreover have "0 < (a + r - 1) div r" using assms by (simp add: pos_imp_zdiv_pos_iff)
  ultimately show ?thesis by simp
qed

lemma wait_suffices:
  assumes "pacer_ok p"
  shows "CanSend (Pacer_Update (pa_last_update_us p + GetWaitUs frames p) p)"
proof -
  define needed where "needed = min (pa_capacity p) (uint (max frames 1) * pa_frame_cost p)"
  have ok: "0 < pa_rate p" "0 < pa_frame_cost p" "pa_frame_cost p \<le> pa_capacity p" using assms by (simp_all add: pacer_ok_def)
  have "1 \<le> uint (max frames 1)" by (simp add: max_def word_le_def split: if_splits)
  then have "pa_frame_cost p \<le> uint (max frames 1) * pa_frame_cost p" using ok(2) by simp
  then have cost: "pa_frame_cost p \<le> needed" using ok(3) by (simp add: needed_def)
  show ?thesis
  proof (cases "needed \<le> pa_credit p")
    case True
    then have "GetWaitUs frames p = 0" using ok by (simp add: GetWaitUs_def Let_def needed_def)
    then show ?thesis using True cost ok by (simp add: Pacer_Update_def CanSend_def)
  next
    case False
    define w where "w = (needed - pa_credit p + pa_rate p - 1) div pa_rate p"
    have wait: "GetWaitUs frames p = w" using False ok by (simp add: GetWaitUs_def Let_def needed_def w_def)
    have enough: "needed - pa_credit p \<le> w * pa_rate p" "0 < w"
      using ok(1) False ceil_mult [of "pa_rate p" "needed - pa_credit p"] by (simp_all add: w_def)
    have cap: "pa_capacity p \<le> (pa_capacity p div pa_rate p + 1) * pa_rate p"
    proof -
      have "(pa_capacity p div pa_rate p + 1) * pa_rate p = pa_capacity p div pa_rate p * pa_rate p + pa_rate p"
        by (simp add: distrib_right)
      then show ?thesis using pos_mod_bound [OF ok(1), of "pa_capacity p"] div_mult_mod_eq [of "pa_capacity p" "pa_rate p"] by linarith
    qed
    have "needed \<le> pa_credit p + min w (pa_capacity p div pa_rate p + 1) * pa_rate p"
      using enough(1) cap assms by (auto simp: min_def needed_def pacer_ok_def)
    then have "pa_frame_cost p \<le> pa_credit p + min w (pa_capacity p div pa_rate p + 1) * pa_rate p" using cost by linarith
    then show ?thesis using enough(2) ok wait by (simp add: Pacer_Update_def Let_def CanSend_def)
  qed
qed

lemma GetWaitUs_pos:
  assumes "pacer_ok p" and "\<not> CanSend p"
  shows "0 < GetWaitUs frames p"
proof -
  have ok: "0 < pa_rate p" "pa_frame_cost p \<le> pa_capacity p" "pa_credit p < pa_frame_cost p" "0 < pa_frame_cost p"
    using assms by (auto simp: pacer_ok_def CanSend_def)
  have "1 \<le> uint (max frames 1)" by (simp add: max_def word_le_def split: if_splits)
  then have "pa_frame_cost p \<le> uint (max frames 1) * pa_frame_cost p" using ok(4) by simp
  moreover define needed where "needed = min (pa_capacity p) (uint (max frames 1) * pa_frame_cost p)"
  ultimately have "pa_credit p < needed" using ok(2,3) unfolding needed_def min_less_iff_conj by linarith
  then show ?thesis
    using ceil_mult [OF ok(1), of "needed - pa_credit p"] ok(1)
    by (simp add: GetWaitUs_def Let_def needed_def [symmetric])
qed

lemma SmpCanPacer_new_ok:
  assumes "SmpCanPacer_new frame_time share burst = Inr p"
  shows "pacer_ok (Pacer_Reset now p)" "pa_rate p = uint share * 1000" "pa_frame_cost p = uint frame_time * 100"
    "pa_capacity p = uint burst * (uint frame_time * 100)"
proof -
  have p: "p = \<lparr>pa_rate = uint share * 1000, pa_frame_cost = uint frame_time * 100,
      pa_capacity = uint burst * (uint frame_time * 100), pa_credit = 0, pa_last_update_us = 0\<rparr>"
    and nz: "frame_time \<noteq> 0" "share \<noteq> 0" "burst \<noteq> 0"
    using assms by (auto simp: SmpCanPacer_new_def split: if_splits)
  have "0 < uint frame_time" "0 < uint share" "1 \<le> uint burst" using nz by (simp_all add: word_greater_zero_iff [symmetric] word_less_def int_one_le_iff_zero_less)
  then show "pacer_ok (Pacer_Reset now p)"
    using p by (simp add: pacer_ok_def Pacer_Reset_def)
  show "pa_rate p = uint share * 1000" "pa_frame_cost p = uint frame_time * 100"
    "pa_capacity p = uint burst * (uint frame_time * 100)" using p by simp_all
qed



section \<open>Witnesses\<close>

definition demo_packet :: bytes where
  "demo_packet = [2, 0, 0, 9, 0, 1, 5, 0, 1, 2, 3, 4, 5, 6, 7, 8, 9]"

definition demo_reassembler :: SmpCanReassembler where
  "demo_reassembler = Reassembler_Attach (replicate 32 0) False (SmpCanReassembler_new 100)"

lemma demo_packet_ok: "smp_packet demo_packet" "length demo_packet = 17"
proof -
  show "length demo_packet = 17" by (simp add: demo_packet_def)
  have "SmpHeader_Parse demo_packet = Some \<lparr>sh_operation = 2, sh_version = 0, sh_flags = 0, sh_length = 9,
      sh_group = 1, sh_sequence = 5, sh_command_id = 0\<rparr>"
    by (simp add: SmpHeader_Parse_def demo_packet_def SMP_HEADER_SIZE_def u16_of_be_def)
  then show "smp_packet demo_packet"
    by (simp add: smp_packet_def GetPacketSize_def SMP_HEADER_SIZE_def demo_packet_def)
qed

lemma demo_reassembler_simps [simp]:
  "length (sr_buffer demo_reassembler) = 32" "sr_format demo_reassembler = False" "sr_timeout_ms demo_reassembler = 100"
  "\<not> sr_is_active demo_reassembler"
  by (simp_all add: demo_reassembler_def Reassembler_Attach_def Reassembler_Reset_def SmpCanReassembler_new_def)

theorem packet_round_trip_witness:
  "\<exists>r'. accept_all (zip (frames_of (SmpCanFramer_new demo_packet False)) [0, 40, 80]) demo_reassembler =
       ([IN_PROGRESS, IN_PROGRESS, COMPLETE], r') \<and> take (sr_length r') (sr_buffer r') = demo_packet"
proof -
  have n: "length (frames_of (SmpCanFramer_new demo_packet False)) = 3"
    using length_frames_of [of "SmpCanFramer_new demo_packet False"]
    by (simp add: SmpCanFramer_new_def GetFrameCount_def demo_packet_ok(2) frame_sizes)
  have "replicate (3 - 1) IN_PROGRESS @ [COMPLETE] = [IN_PROGRESS, IN_PROGRESS, COMPLETE]"
    by (simp add: numeral_2_eq_2)
  with packet_round_trip [OF demo_packet_ok(1), of demo_reassembler _ "[0, 40, 80]", OF _ refl] n demo_packet_ok(2)
  show ?thesis by simp
qed

theorem reassembly_safe_witness:
  "\<exists>result r. Reassembler_Accept [0x80, 2, 0] 7 (Reassembler_Attach (replicate 32 0) False (SmpCanReassembler_new 100)) = (result, r) \<and>
     length (sr_buffer r) = 32 \<and> sr_length r \<le> 32"
proof -
  obtain result r where a: "Reassembler_Accept [0x80, 2, 0] 7
      (Reassembler_Attach (replicate 32 0) False (SmpCanReassembler_new 100)) = (result, r)" by fastforce
  have "accept_all [] (Reassembler_Attach (replicate 32 0) False (SmpCanReassembler_new 100)) =
      ([], Reassembler_Attach (replicate 32 0) False (SmpCanReassembler_new 100))" by simp
  from reassembly_safe [OF this a] a show ?thesis by auto
qed

theorem lost_frames_detected_witness:
  "\<exists>r1 r2. Reassembler_Accept (Framer_Encode (SmpCanFramer_new demo_packet False)) 0 demo_reassembler = (IN_PROGRESS, r1) \<and>
     Reassembler_Accept (Framer_Encode ((Framer_Advance ^^ 2) (SmpCanFramer_new demo_packet False))) 1 r1 = (DROPPED, r2)"
proof -
  let ?f = "SmpCanFramer_new demo_packet False"
  obtain x r1 where acc: "Reassembler_Accept (Framer_Encode ?f) 0 demo_reassembler = (x, r1)" by fastforce
  have "in_step ?f demo_reassembler"
    using in_step_start [of demo_packet demo_reassembler] demo_packet_ok by simp
  from Accept_step [OF this _ acc] have step: "x = IN_PROGRESS" "in_step (Framer_Advance ?f) r1"
    "sr_timeout_ms r1 = 100" "sr_last_frame_ms r1 = 0"
    by (simp_all add: SmpCanFramer_new_def Framer_Advance_def IsDone_def Framer_data_size_def demo_packet_ok(2) frame_sizes
        split: if_splits)
  have two: "(Framer_Advance ^^ 1) (Framer_Advance ?f) = (Framer_Advance ^^ 2) ?f" by (simp add: numeral_2_eq_2)
  have "fr_offset (Framer_Advance ?f) = 7" "fr_offset ((Framer_Advance ^^ 2) ?f) = 14" "\<not> IsDone ((Framer_Advance ^^ 2) ?f)"
    by (simp_all add: SmpCanFramer_new_def Framer_Advance_def IsDone_def Framer_data_size_def demo_packet_ok(2) frame_sizes numeral_2_eq_2)
  with lost_frames_detected [OF step(2), of 1 1 "[]"] two step acc show ?thesis by (auto simp: IsExpired_def)
qed

end
