(* ===== verification/Smp_Transport.thy ===== *)
theory Smp_Transport
  imports Smp_Can Canbus_Bus
begin

text \<open>
  The SMP transport over CAN, \<open>src/subsys/smp/can/smp_can_transport.h/.cpp\<close>. Not in the repository,
  and so arguments of the model: the result of registering a filter with the bus, of sending a frame,
  the type and bitrates the bus reports, and the packets MCUmgr's pool hands out (\<open>None\<close> when it is
  exhausted, otherwise the data area of the packet). A bus instance is a number, so that a
  reconfigured bus is another one. What leaves the transport (frames, packets for the SMP server or
  the response sink, and the scheduling of the send task) is appended to an outbox.
\<close>

section \<open>Data\<close>

record smp_config =
  sc_burst_frames :: u32
  sc_rx_slots :: nat
  sc_rx_timeout_ms :: int

record RxSlot =
  rx_source :: u8
  rx_reassembler :: SmpCanReassembler

datatype send_result = SEND_OK | SEND_AGAIN | SEND_FAILED

datatype transport_effect =
    SentFrame CanId bytes
  | SmpRequest u8 bytes
  | SinkResponse u8 bytes
  | ScheduleTx
  | CancelTx
  | RemoveFrameHandler int
  | ClearRequests

record SmpCanTransport =
  st_is_initialized :: bool
  st_canbus :: "nat option"
  st_bound_canbus :: "nat option"
  st_handler_id :: int
  st_address :: u8
  st_base :: u32
  st_bus_share_percent :: u8
  st_rx_slots :: "RxSlot list"
  st_has_sink :: bool
  st_tx_queue :: "(u8 \<times> bytes) list"
  st_tx_packet :: "(u8 \<times> bytes) option"
  st_tx_framer :: SmpCanFramer
  st_pacer :: SmpCanPacer
  st_pacer_frame_time_ns :: u32
  st_rx_dropped :: u32
  st_tx_dropped :: u32
  st_outbox :: "transport_effect list"

definition RxSlot_new :: "smp_config \<Rightarrow> RxSlot" where
  "RxSlot_new cfg = \<lparr>rx_source = 0, rx_reassembler = SmpCanReassembler_new (sc_rx_timeout_ms cfg)\<rparr>"

definition Transport_new :: "smp_config \<Rightarrow> SmpCanTransport" where
  "Transport_new cfg = \<lparr>st_is_initialized = False, st_canbus = None, st_bound_canbus = None, st_handler_id = -1,
     st_address = 0, st_base = SMP_DEFAULT_BASE, st_bus_share_percent = 25,
     st_rx_slots = replicate (sc_rx_slots cfg) (RxSlot_new cfg), st_has_sink = False, st_tx_queue = [],
     st_tx_packet = None, st_tx_framer = SmpCanFramer_new [] False, st_pacer = SmpCanPacer_idle,
     st_pacer_frame_time_ns = 0, st_rx_dropped = 0, st_tx_dropped = 0, st_outbox = []\<rparr>"

definition put :: "transport_effect \<Rightarrow> SmpCanTransport \<Rightarrow> SmpCanTransport" where
  "put e s = s\<lparr>st_outbox := st_outbox s @ [e]\<rparr>"

definition drop_rx :: "SmpCanTransport \<Rightarrow> SmpCanTransport" where
  "drop_rx s = s\<lparr>st_rx_dropped := st_rx_dropped s + 1\<rparr>"

definition drop_tx :: "SmpCanTransport \<Rightarrow> SmpCanTransport" where
  "drop_tx s = s\<lparr>st_tx_dropped := st_tx_dropped s + 1\<rparr>"

section \<open>Binding\<close>

text \<open>\<open>registered\<close>: whether MCUmgr accepts the transport.\<close>

definition Transport_Initialize :: "bool \<Rightarrow> SmpCanTransport \<Rightarrow> bool \<times> SmpCanTransport" where
  "Transport_Initialize registered s =
     (if st_is_initialized s then (True, s)
      else if \<not> registered then (False, s)
      else (True, s\<lparr>st_is_initialized := True\<rparr>))"

definition ReleaseRxSlot :: "RxSlot \<Rightarrow> RxSlot" where
  "ReleaseRxSlot x = \<lparr>rx_source = 0, rx_reassembler = Reassembler_Reset (rx_reassembler x)\<rparr>"

definition UnbindLocked :: "SmpCanTransport \<Rightarrow> SmpCanTransport" where
  "UnbindLocked s =
     (if st_handler_id s < 0 then s
      else let s1 = s\<lparr>st_address := 0\<rparr>;
               s2 = (if st_canbus s1 \<noteq> None \<and> st_canbus s1 = st_bound_canbus s1
                     then put (RemoveFrameHandler (st_handler_id s1)) s1 else s1);
               s3 = s2\<lparr>st_handler_id := -1, st_bound_canbus := None, st_rx_slots := map ReleaseRxSlot (st_rx_slots s2)\<rparr>;
               s4 = put ClearRequests s3
           in if st_is_initialized s4 then put ScheduleTx (put CancelTx s4) else s4)"

definition Transport_Configure :: "nat option \<Rightarrow> u32 \<Rightarrow> u8 \<Rightarrow> SmpCanTransport \<Rightarrow> cxx_error option \<times> SmpCanTransport" where
  "Transport_Configure canbus id_base share s =
     (if share = 0 \<or> share > 100 then (Some InvalidArgument, s)
      else let s1 = (UnbindLocked s)\<lparr>st_canbus := canbus\<rparr>
           in case SmpCanIdLayout_new id_base of
                Inl e \<Rightarrow> (Some e, s1)
              | Inr base \<Rightarrow> (None, s1\<lparr>st_base := base, st_bus_share_percent := share, st_pacer_frame_time_ns := 0\<rparr>))"

definition target_filter :: "u32 \<Rightarrow> u8 \<Rightarrow> CanFilter" where
  "target_filter base address = \<lparr>cf_id = GetTargetFilterId base address, cf_mask = TARGET_FILTER_MASK, cf_is_extended = True\<rparr>"

text \<open>\<open>register\<close> is what the bus answers to the registration of a filter.\<close>

definition Transport_Bind :: "(CanFilter \<Rightarrow> int) \<Rightarrow> u8 \<Rightarrow> SmpCanTransport \<Rightarrow> bool \<times> SmpCanTransport" where
  "Transport_Bind register address s =
     (if \<not> IsValidAddress address \<or> \<not> st_is_initialized s then (False, s)
      else if st_address s = address then (True, s)
      else let s1 = UnbindLocked s
           in case st_canbus s1 of
                None \<Rightarrow> (False, s1)
              | Some canbus \<Rightarrow>
                  let handler_id = register (target_filter (st_base s1) address)
                  in if handler_id < 0 then (False, s1)
                     else (True, s1\<lparr>st_handler_id := handler_id, st_bound_canbus := Some canbus, st_address := address\<rparr>))"

definition SetResponseSink :: "bool \<Rightarrow> SmpCanTransport \<Rightarrow> SmpCanTransport" where
  "SetResponseSink present s = s\<lparr>st_has_sink := present\<rparr>"

section \<open>Sending\<close>

text \<open>\<open>packet = None\<close> is a null packet. \<open>Forward\<close> and MCUmgr's output callback queue packets this way.\<close>

definition Enqueue :: "u8 \<Rightarrow> bytes option \<Rightarrow> SmpCanTransport \<Rightarrow> bool \<times> SmpCanTransport" where
  "Enqueue target packet s =
     (case packet of
        None \<Rightarrow> (False, drop_tx s)
      | Some p \<Rightarrow>
          if p = [] \<or> st_address s = 0 \<or> \<not> st_is_initialized s \<or> \<not> IsValidAddress target \<or> target = st_address s
          then (False, drop_tx s)
          else (True, put ScheduleTx (s\<lparr>st_tx_queue := st_tx_queue s @ [(target, p)]\<rparr>)))"

definition DropTx :: "SmpCanTransport \<Rightarrow> SmpCanTransport" where
  "DropTx s =
     (let s1 = (if st_tx_packet s \<noteq> None then drop_tx (s\<lparr>st_tx_packet := None\<rparr>) else s)
      in s1\<lparr>st_tx_queue := [], st_tx_dropped := st_tx_dropped s1 + of_nat (length (st_tx_queue s1))\<rparr>)"

text \<open>The packet being sent, taken from the queue when there is none.\<close>

definition next_packet :: "SmpCanFrameFormat \<Rightarrow> SmpCanTransport \<Rightarrow> (u8 \<times> SmpCanTransport) option" where
  "next_packet fmt s =
     (case st_tx_packet s of
        Some (peer, _) \<Rightarrow> Some (peer, s)
      | None \<Rightarrow>
          (case st_tx_queue s of
             [] \<Rightarrow> None
           | (peer, p) # rest \<Rightarrow>
               Some (peer, s\<lparr>st_tx_queue := rest, st_tx_packet := Some (peer, p), st_tx_framer := SmpCanFramer_new p fmt\<rparr>)))"

definition frame_sent :: "CanId \<Rightarrow> SmpCanTransport \<Rightarrow> SmpCanTransport" where
  "frame_sent i s =
     (let s1 = (put (SentFrame i (Framer_Encode (st_tx_framer s))) s)
            \<lparr>st_pacer := Pacer_OnSent (st_pacer s), st_tx_framer := Framer_Advance (st_tx_framer s)\<rparr>
      in if IsDone (st_tx_framer s1) then s1\<lparr>st_tx_packet := None\<rparr> else s1)"

definition TX_RETRY_DELAY_US :: int where "TX_RETRY_DELAY_US = 1000"

text \<open>
  The loop of \<open>ProcessTx\<close>; \<open>send k\<close> is the bus's answer to the \<open>k\<close>-th frame of the run. The result is the
  delay after which the task runs again, if it does.
\<close>

partial_function (option) tx_loop ::
  "smp_config \<Rightarrow> (nat \<Rightarrow> send_result) \<Rightarrow> SmpCanFrameFormat \<Rightarrow> u8 \<Rightarrow> nat \<Rightarrow> SmpCanTransport \<Rightarrow> (int option \<times> SmpCanTransport) option" where
  "tx_loop cfg send fmt address k s =
     (case next_packet fmt s of
        None \<Rightarrow> Some (None, s)
      | Some (peer, s1) \<Rightarrow>
          if \<not> CanSend (st_pacer s1)
          then Some (Some (GetWaitUs (max (sc_burst_frames cfg div 2) 1) (st_pacer s1)), s1)
          else (case send k of
                  SEND_AGAIN \<Rightarrow> Some (Some TX_RETRY_DELAY_US, s1)
                | SEND_FAILED \<Rightarrow> tx_loop cfg send fmt address (Suc k) (drop_tx (s1\<lparr>st_tx_packet := None\<rparr>))
                | SEND_OK \<Rightarrow>
                    tx_loop cfg send fmt address (Suc k) (frame_sent (Extended (MakeId (st_base s1) peer address)) s1)))"

text \<open>\<open>is_can_fd\<close>, \<open>bitrate\<close> and \<open>data_bitrate\<close> are the bus's configuration. \<open>None\<close> would be a run that does not end.\<close>

definition ProcessTx ::
  "smp_config \<Rightarrow> int \<Rightarrow> bool \<Rightarrow> u32 \<Rightarrow> u32 \<Rightarrow> (nat \<Rightarrow> send_result) \<Rightarrow> SmpCanTransport \<Rightarrow>
   (int option \<times> SmpCanTransport) result option" where
  "ProcessTx cfg now_us is_can_fd bitrate data_bitrate send s =
     (let address = st_address s;
          is_bound = (address \<noteq> 0 \<and> st_canbus s \<noteq> None);
          fmt = (is_bound \<and> is_can_fd);
          frame_time = (if is_bound then GetFrameTimeNs fmt bitrate data_bitrate else 0)
      in if frame_time = 0 then Some (Inr (None, DropTx s))
         else case (if frame_time \<noteq> st_pacer_frame_time_ns s
                    then map_sum id (\<lambda>p. s\<lparr>st_pacer := Pacer_Reset now_us p, st_pacer_frame_time_ns := frame_time\<rparr>)
                           (SmpCanPacer_new frame_time (st_bus_share_percent s) (sc_burst_frames cfg))
                    else Inr s) of
                Inl e \<Rightarrow> Some (Inl e)
              | Inr s1 \<Rightarrow> map_option Inr (tx_loop cfg send fmt address 0 (s1\<lparr>st_pacer := Pacer_Update now_us (st_pacer s1)\<rparr>)))"

section \<open>Receiving\<close>

definition FindRxSlot :: "u8 \<Rightarrow> SmpCanTransport \<Rightarrow> nat option" where
  "FindRxSlot source s = find_index (\<lambda>x. rx_source x = source) (st_rx_slots s)"

definition set_slot :: "nat \<Rightarrow> RxSlot \<Rightarrow> SmpCanTransport \<Rightarrow> SmpCanTransport" where
  "set_slot i x s = s\<lparr>st_rx_slots := (st_rx_slots s)[i := x]\<rparr>"

definition AcquireRxSlot ::
  "bytes option \<Rightarrow> u8 \<Rightarrow> SmpCanFrameFormat \<Rightarrow> SmpCanTransport \<Rightarrow> nat option \<times> SmpCanTransport" where
  "AcquireRxSlot alloc source fmt s =
     (case FindRxSlot 0 s of
        None \<Rightarrow> (None, s)
      | Some i \<Rightarrow>
          (case alloc of
             None \<Rightarrow> (None, s)
           | Some buffer \<Rightarrow>
               (Some i, set_slot i \<lparr>rx_source = source,
                  rx_reassembler = Reassembler_Attach buffer fmt (rx_reassembler (st_rx_slots s ! i))\<rparr> s)))"

definition release_slot :: "nat \<Rightarrow> SmpCanTransport \<Rightarrow> SmpCanTransport" where
  "release_slot i s = set_slot i (ReleaseRxSlot (st_rx_slots s ! i)) s"

definition slot_expired :: "int \<Rightarrow> RxSlot \<Rightarrow> bool" where
  "slot_expired now x \<longleftrightarrow> rx_source x \<noteq> 0 \<and> IsExpired now (rx_reassembler x)"

definition ReleaseExpiredRxSlots :: "int \<Rightarrow> SmpCanTransport \<Rightarrow> SmpCanTransport" where
  "ReleaseExpiredRxSlots now s =
     s\<lparr>st_rx_slots := map (\<lambda>x. if slot_expired now x then ReleaseRxSlot x else x) (st_rx_slots s),
       st_rx_dropped := st_rx_dropped s + of_nat (length (filter (slot_expired now) (st_rx_slots s)))\<rparr>"

definition Deliver :: "u8 \<Rightarrow> bytes \<Rightarrow> SmpCanTransport \<Rightarrow> SmpCanTransport" where
  "Deliver source packet s =
     (case SmpHeader_Parse packet of
        None \<Rightarrow> drop_rx s
      | Some header \<Rightarrow>
          if IsRequest header then put (SmpRequest source packet) s
          else if IsResponse header \<and> st_has_sink s then put (SinkResponse source packet) s
          else drop_rx s)"

definition accept_frame :: "u8 \<Rightarrow> bytes \<Rightarrow> int \<Rightarrow> nat \<Rightarrow> SmpCanTransport \<Rightarrow> SmpCanTransport" where
  "accept_frame source d now i s =
     (let x = st_rx_slots s ! i
      in case Reassembler_Accept d now (rx_reassembler x) of
           (result, r) \<Rightarrow>
             let s1 = set_slot i (x\<lparr>rx_reassembler := r\<rparr>) s
             in (case result of
                   IN_PROGRESS \<Rightarrow> s1
                 | COMPLETE \<Rightarrow> Deliver source (take (sr_length r) (sr_buffer r)) (release_slot i s1)
                 | DROPPED \<Rightarrow> release_slot i (drop_rx s1)
                 | IGNORED \<Rightarrow> release_slot i s1))"

definition OnFrame :: "int \<Rightarrow> bytes option \<Rightarrow> CanFrame \<Rightarrow> SmpCanTransport \<Rightarrow> SmpCanTransport" where
  "OnFrame now alloc frame s0 =
     (if \<not> frame_is_extended frame \<or> frame_is_remote_request frame then s0
      else let source = GetSource (frame_id frame)
           in if \<not> IsValidAddress source then s0
              else let s1 = ReleaseExpiredRxSlots now s0;
                       fmt = frame_is_can_fd frame;
                       slot = FindRxSlot source s1
                   in (case slot of
                         Some i \<Rightarrow>
                           if sr_format (rx_reassembler (st_rx_slots s1 ! i)) = fmt
                           then accept_frame source (frame_data frame) now i s1
                           else let s2 = release_slot i (drop_rx s1)
                                in if \<not> IsStartFrame (frame_data frame) then s2
                                   else (case AcquireRxSlot alloc source fmt s2 of
                                           (None, s3) \<Rightarrow> drop_rx s3
                                         | (Some j, s3) \<Rightarrow> accept_frame source (frame_data frame) now j s3)
                       | None \<Rightarrow>
                           if \<not> IsStartFrame (frame_data frame) then s1
                           else (case AcquireRxSlot alloc source fmt s1 of
                                   (None, s2) \<Rightarrow> drop_rx s2
                                 | (Some j, s2) \<Rightarrow> accept_frame source (frame_data frame) now j s2)))"

section \<open>Frames sent\<close>

definition sent_frames :: "SmpCanTransport \<Rightarrow> (CanId \<times> bytes) list" where
  "sent_frames s = concat (map (\<lambda>e. case e of SentFrame i f \<Rightarrow> [(i, f)] | _ \<Rightarrow> []) (st_outbox s))"

text \<open>The frames a unit with an address still has to send, in order, each with its identifier.\<close>

definition tagged :: "u32 \<Rightarrow> u8 \<Rightarrow> u8 \<Rightarrow> bytes list \<Rightarrow> (CanId \<times> bytes) list" where
  "tagged base address peer fs = map (\<lambda>f. (Extended (MakeId base peer address), f)) fs"

definition pending_frames :: "SmpCanFrameFormat \<Rightarrow> u8 \<Rightarrow> SmpCanTransport \<Rightarrow> (CanId \<times> bytes) list" where
  "pending_frames fmt address s =
     (case st_tx_packet s of None \<Rightarrow> []
      | Some (peer, _) \<Rightarrow> tagged (st_base s) address peer (frames_of (st_tx_framer s))) @
     concat (map (\<lambda>(peer, p). tagged (st_base s) address peer (frames_of (SmpCanFramer_new p fmt))) (st_tx_queue s))"

definition packets_waiting :: "SmpCanTransport \<Rightarrow> nat" where
  "packets_waiting s = (if st_tx_packet s = None then 0 else 1) + length (st_tx_queue s)"

text \<open>Everything but the slots and what is sent.\<close>

definition settings :: "SmpCanTransport \<Rightarrow> u32 \<times> u8 \<times> int \<times> u8 \<times> bool" where
  "settings s = (st_base s, st_bus_share_percent s, st_handler_id s, st_address s, st_is_initialized s)"

text \<open>What sending keeps.\<close>

definition tx_only :: "SmpCanTransport \<Rightarrow> SmpCanTransport \<Rightarrow> bool" where
  "tx_only s s' \<longleftrightarrow> settings s' = settings s \<and> st_rx_slots s' = st_rx_slots s \<and> st_pacer_frame_time_ns s' = st_pacer_frame_time_ns s"

lemmas tx_only_defs = tx_only_def settings_def

text \<open>Packets are not empty, and a packet being sent has frames left.\<close>

definition tx_wf :: "SmpCanTransport \<Rightarrow> bool" where
  "tx_wf s \<longleftrightarrow> (st_tx_packet s \<noteq> None \<longrightarrow> \<not> IsDone (st_tx_framer s)) \<and> (\<forall>(_, p)\<in>set (st_tx_queue s). p \<noteq> [])"

lemma next_packet_None: "next_packet fmt s = None \<longleftrightarrow> st_tx_packet s = None \<and> st_tx_queue s = []"
  by (auto simp: next_packet_def split: option.split list.split)

lemma next_packet_Some:
  assumes "next_packet fmt s = Some (peer, s1)" and "tx_wf s"
  shows "tx_wf s1 \<and> packets_waiting s1 = packets_waiting s \<and> (\<exists>p. st_tx_packet s1 = Some (peer, p)) \<and>
    pending_frames fmt address s1 = pending_frames fmt address s \<and> sent_frames s1 = sent_frames s \<and>
    st_pacer s1 = st_pacer s \<and> st_base s1 = st_base s \<and> tx_only s s1"
  using assms
  by (auto simp: tx_only_defs next_packet_def tx_wf_def packets_waiting_def pending_frames_def sent_frames_def SmpCanFramer_new_def IsDone_def
      split: option.splits list.splits)

lemma frame_sent_step:
  assumes "tx_wf s" and "st_tx_packet s = Some (peer, p)" and "pacer_ok (st_pacer s)" and "CanSend (st_pacer s)"
    and "s' = frame_sent (Extended (MakeId (st_base s) peer address)) s"
  shows "tx_wf s' \<and> pacer_ok (st_pacer s') \<and> st_base s' = st_base s \<and> tx_only s s' \<and>
    packets_waiting s' + nat (pa_credit (st_pacer s')) < packets_waiting s + nat (pa_credit (st_pacer s)) \<and>
    sent_frames s' @ pending_frames fmt address s' = sent_frames s @ pending_frames fmt address s"
proof -
  have f: "frames_of (st_tx_framer s) = Framer_Encode (st_tx_framer s) # frames_of (Framer_Advance (st_tx_framer s))"
    using assms(1,2) frames_of.simps [of "st_tx_framer s"] by (simp add: tx_wf_def)
  have last: "frames_of (Framer_Advance (st_tx_framer s)) = []" if "IsDone (Framer_Advance (st_tx_framer s))"
    using that by (simp add: frames_of.simps)
  have credit: "nat (pa_credit (st_pacer s) - pa_frame_cost (st_pacer s)) < nat (pa_credit (st_pacer s))"
    using assms(3,4) by (simp add: pacer_ok_def CanSend_def)
  show ?thesis
    using assms(1,2) Pacer_OnSent_ok [OF assms(3,4)] f last credit
    by (auto simp: assms(5) frame_sent_def Let_def put_def tx_wf_def packets_waiting_def sent_frames_def pending_frames_def
        tagged_def Pacer_OnSent_def tx_only_defs)
qed

text \<open>What a run of the send task leaves behind.\<close>

definition tx_outcome ::
  "(nat \<Rightarrow> send_result) \<Rightarrow> SmpCanFrameFormat \<Rightarrow> u8 \<Rightarrow> SmpCanTransport \<Rightarrow> int option \<Rightarrow> SmpCanTransport \<Rightarrow> bool" where
  "tx_outcome send fmt address s d s' \<longleftrightarrow> tx_wf s' \<and> pacer_ok (st_pacer s') \<and> tx_only s s' \<and>
    (case d of None \<Rightarrow> packets_waiting s' = 0 | Some w \<Rightarrow> 0 < w) \<and>
    ((\<forall>k. send k \<noteq> SEND_FAILED) \<longrightarrow>
       sent_frames s' @ pending_frames fmt address s' = sent_frames s @ pending_frames fmt address s)"

lemma tx_loop_returns:
  assumes "tx_wf s" and "pacer_ok (st_pacer s)"
  shows "\<exists>d s'. tx_loop cfg send fmt address k s = Some (d, s') \<and> tx_outcome send fmt address s d s'"
  using assms
proof (induction "packets_waiting s + nat (pa_credit (st_pacer s))" arbitrary: s k rule: less_induct)
  case less
  show ?case
  proof (cases "next_packet fmt s")
    case None
    then have "tx_loop cfg send fmt address k s = Some (None, s)" by (subst tx_loop.simps) simp
    moreover have "packets_waiting s = 0" using None by (simp add: next_packet_None packets_waiting_def)
    ultimately show ?thesis using less.prems by (simp add: tx_outcome_def tx_only_def)
  next
    case (Some x)
    obtain peer s1 where x: "x = (peer, s1)" by (cases x)
    note n = next_packet_Some [OF Some [unfolded x] less.prems(1), of address]
    then obtain p where p: "st_tx_packet s1 = Some (peer, p)" by blast
    have ok: "pacer_ok (st_pacer s1)" "tx_wf s1" using n less.prems(2) by simp_all
    have out: "tx_outcome send fmt address s (Some w) s1" if "0 < w" for w
      using that n ok by (simp add: tx_outcome_def)
    have go: ?thesis if "tx_loop cfg send fmt address k s = tx_loop cfg send fmt address (Suc k) u"
      "tx_wf u" "pacer_ok (st_pacer u)" "packets_waiting u + nat (pa_credit (st_pacer u)) < packets_waiting s + nat (pa_credit (st_pacer s))"
      "(\<forall>k. send k \<noteq> SEND_FAILED) \<longrightarrow> sent_frames u @ pending_frames fmt address u = sent_frames s @ pending_frames fmt address s"
      "tx_only s u" for u
      using less.hyps [OF that(4,2,3), of "Suc k"] that(1,5,6) by (auto simp: tx_outcome_def tx_only_def)
    show ?thesis
    proof (cases "CanSend (st_pacer s1)")
      case False
      let ?w = "GetWaitUs (max (sc_burst_frames cfg div 2) 1) (st_pacer s1)"
      have "tx_loop cfg send fmt address k s = Some (Some ?w, s1)" using Some x False by (subst tx_loop.simps) simp
      then show ?thesis using out [OF GetWaitUs_pos [OF ok(1) False]] by simp
    next
      case True
      show ?thesis
      proof (cases "send k")
        case SEND_OK
        have eq: "tx_loop cfg send fmt address k s =
            tx_loop cfg send fmt address (Suc k) (frame_sent (Extended (MakeId (st_base s1) peer address)) s1)"
          using Some x True SEND_OK by (subst tx_loop.simps) simp
        show ?thesis
          by (rule go [OF eq]) (use frame_sent_step [OF ok(2) p ok(1) True refl, of address fmt] n in \<open>simp_all add: tx_only_def\<close>)
      next
        case SEND_AGAIN
        then have "tx_loop cfg send fmt address k s = Some (Some TX_RETRY_DELAY_US, s1)"
          using Some x True by (subst tx_loop.simps) simp
        then show ?thesis using out [of TX_RETRY_DELAY_US] by (simp add: TX_RETRY_DELAY_US_def)
      next
        case SEND_FAILED
        have eq: "tx_loop cfg send fmt address k s = tx_loop cfg send fmt address (Suc k) (drop_tx (s1\<lparr>st_tx_packet := None\<rparr>))"
          using Some x True SEND_FAILED by (subst tx_loop.simps) simp
        show ?thesis
          by (rule go [OF eq]) (use n ok p SEND_FAILED in \<open>auto simp: tx_wf_def drop_tx_def packets_waiting_def tx_only_defs\<close>)
      qed
    qed
  qed
qed

section \<open>Receive slots\<close>

text \<open>The packet in progress of a source, and what was handed on of a source.\<close>

definition slot_of :: "u8 \<Rightarrow> SmpCanTransport \<Rightarrow> SmpCanReassembler option" where
  "slot_of a s = map_option rx_reassembler (find (\<lambda>x. rx_source x = a) (st_rx_slots s))"

definition deliveries :: "u8 \<Rightarrow> SmpCanTransport \<Rightarrow> bytes list" where
  "deliveries a s = concat (map (\<lambda>e. case e of SmpRequest b p \<Rightarrow> if b = a then [p] else []
     | SinkResponse b p \<Rightarrow> if b = a then [p] else [] | _ \<Rightarrow> []) (st_outbox s))"

text \<open>Two slots never have the same source.\<close>

definition one_per_source :: "RxSlot list \<Rightarrow> bool" where
  "one_per_source xs \<longleftrightarrow> (\<forall>i<length xs. \<forall>j<length xs. rx_source (xs ! i) = rx_source (xs ! j) \<and> rx_source (xs ! i) \<noteq> 0 \<longrightarrow> i = j)"

definition slots_wf :: "int \<Rightarrow> SmpCanTransport \<Rightarrow> bool" where
  "slots_wf timeout s \<longleftrightarrow> one_per_source (st_rx_slots s) \<and>
     (\<forall>x\<in>set (st_rx_slots s). sr_timeout_ms (rx_reassembler x) = timeout)"

lemma FindRxSlot_Some:
  assumes "FindRxSlot a s = Some i"
  shows "i < length (st_rx_slots s)" "rx_source (st_rx_slots s ! i) = a" "slot_of a s = Some (rx_reassembler (st_rx_slots s ! i))"
  using find_index_Some [of _ "st_rx_slots s" i] find_index_find [of _ "st_rx_slots s" i] assms
  by (auto simp: FindRxSlot_def slot_of_def)

lemma FindRxSlot_None: "FindRxSlot a s = None \<longleftrightarrow> slot_of a s = None" "FindRxSlot a s = None \<longleftrightarrow> (\<forall>x\<in>set (st_rx_slots s). rx_source x \<noteq> a)"
  by (auto simp: FindRxSlot_def slot_of_def find_index_None find_None_iff)

lemma find_update_other:
  "i < length xs \<Longrightarrow> \<not> P (xs ! i) \<Longrightarrow> \<not> P x \<Longrightarrow> find P (xs[i := x]) = find P xs"
proof (induction xs arbitrary: i)
  case (Cons y ys)
  then show ?case by (cases i) auto
qed simp

lemma find_update_this:
  assumes "i < length xs" and "\<And>j. j < length xs \<Longrightarrow> j \<noteq> i \<Longrightarrow> \<not> P (xs ! j)" and "P x"
  shows "find P (xs[i := x]) = Some x"
  using assms by (auto simp: find_Some_iff nth_list_update intro!: exI [of _ i])

lemma one_per_sourceD:
  "one_per_source xs \<Longrightarrow> i < length xs \<Longrightarrow> j < length xs \<Longrightarrow> rx_source (xs ! i) = rx_source (xs ! j) \<Longrightarrow>
     rx_source (xs ! i) \<noteq> 0 \<Longrightarrow> i = j"
  by (simp add: one_per_source_def)

lemma one_per_source_update:
  assumes "one_per_source xs" and "i < length xs"
    and "rx_source x = 0 \<or> rx_source x = rx_source (xs ! i) \<or> (\<forall>j<length xs. rx_source x \<noteq> rx_source (xs ! j))"
  shows "one_per_source (xs[i := x])"
  unfolding one_per_source_def using assms(2,3) one_per_sourceD [OF assms(1)] by (auto simp: nth_list_update) metis+

section \<open>Frames of one source\<close>

lemma slot_of_set_other:
  assumes "i < length (st_rx_slots s)" and "rx_source (st_rx_slots s ! i) \<noteq> a" and "rx_source x \<noteq> a"
  shows "slot_of a (set_slot i x s) = slot_of a s"
  using assms by (simp add: slot_of_def set_slot_def find_update_other)

lemma slot_of_set_this:
  assumes "i < length (st_rx_slots s)" and "rx_source x = a"
    and "\<And>j. j < length (st_rx_slots s) \<Longrightarrow> j \<noteq> i \<Longrightarrow> rx_source (st_rx_slots s ! j) \<noteq> a"
  shows "slot_of a (set_slot i x s) = Some (rx_reassembler x)"
  using assms find_update_this [of i "st_rx_slots s" "\<lambda>x. rx_source x = a" x] by (simp add: slot_of_def set_slot_def)

lemma deliveries_simps [simp]:
  "deliveries a (set_slot i x s) = deliveries a s" "deliveries a (release_slot i s) = deliveries a s"
  "deliveries a (drop_rx s) = deliveries a s" "deliveries a (ReleaseExpiredRxSlots now s) = deliveries a s"
  by (simp_all add: deliveries_def set_slot_def release_slot_def drop_rx_def ReleaseExpiredRxSlots_def)

lemma slots_simps [simp]:
  "st_rx_slots (drop_rx s) = st_rx_slots s" "st_rx_slots (put e s) = st_rx_slots s"
  "st_rx_slots (set_slot i x s) = (st_rx_slots s)[i := x]" "slot_of a (drop_rx s) = slot_of a s"
  "slot_of a (put e s) = slot_of a s" "slots_wf t (drop_rx s) = slots_wf t s" "slots_wf t (put e s) = slots_wf t s"
  by (simp_all add: drop_rx_def put_def set_slot_def slot_of_def slots_wf_def)

lemma Deliver_simps [simp]:
  "st_rx_slots (Deliver b p s) = st_rx_slots s" "slot_of a (Deliver b p s) = slot_of a s" "slots_wf t (Deliver b p s) = slots_wf t s"
  by (simp_all add: Deliver_def split: option.split)

lemma Deliver_other: "b \<noteq> a \<Longrightarrow> deliveries a (Deliver b p s) = deliveries a s"
  by (simp add: Deliver_def deliveries_def put_def drop_rx_def split: option.split)

definition deliverable :: "bytes \<Rightarrow> bool \<Rightarrow> bool" where
  "deliverable p has_sink \<longleftrightarrow> (\<exists>h. SmpHeader_Parse p = Some h \<and> (IsRequest h \<or> IsResponse h \<and> has_sink))"

lemma Deliver_this: "deliverable p (st_has_sink s) \<Longrightarrow> deliveries a (Deliver a p s) = deliveries a s @ [p]"
  by (auto simp: Deliver_def deliveries_def put_def deliverable_def)

lemma Append_timeout: "sr_timeout_ms (snd (Reassembler_Append d r)) = sr_timeout_ms r"
proof -
  have d: "sr_timeout_ms (snd (Reassembler_Drop u)) = sr_timeout_ms u" for u
    by (simp add: Reassembler_Drop_def Reassembler_Reset_def)
  then have "sr_timeout_ms (snd (finish_append start copied d u)) = sr_timeout_ms u" for start copied u
    by (simp add: finish_append_def)
  with d show ?thesis by (simp add: Reassembler_Append_def Let_def split: option.split)
qed

lemma Accept_timeout: "sr_timeout_ms (snd (Reassembler_Accept frame now r)) = sr_timeout_ms r"
  by (simp add: Reassembler_Accept_def Append_timeout Reassembler_Drop_def Reassembler_Reset_def Let_def)

lemma slots_wf_set:
  assumes "slots_wf t s" and "i < length (st_rx_slots s)" and "sr_timeout_ms (rx_reassembler x) = t"
    and "rx_source x = 0 \<or> rx_source x = rx_source (st_rx_slots s ! i) \<or>
       (\<forall>j<length (st_rx_slots s). rx_source x \<noteq> rx_source (st_rx_slots s ! j))"
  shows "slots_wf t (set_slot i x s)"
  using assms one_per_source_update [of "st_rx_slots s" i x] set_update_subset_insert [of "st_rx_slots s" i x]
  by (auto simp: slots_wf_def set_slot_def)

lemma slots_wf_timeout: "slots_wf t s \<Longrightarrow> i < length (st_rx_slots s) \<Longrightarrow> sr_timeout_ms (rx_reassembler (st_rx_slots s ! i)) = t"
  by (simp add: slots_wf_def)

lemma slots_wf_release: "slots_wf t s \<Longrightarrow> i < length (st_rx_slots s) \<Longrightarrow> slots_wf t (release_slot i s)"
  unfolding release_slot_def
  by (rule slots_wf_set) (simp_all add: ReleaseRxSlot_def Reassembler_Reset_def slots_wf_timeout)

lemma slot_of_release:
  assumes "slots_wf t s" and "i < length (st_rx_slots s)" and "rx_source (st_rx_slots s ! i) = b" and "b \<noteq> 0" and "a \<noteq> 0"
  shows "slot_of a (release_slot i s) = (if a = b then None else slot_of a s)"
proof (cases "a = b")
  case True
  have "rx_source ((st_rx_slots s)[i := ReleaseRxSlot (st_rx_slots s ! i)] ! j) \<noteq> b" if "j < length (st_rx_slots s)" for j
    using that assms one_per_sourceD [of "st_rx_slots s" i j] by (auto simp: nth_list_update ReleaseRxSlot_def slots_wf_def)
  then have "\<forall>x\<in>set ((st_rx_slots s)[i := ReleaseRxSlot (st_rx_slots s ! i)]). rx_source x \<noteq> b"
    unfolding all_set_conv_all_nth length_list_update by blast
  then show ?thesis using True by (simp add: slot_of_def release_slot_def find_None_iff)
next
  case False
  then show ?thesis
    using assms slot_of_set_other [of i s a "ReleaseRxSlot (st_rx_slots s ! i)"] by (simp add: release_slot_def ReleaseRxSlot_def)
qed

lemma accept_frame_slots:
  assumes wf: "slots_wf t s" and i: "i < length (st_rx_slots s)" "rx_source (st_rx_slots s ! i) = b" and b: "b \<noteq> 0" and a: "a \<noteq> 0"
    and acc: "Reassembler_Accept d now (rx_reassembler (st_rx_slots s ! i)) = (res, r)"
  shows "slots_wf t (accept_frame b d now i s) \<and>
    slot_of a (accept_frame b d now i s) = (if a = b then (if res = IN_PROGRESS then Some r else None) else slot_of a s)"
proof -
  let ?s = "set_slot i ((st_rx_slots s ! i)\<lparr>rx_reassembler := r\<rparr>) s"
  have t: "sr_timeout_ms r = t" using Accept_timeout [of d now "rx_reassembler (st_rx_slots s ! i)"] slots_wf_timeout [OF wf i(1)] acc by simp
  have wf1: "slots_wf t ?s" by (rule slots_wf_set [OF wf i(1)]) (use t in auto)
  have i1: "i < length (st_rx_slots ?s)" "rx_source (st_rx_slots ?s ! i) = b" using i by simp_all
  have here: "slot_of a ?s = (if a = b then Some r else slot_of a s)"
  proof (cases "a = b")
    case True
    have "rx_source (st_rx_slots s ! j) \<noteq> b" if "j < length (st_rx_slots s)" "j \<noteq> i" for j
      using one_per_sourceD [of "st_rx_slots s" i j] wf i b that by (auto simp: slots_wf_def)
    then show ?thesis using True i slot_of_set_this [of i s "(st_rx_slots s ! i)\<lparr>rx_reassembler := r\<rparr>" b] by simp
  next
    case False
    then show ?thesis using i by (simp add: slot_of_set_other)
  qed
  have dropped: "slots_wf t (release_slot i (drop_rx ?s))" "slot_of a (release_slot i (drop_rx ?s)) = (if a = b then None else slot_of a ?s)"
    using slots_wf_release [of t "drop_rx ?s" i] slot_of_release [of t "drop_rx ?s" i b a] wf1 i1 a b by simp_all
  have released: "slots_wf t (release_slot i ?s)" "slot_of a (release_slot i ?s) = (if a = b then None else slot_of a ?s)"
    using slots_wf_release [OF wf1 i1(1)] slot_of_release [OF wf1 i1 b a] by simp_all
  show ?thesis
    using acc wf1 here dropped released by (cases res) (simp_all add: accept_frame_def Let_def)
qed

lemma accept_frame_silent:
  assumes "Reassembler_Accept d now (rx_reassembler (st_rx_slots s ! i)) = (res, r)" and "a \<noteq> b \<or> res \<noteq> COMPLETE"
  shows "deliveries a (accept_frame b d now i s) = deliveries a s"
  unfolding accept_frame_def Let_def assms(1) prod.case
  using assms(2) by (cases res) (simp_all add: Deliver_other)

lemma has_sink_simps [simp]:
  "st_has_sink (set_slot i x s) = st_has_sink s" "st_has_sink (release_slot i s) = st_has_sink s"
  "st_has_sink (drop_rx s) = st_has_sink s" "st_has_sink (put e s) = st_has_sink s"
  "st_has_sink (ReleaseExpiredRxSlots now s) = st_has_sink s"
  by (simp_all add: set_slot_def release_slot_def drop_rx_def put_def ReleaseExpiredRxSlots_def)

lemma Deliver_sink [simp]: "st_has_sink (Deliver b p s) = st_has_sink s"
  by (simp add: Deliver_def split: option.split)

lemma accept_frame_sink [simp]: "st_has_sink (accept_frame b d now i s) = st_has_sink s"
  by (simp add: accept_frame_def Let_def split: prod.split reassembly.split)

lemma accept_frame_complete:
  assumes "Reassembler_Accept d now (rx_reassembler (st_rx_slots s ! i)) = (COMPLETE, r)"
    and "deliverable (take (sr_length r) (sr_buffer r)) (st_has_sink s)"
  shows "deliveries b (accept_frame b d now i s) = deliveries b s @ [take (sr_length r) (sr_buffer r)]"
  unfolding accept_frame_def Let_def assms(1) prod.case
  using assms(2) by (simp add: Deliver_this)

lemma ReleaseExpired_slots:
  assumes "slots_wf t s" and "a \<noteq> 0"
  shows "slots_wf t (ReleaseExpiredRxSlots now s)"
    and "slot_of a s = Some r \<Longrightarrow> \<not> IsExpired now r \<Longrightarrow> slot_of a (ReleaseExpiredRxSlots now s) = Some r"
    and "slot_of a s = None \<Longrightarrow> slot_of a (ReleaseExpiredRxSlots now s) = None"
    and "slot_of a (ReleaseExpiredRxSlots now s) = Some r \<Longrightarrow> \<not> IsExpired now r"
proof -
  let ?f = "\<lambda>x. if slot_expired now x then ReleaseRxSlot x else x"
  have src: "rx_source (?f x) = rx_source x \<or> rx_source (?f x) = 0" for x by (simp add: ReleaseRxSlot_def)
  have "one_per_source (map ?f (st_rx_slots s))"
    unfolding one_per_source_def
  proof (intro allI impI)
    fix i j
    assume l: "i < length (map ?f (st_rx_slots s))" "j < length (map ?f (st_rx_slots s))"
      and e: "rx_source (map ?f (st_rx_slots s) ! i) = rx_source (map ?f (st_rx_slots s) ! j) \<and> rx_source (map ?f (st_rx_slots s) ! i) \<noteq> 0"
    have "rx_source (st_rx_slots s ! i) = rx_source (st_rx_slots s ! j)" "rx_source (st_rx_slots s ! i) \<noteq> 0"
      using src [of "st_rx_slots s ! i"] src [of "st_rx_slots s ! j"] e l by (auto simp del: if_split_eq1)
    then show "i = j" using one_per_sourceD [of "st_rx_slots s" i j] assms(1) l by (simp add: slots_wf_def)
  qed
  then show "slots_wf t (ReleaseExpiredRxSlots now s)"
    using assms(1) by (auto simp: slots_wf_def ReleaseExpiredRxSlots_def ReleaseRxSlot_def Reassembler_Reset_def)
  have gone: "rx_source (?f x) \<noteq> a" if "rx_source x \<noteq> a" for x using that assms(2) by (simp add: ReleaseRxSlot_def)
  have keep: "find (\<lambda>x. rx_source x = a) (map ?f xs) = Some y"
    if "find (\<lambda>x. rx_source x = a) xs = Some y" "\<not> slot_expired now y" for xs y
    using that assms(2) by (induction xs) (auto simp: ReleaseRxSlot_def split: if_splits)
  have "find (\<lambda>x. rx_source x = a) (map ?f xs) = None" if "find (\<lambda>x. rx_source x = a) xs = None" for xs
    using that gone unfolding find_None_iff set_map by blast
  then show "slot_of a s = None \<Longrightarrow> slot_of a (ReleaseExpiredRxSlots now s) = None"
    by (simp add: slot_of_def ReleaseExpiredRxSlots_def)
  show "slot_of a s = Some r \<Longrightarrow> \<not> IsExpired now r \<Longrightarrow> slot_of a (ReleaseExpiredRxSlots now s) = Some r"
    using keep [of "st_rx_slots s"] by (auto simp: slot_of_def ReleaseExpiredRxSlots_def slot_expired_def)
  show "slot_of a (ReleaseExpiredRxSlots now s) = Some r \<Longrightarrow> \<not> IsExpired now r"
    using assms(2) by (auto simp: slot_of_def ReleaseExpiredRxSlots_def find_Some_iff slot_expired_def ReleaseRxSlot_def split: if_splits)
qed

text \<open>What a source has in progress and has delivered is as before.\<close>

definition untouched :: "u8 \<Rightarrow> int \<Rightarrow> SmpCanTransport \<Rightarrow> SmpCanTransport \<Rightarrow> bool" where
  "untouched a t s s' \<longleftrightarrow> slots_wf t s' \<and> slot_of a s' = slot_of a s \<and> deliveries a s' = deliveries a s \<and> st_has_sink s' = st_has_sink s"

lemma untouched_trans: "untouched a t s s1 \<Longrightarrow> untouched a t s1 s2 \<Longrightarrow> untouched a t s s2"
  by (simp add: untouched_def)

lemma untouched_wf: "untouched a t s s' \<Longrightarrow> slots_wf t s'"
  by (simp add: untouched_def)

lemma AcquireRxSlot_None: "AcquireRxSlot alloc b fmt s = (None, s') \<Longrightarrow> s' = s"
  by (auto simp: AcquireRxSlot_def split: option.splits)

lemma AcquireRxSlot_Some:
  assumes "AcquireRxSlot alloc b fmt s = (Some j, s')" and wf: "slots_wf t s" and b: "b \<noteq> 0" "slot_of b s = None"
  shows "j < length (st_rx_slots s')" "rx_source (st_rx_slots s' ! j) = b" "slots_wf t s'"
    and "a \<noteq> 0 \<Longrightarrow> a \<noteq> b \<Longrightarrow> untouched a t s s'"
    and "\<exists>r. rx_reassembler (st_rx_slots s' ! j) = Reassembler_Attach (the alloc) fmt r" "deliveries b s' = deliveries b s"
    and "st_has_sink s' = st_has_sink s"
proof -
  from assms(1) obtain buffer where free: "FindRxSlot 0 s = Some j" and buffer: "alloc = Some buffer"
    by (auto simp: AcquireRxSlot_def split: option.splits)
  let ?x = "\<lparr>rx_source = b, rx_reassembler = Reassembler_Attach buffer fmt (rx_reassembler (st_rx_slots s ! j))\<rparr>"
  have s': "s' = set_slot j ?x s" using assms(1) free buffer by (simp add: AcquireRxSlot_def)
  note j = FindRxSlot_Some [OF free]
  have new: "rx_source (st_rx_slots s ! i) \<noteq> b" if "i < length (st_rx_slots s)" for i
    using b(2) that unfolding FindRxSlot_None(1) [symmetric] FindRxSlot_None(2) by simp
  show "j < length (st_rx_slots s')" "rx_source (st_rx_slots s' ! j) = b" "deliveries b s' = deliveries b s"
    "st_has_sink s' = st_has_sink s" "\<exists>r. rx_reassembler (st_rx_slots s' ! j) = Reassembler_Attach (the alloc) fmt r"
    using j(1) buffer by (auto simp: s')
  show wf': "slots_wf t s'"
    unfolding s' by (rule slots_wf_set [OF wf j(1)])
      (use new slots_wf_timeout [OF wf j(1)] in \<open>auto simp: Reassembler_Attach_def Reassembler_Reset_def\<close>)
  show "untouched a t s s'" if "a \<noteq> 0" "a \<noteq> b"
    using wf' j that by (simp add: untouched_def s' slot_of_set_other)
qed

lemma accept_frame_untouched:
  assumes "slots_wf t s" and "i < length (st_rx_slots s)" and "rx_source (st_rx_slots s ! i) = b" and "b \<noteq> 0" and "a \<noteq> 0" and "a \<noteq> b"
  shows "untouched a t s (accept_frame b d now i s)"
proof -
  obtain res r where acc: "Reassembler_Accept d now (rx_reassembler (st_rx_slots s ! i)) = (res, r)" by fastforce
  show ?thesis
    using accept_frame_slots [OF assms(1-5) acc] accept_frame_silent [OF acc, of a b] assms(6) by (simp add: untouched_def)
qed

lemma acquire_accept_untouched:
  assumes "slots_wf t s" and "b \<noteq> 0" and "slot_of b s = None" and "a \<noteq> 0" and "a \<noteq> b"
  shows "untouched a t s (case AcquireRxSlot alloc b fmt s of (None, s3) \<Rightarrow> drop_rx s3 | (Some j, s3) \<Rightarrow> accept_frame b d now j s3)"
proof -
  obtain o' s3 where acq: "AcquireRxSlot alloc b fmt s = (o', s3)" by fastforce
  show ?thesis
  proof (cases o')
    case None
    then show ?thesis using acq AcquireRxSlot_None [of alloc b fmt s s3] assms(1) by (simp add: untouched_def)
  next
    case (Some j)
    note q = AcquireRxSlot_Some [OF acq [unfolded Some] assms(1-3)]
    show ?thesis
      using untouched_trans [OF q(4) [OF assms(4,5)] accept_frame_untouched [OF q(3,1,2) assms(2,4,5)]] acq Some by simp
  qed
qed

lemma ReleaseExpired_untouched:
  assumes "slots_wf t s" and "a \<noteq> 0" and "\<And>r. slot_of a s = Some r \<Longrightarrow> \<not> IsExpired now r"
  shows "untouched a t s (ReleaseExpiredRxSlots now s)"
  using ReleaseExpired_slots(1-3) [OF assms(1,2)] assms(3) by (cases "slot_of a s") (auto simp: untouched_def)

text \<open>A frame that counts as one of a source.\<close>

definition is_from :: "u8 \<Rightarrow> CanFrame \<Rightarrow> bool" where
  "is_from a frame \<longleftrightarrow> frame_is_extended frame \<and> \<not> frame_is_remote_request frame \<and> GetSource (frame_id frame) = a"

lemma IsValidAddress_nonzero: "IsValidAddress a \<Longrightarrow> a \<noteq> 0"
  by (auto simp: IsValidAddress_def)

lemma OnFrame_other:
  assumes "slots_wf t s" and "a \<noteq> 0" and "\<not> is_from a frame" and "\<And>r. slot_of a s = Some r \<Longrightarrow> \<not> IsExpired now r"
  shows "untouched a t s (OnFrame now alloc frame s)"
proof (cases "frame_is_extended frame \<and> \<not> frame_is_remote_request frame \<and> IsValidAddress (GetSource (frame_id frame))")
  case False
  then show ?thesis using assms(1) by (auto simp: OnFrame_def Let_def untouched_def)
next
  case True
  let ?b = "GetSource (frame_id frame)" and ?s = "ReleaseExpiredRxSlots now s"
  have b: "?b \<noteq> 0" "a \<noteq> ?b" using True assms(3) IsValidAddress_nonzero [of ?b] by (auto simp: is_from_def)
  have u: "untouched a t s ?s" by (rule ReleaseExpired_untouched [OF assms(1,2,4)])
  note wf = untouched_wf [OF u]
  have "untouched a t ?s (OnFrame now alloc frame s)"
  proof (cases "FindRxSlot ?b ?s")
    case None
    then have "slot_of ?b ?s = None" by (simp add: FindRxSlot_None)
    then show ?thesis
      using acquire_accept_untouched [OF wf b(1) _ assms(2) b(2)] True None wf by (simp add: OnFrame_def Let_def untouched_def)
  next
    case (Some i)
    note i = FindRxSlot_Some(1,2) [OF Some]
    let ?s2 = "release_slot i (drop_rx ?s)"
    have wf2: "slots_wf t ?s2" using slots_wf_release [of t "drop_rx ?s" i] wf i by simp
    have rel: "slot_of c ?s2 = (if c = ?b then None else slot_of c ?s)" if "c \<noteq> 0" for c
      using slot_of_release [of t "drop_rx ?s" i ?b c] that wf i b by simp
    have u2: "untouched a t ?s ?s2" using rel [OF assms(2)] b wf2 by (simp add: untouched_def)
    have free: "slot_of ?b ?s2 = None" using rel [OF b(1)] by simp
    show ?thesis
      using untouched_trans [OF u2 acquire_accept_untouched [OF wf2 b(1) free assms(2) b(2)]]
        accept_frame_untouched [OF wf i b(1) assms(2) b(2)] True Some u2 by (simp add: OnFrame_def Let_def)
  qed
  with u show ?thesis by (rule untouched_trans)
qed

text \<open>The effect of a frame of a source, from the reassembler's answer to it.\<close>

definition accepted :: "u8 \<Rightarrow> int \<Rightarrow> SmpCanTransport \<Rightarrow> reassembly \<times> SmpCanReassembler \<Rightarrow> SmpCanTransport \<Rightarrow> bool" where
  "accepted a t s = (\<lambda>(res, r) s'. slots_wf t s' \<and> st_has_sink s' = st_has_sink s \<and>
     slot_of a s' = (if res = IN_PROGRESS then Some r else None) \<and>
     (if res = COMPLETE
      then deliverable (take (sr_length r) (sr_buffer r)) (st_has_sink s) \<longrightarrow>
           deliveries a s' = deliveries a s @ [take (sr_length r) (sr_buffer r)]
      else deliveries a s' = deliveries a s))"

lemma accept_frame_accepted:
  assumes "slots_wf t s" and "i < length (st_rx_slots s)" and "rx_source (st_rx_slots s ! i) = a" and "a \<noteq> 0"
  shows "accepted a t s (Reassembler_Accept d now (rx_reassembler (st_rx_slots s ! i))) (accept_frame a d now i s)"
proof -
  obtain res r where acc: "Reassembler_Accept d now (rx_reassembler (st_rx_slots s ! i)) = (res, r)" by fastforce
  show ?thesis
    using accept_frame_slots [OF assms(1-4) assms(4) acc] accept_frame_silent [OF acc, of a a]
      accept_frame_complete [of d now s i r a] acc by (auto simp: accepted_def)
qed

lemma accepted_from:
  "accepted a t s1 x s' \<Longrightarrow> deliveries a s1 = deliveries a s \<Longrightarrow> st_has_sink s1 = st_has_sink s \<Longrightarrow> accepted a t s x s'"
  by (cases x) (simp add: accepted_def)

lemma OnFrame_next:
  assumes wf: "slots_wf t s" and a: "IsValidAddress a" "is_from a frame" and r: "slot_of a s = Some r" "\<not> IsExpired now r"
    and fmt: "sr_format r = frame_is_can_fd frame"
  shows "accepted a t s (Reassembler_Accept (frame_data frame) now r) (OnFrame now alloc frame s)"
proof -
  let ?s = "ReleaseExpiredRxSlots now s"
  note a0 = IsValidAddress_nonzero [OF a(1)]
  have wf1: "slots_wf t ?s" and r1: "slot_of a ?s = Some r" using ReleaseExpired_slots(1,2) [OF wf a0] r by simp_all
  then obtain i where found: "FindRxSlot a ?s = Some i" using FindRxSlot_None(1) [of a ?s] by (cases "FindRxSlot a ?s") auto
  note i = FindRxSlot_Some [OF found]
  have "OnFrame now alloc frame s = accept_frame a (frame_data frame) now i ?s"
    using a found i(3) r1 fmt by (simp add: OnFrame_def Let_def is_from_def)
  then show ?thesis
    using accepted_from [OF accept_frame_accepted [OF wf1 i(1,2) a0, of "frame_data frame" now], of s] i(3) r1 by simp
qed

lemma FindRxSlot_0_release: "FindRxSlot 0 s \<noteq> None \<Longrightarrow> FindRxSlot 0 (ReleaseExpiredRxSlots now s) \<noteq> None"
  unfolding FindRxSlot_None(2) by (auto simp: ReleaseExpiredRxSlots_def slot_expired_def)

lemma OnFrame_first:
  assumes wf: "slots_wf t s" and a: "IsValidAddress a" "is_from a frame" and none: "slot_of a s = None"
    and free: "FindRxSlot 0 s \<noteq> None" and start: "IsStartFrame (frame_data frame)"
  shows "\<exists>r0. sr_timeout_ms r0 = t \<and>
    accepted a t s (Reassembler_Accept (frame_data frame) now (Reassembler_Attach buffer (frame_is_can_fd frame) r0))
      (OnFrame now (Some buffer) frame s)"
proof -
  let ?s = "ReleaseExpiredRxSlots now s"
  note a0 = IsValidAddress_nonzero [OF a(1)]
  have wf1: "slots_wf t ?s" and none1: "slot_of a ?s = None" using ReleaseExpired_slots(1,3) [OF wf a0] none by simp_all
  obtain j s2 where acq: "AcquireRxSlot (Some buffer) a (frame_is_can_fd frame) ?s = (Some j, s2)"
    using FindRxSlot_0_release [OF free, of now] by (auto simp: AcquireRxSlot_def)
  note q = AcquireRxSlot_Some [OF acq wf1 a0 none1]
  obtain r0 where r0: "rx_reassembler (st_rx_slots s2 ! j) = Reassembler_Attach buffer (frame_is_can_fd frame) r0" using q(5) by auto
  have "OnFrame now (Some buffer) frame s = accept_frame a (frame_data frame) now j s2"
    using a acq none1 start by (simp add: OnFrame_def Let_def is_from_def FindRxSlot_None(1) [symmetric])
  then have "accepted a t s (Reassembler_Accept (frame_data frame) now (Reassembler_Attach buffer (frame_is_can_fd frame) r0))
      (OnFrame now (Some buffer) frame s)"
    using accepted_from [OF accept_frame_accepted [OF q(3,1,2) a0, of "frame_data frame" now], of s] r0 q(6,7) by simp
  moreover have "sr_timeout_ms r0 = t"
    using slots_wf_timeout [OF q(3,1)] r0 by (simp add: Reassembler_Attach_def Reassembler_Reset_def)
  ultimately show ?thesis by blast
qed

section \<open>Packets between the frames of other units\<close>

type_synonym arrival = "int \<times> bytes option \<times> CanFrame"

text \<open>Frames arrive with the time and what the packet pool would answer.\<close>

definition receive :: "arrival list \<Rightarrow> SmpCanTransport \<Rightarrow> SmpCanTransport" where
  "receive = fold (\<lambda>(now, alloc, frame). OnFrame now alloc frame)"

definition frames_from :: "u8 \<Rightarrow> arrival list \<Rightarrow> (bool \<times> bytes) list" where
  "frames_from a arrivals =
     map (\<lambda>(_, _, frame). (frame_is_can_fd frame, frame_data frame)) (filter (\<lambda>(_, _, frame). is_from a frame) arrivals)"

text \<open>Every frame arrives within the timeout of the source's last one.\<close>

fun timely :: "int \<Rightarrow> u8 \<Rightarrow> int \<Rightarrow> arrival list \<Rightarrow> bool" where
  "timely timeout a before [] \<longleftrightarrow> True"
| "timely timeout a before ((now, _, frame) # rest) \<longleftrightarrow>
     now - before \<le> timeout \<and> timely timeout a (if is_from a frame then now else before) rest"

text \<open>The framer \<open>f\<close> of a source says what is still to come; the latest of it came at \<open>before\<close>.\<close>

definition receiving :: "u8 \<Rightarrow> int \<Rightarrow> SmpCanFramer \<Rightarrow> int \<Rightarrow> SmpCanTransport \<Rightarrow> bool" where
  "receiving a t f before s \<longleftrightarrow> slots_wf t s \<and>
     (if IsDone f then slot_of a s = None
      else fr_offset f \<noteq> 0 \<and> (\<exists>r. slot_of a s = Some r \<and> in_step f r \<and> sr_timeout_ms r = t \<and> sr_last_frame_ms r = before))"

lemma accepted_receiving:
  assumes f: "in_step f r" "fr_offset f \<noteq> 0 \<Longrightarrow> \<not> IsExpired now r" and t: "sr_timeout_ms r = t"
    and acc: "accepted a t s (Reassembler_Accept (Framer_Encode f) now r) s'" and d: "deliverable (fr_packet f) (st_has_sink s)"
  shows "receiving a t (Framer_Advance f) now s' \<and> st_has_sink s' = st_has_sink s \<and>
    deliveries a s' = deliveries a s @ (if IsDone (Framer_Advance f) then [fr_packet f] else [])"
proof -
  obtain res r' where out: "Reassembler_Accept (Framer_Encode f) now r = (res, r')" by fastforce
  note step = Accept_step [OF f out]
  have "fr_offset (Framer_Advance f) \<noteq> 0" if "\<not> IsDone f"
    using that GetDataSize_ge(1) [of "fr_format f"] by (auto simp: Framer_Advance_def Framer_data_size_def IsDone_def)
  moreover have "\<not> IsDone f" using f(1) by (simp add: in_step_def)
  ultimately show ?thesis
    using step acc out t d by (cases "IsDone (Framer_Advance f)") (auto simp: accepted_def receiving_def)
qed

lemma Advance_packet: "fr_packet (Framer_Advance f) = fr_packet f" "fr_format (Framer_Advance f) = fr_format f"
  by (simp_all add: Framer_Advance_def)

lemma receive_rest:
  assumes "IsValidAddress a" and "receiving a t f before s" and "timely t a before arrivals"
    and "frames_from a arrivals = map (Pair (fr_format f)) (frames_of f)" and "deliverable (fr_packet f) (st_has_sink s)"
  shows "deliveries a (receive arrivals s) = deliveries a s @ (if IsDone f then [] else [fr_packet f]) \<and>
    slots_wf t (receive arrivals s) \<and> slot_of a (receive arrivals s) = None"
  using assms
proof (induction arrivals arbitrary: f before s)
  case Nil
  then have "IsDone f" by (auto simp: frames_from_def frames_of.simps [of f] split: if_splits)
  then show ?case using Nil by (simp add: receive_def receiving_def)
next
  case (Cons x rest)
  obtain now alloc frame where x: "x = (now, alloc, frame)" by (cases x)
  let ?s = "OnFrame now alloc frame s"
  have rec: "receive (x # rest) s = receive rest ?s" by (simp add: receive_def x)
  have wf: "slots_wf t s" and in_t: "now - before \<le> t" using Cons.prems(2,3) by (simp_all add: receiving_def x)
  show ?case
  proof (cases "is_from a frame")
    case False
    have "untouched a t s ?s"
      using Cons.prems(2) in_t
      by (intro OnFrame_other [OF wf IsValidAddress_nonzero [OF Cons.prems(1)] False])
        (auto simp: receiving_def IsExpired_def split: if_splits)
    then have u: "receiving a t f before ?s" "deliveries a ?s = deliveries a s" "st_has_sink ?s = st_has_sink s"
      using Cons.prems(2) by (auto simp: receiving_def untouched_def)
    show ?thesis
      using Cons.IH [OF Cons.prems(1) u(1)] Cons.prems(3-5) False u(2,3) unfolding rec by (simp add: x frames_from_def)
  next
    case True
    then have head: "frames_of f \<noteq> []" using Cons.prems(4) by (auto simp: frames_from_def x)
    then have nd: "\<not> IsDone f" by (simp add: frames_of.simps [of f] split: if_splits)
    then have fs: "frame_is_can_fd frame = fr_format f" "frame_data frame = Framer_Encode f"
      "frames_from a rest = map (Pair (fr_format f)) (frames_of (Framer_Advance f))"
      using True Cons.prems(4) by (simp_all add: frames_from_def x frames_of.simps [of f])
    obtain r where r: "slot_of a s = Some r" "in_step f r" "sr_timeout_ms r = t" "sr_last_frame_ms r = before" and off: "fr_offset f \<noteq> 0"
      using Cons.prems(2) nd by (auto simp: receiving_def)
    have fresh: "\<not> IsExpired now r" using in_t r(3,4) by (simp add: IsExpired_def)
    have "sr_format r = frame_is_can_fd frame" using r(2) fs(1) by (simp add: in_step_def)
    from OnFrame_next [OF wf Cons.prems(1) True r(1) fresh this]
    have "accepted a t s (Reassembler_Accept (Framer_Encode f) now r) ?s" using fs(2) by simp
    from accepted_receiving [OF r(2) fresh r(3) this Cons.prems(5)]
    have u: "receiving a t (Framer_Advance f) now ?s" "st_has_sink ?s = st_has_sink s"
      "deliveries a ?s = deliveries a s @ (if IsDone (Framer_Advance f) then [fr_packet f] else [])" by simp_all
    show ?thesis
      using Cons.IH [OF Cons.prems(1) u(1)] Cons.prems(3,5) True fs(3) u(2,3) nd unfolding rec
      by (simp add: x Advance_packet)
  qed
qed

lemma receive_packet:
  assumes "slots_wf t s" and "IsValidAddress a" and "slot_of a s = None" and "FindRxSlot 0 s \<noteq> None"
    and "smp_packet p" and "deliverable p (st_has_sink s)" and "length p \<le> length buffer" and "is_from a first"
    and "frames_from a ((now, Some buffer, first) # rest) = map (Pair fmt) (frames_of (SmpCanFramer_new p fmt))"
    and "timely t a now rest"
  shows "deliveries a (receive ((now, Some buffer, first) # rest) s) = deliveries a s @ [p] \<and>
    slot_of a (receive ((now, Some buffer, first) # rest) s) = None"
proof -
  let ?f = "SmpCanFramer_new p fmt" and ?s = "OnFrame now (Some buffer) first s"
  have nd: "\<not> IsDone ?f" using smp_packet_length [OF assms(5)] by (auto simp: SmpCanFramer_new_def IsDone_def)
  have fs: "frame_is_can_fd first = fmt" "frame_data first = Framer_Encode ?f"
    "frames_from a rest = map (Pair fmt) (frames_of (Framer_Advance ?f))"
    using assms(8,9) nd by (simp_all add: frames_from_def frames_of.simps [of ?f])
  have "IsStartFrame (frame_data first)"
    using nd by (simp add: fs(2) IsStartFrame_def Framer_Encode_def Let_def SmpCanFramer_new_def START_FLAG_def SEQUENCE_MASK_def)
  from OnFrame_first [OF assms(1,2,8,3,4) this, of now buffer] obtain r0 where r0: "sr_timeout_ms r0 = t"
    "accepted a t s (Reassembler_Accept (Framer_Encode ?f) now (Reassembler_Attach buffer fmt r0)) ?s"
    by (auto simp: fs(1,2))
  let ?r = "Reassembler_Attach buffer fmt r0"
  have r: "sr_format ?r = fmt" "sr_timeout_ms ?r = t" "sr_buffer ?r = buffer"
    using r0(1) by (simp_all add: Reassembler_Attach_def Reassembler_Reset_def)
  have step: "in_step ?f ?r" using in_step_start [OF assms(5), of ?r] assms(7) r by simp
  have off: "fr_offset ?f = 0" "fr_packet ?f = p" "fr_format ?f = fmt" by (simp_all add: SmpCanFramer_new_def)
  have u: "receiving a t (Framer_Advance ?f) now ?s" "st_has_sink ?s = st_has_sink s"
    "deliveries a ?s = deliveries a s @ (if IsDone (Framer_Advance ?f) then [p] else [])"
    using accepted_receiving [OF step _ r(2) r0(2)] off assms(6) by simp_all
  show ?thesis
    using receive_rest [OF assms(2) u(1) assms(10)] u(2,3) fs(3) off assms(6) by (simp add: Advance_packet receive_def)
qed

section \<open>The whole transport\<close>

definition transport_wf :: "smp_config \<Rightarrow> SmpCanTransport \<Rightarrow> bool" where
  "transport_wf cfg s \<longleftrightarrow> slots_wf (sc_rx_timeout_ms cfg) s \<and> length (st_rx_slots s) = sc_rx_slots cfg \<and> tx_wf s \<and>
     IsValidBase (st_base s) \<and> 1 \<le> st_bus_share_percent s \<and> st_bus_share_percent s \<le> 100 \<and>
     (st_pacer_frame_time_ns s \<noteq> 0 \<longrightarrow> pacer_ok (st_pacer s)) \<and>
     (0 \<le> st_handler_id s \<longleftrightarrow> st_address s \<noteq> 0) \<and> (st_address s \<noteq> 0 \<longrightarrow> IsValidAddress (st_address s) \<and> st_is_initialized s)"

inductive transport_step :: "smp_config \<Rightarrow> SmpCanTransport \<Rightarrow> SmpCanTransport \<Rightarrow> bool" for cfg where
  initialize: "transport_step cfg s (snd (Transport_Initialize registered s))"
| configure: "transport_step cfg s (snd (Transport_Configure canbus base share s))"
| bus_replaced: "transport_step cfg s (s\<lparr>st_canbus := canbus\<rparr>)"
| bind: "transport_step cfg s (snd (Transport_Bind register address s))"
| unbind: "transport_step cfg s (UnbindLocked s)"
| sink: "transport_step cfg s (SetResponseSink present s)"
| enqueue: "transport_step cfg s (snd (Enqueue target packet s))"
| process_tx: "ProcessTx cfg now fd bitrate data_bitrate send s = Some (Inr (d, s')) \<Longrightarrow> transport_step cfg s s'"
| frame: "transport_step cfg s (OnFrame now alloc f s)"

inductive transport_reachable :: "smp_config \<Rightarrow> SmpCanTransport \<Rightarrow> bool" for cfg where
  start: "transport_reachable cfg (Transport_new cfg)"
| step: "transport_reachable cfg s \<Longrightarrow> transport_step cfg s s' \<Longrightarrow> transport_reachable cfg s'"

definition sending :: "SmpCanTransport \<Rightarrow> (u8 \<times> bytes) list \<times> (u8 \<times> bytes) option \<times> SmpCanFramer \<times> SmpCanPacer \<times> u32" where
  "sending s = (st_tx_queue s, st_tx_packet s, st_tx_framer s, st_pacer s, st_pacer_frame_time_ns s)"

lemma slots_change:
  assumes "transport_wf cfg s" and "settings s' = settings s" and "sending s' = sending s"
    and "slots_wf (sc_rx_timeout_ms cfg) s'" and "length (st_rx_slots s') = length (st_rx_slots s)"
  shows "transport_wf cfg s'"
  using assms by (simp add: transport_wf_def settings_def sending_def tx_wf_def)

lemma receive_settings [simp]:
  "settings (set_slot i x s) = settings s" "settings (release_slot i s) = settings s" "settings (drop_rx s) = settings s"
  "settings (put e s) = settings s" "settings (ReleaseExpiredRxSlots now s) = settings s"
  "sending (set_slot i x s) = sending s" "sending (release_slot i s) = sending s" "sending (drop_rx s) = sending s"
  "sending (put e s) = sending s" "sending (ReleaseExpiredRxSlots now s) = sending s"
  by (simp_all add: settings_def sending_def set_slot_def release_slot_def drop_rx_def put_def ReleaseExpiredRxSlots_def)

lemma receive_length [simp]:
  "length (st_rx_slots (release_slot i s)) = length (st_rx_slots s)"
  "length (st_rx_slots (ReleaseExpiredRxSlots now s)) = length (st_rx_slots s)"
  by (simp_all add: release_slot_def ReleaseExpiredRxSlots_def)

lemma Deliver_settings [simp]: "settings (Deliver b p s) = settings s" "sending (Deliver b p s) = sending s"
  by (simp_all add: Deliver_def split: option.split)

text \<open>Receiving keeps the settings, what is being sent and the number of slots.\<close>

definition rx_only :: "SmpCanTransport \<Rightarrow> SmpCanTransport \<Rightarrow> bool" where
  "rx_only s s' \<longleftrightarrow> settings s' = settings s \<and> sending s' = sending s \<and> length (st_rx_slots s') = length (st_rx_slots s)"

lemma rx_only_trans: "rx_only s s1 \<Longrightarrow> rx_only s1 s2 \<Longrightarrow> rx_only s s2"
  by (simp add: rx_only_def)

lemma accept_frame_rx_only: "rx_only s (accept_frame b d now i s)"
  by (simp add: rx_only_def accept_frame_def Let_def split: prod.split reassembly.split)

lemma AcquireRxSlot_rx_only: "AcquireRxSlot alloc b fmt s = (x, s') \<Longrightarrow> rx_only s s'"
  by (auto simp: rx_only_def AcquireRxSlot_def split: option.splits)

definition acquire_accept :: "int \<Rightarrow> bytes option \<Rightarrow> u8 \<Rightarrow> CanFrame \<Rightarrow> SmpCanTransport \<Rightarrow> SmpCanTransport" where
  "acquire_accept now alloc b frame s =
     (case AcquireRxSlot alloc b (frame_is_can_fd frame) s of
        (None, s3) \<Rightarrow> drop_rx s3
      | (Some j, s3) \<Rightarrow> accept_frame b (frame_data frame) now j s3)"

lemma acquire_accept_ok:
  assumes "slots_wf t s" and "b \<noteq> 0" and "slot_of b s = None"
  shows "slots_wf t (acquire_accept now alloc b frame s) \<and> rx_only s (acquire_accept now alloc b frame s)"
proof -
  obtain x s3 where acq: "AcquireRxSlot alloc b (frame_is_can_fd frame) s = (x, s3)" by fastforce
  note rx = AcquireRxSlot_rx_only [OF acq]
  show ?thesis
  proof (cases x)
    case None
    then show ?thesis using acq AcquireRxSlot_None [of alloc b "frame_is_can_fd frame" s s3] assms(1) by (simp add: acquire_accept_def rx_only_def)
  next
    case (Some j)
    note q = AcquireRxSlot_Some [OF acq [unfolded Some] assms]
    obtain res r where acc: "Reassembler_Accept (frame_data frame) now (rx_reassembler (st_rx_slots s3 ! j)) = (res, r)" by fastforce
    show ?thesis
      using accept_frame_slots [OF q(3,1,2) assms(2,2) acc] rx_only_trans [OF rx accept_frame_rx_only] acq Some
      by (simp add: acquire_accept_def)
  qed
qed

lemma OnFrame_ok:
  assumes "slots_wf t s"
  shows "slots_wf t (OnFrame now alloc frame s) \<and> rx_only s (OnFrame now alloc frame s)"
proof (cases "frame_is_extended frame \<and> \<not> frame_is_remote_request frame \<and> IsValidAddress (GetSource (frame_id frame))")
  case False
  then show ?thesis using assms by (auto simp: OnFrame_def Let_def rx_only_def)
next
  case True
  let ?b = "GetSource (frame_id frame)" and ?s = "ReleaseExpiredRxSlots now s"
  have b: "?b \<noteq> 0" using True IsValidAddress_nonzero by blast
  have wf: "slots_wf t ?s" by (rule ReleaseExpired_slots(1) [OF assms b])
  have "slots_wf t (OnFrame now alloc frame s) \<and> rx_only ?s (OnFrame now alloc frame s)"
  proof (cases "FindRxSlot ?b ?s")
    case None
    then have "slot_of ?b ?s = None" by (simp add: FindRxSlot_None)
    note acquire_accept_ok [OF wf b this, of now alloc frame]
    then show ?thesis using True None wf by (simp add: OnFrame_def Let_def rx_only_def acquire_accept_def)
  next
    case (Some i)
    note i = FindRxSlot_Some(1,2) [OF Some]
    let ?s2 = "release_slot i (drop_rx ?s)"
    have wf2: "slots_wf t ?s2" using slots_wf_release [of t "drop_rx ?s" i] wf i by simp
    have free: "slot_of ?b ?s2 = None" using slot_of_release [of t "drop_rx ?s" i ?b ?b] wf i b by simp
    obtain res r where acc: "Reassembler_Accept (frame_data frame) now (rx_reassembler (st_rx_slots ?s ! i)) = (res, r)" by fastforce
    have rx2: "rx_only ?s ?s2" by (simp add: rx_only_def)
    note again = acquire_accept_ok [OF wf2 b free, of now alloc frame]
    show ?thesis
      using accept_frame_slots [OF wf i b b acc] accept_frame_rx_only [of ?s ?b "frame_data frame" now i]
        again rx_only_trans [OF rx2] rx2 wf2 True Some by (simp add: OnFrame_def Let_def acquire_accept_def)
  qed
  moreover have "rx_only s ?s" by (simp add: rx_only_def)
  ultimately show ?thesis using rx_only_trans by blast
qed

lemma OnFrame_wf:
  assumes "transport_wf cfg s"
  shows "transport_wf cfg (OnFrame now alloc frame s)"
proof -
  have "slots_wf (sc_rx_timeout_ms cfg) s" using assms by (simp add: transport_wf_def)
  note ok = OnFrame_ok [OF this, of now alloc frame]
  show ?thesis by (rule slots_change [OF assms]) (use ok in \<open>simp_all add: rx_only_def\<close>)
qed

lemma Released_slots_wf: "(\<And>x. x \<in> set (st_rx_slots s) \<Longrightarrow> sr_timeout_ms (rx_reassembler x) = t) \<Longrightarrow> slots_wf t (s\<lparr>st_rx_slots := map ReleaseRxSlot (st_rx_slots s)\<rparr>)"
  by (simp add: slots_wf_def one_per_source_def ReleaseRxSlot_def Reassembler_Reset_def)

lemma UnbindLocked_wf:
  assumes "transport_wf cfg s"
  shows "transport_wf cfg (UnbindLocked s)" "st_address (UnbindLocked s) = 0" "st_handler_id (UnbindLocked s) < 0"
proof -
  have "slots_wf (sc_rx_timeout_ms cfg) (s\<lparr>st_rx_slots := map ReleaseRxSlot (st_rx_slots s)\<rparr>)"
    using assms by (intro Released_slots_wf) (simp add: transport_wf_def slots_wf_def)
  then show "transport_wf cfg (UnbindLocked s)" "st_address (UnbindLocked s) = 0" "st_handler_id (UnbindLocked s) < 0"
    using assms by (auto simp: UnbindLocked_def Let_def put_def transport_wf_def slots_wf_def tx_wf_def)
qed

lemma Configure_wf:
  assumes "transport_wf cfg s"
  shows "transport_wf cfg (snd (Transport_Configure canbus base share s))"
proof -
  note u = UnbindLocked_wf [OF assms]
  have share: "1 \<le> share \<and> share \<le> 100" if "\<not> (share = 0 \<or> share > 100)"
    using that word_less_1 [of share] unfolding linorder_not_less [symmetric] by blast
  have "transport_wf cfg ((UnbindLocked s)\<lparr>st_canbus := canbus\<rparr>)"
    using u by (simp add: transport_wf_def slots_wf_def tx_wf_def)
  moreover have "transport_wf cfg ((UnbindLocked s)\<lparr>st_canbus := canbus, st_base := base, st_bus_share_percent := share, st_pacer_frame_time_ns := 0\<rparr>)"
    if "IsValidBase base" "1 \<le> share \<and> share \<le> 100"
    using u that by (simp add: transport_wf_def slots_wf_def tx_wf_def)
  ultimately show ?thesis
    using share assms by (auto simp: Transport_Configure_def Let_def SmpCanIdLayout_new_def)
qed

lemma Bind_wf:
  assumes "transport_wf cfg s"
  shows "transport_wf cfg (snd (Transport_Bind register address s))"
proof -
  note u = UnbindLocked_wf [OF assms]
  have init: "st_is_initialized (UnbindLocked s) = st_is_initialized s" by (simp add: UnbindLocked_def Let_def put_def)
  have "transport_wf cfg ((UnbindLocked s)\<lparr>st_handler_id := h, st_bound_canbus := Some c, st_address := address\<rparr>)"
    if "0 \<le> h" "IsValidAddress address" "st_is_initialized s" for h c
    using u(1) that init IsValidAddress_nonzero [OF that(2)] by (simp add: transport_wf_def slots_wf_def tx_wf_def)
  with u(1) assms show ?thesis by (auto simp: Transport_Bind_def Let_def split: option.split)
qed

lemma Enqueue_wf: "transport_wf cfg s \<Longrightarrow> transport_wf cfg (snd (Enqueue target packet s))"
  by (auto simp: Enqueue_def drop_tx_def put_def transport_wf_def slots_wf_def tx_wf_def split: option.split)

lemma tx_change:
  assumes "transport_wf cfg s" and "settings s' = settings s" and "st_rx_slots s' = st_rx_slots s"
    and "tx_wf s'" and "st_pacer_frame_time_ns s' \<noteq> 0 \<Longrightarrow> pacer_ok (st_pacer s')"
  shows "transport_wf cfg s'"
  using assms by (auto simp: transport_wf_def settings_def slots_wf_def)

lemma DropTx_wf:
  assumes "transport_wf cfg s"
  shows "transport_wf cfg (DropTx s)" "packets_waiting (DropTx s) = 0"
proof -
  have "settings (DropTx s) = settings s" "st_rx_slots (DropTx s) = st_rx_slots s" "tx_wf (DropTx s)"
    "st_pacer (DropTx s) = st_pacer s" "st_pacer_frame_time_ns (DropTx s) = st_pacer_frame_time_ns s"
    by (simp_all add: DropTx_def Let_def drop_tx_def settings_def tx_wf_def)
  then show "transport_wf cfg (DropTx s)"
    using assms by (intro tx_change [OF assms]) (simp_all add: transport_wf_def [of cfg s])
  show "packets_waiting (DropTx s) = 0" by (simp add: DropTx_def Let_def drop_tx_def packets_waiting_def)
qed

lemma Pacer_start_ok:
  assumes "transport_wf cfg s" and "frame_time \<noteq> 0" and "sc_burst_frames cfg \<noteq> 0"
  obtains p where "SmpCanPacer_new frame_time (st_bus_share_percent s) (sc_burst_frames cfg) = Inr p" "\<And>now. pacer_ok (Pacer_Reset now p)"
proof -
  have "st_bus_share_percent s \<noteq> 0" "\<not> st_bus_share_percent s > 100" using assms(1) by (auto simp: transport_wf_def)
  then obtain p where "SmpCanPacer_new frame_time (st_bus_share_percent s) (sc_burst_frames cfg) = Inr p"
    using assms(2,3) by (simp add: SmpCanPacer_new_def)
  then show thesis using that SmpCanPacer_new_ok(1) by blast
qed

text \<open>A run of the send task in a well-formed state ends without an exception; the outcome is that of the loop, or nothing is left.\<close>

lemma ProcessTx_outcome:
  assumes wf: "transport_wf cfg s" and burst: "sc_burst_frames cfg \<noteq> 0"
  shows "\<exists>d s'. ProcessTx cfg now fd bitrate data_bitrate send s = Some (Inr (d, s')) \<and> transport_wf cfg s' \<and>
    (case d of None \<Rightarrow> packets_waiting s' = 0 | Some w \<Rightarrow> 0 < w) \<and>
    ((\<forall>k. send k \<noteq> SEND_FAILED) \<and> st_address s \<noteq> 0 \<and> st_canbus s \<noteq> None \<and> GetFrameTimeNs fd bitrate data_bitrate \<noteq> 0 \<longrightarrow>
       sent_frames s' @ pending_frames fd (st_address s) s' = sent_frames s @ pending_frames fd (st_address s) s)"
proof -
  define bound where "bound \<longleftrightarrow> st_address s \<noteq> 0 \<and> st_canbus s \<noteq> None"
  define ft where "ft = (if bound then GetFrameTimeNs fd bitrate data_bitrate else 0)"
  show ?thesis
  proof (cases "ft = 0")
    case True
    then have "ProcessTx cfg now fd bitrate data_bitrate send s = Some (Inr (None, DropTx s))"
      by (auto simp: ProcessTx_def Let_def ft_def bound_def split: if_splits)
    moreover have "\<not> (st_address s \<noteq> 0 \<and> st_canbus s \<noteq> None \<and> GetFrameTimeNs fd bitrate data_bitrate \<noteq> 0)"
      using True by (cases bound) (auto simp: ft_def bound_def)
    ultimately show ?thesis using DropTx_wf [OF wf] by (intro exI [of _ None] exI [of _ "DropTx s"]) auto
  next
    case False
    then have b: "st_address s \<noteq> 0" "st_canbus s \<noteq> None" and ft: "ft = GetFrameTimeNs fd bitrate data_bitrate" by (auto simp: ft_def bound_def split: if_splits)
    obtain p where p: "SmpCanPacer_new ft (st_bus_share_percent s) (sc_burst_frames cfg) = Inr p" "pacer_ok (Pacer_Reset now p)"
      using Pacer_start_ok [OF wf False burst] by blast
    define s1 where "s1 = (if ft \<noteq> st_pacer_frame_time_ns s then s\<lparr>st_pacer := Pacer_Reset now p, st_pacer_frame_time_ns := ft\<rparr> else s)"
    define s2 where "s2 = s1\<lparr>st_pacer := Pacer_Update now (st_pacer s1)\<rparr>"
    have eq: "ProcessTx cfg now fd bitrate data_bitrate send s = map_option Inr (tx_loop cfg send fd (st_address s) 0 s2)"
      using False b p(1) by (auto simp: ProcessTx_def Let_def ft [symmetric] s2_def s1_def)
    have ok1: "pacer_ok (st_pacer s1)" using p(2) wf False by (auto simp: s1_def transport_wf_def)
    have same: "settings s2 = settings s" "st_rx_slots s2 = st_rx_slots s" "sent_frames s2 = sent_frames s"
      "pending_frames fd (st_address s) s2 = pending_frames fd (st_address s) s" "tx_wf s2 = tx_wf s"
      by (simp_all add: s2_def s1_def settings_def sent_frames_def pending_frames_def tx_wf_def split: option.split)
    have "tx_wf s2" "pacer_ok (st_pacer s2)"
      using wf same(5) Pacer_Update_ok(1) [OF ok1] by (simp_all add: transport_wf_def s2_def)
    from tx_loop_returns [OF this, of cfg send fd "st_address s" 0] obtain d s' where
      out: "tx_loop cfg send fd (st_address s) 0 s2 = Some (d, s')" "tx_outcome send fd (st_address s) s2 d s'" by blast
    have "transport_wf cfg s'"
      using out(2) same by (intro tx_change [OF wf]) (simp_all add: tx_outcome_def tx_only_def)
    with eq out same show ?thesis
      by (intro exI [of _ d] exI [of _ s']) (simp add: tx_outcome_def)
  qed
qed

lemma transport_step_wf:
  assumes "transport_step cfg s s'" and "transport_wf cfg s" and "sc_burst_frames cfg \<noteq> 0"
  shows "transport_wf cfg s'"
  using assms
proof (induction rule: transport_step.induct)
  case (process_tx now fd bitrate data_bitrate send s d s')
  then show ?case using ProcessTx_outcome [of cfg s now fd bitrate data_bitrate send] by auto
next
  case (initialize s registered)
  then show ?case by (auto simp: Transport_Initialize_def transport_wf_def slots_wf_def tx_wf_def)
next
  case (sink s present)
  then show ?case by (simp add: SetResponseSink_def transport_wf_def slots_wf_def tx_wf_def)
next
  case (bus_replaced s canbus)
  then show ?case by (simp add: transport_wf_def slots_wf_def tx_wf_def)
qed (simp_all add: Configure_wf Bind_wf UnbindLocked_wf(1) Enqueue_wf OnFrame_wf)

lemma Transport_new_wf: "transport_wf cfg (Transport_new cfg)"
  by (auto simp: transport_wf_def Transport_new_def slots_wf_def one_per_source_def RxSlot_new_def SmpCanReassembler_new_def tx_wf_def
      IsValidBase_def SMP_DEFAULT_BASE_def ID_MASK_def ADDRESS_MASK_def)

lemma transport_reachable_wf:
  assumes "transport_reachable cfg s" and "sc_burst_frames cfg \<noteq> 0"
  shows "transport_wf cfg s"
  using assms by (induction rule: transport_reachable.induct) (simp_all add: Transport_new_wf transport_step_wf)

text \<open>
  C25. A packet gets through whatever the other units send: in every state the transport can reach, when
  a unit has nothing in progress here, a slot is free and the pool has a packet for it at its start
  frame, and its frames then arrive in order, each within the timeout of the one before, with any
  frames of other units in between, the packet is handed on exactly once, unchanged, and its slot is
  free again.
\<close>

theorem packet_delivered:
  assumes "transport_reachable cfg s" and "sc_burst_frames cfg \<noteq> 0" and "IsValidAddress a"
    and "slot_of a s = None" and "FindRxSlot 0 s \<noteq> None"
    and "smp_packet p" and "deliverable p (st_has_sink s)" and "length p \<le> length buffer" and "is_from a first"
    and "frames_from a ((now, Some buffer, first) # rest) = map (Pair fmt) (frames_of (SmpCanFramer_new p fmt))"
    and "timely (sc_rx_timeout_ms cfg) a now rest"
  shows "deliveries a (receive ((now, Some buffer, first) # rest) s) = deliveries a s @ [p] \<and>
    slot_of a (receive ((now, Some buffer, first) # rest) s) = None"
  using receive_packet [OF _ assms(3-11)] transport_reachable_wf [OF assms(1,2)] by (simp add: transport_wf_def)


text \<open>
  In every state the transport can reach no two receive slots belong to the same source, it has an
  address exactly while a handler is registered, and then a valid one, its share of the bus is between 1
  and 100 percent and a packet being sent has frames left.
\<close>

theorem transport_invariant:
  assumes "transport_reachable cfg s" and "sc_burst_frames cfg \<noteq> 0"
  shows "one_per_source (st_rx_slots s) \<and> length (st_rx_slots s) = sc_rx_slots cfg \<and>
    (0 \<le> st_handler_id s \<longleftrightarrow> st_address s \<noteq> 0) \<and> (st_address s \<noteq> 0 \<longrightarrow> IsValidAddress (st_address s)) \<and>
    1 \<le> st_bus_share_percent s \<and> st_bus_share_percent s \<le> 100 \<and> IsValidBase (st_base s) \<and>
    (st_tx_packet s \<noteq> None \<longrightarrow> \<not> IsDone (st_tx_framer s))"
  using transport_reachable_wf [OF assms] by (simp add: transport_wf_def slots_wf_def tx_wf_def)

section \<open>Witnesses\<close>

definition demo_smp_config :: smp_config where
  "demo_smp_config = \<lparr>sc_burst_frames = 8, sc_rx_slots = 2, sc_rx_timeout_ms = 100\<rparr>"

definition demo_frame :: "u32 \<Rightarrow> bytes \<Rightarrow> CanFrame" where
  "demo_frame i d = \<lparr>frame_id = i, frame_is_extended = True, frame_is_transmit = False, frame_is_can_fd = False,
     frame_is_bitrate_switch = False, frame_is_remote_request = False, frame_data = d\<rparr>"

lemma demo_frame_simps [simp]:
  "is_from a (demo_frame i d) \<longleftrightarrow> GetSource i = a" "frame_is_can_fd (demo_frame i d) = False" "frame_data (demo_frame i d) = d"
  by (simp_all add: demo_frame_def is_from_def)

lemma demo_packet_deliverable: "deliverable demo_packet has_sink"
  by (simp add: deliverable_def SmpHeader_Parse_def demo_packet_def SMP_HEADER_SIZE_def u16_of_be_def IsRequest_def OP_READ_def OP_WRITE_def)

theorem packet_delivered_witness:
  "\<exists>f g h. frames_of (SmpCanFramer_new demo_packet False) = [f, g, h] \<and>
     deliveries 7 (receive [(0, Some (replicate 32 0), demo_frame 0x1FF00507 f), (10, None, demo_frame 0x1FF00509 [0x80, 1]),
        (40, None, demo_frame 0x1FF00507 g), (80, None, demo_frame 0x1FF00507 h)] (Transport_new demo_smp_config)) = [demo_packet]"
proof -
  let ?s = "Transport_new demo_smp_config"
  have "length (frames_of (SmpCanFramer_new demo_packet False)) = 3"
    using length_frames_of [of "SmpCanFramer_new demo_packet False"]
    by (simp add: SmpCanFramer_new_def GetFrameCount_def demo_packet_ok(2) frame_sizes)
  then obtain f g h where fs: "frames_of (SmpCanFramer_new demo_packet False) = [f, g, h]"
    by (auto simp: length_Suc_conv numeral_3_eq_3)
  have slots: "st_rx_slots ?s = [RxSlot_new demo_smp_config, RxSlot_new demo_smp_config]"
    by (simp add: Transport_new_def demo_smp_config_def numeral_2_eq_2)
  have "rx_source (RxSlot_new demo_smp_config) = 0" by (simp add: RxSlot_new_def)
  then have s12: "slot_of 7 ?s = None" "FindRxSlot 0 ?s \<noteq> None"
    by (simp_all add: slot_of_def slots FindRxSlot_def find_index_None)
  have s: "deliveries 7 ?s = []" "st_has_sink ?s = False"
    "sc_rx_timeout_ms demo_smp_config = 100" "sc_burst_frames demo_smp_config \<noteq> 0"
    by (simp_all add: Transport_new_def demo_smp_config_def deliveries_def)
  have src: "GetSource 0x1FF00507 = 7" "GetSource 0x1FF00509 \<noteq> 7" by (simp_all add: GetSource_def)
  have "deliveries 7 (receive [(0, Some (replicate 32 0), demo_frame 0x1FF00507 f), (10, None, demo_frame 0x1FF00509 [0x80, 1]),
        (40, None, demo_frame 0x1FF00507 g), (80, None, demo_frame 0x1FF00507 h)] ?s) = deliveries 7 ?s @ [demo_packet]"
    by (rule packet_delivered [where fmt = False, OF transport_reachable.start s(4) _ s12 demo_packet_ok(1), THEN conjunct1])
      (use fs src s demo_packet_deliverable in \<open>simp_all add: IsValidAddress_def demo_packet_ok(2) frames_from_def\<close>)
  with fs s(1) show ?thesis by simp
qed


theorem transport_invariant_witness:
  "one_per_source (st_rx_slots (UnbindLocked (Transport_new demo_smp_config))) \<and>
   length (st_rx_slots (UnbindLocked (Transport_new demo_smp_config))) = 2"
  using transport_invariant [OF transport_reachable.step [OF transport_reachable.start transport_step.unbind], of demo_smp_config]
  by (simp add: demo_smp_config_def)

end
