(* ===== verification/Canbus_Detect.thy ===== *)
theory Canbus_Detect
  imports Canbus_Bus
begin

text \<open>
  The rest of the CAN bus, \<open>src/subsys/canbus/canbus.cpp\<close>: its configuration and the roll back of a failed
  one, the detection of the bitrate of a running bus, and its lifecycle as a service. The lemmas carry
  the registry's invariant through all of it; the properties are the invariant of every reachable bus,
  the refinement of an abstract registry, exact dispatch, and that probing stays off the wire on a
  controller that can listen only.
\<close>

section \<open>Configuration\<close>

definition CLASSICAL_CAN_SUPPORTED_BITRATES :: "u32 list" where
  "CLASSICAL_CAN_SUPPORTED_BITRATES = [500000, 1000000, 250000, 125000, 100000, 83333, 50000, 20000, 10000]"

definition CANFD_SUPPORTED_BITRATES :: "u32 list" where
  "CANFD_SUPPORTED_BITRATES = [500000, 1000000, 250000, 125000, 100000, 83333, 50000, 20000, 10000, 2000000, 4000000, 5000000, 8000000]"

definition IsBitrateSupported :: "CanbusType \<Rightarrow> u32 \<Rightarrow> bool" where
  "IsBitrateSupported t bitrate \<longleftrightarrow> bitrate = 0 \<or>
     bitrate \<in> set (if t = CANFD then CANFD_SUPPORTED_BITRATES else CLASSICAL_CAN_SUPPORTED_BITRATES)"

definition ApplyMode :: "can_driver \<Rightarrow> u32 \<Rightarrow> Canbus \<Rightarrow> bool \<times> Canbus" where
  "ApplyMode drv extra_modes s =
     (case cd_capabilities drv of
        None \<Rightarrow> (False, s)
      | Some capabilities \<Rightarrow>
          let is_fd = (cc_type (cb_config s) = CANFD);
              can_fd = (capabilities AND cd_mode_fd drv \<noteq> 0);
              s1 = (if is_fd \<and> \<not> can_fd then s\<lparr>cb_config := (cb_config s)\<lparr>cc_type := CLASSICAL_CAN, cc_data_bitrate := 0\<rparr>\<rparr> else s);
              base = (if is_fd \<and> can_fd then cd_mode_fd drv else 0);
              extra = (if extra_modes AND NOT capabilities \<noteq> 0 then extra_modes AND capabilities else extra_modes);
              can_mode = base OR extra
          in if \<not> cd_set_mode drv can_mode then (False, s1)
             else (True, cb_put (HwSetMode can_mode) (s1\<lparr>cb_hw_mode := can_mode\<rparr>)))"

definition SetTiming :: "can_driver \<Rightarrow> u32 \<Rightarrow> bool" where
  "SetTiming drv bitrate \<longleftrightarrow> bitrate \<noteq> 0 \<and> cd_set_bitrate drv bitrate"

definition SetDataTiming :: "can_driver \<Rightarrow> u32 \<Rightarrow> Canbus \<Rightarrow> bool" where
  "SetDataTiming drv bitrate s \<longleftrightarrow> bitrate \<noteq> 0 \<and> cc_type (cb_config s) = CANFD \<and> cd_set_bitrate_data drv bitrate"

text \<open>\<open>can_start\<close>; every attempt is noted with the mode and the bitrate the controller has.\<close>

definition hw_start :: "can_driver \<Rightarrow> u32 \<Rightarrow> Canbus \<Rightarrow> bool \<times> Canbus" where
  "hw_start drv bitrate s = (cd_start drv (cb_hw_mode s) bitrate, cb_put (HwStart (cb_hw_mode s) bitrate) s)"

definition UnregisterStateChangeCallback :: "Canbus \<Rightarrow> Canbus" where
  "UnregisterStateChangeCallback s = s\<lparr>cb_state_change_callback_dev := None\<rparr>"

definition RegisterStateChangeCallback :: "can_driver \<Rightarrow> Canbus \<Rightarrow> Canbus" where
  "RegisterStateChangeCallback drv s =
     (let dev = cc_canbus_dev (cb_config s)
      in if cb_state_change_callback_dev s = Some dev then s
         else let s1 = UnregisterStateChangeCallback s
              in if \<not> cd_add_state_change_callback drv dev then s1
                 else s1\<lparr>cb_state_change_callback_dev := Some dev\<rparr>)"

definition StartActivityMonitoring :: "Canbus \<Rightarrow> Canbus" where
  "StartActivityMonitoring s = s\<lparr>cb_auto_detect_running := True\<rparr>"

definition StopActivityMonitoring :: "Canbus \<Rightarrow> Canbus" where
  "StopActivityMonitoring s = s\<lparr>cb_auto_detect_running := False\<rparr>"

definition config_refused :: "can_driver \<Rightarrow> ServiceState \<Rightarrow> CanbusConfig \<Rightarrow> bool" where
  "config_refused drv state config \<longleftrightarrow> state \<noteq> STOPPED \<or> \<not> cd_is_ready drv (cc_canbus_dev config) \<or>
     \<not> IsBitrateSupported (cc_type config) (cc_bitrate config) \<or>
     cc_type config = CANFD \<and> cc_data_bitrate config > 0 \<and> \<not> IsBitrateSupported (cc_type config) (cc_data_bitrate config)"

definition apply_config :: "can_driver \<Rightarrow> Canbus \<Rightarrow> bool \<times> Canbus" where
  "apply_config drv s =
     (case ApplyMode drv (cc_extra_modes (cb_config s)) s of
        (False, s1) \<Rightarrow> (False, s1)
      | (True, s1) \<Rightarrow>
          let s2 = (RegisterStateChangeCallback drv s1)\<lparr>cb_bitrate_detected := False\<rparr>;
              c = cb_config s2
          in if cc_bitrate c = 0 then (True, (StartActivityMonitoring s2)\<lparr>cb_is_initialized := True\<rparr>)
             else if \<not> SetTiming drv (cc_bitrate c) then (False, s2)
             else if cc_type c = CANFD \<and> \<not> SetDataTiming drv (cc_data_bitrate c) s2 then (False, s2)
             else (case hw_start drv (cc_bitrate c) s2 of
                     (False, s3) \<Rightarrow> (False, s3)
                   | (True, s3) \<Rightarrow> (True, s3\<lparr>cb_bitrate_detected := True, cb_is_initialized := True\<rparr>)))"

definition Bus_Configure :: "can_driver \<Rightarrow> ServiceState \<Rightarrow> CanbusConfig \<Rightarrow> Canbus \<Rightarrow> bool \<times> Canbus" where
  "Bus_Configure drv state config s =
     (if config_refused drv state config then (False, s)
      else let s1 = RemoveAllFilters s
           in case apply_config drv (s1\<lparr>cb_config := with_data_bitrate config\<rparr>) of
                (True, s2) \<Rightarrow> (True, s2)
              | (False, s2) \<Rightarrow> (False, RegisterStateChangeCallback drv (s2\<lparr>cb_config := cb_config s1\<rparr>)))"

section \<open>Bitrate detection\<close>

definition MIN_FRAMES_FOR_DETECTION :: nat where "MIN_FRAMES_FOR_DETECTION = 3"

text \<open>The filter probing uses has no flags, so it accepts 11-bit identifiers.\<close>

definition probe_filter :: CanFilter where
  "probe_filter = \<lparr>cf_id = 0, cf_mask = 0, cf_is_extended = False\<rparr>"

definition probe_data_bitrate :: "u32 \<Rightarrow> Canbus \<Rightarrow> u32" where
  "probe_data_bitrate bitrate s = (if cc_data_bitrate (cb_config s) = 0 then bitrate else cc_data_bitrate (cb_config s))"

definition set_timings :: "can_driver \<Rightarrow> u32 \<Rightarrow> Canbus \<Rightarrow> bool" where
  "set_timings drv bitrate s \<longleftrightarrow> SetTiming drv bitrate \<and>
     (cc_type (cb_config s) = CANFD \<longrightarrow> SetDataTiming drv (probe_data_bitrate bitrate s) s)"

text \<open>Listening at a bitrate; the frames that pass the probe's filter and the error counters decide.\<close>

definition listen :: "can_driver \<Rightarrow> u32 \<Rightarrow> Canbus \<Rightarrow> bool \<times> Canbus" where
  "listen drv bitrate s =
     (case hw_start drv bitrate s of
        (False, s1) \<Rightarrow> (False, s1)
      | (True, s1) \<Rightarrow>
          if cd_add_rx_filter drv (cb_hw_filters s1) (cc_canbus_dev (cb_config s1)) probe_filter < 0 then (False, cb_put HwStop s1)
          else (cd_frames_seen drv bitrate \<ge> MIN_FRAMES_FOR_DETECTION \<and> cd_error_free drv bitrate, cb_put HwStop s1))"

definition TestBitrate :: "can_driver \<Rightarrow> u32 \<Rightarrow> Canbus \<Rightarrow> bool \<times> Canbus" where
  "TestBitrate drv bitrate s =
     (case ApplyMode drv (cc_extra_modes (cb_config s) OR cd_mode_listenonly drv) s of
        (False, s1) \<Rightarrow> (False, s1)
      | (True, s1) \<Rightarrow>
          if \<not> set_timings drv bitrate s1 then (False, s1)
          else case listen drv bitrate s1 of
            (False, s2) \<Rightarrow> (False, s2)
          | (True, s2) \<Rightarrow>
              (case ApplyMode drv (cc_extra_modes (cb_config s2)) s2 of
                 (False, s3) \<Rightarrow> (False, s3)
               | (True, s3) \<Rightarrow> if \<not> set_timings drv bitrate s3 then (False, s3) else hw_start drv bitrate s3))"

definition bitrate_found :: "u32 \<Rightarrow> Canbus \<Rightarrow> Canbus" where
  "bitrate_found bitrate s =
     (let c = (cb_config s)\<lparr>cc_bitrate := bitrate\<rparr>
      in s\<lparr>cb_bitrate_detected := True, cb_config := if cc_type c = CANFD \<and> cc_data_bitrate c = 0 then c\<lparr>cc_data_bitrate := bitrate\<rparr> else c\<rparr>)"

text \<open>\<open>running k\<close>: whether the thread still runs before the \<open>k\<close>-th bitrate of a pass.\<close>

fun try_bitrates :: "can_driver \<Rightarrow> (nat \<Rightarrow> bool) \<Rightarrow> nat \<Rightarrow> u32 list \<Rightarrow> Canbus \<Rightarrow> bool \<times> Canbus" where
  "try_bitrates drv running k [] s = (False, s)"
| "try_bitrates drv running k (b # bs) s =
     (if \<not> cb_auto_detect_running s \<or> \<not> running k then (False, s)
      else case TestBitrate drv b s of
             (True, s1) \<Rightarrow> (True, bitrate_found b s1)
           | (False, s1) \<Rightarrow> try_bitrates drv running (Suc k) bs s1)"

definition AutoDetectBitrate :: "can_driver \<Rightarrow> (nat \<Rightarrow> bool) \<Rightarrow> Canbus \<Rightarrow> bool \<times> Canbus" where
  "AutoDetectBitrate drv running s =
     try_bitrates drv running 0
       (if cc_type (cb_config s) = CANFD then CANFD_SUPPORTED_BITRATES else CLASSICAL_CAN_SUPPORTED_BITRATES) s"

text \<open>Passes over the bitrates, until one is found or the bus is stopped; \<open>None\<close> would be detection that goes on forever.\<close>

partial_function (option) detect_loop ::
  "(nat \<Rightarrow> can_driver) \<Rightarrow> (nat \<Rightarrow> nat \<Rightarrow> bool) \<Rightarrow> nat \<Rightarrow> Canbus \<Rightarrow> Canbus option" where
  "detect_loop drv running n s =
     (if \<not> (running n 0 \<and> cb_auto_detect_running s \<and> \<not> cb_bitrate_detected s) then Some s
      else case AutoDetectBitrate (drv n) (running n) s of
             (found, s1) \<Rightarrow>
               if found
               then let s2 = InstallDeferredFilters (drv n) s1
                    in Some (if cb_has_bitrate_detected_fn s2 then cb_put (CalledBitrateDetected (cc_bitrate (cb_config s1))) s2 else s2)
               else detect_loop drv running (Suc n) s1)"

definition BitrateAutodetectTask :: "(nat \<Rightarrow> can_driver) \<Rightarrow> (nat \<Rightarrow> nat \<Rightarrow> bool) \<Rightarrow> Canbus \<Rightarrow> Canbus option" where
  "BitrateAutodetectTask drv running s = map_option StopActivityMonitoring (detect_loop drv running 0 s)"

definition RegisterBitrateDetectedCallback :: "bool \<Rightarrow> Canbus \<Rightarrow> Canbus" where
  "RegisterBitrateDetectedCallback present s = s\<lparr>cb_has_bitrate_detected_fn := present\<rparr>"

section \<open>Lifecycle\<close>

text \<open>\<open>allocated\<close> and \<open>started\<close>: whether the thread gets its stack and starts.\<close>

definition Bus_DoInitialize :: "can_driver \<Rightarrow> bool \<Rightarrow> Canbus \<Rightarrow> bool \<times> Canbus" where
  "Bus_DoInitialize drv allocated s =
     (if \<not> allocated then (False, s)
      else let s1 = ClearEntries (RemoveAllFilters (s\<lparr>cb_frame_msgq := []\<rparr>))
           in Bus_Configure drv STOPPED (cb_config s1) (s1\<lparr>cb_bitrate_detected := False, cb_rx_dropped := 0\<rparr>))"

definition Bus_DoStart :: "bool \<Rightarrow> Canbus \<Rightarrow> bool \<times> Canbus" where
  "Bus_DoStart started s =
     (if \<not> cb_is_initialized s then (False, s)
      else if \<not> started then (False, s)
      else (True, cb_put ThreadStarted s))"

definition Bus_DoStop :: "can_driver \<Rightarrow> bool \<Rightarrow> Canbus \<Rightarrow> bool \<times> Canbus" where
  "Bus_DoStop drv running s =
     (let s1 = StopActivityMonitoring s;
          s2 = (if running then cb_put ThreadJoined s1 else s1);
          s3 = (if cb_is_initialized s2 then cb_put HwStop s2 else s2)
      in if cb_is_initialized s2 \<and> \<not> cd_stop drv then (False, s3)
         else (True, (ClearEntries (RemoveAllFilters s3))\<lparr>cb_frame_msgq := [], cb_is_initialized := False, cb_bitrate_detected := False\<rparr>))"

text \<open>A bus operation as the work of a service.\<close>

definition bus_work :: "(Canbus \<Rightarrow> bool \<times> Canbus) \<Rightarrow> Canbus do_work" where
  "bus_work f sb = (case f (sb_work sb) of (b, s) \<Rightarrow> (Inr b, sb\<lparr>sb_work := s\<rparr>))"

section \<open>The registry through configuration\<close>

definition same_registry :: "Canbus \<Rightarrow> Canbus \<Rightarrow> bool" where
  "same_registry s s' \<longleftrightarrow> cb_exact_entries s' = cb_exact_entries s \<and> cb_mask_entries s' = cb_mask_entries s \<and>
     cb_next_handler_id s' = cb_next_handler_id s \<and> cb_hw_filters s' = cb_hw_filters s"

definition same_device :: "Canbus \<Rightarrow> Canbus \<Rightarrow> bool" where
  "same_device s s' \<longleftrightarrow> same_registry s s' \<and> cc_canbus_dev (cb_config s') = cc_canbus_dev (cb_config s)"

lemma same_device_trans: "same_device s s1 \<Longrightarrow> same_device s1 s2 \<Longrightarrow> same_device s s2"
  by (simp add: same_device_def same_registry_def)

lemma same_device_refl [simp]: "same_device s s"
  by (simp add: same_device_def same_registry_def)

lemma same_registry_wf:
  assumes "same_registry s s'" and "bus_wf s" and "cb_hw_filters s = [] \<or> cc_canbus_dev (cb_config s') = cc_canbus_dev (cb_config s)"
  shows "bus_wf s'" "registrations s' = registrations s"
proof -
  have at: "entry_at r s' = entry_at r s" for r using assms(1) by (cases r) (simp_all add: same_registry_def)
  have n: "cb_next_handler_id s' = cb_next_handler_id s" "cb_hw_filters s' = cb_hw_filters s" "tables_ok s' = tables_ok s"
    using assms(1) by (simp_all add: same_registry_def tables_ok_def)
  have i: "hw_installed s' j f = hw_installed s j f" for j f by (simp add: hw_installed_def at)
  have "hw_wf s'" using assms(2,3) unfolding hw_wf_def bus_wf_def i n by auto
  then show "bus_wf s'" using assms(2) by (simp add: bus_wf_def registry_wf_def placed_def apart_def no_empty_def at n)
  show "registrations s' = registrations s" by (simp add: registrations_def at)
qed

lemma same_device_wf: "same_device s s' \<Longrightarrow> bus_wf s \<Longrightarrow> bus_wf s' \<and> registrations s' = registrations s"
  using same_registry_wf [of s s'] by (simp add: same_device_def)

lemma same_device_simps [simp]:
  "same_device s (cb_put e s)" "same_device s (snd (hw_start drv b s))" "same_device s (RegisterStateChangeCallback drv s)"
  "same_device s (StartActivityMonitoring s)" "same_device s (StopActivityMonitoring s)" "same_device s (bitrate_found b s)"
  by (simp_all add: same_device_def same_registry_def cb_put_def hw_start_def RegisterStateChangeCallback_def
      UnregisterStateChangeCallback_def StartActivityMonitoring_def StopActivityMonitoring_def bitrate_found_def Let_def)

lemma ApplyMode_same [simp]: "same_device s (snd (ApplyMode drv extra s))"
  by (simp add: ApplyMode_def Let_def same_device_def same_registry_def cb_put_def split: option.split)

lemma listen_same [simp]: "same_device s (snd (listen drv b s))"
  by (simp add: listen_def hw_start_def same_device_def same_registry_def cb_put_def split: bool.split)

lemma apply_config_same: "same_device s (snd (apply_config drv s))"
proof -
  obtain ok s1 where a: "ApplyMode drv (cc_extra_modes (cb_config s)) s = (ok, s1)" by fastforce
  have "same_device s s1" using ApplyMode_same [of s drv "cc_extra_modes (cb_config s)"] a by simp
  moreover have "same_device s1 ((RegisterStateChangeCallback drv s1)\<lparr>cb_bitrate_detected := d\<rparr>)" for d
    using same_device_simps(3) [of s1 drv] by (simp add: same_device_def same_registry_def)
  ultimately show ?thesis
    using a by (cases ok)
      (auto simp: apply_config_def Let_def hw_start_def cb_put_def StartActivityMonitoring_def same_device_def same_registry_def split: bool.split)
qed

lemma TestBitrate_same: "same_device s (snd (TestBitrate drv b s))"
proof -
  obtain ok s1 where a: "ApplyMode drv (cc_extra_modes (cb_config s) OR cd_mode_listenonly drv) s = (ok, s1)" by fastforce
  obtain heard s2 where l: "listen drv b s1 = (heard, s2)" by fastforce
  obtain again s3 where m: "ApplyMode drv (cc_extra_modes (cb_config s2)) s2 = (again, s3)" by fastforce
  have s1: "same_device s s1" using ApplyMode_same [of s drv "cc_extra_modes (cb_config s) OR cd_mode_listenonly drv"] a by simp
  have s2: "same_device s s2" using same_device_trans [OF s1] listen_same [of s1 drv b] l by simp
  have s3: "same_device s s3" using same_device_trans [OF s2] ApplyMode_same [of s2 drv "cc_extra_modes (cb_config s2)"] m by simp
  have s4: "same_device s (snd (hw_start drv b s3))" using same_device_trans [OF s3] by simp
  show ?thesis using a l m s1 s2 s3 s4 by (cases ok; cases heard; cases again) (simp_all add: TestBitrate_def)
qed

lemma try_bitrates_same: "same_device s (snd (try_bitrates drv running k bs s))"
proof (induction bs arbitrary: k s)
  case (Cons b bs)
  obtain ok s1 where t: "TestBitrate drv b s = (ok, s1)" by fastforce
  have s1: "same_device s s1" using TestBitrate_same [of s drv b] t by simp
  show ?case
    using Cons.IH [of s1 "Suc k"] same_device_trans [OF s1] t s1 by (cases ok) simp_all
qed simp

lemma AutoDetect_same: "same_device s (snd (AutoDetectBitrate drv running s))"
  by (simp add: AutoDetectBitrate_def try_bitrates_same)

text \<open>One entry's hardware filter, whether there is an entry or not.\<close>

lemma Uninstall_bus:
  assumes "bus_wf s"
  shows "bus_wf (UninstallFilter r s) \<and> registrations (UninstallFilter r s) = registrations s \<and> bus_kept s (UninstallFilter r s) \<and>
    (\<forall>e. entry_at r (UninstallFilter r s) = Some e \<longrightarrow> fe_filter_id e < 0) \<and>
    (\<forall>x. x \<noteq> r \<longrightarrow> entry_at x (UninstallFilter r s) = entry_at x s)"
proof (cases "entry_at r s")
  case None
  then show ?thesis using assms by (simp add: UninstallFilter_def bus_kept_def)
next
  case (Some e)
  let ?s = "UninstallFilter r s"
  have wf: "registry_wf s" "hw_wf s" "no_empty s" using assms by (simp_all add: bus_wf_def)
  from UninstallFilter_ok [OF wf(1,2) Some refl] obtain e' where
    e': "\<And>x. entry_at x ?s = (if x = r then Some e' else entry_at x s)" "fe_filter e' = fe_filter e" "fe_handlers e' = fe_handlers e"
    "fe_filter_id e' < 0" "registry_wf ?s" "hw_wf ?s" "bus_kept s ?s" by blast
  have "no_empty ?s" using wf(3) e'(1,3) Some by (auto simp: no_empty_def)
  moreover have "registrations ?s = registrations s"
    by (rule registrations_change(1) [OF Some e'(2,1)]) (simp add: handler_ids_def e'(3))
  ultimately show ?thesis using e' by (simp add: bus_wf_def)
qed

lemma Install_bus:
  assumes "bus_wf s" and "driver_ok drv"
  shows "bus_wf (snd (InstallFilter drv r s)) \<and> registrations (snd (InstallFilter drv r s)) = registrations s \<and> bus_kept s (snd (InstallFilter drv r s))"
proof (cases "entry_at r s")
  case None
  then show ?thesis using assms by (simp add: InstallFilter_def bus_kept_def)
next
  case (Some e)
  obtain b s' where i: "InstallFilter drv r s = (b, s')" by fastforce
  have wf: "registry_wf s" "hw_wf s" "no_empty s" using assms(1) by (simp_all add: bus_wf_def)
  from InstallFilter_ok [OF wf(1,2) assms(2) Some i] obtain e' where
    e': "\<And>x. entry_at x s' = (if x = r then Some e' else entry_at x s)" "fe_filter e' = fe_filter e" "fe_handlers e' = fe_handlers e"
    "registry_wf s'" "hw_wf s'" "bus_kept s s'" by blast
  have "no_empty s'" using wf(3) e'(1,3) Some by (auto simp: no_empty_def)
  moreover have "registrations s' = registrations s"
    by (rule registrations_change(1) [OF Some e'(2,1)]) (simp add: handler_ids_def e'(3))
  ultimately show ?thesis using e' i by (simp add: bus_wf_def)
qed

lemma bus_kept_trans: "bus_kept s s1 \<Longrightarrow> bus_kept s1 s2 \<Longrightarrow> bus_kept s s2"
  by (simp add: bus_kept_def)

lemma InstallDeferred_ok:
  assumes "bus_wf s" and "driver_ok drv"
  shows "bus_wf (InstallDeferredFilters drv s) \<and> registrations (InstallDeferredFilters drv s) = registrations s \<and> bus_kept s (InstallDeferredFilters drv s)"
proof -
  have "bus_wf (fold (\<lambda>r u. snd (InstallFilter drv r u)) rs u) \<and>
      registrations (fold (\<lambda>r u. snd (InstallFilter drv r u)) rs u) = registrations u \<and>
      bus_kept u (fold (\<lambda>r u. snd (InstallFilter drv r u)) rs u)" if "bus_wf u" for rs u
    using that
  proof (induction rs arbitrary: u)
    case (Cons r rs)
    note i = Install_bus [OF Cons.prems assms(2), of r]
    show ?case using Cons.IH [of "snd (InstallFilter drv r u)"] i bus_kept_trans [of u "snd (InstallFilter drv r u)"] by simp
  qed (simp add: bus_kept_def)
  then show ?thesis using assms(1) by (simp add: InstallDeferredFilters_def)
qed

lemma uninstall_all:
  assumes "bus_wf s"
  shows "bus_wf (fold UninstallFilter rs s) \<and> registrations (fold UninstallFilter rs s) = registrations s \<and> bus_kept s (fold UninstallFilter rs s) \<and>
    (\<forall>r e. entry_at r (fold UninstallFilter rs s) = Some e \<longrightarrow> fe_filter_id e < 0 \<or> r \<notin> set rs \<and> entry_at r s = Some e)"
  using assms
proof (induction rs arbitrary: s)
  case (Cons r rs)
  note u = Uninstall_bus [OF Cons.prems, of r]
  then have ih: "bus_wf (fold UninstallFilter rs (UninstallFilter r s))"
    "registrations (fold UninstallFilter rs (UninstallFilter r s)) = registrations (UninstallFilter r s)"
    "bus_kept (UninstallFilter r s) (fold UninstallFilter rs (UninstallFilter r s))"
    "\<And>x e. entry_at x (fold UninstallFilter rs (UninstallFilter r s)) = Some e \<Longrightarrow>
       fe_filter_id e < 0 \<or> x \<notin> set rs \<and> entry_at x (UninstallFilter r s) = Some e"
    using Cons.IH by blast+
  have "fe_filter_id e < 0 \<or> x \<notin> set (r # rs) \<and> entry_at x s = Some e"
    if "entry_at x (fold UninstallFilter (r # rs) s) = Some e" for x e
    using ih(4) [of x e] u that by (cases "x = r") auto
  then show ?case using ih(1-3) u bus_kept_trans by auto
qed (simp add: bus_kept_def)

lemma entry_refs_all: "entry_at r s = Some e \<Longrightarrow> r \<in> set (entry_refs s)"
  by (cases r) (force simp: entry_refs_def dest: map_of_SomeD split: if_splits)+

lemma RemoveAllFilters_ok:
  assumes "bus_wf s"
  shows "bus_wf (RemoveAllFilters s)" "registrations (RemoveAllFilters s) = registrations s" "bus_kept s (RemoveAllFilters s)"
    "cb_hw_filters (RemoveAllFilters s) = []"
proof -
  note u = uninstall_all [OF assms, of "entry_refs s", folded RemoveAllFilters_def]
  then show wf: "bus_wf (RemoveAllFilters s)" "registrations (RemoveAllFilters s) = registrations s" "bus_kept s (RemoveAllFilters s)" by blast+
  have "\<not> hw_installed (RemoveAllFilters s) i f" if "0 \<le> i" for i f
    using u entry_refs_all that unfolding hw_installed_def by (metis not_less)
  then have "x \<notin> set (cb_hw_filters (RemoveAllFilters s))" for x
    using wf(1) by (cases x) (auto simp: bus_wf_def hw_wf_def)
  then show "cb_hw_filters (RemoveAllFilters s) = []" by (metis list.set_intros(1) neq_Nil_conv)
qed

lemma Bus_Configure_wf:
  assumes "bus_wf s"
  shows "bus_wf (snd (Bus_Configure drv state config s)) \<and> registrations (snd (Bus_Configure drv state config s)) = registrations s"
proof (cases "config_refused drv state config")
  case True
  then show ?thesis using assms by (simp add: Bus_Configure_def)
next
  case False
  note r = RemoveAllFilters_ok [OF assms]
  let ?s1 = "RemoveAllFilters s"
  let ?s2 = "?s1\<lparr>cb_config := with_data_bitrate config\<rparr>"
  have "same_registry ?s1 ?s2" by (simp add: same_registry_def)
  from same_registry_wf [OF this r(1)] have s2: "bus_wf ?s2" "registrations ?s2 = registrations s" using r(2,4) by simp_all
  obtain ok s3 where a: "apply_config drv ?s2 = (ok, s3)" by fastforce
  have s3: "same_device ?s2 s3" using apply_config_same [of ?s2 drv] a by simp
  have wf3: "bus_wf s3" "registrations s3 = registrations s" using same_device_wf [OF s3 s2(1)] s2(2) by simp_all
  show ?thesis
  proof (cases ok)
    case True
    then show ?thesis using False a wf3 by (simp add: Bus_Configure_def)
  next
    case failed: False
    let ?s4 = "s3\<lparr>cb_config := cb_config ?s1\<rparr>"
    have "same_registry s3 ?s4" by (simp add: same_registry_def)
    moreover have "cb_hw_filters s3 = []" using s3 r(4) by (simp add: same_device_def same_registry_def)
    ultimately have "bus_wf ?s4" "registrations ?s4 = registrations s" using same_registry_wf [of s3 ?s4] wf3 by simp_all
    then show ?thesis
      using same_device_wf [OF same_device_simps(3)] False failed a by (simp add: Bus_Configure_def)
  qed
qed

lemma ClearEntries_wf:
  assumes "bus_wf s" and "cb_hw_filters s = []"
  shows "bus_wf (ClearEntries s)" "registrations (ClearEntries s) = {}"
proof -
  have at: "entry_at r (ClearEntries s) = None" for r by (cases r) (simp_all add: ClearEntries_def)
  have "tables_ok (ClearEntries s)" "cb_next_handler_id (ClearEntries s) = cb_next_handler_id s" "cb_hw_filters (ClearEntries s) = []"
    using assms by (simp_all add: tables_ok_def bus_wf_def registry_wf_def placed_def ClearEntries_def)
  then show "bus_wf (ClearEntries s)"
    using assms(1) by (simp add: bus_wf_def registry_wf_def placed_def apart_def hw_wf_def hw_installed_def no_empty_def at)
  show "registrations (ClearEntries s) = {}" by (simp add: registrations_def at)
qed

lemma clear_wf:
  assumes "bus_wf s"
  shows "bus_wf (ClearEntries (RemoveAllFilters s))" "registrations (ClearEntries (RemoveAllFilters s)) = {}"
  using ClearEntries_wf [OF RemoveAllFilters_ok(1,4) [OF assms]] by simp_all

lemma bus_wf_fields:
  assumes "bus_wf s"
  shows "bus_wf (s\<lparr>cb_frame_msgq := q, cb_is_initialized := a, cb_bitrate_detected := b\<rparr>)"
    "bus_wf (s\<lparr>cb_bitrate_detected := b, cb_rx_dropped := n\<rparr>)" "bus_wf (s\<lparr>cb_frame_msgq := q\<rparr>)"
    "bus_wf (s\<lparr>cb_rx_dropped := n\<rparr>)" "bus_wf (s\<lparr>cb_has_bitrate_detected_fn := b\<rparr>)" "bus_wf (cb_put e s)"
proof -
  have *: "bus_wf t" if "same_device s t" for t using same_device_wf [OF that assms] by blast
  show "bus_wf (s\<lparr>cb_frame_msgq := q, cb_is_initialized := a, cb_bitrate_detected := b\<rparr>)" by (rule *) (simp add: same_device_def same_registry_def)
  show "bus_wf (s\<lparr>cb_bitrate_detected := b, cb_rx_dropped := n\<rparr>)" by (rule *) (simp add: same_device_def same_registry_def)
  show "bus_wf (s\<lparr>cb_frame_msgq := q\<rparr>)" by (rule *) (simp add: same_device_def same_registry_def)
  show "bus_wf (s\<lparr>cb_rx_dropped := n\<rparr>)" by (rule *) (simp add: same_device_def same_registry_def)
  show "bus_wf (s\<lparr>cb_has_bitrate_detected_fn := b\<rparr>)" by (rule *) (simp add: same_device_def same_registry_def)
  show "bus_wf (cb_put e s)" by (rule *) simp
qed

lemma Bus_DoInitialize_wf: "bus_wf s \<Longrightarrow> bus_wf (snd (Bus_DoInitialize drv allocated s))"
  using Bus_Configure_wf bus_wf_fields(2) clear_wf(1) bus_wf_fields(3) by (simp add: Bus_DoInitialize_def Let_def)

lemma Bus_DoStop_wf:
  assumes "bus_wf s"
  shows "bus_wf (snd (Bus_DoStop drv running s))"
proof -
  have "bus_wf (StopActivityMonitoring s)" using same_device_wf [OF same_device_simps(5) assms] by simp
  then show ?thesis
    using bus_wf_fields(1) [OF clear_wf(1)] bus_wf_fields(6) by (simp add: Bus_DoStop_def Let_def)
qed

text \<open>What handlers may do to the bus while it dispatches a frame.\<close>

datatype bus_act = ActRegister CanFilter nat | ActRemove int

fun do_act :: "can_driver \<Rightarrow> bus_act \<Rightarrow> Canbus \<Rightarrow> Canbus" where
  "do_act drv (ActRegister f h) s = snd (RegisterFrameReceivedHandler drv f (Some h) s)"
| "do_act drv (ActRemove i) s = snd (RemoveFrameReceivedHandler i s)"

definition run_acts :: "can_driver \<Rightarrow> (nat \<Rightarrow> bus_act list) \<Rightarrow> nat \<Rightarrow> CanFrame \<Rightarrow> Canbus \<Rightarrow> Canbus" where
  "run_acts drv acts h frame s = fold (do_act drv) (acts h) s"

lemma do_act_ok:
  assumes "bus_wf s" and "driver_ok drv"
  shows "bus_wf (do_act drv a s) \<and> bus_kept s (do_act drv a s)"
proof (cases a)
  case (ActRegister f h)
  obtain c s' where o: "RegisterFrameReceivedHandler drv f (Some h) s = (c, s')" by fastforce
  show ?thesis using Register_ok [OF assms o] ActRegister o by simp
next
  case (ActRemove i)
  obtain c s' where o: "RemoveFrameReceivedHandler i s = (c, s')" by fastforce
  show ?thesis using Remove_ok [OF assms(1) o] ActRemove o by simp
qed

lemma run_acts_ok:
  assumes "bus_wf s" and "driver_ok drv"
  shows "bus_wf (run_acts drv acts h frame s) \<and> bus_kept s (run_acts drv acts h frame s)"
proof -
  have "bus_wf (fold (do_act drv) as u) \<and> bus_kept u (fold (do_act drv) as u)" if "bus_wf u" for as u
    using that
  proof (induction as arbitrary: u)
    case (Cons a as)
    note d = do_act_ok [OF Cons.prems assms(2), of a]
    show ?case using Cons.IH [of "do_act drv a u"] d bus_kept_trans [of u "do_act drv a u"] by simp
  qed (simp add: bus_kept_def)
  then show ?thesis using assms(1) by (simp add: run_acts_def)
qed

lemma kept_calls: "bus_kept s s' \<Longrightarrow> handler_calls s' = handler_calls s"
  by (simp add: bus_kept_def handler_calls_def)

lemma subseq_kept: "subseq xs ys \<Longrightarrow> set xs \<subseteq> set ys \<and> (distinct ys \<longrightarrow> distinct xs)"
  by (induction rule: list_emb.induct) auto

lemma dispatch_some:
  assumes "bus_wf s" and "driver_ok drv"
  shows "bus_wf (dispatch_to (run_acts drv acts) c frame hs s) \<and>
    (\<exists>hs'. subseq hs' hs \<and> handler_calls (dispatch_to (run_acts drv acts) c frame hs s) = handler_calls s @ map (\<lambda>h. (h, frame)) hs')"
  using assms(1)
proof (induction hs arbitrary: s)
  case Nil
  then show ?case by simp
next
  case (Cons h hs)
  show ?case
  proof (cases "FindMatchingEntry c s")
    case None
    then show ?thesis using Cons.prems by (auto intro: exI [of _ "[]"])
  next
    case (Some r)
    show ?thesis
    proof (cases "map_of (handlers_at r s) h")
      case None
      then show ?thesis using Cons.IH [OF Cons.prems] Some by (auto intro: list_emb_Cons)
    next
      case handler: (Some x)
      let ?s = "run_acts drv acts x frame (cb_put (CalledHandler h frame) s)"
      have r: "bus_wf ?s" "bus_kept (cb_put (CalledHandler h frame) s) ?s"
        using run_acts_ok [OF bus_wf_fields(6) [OF Cons.prems] assms(2)] by simp_all
      from Cons.IH [OF r(1)] obtain hs' where hs': "bus_wf (dispatch_to (run_acts drv acts) c frame hs ?s)" "subseq hs' hs"
        "handler_calls (dispatch_to (run_acts drv acts) c frame hs ?s) = handler_calls ?s @ map (\<lambda>h. (h, frame)) hs'" by blast
      then show ?thesis
        using Some handler kept_calls [OF r(2)] by (intro conjI exI [of _ "h # hs'"]) (simp_all add: calls_put)
    qed
  qed
qed

section \<open>Reachable buses\<close>

inductive bus_step :: "Canbus \<Rightarrow> Canbus \<Rightarrow> bool" where
  initialize: "driver_ok drv \<Longrightarrow> bus_step s (snd (Bus_DoInitialize drv allocated s))"
| start: "bus_step s (snd (Bus_DoStart started s))"
| stop: "driver_ok drv \<Longrightarrow> bus_step s (snd (Bus_DoStop drv running s))"
| configure: "driver_ok drv \<Longrightarrow> bus_step s (snd (Bus_Configure drv state config s))"
| register: "driver_ok drv \<Longrightarrow> bus_step s (snd (RegisterFrameReceivedHandler drv f h s))"
| remove: "bus_step s (snd (RemoveFrameReceivedHandler i s))"
| send: "driver_ok drv \<Longrightarrow> bus_step s (snd (SendFrame drv state c d s))"
| received: "bus_step s (CanFrameReceivedCallback queue_size raw s)"
| frames: "driver_ok drv \<Longrightarrow> bus_step s (ProcessFramesTask drv (run_acts drv acts) s)"
| detect: "(\<And>n. driver_ok (drvs n)) \<Longrightarrow> BitrateAutodetectTask drvs runs s = Some s' \<Longrightarrow> bus_step s s'"
| callback: "bus_step s (RegisterBitrateDetectedCallback present s)"

inductive bus_reachable :: "Canbus \<Rightarrow> bool" where
  new: "bus_reachable (Canbus_new config)"
| step: "bus_reachable s \<Longrightarrow> bus_step s s' \<Longrightarrow> bus_reachable s'"

lemma detect_loop_wf:
  assumes "detect_loop drv running n s = Some s'" and "bus_wf s" and "\<And>n. driver_ok (drv n)"
  shows "bus_wf s'"
proof -
  have "bus_wf s \<longrightarrow> (\<forall>n. driver_ok (drv n)) \<longrightarrow> bus_wf s'"
  proof (rule detect_loop.raw_induct [where P = "\<lambda>drv running n s s'. bus_wf s \<longrightarrow> (\<forall>n. driver_ok (drv n)) \<longrightarrow> bus_wf s'", OF _ assms(1)], intro impI)
    fix loop :: "(nat \<Rightarrow> can_driver) \<Rightarrow> (nat \<Rightarrow> nat \<Rightarrow> bool) \<Rightarrow> nat \<Rightarrow> Canbus \<Rightarrow> Canbus option"
      and drv running n s s'
    assume ih: "\<And>drv running n s s'. loop drv running n s = Some s' \<Longrightarrow> bus_wf s \<longrightarrow> (\<forall>n. driver_ok (drv n)) \<longrightarrow> bus_wf s'"
      and eq: "(if \<not> (running n 0 \<and> cb_auto_detect_running s \<and> \<not> cb_bitrate_detected s) then Some s
         else case AutoDetectBitrate (drv n) (running n) s of
           (found, s1) \<Rightarrow>
             if found
             then let s2 = InstallDeferredFilters (drv n) s1
                  in Some (if cb_has_bitrate_detected_fn s2 then cb_put (CalledBitrateDetected (cc_bitrate (cb_config s1))) s2 else s2)
             else loop drv running (Suc n) s1) = Some s'"
      and wf: "bus_wf s" and drv: "\<forall>n. driver_ok (drv n)"
    obtain found s1 where a: "AutoDetectBitrate (drv n) (running n) s = (found, s1)" by fastforce
    have wf1: "bus_wf s1" using same_device_wf [OF AutoDetect_same wf, of "drv n" "running n"] a by simp
    then have wf2: "bus_wf (InstallDeferredFilters (drv n) s1)" using InstallDeferred_ok drv by blast
    show "bus_wf s'"
      using ih [of drv running "Suc n" s1 s'] eq wf wf1 wf2 drv a bus_wf_fields(6) [OF wf2] by (auto simp: Let_def split: if_splits)
  qed
  then show ?thesis using assms by blast
qed

lemma bus_step_wf: "bus_step s s' \<Longrightarrow> bus_wf s \<Longrightarrow> bus_wf s'"
proof (induction rule: bus_step.induct)
  case (register drv s f h)
  obtain c s' where o: "RegisterFrameReceivedHandler drv f h s = (c, s')" by fastforce
  show ?case using Register_ok [OF register(2,1) o] o by simp
next
  case (remove s i)
  obtain c s' where o: "RemoveFrameReceivedHandler i s = (c, s')" by fastforce
  show ?case using Remove_ok [OF remove o] o by simp
next
  case (frames drv s acts)
  note d = dispatch_some [OF bus_wf_fields(3) [OF frames(2)] frames(1)]
  show ?case
    using frames(2) d bus_wf_fields(3) [OF frames(2)] by (simp add: ProcessFramesTask_def DispatchFrame_def Let_def split: list.split option.split)
next
  case (detect drvs runs s s')
  then obtain s1 where "detect_loop drvs runs 0 s = Some s1" "s' = StopActivityMonitoring s1"
    by (auto simp: BitrateAutodetectTask_def)
  then show ?case using detect_loop_wf detect(1,3) same_device_wf [OF same_device_simps(5)] by blast
qed (simp_all add: Bus_DoInitialize_wf Bus_DoStop_wf Bus_Configure_wf bus_wf_fields Bus_DoStart_def SendFrame_def Let_def
    CanFrameReceivedCallback_def RegisterBitrateDetectedCallback_def)

lemma Canbus_new_wf: "bus_wf (Canbus_new config)"
proof -
  have at: "entry_at r (Canbus_new config) = None" for r by (cases r) (simp_all add: Canbus_new_def)
  have "tables_ok (Canbus_new config)" "0 < cb_next_handler_id (Canbus_new config)" "cb_hw_filters (Canbus_new config) = []"
    by (simp_all add: Canbus_new_def tables_ok_def)
  then show ?thesis
    by (simp add: bus_wf_def registry_wf_def placed_def apart_def hw_wf_def hw_installed_def no_empty_def at)
qed

lemma bus_reachable_wf: "bus_reachable s \<Longrightarrow> bus_wf s"
  by (induction rule: bus_reachable.induct) (simp_all add: Canbus_new_wf bus_step_wf)

section \<open>Probing\<close>

text \<open>Starting the controller is harmless while it only listens, or at a bitrate at which it heard valid traffic.\<close>

definition harmless :: "can_driver \<Rightarrow> bus_effect \<Rightarrow> bool" where
  "harmless drv e \<longleftrightarrow> (case e of HwStart m b \<Rightarrow> m AND cd_mode_listenonly drv = cd_mode_listenonly drv \<or>
     cd_frames_seen drv b \<ge> MIN_FRAMES_FOR_DETECTION \<and> cd_error_free drv b | _ \<Rightarrow> True)"

text \<open>What is added to the outbox is harmless.\<close>

definition quiet :: "can_driver \<Rightarrow> Canbus \<Rightarrow> Canbus \<Rightarrow> bool" where
  "quiet drv s s' \<longleftrightarrow> (\<exists>es. cb_outbox s' = cb_outbox s @ es \<and> list_all (harmless drv) es)"

lemma quiet_refl [simp]: "quiet drv s s"
  by (simp add: quiet_def)

lemma quiet_trans: "quiet drv s s1 \<Longrightarrow> quiet drv s1 s2 \<Longrightarrow> quiet drv s s2"
  by (auto simp: quiet_def)

lemma quiet_put: "harmless drv e \<Longrightarrow> quiet drv s (cb_put e s)"
  by (simp add: quiet_def cb_put_def)

lemma ApplyMode_quiet: "quiet drv s (snd (ApplyMode drv extra s))"
  by (simp add: ApplyMode_def Let_def quiet_def cb_put_def harmless_def split: option.split)

lemma ApplyMode_mode:
  assumes "ApplyMode drv (x OR lo) s = (True, s')" and "cd_capabilities drv = Some capabilities" and "capabilities AND lo = lo"
  shows "cb_hw_mode s' AND lo = lo"
proof -
  define base where "base = (if cc_type (cb_config s) = CANFD \<and> capabilities AND cd_mode_fd drv \<noteq> 0 then cd_mode_fd drv else 0)"
  have base: "cb_hw_mode s' = base OR ((x OR lo) AND capabilities) \<or> cb_hw_mode s' = base OR (x OR lo)"
    using assms(1,2) unfolding base_def by (auto simp: ApplyMode_def Let_def cb_put_def split: if_splits)
  have lo: "bit lo n \<Longrightarrow> bit capabilities n" for n using assms(3) by (metis bit_and_iff)
  have "(base OR ((x OR lo) AND capabilities)) AND lo = lo" "(base OR (x OR lo)) AND lo = lo"
    by (auto intro!: bit_word_eqI simp: bit_and_iff bit_or_iff dest: lo)
  with base show ?thesis by auto
qed

lemma TestBitrate_quiet:
  assumes "cd_capabilities drv = Some capabilities" and "capabilities AND cd_mode_listenonly drv = cd_mode_listenonly drv"
  shows "quiet drv s (snd (TestBitrate drv b s))"
proof -
  let ?lo = "cd_mode_listenonly drv"
  obtain ok s1 where a: "ApplyMode drv (cc_extra_modes (cb_config s) OR ?lo) s = (ok, s1)" by fastforce
  have q1: "quiet drv s s1" using ApplyMode_quiet [of drv s "cc_extra_modes (cb_config s) OR ?lo"] a by simp
  show ?thesis
  proof (cases "ok \<and> set_timings drv b s1")
    case False
    then show ?thesis using a q1 by (cases ok) (simp_all add: TestBitrate_def)
  next
    case True
    obtain heard s2 where l: "listen drv b s1 = (heard, s2)" by fastforce
    have "cb_hw_mode s1 AND ?lo = ?lo" using ApplyMode_mode [of drv _ ?lo s s1] a True assms by simp
    then have start: "quiet drv s1 (cb_put (HwStart (cb_hw_mode s1) b) s1)" by (intro quiet_put) (simp add: harmless_def)
    have stop: "quiet drv u (cb_put HwStop u)" for u by (rule quiet_put) (simp add: harmless_def)
    have "s2 = cb_put (HwStart (cb_hw_mode s1) b) s1 \<or> s2 = cb_put HwStop (cb_put (HwStart (cb_hw_mode s1) b) s1)"
      using l by (auto simp: listen_def hw_start_def split: if_splits bool.splits)
    then have q2: "quiet drv s s2" using quiet_trans [OF q1] quiet_trans [OF start stop] start by blast
    show ?thesis
    proof (cases heard)
      case False
      then show ?thesis using True a l q2 by (simp add: TestBitrate_def)
    next
      case h: True
      then have good: "cd_frames_seen drv b \<ge> MIN_FRAMES_FOR_DETECTION" "cd_error_free drv b"
        using l by (auto simp: listen_def split: if_splits bool.splits prod.splits)
      obtain again s3 where m: "ApplyMode drv (cc_extra_modes (cb_config s2)) s2 = (again, s3)" by fastforce
      have q3: "quiet drv s s3" using quiet_trans [OF q2] ApplyMode_quiet [of drv s2 "cc_extra_modes (cb_config s2)"] m by simp
      have "quiet drv s3 (snd (hw_start drv b s3))" using good by (simp add: hw_start_def quiet_put harmless_def)
      then have "quiet drv s (snd (hw_start drv b s3))" by (rule quiet_trans [OF q3])
      then show ?thesis using True h a l m q3 by (cases again) (simp_all add: TestBitrate_def)
    qed
  qed
qed

lemma bitrate_found_quiet: "quiet drv s (bitrate_found b s)"
  by (simp add: quiet_def bitrate_found_def Let_def)

lemma try_bitrates_quiet:
  assumes "cd_capabilities drv = Some capabilities" and "capabilities AND cd_mode_listenonly drv = cd_mode_listenonly drv"
  shows "quiet drv s (snd (try_bitrates drv running k bs s))"
proof (induction bs arbitrary: k s)
  case (Cons b bs)
  obtain ok s1 where t: "TestBitrate drv b s = (ok, s1)" by fastforce
  have q: "quiet drv s s1" using TestBitrate_quiet [OF assms, of s b] t by simp
  show ?case
    using quiet_trans [OF q Cons.IH] quiet_trans [OF q bitrate_found_quiet] t by (cases ok) simp_all
qed simp

section \<open>Properties\<close>

lemma registrations_filters:
  assumes "bus_wf s"
  shows "(\<exists>h. (h, f) \<in> registrations s) \<longleftrightarrow> (\<exists>r e. entry_at r s = Some e \<and> fe_filter e = f)"
proof
  assume "\<exists>r e. entry_at r s = Some e \<and> fe_filter e = f"
  then obtain r e where e: "entry_at r s = Some e" "fe_filter e = f" by blast
  then obtain x xs where "fe_handlers e = x # xs" using assms by (cases "fe_handlers e") (auto simp: bus_wf_def no_empty_def)
  then have "fst x \<in> handler_ids e" by (simp add: handler_ids_def)
  with e show "\<exists>h. (h, f) \<in> registrations s" by (auto simp: registrations_def)
qed (auto simp: registrations_def)

lemma overlap_error:
  assumes wf: "bus_wf s" and ok: "cb_is_initialized s" "CanFilter_IsValid g" and out: "RegisterFrameReceivedHandler drv g (Some h) s = (c, s')"
  shows "c = ERR_FILTER_OVERLAP \<longleftrightarrow>
    \<not> (\<exists>i. (i, Normalized g) \<in> registrations s) \<and> (\<exists>i f. (i, f) \<in> registrations s \<and> Overlaps f (Normalized g))"
proof -
  let ?f = "Normalized g"
  have p: "placed s" "tables_ok s" using wf by (simp_all add: bus_wf_def registry_wf_def placed_def)
  have "FindEntry ?f s = None \<longleftrightarrow> \<not> (\<exists>i. (i, ?f) \<in> registrations s)"
    using FindEntry_None [of ?f s] FindEntry_Some [of ?f s] Normalized_valid(1) [OF ok(2)] p(1)
    unfolding registrations_filters [OF wf] by (cases "FindEntry ?f s") blast+
  moreover have "HasOverlap ?f s \<longleftrightarrow> (\<exists>i f. (i, f) \<in> registrations s \<and> Overlaps f ?f)"
    unfolding HasOverlap_iff [OF p(2)] using registrations_filters [OF wf] by metis
  moreover have "c = ERR_FILTER_OVERLAP \<longleftrightarrow> FindEntry ?f s = None \<and> HasOverlap ?f s"
  proof -
    have pos: "0 < cb_next_handler_id s1" if "find_or_create ?f s = Inr (r, s1)" for r s1
      using find_or_create_ok [OF wf Normalized_valid(1) [OF ok(2)] Normalized_valid(2) that] wf by (auto simp: bus_wf_def registry_wf_def)
    have "c \<noteq> ERR_FILTER_OVERLAP" if "find_or_create ?f s = Inr (r, s1)" for r s1
      using out ok that pos [OF that] by (auto simp: RegisterFrameReceivedHandler_def Let_def bus_errors split: if_splits prod.splits bool.splits)
    moreover have "c = e" if "find_or_create ?f s = Inl e" for e
      using out ok that by (simp add: RegisterFrameReceivedHandler_def)
    moreover have "find_or_create ?f s = Inl ERR_FILTER_OVERLAP \<longleftrightarrow> FindEntry ?f s = None \<and> HasOverlap ?f s"
      by (auto simp: find_or_create_def bus_errors split: option.split)
    ultimately show ?thesis by (cases "find_or_create ?f s") auto
  qed
  ultimately show ?thesis by blast
qed

text \<open>
  C19. The bus implements a registry of handlers, each with a filter. Registering a handler on an
  initialised bus either fails with a negative number and changes no registration, or gives the handler a
  positive number that no handler had and adds just it; it fails for an overlap exactly when some
  registered filter, none of them the same one, accepts a common identifier. Removing a handler takes
  away just it, and reports whether there was one.
\<close>

theorem registry_refines:
  assumes "bus_reachable s" and "driver_ok drv" and "cb_is_initialized s" and "CanFilter_IsValid g"
    and "RegisterFrameReceivedHandler drv g (Some h) s = (c, s')" and "RemoveFrameReceivedHandler i s = (b, s'')"
  shows "(if 0 < c then c \<notin> fst ` registrations s \<and> registrations s' = insert (c, Normalized g) (registrations s)
      else c < 0 \<and> registrations s' = registrations s) \<and>
    (c = ERR_FILTER_OVERLAP \<longleftrightarrow> \<not> (\<exists>k. (k, Normalized g) \<in> registrations s) \<and>
      (\<exists>k f. (k, f) \<in> registrations s \<and> Overlaps f (Normalized g))) \<and>
    b = (i \<in> fst ` registrations s) \<and> registrations s'' = {(k, f) \<in> registrations s. k \<noteq> i}"
  using Register_ok [OF bus_reachable_wf [OF assms(1)] assms(2,5)] Remove_ok [OF bus_reachable_wf [OF assms(1)] assms(6)]
    overlap_error [OF bus_reachable_wf [OF assms(1)] assms(3,4,5)] assms(3) by simp

text \<open>
  C20. In every state the bus can reach, a handler has one filter, no two different registered filters
  accept a common identifier, and the controller has only filters of registered handlers, so that it
  delivers a frame through one filter at most.
\<close>

theorem filters_never_overlap:
  assumes "bus_reachable s"
  shows "(\<forall>h f g. (h, f) \<in> registrations s \<and> (h, g) \<in> registrations s \<longrightarrow> f = g) \<and>
    (\<forall>h k f g. (h, f) \<in> registrations s \<and> (k, g) \<in> registrations s \<and> Overlaps f g \<longrightarrow> f = g) \<and>
    (\<forall>d i f. (d, i, f) \<in> set (cb_hw_filters s) \<longrightarrow> (\<exists>h. (h, f) \<in> registrations s)) \<and>
    (\<forall>x y c. x \<in> set (cb_hw_filters s) \<and> y \<in> set (cb_hw_filters s) \<and> Matches (snd (snd x)) c \<and> Matches (snd (snd y)) c \<longrightarrow> x = y)"
proof -
  have wf: "bus_wf s" by (rule bus_reachable_wf [OF assms])
  then have ap: "apart s" "hw_wf s" by (simp_all add: bus_wf_def registry_wf_def)
  have one: "r = r'" if "entry_at r s = Some e" "entry_at r' s = Some e'" "Overlaps (fe_filter e) (fe_filter e')" for r r' e e'
    using apartD(1) [OF ap(1) that] .
  have same: "x = y" if xy: "x \<in> set (cb_hw_filters s)" "y \<in> set (cb_hw_filters s)" "Matches (snd (snd x)) c" "Matches (snd (snd y)) c" for x y c
  proof -
    obtain d i f d' j g where x: "x = (d, i, f)" and y: "y = (d', j, g)" by (metis prod_cases3)
    have d: "d = d'" and hi: "hw_installed s i f" "hw_installed s j g" using ap(2) xy x y by (auto simp: hw_wf_def)
    then obtain r e r' e' where e: "entry_at r s = Some e" "fe_filter_id e = i" "fe_filter e = f" "entry_at r' s = Some e'" "fe_filter_id e' = j" "fe_filter e' = g"
      by (auto simp: hw_installed_def)
    have "Overlaps f g" using overlaps_common xy(3,4) x y by simp
    then show ?thesis using one [OF e(1,4)] e d x y by simp
  qed
  have "\<exists>h. (h, f) \<in> registrations s" if "(d, i, f) \<in> set (cb_hw_filters s)" for d i f
    using that ap(2) unfolding registrations_filters [OF wf] by (auto simp: hw_wf_def hw_installed_def)
  moreover have "f = g" if "(h, f) \<in> registrations s" "(h, g) \<in> registrations s" for h f g
    using that apartD(2) [OF ap(1)] by (auto simp: registrations_def) (metis option.inject)
  moreover have "f = g" if "(h, f) \<in> registrations s" "(k, g) \<in> registrations s" "Overlaps f g" for h k f g
    using that one by (auto simp: registrations_def) (metis option.inject)
  ultimately show ?thesis using same by blast
qed

text \<open>
  C21. A received frame is handed to exactly the handlers whose filter accepts its identifier, each once,
  while they leave the bus alone; when handlers register and remove handlers, some that were registered
  before may be left out but none is called twice and none that was not.
\<close>

theorem dispatch_exact:
  assumes "bus_reachable s" and "driver_ok drv"
    and "CanId_IsValid \<lparr>can_id = frame_id frame, is_extended = frame_is_extended frame\<rparr>"
  shows "\<exists>hs. handler_calls (DispatchFrame (run_acts drv acts) frame s) = handler_calls s @ map (\<lambda>h. (h, frame)) hs \<and>
    distinct hs \<and> set hs \<subseteq> wanted_by frame s \<and> ((\<forall>h. acts h = []) \<longrightarrow> set hs = wanted_by frame s)"
proof (cases "\<forall>h. acts h = []")
  case True
  then have "run_acts drv acts = (\<lambda>_ _ u. u)" by (simp add: run_acts_def fun_eq_iff)
  then show ?thesis using DispatchFrame_calls [OF bus_reachable_wf [OF assms(1)] assms(3)] by auto
next
  case False
  let ?c = "\<lparr>can_id = frame_id frame, is_extended = frame_is_extended frame\<rparr>"
  have wf: "bus_wf s" by (rule bus_reachable_wf [OF assms(1)])
  show ?thesis
  proof (cases "FindMatchingEntry ?c s")
    case None
    then show ?thesis using False by (intro exI [of _ "[]"]) (auto simp: DispatchFrame_def)
  next
    case (Some r)
    have p: "placed s" using wf by (simp add: bus_wf_def registry_wf_def)
    obtain e where e: "entry_at r s = Some e" "Matches (fe_filter e) ?c" using FindMatchingEntry_Some [OF Some p assms(3)] by blast
    let ?hs = "take MAX_HANDLERS_PER_FILTER (map fst (handlers_at r s))"
    have "distinct (map fst (fe_handlers e))" using wf e(1) by (auto simp: bus_wf_def registry_wf_def entry_ok_def)
    moreover have "handler_ids e \<subseteq> wanted_by frame s" using e unfolding wanted_by_def registrations_def by blast
    ultimately have hs: "distinct ?hs" "set ?hs \<subseteq> wanted_by frame s"
      using e set_take_subset [of MAX_HANDLERS_PER_FILTER "map fst (handlers_at r s)"] by (auto simp: handlers_at_def handler_ids_def)
    from dispatch_some [OF wf assms(2), of acts ?c frame ?hs] obtain hs' where
      hs': "subseq hs' ?hs" "handler_calls (dispatch_to (run_acts drv acts) ?c frame ?hs s) = handler_calls s @ map (\<lambda>h. (h, frame)) hs'" by blast
    have "distinct hs'" "set hs' \<subseteq> wanted_by frame s" using subseq_kept [OF hs'(1)] hs by auto
    then show ?thesis using hs'(2) Some False by (intro exI [of _ hs']) (auto simp: DispatchFrame_def)
  qed
qed

text \<open>
  Looking for the bitrate of a running bus does not disturb it, on a controller that can listen
  only: the controller is started to listen, or at a bitrate at which it has already heard enough
  frames without errors.
\<close>

theorem probing_listens_only:
  assumes "cd_capabilities drv = Some capabilities" and "capabilities AND cd_mode_listenonly drv = cd_mode_listenonly drv"
    and "AutoDetectBitrate drv running s = (found, s')"
  shows "\<exists>es. cb_outbox s' = cb_outbox s @ es \<and>
    list_all (\<lambda>e. case e of HwStart mode b \<Rightarrow> mode AND cd_mode_listenonly drv = cd_mode_listenonly drv \<or>
      cd_frames_seen drv b \<ge> MIN_FRAMES_FOR_DETECTION \<and> cd_error_free drv b | _ \<Rightarrow> True) es"
proof -
  have h: "harmless drv = (\<lambda>e. case e of HwStart mode b \<Rightarrow> mode AND cd_mode_listenonly drv = cd_mode_listenonly drv \<or>
      cd_frames_seen drv b \<ge> MIN_FRAMES_FOR_DETECTION \<and> cd_error_free drv b | _ \<Rightarrow> True)"
    by (simp add: fun_eq_iff harmless_def)
  have "quiet drv s s'"
    using try_bitrates_quiet [OF assms(1,2), of s running 0] assms(3) unfolding AutoDetectBitrate_def by (metis snd_conv)
  then show ?thesis unfolding quiet_def h .
qed

text \<open>
  On a controller that cannot listen only, the probe drops the mode it asked for and starts the
  controller at the bitrate to try in a mode in which it takes part in the bus, before it has heard
  anything.
\<close>

theorem probing_can_disturb:
  assumes "cd_capabilities drv = Some capabilities" and "capabilities AND cd_mode_listenonly drv = 0"
    and "cd_mode_fd drv AND cd_mode_listenonly drv = 0" and "cd_mode_listenonly drv \<noteq> 0"
    and "\<And>m. cd_set_mode drv m" and "\<And>x. cd_set_bitrate drv x" and "\<And>x. cd_set_bitrate_data drv x" and "b \<noteq> 0"
  shows "\<exists>mode es. cb_outbox (snd (TestBitrate drv b s)) = cb_outbox s @ HwSetMode mode # HwStart mode b # es \<and>
    mode AND cd_mode_listenonly drv = 0"
proof -
  let ?lo = "cd_mode_listenonly drv" and ?x = "cc_extra_modes (cb_config s)"
  have dropped: "(?x OR ?lo) AND NOT capabilities \<noteq> 0"
  proof
    assume z: "(?x OR ?lo) AND NOT capabilities = 0"
    have "?lo AND NOT capabilities = ?lo"
    proof (rule bit_word_eqI)
      fix n
      show "bit (?lo AND NOT capabilities) n = bit ?lo n"
        using arg_cong [where f = "\<lambda>w. bit w n", OF assms(2)] by (auto simp: bit_and_iff bit_not_iff dest: bit_imp_le_length)
    qed
    moreover have "?lo AND NOT capabilities = ?lo AND ((?x OR ?lo) AND NOT capabilities)"
      by (rule bit_word_eqI) (auto simp: bit_and_iff bit_or_iff)
    ultimately show False using z assms(4) by simp
  qed
  define base where "base = (if cc_type (cb_config s) = CANFD \<and> capabilities AND cd_mode_fd drv \<noteq> 0 then cd_mode_fd drv else 0)"
  define mode where "mode = base OR ((?x OR ?lo) AND capabilities)"
  have mode: "mode AND ?lo = 0"
  proof (rule bit_word_eqI)
    fix n
    show "bit (mode AND ?lo) n = bit 0 n"
      using arg_cong [where f = "\<lambda>w. bit w n", OF assms(2)] arg_cong [where f = "\<lambda>w. bit w n", OF assms(3)]
      by (auto simp: mode_def base_def bit_and_iff bit_or_iff)
  qed
  obtain s1 where s1: "ApplyMode drv (?x OR ?lo) s = (True, s1)" "cb_hw_mode s1 = mode" "cb_outbox s1 = cb_outbox s @ [HwSetMode mode]"
    using assms(1,5) dropped by (auto simp: ApplyMode_def Let_def cb_put_def mode_def base_def)
  have timed: "set_timings drv b s1"
    using assms(6-8) by (auto simp: set_timings_def SetTiming_def SetDataTiming_def probe_data_bitrate_def)
  obtain heard s2 where l: "listen drv b s1 = (heard, s2)" by fastforce
  then have s2: "\<exists>es. cb_outbox s2 = cb_outbox s1 @ HwStart mode b # es"
    using s1(2) by (auto simp: listen_def hw_start_def cb_put_def split: if_splits bool.splits)
  have grows: "\<exists>es. cb_outbox (snd (ApplyMode drv y u)) = cb_outbox u @ es" for y u
    by (simp add: ApplyMode_def Let_def cb_put_def split: option.split)
  obtain again s3 where m: "ApplyMode drv (cc_extra_modes (cb_config s2)) s2 = (again, s3)" by fastforce
  have s3: "\<exists>es. cb_outbox s3 = cb_outbox s1 @ HwStart mode b # es"
    using s2 grows [of "cc_extra_modes (cb_config s2)" s2] m by auto
  then have "\<exists>es. cb_outbox (snd (hw_start drv b s3)) = cb_outbox s1 @ HwStart mode b # es" by (auto simp: hw_start_def cb_put_def)
  then have "\<exists>es. cb_outbox (snd (TestBitrate drv b s)) = cb_outbox s1 @ HwStart mode b # es"
    using s1(1) timed l m s2 s3 by (cases heard; cases again) (simp_all add: TestBitrate_def)
  then show ?thesis using s1(3) mode by (auto simp: ac_simps)
qed

text \<open>
  A frame the bus sends is the frame another bus on the wire receives: the same identifier and
  data, when the length of the data is one a CAN frame can have, with the format of the sender's bus.
  Nothing is sent unless the bus runs at a known bitrate, the identifier is valid and the data fits.
\<close>

theorem sent_frame_received:
  assumes "SendFrame drv state i d s = (0, s')" and "cd_ENETDOWN drv \<noteq> 0" and "cd_EINVAL drv \<noteq> 0"
    and "cd_dlc_to_bytes drv (cd_bytes_to_dlc drv (length d)) = length d"
  shows "\<exists>raw. cb_outbox s' = cb_outbox s @ [HwSend raw] \<and>
    frame_of_raw drv raw = \<lparr>frame_id = can_id i, frame_is_extended = is_extended i, frame_is_transmit = False,
      frame_is_can_fd = (cc_type (cb_config s) = CANFD), frame_is_bitrate_switch = (cc_type (cb_config s) = CANFD),
      frame_is_remote_request = False, frame_data = d\<rparr> \<and>
    state = RUNNING \<and> cb_is_initialized s \<and> cb_bitrate_detected s \<and> CanId_IsValid i \<and> length d \<le> GetMaxDataLength (cc_type (cb_config s))"
proof -
  let ?t = "cc_type (cb_config s)"
  have ok: "cb_is_initialized s" "cb_bitrate_detected s" "state = RUNNING" "CanId_IsValid i"
    "length d \<le> min (GetMaxDataLength ?t) (cd_max_dlen drv)" "s' = cb_put (HwSend (raw_of drv ?t i d)) s"
    using assms(1-3) by (auto simp: SendFrame_def Let_def not_less split: if_splits)
  have len: "length d \<le> cd_max_dlen drv" "length d \<le> GetMaxDataLength ?t" using ok(5) by simp_all
  have "length d \<le> 64" "\<not> ?t = CANFD \<Longrightarrow> length d \<le> 8" using len(2) by (auto simp: GetMaxDataLength_def CAN_FRAME_MAX_DATA_LENGTH_def split: if_splits)
  then have "frame_of_raw drv (raw_of drv ?t i d) = \<lparr>frame_id = can_id i, frame_is_extended = is_extended i, frame_is_transmit = False,
      frame_is_can_fd = (?t = CANFD), frame_is_bitrate_switch = (?t = CANFD), frame_is_remote_request = False, frame_data = d\<rparr>"
    using assms(4) len by (auto simp: frame_of_raw_def raw_of_def Let_def Assign_def CAN_FRAME_MAX_DATA_LENGTH_def min_def)
  then show ?thesis using ok len(2) by (intro exI [of _ "raw_of drv ?t i d"]) (simp add: cb_put_def)
qed

section \<open>Finding the bitrate\<close>

text \<open>A driver on a bus with traffic at a bitrate: nothing it is asked fails.\<close>

definition hears :: "u32 \<Rightarrow> can_driver \<Rightarrow> bool" where
  "hears b drv \<longleftrightarrow> cd_capabilities drv \<noteq> None \<and> (\<forall>m. cd_set_mode drv m) \<and> cd_set_bitrate drv b \<and> (\<forall>x. cd_set_bitrate_data drv x) \<and>
     (\<forall>m. cd_start drv m b) \<and> (\<forall>fs d f. 0 \<le> cd_add_rx_filter drv fs d f) \<and> cd_frames_seen drv b \<ge> MIN_FRAMES_FOR_DETECTION \<and> cd_error_free drv b"

text \<open>Detection goes on.\<close>

definition still_running :: "Canbus \<Rightarrow> Canbus \<Rightarrow> bool" where
  "still_running s s' \<longleftrightarrow> cb_auto_detect_running s' = cb_auto_detect_running s \<and> cb_bitrate_detected s' = cb_bitrate_detected s"

lemma ApplyMode_running: "still_running s (snd (ApplyMode drv extra s))"
  by (simp add: ApplyMode_def Let_def still_running_def cb_put_def split: option.split)

lemma listen_running: "still_running s (snd (listen drv b s))"
  by (simp add: listen_def hw_start_def still_running_def cb_put_def split: bool.split)

lemma TestBitrate_running: "still_running s (snd (TestBitrate drv b s))"
proof -
  obtain ok s1 where a: "ApplyMode drv (cc_extra_modes (cb_config s) OR cd_mode_listenonly drv) s = (ok, s1)" by fastforce
  obtain heard s2 where l: "listen drv b s1 = (heard, s2)" by fastforce
  obtain again s3 where m: "ApplyMode drv (cc_extra_modes (cb_config s2)) s2 = (again, s3)" by fastforce
  have "still_running s s1" "still_running s1 s2" "still_running s2 s3"
    using ApplyMode_running [of s drv "cc_extra_modes (cb_config s) OR cd_mode_listenonly drv"] listen_running [of s1 drv b]
      ApplyMode_running [of s2 drv "cc_extra_modes (cb_config s2)"] a l m by simp_all
  then show ?thesis
    using a l m by (cases ok; cases heard; cases again) (auto simp: TestBitrate_def still_running_def hw_start_def cb_put_def)
qed

lemma ApplyMode_hears: "hears b drv \<Longrightarrow> fst (ApplyMode drv extra s)"
  by (auto simp: ApplyMode_def Let_def hears_def)

lemma set_timings_hears: "hears b drv \<Longrightarrow> b \<noteq> 0 \<Longrightarrow> set_timings drv b s"
  by (auto simp: set_timings_def SetTiming_def SetDataTiming_def probe_data_bitrate_def hears_def)

lemma TestBitrate_hears:
  assumes "hears b drv" and "b \<noteq> 0"
  shows "fst (TestBitrate drv b s)"
proof -
  obtain s1 where a: "ApplyMode drv (cc_extra_modes (cb_config s) OR cd_mode_listenonly drv) s = (True, s1)"
    using ApplyMode_hears [OF assms(1), of "cc_extra_modes (cb_config s) OR cd_mode_listenonly drv" s] by (metis prod.collapse)
  obtain s2 where l: "listen drv b s1 = (True, s2)" using assms(1) by (auto simp: listen_def hw_start_def hears_def not_less [symmetric])
  obtain s3 where m: "ApplyMode drv (cc_extra_modes (cb_config s2)) s2 = (True, s3)"
    using ApplyMode_hears [OF assms(1), of "cc_extra_modes (cb_config s2)" s2] by (metis prod.collapse)
  have "fst (hw_start drv b s3)" using assms(1) by (simp add: hw_start_def hears_def)
  then show ?thesis using a l m set_timings_hears [OF assms] by (simp add: TestBitrate_def)
qed

lemma try_bitrates_hears:
  assumes "hears b drv" and "b \<in> set bs" and "b \<noteq> 0" and "cb_auto_detect_running s" and "\<And>k. running k"
  shows "fst (try_bitrates drv running k bs s)"
  using assms(2,4)
proof (induction bs arbitrary: k s)
  case (Cons x xs)
  obtain ok s1 where t: "TestBitrate drv x s = (ok, s1)" by fastforce
  have "cb_auto_detect_running s1" using TestBitrate_running [of s drv x] t Cons.prems(2) by (simp add: still_running_def)
  moreover have "ok" if "x = b" using TestBitrate_hears [OF assms(1,3), of s] t that by simp
  ultimately show ?case using Cons assms(5) t by (cases ok) auto
qed simp

lemma try_bitrates_result:
  assumes "try_bitrates drv running k bs s = (found, s')"
  shows "if found then cb_bitrate_detected s' \<and> cc_bitrate (cb_config s') \<in> set bs else still_running s s'"
  using assms
proof (induction bs arbitrary: k s)
  case (Cons x xs)
  obtain ok s1 where t: "TestBitrate drv x s = (ok, s1)" by fastforce
  have r: "still_running s s1" using TestBitrate_running [of s drv x] t by simp
  show ?case
  proof (cases "\<not> cb_auto_detect_running s \<or> \<not> running k")
    case True
    then show ?thesis using Cons.prems by (auto simp: still_running_def)
  next
    case False
    show ?thesis
    proof (cases ok)
      case True
      then show ?thesis using Cons.prems False t by (auto simp: bitrate_found_def Let_def)
    next
      case go: False
      then have "try_bitrates drv running (Suc k) xs s1 = (found, s')" using Cons.prems False t by simp
      from Cons.IH [OF this] r show ?thesis by (auto simp: still_running_def split: if_splits)
    qed
  qed
qed (simp add: still_running_def)

lemma install_config: "cb_bitrate_detected (InstallDeferredFilters drv s) = cb_bitrate_detected s \<and> cb_config (InstallDeferredFilters drv s) = cb_config s"
proof -
  have "cb_bitrate_detected (snd (InstallFilter drv r u)) = cb_bitrate_detected u \<and> cb_config (snd (InstallFilter drv r u)) = cb_config u" for r u
    by (simp add: InstallFilter_def Let_def split: option.split)
  then have "cb_bitrate_detected (fold (\<lambda>r u. snd (InstallFilter drv r u)) rs u) = cb_bitrate_detected u \<and>
      cb_config (fold (\<lambda>r u. snd (InstallFilter drv r u)) rs u) = cb_config u" for rs u
    by (induction rs arbitrary: u) simp_all
  then show ?thesis by (simp add: InstallDeferredFilters_def)
qed


section \<open>Witnesses\<close>

definition demo_add_filter :: "hw_filter list \<Rightarrow> nat \<Rightarrow> CanFilter \<Rightarrow> int" where
  "demo_add_filter fs d f = 1 + sum_list (map (\<lambda>(_, i, _). \<bar>i\<bar>) fs)"

definition demo_driver :: "u32 \<Rightarrow> can_driver" where
  "demo_driver capabilities = \<lparr>cd_is_ready = (\<lambda>_. True), cd_capabilities = Some capabilities, cd_mode_fd = 4, cd_mode_listenonly = 2,
     cd_set_mode = (\<lambda>_. True), cd_set_bitrate = (\<lambda>_. True), cd_set_bitrate_data = (\<lambda>_. True), cd_start = (\<lambda>_ _. True), cd_stop = True,
     cd_add_rx_filter = demo_add_filter, cd_frames_seen = (\<lambda>b. if b = 250000 then 5 else 0), cd_error_free = (\<lambda>_. True),
     cd_add_state_change_callback = (\<lambda>_. True), cd_bytes_to_dlc = of_nat, cd_dlc_to_bytes = unat, cd_max_dlen = 8, cd_send = (\<lambda>_. 0),
     cd_ENETDOWN = 115, cd_EINVAL = 22\<rparr>"

definition demo_bus_config :: "u32 \<Rightarrow> CanbusConfig" where
  "demo_bus_config bitrate = \<lparr>cc_canbus_dev = 0, cc_type = CLASSICAL_CAN, cc_bitrate = bitrate, cc_data_bitrate = 0, cc_extra_modes = 0\<rparr>"

definition demo_bus :: "u32 \<Rightarrow> Canbus" where
  "demo_bus bitrate = snd (Bus_DoInitialize (demo_driver 6) True (Canbus_new (demo_bus_config bitrate)))"

lemma sum_list_abs: "0 \<le> sum_list (map (\<lambda>(_, i, _). \<bar>i\<bar>) fs)" for fs :: "hw_filter list"
  by (induction fs) auto

lemma demo_number_fresh: "(d, i, f) \<in> set fs \<Longrightarrow> i < demo_add_filter fs d' g" for fs :: "hw_filter list"
proof (induction fs)
  case (Cons x fs)
  then show ?case using sum_list_abs [of fs] by (cases x) (auto simp: demo_add_filter_def)
qed simp

lemma demo_driver_ok: "driver_ok (demo_driver c)"
proof -
  have "(d, demo_add_filter fs d f, g) \<notin> set fs" for fs d f g using demo_number_fresh [of d "demo_add_filter fs d f" g fs d f] by auto
  then show ?thesis by (simp add: driver_ok_def demo_driver_def)
qed

lemma demo_bus_reachable: "bus_reachable (demo_bus b)"
  unfolding demo_bus_def by (rule bus_reachable.step [OF bus_reachable.new bus_step.initialize [OF demo_driver_ok]])

lemma demo_bus_500: "cb_is_initialized (demo_bus 500000)" "cb_bitrate_detected (demo_bus 500000)" "cc_type (cb_config (demo_bus 500000)) = CLASSICAL_CAN"
  "cb_outbox (demo_bus 500000) = [HwSetMode 0, HwStart 0 500000]"
  by code_simp+

lemma demo_bus_auto: "cb_auto_detect_running (demo_bus 0)" "\<not> cb_bitrate_detected (demo_bus 0)"
  by code_simp+

theorem registry_refines_witness:
  "let f = CanFilter_exact (Standard 0x123); s = demo_bus 500000; (c, s') = RegisterFrameReceivedHandler (demo_driver 6) f (Some 1) s
   in c = 1 \<and> registrations s' = insert (1, Normalized f) (registrations s)"
proof -
  let ?f = "CanFilter_exact (Standard 0x123)" and ?s = "demo_bus 500000"
  obtain c s' where o: "RegisterFrameReceivedHandler (demo_driver 6) ?f (Some 1) ?s = (c, s')" by fastforce
  obtain b s'' where o': "RemoveFrameReceivedHandler 1 ?s = (b, s'')" by fastforce
  have "fst (RegisterFrameReceivedHandler (demo_driver 6) ?f (Some 1) ?s) = 1" by code_simp
  moreover have "CanFilter_IsValid ?f" by code_simp
  ultimately show ?thesis
    using registry_refines [OF demo_bus_reachable demo_driver_ok demo_bus_500(1) _ o o'] o by simp
qed

theorem filters_never_overlap_witness:
  "let s = snd (RegisterFrameReceivedHandler (demo_driver 6) (CanFilter_exact (Standard 0x123)) (Some 1) (demo_bus 500000))
   in \<exists>d i f h. cb_hw_filters s = [(d, i, f)] \<and> (h, f) \<in> registrations s"
proof -
  define s where "s = snd (RegisterFrameReceivedHandler (demo_driver 6) (CanFilter_exact (Standard 0x123)) (Some 1) (demo_bus 500000))"
  have r: "bus_reachable s" unfolding s_def by (rule bus_reachable.step [OF demo_bus_reachable bus_step.register [OF demo_driver_ok]])
  have "length (cb_hw_filters s) = 1" unfolding s_def by code_simp
  then obtain d i f where hw: "cb_hw_filters s = [(d, i, f)]" by (auto simp: length_Suc_conv)
  with filters_never_overlap [OF r] have "\<exists>h. (h, f) \<in> registrations s" by simp
  with hw show ?thesis unfolding Let_def s_def by blast
qed

theorem dispatch_exact_witness:
  "\<exists>hs frame. frame_id frame = 0x123 \<and> handler_calls (DispatchFrame (run_acts (demo_driver 6) (\<lambda>_. [])) frame (demo_bus 500000)) =
     handler_calls (demo_bus 500000) @ map (\<lambda>h. (h, frame)) hs \<and> set hs = wanted_by frame (demo_bus 500000)"
proof -
  let ?frame = "\<lparr>frame_id = 0x123, frame_is_extended = False, frame_is_transmit = False, frame_is_can_fd = False,
     frame_is_bitrate_switch = False, frame_is_remote_request = False, frame_data = [1]\<rparr>"
  have "CanId_IsValid \<lparr>can_id = frame_id ?frame, is_extended = frame_is_extended ?frame\<rparr>" by code_simp
  from dispatch_exact [OF demo_bus_reachable [of 500000] demo_driver_ok [of 6] this, of "\<lambda>_. []"]
  have "\<exists>hs. handler_calls (DispatchFrame (run_acts (demo_driver 6) (\<lambda>_. [])) ?frame (demo_bus 500000)) =
      handler_calls (demo_bus 500000) @ map (\<lambda>h. (h, ?frame)) hs \<and> set hs = wanted_by ?frame (demo_bus 500000)" by blast
  moreover have "frame_id ?frame = 0x123" by simp
  ultimately show ?thesis by blast
qed

theorem probing_listens_only_witness:
  "\<exists>found s' es. AutoDetectBitrate (demo_driver 6) (\<lambda>_. True) (demo_bus 0) = (found, s') \<and> cb_outbox s' = cb_outbox (demo_bus 0) @ es"
proof -
  obtain found s' where o: "AutoDetectBitrate (demo_driver 6) (\<lambda>_. True) (demo_bus 0) = (found, s')" by fastforce
  show ?thesis using probing_listens_only [of "demo_driver 6" 6, OF _ _ o] o by (auto simp: demo_driver_def)
qed

theorem probing_can_disturb_witness:
  "\<exists>mode es. cb_outbox (snd (TestBitrate (demo_driver 4) 500000 (demo_bus 0))) = cb_outbox (demo_bus 0) @ HwSetMode mode # HwStart mode 500000 # es \<and>
     mode AND 2 = 0"
  using probing_can_disturb [of "demo_driver 4" 4 500000 "demo_bus 0"] by (simp add: demo_driver_def)

theorem sent_frame_received_witness:
  "\<exists>raw. cb_outbox (snd (SendFrame (demo_driver 6) RUNNING (Standard 0x123) [1, 2, 3] (demo_bus 500000))) =
     [HwSetMode 0, HwStart 0 500000, HwSend raw] \<and> frame_data (frame_of_raw (demo_driver 6) raw) = [1, 2, 3]"
proof -
  have sent: "fst (SendFrame (demo_driver 6) RUNNING (Standard 0x123) [1, 2, 3] (demo_bus 500000)) = 0" by code_simp
  obtain s' where o: "SendFrame (demo_driver 6) RUNNING (Standard 0x123) [1, 2, 3] (demo_bus 500000) = (0, s')"
    using sent by (metis prod.collapse)
  from sent_frame_received [OF o] show ?thesis using o demo_bus_500(4) by (auto simp: demo_driver_def)
qed


end
