(* ===== verification/Smp_Ble.thy ===== *)
theory Smp_Ble
  imports Smp_Can "HOL-Library.Sublist"
begin

text \<open>
  The router between a BLE central and the SMP servers, \<open>src/subsys/smp/ble/smp_ble_router.h/.cpp\<close>.
  Every packet on the link is a route byte followed by an SMP packet, split over writes and
  notifications at any place. Arguments of the model are what is not in the repository or belongs to
  another component: the packets MCUmgr's pool hands out (the answer to the \<open>k\<close>-th allocation), the
  CBOR body of a rejection, the Bluetooth stack's notifications, and the forwarder to other units
  (\<open>i_smp_forwarder.h\<close>), whose state is a part of the router's. What leaves the router is appended to
  an outbox. A null packet that is not discarded would be an error of the code; \<open>rx_ok\<close> shows that
  there is none.
\<close>

section \<open>Data\<close>

record 'f forwarder =
  fw_address :: "'f \<Rightarrow> u8"
  fw_reachable :: "'f \<Rightarrow> u8 \<Rightarrow> bool"
  fw_forward :: "u8 \<Rightarrow> bytes \<Rightarrow> 'f \<Rightarrow> bool \<times> 'f"

record 'f ble_env =
  be_forwarder :: "'f forwarder"
  be_allocates :: "nat \<Rightarrow> bool"
  be_max_packet_size :: nat
  be_rx_timeout_ms :: int
  be_max_first_fragment :: nat
  be_not_found_body :: "nat \<Rightarrow> bytes option"

datatype ble_effect =
    LocalRequest u8 u8 bytes
  | Notified bytes
  | ScheduleTxWork
  | RescheduleTxWork
  | ClearLocalRequests

text \<open>The user data of a queued packet: its route and the generation of its connection.\<close>

record tx_item =
  ti_route :: u8
  ti_generation :: u8
  ti_packet :: bytes

record 'f SmpBleRouter =
  br_forwarder :: "'f option"
  br_is_initialized :: bool
  br_generation :: u8
  br_rx_head :: bytes
  br_rx_packet :: "bytes option"
  br_rx_remaining :: nat
  br_rx_discarding :: bool
  br_rx_last_ms :: int
  br_tx_queue :: "tx_item list"
  br_tx_packet :: "tx_item option"
  br_tx_offset :: nat
  br_rx_dropped :: u32
  br_tx_dropped :: u32
  br_allocations :: nat
  br_outbox :: "ble_effect list"

definition Router_new :: "'f option \<Rightarrow> 'f SmpBleRouter" where
  "Router_new fw = \<lparr>br_forwarder = fw, br_is_initialized = False, br_generation = 0, br_rx_head = [], br_rx_packet = None,
     br_rx_remaining = 0, br_rx_discarding = False, br_rx_last_ms = 0, br_tx_queue = [], br_tx_packet = None,
     br_tx_offset = 0, br_rx_dropped = 0, br_tx_dropped = 0, br_allocations = 0, br_outbox = []\<rparr>"

definition PROTOCOL_VERSION :: u8 where "PROTOCOL_VERSION = 1"
definition LOCAL_ROUTE :: u8 where "LOCAL_ROUTE = 0"
definition RX_HEAD_SIZE :: nat where "RX_HEAD_SIZE = 1 + SMP_HEADER_SIZE"
definition BLE_TX_RETRY_DELAY_MS :: nat where "BLE_TX_RETRY_DELAY_MS = 10"

definition br_put :: "ble_effect \<Rightarrow> 'f SmpBleRouter \<Rightarrow> 'f SmpBleRouter" where
  "br_put e s = s\<lparr>br_outbox := br_outbox s @ [e]\<rparr>"

definition rx_drop :: "'f SmpBleRouter \<Rightarrow> 'f SmpBleRouter" where
  "rx_drop s = s\<lparr>br_rx_dropped := br_rx_dropped s + 1\<rparr>"

text \<open>\<open>registered\<close>: whether MCUmgr accepts the transport.\<close>

definition Router_Initialize :: "bool \<Rightarrow> 'f SmpBleRouter \<Rightarrow> bool \<times> 'f SmpBleRouter" where
  "Router_Initialize registered s =
     (if br_is_initialized s then (True, s)
      else if \<not> registered then (False, s)
      else (True, s\<lparr>br_is_initialized := True\<rparr>))"

section \<open>Routing of requests\<close>

definition EnqueueTx :: "u8 \<Rightarrow> u8 \<Rightarrow> bytes \<Rightarrow> 'f SmpBleRouter \<Rightarrow> 'f SmpBleRouter" where
  "EnqueueTx route generation packet s =
     br_put ScheduleTxWork (s\<lparr>br_tx_queue := br_tx_queue s @ [\<lparr>ti_route = route, ti_generation = generation, ti_packet = packet\<rparr>]\<rparr>)"

text \<open>The room for the body is what the packet's buffer leaves after the header.\<close>

definition Reject :: "'f ble_env \<Rightarrow> u8 \<Rightarrow> bytes \<Rightarrow> 'f SmpBleRouter \<Rightarrow> 'f SmpBleRouter" where
  "Reject env route packet s =
     (case SmpHeader_Parse packet of
        None \<Rightarrow> rx_drop s
      | Some parsed \<Rightarrow>
          let header = parsed\<lparr>sh_operation := if sh_operation parsed = OP_READ then OP_READ_RESPONSE else OP_WRITE_RESPONSE,
                sh_flags := 0\<rparr>
          in case be_not_found_body env (be_max_packet_size env - SMP_HEADER_SIZE) of
               None \<Rightarrow> rx_drop s
             | Some body \<Rightarrow>
                 EnqueueTx route (br_generation s) (SmpHeader_Encode (header\<lparr>sh_length := of_nat (length body)\<rparr>) @ body) s)"

definition own_address :: "'f ble_env \<Rightarrow> 'f SmpBleRouter \<Rightarrow> u8" where
  "own_address env s = (case br_forwarder s of None \<Rightarrow> 0 | Some f \<Rightarrow> fw_address (be_forwarder env) f)"

definition can_reach :: "'f ble_env \<Rightarrow> u8 \<Rightarrow> 'f SmpBleRouter \<Rightarrow> bool" where
  "can_reach env route s \<longleftrightarrow> (case br_forwarder s of None \<Rightarrow> False | Some f \<Rightarrow> fw_reachable (be_forwarder env) f route)"

definition forward_packet :: "'f ble_env \<Rightarrow> u8 \<Rightarrow> bytes \<Rightarrow> 'f SmpBleRouter \<Rightarrow> 'f SmpBleRouter" where
  "forward_packet env route packet s =
     (case br_forwarder s of
        None \<Rightarrow> s
      | Some f \<Rightarrow>
          (case fw_forward (be_forwarder env) route packet f of
             (True, f') \<Rightarrow> s\<lparr>br_forwarder := Some f'\<rparr>
           | (False, f') \<Rightarrow> rx_drop (s\<lparr>br_forwarder := Some f'\<rparr>)))"

definition Router_Dispatch :: "'f ble_env \<Rightarrow> u8 \<Rightarrow> bytes \<Rightarrow> 'f SmpBleRouter \<Rightarrow> 'f SmpBleRouter" where
  "Router_Dispatch env route packet s =
     (if route = LOCAL_ROUTE \<or> route = own_address env s
      then if \<not> br_is_initialized s then rx_drop s
           else br_put (LocalRequest route (br_generation s) packet) s
      else if can_reach env route s then forward_packet env route packet s
      else Reject env route packet s)"

section \<open>Reception\<close>

definition ResetRx :: "'f SmpBleRouter \<Rightarrow> 'f SmpBleRouter" where
  "ResetRx s = s\<lparr>br_rx_head := [], br_rx_packet := None, br_rx_remaining := 0, br_rx_discarding := False\<rparr>"

definition OnHeader :: "'f ble_env \<Rightarrow> 'f SmpBleRouter \<Rightarrow> 'f SmpBleRouter" where
  "OnHeader env s =
     (let s1 = s\<lparr>br_rx_discarding := True\<rparr>
      in case SmpHeader_Parse (drop 1 (br_rx_head s1)) of
           None \<Rightarrow> rx_drop (s1\<lparr>br_rx_remaining := 0\<rparr>)
         | Some header \<Rightarrow>
             let s2 = s1\<lparr>br_rx_remaining := unat (sh_length header)\<rparr>
             in if \<not> IsRequest header \<or> GetPacketSize header > be_max_packet_size env then rx_drop s2
                else let s3 = s2\<lparr>br_allocations := br_allocations s2 + 1\<rparr>
                     in if \<not> be_allocates env (br_allocations s2) then rx_drop s3
                        else s3\<lparr>br_rx_packet := Some (drop 1 (br_rx_head s3)), br_rx_discarding := False\<rparr>)"

text \<open>The end of the loop's body: a complete packet is handed on.\<close>

definition finish_packet :: "'f ble_env \<Rightarrow> 'f SmpBleRouter \<Rightarrow> 'f SmpBleRouter" where
  "finish_packet env s =
     (if br_rx_remaining s \<noteq> 0 then s
      else let s1 = ResetRx s
           in if br_rx_discarding s then s1
              else case br_rx_packet s of None \<Rightarrow> s1 | Some packet \<Rightarrow> Router_Dispatch env (hd (br_rx_head s)) packet s1)"

definition add_to_packet :: "bytes \<Rightarrow> 'f SmpBleRouter \<Rightarrow> 'f SmpBleRouter" where
  "add_to_packet d s =
     (if br_rx_discarding s then s else s\<lparr>br_rx_packet := map_option (\<lambda>p. p @ d) (br_rx_packet s)\<rparr>)
       \<lparr>br_rx_remaining := br_rx_remaining s - length d\<rparr>"

function rx_loop :: "'f ble_env \<Rightarrow> bytes \<Rightarrow> 'f SmpBleRouter \<Rightarrow> 'f SmpBleRouter" where
  "rx_loop env d s =
     (if d = [] then s
      else if length (br_rx_head s) < RX_HEAD_SIZE
      then let n = min (RX_HEAD_SIZE - length (br_rx_head s)) (length d);
               s1 = s\<lparr>br_rx_head := br_rx_head s @ take n d\<rparr>
           in if length (br_rx_head s1) < RX_HEAD_SIZE then s1
              else rx_loop env (drop n d) (finish_packet env (OnHeader env s1))
      else let n = min (br_rx_remaining s) (length d)
           in rx_loop env (drop n d) (finish_packet env (add_to_packet (take n d) s)))"
  by pat_completeness auto

lemma Router_Dispatch_rx [simp]:
  "br_rx_head (Router_Dispatch env r p s) = br_rx_head s" "br_rx_packet (Router_Dispatch env r p s) = br_rx_packet s"
  "br_rx_remaining (Router_Dispatch env r p s) = br_rx_remaining s"
  "br_rx_discarding (Router_Dispatch env r p s) = br_rx_discarding s"
  by (simp_all add: Router_Dispatch_def Reject_def forward_packet_def EnqueueTx_def rx_drop_def br_put_def Let_def
      split: option.splits prod.splits bool.splits)

lemma finish_packet_done:
  assumes "br_rx_remaining s = 0"
  shows "br_rx_head (finish_packet env s) = []" "br_rx_packet (finish_packet env s) = None"
    "br_rx_remaining (finish_packet env s) = 0" "\<not> br_rx_discarding (finish_packet env s)"
  using assms by (simp_all add: finish_packet_def ResetRx_def Let_def split: option.splits)

termination rx_loop
proof (relation "measures [\<lambda>(_, d, _). length d, \<lambda>(_, _, s). if length (br_rx_head s) < RX_HEAD_SIZE then 0 else 1]", goal_cases)
  case (3 env d s n)
  show ?case
  proof (cases "n = 0")
    case True
    with 3 have "br_rx_remaining (add_to_packet (take n d) s) = 0" by (auto simp: add_to_packet_def min_def split: if_splits)
    with True 3 show ?thesis by (simp add: finish_packet_done(1) RX_HEAD_SIZE_def)
  qed (use 3 in simp)
qed simp_all

declare rx_loop.simps [simp del]

lemma rx_loop_Nil: "rx_loop env [] s = s"
  by (subst rx_loop.simps) simp

lemma rx_loop_head:
  assumes "d \<noteq> []" and "length (br_rx_head s) < RX_HEAD_SIZE" and n: "n = min (RX_HEAD_SIZE - length (br_rx_head s)) (length d)"
    and s1: "s1 = s\<lparr>br_rx_head := br_rx_head s @ take n d\<rparr>"
  shows "rx_loop env d s =
    (if length (br_rx_head s1) < RX_HEAD_SIZE then s1 else rx_loop env (drop n d) (finish_packet env (OnHeader env s1)))"
  unfolding s1 n using assms(1,2) by (subst rx_loop.simps) (simp only: if_False if_True Let_def)

lemma rx_loop_body:
  assumes "d \<noteq> []" and "\<not> length (br_rx_head s) < RX_HEAD_SIZE" and n: "n = min (br_rx_remaining s) (length d)"
  shows "rx_loop env d s = rx_loop env (drop n d) (finish_packet env (add_to_packet (take n d) s))"
  unfolding n using assms(1,2) by (subst rx_loop.simps) (simp only: if_False if_True Let_def)

definition OnReceive :: "'f ble_env \<Rightarrow> int \<Rightarrow> bytes \<Rightarrow> 'f SmpBleRouter \<Rightarrow> 'f SmpBleRouter" where
  "OnReceive env now_ms d s =
     (let s1 = (if br_rx_head s \<noteq> [] \<and> now_ms - br_rx_last_ms s > be_rx_timeout_ms env then ResetRx (rx_drop s) else s)
      in rx_loop env d (s1\<lparr>br_rx_last_ms := now_ms\<rparr>))"

definition OnDisconnected :: "'f SmpBleRouter \<Rightarrow> 'f SmpBleRouter" where
  "OnDisconnected s =
     (let s1 = (ResetRx s)\<lparr>br_generation := br_generation s + 1\<rparr>;
          s2 = (if br_is_initialized s1 then br_put ClearLocalRequests s1 else s1)
      in br_put RescheduleTxWork s2)"

definition OnNotificationSent :: "'f SmpBleRouter \<Rightarrow> 'f SmpBleRouter" where
  "OnNotificationSent s = br_put RescheduleTxWork s"

section \<open>Responses\<close>

text \<open>A response of another unit (\<open>None\<close>: a null packet) and one of the local server, with its request's user data.\<close>

definition OnResponse :: "u8 \<Rightarrow> bytes option \<Rightarrow> 'f SmpBleRouter \<Rightarrow> 'f SmpBleRouter" where
  "OnResponse source packet s =
     (case packet of None \<Rightarrow> s | Some p \<Rightarrow> if p = [] then s else EnqueueTx source (br_generation s) p s)"

definition Router_Output :: "u8 \<Rightarrow> u8 \<Rightarrow> bytes \<Rightarrow> 'f SmpBleRouter \<Rightarrow> 'f SmpBleRouter" where
  "Router_Output route generation packet s = EnqueueTx route generation packet s"

datatype notify_result = NOTIFY_OK | NOTIFY_NO_MEMORY | NOTIFY_FAILED

text \<open>The packet that is being notified, the next one of the queue when there is none.\<close>

definition next_item :: "'f SmpBleRouter \<Rightarrow> (tx_item \<times> 'f SmpBleRouter) option" where
  "next_item s =
     (case br_tx_packet s of
        Some i \<Rightarrow> Some (i, s)
      | None \<Rightarrow>
          (case br_tx_queue s of
             [] \<Rightarrow> None
           | i # rest \<Rightarrow> Some (i, s\<lparr>br_tx_queue := rest, br_tx_packet := Some i, br_tx_offset := 0\<rparr>)))"

definition next_fragment :: "'f ble_env \<Rightarrow> nat \<Rightarrow> tx_item \<Rightarrow> nat \<Rightarrow> bytes" where
  "next_fragment env max_size i offset =
     (let total = 1 + length (ti_packet i)
      in if offset = 0
         then let size = min (min max_size (be_max_first_fragment env)) total
              in ti_route i # take (size - 1) (ti_packet i)
         else take (min max_size (total - offset)) (drop (offset - 1) (ti_packet i)))"

definition drop_item :: "'f SmpBleRouter \<Rightarrow> 'f SmpBleRouter" where
  "drop_item s = s\<lparr>br_tx_packet := None, br_tx_dropped := br_tx_dropped s + 1\<rparr>"

definition fragment_sent :: "tx_item \<Rightarrow> bytes \<Rightarrow> 'f SmpBleRouter \<Rightarrow> 'f SmpBleRouter" where
  "fragment_sent i fragment s =
     (let s1 = (br_put (Notified fragment) s)\<lparr>br_tx_offset := br_tx_offset s + length fragment\<rparr>
      in if br_tx_offset s1 = 1 + length (ti_packet i) then s1\<lparr>br_tx_packet := None\<rparr> else s1)"

text \<open>
  \<open>ProcessTx\<close>: in its \<open>k\<close>-th round the largest notification is \<open>max_size k\<close> and the answer to a
  notification \<open>notify k\<close>. The result says whether the task is scheduled again after a delay.
\<close>

partial_function (option) ProcessTx_ble ::
  "'f ble_env \<Rightarrow> (nat \<Rightarrow> nat) \<Rightarrow> (nat \<Rightarrow> notify_result) \<Rightarrow> nat \<Rightarrow> 'f SmpBleRouter \<Rightarrow> (bool \<times> 'f SmpBleRouter) option" where
  "ProcessTx_ble env max_size notify k s =
     (case next_item s of
        None \<Rightarrow> Some (False, s)
      | Some (i, s1) \<Rightarrow>
          if ti_generation i \<noteq> br_generation s1 \<or> max_size k = 0 then ProcessTx_ble env max_size notify (k + 1) (drop_item s1)
          else if notify k = NOTIFY_NO_MEMORY then Some (True, s1)
          else if notify k = NOTIFY_FAILED then ProcessTx_ble env max_size notify (k + 1) (drop_item s1)
          else ProcessTx_ble env max_size notify (k + 1) (fragment_sent i (next_fragment env (max_size k) i (br_tx_offset s1)) s1))"

definition DropTx_ble :: "'f SmpBleRouter \<Rightarrow> 'f SmpBleRouter" where
  "DropTx_ble s = s\<lparr>br_tx_packet := None, br_tx_queue := []\<rparr>"

definition GetInfo :: "'f ble_env \<Rightarrow> u8 \<Rightarrow> bytes" where
  "GetInfo env requests_in_flight =
     [PROTOCOL_VERSION, of_nat (be_max_packet_size env), of_nat (be_max_packet_size env div 256), requests_in_flight]"

section \<open>Reception byte by byte\<close>

text \<open>
  A packet that is being received has its route, its SMP header and a part of its body; \<open>rx_ok\<close> holds
  between two writes. The bytes the packet has and those it still needs fit a packet of the pool.
\<close>

definition rx_ok :: "'f ble_env \<Rightarrow> 'f SmpBleRouter \<Rightarrow> bool" where
  "rx_ok env s \<longleftrightarrow> length (br_rx_head s) \<le> RX_HEAD_SIZE \<and>
     (length (br_rx_head s) < RX_HEAD_SIZE \<longrightarrow> br_rx_packet s = None \<and> br_rx_remaining s = 0 \<and> \<not> br_rx_discarding s) \<and>
     (length (br_rx_head s) = RX_HEAD_SIZE \<longrightarrow> 0 < br_rx_remaining s \<and>
       (br_rx_discarding s \<or> (\<exists>p. br_rx_packet s = Some p \<and> length p + br_rx_remaining s \<le> be_max_packet_size env)))"

definition rx_byte :: "'f ble_env \<Rightarrow> u8 \<Rightarrow> 'f SmpBleRouter \<Rightarrow> 'f SmpBleRouter" where
  "rx_byte env b s =
     (if length (br_rx_head s) < SMP_HEADER_SIZE then s\<lparr>br_rx_head := br_rx_head s @ [b]\<rparr>
      else if length (br_rx_head s) = SMP_HEADER_SIZE then finish_packet env (OnHeader env (s\<lparr>br_rx_head := br_rx_head s @ [b]\<rparr>))
      else finish_packet env (add_to_packet [b] s))"

lemma rx_sizes: "RX_HEAD_SIZE = 9" "SMP_HEADER_SIZE = 8"
  by (simp_all add: RX_HEAD_SIZE_def SMP_HEADER_SIZE_def)

lemma head_bytes:
  assumes "length (br_rx_head s) + length d \<le> SMP_HEADER_SIZE"
  shows "fold (rx_byte env) d s = s\<lparr>br_rx_head := br_rx_head s @ d\<rparr>"
  using assms
proof (induction d arbitrary: s)
  case (Cons b d)
  then have "rx_byte env b s = s\<lparr>br_rx_head := br_rx_head s @ [b]\<rparr>" by (simp add: rx_byte_def)
  with Cons show ?case by simp
qed simp

lemma add_to_packet_append: "add_to_packet e (add_to_packet d s) = add_to_packet (d @ e) s"
  by (cases s) (simp add: add_to_packet_def option.map_comp comp_def)

lemma add_to_packet_simps [simp]:
  "br_rx_head (add_to_packet d s) = br_rx_head s" "br_rx_remaining (add_to_packet d s) = br_rx_remaining s - length d"
  "br_rx_discarding (add_to_packet d s) = br_rx_discarding s" "add_to_packet [] s = s"
  by (cases s; simp add: add_to_packet_def option.map_ident)+

lemma finish_unfinished: "0 < br_rx_remaining s \<Longrightarrow> finish_packet env s = s"
  by (simp add: finish_packet_def)

lemma body_bytes:
  assumes "length (br_rx_head s) = RX_HEAD_SIZE" and "d \<noteq> []" and "length d \<le> br_rx_remaining s"
  shows "fold (rx_byte env) d s = finish_packet env (add_to_packet d s)"
  using assms
proof (induction d arbitrary: s)
  case (Cons b d)
  have first: "rx_byte env b s = finish_packet env (add_to_packet [b] s)"
    using Cons.prems(1) by (simp add: rx_byte_def rx_sizes)
  show ?case
  proof (cases "d = []")
    case False
    with Cons.prems have "rx_byte env b s = add_to_packet [b] s"
      using first finish_unfinished [of "add_to_packet [b] s"] by (cases d) auto
    then show ?thesis using Cons.IH [of "add_to_packet [b] s"] Cons.prems False by (simp add: add_to_packet_append)
  qed (simp add: first)
qed simp

lemma head_complete:
  assumes "length (br_rx_head s) + length d = RX_HEAD_SIZE" and "d \<noteq> []"
  shows "fold (rx_byte env) d s = finish_packet env (OnHeader env (s\<lparr>br_rx_head := br_rx_head s @ d\<rparr>))"
proof -
  have d: "d = butlast d @ [last d]" using assms(2) by simp
  then have "length d = Suc (length (butlast d))" by (metis length_append_singleton)
  then have "fold (rx_byte env) (butlast d) s = s\<lparr>br_rx_head := br_rx_head s @ butlast d\<rparr>"
    "length (br_rx_head s @ butlast d) = SMP_HEADER_SIZE"
    using head_bytes [of s "butlast d" env] assms(1) by (simp_all add: rx_sizes)
  then have "fold (rx_byte env) (butlast d @ [last d]) s =
      finish_packet env (OnHeader env (s\<lparr>br_rx_head := (br_rx_head s @ butlast d) @ [last d]\<rparr>))"
    by (simp add: rx_byte_def)
  then show ?thesis using d by simp
qed

lemma Parse_head: "length d = RX_HEAD_SIZE \<Longrightarrow> SmpHeader_Parse (drop 1 d) \<noteq> None"
  by (simp add: SmpHeader_Parse_def rx_sizes)

lemma OnHeader_head [simp]: "br_rx_head (OnHeader env s) = br_rx_head s"
  by (simp add: OnHeader_def rx_drop_def Let_def split: option.splits)

lemma finish_ok:
  assumes "length (br_rx_head s) = RX_HEAD_SIZE"
    and "br_rx_discarding s \<or> (\<exists>p. br_rx_packet s = Some p \<and> length p + br_rx_remaining s \<le> be_max_packet_size env)"
  shows "rx_ok env (finish_packet env s)"
proof (cases "br_rx_remaining s = 0")
  case True
  then show ?thesis using finish_packet_done [OF True, of env] by (simp add: rx_ok_def rx_sizes)
next
  case False
  then show ?thesis using assms by (simp add: finish_unfinished rx_ok_def)
qed

lemma OnHeader_ok:
  assumes "length (br_rx_head s) = RX_HEAD_SIZE"
  shows "br_rx_discarding (OnHeader env s) \<or>
    (\<exists>p. br_rx_packet (OnHeader env s) = Some p \<and> length p + br_rx_remaining (OnHeader env s) \<le> be_max_packet_size env)"
  using assms by (auto simp: OnHeader_def rx_drop_def Let_def GetPacketSize_def rx_sizes split: option.splits)

lemma add_ok:
  assumes "rx_ok env s" and "length (br_rx_head s) = RX_HEAD_SIZE" and "length d \<le> br_rx_remaining s"
  shows "rx_ok env (finish_packet env (add_to_packet d s))"
  using assms by (intro finish_ok) (auto simp: rx_ok_def add_to_packet_def)

text \<open>The loop copies ranges; it does what receiving the bytes one by one does.\<close>

lemma rx_loop_bytes: "rx_ok env s \<Longrightarrow> rx_loop env d s = fold (rx_byte env) d s \<and> rx_ok env (rx_loop env d s)"
proof (induction env d s rule: rx_loop.induct)
  case (1 env d s)
  show ?case
  proof (cases "d = []")
    case d: False
    show ?thesis
    proof (cases "length (br_rx_head s) < RX_HEAD_SIZE")
      case head: True
      define n where "n = min (RX_HEAD_SIZE - length (br_rx_head s)) (length d)"
      define s1 where "s1 = s\<lparr>br_rx_head := br_rx_head s @ take n d\<rparr>"
      show ?thesis
      proof (cases "length (br_rx_head s1) < RX_HEAD_SIZE")
        case True
        then have "take n d = d" "length (br_rx_head s) + length d \<le> SMP_HEADER_SIZE"
          by (auto simp: s1_def n_def rx_sizes min_def split: if_splits)
        with True rx_loop_head [OF d head n_def s1_def, of env] show ?thesis
          using head_bytes [of s d env] 1(3) head by (simp add: rx_ok_def s1_def)
      next
        case False
        have full: "length (br_rx_head s) + length (take n d) = RX_HEAD_SIZE" "take n d \<noteq> []" "length (br_rx_head s1) = RX_HEAD_SIZE"
          using False head d by (auto simp: s1_def n_def min_def split: if_splits)
        have "fold (rx_byte env) (take n d) s = finish_packet env (OnHeader env s1)"
          using head_complete [OF full(1,2)] by (simp add: s1_def)
        then have "fold (rx_byte env) d s = fold (rx_byte env) (drop n d) (finish_packet env (OnHeader env s1))"
          by (metis append_take_drop_id comp_apply fold_append)
        moreover have "rx_ok env (finish_packet env (OnHeader env s1))"
          using full(3) OnHeader_ok [of s1 env] by (intro finish_ok) simp_all
        ultimately show ?thesis
          using 1(1) [OF d head n_def s1_def False] rx_loop_head [OF d head n_def s1_def, of env] False by metis
      qed
    next
      case head: False
      define n where "n = min (br_rx_remaining s) (length d)"
      have full: "length (br_rx_head s) = RX_HEAD_SIZE" "0 < br_rx_remaining s" using 1(3) head by (auto simp: rx_ok_def)
      then have n: "take n d \<noteq> []" "length (take n d) \<le> br_rx_remaining s" using d by (auto simp: n_def)
      have "fold (rx_byte env) d s = fold (rx_byte env) (drop n d) (finish_packet env (add_to_packet (take n d) s))"
        using body_bytes [OF full(1) n] by (metis append_take_drop_id comp_apply fold_append)
      then show ?thesis
        using 1(2) [OF d head n_def add_ok [OF 1(3) full(1) n(2)]] rx_loop_body [OF d head n_def, of env] by metis
    qed
  qed (simp add: 1(3) rx_loop_Nil)
qed

section \<open>Streams of packets\<close>

text \<open>What the router does with a whole packet of a central.\<close>

definition handle_packet :: "'f ble_env \<Rightarrow> u8 \<Rightarrow> bytes \<Rightarrow> 'f SmpBleRouter \<Rightarrow> 'f SmpBleRouter" where
  "handle_packet env route packet s =
     (case SmpHeader_Parse packet of
        None \<Rightarrow> s
      | Some header \<Rightarrow>
          if \<not> IsRequest header \<or> length packet > be_max_packet_size env then rx_drop s
          else let s1 = s\<lparr>br_allocations := br_allocations s + 1\<rparr>
               in if \<not> be_allocates env (br_allocations s) then rx_drop s1
                  else Router_Dispatch env route packet s1)"

definition link_bytes :: "(u8 \<times> bytes) list \<Rightarrow> bytes" where
  "link_bytes ps = concat (map (\<lambda>(route, packet). route # packet) ps)"

definition idle_rx :: "'f SmpBleRouter \<Rightarrow> bool" where
  "idle_rx s \<longleftrightarrow> br_rx_head s = [] \<and> br_rx_packet s = None \<and> br_rx_remaining s = 0 \<and> \<not> br_rx_discarding s"

lemma ResetRx_idle: "idle_rx s \<Longrightarrow> ResetRx s = s"
  by (cases s) (simp add: idle_rx_def ResetRx_def)

lemma handle_packet_idle: "idle_rx s \<Longrightarrow> idle_rx (handle_packet env r p s)"
  by (simp add: idle_rx_def handle_packet_def rx_drop_def Let_def split: option.split)

lemma packet_bytes:
  assumes idle: "idle_rx s" and p: "smp_packet p"
  shows "fold (rx_byte env) (r # p) s = handle_packet env r p s"
proof -
  obtain h where h: "SmpHeader_Parse p = Some h" "GetPacketSize h = length p" using p by (auto simp: smp_packet_def)
  have len: "8 \<le> length p" by (rule smp_packet_length [OF p])
  define q where "q = take 8 p"
  have hq: "SmpHeader_Parse q = Some h" using Parse_prefix [of q p] h(1) len by (simp add: q_def)
  have body: "length (drop 8 p) = unat (sh_length h)" using h(2) by (simp add: GetPacketSize_def rx_sizes)
  let ?s = "OnHeader env (s\<lparr>br_rx_head := r # q\<rparr>)"
  have head: "fold (rx_byte env) (r # q) s = finish_packet env ?s"
    using idle len head_complete [of s "r # q" env] by (simp add: idle_rx_def rx_sizes q_def)
  have rem: "br_rx_remaining ?s = unat (sh_length h)" "length (br_rx_head ?s) = RX_HEAD_SIZE"
    using hq len by (simp_all add: OnHeader_def rx_drop_def Let_def rx_sizes q_def)
  have "fold (rx_byte env) (drop 8 p) (finish_packet env ?s) = finish_packet env (add_to_packet (drop 8 p) ?s)"
  proof (cases "drop 8 p = []")
    case False
    then have "0 < br_rx_remaining ?s" using rem body by (cases "unat (sh_length h)") auto
    then show ?thesis using finish_unfinished [of ?s env] body_bytes [OF rem(2) False, of env] rem(1) body by simp
  qed simp
  then have "fold (rx_byte env) ((r # q) @ drop 8 p) s = finish_packet env (add_to_packet (drop 8 p) ?s)"
    using head by (simp only: fold_append comp_apply)
  moreover have "(r # q) @ drop 8 p = r # p" by (simp add: q_def)
  moreover have "finish_packet env (add_to_packet (drop 8 p) ?s) = handle_packet env r p s"
    using idle rem(1) body h hq
    by (cases s) (auto simp: finish_packet_def add_to_packet_def handle_packet_def OnHeader_def ResetRx_def rx_drop_def
        idle_rx_def Let_def q_def)
  ultimately show ?thesis by (simp only:)
qed

lemma stream_bytes:
  assumes "idle_rx s" and "\<forall>(r, p)\<in>set ps. smp_packet p"
  shows "fold (rx_byte env) (link_bytes ps) s = fold (\<lambda>(r, p). handle_packet env r p) ps s"
  using assms
proof (induction ps arbitrary: s)
  case (Cons x ps)
  obtain r p where x: "x = (r, p)" by (cases x)
  have "fold (rx_byte env) (link_bytes (x # ps)) s = fold (rx_byte env) (link_bytes ps) (fold (rx_byte env) (r # p) s)"
    by (simp add: link_bytes_def x)
  with Cons packet_bytes [of s p env r] handle_packet_idle [of s env r p] show ?case by (simp add: x)
qed (simp add: link_bytes_def)

text \<open>Nothing but the timeout looks at the time of the last write.\<close>

lemma stamp_Dispatch: "Router_Dispatch env r p (s\<lparr>br_rx_last_ms := t\<rparr>) = (Router_Dispatch env r p s)\<lparr>br_rx_last_ms := t\<rparr>"
  by (simp add: Router_Dispatch_def Reject_def forward_packet_def EnqueueTx_def rx_drop_def br_put_def own_address_def can_reach_def Let_def
      split: option.splits prod.splits bool.splits)

lemma stamp_finish: "finish_packet env (s\<lparr>br_rx_last_ms := t\<rparr>) = (finish_packet env s)\<lparr>br_rx_last_ms := t\<rparr>"
proof -
  have "ResetRx (s\<lparr>br_rx_last_ms := t\<rparr>) = (ResetRx s)\<lparr>br_rx_last_ms := t\<rparr>" by (simp add: ResetRx_def)
  then show ?thesis by (simp add: finish_packet_def Let_def stamp_Dispatch split: option.splits)
qed

lemma stamp_OnHeader: "OnHeader env (s\<lparr>br_rx_last_ms := t\<rparr>) = (OnHeader env s)\<lparr>br_rx_last_ms := t\<rparr>"
  by (simp add: OnHeader_def rx_drop_def Let_def split: option.splits)

lemma stamp_byte: "rx_byte env b (s\<lparr>br_rx_last_ms := t\<rparr>) = (rx_byte env b s)\<lparr>br_rx_last_ms := t\<rparr>"
proof -
  have "s\<lparr>br_rx_last_ms := t, br_rx_head := x\<rparr> = s\<lparr>br_rx_head := x\<rparr>\<lparr>br_rx_last_ms := t\<rparr>" for x by simp
  moreover have "add_to_packet [b] (s\<lparr>br_rx_last_ms := t\<rparr>) = (add_to_packet [b] s)\<lparr>br_rx_last_ms := t\<rparr>"
    by (simp add: add_to_packet_def)
  ultimately show ?thesis by (simp only: rx_byte_def stamp_finish stamp_OnHeader SmpBleRouter.simps split: if_split) simp
qed

lemma stamp_bytes: "fold (rx_byte env) d (s\<lparr>br_rx_last_ms := t\<rparr>) = (fold (rx_byte env) d s)\<lparr>br_rx_last_ms := t\<rparr>"
  by (induction d arbitrary: s) (simp_all add: stamp_byte)

text \<open>Writes that follow each other in time.\<close>

primrec writes_timely :: "int \<Rightarrow> int \<Rightarrow> (int \<times> bytes) list \<Rightarrow> bool" where
  "writes_timely timeout since [] \<longleftrightarrow> True"
| "writes_timely timeout since (w # ws) \<longleftrightarrow> fst w - since \<le> timeout \<and> writes_timely timeout (fst w) ws"

definition receive_writes :: "'f ble_env \<Rightarrow> (int \<times> bytes) list \<Rightarrow> 'f SmpBleRouter \<Rightarrow> 'f SmpBleRouter" where
  "receive_writes env ws s = fold (\<lambda>(t, d). OnReceive env t d) ws s"

lemma write_bytes:
  assumes "rx_ok env s" and "br_rx_head s = [] \<or> t - br_rx_last_ms s \<le> be_rx_timeout_ms env"
  shows "OnReceive env t d s = (fold (rx_byte env) d s)\<lparr>br_rx_last_ms := t\<rparr>" "rx_ok env (OnReceive env t d s)"
    "br_rx_last_ms (OnReceive env t d s) = t"
proof -
  have ok: "rx_ok env (s\<lparr>br_rx_last_ms := t\<rparr>)" using assms(1) by (simp add: rx_ok_def)
  have eq: "OnReceive env t d s = rx_loop env d (s\<lparr>br_rx_last_ms := t\<rparr>)"
    using assms(2) by (auto simp: OnReceive_def Let_def)
  show one: "OnReceive env t d s = (fold (rx_byte env) d s)\<lparr>br_rx_last_ms := t\<rparr>"
    using rx_loop_bytes [OF ok, of d] eq stamp_bytes [of env d t s] by simp
  show "rx_ok env (OnReceive env t d s)" unfolding eq by (rule rx_loop_bytes [OF ok, THEN conjunct2])
  show "br_rx_last_ms (OnReceive env t d s) = t" using one by simp
qed

lemma writes_bytes:
  assumes "rx_ok env s" and "writes_timely (be_rx_timeout_ms env) (br_rx_last_ms s) ws"
  shows "receive_writes env ws s = (fold (rx_byte env) (concat (map snd ws)) s)\<lparr>br_rx_last_ms := last (br_rx_last_ms s # map fst ws)\<rparr> \<and>
    rx_ok env (receive_writes env ws s)"
  using assms
proof (induction ws arbitrary: s)
  case (Cons w ws)
  obtain t d where w: "w = (t, d)" by (cases w)
  define u where "u = OnReceive env t d s"
  have u: "u = (fold (rx_byte env) d s)\<lparr>br_rx_last_ms := t\<rparr>" "rx_ok env u" "br_rx_last_ms u = t"
    using write_bytes [OF Cons.prems(1), of t d] Cons.prems(2) by (simp_all add: u_def w)
  have "writes_timely (be_rx_timeout_ms env) (br_rx_last_ms u) ws" using Cons.prems(2) u(3) by (simp add: w)
  note IH = Cons.IH [OF u(2) this]
  have "receive_writes env (w # ws) s = receive_writes env ws u" by (simp add: receive_writes_def u_def w)
  moreover have "fold (rx_byte env) (concat (map snd ws)) u = (fold (rx_byte env) (d @ concat (map snd ws)) s)\<lparr>br_rx_last_ms := t\<rparr>"
    by (simp add: u(1) stamp_bytes)
  ultimately have "receive_writes env (w # ws) s =
      (fold (rx_byte env) (concat (map snd (w # ws))) s)\<lparr>br_rx_last_ms := last (br_rx_last_ms s # map fst (w # ws))\<rparr>"
    using IH u(3) by (simp add: w)
  moreover have "rx_ok env (receive_writes env (w # ws) s)"
    using conjunct2 [OF IH] by (simp add: receive_writes_def u_def w)
  ultimately show ?case by blast
qed (simp add: receive_writes_def)

section \<open>Notification of responses\<close>

definition item_bytes :: "tx_item \<Rightarrow> bytes" where
  "item_bytes i = ti_route i # ti_packet i"

text \<open>The bytes of responses to the current connection that are still to be notified.\<close>

definition pending_bytes :: "'f SmpBleRouter \<Rightarrow> bytes" where
  "pending_bytes s =
     (case br_tx_packet s of None \<Rightarrow> [] | Some i \<Rightarrow> if ti_generation i = br_generation s then drop (br_tx_offset s) (item_bytes i) else []) @
     concat (map item_bytes (filter (\<lambda>i. ti_generation i = br_generation s) (br_tx_queue s)))"

definition notifications :: "'f SmpBleRouter \<Rightarrow> bytes list" where
  "notifications s = concat (map (\<lambda>e. case e of Notified d \<Rightarrow> [d] | _ \<Rightarrow> []) (br_outbox s))"

definition tx_ok :: "'f SmpBleRouter \<Rightarrow> bool" where
  "tx_ok s \<longleftrightarrow> (\<forall>i. br_tx_packet s = Some i \<longrightarrow> br_tx_offset s < length (item_bytes i))"

definition unsent :: "'f SmpBleRouter \<Rightarrow> nat" where
  "unsent s = (case br_tx_packet s of None \<Rightarrow> 0 | Some i \<Rightarrow> length (item_bytes i) - br_tx_offset s) +
     sum_list (map (length \<circ> item_bytes) (br_tx_queue s))"

lemma next_item_None: "next_item s = None \<longleftrightarrow> br_tx_packet s = None \<and> br_tx_queue s = []"
  by (simp add: next_item_def split: option.splits list.splits)

lemma next_item_Some:
  assumes "next_item s = Some (i, s1)" and "tx_ok s"
  shows "br_tx_packet s1 = Some i" "tx_ok s1" "unsent s1 = unsent s" "pending_bytes s1 = pending_bytes s"
    "notifications s1 = notifications s" "br_generation s1 = br_generation s"
    "rx_ok env s1 = rx_ok env s" "0 < unsent s1"
  using assms
  by (auto simp: next_item_def tx_ok_def unsent_def pending_bytes_def notifications_def item_bytes_def rx_ok_def split: option.splits list.splits)

lemma fragment_prefix:
  assumes "0 < max_size" and "0 < be_max_first_fragment env" and "offset < length (item_bytes i)"
  shows "next_fragment env max_size i offset = take (length (next_fragment env max_size i offset)) (drop offset (item_bytes i))"
    "0 < length (next_fragment env max_size i offset)" "length (next_fragment env max_size i offset) \<le> max_size"
    "offset + length (next_fragment env max_size i offset) \<le> length (item_bytes i)"
proof -
  consider "offset = 0" | k where "offset = Suc k" by (cases offset) auto
  then have "next_fragment env max_size i offset = take (length (next_fragment env max_size i offset)) (drop offset (item_bytes i)) \<and>
    0 < length (next_fragment env max_size i offset) \<and> length (next_fragment env max_size i offset) \<le> max_size \<and>
    offset + length (next_fragment env max_size i offset) \<le> length (item_bytes i)"
  proof cases
    case 1
    define n where "n = min (min max_size (be_max_first_fragment env)) (1 + length (ti_packet i)) - 1"
    have n: "Suc n \<le> max_size" "n \<le> length (ti_packet i)" using assms(1,2) by (auto simp: n_def)
    have "next_fragment env max_size i offset = ti_route i # take n (ti_packet i)"
      by (simp add: next_fragment_def 1 n_def Let_def)
    with n 1 show ?thesis by (simp add: item_bytes_def)
  next
    case (2 k)
    then show ?thesis using assms(1,3) by (auto simp: next_fragment_def item_bytes_def Let_def)
  qed
  then show "next_fragment env max_size i offset = take (length (next_fragment env max_size i offset)) (drop offset (item_bytes i))"
    "0 < length (next_fragment env max_size i offset)" "length (next_fragment env max_size i offset) \<le> max_size"
    "offset + length (next_fragment env max_size i offset) \<le> length (item_bytes i)" by simp_all
qed

lemma fragment_sent_step:
  assumes "br_tx_packet s = Some i" and "tx_ok s" and "ti_generation i = br_generation s" and "0 < m" and "0 < be_max_first_fragment env"
    and f: "f = next_fragment env m i (br_tx_offset s)" and u: "u = fragment_sent i f s"
  shows "tx_ok u" "unsent u < unsent s" "notifications u = notifications s @ [f]" "f @ pending_bytes u = pending_bytes s" "length f \<le> m"
    "rx_ok env' u = rx_ok env' s" "br_generation u = br_generation s"
proof -
  have off: "br_tx_offset s < length (item_bytes i)" using assms(1,2) by (simp add: tx_ok_def)
  note fp = fragment_prefix [OF assms(4,5) off, folded f]
  have cut: "f @ drop (length f) (drop (br_tx_offset s) (item_bytes i)) = drop (br_tx_offset s) (item_bytes i)"
    using fp(1) by (metis append_take_drop_id)
  show "length f \<le> m" by (rule fp(3))
  have len: "length (item_bytes i) = 1 + length (ti_packet i)" by (simp add: item_bytes_def)
  show "tx_ok u" using assms(1) fp(4) len by (auto simp: u fragment_sent_def tx_ok_def br_put_def Let_def)
  show "unsent u < unsent s"
  proof -
    let ?rest = "sum_list (map (length \<circ> item_bytes) (br_tx_queue s))"
    have "unsent s = length (item_bytes i) - br_tx_offset s + ?rest" using assms(1) by (simp add: unsent_def)
    moreover have "unsent u \<le> length (item_bytes i) - (br_tx_offset s + length f) + ?rest"
      using assms(1) by (simp add: u fragment_sent_def unsent_def br_put_def Let_def)
    ultimately show ?thesis using fp(2) off by linarith
  qed
  show "notifications u = notifications s @ [f]"
    by (simp add: u fragment_sent_def notifications_def br_put_def Let_def)
  show "f @ pending_bytes u = pending_bytes s"
  proof (cases "br_tx_offset s + length f = 1 + length (ti_packet i)")
    case True
    then have "f = drop (br_tx_offset s) (item_bytes i)" using cut len by (simp add: drop_all)
    then show ?thesis using True assms(1,3) by (simp add: u fragment_sent_def pending_bytes_def br_put_def Let_def)
  next
    case False
    then show ?thesis using cut assms(1,3)
      by (simp add: u fragment_sent_def pending_bytes_def br_put_def Let_def add.commute flip: append_assoc)
  qed
  show "rx_ok env' u = rx_ok env' s" "br_generation u = br_generation s"
    by (simp_all add: u fragment_sent_def rx_ok_def br_put_def Let_def)
qed

lemma drop_item_step:
  assumes "br_tx_packet s = Some i" and "tx_ok s"
  shows "tx_ok (drop_item s)" "unsent (drop_item s) < unsent s" "notifications (drop_item s) = notifications s"
    "subseq (pending_bytes (drop_item s)) (pending_bytes s)" "ti_generation i \<noteq> br_generation s \<Longrightarrow> pending_bytes (drop_item s) = pending_bytes s"
    "rx_ok env (drop_item s) = rx_ok env s" "br_generation (drop_item s) = br_generation s"
  using assms by (auto simp: drop_item_def tx_ok_def unsent_def notifications_def pending_bytes_def rx_ok_def)

definition tx_result :: "(nat \<Rightarrow> nat) \<Rightarrow> (nat \<Rightarrow> notify_result) \<Rightarrow> 'f SmpBleRouter \<Rightarrow> bool \<Rightarrow> 'f SmpBleRouter \<Rightarrow> bool" where
  "tx_result max_size notify s again s' \<longleftrightarrow> tx_ok s' \<and> br_generation s' = br_generation s \<and> (\<forall>env. rx_ok env s' = rx_ok env s) \<and>
     (\<not> again \<longrightarrow> br_tx_packet s' = None \<and> br_tx_queue s' = []) \<and>
     (\<exists>fs. notifications s' = notifications s @ fs \<and> subseq (concat fs @ pending_bytes s') (pending_bytes s) \<and>
        (\<forall>f\<in>set fs. \<exists>j. length f \<le> max_size j) \<and>
        ((\<forall>j. max_size j \<noteq> 0 \<and> notify j \<noteq> NOTIFY_FAILED) \<longrightarrow> concat fs @ pending_bytes s' = pending_bytes s))"

lemma tx_result_step:
  assumes "tx_result ms nt u again s'" and "br_generation u = br_generation s" and "\<And>env. rx_ok env u = rx_ok env s"
    and "notifications u = notifications s @ fs" and "subseq (concat fs @ pending_bytes u) (pending_bytes s)"
    and "\<forall>f\<in>set fs. \<exists>j. length f \<le> ms j" and "(\<forall>j. ms j \<noteq> 0 \<and> nt j \<noteq> NOTIFY_FAILED) \<longrightarrow> concat fs @ pending_bytes u = pending_bytes s"
  shows "tx_result ms nt s again s'"
proof -
  from assms(1) obtain gs where gs: "notifications s' = notifications u @ gs" "subseq (concat gs @ pending_bytes s') (pending_bytes u)"
    "\<forall>f\<in>set gs. \<exists>j. length f \<le> ms j"
    "(\<forall>j. ms j \<noteq> 0 \<and> nt j \<noteq> NOTIFY_FAILED) \<longrightarrow> concat gs @ pending_bytes s' = pending_bytes u"
    by (auto simp: tx_result_def)
  have "subseq (concat (fs @ gs) @ pending_bytes s') (pending_bytes s)"
    using subseq_order.order_trans [OF list_emb_append_mono [OF subseq_order.order_refl gs(2)] assms(5)] by simp
  moreover have "(\<forall>j. ms j \<noteq> 0 \<and> nt j \<noteq> NOTIFY_FAILED) \<longrightarrow> concat (fs @ gs) @ pending_bytes s' = pending_bytes s"
    using gs(4) assms(7) by auto
  moreover have "\<forall>f\<in>set (fs @ gs). \<exists>j. length f \<le> ms j" using gs(3) assms(6) by auto
  ultimately have "\<exists>hs. notifications s' = notifications s @ hs \<and> subseq (concat hs @ pending_bytes s') (pending_bytes s) \<and>
     (\<forall>f\<in>set hs. \<exists>j. length f \<le> ms j) \<and>
     ((\<forall>j. ms j \<noteq> 0 \<and> nt j \<noteq> NOTIFY_FAILED) \<longrightarrow> concat hs @ pending_bytes s' = pending_bytes s)"
    using gs(1) assms(4) by (intro exI [of _ "fs @ gs"]) simp
  then show ?thesis using assms(1-3) by (simp add: tx_result_def)
qed

lemma ProcessTx_returns:
  assumes "tx_ok s" and first: "0 < be_max_first_fragment env"
  shows "\<exists>again s'. ProcessTx_ble env ms nt k s = Some (again, s') \<and> tx_result ms nt s again s'"
  using assms(1)
proof (induction "unsent s" arbitrary: s k rule: less_induct)
  case less
  show ?case
  proof (cases "next_item s")
    case None
    then have "ProcessTx_ble env ms nt k s = Some (False, s)" by (subst ProcessTx_ble.simps) simp
    moreover have "tx_result ms nt s False s" using None less.prems by (simp add: tx_result_def next_item_None)
    ultimately show ?thesis by blast
  next
    case (Some x)
    obtain i s1 where x: "x = (i, s1)" by (cases x)
    note n = next_item_Some [OF Some [unfolded x] less.prems]
    have through: "tx_result ms nt s1 again s' \<Longrightarrow> tx_result ms nt s again s'" for again s'
      using n by (intro tx_result_step [of ms nt s1 again s' s "[]"]) simp_all
    have dropped: ?thesis if "ProcessTx_ble env ms nt k s = ProcessTx_ble env ms nt (k + 1) (drop_item s1)"
      "ti_generation i \<noteq> br_generation s1 \<or> ms k = 0 \<or> nt k = NOTIFY_FAILED"
    proof -
      note d = drop_item_step [OF n(1,2)]
      from less.hyps [of "drop_item s1" "k + 1"] d n(3) obtain again s' where
        r: "ProcessTx_ble env ms nt (k + 1) (drop_item s1) = Some (again, s')" "tx_result ms nt (drop_item s1) again s'" by auto
      have kept: "(\<forall>j. ms j \<noteq> 0 \<and> nt j \<noteq> NOTIFY_FAILED) \<longrightarrow> pending_bytes (drop_item s1) = pending_bytes s1"
        using d(5) that(2) by blast
      have "tx_result ms nt s1 again s'" using d(3,4,6,7) kept by (intro tx_result_step [OF r(2), of s1 "[]"]) auto
      with r(1) that(1) through show ?thesis by auto
    qed
    consider "ti_generation i \<noteq> br_generation s1 \<or> ms k = 0" | "ti_generation i = br_generation s1" "ms k \<noteq> 0" "nt k = NOTIFY_NO_MEMORY"
      | "ti_generation i = br_generation s1" "ms k \<noteq> 0" "nt k = NOTIFY_FAILED"
      | "ti_generation i = br_generation s1" "ms k \<noteq> 0" "nt k = NOTIFY_OK" by (cases "nt k") auto
    then show ?thesis
    proof cases
      case 1
      then show ?thesis using Some x by (intro dropped) (subst ProcessTx_ble.simps, auto)
    next
      case 2
      then have "ProcessTx_ble env ms nt k s = Some (True, s1)" using Some x by (subst ProcessTx_ble.simps) simp
      moreover have "tx_result ms nt s1 True s1" using n(2) by (simp add: tx_result_def)
      ultimately show ?thesis using through by blast
    next
      case 3
      then show ?thesis using Some x by (intro dropped) (subst ProcessTx_ble.simps, auto)
    next
      case 4
      define f where "f = next_fragment env (ms k) i (br_tx_offset s1)"
      define u where "u = fragment_sent i f s1"
      have "0 < ms k" using 4 by simp
      note g = fragment_sent_step [OF n(1,2) 4(1) this first f_def u_def]
      from less.hyps [of u "k + 1"] g n(3) obtain again s' where
        r: "ProcessTx_ble env ms nt (k + 1) u = Some (again, s')" "tx_result ms nt u again s'" by auto
      have "subseq (concat [f] @ pending_bytes u) (pending_bytes s1)" using g(4) by simp
      then have "tx_result ms nt s1 again s'" using g by (intro tx_result_step [OF r(2), of s1 "[f]"]) auto
      moreover have "ProcessTx_ble env ms nt k s = ProcessTx_ble env ms nt (k + 1) u"
        using 4 Some x by (subst ProcessTx_ble.simps) (simp add: u_def f_def)
      ultimately show ?thesis using r(1) through by auto
    qed
  qed
qed

section \<open>Reachable states\<close>

definition router_init :: "'f SmpBleRouter \<Rightarrow> bool" where
  "router_init s \<longleftrightarrow> (\<exists>fw. s = Router_new fw)"

inductive router_step :: "'f ble_env \<Rightarrow> 'f SmpBleRouter \<Rightarrow> 'f SmpBleRouter \<Rightarrow> bool" for env :: "'f ble_env" where
  initialize: "router_step env s (snd (Router_Initialize registered s))"
| receive: "router_step env s (OnReceive env now d s)"
| disconnected: "router_step env s (OnDisconnected s)"
| notification_sent: "router_step env s (OnNotificationSent s)"
| response: "router_step env s (OnResponse source packet s)"
| local_response: "router_step env s (Router_Output route generation packet s)"
| process: "ProcessTx_ble env max_size notify k s = Some (again, s') \<Longrightarrow> router_step env s s'"
| forwarder_moves: "router_step env s (s\<lparr>br_forwarder := fw\<rparr>)"

definition router_wf :: "'f ble_env \<Rightarrow> 'f SmpBleRouter \<Rightarrow> bool" where
  "router_wf env s \<longleftrightarrow> rx_ok env s \<and> tx_ok s"

lemma Dispatch_tx_ok: "tx_ok s \<Longrightarrow> tx_ok (Router_Dispatch env r p s)"
  by (simp add: Router_Dispatch_def Reject_def forward_packet_def EnqueueTx_def rx_drop_def br_put_def tx_ok_def Let_def
      split: option.splits prod.splits bool.splits)

lemma rx_byte_tx_ok: "tx_ok s \<Longrightarrow> tx_ok (rx_byte env b s)"
proof -
  have reset: "tx_ok (ResetRx s) = tx_ok s" for s :: "'a SmpBleRouter" by (simp add: ResetRx_def tx_ok_def)
  have finish: "tx_ok s \<Longrightarrow> tx_ok (finish_packet env s)" for s
    by (simp add: finish_packet_def Let_def reset Dispatch_tx_ok split: option.splits)
  have header: "tx_ok (OnHeader env s) = tx_ok s" for s
    by (simp add: OnHeader_def rx_drop_def tx_ok_def Let_def split: option.splits)
  have upd: "tx_ok (s\<lparr>br_rx_head := x\<rparr>) = tx_ok s" "tx_ok (add_to_packet d s) = tx_ok s" for s x d
    by (simp_all add: tx_ok_def add_to_packet_def)
  show "tx_ok s \<Longrightarrow> tx_ok (rx_byte env b s)" by (simp add: rx_byte_def finish header upd)
qed

lemma OnReceive_wf:
  assumes "router_wf env s"
  shows "router_wf env (OnReceive env now d s)"
proof -
  define u where "u = (if br_rx_head s \<noteq> [] \<and> now - br_rx_last_ms s > be_rx_timeout_ms env then ResetRx (rx_drop s) else s)\<lparr>br_rx_last_ms := now\<rparr>"
  have ok: "rx_ok env u" "tx_ok u"
    using assms by (auto simp: u_def router_wf_def rx_ok_def tx_ok_def ResetRx_def rx_drop_def rx_sizes)
  have "tx_ok (fold (rx_byte env) d u)" using ok(2) by (induction d arbitrary: u) (simp_all add: rx_byte_tx_ok)
  then have "router_wf env (rx_loop env d u)" using rx_loop_bytes [OF ok(1), of d] by (metis router_wf_def)
  then show ?thesis by (simp add: OnReceive_def Let_def u_def)
qed

lemma router_step_wf:
  assumes "router_step env s s'" and "router_wf env s" and "0 < be_max_first_fragment env"
  shows "router_wf env s'"
  using assms
proof (induction rule: router_step.induct)
  case (process max_size notify k s again s')
  then show ?case using ProcessTx_returns [of s env max_size notify k] by (auto simp: router_wf_def tx_result_def)
next
  case (receive s now d)
  then show ?case by (simp add: OnReceive_wf)
qed (auto simp: router_wf_def rx_ok_def tx_ok_def Router_Initialize_def OnDisconnected_def ResetRx_def OnNotificationSent_def
    OnResponse_def Router_Output_def EnqueueTx_def br_put_def Let_def rx_sizes split: option.splits)

interpretation router_runs: invariant_of router_init "\<lambda>s t. 0 < be_max_first_fragment env \<and> router_step env s t" "router_wf env"
proof unfold_locales
  show "router_init s \<Longrightarrow> router_wf env s" for s :: "'a SmpBleRouter"
    by (auto simp: router_init_def router_wf_def Router_new_def rx_ok_def tx_ok_def rx_sizes)
qed (blast intro: router_step_wf)

abbreviation router_reachable :: "'f ble_env \<Rightarrow> 'f SmpBleRouter \<Rightarrow> bool" where
  "router_reachable env \<equiv> reachable router_init (\<lambda>s t. 0 < be_max_first_fragment env \<and> router_step env s t)"

lemma writes_handled:
  assumes "rx_ok env s" and "br_rx_head s = []" and "\<forall>(route, packet)\<in>set ps. smp_packet packet"
    and "concat (map snd ((t, d) # ws)) = link_bytes ps" and "writes_timely (be_rx_timeout_ms env) t ws"
  shows "receive_writes env ((t, d) # ws) s =
      (fold (\<lambda>(route, packet). handle_packet env route packet) ps s)\<lparr>br_rx_last_ms := last (t # map fst ws)\<rparr> \<and>
    br_rx_head (receive_writes env ((t, d) # ws) s) = []"
proof -
  have idle: "idle_rx s" using assms(1,2) by (simp add: rx_ok_def idle_rx_def rx_sizes)
  define u where "u = OnReceive env t d s"
  have u: "u = (fold (rx_byte env) d s)\<lparr>br_rx_last_ms := t\<rparr>" "rx_ok env u" "br_rx_last_ms u = t"
    using write_bytes [OF assms(1), of t d] assms(2) by (simp_all add: u_def)
  have "receive_writes env ws u = (fold (rx_byte env) (concat (map snd ws)) u)\<lparr>br_rx_last_ms := last (t # map fst ws)\<rparr>"
    using writes_bytes [OF u(2), of ws] u(3) assms(5) by simp
  also have "fold (rx_byte env) (concat (map snd ws)) u = (fold (rx_byte env) (link_bytes ps) s)\<lparr>br_rx_last_ms := t\<rparr>"
    using assms(4) by (simp add: u(1) stamp_bytes flip: assms(4))
  also have "fold (rx_byte env) (link_bytes ps) s = fold (\<lambda>(r, p). handle_packet env r p) ps s"
    by (rule stream_bytes [OF idle assms(3)])
  finally have eq: "receive_writes env ((t, d) # ws) s =
      (fold (\<lambda>(route, packet). handle_packet env route packet) ps s)\<lparr>br_rx_last_ms := last (t # map fst ws)\<rparr>"
    by (simp add: receive_writes_def u_def)
  have "idle_rx (fold (\<lambda>(r, p). handle_packet env r p) ps s)"
    using idle by (induction ps arbitrary: s) (auto simp: handle_packet_idle)
  then show ?thesis using eq by (simp add: idle_rx_def)
qed

text \<open>
  C22. However a central splits its packets into writes, as long as no two writes are further apart than
  the timeout, the router handles exactly the packets, in order: in every state without a partial
  packet, receiving the writes has the effect of handling each packet, and leaves no partial packet.
\<close>

theorem writes_split_anywhere:
  assumes "router_reachable env s" and "br_rx_head s = []" and "\<forall>(route, packet)\<in>set ps. smp_packet packet"
    and "concat (map snd ((t, d) # ws)) = link_bytes ps" and "writes_timely (be_rx_timeout_ms env) t ws"
  shows "receive_writes env ((t, d) # ws) s =
      (fold (\<lambda>(route, packet). handle_packet env route packet) ps s)\<lparr>br_rx_last_ms := last (t # map fst ws)\<rparr> \<and>
    br_rx_head (receive_writes env ((t, d) # ws) s) = []"
  by (rule writes_handled [OF conjunct1 [OF router_runs.reachable_inv [OF assms(1), unfolded router_wf_def]] assms(2-5)])

text \<open>
  C23. A run of the notification task ends, whatever the Bluetooth stack answers. The notifications fit
  the size the central takes and carry, in order, bytes of responses to the current connection only;
  unless a notification fails or the central is not subscribed, the notified bytes followed by those
  still pending are exactly the bytes that were pending, and the task that is not scheduled again has
  notified everything.
\<close>

theorem responses_conserved:
  assumes "router_reachable env s" and "0 < be_max_first_fragment env"
  shows "\<exists>again s' fs. ProcessTx_ble env max_size notify 0 s = Some (again, s') \<and> notifications s' = notifications s @ fs \<and>
    (\<forall>f\<in>set fs. \<exists>j. length f \<le> max_size j) \<and> subseq (concat fs @ pending_bytes s') (pending_bytes s) \<and>
    (\<not> again \<longrightarrow> pending_bytes s' = []) \<and>
    ((\<forall>j. max_size j \<noteq> 0 \<and> notify j \<noteq> NOTIFY_FAILED) \<longrightarrow> concat fs @ pending_bytes s' = pending_bytes s)"
proof -
  have "tx_ok s" using router_runs.reachable_inv [OF assms(1)] by (simp add: router_wf_def)
  from ProcessTx_returns [OF this assms(2), of max_size notify 0] obtain again s' where
    r: "ProcessTx_ble env max_size notify 0 s = Some (again, s')" "tx_result max_size notify s again s'" by blast
  have "\<not> again \<longrightarrow> pending_bytes s' = []" using r(2) by (simp add: tx_result_def pending_bytes_def)
  then show ?thesis using r by (auto simp: tx_result_def)
qed

section \<open>The forwarder's contract\<close>

text \<open>
  What the router relies on of a forwarder (\<open>i_smp_forwarder.h\<close>): a reachable unit is another one, and
  a packet for it is queued; forwarding does not change which units are reachable.
\<close>

locale smp_forwarder =
  fixes fw :: "'f forwarder"
    and queued :: "'f \<Rightarrow> (u8 \<times> bytes) list"
    and inv :: "'f \<Rightarrow> bool"
  assumes reachable_other: "inv f \<Longrightarrow> fw_reachable fw f t \<Longrightarrow> t \<noteq> LOCAL_ROUTE \<and> t \<noteq> fw_address fw f"
    and forward_queues: "inv f \<Longrightarrow> fw_reachable fw f t \<Longrightarrow> p \<noteq> [] \<Longrightarrow>
      \<exists>f'. fw_forward fw t p f = (True, f') \<and> queued f' = queued f @ [(t, p)] \<and> inv f' \<and>
        fw_address fw f' = fw_address fw f \<and> fw_reachable fw f' = fw_reachable fw f"
begin

lemma dispatch_forwards:
  assumes "be_forwarder env = fw" and "br_forwarder s = Some f" and "inv f" and "fw_reachable fw f t" and "p \<noteq> []"
  shows "\<exists>f'. Router_Dispatch env t p s = s\<lparr>br_forwarder := Some f'\<rparr> \<and> queued f' = queued f @ [(t, p)] \<and> inv f' \<and>
    fw_address fw f' = fw_address fw f \<and> fw_reachable fw f' = fw_reachable fw f"
  using forward_queues [OF assms(3-5)] reachable_other [OF assms(3,4)] assms(1,2,4)
  by (auto simp: Router_Dispatch_def own_address_def can_reach_def forward_packet_def)

end

text \<open>Where a request goes.\<close>

definition is_local :: "'f forwarder \<Rightarrow> 'f \<Rightarrow> u8 \<times> bytes \<Rightarrow> bool" where
  "is_local fw f x \<longleftrightarrow> fst x = LOCAL_ROUTE \<or> fst x = fw_address fw f"

definition is_remote :: "'f forwarder \<Rightarrow> 'f \<Rightarrow> u8 \<times> bytes \<Rightarrow> bool" where
  "is_remote fw f x \<longleftrightarrow> \<not> is_local fw f x \<and> fw_reachable fw f (fst x)"

definition is_unknown :: "'f forwarder \<Rightarrow> 'f \<Rightarrow> u8 \<times> bytes \<Rightarrow> bool" where
  "is_unknown fw f x \<longleftrightarrow> \<not> is_local fw f x \<and> \<not> fw_reachable fw f (fst x)"

text \<open>The requests handed to the local server, and the routes of the responses that are queued.\<close>

definition local_requests :: "'f SmpBleRouter \<Rightarrow> (u8 \<times> bytes) list" where
  "local_requests s = concat (map (\<lambda>e. case e of LocalRequest r _ p \<Rightarrow> [(r, p)] | _ \<Rightarrow> []) (br_outbox s))"

definition answer_to :: "bytes \<Rightarrow> tx_item \<Rightarrow> bool" where
  "answer_to request i \<longleftrightarrow> (\<exists>h a. SmpHeader_Parse request = Some h \<and> SmpHeader_Parse (ti_packet i) = Some a \<and> IsResponse a \<and>
     sh_sequence a = sh_sequence h \<and> sh_group a = sh_group h \<and> sh_command_id a = sh_command_id h \<and> smp_packet (ti_packet i))"

definition acceptable :: "'f ble_env \<Rightarrow> bytes \<Rightarrow> bool" where
  "acceptable env p \<longleftrightarrow> smp_packet p \<and> length p \<le> be_max_packet_size env \<and> (\<exists>h. SmpHeader_Parse p = Some h \<and> IsRequest h)"

text \<open>What has become of requests: served here, forwarded, or answered with an error.\<close>

definition served :: "('f \<Rightarrow> (u8 \<times> bytes) list) \<Rightarrow> 'f forwarder \<Rightarrow> (u8 \<times> bytes) list \<Rightarrow> 'f \<Rightarrow> 'f SmpBleRouter \<Rightarrow> 'f \<Rightarrow> 'f SmpBleRouter \<Rightarrow> bool" where
  "served queued fw ps f s f' s' \<longleftrightarrow>
     local_requests s' = local_requests s @ filter (is_local fw f) ps \<and>
     queued f' = queued f @ filter (is_remote fw f) ps \<and> br_rx_dropped s' = br_rx_dropped s \<and>
     (\<exists>items. br_tx_queue s' = br_tx_queue s @ items \<and>
        list_all2 (\<lambda>i (r, p). ti_route i = r \<and> ti_generation i = br_generation s \<and> answer_to p i) items (filter (is_unknown fw f) ps))"

lemma operation_bits:
  fixes x v :: u8
  shows "((x AND 7) OR push_bit 3 (v AND 3)) AND 7 = x AND 7"
    "drop_bit 3 ((x AND 7) OR push_bit 3 (v AND 3)) AND 3 = v AND 3"
proof -
  have m: "(7 :: u8) = mask 3" "(3 :: u8) = mask 2" by (simp_all add: mask_eq_exp_minus_1)
  show "((x AND 7) OR push_bit 3 (v AND 3)) AND 7 = x AND 7"
    by (rule bit_word_eqI) (auto simp: m bit_simps)
  show "drop_bit 3 ((x AND 7) OR push_bit 3 (v AND 3)) AND 3 = v AND 3"
    by (rule bit_word_eqI) (auto simp: m bit_simps)
qed

lemma header_round_trip:
  "SmpHeader_Parse (SmpHeader_Encode h @ body) = Some (h\<lparr>sh_operation := sh_operation h AND 7, sh_version := sh_version h AND 3\<rparr>)"
proof -
  define b where "b = (sh_operation h AND 7) OR push_bit 3 (sh_version h AND 3)"
  have "SmpHeader_Encode h = [b, sh_flags h] @ u16_be (sh_length h) @ u16_be (sh_group h) @ [sh_sequence h, sh_command_id h]"
    by (simp only: SmpHeader_Encode_def b_def)
  moreover have "b AND 7 = sh_operation h AND 7" "drop_bit 3 b AND 3 = sh_version h AND 3"
    by (simp_all only: b_def operation_bits)
  ultimately show ?thesis
    by (cases h) (simp add: SmpHeader_Parse_def SMP_HEADER_SIZE_def u16_be_def u16_of_be_split)
qed

lemma length_Encode: "length (SmpHeader_Encode h) = 8"
  by (simp add: SmpHeader_Encode_def u16_be_def)

lemma Reject_answers:
  assumes "SmpHeader_Parse p = Some h" and "be_not_found_body env (be_max_packet_size env - SMP_HEADER_SIZE) = Some body" and "length body < 2 ^ 16"
  shows "\<exists>i. Reject env r p s = br_put ScheduleTxWork (s\<lparr>br_tx_queue := br_tx_queue s @ [i]\<rparr>) \<and> ti_route i = r \<and>
    ti_generation i = br_generation s \<and> answer_to p i"
proof -
  define op where "op = (if sh_operation h = OP_READ then OP_READ_RESPONSE else OP_WRITE_RESPONSE)"
  define a where "a = h\<lparr>sh_operation := op, sh_flags := 0, sh_length := of_nat (length body)\<rparr>"
  define i where "i = \<lparr>ti_route = r, ti_generation = br_generation s, ti_packet = SmpHeader_Encode a @ body\<rparr>"
  have op: "op AND 7 = op" "op = OP_READ_RESPONSE \<or> op = OP_WRITE_RESPONSE"
    by (simp_all add: op_def OP_READ_RESPONSE_def OP_WRITE_RESPONSE_def)
  have parsed: "SmpHeader_Parse (ti_packet i) = Some (a\<lparr>sh_operation := op, sh_version := sh_version a AND 3\<rparr>)"
    using op(1) by (simp add: i_def header_round_trip a_def)
  have "unat (sh_length a) = length body" using assms(3) by (simp add: a_def unsigned_of_nat take_bit_nat_eq_self)
  then have "smp_packet (ti_packet i)"
    using parsed by (simp add: smp_packet_def GetPacketSize_def SMP_HEADER_SIZE_def) (simp add: i_def length_Encode)
  then have "answer_to p i" using assms(1) parsed op(2) by (simp add: answer_to_def IsResponse_def a_def)
  moreover have "Reject env r p s = br_put ScheduleTxWork (s\<lparr>br_tx_queue := br_tx_queue s @ [i]\<rparr>)"
    using assms(1,2) by (simp add: Reject_def EnqueueTx_def Let_def i_def a_def op_def)
  ultimately show ?thesis by (intro exI [of _ i]) (simp add: i_def)
qed

lemma served_Cons:
  assumes "served queued fw [x] f s g u" and "served queued fw ps g u f' s'" and "fw_address fw g = fw_address fw f"
    and "fw_reachable fw g = fw_reachable fw f" and "br_generation u = br_generation s"
  shows "served queued fw (x # ps) f s f' s'"
proof -
  let ?a = "\<lambda>i (r, p). ti_route i = r \<and> ti_generation i = br_generation s \<and> answer_to p i"
  have same: "is_local fw g = is_local fw f" "is_remote fw g = is_remote fw f" "is_unknown fw g = is_unknown fw f"
    using assms(3,4) by (simp_all add: fun_eq_iff is_local_def is_remote_def is_unknown_def)
  obtain as bs where as: "br_tx_queue u = br_tx_queue s @ as" "list_all2 ?a as (filter (is_unknown fw f) [x])"
    and bs: "br_tx_queue s' = br_tx_queue u @ bs" "list_all2 ?a bs (filter (is_unknown fw f) ps)"
    using assms(1,2,5) same by (auto simp: served_def)
  have "list_all2 ?a (as @ bs) (filter (is_unknown fw f) [x] @ filter (is_unknown fw f) ps)"
    using as(2) bs(2) by (rule list_all2_appendI)
  then have "list_all2 ?a (as @ bs) (filter (is_unknown fw f) (x # ps))" by (simp split: if_splits)
  moreover have "br_tx_queue s' = br_tx_queue s @ (as @ bs)" using as(1) bs(1) by simp
  ultimately show ?thesis using assms(1,2) same unfolding served_def by auto
qed

context smp_forwarder
begin

lemma requests_served:
  assumes env: "be_forwarder env = fw" "\<And>k. be_allocates env k" "be_not_found_body env (be_max_packet_size env - SMP_HEADER_SIZE) = Some body" "length body < 2 ^ 16"
    and "br_is_initialized s" and "br_forwarder s = Some f" and "inv f" and "list_all (acceptable env \<circ> snd) ps"
  shows "\<exists>f'. br_forwarder (fold (\<lambda>(r, p). handle_packet env r p) ps s) = Some f' \<and>
    served queued fw ps f s f' (fold (\<lambda>(r, p). handle_packet env r p) ps s)"
  using assms(5-8)
proof (induction ps arbitrary: s f)
  case (Cons x ps)
  obtain r p where x: "x = (r, p)" by (cases x)
  define s1 where "s1 = s\<lparr>br_allocations := br_allocations s + 1\<rparr>"
  obtain h where h: "SmpHeader_Parse p = Some h" "IsRequest h" "length p \<le> be_max_packet_size env" "smp_packet p"
    using Cons.prems(4) x by (auto simp: acceptable_def)
  have ne: "p \<noteq> []" using smp_packet_length [OF h(4)] by auto
  have hp: "handle_packet env r p s = Router_Dispatch env r p s1"
    using h env(2) by (simp add: handle_packet_def s1_def Let_def)
  have addr: "own_address env s1 = fw_address fw f" "can_reach env r s1 = fw_reachable fw f r"
    using Cons.prems(2) env(1) by (simp_all add: own_address_def can_reach_def s1_def)
  have step: ?case if u: "br_forwarder u = Some g" "inv g" "fw_address fw g = fw_address fw f" "fw_reachable fw g = fw_reachable fw f"
      "br_is_initialized u" "br_generation u = br_generation s" "served queued fw [x] f s g u" "handle_packet env r p s = u" for u g
  proof -
    from Cons.IH [OF u(5,1,2)] Cons.prems(4) obtain f' where
      f': "br_forwarder (fold (\<lambda>(r, p). handle_packet env r p) ps u) = Some f'"
      "served queued fw ps g u f' (fold (\<lambda>(r, p). handle_packet env r p) ps u)" by auto
    have "served queued fw (x # ps) f s f' (fold (\<lambda>(r, p). handle_packet env r p) ps u)"
      by (rule served_Cons [OF u(7) f'(2) u(3,4,6)])
    then show ?thesis using f'(1) u(8) by (simp add: x)
  qed
  consider (here) "is_local fw f x" | (there) "is_remote fw f x" | (nowhere) "is_unknown fw f x"
    by (auto simp: is_remote_def is_unknown_def)
  then show ?case
  proof cases
    case here
    then have "Router_Dispatch env r p s1 = br_put (LocalRequest r (br_generation s1) p) s1"
      using addr Cons.prems(1) by (simp add: Router_Dispatch_def is_local_def x s1_def)
    then show ?thesis
      using here Cons.prems(1-3) hp
      by (intro step [of _ f]) (auto simp: s1_def br_put_def served_def local_requests_def is_remote_def is_unknown_def x)
  next
    case there
    from dispatch_forwards [OF env(1), of s1 f r p] there Cons.prems(2,3) ne obtain f' where
      f': "Router_Dispatch env r p s1 = s1\<lparr>br_forwarder := Some f'\<rparr>" "queued f' = queued f @ [(r, p)]" "inv f'"
      "fw_address fw f' = fw_address fw f" "fw_reachable fw f' = fw_reachable fw f" by (auto simp: s1_def is_remote_def x)
    then show ?thesis
      using there Cons.prems(1) hp
      by (intro step [of _ f']) (auto simp: s1_def served_def local_requests_def is_remote_def is_unknown_def x)
  next
    case nowhere
    from Reject_answers [OF h(1) env(3,4), of r s1] obtain i where
      i: "Reject env r p s1 = br_put ScheduleTxWork (s1\<lparr>br_tx_queue := br_tx_queue s1 @ [i]\<rparr>)" "ti_route i = r"
      "ti_generation i = br_generation s1" "answer_to p i" by blast
    have "Router_Dispatch env r p s1 = Reject env r p s1"
      using nowhere addr by (simp add: Router_Dispatch_def is_unknown_def is_local_def x)
    then show ?thesis
      using nowhere Cons.prems(1-3) hp i
      by (intro step [of _ f]) (auto simp: s1_def br_put_def served_def local_requests_def is_remote_def is_unknown_def is_local_def x)
  qed
qed (simp add: served_def)

end

section \<open>Examples\<close>

definition demo_forwarder :: "unit forwarder" where
  "demo_forwarder = \<lparr>fw_address = (\<lambda>_. 0), fw_reachable = (\<lambda>_ _. False), fw_forward = (\<lambda>_ _ f. (False, f))\<rparr>"

definition demo_ble_env :: "unit ble_env" where
  "demo_ble_env = \<lparr>be_forwarder = demo_forwarder, be_allocates = (\<lambda>_. True), be_max_packet_size = 384, be_rx_timeout_ms = 1000,
     be_max_first_fragment = 20, be_not_found_body = (\<lambda>_. Some [0xBF, 0x62, 0x72, 0x63, 5, 0xFF])\<rparr>"

definition demo_request :: bytes where
  "demo_request = [2, 0, 0, 1, 0, 0, 7, 0, 0xA0]"

definition demo_router :: "unit SmpBleRouter" where
  "demo_router = snd (Router_Initialize True (Router_new None))"

lemma demo_router_reachable: "router_reachable demo_ble_env demo_router"
  unfolding demo_router_def
  by (rule reachable.move [OF reachable.start]) (auto simp: router_init_def demo_ble_env_def intro: router_step.initialize)

lemma demo_request_packet: "smp_packet demo_request"
  by (simp add: smp_packet_def demo_request_def SmpHeader_Parse_def SMP_HEADER_SIZE_def GetPacketSize_def u16_of_be_def)

theorem writes_split_anywhere_witness:
  "receive_writes demo_ble_env [(0, [0, 2, 0]), (700, [0, 1, 0, 0, 7, 0, 0xA0, 9, 2, 0, 0, 1, 0]), (1500, [0, 7, 0, 0xA0])] demo_router =
     (handle_packet demo_ble_env 9 demo_request (handle_packet demo_ble_env 0 demo_request demo_router))\<lparr>br_rx_last_ms := 1500\<rparr>"
proof -
  have "br_rx_head demo_router = []" by (simp add: demo_router_def Router_Initialize_def Router_new_def)
  from writes_split_anywhere [OF demo_router_reachable this, of "[(0, demo_request), (9, demo_request)]" 0 "[0, 2, 0]"
      "[(700, [0, 1, 0, 0, 7, 0, 0xA0, 9, 2, 0, 0, 1, 0]), (1500, [0, 7, 0, 0xA0])]"]
  show ?thesis using demo_request_packet by (simp add: link_bytes_def demo_request_def demo_ble_env_def)
qed

theorem responses_conserved_witness:
  "\<exists>again s' fs. ProcessTx_ble demo_ble_env (\<lambda>_. 5) (\<lambda>k. if k < 2 then NOTIFY_OK else NOTIFY_NO_MEMORY) 0
      (OnResponse 3 (Some demo_request) demo_router) = Some (again, s') \<and> concat fs @ pending_bytes s' = 3 # demo_request"
proof -
  let ?s = "OnResponse 3 (Some demo_request) demo_router"
  have r: "router_reachable demo_ble_env ?s"
    by (rule reachable.move [OF demo_router_reachable]) (auto simp: demo_ble_env_def intro: router_step.response)
  have "pending_bytes ?s = 3 # demo_request"
    by (simp add: pending_bytes_def OnResponse_def EnqueueTx_def br_put_def demo_router_def Router_Initialize_def Router_new_def
        item_bytes_def demo_request_def)
  moreover have "\<forall>j. (\<lambda>_. 5 :: nat) j \<noteq> 0 \<and> (\<lambda>k. if k < 2 then NOTIFY_OK else NOTIFY_NO_MEMORY) (j :: nat) \<noteq> NOTIFY_FAILED" by simp
  moreover have "0 < be_max_first_fragment demo_ble_env" by (simp add: demo_ble_env_def)
  ultimately show ?thesis
    using responses_conserved [OF r, of "\<lambda>_. 5" "\<lambda>k. if k < 2 then NOTIFY_OK else NOTIFY_NO_MEMORY"] by metis
qed

end
