(* ===== verification/Canbus_Com.thy ===== *)
theory Canbus_Com
  imports Cdmp_Network_Props Smp_Transport Smp_Ble
begin

text \<open>
  The service that runs CDMP and SMP over the COM channel, \<open>src/domain/canbus_com_domain/services/
  canbus_com_service.h/.cpp\<close>, as far as it joins the two: the SMP transport is bound to the ID the
  network service has claimed, and packets are forwarded to the devices of its table. It is the
  forwarder of the BLE router, so requests of a central reach the queue of the SMP transport, and
  from there the unit they are for.
\<close>

section \<open>The service\<close>

record CanbusComService =
  cm_network :: CdmpNetworkService
  cm_transport :: SmpCanTransport

definition GetDeviceInfo :: "CanbusComService \<Rightarrow> CdmpDeviceInfo" where
  "GetDeviceInfo s = ToDeviceInfo (ns_device (cm_network s))"

definition GetAddress :: "CanbusComService \<Rightarrow> u8" where
  "GetAddress s = st_address (cm_transport s)"

text \<open>\<open>register\<close> is what the bus answers to the registration of the transport's filter.\<close>

definition OnCdmpStatusChanged :: "(CanFilter \<Rightarrow> int) \<Rightarrow> CdmpDeviceStatus \<Rightarrow> CanbusComService \<Rightarrow> CanbusComService" where
  "OnCdmpStatusChanged register status s =
     (let device_id = dev_device_id (ns_device (cm_network s))
      in if (status = ONLINE \<or> status = VERSION_MISMATCH) \<and> IsValidAddress device_id
         then s\<lparr>cm_transport := snd (Transport_Bind register device_id (cm_transport s))\<rparr>
         else s\<lparr>cm_transport := UnbindLocked (cm_transport s)\<rparr>)"

definition IsReachable :: "CanbusComService \<Rightarrow> u8 \<Rightarrow> bool" where
  "IsReachable s target \<longleftrightarrow>
     (let address = GetAddress s in address \<noteq> 0 \<and> target \<noteq> address \<and> IsDeviceOnline target (cm_network s))"

definition IsSmpBound :: "CanbusComService \<Rightarrow> bool" where
  "IsSmpBound s \<longleftrightarrow> GetAddress s \<noteq> 0 \<and> di_status (GetDeviceInfo s) = ONLINE"

definition Com_Forward :: "u8 \<Rightarrow> bytes \<Rightarrow> CanbusComService \<Rightarrow> bool \<times> CanbusComService" where
  "Com_Forward target packet s =
     (case Enqueue target (Some packet) (cm_transport s) of (ok, t) \<Rightarrow> (ok, s\<lparr>cm_transport := t\<rparr>))"

definition Com_SetResponseSink :: "bool \<Rightarrow> CanbusComService \<Rightarrow> CanbusComService" where
  "Com_SetResponseSink present s = s\<lparr>cm_transport := SetResponseSink present (cm_transport s)\<rparr>"

text \<open>
  Start and stop. The COM bus is absent (\<open>None\<close>) or a bus instance; CDMP's own configuration throws for
  an invalid base identifier, and only its start and stop decide the result.
\<close>

definition Com_DoInitialize :: "bool \<Rightarrow> bool \<Rightarrow> CanbusComService \<Rightarrow> bool \<times> CanbusComService" where
  "Com_DoInitialize cdmp_ok registered s =
     (if \<not> cdmp_ok then (False, s)
      else case Transport_Initialize registered (cm_transport s) of (ok, t) \<Rightarrow> (ok, s\<lparr>cm_transport := t\<rparr>))"

definition Com_DoStart :: "nat option \<Rightarrow> u32 \<Rightarrow> u8 \<Rightarrow> u32 \<Rightarrow> bool \<Rightarrow> CanbusComService \<Rightarrow> bool result \<times> CanbusComService" where
  "Com_DoStart com_canbus smp_base smp_share cdmp_base cdmp_started s =
     (case com_canbus of
        None \<Rightarrow> (Inr False, s)
      | Some _ \<Rightarrow>
          (case Transport_Configure com_canbus smp_base smp_share (cm_transport s) of
             (Some e, t) \<Rightarrow> (Inl e, s\<lparr>cm_transport := t\<rparr>)
           | (None, t) \<Rightarrow>
               (case SetBaseCanId cdmp_base of
                  Inl e \<Rightarrow> (Inl e, s\<lparr>cm_transport := t\<rparr>)
                | Inr _ \<Rightarrow> (Inr cdmp_started, s\<lparr>cm_transport := t\<rparr>))))"

definition Com_DoStop :: "bool \<Rightarrow> CanbusComService \<Rightarrow> bool \<times> CanbusComService" where
  "Com_DoStop cdmp_stopped s = (cdmp_stopped, s\<lparr>cm_transport := UnbindLocked (cm_transport s)\<rparr>)"

definition com_forwarder :: "CanbusComService forwarder" where
  "com_forwarder = \<lparr>fw_address = GetAddress, fw_reachable = IsReachable, fw_forward = Com_Forward\<rparr>"

section \<open>Reachable states\<close>

definition com_init :: "smp_config \<Rightarrow> CanbusComService \<Rightarrow> bool" where
  "com_init cfg s \<longleftrightarrow> network_init (cm_network s) \<and> cm_transport s = Transport_new cfg"

inductive com_step :: "smp_config \<Rightarrow> CanbusComService \<Rightarrow> CanbusComService \<Rightarrow> bool" for cfg where
  network: "network_step (cm_network s) n \<Longrightarrow> com_step cfg s (s\<lparr>cm_network := n\<rparr>)"
| transport: "transport_step cfg (cm_transport s) t \<Longrightarrow> com_step cfg s (s\<lparr>cm_transport := t\<rparr>)"
| status: "com_step cfg s (OnCdmpStatusChanged register new_status s)"
| forward: "com_step cfg s (snd (Com_Forward target packet s))"
| sink: "com_step cfg s (Com_SetResponseSink present s)"
| initialize: "com_step cfg s (snd (Com_DoInitialize cdmp_ok registered s))"
| start: "com_step cfg s (snd (Com_DoStart canbus base share cdmp_base started s))"
| stop: "com_step cfg s (snd (Com_DoStop stopped s))"

definition com_wf :: "smp_config \<Rightarrow> CanbusComService \<Rightarrow> bool" where
  "com_wf cfg s \<longleftrightarrow> network_wf (cm_network s) \<and> transport_wf cfg (cm_transport s)"

text \<open>Every operation of the service is a step of the transport.\<close>

lemma com_step_parts:
  assumes "com_step cfg s s'"
  shows "(network_step (cm_network s) (cm_network s') \<or> cm_network s' = cm_network s) \<and>
    (transport_step cfg (cm_transport s) (cm_transport s') \<or> cm_transport s' = cm_transport s)"
  using assms
proof (induction rule: com_step.induct)
  case (forward s target packet)
  then show ?case using transport_step.enqueue [of cfg "cm_transport s" target "Some packet"]
    by (simp add: Com_Forward_def split: prod.split) (metis snd_conv)
next
  case (initialize s cdmp_ok registered)
  then show ?case using transport_step.initialize [of cfg "cm_transport s" registered]
    by (simp add: Com_DoInitialize_def split: prod.split) (metis snd_conv)
next
  case (start s canbus base share cdmp_base started)
  then show ?case using transport_step.configure [of cfg "cm_transport s" canbus base share]
    by (simp add: Com_DoStart_def split: prod.split option.split sum.split) (metis snd_conv)
qed (auto simp: OnCdmpStatusChanged_def Com_SetResponseSink_def Com_DoStop_def Let_def
    intro: transport_step.bind transport_step.unbind transport_step.sink)

lemma com_step_wf:
  assumes "com_step cfg s s'" and "com_wf cfg s" and "sc_burst_frames cfg \<noteq> 0"
  shows "com_wf cfg s'"
  using com_step_parts [OF assms(1)] assms(2,3) transport_step_wf network_step_wf unfolding com_wf_def by metis

interpretation com_runs: invariant_of "com_init cfg" "\<lambda>s t. sc_burst_frames cfg \<noteq> 0 \<and> com_step cfg s t" "com_wf cfg"
proof unfold_locales
  show "com_init cfg s \<Longrightarrow> com_wf cfg s" for s
    using network_runs.init_inv by (auto simp: com_init_def com_wf_def Transport_new_wf)
qed (blast intro: com_step_wf)

abbreviation com_reachable :: "smp_config \<Rightarrow> CanbusComService \<Rightarrow> bool" where
  "com_reachable cfg \<equiv> reachable (com_init cfg) (\<lambda>s t. sc_burst_frames cfg \<noteq> 0 \<and> com_step cfg s t)"

section \<open>The service as a forwarder\<close>

lemma online_id:
  assumes "network_wf n" and "IsDeviceOnline i n"
  shows "IsValidAddress i"
proof -
  obtain d where d: "table n i = Some d" using assms(2) by (auto simp: IsDeviceOnline_def split: option.splits)
  then have "device_entry_ok i d" using assms(1) by (auto simp: network_wf_def devices_wf_def table_def dest: map_of_SomeD)
  then show ?thesis by (simp add: device_entry_ok_def IsValidAddress_def DEVICE_ID_UNASSIGNED_def DEVICE_ID_BROADCAST_def)
qed

lemma Com_Forward_queues:
  assumes wf: "com_wf cfg s" and "IsReachable s t" and "p \<noteq> []"
  shows "\<exists>s'. Com_Forward t p s = (True, s') \<and> st_tx_queue (cm_transport s') = st_tx_queue (cm_transport s) @ [(t, p)] \<and>
    com_wf cfg s' \<and> GetAddress s' = GetAddress s \<and> IsReachable s' = IsReachable s"
proof -
  let ?t = "cm_transport s"
  have a: "st_address ?t \<noteq> 0" "t \<noteq> st_address ?t" "IsValidAddress t" "st_is_initialized ?t"
    using assms(1,2) online_id by (auto simp: IsReachable_def GetAddress_def com_wf_def transport_wf_def Let_def)
  define u where "u = put ScheduleTx (?t\<lparr>st_tx_queue := st_tx_queue ?t @ [(t, p)]\<rparr>)"
  have e: "Enqueue t (Some p) ?t = (True, u)" using a assms(3) by (simp add: Enqueue_def u_def)
  have "transport_wf cfg u" using Enqueue_wf [of cfg ?t t "Some p"] wf e by (simp add: com_wf_def)
  then show ?thesis
    using wf e by (auto simp: Com_Forward_def com_wf_def u_def put_def GetAddress_def IsReachable_def fun_eq_iff)
qed

interpretation com: smp_forwarder com_forwarder "\<lambda>s. st_tx_queue (cm_transport s)" "com_wf cfg" for cfg
proof unfold_locales
  fix f t p
  show "com_wf cfg f \<Longrightarrow> fw_reachable com_forwarder f t \<Longrightarrow> t \<noteq> LOCAL_ROUTE \<and> t \<noteq> fw_address com_forwarder f"
    using online_id by (auto simp: com_forwarder_def IsReachable_def com_wf_def LOCAL_ROUTE_def IsValidAddress_def Let_def)
  show "com_wf cfg f \<Longrightarrow> fw_reachable com_forwarder f t \<Longrightarrow> p \<noteq> [] \<Longrightarrow>
      \<exists>f'. fw_forward com_forwarder t p f = (True, f') \<and> st_tx_queue (cm_transport f') = st_tx_queue (cm_transport f) @ [(t, p)] \<and>
        com_wf cfg f' \<and> fw_address com_forwarder f' = fw_address com_forwarder f \<and> fw_reachable com_forwarder f' = fw_reachable com_forwarder f"
    using Com_Forward_queues [of cfg f t p] by (simp add: com_forwarder_def)
qed

section \<open>Properties\<close>

lemma Unbind_address: "transport_wf cfg t \<Longrightarrow> st_address (UnbindLocked t) = 0"
  by (auto simp: UnbindLocked_def put_def transport_wf_def Let_def)

lemma Unbind_settings: "st_canbus (UnbindLocked t) = st_canbus t" "st_base (UnbindLocked t) = st_base t"
  by (simp_all add: UnbindLocked_def put_def Let_def)

text \<open>
  SMP follows CDMP: in every state the COM service can reach, after a change of this unit's status
  the transport is bound to the device ID when the unit is online or has a version mismatch with an ID
  it can use, the transport is registered and the bus takes its filter, and otherwise it has no
  address: it is never bound to another ID.
\<close>

theorem smp_follows_status:
  assumes "com_reachable cfg s"
  shows "let i = dev_device_id (ns_device (cm_network s)); t = cm_transport s
    in GetAddress (OnCdmpStatusChanged register status s) =
      (if (status = ONLINE \<or> status = VERSION_MISMATCH) \<and> IsValidAddress i \<and>
          (st_address t = i \<or> st_is_initialized t \<and> st_canbus t \<noteq> None \<and> 0 \<le> register (target_filter (st_base t) i))
       then i else 0)"
proof -
  have wf: "transport_wf cfg (cm_transport s)" using com_runs.reachable_inv [OF assms] by (simp add: com_wf_def)
  note u = Unbind_address [OF wf] Unbind_settings [of "cm_transport s"]
  have init: "st_address (cm_transport s) \<noteq> 0 \<longrightarrow> st_is_initialized (cm_transport s)" using wf by (simp add: transport_wf_def)
  show ?thesis using u init
    by (cases "st_canbus (cm_transport s)")
      (auto simp: OnCdmpStatusChanged_def Transport_Bind_def GetAddress_def Let_def IsValidAddress_def)
qed

text \<open>
  C15. Every request of a BLE central is served exactly once, however it is split into writes: with the
  COM service as the forwarder and the pool not exhausted, the requests for this unit are handed to
  the local server, those for a reachable unit are queued with the CAN transport, and every other one
  is answered with an error response that carries its group, command and sequence; each group in the
  order of the requests, and nothing is dropped.
\<close>

theorem ble_requests_served:
  assumes "router_reachable env s" and "br_rx_head s = []" and "br_is_initialized s" and "br_forwarder s = Some c" and "com_reachable cfg c"
    and "be_forwarder env = com_forwarder" and "\<And>k. be_allocates env k"
    and "be_not_found_body env (be_max_packet_size env - SMP_HEADER_SIZE) = Some body" and "length body < 2 ^ 16"
    and "list_all (acceptable env \<circ> snd) ps"
    and "concat (map snd ((t, d) # ws)) = link_bytes ps" and "writes_timely (be_rx_timeout_ms env) t ws"
  shows "\<exists>s' c' answers. receive_writes env ((t, d) # ws) s = s' \<and> br_forwarder s' = Some c' \<and> br_rx_head s' = [] \<and>
    local_requests s' = local_requests s @ filter (\<lambda>(r, p). r = 0 \<or> r = GetAddress c) ps \<and>
    st_tx_queue (cm_transport c') = st_tx_queue (cm_transport c) @ filter (\<lambda>(r, p). IsReachable c r) ps \<and>
    br_tx_queue s' = br_tx_queue s @ answers \<and>
    list_all2 (\<lambda>i (r, p). ti_route i = r \<and> ti_generation i = br_generation s \<and> answer_to p i) answers
      (filter (\<lambda>(r, p). r \<noteq> 0 \<and> r \<noteq> GetAddress c \<and> \<not> IsReachable c r) ps) \<and>
    br_rx_dropped s' = br_rx_dropped s"
proof -
  have wf: "com_wf cfg c" by (rule com_runs.reachable_inv [OF assms(5)])
  have rx: "rx_ok env s" using router_runs.reachable_inv [OF assms(1)] by (simp add: router_wf_def)
  define u where "u = fold (\<lambda>(r, p). handle_packet env r p) ps s"
  have "\<forall>(r, p)\<in>set ps. smp_packet p" using assms(10) by (auto simp: list_all_iff acceptable_def)
  note w = writes_handled [OF rx assms(2) this assms(11,12), folded u_def]
  from com.requests_served [OF assms(6-9,3,4) wf assms(10), folded u_def] obtain c' where
    c': "br_forwarder u = Some c'" "served (\<lambda>s. st_tx_queue (cm_transport s)) com_forwarder ps c s c' u" by blast
  have "filter (is_local com_forwarder c) ps = filter (\<lambda>(r, p). r = 0 \<or> r = GetAddress c) ps"
    "filter (is_remote com_forwarder c) ps = filter (\<lambda>(r, p). IsReachable c r) ps"
    "filter (is_unknown com_forwarder c) ps = filter (\<lambda>(r, p). r \<noteq> 0 \<and> r \<noteq> GetAddress c \<and> \<not> IsReachable c r) ps"
    using com.reachable_other [OF wf]
    by (auto simp: is_local_def is_remote_def is_unknown_def com_forwarder_def LOCAL_ROUTE_def intro!: filter_cong)
  note served = c'(2) [unfolded served_def this]
  then obtain answers where "br_tx_queue u = br_tx_queue s @ answers" "list_all2 (\<lambda>i (r, p). ti_route i = r \<and> ti_generation i = br_generation s \<and> answer_to p i) answers
      (filter (\<lambda>(r, p). r \<noteq> 0 \<and> r \<noteq> GetAddress c \<and> \<not> IsReachable c r) ps)" by blast
  moreover have "br_rx_head u = []" using conjunct2 [OF w] unfolding conjunct1 [OF w] by simp
  ultimately show ?thesis using conjunct1 [OF w] served c'(1)
    by (intro exI [of _ "receive_writes env ((t, d) # ws) s"] exI [of _ c'] exI [of _ answers]) (simp add: local_requests_def)
qed

section \<open>From one unit to another\<close>

text \<open>Runs of the send task while the unit keeps its address and no send fails.\<close>

inductive send_runs :: "smp_config \<Rightarrow> bool \<Rightarrow> u8 \<Rightarrow> SmpCanTransport \<Rightarrow> SmpCanTransport \<Rightarrow> bool" for cfg fd a where
  finished: "send_runs cfg fd a s s"
| run: "st_address s = a \<Longrightarrow> st_canbus s \<noteq> None \<Longrightarrow> GetFrameTimeNs fd bitrate data_bitrate \<noteq> 0 \<Longrightarrow> \<forall>k. send k \<noteq> SEND_FAILED \<Longrightarrow>
    ProcessTx cfg now fd bitrate data_bitrate send s = Some (Inr (delay, s1)) \<Longrightarrow> send_runs cfg fd a s1 u \<Longrightarrow> send_runs cfg fd a s u"

lemma send_runs_conserve:
  assumes "send_runs cfg fd a s u" and "transport_wf cfg s" and "sc_burst_frames cfg \<noteq> 0" and "a \<noteq> 0"
  shows "sent_frames u @ pending_frames fd a u = sent_frames s @ pending_frames fd a s \<and> transport_wf cfg u"
  using assms
proof (induction rule: send_runs.induct)
  case (run s bitrate data_bitrate send now delay s1 u)
  then show ?case using ProcessTx_outcome [of cfg s now fd bitrate data_bitrate send] by auto
qed simp

lemma waiting_none: "packets_waiting s = 0 \<Longrightarrow> pending_frames fd a s = []"
  by (simp add: packets_waiting_def pending_frames_def split: if_splits)

text \<open>The frames of a run of the send task, and what a receiver on the same bus gets of them.\<close>

definition new_frames :: "SmpCanTransport \<Rightarrow> SmpCanTransport \<Rightarrow> (CanId \<times> bytes) list" where
  "new_frames s u = drop (length (sent_frames s)) (sent_frames u)"

definition carries :: "bool \<Rightarrow> CanId \<times> bytes \<Rightarrow> CanFrame \<Rightarrow> bool" where
  "carries fd x frame \<longleftrightarrow> frame_id frame = can_id (fst x) \<and> frame_is_extended frame = is_extended (fst x) \<and>
     \<not> frame_is_remote_request frame \<and> frame_is_can_fd frame = fd \<and> frame_data frame = snd x"

lemma forwarded_frames:
  assumes wf: "com_wf cfg c" and burst: "sc_burst_frames cfg \<noteq> 0" and reach: "IsReachable c t" and p: "p \<noteq> []"
    and idle: "packets_waiting (cm_transport c) = 0" and fw: "Com_Forward t p c = (ok, c')"
    and runs: "send_runs cfg fd (GetAddress c) (cm_transport c') u" and empty: "packets_waiting u = 0"
  shows "ok \<and> new_frames (cm_transport c) u =
    tagged (st_base (cm_transport c)) (GetAddress c) t (frames_of (SmpCanFramer_new p fd))"
proof -
  from Com_Forward_queues [OF wf reach p] fw have c': "ok" "com_wf cfg c'" by auto
  have t': "cm_transport c' = put ScheduleTx ((cm_transport c)\<lparr>st_tx_queue := st_tx_queue (cm_transport c) @ [(t, p)]\<rparr>)"
    using fw c'(1) by (auto simp: Com_Forward_def Enqueue_def split: if_splits)
  have a: "GetAddress c \<noteq> 0" using reach by (simp add: IsReachable_def Let_def)
  have w: "st_tx_packet (cm_transport c) = None" "st_tx_queue (cm_transport c) = []"
    using idle by (auto simp: packets_waiting_def split: if_splits)
  have "sent_frames (cm_transport c') = sent_frames (cm_transport c)" by (simp add: t' put_def sent_frames_def)
  moreover have "pending_frames fd (GetAddress c) (cm_transport c') =
      tagged (st_base (cm_transport c)) (GetAddress c) t (frames_of (SmpCanFramer_new p fd))"
    using w by (simp add: t' put_def pending_frames_def)
  ultimately show ?thesis
    using send_runs_conserve [OF runs _ burst a] c' waiting_none [OF empty, of fd "GetAddress c"]
    by (simp add: com_wf_def new_frames_def)
qed

lemma carried_frames:
  assumes "list_all2 (carries fd) (tagged base a t fs) frames"
  shows "map (\<lambda>frame. (frame_is_can_fd frame, frame_data frame)) frames = map (Pair fd) fs"
  using assms by (induction fs arbitrary: frames) (auto simp: tagged_def carries_def list_all2_Cons1)

section \<open>Examples\<close>

definition demo_com :: CanbusComService where
  "demo_com = snd (Com_DoStart (Some 1) SMP_DEFAULT_BASE 25 DEFAULT_BASE_CAN_ID True (snd (Com_DoInitialize True True
     \<lparr>cm_network = NetworkService_new (demo_device 5), cm_transport = Transport_new demo_smp_config\<rparr>)))"

lemma demo_com_reachable: "com_reachable demo_smp_config demo_com"
proof -
  have b: "sc_burst_frames demo_smp_config \<noteq> 0" by (simp add: demo_smp_config_def)
  let ?s = "\<lparr>cm_network = NetworkService_new (demo_device 5), cm_transport = Transport_new demo_smp_config\<rparr>"
  have "com_reachable demo_smp_config ?s" by (rule reachable.start) (auto simp: com_init_def)
  then have "com_reachable demo_smp_config (snd (Com_DoInitialize True True ?s))"
    by (rule reachable.move) (simp add: b com_step.initialize)
  then show ?thesis unfolding demo_com_def by (rule reachable.move) (simp add: b com_step.start)
qed

theorem smp_follows_status_witness:
  "GetAddress (OnCdmpStatusChanged (\<lambda>_. 3) ONLINE demo_com) = 5 \<and> GetAddress (OnCdmpStatusChanged (\<lambda>_. 3) CLAIMING demo_com) = 0"
proof -
  have "dev_device_id (ns_device (cm_network demo_com)) = 5" "st_is_initialized (cm_transport demo_com)" "st_canbus (cm_transport demo_com) = Some 1"
    by code_simp+
  with smp_follows_status [OF demo_com_reachable, of "\<lambda>_. 3" ONLINE] smp_follows_status [OF demo_com_reachable, of "\<lambda>_. 3" CLAIMING]
  show ?thesis by (simp add: Let_def IsValidAddress_def)
qed

definition demo_com_env :: "CanbusComService ble_env" where
  "demo_com_env = \<lparr>be_forwarder = com_forwarder, be_allocates = (\<lambda>_. True), be_max_packet_size = 384, be_rx_timeout_ms = 1000,
     be_max_first_fragment = 20, be_not_found_body = (\<lambda>_. Some [0xBF, 0x62, 0x72, 0x63, 5, 0xFF])\<rparr>"

definition demo_com_router :: "CanbusComService SmpBleRouter" where
  "demo_com_router = snd (Router_Initialize True (Router_new (Some demo_com)))"

theorem ble_requests_served_witness:
  "\<exists>s'. receive_writes demo_com_env [(0, [0, 2, 0, 0]), (400, [1, 0, 0, 7, 0, 0xA0])] demo_com_router = s' \<and>
     local_requests s' = [(0, demo_request)]"
proof -
  have r: "router_reachable demo_com_env demo_com_router"
    unfolding demo_com_router_def
    by (rule reachable.move [OF reachable.start]) (auto simp: router_init_def demo_com_env_def intro: router_step.initialize)
  have f: "br_rx_head demo_com_router = []" "br_is_initialized demo_com_router" "br_forwarder demo_com_router = Some demo_com"
    "local_requests demo_com_router = []"
    by (simp_all add: demo_com_router_def Router_Initialize_def Router_new_def local_requests_def)
  have acc: "acceptable demo_com_env demo_request"
    using demo_request_packet by (simp add: acceptable_def demo_com_env_def demo_request_def SmpHeader_Parse_def SMP_HEADER_SIZE_def IsRequest_def OP_WRITE_def)
  show ?thesis
    using ble_requests_served [OF r f(1,2,3) demo_com_reachable, where body = "[0xBF, 0x62, 0x72, 0x63, 5, 0xFF]" and ps = "[(0, demo_request)]"
        and t = 0 and d = "[0, 2, 0, 0]" and ws = "[(400, [1, 0, 0, 7, 0, 0xA0])]"] acc f(4)
    by (auto simp: demo_com_env_def link_bytes_def demo_request_def)
qed

end
