(* ===== verification/Fs_Path.thy ===== *)
theory Fs_Path
  imports Rt_Prelude
begin

text \<open>
  Paths: the bounded string (\<open>src/utilities/string/static_string.hpp\<close>), the path type
  (\<open>filesystem_path.hpp\<close>) and the checks of paths in \<open>src/subsys/fs/services/fs_service.cpp\<close>. A string
  is a list of characters; a bounded string of capacity \<open>n\<close> is one of at most \<open>n\<close>, and an operation
  that does not fit leaves it as it was, as in the code.
\<close>

section \<open>Bounded strings\<close>

definition Str_Append :: "nat \<Rightarrow> string \<Rightarrow> string \<Rightarrow> bool \<times> string" where
  "Str_Append n str s = (if length str > n - length s then (False, s) else (True, s @ str))"

definition Str_Append_char :: "nat \<Rightarrow> char \<Rightarrow> string \<Rightarrow> bool \<times> string" where
  "Str_Append_char n c s = (if length s \<ge> n then (False, s) else (True, s @ [c]))"

definition Str_Truncate :: "nat \<Rightarrow> string \<Rightarrow> bool \<times> string" where
  "Str_Truncate new_size s = (if new_size > length s then (False, s) else (True, take new_size s))"

section \<open>Paths\<close>

definition PATH_SEPARATOR :: char where "PATH_SEPARATOR = CHR ''/''"

text \<open>The path without its trailing separators.\<close>

definition trim_separators :: "string \<Rightarrow> string" where
  "trim_separators s = rev (dropWhile (\<lambda>c. c = PATH_SEPARATOR) (rev s))"

text \<open>\<open>operator/=\<close>.\<close>

definition path_append :: "nat \<Rightarrow> string \<Rightarrow> string \<Rightarrow> string" where
  "path_append n rhs s =
     (if rhs = [] then s
      else let s1 = (if hd rhs = PATH_SEPARATOR then [] else s);
               s2 = (if s1 = [] then s1 else snd (Str_Append_char n PATH_SEPARATOR (trim_separators s1)))
           in snd (Str_Append n rhs s2))"

definition parent_path :: "string \<Rightarrow> string" where
  "parent_path view =
     (if view = [] then []
      else if last view = PATH_SEPARATOR
      then (if trim_separators view = [] then [PATH_SEPARATOR] else trim_separators view)
      else if PATH_SEPARATOR \<notin> set view then []
      else let parent = trim_separators (rev (tl (dropWhile (\<lambda>c. c \<noteq> PATH_SEPARATOR) (rev view))))
           in if parent = [] then [PATH_SEPARATOR] else parent)"

section \<open>Checks\<close>

definition PATH_BUFFER_SIZE :: nat where "PATH_BUFFER_SIZE = 256"

text \<open>The loop over the names between separators, from \<open>start\<close> on: none of them is the parent directory.\<close>

function no_parent_from :: "string \<Rightarrow> nat \<Rightarrow> bool" where
  "no_parent_from path start =
     (if start > length path then True
      else let segment = takeWhile (\<lambda>c. c \<noteq> PATH_SEPARATOR) (drop start path)
           in segment \<noteq> ''..'' \<and> no_parent_from path (start + length segment + 1))"
  by pat_completeness auto

termination no_parent_from
  by (relation "measure (\<lambda>(path, start). Suc (length path) - start)") auto

declare no_parent_from.simps [simp del]

definition TryBuildPath :: "string option \<Rightarrow> string \<Rightarrow> string option" where
  "TryBuildPath mountpoint relative_path =
     (case mountpoint of
        None \<Rightarrow> None
      | Some mnt_point \<Rightarrow>
          if relative_path \<noteq> [] \<and> hd relative_path = PATH_SEPARATOR then None
          else if \<not> no_parent_from relative_path 0 then None
          else if length mnt_point + 1 + length relative_path > PATH_BUFFER_SIZE then None
          else Some (path_append PATH_BUFFER_SIZE relative_path mnt_point))"

text \<open>The next name of a path and the rest of the path.\<close>

function NextName :: "string \<Rightarrow> string \<times> string" where
  "NextName path =
     (if path = [] then ([], [])
      else let name = takeWhile (\<lambda>c. c \<noteq> PATH_SEPARATOR) path;
               rest = drop (min (length name + 1) (length path)) path
           in if name \<noteq> [] \<and> name \<noteq> ''.'' then (name, rest) else NextName rest)"
  by pat_completeness auto

termination NextName
  by (relation "measure length") auto

declare NextName.simps [simp del]

definition ToLowerAscii :: "char \<Rightarrow> char" where
  "ToLowerAscii c = (if 65 \<le> (of_char c :: nat) \<and> (of_char c :: nat) \<le> 90 then char_of ((of_char c :: nat) + 32) else c)"

lemma NextName_Nil [simp]: "NextName [] = ([], [])"
  by (simp add: NextName.simps)

lemma NextName_shorter: "fst (NextName path) \<noteq> [] \<Longrightarrow> length (snd (NextName path)) < length path"
proof (induction path rule: NextName.induct)
  case (1 path)
  show ?case
  proof (cases "path = []")
    case False
    let ?name = "takeWhile (\<lambda>c. c \<noteq> PATH_SEPARATOR) path"
    let ?rest = "drop (min (length ?name + 1) (length path)) path"
    have less: "length ?rest < length path" using False by simp
    show ?thesis
    proof (cases "?name \<noteq> [] \<and> ?name \<noteq> ''.''")
      case True
      then show ?thesis using less False by (subst NextName.simps) (simp add: Let_def)
    next
      case bad: False
      then have "NextName path = NextName ?rest" using False by (subst NextName.simps) (auto simp: Let_def)
      with 1(1) [OF False refl refl bad] 1(2) less show ?thesis by simp
    qed
  qed (use 1(2) in simp)
qed

function IsSameEntryIgnoringCase :: "string \<Rightarrow> string \<Rightarrow> bool" where
  "IsSameEntryIgnoringCase a b =
     (case NextName a of (name_a, a') \<Rightarrow> case NextName b of (name_b, b') \<Rightarrow>
        if map ToLowerAscii name_a \<noteq> map ToLowerAscii name_b then False
        else if name_a = [] then True
        else IsSameEntryIgnoringCase a' b')"
  by pat_completeness auto

termination IsSameEntryIgnoringCase
  by (relation "measure (\<lambda>(a, _). length a)") (auto, metis NextName_shorter fst_conv snd_conv)

declare IsSameEntryIgnoringCase.simps [simp del]

definition IsPlainCharacter :: "char \<Rightarrow> bool" where
  "IsPlainCharacter c \<longleftrightarrow> (let n = (of_char c :: nat) in 97 \<le> n \<and> n \<le> 122 \<or> 65 \<le> n \<and> n \<le> 90 \<or> 48 \<le> n \<and> n \<le> 57 \<or>
     c = CHR ''.'' \<or> c = CHR ''_'' \<or> c = CHR ''-'')"

function IsPlainPath :: "string \<Rightarrow> bool" where
  "IsPlainPath path =
     (case NextName path of (name, rest) \<Rightarrow>
        if name = [] then True
        else if last name = CHR ''.'' \<or> \<not> list_all IsPlainCharacter name then False
        else IsPlainPath rest)"
  by pat_completeness auto

termination IsPlainPath
  by (relation "measure length") (auto, metis NextName_shorter fst_conv snd_conv)

declare IsPlainPath.simps [simp del]

section \<open>The names of a path\<close>

text \<open>The reference for the walks above: the parts between separators, and the names among them.\<close>

fun segments :: "string \<Rightarrow> string list" where
  "segments [] = [[]]"
| "segments (c # cs) =
     (if c = PATH_SEPARATOR then [] # segments cs
      else case segments cs of [] \<Rightarrow> [[c]] | s # ss \<Rightarrow> (c # s) # ss)"

definition is_name :: "string \<Rightarrow> bool" where "is_name n \<longleftrightarrow> n \<noteq> [] \<and> n \<noteq> ''.''"

definition names :: "string \<Rightarrow> string list" where "names path = filter is_name (segments path)"

lemma segments_not_Nil [simp]: "segments s \<noteq> []"
  by (cases s) (simp_all split: list.split)

lemma segments_Cons [simp]:
  "segments (c # cs) = (if c = PATH_SEPARATOR then [] # segments cs else (c # hd (segments cs)) # tl (segments cs))"
  using segments_not_Nil [of cs] by (cases "segments cs") simp_all

declare segments.simps(2) [simp del]

lemma segments_append: "segments (a @ PATH_SEPARATOR # b) = segments a @ segments b"
  by (induction a) simp_all

lemma segments_plain: "PATH_SEPARATOR \<notin> set a \<Longrightarrow> segments a = [a]"
  by (induction a) auto

lemma segments_first:
  "segments s = takeWhile (\<lambda>c. c \<noteq> PATH_SEPARATOR) s #
     (let n = length (takeWhile (\<lambda>c. c \<noteq> PATH_SEPARATOR) s) in if n < length s then segments (drop (n + 1) s) else [])"
  by (induction s) (simp_all add: Let_def)

lemma set_segments:
  "set (segments s) = insert (takeWhile (\<lambda>c. c \<noteq> PATH_SEPARATOR) s)
     (if length (takeWhile (\<lambda>c. c \<noteq> PATH_SEPARATOR) s) < length s
      then set (segments (drop (length (takeWhile (\<lambda>c. c \<noteq> PATH_SEPARATOR) s) + 1) s)) else {})"
  by (rule arg_cong [OF segments_first, of set, THEN trans]) (simp add: Let_def)

lemma names_append: "names (a @ PATH_SEPARATOR # b) = names a @ names b"
  by (simp add: names_def segments_append)

lemma names_Nil [simp]: "names [] = []"
  by (simp add: names_def is_name_def)

lemma names_separators: "names (s @ replicate n PATH_SEPARATOR) = names s"
proof (induction n arbitrary: s)
  case (Suc n)
  then show ?case using names_append [of s "replicate n PATH_SEPARATOR"] Suc [of "[]"] by simp
qed simp

lemma trim_separators_split: "s = trim_separators s @ replicate (length s - length (trim_separators s)) PATH_SEPARATOR"
proof -
  let ?t = "takeWhile (\<lambda>c. c = PATH_SEPARATOR) (rev s)"
  have "rev s = ?t @ dropWhile (\<lambda>c. c = PATH_SEPARATOR) (rev s)" by simp
  then have "s = trim_separators s @ rev ?t" unfolding trim_separators_def by (metis rev_append rev_rev_ident)
  moreover have "\<forall>c \<in> set (rev ?t). c = PATH_SEPARATOR" by (auto dest: set_takeWhileD)
  then have "rev ?t = replicate (length (rev ?t)) PATH_SEPARATOR" by (rule replicate_length_same [symmetric])
  ultimately show ?thesis by (metis add_diff_cancel_left' length_append)
qed

lemma names_trim [simp]: "names (trim_separators s) = names s"
  by (metis names_separators trim_separators_split)

lemma length_trim: "length (trim_separators s) \<le> length s"
  using length_dropWhile_le [of "\<lambda>c. c = PATH_SEPARATOR" "rev s"] by (simp add: trim_separators_def)

lemma names_first:
  "names path = (let n = takeWhile (\<lambda>c. c \<noteq> PATH_SEPARATOR) path;
                     rest = names (drop (min (length n + 1) (length path)) path)
                 in if is_name n then n # rest else rest)"
proof -
  let ?n = "takeWhile (\<lambda>c. c \<noteq> PATH_SEPARATOR) path"
  have "names path = filter is_name (?n # (if length ?n < length path then segments (drop (length ?n + 1) path) else []))"
    unfolding names_def by (subst segments_first) (simp add: Let_def)
  moreover have "(if length ?n < length path then filter is_name (segments (drop (length ?n + 1) path)) else []) =
    names (drop (min (length ?n + 1) (length path)) path)"
    by (cases "length ?n < length path") (simp_all add: names_def is_name_def min_def)
  ultimately show ?thesis by (simp add: Let_def split: if_splits)
qed

lemma NextName_names:
  "names path = (case NextName path of (name, rest) \<Rightarrow> if name = [] then [] else name # names rest)"
proof (induction path rule: NextName.induct)
  case (1 path)
  show ?case
  proof (cases "path = []")
    case False
    let ?name = "takeWhile (\<lambda>c. c \<noteq> PATH_SEPARATOR) path"
    let ?rest = "drop (min (length ?name + 1) (length path)) path"
    show ?thesis
    proof (cases "is_name ?name")
      case True
      then show ?thesis using False names_first [of path]
        by (subst NextName.simps) (simp add: Let_def is_name_def)
    next
      case bad: False
      then have "NextName path = NextName ?rest" using False
        by (subst NextName.simps) (auto simp: Let_def is_name_def)
      moreover have "names path = names ?rest" using bad names_first [of path] by (simp add: Let_def)
      ultimately show ?thesis using 1 [OF False refl refl] bad by (simp add: is_name_def)
    qed
  qed simp
qed

lemma no_parent_from_segments:
  "start \<le> length path \<Longrightarrow> no_parent_from path start \<longleftrightarrow> ''..'' \<notin> set (segments (drop start path))"
proof (induction path start rule: no_parent_from.induct)
  case (1 path start)
  let ?s = "takeWhile (\<lambda>c. c \<noteq> PATH_SEPARATOR) (drop start path)"
  have step: "no_parent_from path start \<longleftrightarrow> ?s \<noteq> ''..'' \<and> no_parent_from path (start + length ?s + 1)"
    using 1(2) by (subst no_parent_from.simps) (simp add: Let_def)
  have next_segment: "drop (start + length ?s + 1) path = drop (length ?s + 1) (drop start path)"
    by (simp only: drop_drop add_ac)
  have set_seg: "set (segments (drop start path)) = insert ?s
    (if length ?s < length (drop start path) then set (segments (drop (start + length ?s + 1) path)) else {})"
    unfolding next_segment by (rule set_segments)
  show ?case
  proof (cases "length ?s < length (drop start path)")
    case True
    then have inside: "start + length ?s + 1 \<le> length path" by simp
    have start: "\<not> start > length path" using 1(2) by simp
    have "no_parent_from path (start + length ?s + 1) \<longleftrightarrow>
      ''..'' \<notin> set (segments (drop (start + length ?s + 1) path))"
      by (rule 1(1) [OF start refl inside])
    then show ?thesis unfolding step set_seg using True by (auto simp only: insert_iff if_True)
  next
    case False
    then have "start + length ?s + 1 > length path" by simp
    then have "no_parent_from path (start + length ?s + 1)" by (subst no_parent_from.simps) simp
    then show ?thesis unfolding step set_seg using False by (auto simp only: insert_iff if_False empty_iff)
  qed
qed

lemma same_entry_names:
  "IsSameEntryIgnoringCase a b \<longleftrightarrow> map (map ToLowerAscii) (names a) = map (map ToLowerAscii) (names b)"
proof (induction a b rule: IsSameEntryIgnoringCase.induct)
  case (1 a b)
  obtain na a' nb b' where n: "NextName a = (na, a')" "NextName b = (nb, b')" by fastforce
  show ?case
    using 1 [OF n(1) [symmetric] n(2) [symmetric]] NextName_names [of a] NextName_names [of b] n
    by (subst IsSameEntryIgnoringCase.simps) (cases "na = []"; cases "nb = []"; simp)
qed

lemma plain_path_names:
  "IsPlainPath path \<longleftrightarrow> list_all (\<lambda>n. last n \<noteq> CHR ''.'' \<and> list_all IsPlainCharacter n) (names path)"
proof (induction path rule: IsPlainPath.induct)
  case (1 path)
  obtain n rest where n: "NextName path = (n, rest)" by fastforce
  show ?case using 1 [OF n [symmetric]] NextName_names [of path] n
    by (subst IsPlainPath.simps) (cases "n = []"; simp)
qed

section \<open>What the checks guarantee\<close>

lemma no_parent_iff: "no_parent_from path 0 \<longleftrightarrow> ''..'' \<notin> set (segments path)"
  using no_parent_from_segments [of 0 path] by simp

lemma path_append_fits:
  assumes "length s + 1 + length rhs \<le> n" "rhs = [] \<or> hd rhs \<noteq> PATH_SEPARATOR"
  shows "path_append n rhs s =
    (if rhs = [] then s else if s = [] then rhs else trim_separators s @ PATH_SEPARATOR # rhs)"
  using assms length_trim [of s]
  by (auto simp: path_append_def Str_Append_def Str_Append_char_def Let_def)

lemma path_append_names:
  assumes "length s + 1 + length rhs \<le> n" "rhs = [] \<or> hd rhs \<noteq> PATH_SEPARATOR"
  shows "names (path_append n rhs s) = names s @ names rhs"
  using path_append_fits [OF assms] by (simp add: names_append)

lemma path_append_length:
  assumes "length s + 1 + length rhs \<le> n" "rhs = [] \<or> hd rhs \<noteq> PATH_SEPARATOR"
  shows "length (path_append n rhs s) \<le> n"
  using path_append_fits [OF assms] assms length_trim [of s] by simp

lemma TryBuildPath_Some:
  "TryBuildPath mountpoint relative_path = Some full_path \<longleftrightarrow>
     (\<exists>mnt_point. mountpoint = Some mnt_point \<and> (relative_path = [] \<or> hd relative_path \<noteq> PATH_SEPARATOR) \<and>
        ''..'' \<notin> set (segments relative_path) \<and> length mnt_point + 1 + length relative_path \<le> PATH_BUFFER_SIZE \<and>
        full_path = path_append PATH_BUFFER_SIZE relative_path mnt_point)"
  by (auto simp: TryBuildPath_def no_parent_iff split: option.splits)

text \<open>
  A path that is built stays inside the mount point: it names the entries of the relative path below
  those of the mount point, none of them the parent directory, and it fits its buffer.
\<close>

lemma TryBuildPath_inside:
  assumes "TryBuildPath (Some mnt_point) relative_path = Some full_path"
  shows "names full_path = names mnt_point @ names relative_path"
    and "''..'' \<notin> set (names relative_path)"
    and "length full_path \<le> PATH_BUFFER_SIZE"
  using assms path_append_names [of mnt_point relative_path] path_append_length [of mnt_point relative_path]
  by (auto simp: TryBuildPath_Some names_def)

text \<open>The parent of a path that had one component added is the path, without its trailing separators.\<close>

lemma parent_path_append:
  assumes "length s + 1 + length name \<le> n" "name \<noteq> []" "PATH_SEPARATOR \<notin> set name"
  shows "parent_path (path_append n name s) =
    (if s = [] then [] else if trim_separators s = [] then [PATH_SEPARATOR] else trim_separators s)"
proof -
  have hd: "hd name \<noteq> PATH_SEPARATOR" using assms(2,3) by (cases name) auto
  have last: "last name \<noteq> PATH_SEPARATOR" using assms(2,3) last_in_set by metis
  have rest: "tl (dropWhile (\<lambda>c. c \<noteq> PATH_SEPARATOR) (rev (s' @ PATH_SEPARATOR # name))) = rev s'" for s'
  proof -
    have "dropWhile (\<lambda>c. c \<noteq> PATH_SEPARATOR) (rev name @ PATH_SEPARATOR # rev s') = PATH_SEPARATOR # rev s'"
      using assms(3) by (subst dropWhile_append2) auto
    then show ?thesis by simp
  qed
  have idem: "trim_separators (trim_separators s) = trim_separators s"
    by (simp add: trim_separators_def dropWhile_idem)
  show ?thesis
    using path_append_fits [OF assms(1)] hd last assms(2,3) rest [of "trim_separators s"] idem
    by (auto simp: parent_path_def Let_def)
qed

end
