(* ===== verification/Fs_Service.thy ===== *)
theory Fs_Service
  imports Fs_Path
begin

text \<open>
  The file system service, \<open>src/subsys/fs/services/fs_service.cpp\<close>, and the card monitor of
  \<open>sdmmc_service.cpp\<close>. Zephyr's file system API is the record \<open>zephyr_fs\<close>: every call takes and returns
  the state of the volume, so that a call can fail differently each time. A file or directory handle is
  a number. The mutex makes each operation one step; handles, data and results are explicit.
\<close>

section \<open>Zephyr's file system\<close>

definition ENOENT :: int where "ENOENT = 2"
definition EIO :: int where "EIO = 5"
definition EBADF :: int where "EBADF = 9"
definition ENOMEM :: int where "ENOMEM = 12"
definition EEXIST :: int where "EEXIST = 17"
definition ENODEV :: int where "ENODEV = 19"
definition ENOTDIR :: int where "ENOTDIR = 20"
definition EISDIR :: int where "EISDIR = 21"
definition EINVAL :: int where "EINVAL = 22"
definition ENOSPC :: int where "ENOSPC = 28"

lemmas errno_defs = ENOENT_def EIO_def EBADF_def ENOMEM_def EEXIST_def ENODEV_def ENOTDIR_def EISDIR_def EINVAL_def
  ENOSPC_def

datatype fs_mode_flag = FS_O_READ | FS_O_WRITE | FS_O_CREATE | FS_O_APPEND | FS_O_TRUNC

datatype fs_whence = FS_SEEK_SET | FS_SEEK_CUR | FS_SEEK_END

datatype fs_entry_type = FS_DIR_ENTRY_FILE | FS_DIR_ENTRY_DIR

record fs_dirent =
  ent_type :: fs_entry_type
  ent_name :: string
  ent_size :: nat

record fs_statvfs_t =
  f_frsize :: u32
  f_blocks :: u32
  f_bfree :: u32

record 'v zephyr_fs =
  fs_open :: "string \<Rightarrow> fs_mode_flag list \<Rightarrow> 'v \<Rightarrow> int \<times> nat \<times> 'v"
  fs_close :: "nat \<Rightarrow> 'v \<Rightarrow> int \<times> 'v"
  fs_read :: "nat \<Rightarrow> nat \<Rightarrow> 'v \<Rightarrow> int \<times> bytes \<times> 'v"
  fs_write :: "nat \<Rightarrow> bytes \<Rightarrow> 'v \<Rightarrow> int \<times> 'v"
  fs_seek :: "nat \<Rightarrow> int \<Rightarrow> fs_whence \<Rightarrow> 'v \<Rightarrow> int \<times> 'v"
  fs_tell :: "nat \<Rightarrow> 'v \<Rightarrow> int \<times> 'v"
  fs_sync :: "nat \<Rightarrow> 'v \<Rightarrow> int \<times> 'v"
  fs_mkdir :: "string \<Rightarrow> 'v \<Rightarrow> int \<times> 'v"
  fs_unlink :: "string \<Rightarrow> 'v \<Rightarrow> int \<times> 'v"
  fs_rename :: "string \<Rightarrow> string \<Rightarrow> 'v \<Rightarrow> int \<times> 'v"
  fs_stat :: "string \<Rightarrow> 'v \<Rightarrow> int \<times> fs_dirent \<times> 'v"
  fs_opendir :: "string \<Rightarrow> 'v \<Rightarrow> int \<times> nat \<times> 'v"
  fs_readdir :: "nat \<Rightarrow> 'v \<Rightarrow> int \<times> fs_dirent \<times> 'v"
  fs_closedir :: "nat \<Rightarrow> 'v \<Rightarrow> int \<times> 'v"
  fs_statvfs :: "string \<Rightarrow> 'v \<Rightarrow> int \<times> fs_statvfs_t \<times> 'v"
  fs_mount :: "'v \<Rightarrow> int \<times> 'v"
  fs_unmount :: "'v \<Rightarrow> int \<times> 'v"
  fs_mkfs :: "'v \<Rightarrow> int \<times> 'v"
  fs_linked :: "'v \<Rightarrow> bool"

text \<open>The file system reads a path as a C string, which ends at its first null character.\<close>

definition CStr :: "string \<Rightarrow> string" where
  "CStr s = takeWhile (\<lambda>c. c \<noteq> CHR 0x00) s"

section \<open>The service\<close>

record 'v fs_service =
  fs_mountpoint :: "string option"
  fs_mount_generation :: u32
  fs_volume :: 'v

definition IsMounted :: "'v zephyr_fs \<Rightarrow> 'v fs_service \<Rightarrow> bool" where
  "IsMounted Z s \<longleftrightarrow> fs_mountpoint s \<noteq> None \<and> fs_linked Z (fs_volume s)"

definition Mount :: "'v zephyr_fs \<Rightarrow> 'v fs_service \<Rightarrow> bool \<times> 'v fs_service" where
  "Mount Z s =
     (if IsMounted Z s then (True, s)
      else if fs_mountpoint s = None then (False, s)
      else case fs_mount Z (fs_volume s) of (rc, v) \<Rightarrow>
        if rc < 0 then (False, s\<lparr>fs_volume := v\<rparr>)
        else let s1 = s\<lparr>fs_volume := v, fs_mount_generation := fs_mount_generation s + 1\<rparr>
             in (IsMounted Z s1, s1))"

definition Unmount :: "'v zephyr_fs \<Rightarrow> 'v fs_service \<Rightarrow> 'v fs_service" where
  "Unmount Z s = (if \<not> IsMounted Z s then s else s\<lparr>fs_volume := snd (fs_unmount Z (fs_volume s))\<rparr>)"

definition Fs_Initialize :: "'v zephyr_fs \<Rightarrow> 'v fs_service \<Rightarrow> bool \<times> 'v fs_service" where
  "Fs_Initialize Z s =
     (if fs_mountpoint s = None then (False, s)
      else if \<not> IsMounted Z s then Mount Z s
      else (True, s))"

definition Fs_IsAvailable :: "'v zephyr_fs \<Rightarrow> 'v fs_service \<Rightarrow> bool" where
  "Fs_IsAvailable Z s = IsMounted Z s"

definition Format :: "'v zephyr_fs \<Rightarrow> 'v fs_service \<Rightarrow> bool \<times> 'v fs_service" where
  "Format Z s =
     (if fs_mountpoint s = None then (False, s)
      else let s1 = Unmount Z s
           in if IsMounted Z s1 then (False, s1)
              else case fs_mkfs Z (fs_volume s1) of (rc, v) \<Rightarrow>
                let s2 = s1\<lparr>fs_volume := v\<rparr>
                in if rc < 0 then (False, snd (Mount Z s2)) else Mount Z s2)"

text \<open>What the operations on paths share: the volume has to be mounted and the path to be built.\<close>

definition with_path ::
  "'v zephyr_fs \<Rightarrow> 'v fs_service \<Rightarrow> string \<Rightarrow> 'a \<Rightarrow> 'a \<Rightarrow> (string \<Rightarrow> 'v \<Rightarrow> 'a \<times> 'v) \<Rightarrow> 'a \<times> 'v fs_service" where
  "with_path Z s relative_path not_mounted bad_path run =
     (if \<not> IsMounted Z s then (not_mounted, s)
      else case TryBuildPath (fs_mountpoint s) relative_path of
        None \<Rightarrow> (bad_path, s)
      | Some full_path \<Rightarrow> (case run full_path (fs_volume s) of (r, v) \<Rightarrow> (r, s\<lparr>fs_volume := v\<rparr>)))"

definition WriteFile ::
  "'v zephyr_fs \<Rightarrow> string \<Rightarrow> bytes \<Rightarrow> bool \<Rightarrow> 'v fs_service \<Rightarrow> bool \<times> 'v fs_service" where
  "WriteFile Z relative_path data append_mode s = with_path Z s relative_path False False (\<lambda>full_path v.
     case fs_open Z (CStr full_path) [FS_O_WRITE, FS_O_CREATE, if append_mode then FS_O_APPEND else FS_O_TRUNC] v of
       (rc, file, v1) \<Rightarrow>
         if rc < 0 then (False, v1)
         else case fs_write Z file data v1 of (written, v2) \<Rightarrow>
           case fs_close Z file v2 of (close_rc, v3) \<Rightarrow>
             if written < 0 then (False, v3)
             else if written \<noteq> int (length data) then (False, v3)
             else if close_rc < 0 then (False, v3)
             else (True, v3))"

text \<open>The result of a read is whether it succeeded and the bytes it stored, as many as \<open>out_len\<close>.\<close>

definition ReadFile ::
  "'v zephyr_fs \<Rightarrow> string \<Rightarrow> nat \<Rightarrow> 'v fs_service \<Rightarrow> (bool \<times> bytes) \<times> 'v fs_service" where
  "ReadFile Z relative_path data_size s = with_path Z s relative_path (False, []) (False, []) (\<lambda>full_path v.
     case fs_open Z (CStr full_path) [FS_O_READ] v of (rc, file, v1) \<Rightarrow>
       if rc < 0 then ((False, []), v1)
       else case fs_read Z file data_size v1 of (read, data, v2) \<Rightarrow>
         case fs_close Z file v2 of (_, v3) \<Rightarrow>
           if read < 0 then ((False, []), v3)
           else ((True, take (nat read) data), v3))"

text \<open>The result of opening a file is the code of \<open>fs_open\<close> and the handle.\<close>

definition OpenFile ::
  "'v zephyr_fs \<Rightarrow> string \<Rightarrow> fs_mode_flag list \<Rightarrow> 'v fs_service \<Rightarrow> (int \<times> nat) \<times> 'v fs_service" where
  "OpenFile Z relative_path flags s = with_path Z s relative_path (- ENODEV, 0) (- EINVAL, 0) (\<lambda>full_path v.
     case fs_open Z (CStr full_path) flags v of (rc, file, v1) \<Rightarrow> ((rc, file), v1))"

text \<open>The directories along the path are created one by one.\<close>

function make_directories ::
  "'v zephyr_fs \<Rightarrow> string \<Rightarrow> nat \<Rightarrow> string \<Rightarrow> 'v \<Rightarrow> bool \<times> 'v" where
  "make_directories Z relative_path start current_path v =
     (if start < length relative_path
      then let segment = takeWhile (\<lambda>c. c \<noteq> PATH_SEPARATOR) (drop start relative_path);
               start' = start + length segment + 1
           in if segment = [] then make_directories Z relative_path start' current_path v
              else let current_path' = path_append PATH_BUFFER_SIZE segment current_path
                   in case fs_mkdir Z (CStr current_path') v of (rc, v1) \<Rightarrow>
                        if rc < 0 \<and> rc \<noteq> - EEXIST then (False, v1)
                        else make_directories Z relative_path start' current_path' v1
      else (True, v))"
  by pat_completeness auto

termination make_directories
  by (relation "measure (\<lambda>(_, path, start, _). length path - start)") auto

declare make_directories.simps [simp del]

definition CreateDirectory :: "'v zephyr_fs \<Rightarrow> string \<Rightarrow> 'v fs_service \<Rightarrow> bool \<times> 'v fs_service" where
  "CreateDirectory Z relative_path s = with_path Z s relative_path False False (\<lambda>_ v.
     make_directories Z relative_path 0 (the (fs_mountpoint s)) v)"

definition Fs_Exists :: "'v zephyr_fs \<Rightarrow> string \<Rightarrow> 'v fs_service \<Rightarrow> bool \<times> 'v fs_service" where
  "Fs_Exists Z relative_path s = with_path Z s relative_path False False (\<lambda>full_path v.
     case fs_stat Z (CStr full_path) v of (rc, _, v1) \<Rightarrow> (rc = 0, v1))"

definition DeleteFile :: "'v zephyr_fs \<Rightarrow> string \<Rightarrow> 'v fs_service \<Rightarrow> bool \<times> 'v fs_service" where
  "DeleteFile Z relative_path s = with_path Z s relative_path False False (\<lambda>full_path v.
     case fs_unlink Z (CStr full_path) v of (rc, v1) \<Rightarrow> (\<not> rc < 0, v1))"

definition Fs_Rename :: "'v zephyr_fs \<Rightarrow> string \<Rightarrow> string \<Rightarrow> 'v fs_service \<Rightarrow> int \<times> 'v fs_service" where
  "Fs_Rename Z from to s =
     (if \<not> IsMounted Z s then (- ENODEV, s)
      else if from = [] \<or> to = [] then (- EINVAL, s)
      else case (TryBuildPath (fs_mountpoint s) from, TryBuildPath (fs_mountpoint s) to) of
        (Some from_path, Some to_path) \<Rightarrow>
          if \<not> IsPlainPath from \<or> \<not> IsPlainPath to then (- EINVAL, s)
          else if IsSameEntryIgnoringCase from to then (- EINVAL, s)
          else (case fs_stat Z (CStr from_path) (fs_volume s) of (rc, _, v1) \<Rightarrow>
                  if rc < 0 then (rc, s\<lparr>fs_volume := v1\<rparr>)
                  else case fs_rename Z (CStr from_path) (CStr to_path) v1 of (rc, v2) \<Rightarrow>
                    (rc, s\<lparr>fs_volume := v2\<rparr>))
      | _ \<Rightarrow> (- EINVAL, s))"

definition Fs_GetFileSize :: "'v zephyr_fs \<Rightarrow> string \<Rightarrow> 'v fs_service \<Rightarrow> nat option \<times> 'v fs_service" where
  "Fs_GetFileSize Z relative_path s = with_path Z s relative_path None None (\<lambda>full_path v.
     case fs_stat Z (CStr full_path) v of (rc, entry, v1) \<Rightarrow>
       if rc < 0 then (None, v1)
       else if ent_type entry = FS_DIR_ENTRY_DIR then (None, v1)
       else (Some (ent_size entry), v1))"

text \<open>The sizes are 64-bit: the counts of allocation units are cast before they are multiplied.\<close>

definition with_statvfs ::
  "'v zephyr_fs \<Rightarrow> (fs_statvfs_t \<Rightarrow> 64 word) \<Rightarrow> 'v fs_service \<Rightarrow> 64 word \<times> 'v fs_service" where
  "with_statvfs Z f s =
     (if \<not> IsMounted Z s then (0, s)
      else case fs_statvfs Z (the (fs_mountpoint s)) (fs_volume s) of (rc, stat, v) \<Rightarrow>
        (if rc < 0 then 0 else f stat, s\<lparr>fs_volume := v\<rparr>))"

definition GetTotalSpace :: "'v zephyr_fs \<Rightarrow> 'v fs_service \<Rightarrow> 64 word \<times> 'v fs_service" where
  "GetTotalSpace Z = with_statvfs Z (\<lambda>stat. ucast (f_blocks stat) * ucast (f_frsize stat))"

definition GetUsedSpace :: "'v zephyr_fs \<Rightarrow> 'v fs_service \<Rightarrow> 64 word \<times> 'v fs_service" where
  "GetUsedSpace Z = with_statvfs Z (\<lambda>stat. ucast (f_blocks stat - f_bfree stat) * ucast (f_frsize stat))"

definition GetMountGeneration :: "'v fs_service \<Rightarrow> u32" where
  "GetMountGeneration s = fs_mount_generation s"

section \<open>Directories\<close>

record directory_entry =
  de_name :: string
  de_size :: nat
  de_is_directory :: bool

definition to_directory_entry :: "fs_dirent \<Rightarrow> directory_entry" where
  "to_directory_entry entry =
     (let is_directory = (ent_type entry = FS_DIR_ENTRY_DIR)
      in \<lparr>de_name = ent_name entry, de_size = (if is_directory then 0 else ent_size entry),
          de_is_directory = is_directory\<rparr>)"

text \<open>The walks over a directory end when it does, so they are partial.\<close>

partial_function (option) list_files ::
  "'v zephyr_fs \<Rightarrow> nat \<Rightarrow> string list \<Rightarrow> 'v \<Rightarrow> (string list \<times> 'v) option" where
  "list_files Z dir files v =
     (case fs_readdir Z dir v of (rc, entry, v1) \<Rightarrow>
        if rc < 0 then Some ([], v1)
        else if ent_name entry = [] then Some (files, v1)
        else list_files Z dir (files @ [ent_name entry]) v1)"

definition ListFiles :: "'v zephyr_fs \<Rightarrow> string \<Rightarrow> 'v fs_service \<Rightarrow> (string list \<times> 'v fs_service) option" where
  "ListFiles Z relative_path s =
     (if \<not> IsMounted Z s then Some ([], s)
      else case TryBuildPath (fs_mountpoint s) relative_path of
        None \<Rightarrow> Some ([], s)
      | Some full_path \<Rightarrow>
          (case fs_opendir Z (CStr full_path) (fs_volume s) of (rc, dir, v1) \<Rightarrow>
             if rc < 0 then Some ([], s\<lparr>fs_volume := v1\<rparr>)
             else map_option (\<lambda>(files, v2). (files, s\<lparr>fs_volume := snd (fs_closedir Z dir v2)\<rparr>))
                    (list_files Z dir [] v1)))"

partial_function (option) list_directory ::
  "'v zephyr_fs \<Rightarrow> nat \<Rightarrow> nat \<Rightarrow> nat \<Rightarrow> directory_entry list \<Rightarrow> nat \<Rightarrow> 'v \<Rightarrow>
     ((int \<times> directory_entry list \<times> nat) \<times> 'v) option" where
  "list_directory Z dir first max_entries entries count v =
     (case fs_readdir Z dir v of (rc, entry, v1) \<Rightarrow>
        if rc < 0 then Some ((rc, [], 0), v1)
        else if ent_name entry = [] then Some ((0, entries, count), v1)
        else list_directory Z dir first max_entries
               (if count \<ge> first \<and> length entries < max_entries then entries @ [to_directory_entry entry] else entries)
               (count + 1) v1)"

definition ListDirectory ::
  "'v zephyr_fs \<Rightarrow> string \<Rightarrow> nat \<Rightarrow> nat \<Rightarrow> 'v fs_service \<Rightarrow>
     ((int \<times> directory_entry list \<times> nat) \<times> 'v fs_service) option" where
  "ListDirectory Z relative_path first max_entries s =
     (if \<not> IsMounted Z s then Some ((- ENODEV, [], 0), s)
      else case TryBuildPath (fs_mountpoint s) relative_path of
        None \<Rightarrow> Some ((- EINVAL, [], 0), s)
      | Some full_path \<Rightarrow>
          (case fs_opendir Z (CStr full_path) (fs_volume s) of (rc, dir, v1) \<Rightarrow>
             if rc < 0
             then (if rc = - ENOENT
                   then case fs_stat Z (CStr full_path) v1 of (stat_rc, entry, v2) \<Rightarrow>
                          Some ((if stat_rc = 0 \<and> ent_type entry = FS_DIR_ENTRY_FILE then - ENOTDIR else rc, [], 0),
                                s\<lparr>fs_volume := v2\<rparr>)
                   else Some ((rc, [], 0), s\<lparr>fs_volume := v1\<rparr>))
             else map_option (\<lambda>(r, v2). (r, s\<lparr>fs_volume := snd (fs_closedir Z dir v2)\<rparr>))
                    (list_directory Z dir first max_entries [] 0 v1)))"

text \<open>
  \<open>DeleteDirectoryContents\<close>: without a directory handle, the function at its entry; with one, its loop
  from the next entry on. The path buffer is shared by the calls, so it is returned.
\<close>

partial_function (option) delete_contents ::
  "'v zephyr_fs \<Rightarrow> nat option \<Rightarrow> string \<Rightarrow> 'v \<Rightarrow> (bool \<times> string \<times> 'v) option" where
  "delete_contents Z at full_path v =
     (case at of
        None \<Rightarrow>
          (case fs_opendir Z (CStr full_path) v of (rc, dir, v1) \<Rightarrow>
             if rc < 0 then Some (False, full_path, v1) else delete_contents Z (Some dir) full_path v1)
      | Some dir \<Rightarrow>
          (case fs_readdir Z dir v of (rc, entry, v1) \<Rightarrow>
             if rc < 0 then Some (False, full_path, snd (fs_closedir Z dir v1))
             else if ent_name entry = [] then Some (True, full_path, snd (fs_closedir Z dir v1))
             else let base_path_size = length full_path
                  in if base_path_size + 1 + length (ent_name entry) > PATH_BUFFER_SIZE
                     then Some (False, full_path, snd (fs_closedir Z dir v1))
                     else let path1 = path_append PATH_BUFFER_SIZE (ent_name entry) full_path
                          in case ent_type entry of
                               FS_DIR_ENTRY_FILE \<Rightarrow>
                                 (case fs_unlink Z (CStr path1) v1 of (rc, v2) \<Rightarrow>
                                    if rc < 0 then Some (False, path1, snd (fs_closedir Z dir v2))
                                    else delete_contents Z (Some dir) (snd (Str_Truncate base_path_size path1)) v2)
                             | FS_DIR_ENTRY_DIR \<Rightarrow>
                                 Option.bind (delete_contents Z None path1 v1) (\<lambda>(ok, path2, v2).
                                    if \<not> ok then Some (False, path2, snd (fs_closedir Z dir v2))
                                    else case fs_unlink Z (CStr path2) v2 of (rc, v3) \<Rightarrow>
                                      if rc < 0 then Some (False, path2, snd (fs_closedir Z dir v3))
                                      else delete_contents Z (Some dir) (snd (Str_Truncate base_path_size path2)) v3)))"

definition DeleteDirectoryContents :: "'v zephyr_fs \<Rightarrow> string \<Rightarrow> 'v \<Rightarrow> (bool \<times> string \<times> 'v) option" where
  "DeleteDirectoryContents Z full_path v = delete_contents Z None full_path v"

definition DeleteRecursive :: "'v zephyr_fs \<Rightarrow> string \<Rightarrow> 'v fs_service \<Rightarrow> (bool \<times> 'v fs_service) option" where
  "DeleteRecursive Z relative_path s =
     (if \<not> IsMounted Z s then Some (False, s)
      else case TryBuildPath (fs_mountpoint s) relative_path of
        None \<Rightarrow> Some (False, s)
      | Some full_path \<Rightarrow>
          map_option (\<lambda>(ok, _, v). (ok, s\<lparr>fs_volume := v\<rparr>)) (DeleteDirectoryContents Z full_path (fs_volume s)))"

section \<open>The service stays inside its mount point\<close>

definition inside :: "string \<Rightarrow> string \<Rightarrow> bool" where
  "inside mnt_point path \<longleftrightarrow> length path \<le> PATH_BUFFER_SIZE \<and>
     (\<exists>ns. names path = names mnt_point @ ns \<and> ''..'' \<notin> set ns)"

definition no_null :: "string \<Rightarrow> bool" where "no_null path \<longleftrightarrow> CHR 0x00 \<notin> set path"

definition one_separator :: "string \<Rightarrow> bool" where
  "one_separator path \<longleftrightarrow> length path \<le> length (trim_separators path) + 1"

text \<open>A directory holds names of one component, never the directory itself or its parent.\<close>

definition entry_ok :: "fs_dirent \<Rightarrow> bool" where
  "entry_ok e \<longleftrightarrow> no_null (ent_name e) \<and> PATH_SEPARATOR \<notin> set (ent_name e) \<and> ent_name e \<noteq> ''.'' \<and> ent_name e \<noteq> ''..''"

text \<open>A predicate of the volume that every call keeps, as long as the paths it is given lie inside.\<close>

definition keeps_inside :: "'v zephyr_fs \<Rightarrow> string \<Rightarrow> ('v \<Rightarrow> bool) \<Rightarrow> bool" where
  "keeps_inside Z mnt I \<longleftrightarrow>
     (\<forall>p fl v. inside mnt p \<longrightarrow> I v \<longrightarrow> I (snd (snd (fs_open Z p fl v)))) \<and>
     (\<forall>h v. I v \<longrightarrow> I (snd (fs_close Z h v))) \<and>
     (\<forall>h n v. I v \<longrightarrow> I (snd (snd (fs_read Z h n v)))) \<and>
     (\<forall>h bs v. I v \<longrightarrow> I (snd (fs_write Z h bs v))) \<and>
     (\<forall>p v. inside mnt p \<longrightarrow> I v \<longrightarrow> I (snd (fs_mkdir Z p v))) \<and>
     (\<forall>p v. inside mnt p \<longrightarrow> I v \<longrightarrow> I (snd (fs_unlink Z p v))) \<and>
     (\<forall>p q v. inside mnt p \<longrightarrow> inside mnt q \<longrightarrow> I v \<longrightarrow> I (snd (fs_rename Z p q v))) \<and>
     (\<forall>p v. inside mnt p \<longrightarrow> I v \<longrightarrow> I (snd (snd (fs_stat Z p v)))) \<and>
     (\<forall>p v. inside mnt p \<longrightarrow> I v \<longrightarrow> I (snd (snd (fs_opendir Z p v)))) \<and>
     (\<forall>d v. I v \<longrightarrow> I (snd (snd (fs_readdir Z d v))) \<and> entry_ok (fst (snd (fs_readdir Z d v)))) \<and>
     (\<forall>d v. I v \<longrightarrow> I (snd (fs_closedir Z d v))) \<and>
     (\<forall>v. I v \<longrightarrow> I (snd (snd (fs_statvfs Z mnt v)))) \<and>
     (\<forall>v. I v \<longrightarrow> I (snd (fs_mount Z v)) \<and> I (snd (fs_unmount Z v)) \<and> I (snd (fs_mkfs Z v)))"

lemma keeps_insideD:
  assumes "keeps_inside Z mnt I" "I v"
  shows "fs_open Z p fl v = (rc, h, v') \<Longrightarrow> inside mnt p \<Longrightarrow> I v'"
    and "fs_close Z h v = (rc, v') \<Longrightarrow> I v'"
    and "fs_read Z h n v = (rc, bs, v') \<Longrightarrow> I v'"
    and "fs_write Z h bs v = (rc, v') \<Longrightarrow> I v'"
    and "fs_mkdir Z p v = (rc, v') \<Longrightarrow> inside mnt p \<Longrightarrow> I v'"
    and "fs_unlink Z p v = (rc, v') \<Longrightarrow> inside mnt p \<Longrightarrow> I v'"
    and "fs_rename Z p q v = (rc, v') \<Longrightarrow> inside mnt p \<Longrightarrow> inside mnt q \<Longrightarrow> I v'"
    and "fs_stat Z p v = (rc, e, v') \<Longrightarrow> inside mnt p \<Longrightarrow> I v'"
    and "fs_opendir Z p v = (rc, h, v') \<Longrightarrow> inside mnt p \<Longrightarrow> I v'"
    and "fs_readdir Z h v = (rc, e, v') \<Longrightarrow> I v' \<and> entry_ok e"
    and "fs_closedir Z h v = (rc, v') \<Longrightarrow> I v'"
    and "fs_statvfs Z mnt v = (rc, st, v') \<Longrightarrow> I v'"
    and "fs_mount Z v = (rc, v') \<Longrightarrow> I v'"
    and "fs_unmount Z v = (rc, v') \<Longrightarrow> I v'"
    and "fs_mkfs Z v = (rc, v') \<Longrightarrow> I v'"
  using assms unfolding keeps_inside_def by (metis fst_conv snd_conv)+

lemma keeps_inside_snd:
  assumes "keeps_inside Z mnt I" "I v"
  shows "inside mnt p \<Longrightarrow> I (snd (snd (fs_open Z p fl v)))"
    and "I (snd (fs_close Z h v))"
    and "I (snd (snd (fs_read Z h n v)))"
    and "I (snd (fs_write Z h bs v))"
    and "inside mnt p \<Longrightarrow> I (snd (fs_unlink Z p v))"
    and "inside mnt p \<Longrightarrow> inside mnt q \<Longrightarrow> I (snd (fs_rename Z p q v))"
    and "inside mnt p \<Longrightarrow> I (snd (snd (fs_stat Z p v)))"
    and "inside mnt p \<Longrightarrow> I (snd (snd (fs_opendir Z p v)))"
    and "I (snd (fs_closedir Z h v))"
  using assms by (simp_all add: keeps_inside_def)

lemma CStr_no_null [simp]: "no_null s \<Longrightarrow> CStr s = s"
  by (auto simp: CStr_def no_null_def takeWhile_eq_all_conv)

lemma set_trim: "set (trim_separators s) \<subseteq> set s"
  by (auto simp: trim_separators_def dest: set_dropWhileD)

lemma path_append_no_null:
  assumes "length s + 1 + length rhs \<le> n" "rhs = [] \<or> hd rhs \<noteq> PATH_SEPARATOR" "no_null s" "no_null rhs"
  shows "no_null (path_append n rhs s)"
  using path_append_fits [OF assms(1,2)] assms(3,4) set_trim [of s]
  by (auto simp: no_null_def PATH_SEPARATOR_def)

lemma built_inside:
  assumes "TryBuildPath (Some mnt) relative_path = Some full_path" "no_null mnt" "no_null relative_path"
  shows "inside mnt full_path" "no_null full_path"
  using TryBuildPath_inside [OF assms(1)] assms path_append_no_null [of mnt relative_path]
  by (auto simp: inside_def TryBuildPath_Some)

lemma append_entry:
  assumes "length p + 1 + length (ent_name e) \<le> PATH_BUFFER_SIZE" "entry_ok e" "ent_name e \<noteq> []"
    and "inside mnt p" "no_null p"
  shows "inside mnt (path_append PATH_BUFFER_SIZE (ent_name e) p)"
    and "no_null (path_append PATH_BUFFER_SIZE (ent_name e) p)"
    and "one_separator (path_append PATH_BUFFER_SIZE (ent_name e) p)"
    and "one_separator p \<Longrightarrow>
      snd (Str_Truncate (length p) (path_append PATH_BUFFER_SIZE (ent_name e) p)) = p"
proof -
  have plain: "ent_name e = [] \<or> hd (ent_name e) \<noteq> PATH_SEPARATOR"
    using assms(2) by (auto simp: entry_ok_def) (metis list.set_sel(1))
  have last: "last (ent_name e) \<noteq> PATH_SEPARATOR"
    using assms(2,3) by (metis entry_ok_def last_in_set)
  note fits = path_append_fits [OF assms(1) plain]
  have "names (ent_name e) = [ent_name e]"
    using assms(2,3) by (simp add: names_def segments_plain entry_ok_def is_name_def)
  then show "inside mnt (path_append PATH_BUFFER_SIZE (ent_name e) p)"
    using path_append_names [OF assms(1) plain] path_append_length [OF assms(1) plain] assms(2,4)
    by (auto simp: inside_def entry_ok_def)
  show "no_null (path_append PATH_BUFFER_SIZE (ent_name e) p)"
    using path_append_no_null [OF assms(1) plain assms(5)] assms(2) by (simp add: entry_ok_def)
  have trim: "trim_separators (q @ ent_name e) = q @ ent_name e" for q
    using assms(3) last by (cases "ent_name e" rule: rev_cases) (simp_all add: trim_separators_def)
  show "one_separator (path_append PATH_BUFFER_SIZE (ent_name e) p)"
    using assms(3) fits trim [of "[]"] trim [of "trim_separators p @ [PATH_SEPARATOR]"] by (simp add: one_separator_def)
  show "snd (Str_Truncate (length p) (path_append PATH_BUFFER_SIZE (ent_name e) p)) = p" if "one_separator p"
  proof -
    have "length p = length (trim_separators p) \<or> length p = Suc (length (trim_separators p))"
      using that length_trim [of p] by (auto simp: one_separator_def)
    then have "take (length p) (trim_separators p @ PATH_SEPARATOR # ent_name e) = p"
    proof
      assume "length p = length (trim_separators p)"
      then show ?thesis using trim_separators_split [of p] by simp
    next
      assume "length p = Suc (length (trim_separators p))"
      then show ?thesis using trim_separators_split [of p] by simp
    qed
    then show ?thesis using fits length_trim [of p] that assms(3)
      by (auto simp: Str_Truncate_def one_separator_def)
  qed
qed

definition delete_safe :: "string \<Rightarrow> ('v \<Rightarrow> bool) \<Rightarrow> string \<Rightarrow> 'v \<Rightarrow> bool \<times> string \<times> 'v \<Rightarrow> bool" where
  "delete_safe mnt I full_path v r \<longleftrightarrow>
     inside mnt full_path \<and> no_null full_path \<and> one_separator full_path \<and> I v \<longrightarrow>
     I (snd (snd r)) \<and> (fst r \<longrightarrow> fst (snd r) = full_path)"

lemma delete_safeD:
  assumes "delete_safe mnt I p v r" "inside mnt p" "no_null p" "one_separator p" "I v"
  shows "I (snd (snd r))" "fst r \<longrightarrow> fst (snd r) = p"
  using assms by (auto simp: delete_safe_def)

lemma delete_file_step:
  fixes del :: "nat option \<Rightarrow> string \<Rightarrow> 'v \<Rightarrow> (bool \<times> string \<times> 'v) option"
  assumes Z: "keeps_inside Z mnt I" and IH: "\<And>at p v r. del at p v = Some r \<Longrightarrow> delete_safe mnt I p v r"
    and p: "inside mnt p" "no_null p" "one_separator p"
    and p1: "inside mnt p1" "no_null p1" "snd (Str_Truncate (length p) p1) = p" and v: "I v"
    and run: "(case fs_unlink Z (CStr p1) v of (rc, v') \<Rightarrow>
       if rc < 0 then Some (False, p1, snd (fs_closedir Z dir v'))
       else del (Some dir) (snd (Str_Truncate (length p) p1)) v') = Some r"
  shows "I (snd (snd r)) \<and> (fst r \<longrightarrow> fst (snd r) = p)"
proof -
  obtain rc v' where u: "fs_unlink Z p1 v = (rc, v')" by (metis prod.exhaust)
  have v': "I v'" by (rule keeps_insideD(6) [OF Z v u p1(1)])
  have closed: "I (snd (fs_closedir Z dir v'))" by (rule keeps_insideD(11) [OF Z v' prod.collapse [symmetric]])
  show ?thesis
  proof (cases "rc < 0")
    case True
    then show ?thesis using run u p1(2) closed by auto
  next
    case False
    then have "del (Some dir) p v' = Some r" using run u p1(2,3) by simp
    from delete_safeD [OF IH [OF this] p v'] show ?thesis by simp
  qed
qed

lemma delete_directory_step:
  fixes del :: "nat option \<Rightarrow> string \<Rightarrow> 'v \<Rightarrow> (bool \<times> string \<times> 'v) option"
  assumes Z: "keeps_inside Z mnt I" and IH: "\<And>at p v r. del at p v = Some r \<Longrightarrow> delete_safe mnt I p v r"
    and p: "inside mnt p" "no_null p" "one_separator p"
    and p1: "inside mnt p1" "no_null p1" "one_separator p1" "snd (Str_Truncate (length p) p1) = p" and v: "I v"
    and run: "Option.bind (del None p1 v) (\<lambda>(ok, path2, v2).
       if \<not> ok then Some (False, path2, snd (fs_closedir Z dir v2))
       else case fs_unlink Z (CStr path2) v2 of (rc, v3) \<Rightarrow>
         if rc < 0 then Some (False, path2, snd (fs_closedir Z dir v3))
         else del (Some dir) (snd (Str_Truncate (length p) path2)) v3) = Some r"
  shows "I (snd (snd r)) \<and> (fst r \<longrightarrow> fst (snd r) = p)"
proof -
  from run obtain ok p2 v2 where d: "del None p1 v = Some (ok, p2, v2)"
    and rest: "(if \<not> ok then Some (False, p2, snd (fs_closedir Z dir v2))
       else case fs_unlink Z (CStr p2) v2 of (rc, v3) \<Rightarrow>
         if rc < 0 then Some (False, p2, snd (fs_closedir Z dir v3))
         else del (Some dir) (snd (Str_Truncate (length p) p2)) v3) = Some r"
    by (auto simp: bind_eq_Some_conv)
  from delete_safeD [OF IH [OF d] p1(1-3) v] have v2: "I v2" "ok \<longrightarrow> p2 = p1" by auto
  have closed: "I (snd (fs_closedir Z dir v2))"
    by (rule keeps_insideD(11) [OF Z v2(1) prod.collapse [symmetric]])
  show ?thesis
  proof (cases ok)
    case True
    with v2(2) have p2: "p2 = p1" by simp
    from rest True show ?thesis unfolding p2 by (intro delete_file_step [OF Z IH p p1(1,2,4) v2(1)]) simp_all
  next
    case False
    then show ?thesis using rest closed by auto
  qed
qed

lemma delete_step:
  fixes del :: "nat option \<Rightarrow> string \<Rightarrow> 'v \<Rightarrow> (bool \<times> string \<times> 'v) option"
  assumes Z: "keeps_inside Z mnt I" and IH: "\<And>at p v r. del at p v = Some r \<Longrightarrow> delete_safe mnt I p v r"
    and p: "inside mnt p" "no_null p" "one_separator p" and v: "I v"
    and run: "(case fs_readdir Z dir v of (rc, entry, v1) \<Rightarrow>
       if rc < 0 then Some (False, p, snd (fs_closedir Z dir v1))
       else if ent_name entry = [] then Some (True, p, snd (fs_closedir Z dir v1))
       else let base_path_size = length p
            in if base_path_size + 1 + length (ent_name entry) > PATH_BUFFER_SIZE
               then Some (False, p, snd (fs_closedir Z dir v1))
               else let path1 = path_append PATH_BUFFER_SIZE (ent_name entry) p
                    in case ent_type entry of
                         FS_DIR_ENTRY_FILE \<Rightarrow>
                           (case fs_unlink Z (CStr path1) v1 of (rc, v2) \<Rightarrow>
                              if rc < 0 then Some (False, path1, snd (fs_closedir Z dir v2))
                              else del (Some dir) (snd (Str_Truncate base_path_size path1)) v2)
                       | FS_DIR_ENTRY_DIR \<Rightarrow>
                           Option.bind (del None path1 v1) (\<lambda>(ok, path2, v2).
                              if \<not> ok then Some (False, path2, snd (fs_closedir Z dir v2))
                              else case fs_unlink Z (CStr path2) v2 of (rc, v3) \<Rightarrow>
                                if rc < 0 then Some (False, path2, snd (fs_closedir Z dir v3))
                                else del (Some dir) (snd (Str_Truncate base_path_size path2)) v3)) = Some r"
  shows "I (snd (snd r)) \<and> (fst r \<longrightarrow> fst (snd r) = p)"
proof -
  obtain rc e v1 where rd: "fs_readdir Z dir v = (rc, e, v1)" by (metis prod.exhaust)
  have v1: "I v1" "entry_ok e" using keeps_insideD(10) [OF Z v rd] by auto
  have closed: "I (snd (fs_closedir Z dir v1))" by (rule keeps_insideD(11) [OF Z v1(1) prod.collapse [symmetric]])
  show ?thesis
  proof (cases "rc < 0 \<or> ent_name e = [] \<or> length p + 1 + length (ent_name e) > PATH_BUFFER_SIZE")
    case True
    then show ?thesis using run rd closed by (auto simp: Let_def split: if_splits)
  next
    case False
    then have fits: "length p + 1 + length (ent_name e) \<le> PATH_BUFFER_SIZE" "ent_name e \<noteq> []" by auto
    note p1 = append_entry [OF fits(1) v1(2) fits(2) p(1,2)]
    show ?thesis
    proof (cases "ent_type e")
      case FS_DIR_ENTRY_FILE
      then show ?thesis using run rd False
        by (intro delete_file_step [OF Z IH p p1(1,2) p1(4) [OF p(3)] v1(1)]) (simp_all add: Let_def)
    next
      case FS_DIR_ENTRY_DIR
      then show ?thesis using run rd False
        by (intro delete_directory_step [OF Z IH p p1(1-3) p1(4) [OF p(3)] v1(1)]) (simp_all add: Let_def)
    qed
  qed
qed

lemma delete_contents_safe:
  assumes "delete_contents Z at full_path v = Some r" "keeps_inside Z mnt I"
  shows "delete_safe mnt I full_path v r"
proof -
  have "keeps_inside Z mnt I \<longrightarrow> delete_safe mnt I full_path v r"
  proof (rule delete_contents.raw_induct
      [where P = "\<lambda>Z at p v r. keeps_inside Z mnt I \<longrightarrow> delete_safe mnt I p v r", OF _ assms(1)], intro impI, goal_cases)
    case (1 del Z at p v r)
    then have IH: "\<And>at p v r. del Z at p v = Some r \<Longrightarrow> delete_safe mnt I p v r" by blast
    note Z = 1(3)
    show ?case unfolding delete_safe_def
    proof (intro impI, elim conjE)
      assume p: "inside mnt p" "no_null p" "one_separator p" and v: "I v"
      show "I (snd (snd r)) \<and> (fst r \<longrightarrow> fst (snd r) = p)"
      proof (cases at)
        case None
        obtain rc d v1 where o: "fs_opendir Z p v = (rc, d, v1)" by (metis prod.exhaust)
        have "I v1" by (rule keeps_insideD(9) [OF Z v o p(1)])
        then show ?thesis using 1(2) None o p(2) delete_safeD [OF IH [of "Some d" p v1 r] p]
          by (auto split: if_splits)
      next
        case (Some dir)
        with 1(2) show ?thesis by (intro delete_step [OF Z IH p v]) simp_all
      qed
    qed
  qed
  with assms(2) show ?thesis by blast
qed

lemma append_inside:
  assumes "length s + 1 + length rhs \<le> PATH_BUFFER_SIZE" "rhs = [] \<or> hd rhs \<noteq> PATH_SEPARATOR"
    and "inside mnt s" "''..'' \<notin> set (names rhs)"
  shows "inside mnt (path_append PATH_BUFFER_SIZE rhs s)"
  using path_append_names [OF assms(1,2)] path_append_length [OF assms(1,2)] assms(3,4) by (auto simp: inside_def)

text \<open>What a walk along a path has left to do, as long as it has not reached its end.\<close>

definition walk_ok :: "string \<Rightarrow> nat \<Rightarrow> string \<Rightarrow> bool" where
  "walk_ok path start current \<longleftrightarrow> (start < length path \<longrightarrow>
     ''..'' \<notin> set (segments (drop start path)) \<and> length current + 1 + (length path - start) \<le> PATH_BUFFER_SIZE)"

lemma walk_ok_next:
  assumes "walk_ok path start current" "start < length path"
    and "seg = takeWhile (\<lambda>c. c \<noteq> PATH_SEPARATOR) (drop start path)"
    and "length current' \<le> length current + 1 + length seg"
  shows "walk_ok path (start + length seg + 1) current'"
proof -
  have "drop (start + length seg + 1) path = drop (length seg + 1) (drop start path)" by (simp only: drop_drop add_ac)
  then have "set (segments (drop (start + length seg + 1) path)) \<subseteq> set (segments (drop start path))"
    if "start + length seg + 1 < length path"
    using that set_segments [of "drop start path"] unfolding assms(3) by (simp only: length_drop) auto
  then show ?thesis using assms(1,2,4) by (auto simp: walk_ok_def)
qed

lemma segment_plain:
  assumes "seg = takeWhile (\<lambda>c. c \<noteq> PATH_SEPARATOR) (drop start path)" "no_null path"
  shows "PATH_SEPARATOR \<notin> set seg" "no_null seg"
  using assms by (auto simp: no_null_def dest: set_takeWhileD in_set_dropD)

lemma make_directories_inside:
  assumes "make_directories Z relative_path start current_path v = (ok, v')" "keeps_inside Z mnt I"
    and "inside mnt current_path" "no_null current_path" "no_null relative_path" "I v"
    and "walk_ok relative_path start current_path"
  shows "I v'"
  using assms
proof (induction Z relative_path start current_path v arbitrary: ok v' rule: make_directories.induct)
  case (1 Z path start cur v)
  note run = 1(3) and Z = 1(4) and walk = 1(9)
  define seg where "seg = takeWhile (\<lambda>c. c \<noteq> PATH_SEPARATOR) (drop start path)"
  show ?case
  proof (cases "start < length path")
    case False
    with run 1(8) show ?thesis by (simp add: make_directories.simps)
  next
    case start: True
    note IH = 1(1,2) [OF start seg_def refl]
    note plain = segment_plain [OF seg_def 1(7)]
    show ?thesis
    proof (cases "seg = []")
      case True
      with run start have "make_directories Z path (start + length seg + 1) cur v = (ok, v')"
        by (subst (asm) make_directories.simps) (simp add: Let_def seg_def [symmetric])
      from IH(1) [OF True this Z 1(5-8) walk_ok_next [OF walk start seg_def]] show ?thesis by simp
    next
      case False
      define cur' where "cur' = path_append PATH_BUFFER_SIZE seg cur"
      have hd: "seg = [] \<or> hd seg \<noteq> PATH_SEPARATOR" using plain(1) by (metis list.set_sel(1))
      have len: "length seg \<le> length path - start" unfolding seg_def by (metis length_drop length_takeWhile_le)
      then have fits: "length cur + 1 + length seg \<le> PATH_BUFFER_SIZE" using walk start by (auto simp: walk_ok_def)
      have "''..'' \<notin> set (names seg)"
        using walk start set_segments [of "drop start path", folded seg_def] plain(1)
        by (auto simp: walk_ok_def names_def segments_plain)
      then have cur': "inside mnt cur'" "no_null cur'" "length cur' \<le> length cur + 1 + length seg"
        using append_inside [OF fits hd 1(5)] path_append_no_null [OF fits hd 1(6) plain(2)]
          path_append_fits [OF fits hd] length_trim [of cur] by (auto simp: cur'_def)
      obtain rc v1 where mk: "fs_mkdir Z cur' v = (rc, v1)" by (metis prod.exhaust)
      have v1: "I v1" by (rule keeps_insideD(5) [OF Z 1(8) mk cur'(1)])
      from run start False mk cur'(2) have
        "(if rc < 0 \<and> rc \<noteq> - EEXIST then (False, v1) else make_directories Z path (start + length seg + 1) cur' v1) = (ok, v')"
        by (subst (asm) make_directories.simps)
          (auto simp: Let_def seg_def [symmetric] cur'_def [symmetric] split: if_splits)
      then show ?thesis
        using IH(2) [OF False, folded cur'_def, OF refl, of rc v1] mk v1 Z cur' 1(7)
          walk_ok_next [OF walk start seg_def cur'(3)] by (auto split: if_splits)
    qed
  qed
qed

lemma list_files_inside:
  assumes "list_files Z dir files v = Some (r, v')" "keeps_inside Z mnt I" "I v"
  shows "I v'"
proof -
  have "keeps_inside Z mnt I \<longrightarrow> I v \<longrightarrow> I (snd (r, v'))"
    by (rule list_files.raw_induct [where P = "\<lambda>Z _ _ v r. keeps_inside Z mnt I \<longrightarrow> I v \<longrightarrow> I (snd r)", OF _ assms(1)])
      (auto split: prod.splits if_splits, (blast dest: keeps_insideD(10))+)
  with assms show ?thesis by simp
qed

lemma list_directory_inside:
  assumes "list_directory Z dir first max_entries entries count v = Some (r, v')" "keeps_inside Z mnt I" "I v"
  shows "I v'"
proof -
  have "keeps_inside Z mnt I \<longrightarrow> I v \<longrightarrow> I (snd (r, v'))"
    by (rule list_directory.raw_induct
        [where P = "\<lambda>Z _ _ _ _ _ v r. keeps_inside Z mnt I \<longrightarrow> I v \<longrightarrow> I (snd r)", OF _ assms(1)])
      (auto split: prod.splits if_splits, (blast dest: keeps_insideD(10))+)
  with assms show ?thesis by simp
qed

text \<open>A step of the service: any of its operations, on any path without a null character.\<close>

inductive fs_step :: "'v zephyr_fs \<Rightarrow> 'v fs_service \<Rightarrow> 'v fs_service \<Rightarrow> bool" for Z where
  step_Initialize: "Fs_Initialize Z s = (ok, s') \<Longrightarrow> fs_step Z s s'"
| step_Mount: "Mount Z s = (ok, s') \<Longrightarrow> fs_step Z s s'"
| step_Unmount: "Unmount Z s = s' \<Longrightarrow> fs_step Z s s'"
| step_Format: "Format Z s = (ok, s') \<Longrightarrow> fs_step Z s s'"
| step_WriteFile: "WriteFile Z p data append_mode s = (ok, s') \<Longrightarrow> no_null p \<Longrightarrow> fs_step Z s s'"
| step_ReadFile: "ReadFile Z p n s = (ok, s') \<Longrightarrow> no_null p \<Longrightarrow> fs_step Z s s'"
| step_OpenFile: "OpenFile Z p flags s = (rh, s') \<Longrightarrow> no_null p \<Longrightarrow> fs_step Z s s'"
| step_CreateDirectory: "CreateDirectory Z p s = (ok, s') \<Longrightarrow> no_null p \<Longrightarrow> fs_step Z s s'"
| step_Exists: "Fs_Exists Z p s = (ok, s') \<Longrightarrow> no_null p \<Longrightarrow> fs_step Z s s'"
| step_DeleteFile: "DeleteFile Z p s = (ok, s') \<Longrightarrow> no_null p \<Longrightarrow> fs_step Z s s'"
| step_DeleteRecursive: "DeleteRecursive Z p s = Some (ok, s') \<Longrightarrow> no_null p \<Longrightarrow> one_separator p \<Longrightarrow> fs_step Z s s'"
| step_Rename: "Fs_Rename Z p q s = (rc, s') \<Longrightarrow> no_null p \<Longrightarrow> no_null q \<Longrightarrow> fs_step Z s s'"
| step_ListFiles: "ListFiles Z p s = Some (files, s') \<Longrightarrow> no_null p \<Longrightarrow> fs_step Z s s'"
| step_ListDirectory: "ListDirectory Z p first n s = Some (page, s') \<Longrightarrow> no_null p \<Longrightarrow> fs_step Z s s'"
| step_GetFileSize: "Fs_GetFileSize Z p s = (file_size, s') \<Longrightarrow> no_null p \<Longrightarrow> fs_step Z s s'"
| step_GetTotalSpace: "GetTotalSpace Z s = (n, s') \<Longrightarrow> fs_step Z s s'"
| step_GetUsedSpace: "GetUsedSpace Z s = (n, s') \<Longrightarrow> fs_step Z s s'"

definition fs_kept :: "string \<Rightarrow> ('v \<Rightarrow> bool) \<Rightarrow> 'v fs_service \<Rightarrow> bool" where
  "fs_kept mnt I s \<longleftrightarrow> fs_mountpoint s = Some mnt \<and> I (fs_volume s)"

lemma with_path_kept:
  assumes "fs_kept mnt I s" "no_null mnt" "no_null p"
    and "\<And>full v. TryBuildPath (Some mnt) p = Some full \<Longrightarrow> inside mnt full \<Longrightarrow> no_null full \<Longrightarrow> I v \<Longrightarrow>
      I (snd (run full v))"
  shows "fs_kept mnt I (snd (with_path Z s p a b run))"
  using assms(1,4) built_inside [OF _ assms(2,3)]
  by (auto simp: with_path_def fs_kept_def case_prod_beta split: option.splits)

lemma Mount_kept: "Mount Z s = (ok, s') \<Longrightarrow> keeps_inside Z mnt I \<Longrightarrow> fs_kept mnt I s \<Longrightarrow> fs_kept mnt I s'"
  by (auto simp: Mount_def fs_kept_def Let_def dest: keeps_insideD(13) split: if_splits prod.splits)

lemma Unmount_kept: "keeps_inside Z mnt I \<Longrightarrow> fs_kept mnt I s \<Longrightarrow> fs_kept mnt I (Unmount Z s)"
  by (auto simp: Unmount_def fs_kept_def intro: keeps_insideD(14) [OF _ _ prod.collapse [symmetric]])

lemma Format_kept: 
  assumes "Format Z s = (ok, s')" "keeps_inside Z mnt I" "fs_kept mnt I s" 
  shows "fs_kept mnt I s'"
proof -
  obtain rc v where mk: "fs_mkfs Z (fs_volume (Unmount Z s)) = (rc, v)" by (metis prod.exhaust)
  have u: "fs_kept mnt I (Unmount Z s)" by (rule Unmount_kept [OF assms(2,3)])
  then have "fs_kept mnt I (Unmount Z s\<lparr>fs_volume := v\<rparr>)" using keeps_insideD(15) [OF assms(2) _ mk] by (simp add: fs_kept_def)
  then have "fs_kept mnt I (snd (Mount Z (Unmount Z s\<lparr>fs_volume := v\<rparr>)))"
    by (rule Mount_kept [OF prod.collapse [symmetric] assms(2)])
  then show ?thesis using assms(1,3) u mk by (auto simp: Format_def Let_def split: if_splits)
qed

lemma Initialize_kept: "Fs_Initialize Z s = (ok, s') \<Longrightarrow> keeps_inside Z mnt I \<Longrightarrow> fs_kept mnt I s \<Longrightarrow> fs_kept mnt I s'"
  by (auto simp: Fs_Initialize_def dest: Mount_kept split: if_splits)

lemma with_statvfs_kept:
  "with_statvfs Z f s = (r, s') \<Longrightarrow> keeps_inside Z mnt I \<Longrightarrow> fs_kept mnt I s \<Longrightarrow> fs_kept mnt I s'"
  by (auto simp: with_statvfs_def fs_kept_def dest: keeps_insideD(12) split: if_splits prod.splits)

lemma one_separator_append:
  assumes "one_separator p" "p \<noteq> []" "hd p \<noteq> PATH_SEPARATOR"
  shows "one_separator (q @ p)"
proof -
  have "trim_separators p \<noteq> []"
    using assms(2,3) by (cases p) (auto simp: trim_separators_def dropWhile_eq_Nil_conv)
  then have "trim_separators (q @ p) = q @ trim_separators p"
    by (auto simp: trim_separators_def dropWhile_append dropWhile_eq_Nil_conv)
  then show ?thesis using assms(1) by (simp add: one_separator_def)
qed

lemma built_one_separator:
  assumes "TryBuildPath (Some mnt) p = Some full" "one_separator p" "one_separator mnt"
  shows "one_separator full"
proof -
  have full: "full = (if p = [] then mnt else if mnt = [] then p else (trim_separators mnt @ [PATH_SEPARATOR]) @ p)"
    using assms(1) path_append_fits [of mnt p PATH_BUFFER_SIZE] by (auto simp: TryBuildPath_Some)
  have "p = [] \<or> hd p \<noteq> PATH_SEPARATOR" using assms(1) by (auto simp: TryBuildPath_Some)
  then show ?thesis unfolding full 
    using assms(2,3) one_separator_append [OF assms(2), of "trim_separators mnt @ [PATH_SEPARATOR]"] by auto
qed

lemma DeleteRecursive_kept:
  assumes "DeleteRecursive Z p s = Some (ok, s')" "no_null p" "one_separator p" "keeps_inside Z mnt I" "fs_kept mnt I s"
    and "no_null mnt" "one_separator mnt"
  shows "fs_kept mnt I s'"
proof (cases "TryBuildPath (Some mnt) p")
  case (Some full)
  have safe: "I (snd (snd r))" if "delete_contents Z None full (fs_volume s) = Some r" for r
    using delete_safeD(1) [OF delete_contents_safe [OF that assms(4)] built_inside [OF Some assms(6,2)]
        built_one_separator [OF Some assms(3,7)]] assms(5) by (simp add: fs_kept_def)
  show ?thesis using assms(1,5) Some safe
    by (auto simp: DeleteRecursive_def DeleteDirectoryContents_def fs_kept_def split: if_splits)
qed (use assms(1,5) in \<open>auto simp: DeleteRecursive_def fs_kept_def split: if_splits\<close>)

lemma Rename_kept:
  assumes "no_null p" "no_null q" "keeps_inside Z mnt I" "fs_kept mnt I s" "no_null mnt"
  shows "fs_kept mnt I (snd (Fs_Rename Z p q s))"
  using assms(4) built_inside [OF _ assms(5,1)] built_inside [OF _ assms(5,2)]
  by (auto simp: Fs_Rename_def fs_kept_def case_prod_beta keeps_inside_snd [OF assms(3)] split: option.splits)

lemma list_kept:
  assumes "no_null p" "keeps_inside Z mnt I" "fs_kept mnt I s" "no_null mnt"
  shows "ListFiles Z p s = Some (files, s') \<Longrightarrow> fs_kept mnt I s'"
    and "ListDirectory Z p first n s = Some (page, s') \<Longrightarrow> fs_kept mnt I s'"
proof -
  note kept = keeps_inside_snd [OF assms(2)]
  show "fs_kept mnt I s'" if "ListFiles Z p s = Some (files, s')"
    using that assms(3) built_inside [OF _ assms(4,1)]
    by (auto simp: ListFiles_def fs_kept_def case_prod_beta kept split: if_splits option.splits)
      (blast intro: kept list_files_inside [OF _ assms(2)])
  show "fs_kept mnt I s'" if "ListDirectory Z p first n s = Some (page, s')"
    using that assms(3) built_inside [OF _ assms(4,1)]
    by (auto simp: ListDirectory_def fs_kept_def case_prod_beta kept split: if_splits option.splits)
      (blast intro: kept list_directory_inside [OF _ assms(2)])
qed

lemma path_ops_kept:
  assumes "no_null p" "keeps_inside Z mnt I" "fs_kept mnt I s" "no_null mnt"
  shows "fs_kept mnt I (snd (WriteFile Z p data append_mode s))"
    and "fs_kept mnt I (snd (ReadFile Z p n s))"
    and "fs_kept mnt I (snd (OpenFile Z p flags s))"
    and "fs_kept mnt I (snd (Fs_Exists Z p s))"
    and "fs_kept mnt I (snd (DeleteFile Z p s))"
    and "fs_kept mnt I (snd (Fs_GetFileSize Z p s))"
    and "fs_kept mnt I (snd (CreateDirectory Z p s))"
proof -
  note kept = with_path_kept [OF assms(3,4,1)] and D = keeps_inside_snd [OF assms(2)]
  show "fs_kept mnt I (snd (WriteFile Z p data append_mode s))"
    unfolding WriteFile_def by (rule kept) (simp add: case_prod_beta D)
  show "fs_kept mnt I (snd (ReadFile Z p n s))"
    unfolding ReadFile_def by (rule kept) (simp add: case_prod_beta D)
  show "fs_kept mnt I (snd (OpenFile Z p flags s))"
    unfolding OpenFile_def by (rule kept) (simp add: case_prod_beta D)
  show "fs_kept mnt I (snd (Fs_Exists Z p s))"
    unfolding Fs_Exists_def by (rule kept) (simp add: case_prod_beta D)
  show "fs_kept mnt I (snd (DeleteFile Z p s))"
    unfolding DeleteFile_def by (rule kept) (simp add: case_prod_beta D)
  show "fs_kept mnt I (snd (Fs_GetFileSize Z p s))"
    unfolding Fs_GetFileSize_def by (rule kept) (simp add: case_prod_beta D)
  show "fs_kept mnt I (snd (CreateDirectory Z p s))"
    unfolding CreateDirectory_def
  proof (rule kept)
    fix full v assume full: "TryBuildPath (Some mnt) p = Some full" and v: "I v"
    then have "inside mnt mnt" "walk_ok p 0 mnt" by (auto simp: inside_def walk_ok_def TryBuildPath_Some)
    with v show "I (snd (make_directories Z p 0 (the (fs_mountpoint s)) v))"
      using assms(3) make_directories_inside [OF prod.collapse [symmetric] assms(2) _ assms(4,1)] by (simp add: fs_kept_def)
  qed
qed

lemma fs_step_kept:
  assumes "fs_step Z s s'" "keeps_inside Z mnt I" "fs_kept mnt I s" "no_null mnt" "one_separator mnt"
  shows "fs_kept mnt I s'"
  using assms(1)
proof cases
  case (step_DeleteRecursive p ok)
  with DeleteRecursive_kept [OF _ _ _ assms(2-5)] show ?thesis by blast
next
  case (step_Rename p q rc)
  with Rename_kept [OF _ _ assms(2,3,4)] show ?thesis by (metis snd_conv)
next
  case (step_Format ok)
  with Format_kept [OF _ assms(2,3)] show ?thesis by blast
next
  case (step_Initialize ok)
  with Initialize_kept [OF _ assms(2,3)] show ?thesis by blast
next
  case (step_Mount ok)
  with Mount_kept [OF _ assms(2,3)] show ?thesis by blast
next
  case step_Unmount
  with Unmount_kept [OF assms(2,3)] show ?thesis by simp
next
  case (step_ListFiles p files)
  with list_kept(1) [OF _ assms(2-4)] show ?thesis by blast
next
  case (step_ListDirectory p first n page)
  with list_kept(2) [OF _ assms(2-4)] show ?thesis by blast
next
  case (step_GetTotalSpace n)
  with with_statvfs_kept [OF _ assms(2,3)] show ?thesis by (auto simp: GetTotalSpace_def)
next
  case (step_GetUsedSpace n)
  with with_statvfs_kept [OF _ assms(2,3)] show ?thesis by (auto simp: GetUsedSpace_def)
qed (use path_ops_kept [OF _ assms(2-4)] in \<open>metis snd_conv\<close>)+


text \<open>A volume that records the paths it is given, with one directory of one entry.\<close>

definition log_entry :: fs_dirent where
  "log_entry = \<lparr>ent_type = FS_DIR_ENTRY_FILE, ent_name = ''f'', ent_size = 0\<rparr>"

definition log_fs :: "string list zephyr_fs" where
  "log_fs = \<lparr>fs_open = \<lambda>p _ v. (0, 0, p # v), fs_close = \<lambda>_ v. (0, v), fs_read = \<lambda>_ _ v. (0, [], v),
     fs_write = \<lambda>_ bs v. (int (length bs), v), fs_seek = \<lambda>_ _ _ v. (0, v), fs_tell = \<lambda>_ v. (0, v),
     fs_sync = \<lambda>_ v. (0, v), fs_mkdir = \<lambda>p v. (0, p # v), fs_unlink = \<lambda>p v. (0, p # v),
     fs_rename = \<lambda>p q v. (0, p # q # v), fs_stat = \<lambda>p v. (0, log_entry, p # v),
     fs_opendir = \<lambda>p v. (0, 0, p # v),
     fs_readdir = \<lambda>_ v. (0, if length v < 4 then log_entry else log_entry\<lparr>ent_name := []\<rparr>, v),
     fs_closedir = \<lambda>_ v. (0, v), fs_statvfs = \<lambda>p v. (0, \<lparr>f_frsize = 1, f_blocks = 1, f_bfree = 0\<rparr>, v),
     fs_mount = \<lambda>v. (0, v), fs_unmount = \<lambda>v. (0, v), fs_mkfs = \<lambda>v. (0, v), fs_linked = \<lambda>_. True\<rparr>"

definition log_service :: "string list fs_service" where
  "log_service = \<lparr>fs_mountpoint = Some ''/SD:'', fs_mount_generation = 1, fs_volume = []\<rparr>"

lemma log_fs_keeps: "keeps_inside log_fs ''/SD:'' (list_all (inside ''/SD:''))"
  by (simp add: keeps_inside_def log_fs_def log_entry_def entry_ok_def no_null_def PATH_SEPARATOR_def)


text \<open>
  Both conditions are needed. A null character hides the parent directory from the check and ends the path the
  file system reads; and two trailing separators leave a part of the last name in the path buffer, which the
  next entry is then appended to.
\<close>

lemma null_character_escapes:
  "map_option CStr (TryBuildPath (Some ''/SD:'') (''..'' @ [CHR 0x00])) = Some ''/SD:/..''"
  by code_simp

definition dots_fs :: "string list zephyr_fs" where
  "dots_fs = log_fs\<lparr>fs_readdir := \<lambda>_ v.
     (0, log_entry\<lparr>ent_name := if length v = 1 then ''..x'' else if length v = 2 then ''f'' else []\<rparr>, v)\<rparr>"

lemma trailing_separators_escape:
  "map_option (fs_volume \<circ> snd) (DeleteRecursive dots_fs ''d///'' log_service) =
     Some [''/SD:/d/../f'', ''/SD:/d/..x'', ''/SD:/d///'']"
proof -
  have built: "TryBuildPath (Some ''/SD:'') ''d///'' = Some ''/SD:/d///''" by code_simp
  have app: "path_append PATH_BUFFER_SIZE ''..x'' ''/SD:/d///'' = ''/SD:/d/..x''"
    "path_append PATH_BUFFER_SIZE ''f'' ''/SD:/d/..'' = ''/SD:/d/../f''" by code_simp+
  note ops = dots_fs_def log_fs_def log_entry_def CStr_def Str_Truncate_def PATH_BUFFER_SIZE_def
  have "delete_contents dots_fs (Some 0) ''/SD:/d/..'' [''/SD:/d/../f'', ''/SD:/d/..x'', ''/SD:/d///''] =
    Some (True, ''/SD:/d/..'', [''/SD:/d/../f'', ''/SD:/d/..x'', ''/SD:/d///''])"
    by (subst delete_contents.simps) (simp add: ops)
  then have "delete_contents dots_fs (Some 0) ''/SD:/d/..'' [''/SD:/d/..x'', ''/SD:/d///''] =
    Some (True, ''/SD:/d/..'', [''/SD:/d/../f'', ''/SD:/d/..x'', ''/SD:/d///''])"
    by (subst delete_contents.simps) (simp add: ops app [unfolded PATH_BUFFER_SIZE_def])
  then have "delete_contents dots_fs (Some 0) ''/SD:/d///'' [''/SD:/d///''] =
    Some (True, ''/SD:/d/..'', [''/SD:/d/../f'', ''/SD:/d/..x'', ''/SD:/d///''])"
    by (subst delete_contents.simps) (simp add: ops app [unfolded PATH_BUFFER_SIZE_def])
  then have "delete_contents dots_fs None ''/SD:/d///'' [] =
    Some (True, ''/SD:/d/..'', [''/SD:/d/../f'', ''/SD:/d/..x'', ''/SD:/d///''])"
    by (subst delete_contents.simps) (simp add: ops)
  moreover have "IsMounted dots_fs log_service" by (simp add: IsMounted_def log_service_def ops)
  ultimately show ?thesis using built by (simp add: DeleteRecursive_def DeleteDirectoryContents_def log_service_def)
qed

section \<open>Mounting\<close>

text \<open>The generation counts the mounts that succeeded.\<close>

lemma Mount_generation:
  "fs_mount_generation (snd (Mount Z s)) = fs_mount_generation s +
     (if \<not> IsMounted Z s \<and> fs_mountpoint s \<noteq> None \<and> \<not> fst (fs_mount Z (fs_volume s)) < 0 then 1 else 0)"
  by (auto simp: Mount_def Let_def case_prod_beta)

lemma Mount_True: "fst (Mount Z s) \<Longrightarrow> IsMounted Z (snd (Mount Z s))"
  by (auto simp: Mount_def Let_def case_prod_beta split: if_splits)

lemma Format_True: "fst (Format Z s) \<Longrightarrow> IsMounted Z (snd (Format Z s))"
  by (auto simp: Format_def Let_def case_prod_beta Mount_True split: if_splits)

section \<open>Pages of a directory\<close>

text \<open>The entries that an open directory will give, and the volume after the last of them.\<close>

inductive enumerates :: "'v zephyr_fs \<Rightarrow> nat \<Rightarrow> 'v \<Rightarrow> fs_dirent list \<Rightarrow> 'v \<Rightarrow> bool" for Z dir where
  enum_end: "fs_readdir Z dir v = (rc, e, v') \<Longrightarrow> 0 \<le> rc \<Longrightarrow> ent_name e = [] \<Longrightarrow> enumerates Z dir v [] v'"
| enum_entry: "fs_readdir Z dir v = (rc, e, v1) \<Longrightarrow> 0 \<le> rc \<Longrightarrow> ent_name e \<noteq> [] \<Longrightarrow> enumerates Z dir v1 es v' \<Longrightarrow>
    enumerates Z dir v (e # es) v'"

lemma list_files_all:
  "enumerates Z dir v es v' \<Longrightarrow> list_files Z dir files v = Some (files @ map ent_name es, v')"
  by (induction v es v' arbitrary: files rule: enumerates.induct) (auto simp: list_files.simps)

lemma list_directory_page:
  assumes "enumerates Z dir v es v'" "length entries = min max_entries (count - first)"
  shows "list_directory Z dir first max_entries entries count v =
    Some ((0, entries @ map to_directory_entry (take (max_entries - length entries) (drop (first - count) es)),
           count + length es), v')"
  using assms
proof (induction v es v' arbitrary: entries count rule: enumerates.induct)
  case (enum_end v rc e v')
  then show ?case by (simp add: list_directory.simps)
next
  case (enum_entry v rc e v1 es v')
  let ?entries = "if count \<ge> first \<and> length entries < max_entries then entries @ [to_directory_entry e] else entries"
  have len: "length ?entries = min max_entries (count + 1 - first)" using enum_entry.prems by auto
  have "list_directory Z dir first max_entries entries count v = list_directory Z dir first max_entries ?entries (count + 1) v1"
    using enum_entry.hyps(1-3) by (subst list_directory.simps) simp
  also have "\<dots> = Some ((0, ?entries @ map to_directory_entry (take (max_entries - length ?entries) (drop (first - (count + 1)) es)),
      count + 1 + length es), v')" by (rule enum_entry.IH [OF len])
  finally show ?case using enum_entry.prems
    by (cases "count \<ge> first"; cases "length entries < max_entries") (auto simp: drop_Cons' take_Cons' Suc_diff_le)
qed

text \<open>
  C35. Listing a directory ends and gives exactly the page asked for: of a directory that enumerates the entries
  \<open>es\<close>, the entries from \<open>first\<close> on, at most \<open>max_entries\<close> of them and in their order, directories with
  size 0, with the number of all entries; so listing on from the end of a page misses nothing and repeats nothing.
\<close>

theorem directory_page_exact:
  assumes "IsMounted Z s" "TryBuildPath (fs_mountpoint s) relative_path = Some full_path"
    and "fs_opendir Z (CStr full_path) (fs_volume s) = (rc, dir, v1)" "0 \<le> rc" "enumerates Z dir v1 es v2"
  shows "ListDirectory Z relative_path first max_entries s =
    Some ((0, map to_directory_entry (take max_entries (drop first es)), length es),
          s\<lparr>fs_volume := snd (fs_closedir Z dir v2)\<rparr>)"
  using assms(1-4) list_directory_page [OF assms(5), of "[]" max_entries 0 first] by (simp add: ListDirectory_def)

theorem directory_page_exact_witness:
  "\<exists>s'. ListDirectory (log_fs\<lparr>fs_readdir := \<lambda>_ v. if length v = 1 then (0, log_entry, ''x'' # v) else (0, log_entry\<lparr>ent_name := []\<rparr>, v)\<rparr>)
     ''logs'' 0 5 log_service = Some ((0, [\<lparr>de_name = ''f'', de_size = 0, de_is_directory = False\<rparr>], 1), s')"
proof -
  let ?Z = "log_fs\<lparr>fs_readdir := \<lambda>_ v. if length v = 1 then (0, log_entry, ''x'' # v) else (0, log_entry\<lparr>ent_name := []\<rparr>, v)\<rparr>"
  have built: "TryBuildPath (fs_mountpoint log_service) ''logs'' = Some ''/SD:/logs''" by code_simp
  have mounted: "IsMounted ?Z log_service" by (simp add: IsMounted_def log_service_def log_fs_def)
  have opened: "fs_opendir ?Z (CStr ''/SD:/logs'') (fs_volume log_service) = (0, 0, [''/SD:/logs''])"
    by (simp add: log_fs_def log_service_def CStr_def)
  have "enumerates ?Z 0 [''/SD:/logs''] [log_entry] [''x'', ''/SD:/logs'']"
    by (rule enum_entry [where rc = 0 and e = log_entry and ?v1.0 = "[''x'', ''/SD:/logs'']"], simp, simp, simp add: log_entry_def)
      (rule enum_end [where rc = 0 and e = "log_entry\<lparr>ent_name := []\<rparr>"], simp_all)
  from directory_page_exact [OF mounted built opened _ this, of 0 5] show ?thesis
    by (simp add: to_directory_entry_def log_entry_def)
qed

end
