(* ===== verification/Asset_Store.thy ===== *)
theory Asset_Store
  imports Fs_Service
begin

text \<open>
  The asset store, \<open>src/subsys/assets/asset_store.cpp\<close>: a block-cached reader, a staged writer and the
  operations on the files of one directory of a volume. The reader and the writer use the file handle
  directly; everything else goes through the file system service. The block of the writer is the list of
  the bytes that wait in it, which is all of it that is ever read. Allocations that may fail are the
  parameter \<open>alloc\<close>.
\<close>

unbundle bit_operations_syntax

section \<open>Names\<close>

definition IsNameCharacter :: "char \<Rightarrow> bool" where
  "IsNameCharacter c \<longleftrightarrow> (let n = (of_char c :: nat) in 97 \<le> n \<and> n \<le> 122 \<or> 65 \<le> n \<and> n \<le> 90 \<or> 48 \<le> n \<and> n \<le> 57 \<or>
     c = CHR ''.'' \<or> c = CHR ''_'' \<or> c = CHR ''-'')"

definition EndsWithIgnoreCase :: "string \<Rightarrow> string \<Rightarrow> bool" where
  "EndsWithIgnoreCase txt suff \<longleftrightarrow>
     \<not> length txt < length suff \<and>
     (let start = length txt - length suff
      in list_all (\<lambda>i. ToLowerAscii (txt ! (start + i)) = ToLowerAscii (suff ! i)) [0..<length suff])"

definition MAX_NAME_LENGTH :: nat where "MAX_NAME_LENGTH = 64"

definition IsValidName :: "string \<Rightarrow> string list \<Rightarrow> bool" where
  "IsValidName name extensions \<longleftrightarrow>
     \<not> (name = [] \<or> length name > MAX_NAME_LENGTH \<or> hd name = CHR ''.'') \<and>
     list_all IsNameCharacter name \<and>
     list_ex (\<lambda>extension. length name > length extension \<and> EndsWithIgnoreCase name extension) extensions"

section \<open>Reading\<close>

definition BUFFER_SIZE :: nat where "BUFFER_SIZE = 4096"

definition UNKNOWN_POSITION :: nat where "UNKNOWN_POSITION = 2 ^ 32 - 1"

record asset_reader =
  ar_file :: nat
  ar_open :: bool
  ar_size :: nat
  ar_buffer :: bytes
  ar_buffer_offset :: nat
  ar_buffer_length :: nat
  ar_file_position :: nat

definition new_reader :: asset_reader where
  "new_reader = \<lparr>ar_file = 0, ar_open = False, ar_size = 0, ar_buffer = [], ar_buffer_offset = 0,
     ar_buffer_length = 0, ar_file_position = 0\<rparr>"

definition Reader_Close :: "'v zephyr_fs \<Rightarrow> asset_reader \<Rightarrow> 'v \<Rightarrow> asset_reader \<times> 'v" where
  "Reader_Close Z r v = (if \<not> ar_open r then (r, v) else (new_reader, snd (fs_close Z (ar_file r) v)))"

text \<open>The bytes of a read, stored in the block.\<close>

definition store_at :: "nat \<Rightarrow> bytes \<Rightarrow> bytes \<Rightarrow> bytes" where
  "store_at n data block = take n block @ data @ drop (n + length data) block"

function fill_loop :: "'v zephyr_fs \<Rightarrow> nat \<Rightarrow> nat \<Rightarrow> asset_reader \<Rightarrow> 'v \<Rightarrow> int \<times> asset_reader \<times> 'v" where
  "fill_loop Z expected filled r v =
     (if filled < expected
      then case fs_read Z (ar_file r) (expected - filled) v of (rc, data, v1) \<Rightarrow>
        if rc < 0 then (rc, r\<lparr>ar_file_position := UNKNOWN_POSITION\<rparr>, v1)
        else if rc = 0 then (0, r\<lparr>ar_buffer_length := filled\<rparr>, v1)
        else fill_loop Z expected (filled + nat rc)
               (r\<lparr>ar_buffer := store_at filled (take (nat rc) data) (ar_buffer r),
                  ar_file_position := ar_file_position r + nat rc\<rparr>) v1
      else (0, r\<lparr>ar_buffer_length := filled\<rparr>, v))"
  by pat_completeness auto

termination fill_loop
  by (relation "measure (\<lambda>(_, expected, filled, _). expected - filled)") auto

declare fill_loop.simps [simp del]

definition Fill :: "'v zephyr_fs \<Rightarrow> nat \<Rightarrow> asset_reader \<Rightarrow> 'v \<Rightarrow> int \<times> asset_reader \<times> 'v" where
  "Fill Z block_offset r v =
     (let r0 = r\<lparr>ar_buffer_offset := block_offset, ar_buffer_length := 0\<rparr>;
          expected = min BUFFER_SIZE (ar_size r - block_offset)
      in if ar_file_position r \<noteq> block_offset
         then case fs_seek Z (ar_file r) (int block_offset) FS_SEEK_SET v of (rc, v1) \<Rightarrow>
           if rc < 0 then (rc, r0\<lparr>ar_file_position := UNKNOWN_POSITION\<rparr>, v1)
           else fill_loop Z expected 0 (r0\<lparr>ar_file_position := block_offset\<rparr>) v1
         else fill_loop Z expected 0 r0 v)"

lemma fill_loop_offset [simp]: "ar_buffer_offset (fst (snd (fill_loop Z expected filled r v))) = ar_buffer_offset r"
proof (induction Z expected filled r v rule: fill_loop.induct)
  case (1 Z expected filled r v)
  then show ?case by (subst fill_loop.simps) (simp split: prod.split)
qed

lemma Fill_offset [simp]: "ar_buffer_offset (fst (snd (Fill Z block_offset r v))) = block_offset"
  by (simp add: Fill_def Let_def case_prod_beta)

text \<open>The loop of \<open>Read\<close>: how much is copied, and the bytes copied.\<close>

function read_loop ::
  "'v zephyr_fs \<Rightarrow> nat \<Rightarrow> nat \<Rightarrow> nat \<Rightarrow> bytes \<Rightarrow> asset_reader \<Rightarrow> 'v \<Rightarrow> (int \<times> bytes) \<times> asset_reader \<times> 'v" where
  "read_loop Z offset len copied out r v =
     (if copied < len
      then let position = offset + copied;
               refill = (position < ar_buffer_offset r \<or> position \<ge> ar_buffer_offset r + ar_buffer_length r)
           in case (if refill then Fill Z (position - position mod BUFFER_SIZE) r v else (0, r, v)) of (rc, r1, v1) \<Rightarrow>
                if refill \<and> rc < 0 then ((rc, []), r1, v1)
                else if refill \<and> position \<ge> ar_buffer_offset r1 + ar_buffer_length r1 then ((int copied, out), r1, v1)
                else let in_buffer = position - ar_buffer_offset r1;
                         chunk = min (len - copied) (ar_buffer_length r1 - in_buffer)
                     in read_loop Z offset len (copied + chunk) (out @ take chunk (drop in_buffer (ar_buffer r1))) r1 v1
      else ((int copied, out), r, v))"
  by pat_completeness auto

lemma refilled_block:
  assumes "(rc, r1, v1) = (if refill then Fill Z (position - position mod BUFFER_SIZE) r v else (0, r, v))"
    and "refill \<longleftrightarrow> position < ar_buffer_offset r \<or> ar_buffer_offset r + ar_buffer_length r \<le> position"
    and "\<not> (refill \<and> ar_buffer_offset r1 + ar_buffer_length r1 \<le> position)"
  shows "ar_buffer_offset r1 \<le> position \<and> position < ar_buffer_offset r1 + ar_buffer_length r1"
proof (cases refill)
  case True
  then have "ar_buffer_offset r1 = position - position mod BUFFER_SIZE" using assms(1) Fill_offset by (metis fst_conv snd_conv)
  then show ?thesis using assms(3) True by simp
qed (use assms in auto)

termination read_loop
proof (relation "measure (\<lambda>(_, _, len, copied, _). len - copied)", goal_cases)
  case (2 Z offset len copied out r v position refill rc q r1 v1 in_buffer chunk)
  then show ?case using refilled_block [of rc r1 v1 refill Z position r v] by (auto simp: min_def)
qed simp

declare read_loop.simps [simp del]

definition Reader_Read :: "'v zephyr_fs \<Rightarrow> nat \<Rightarrow> nat \<Rightarrow> asset_reader \<Rightarrow> 'v \<Rightarrow> (int \<times> bytes) \<times> asset_reader \<times> 'v" where
  "Reader_Read Z offset n r v =
     (if \<not> ar_open r then ((- EBADF, []), r, v)
      else if n = 0 \<or> offset \<ge> ar_size r then ((0, []), r, v)
      else read_loop Z offset (min n (ar_size r - offset)) 0 [] r v)"

section \<open>Writing\<close>

definition STAGING_DIRECTORY :: string where "STAGING_DIRECTORY = ''.assets_tmp''"

definition STAGING_PATH :: string where "STAGING_PATH = ''.assets_tmp/upload.part''"

record asset_writer =
  aw_directory :: string
  aw_target_path :: string
  aw_file :: nat
  aw_open :: bool
  aw_error :: int
  aw_buffer :: bytes
  aw_written :: nat

definition new_writer :: asset_writer where
  "new_writer = \<lparr>aw_directory = [], aw_target_path = [], aw_file = 0, aw_open = False, aw_error = 0, aw_buffer = [],
     aw_written = 0\<rparr>"

definition Flush :: "'v zephyr_fs \<Rightarrow> asset_writer \<Rightarrow> 'v \<Rightarrow> int \<times> asset_writer \<times> 'v" where
  "Flush Z w v =
     (if aw_buffer w = [] then (0, w, v)
      else case fs_write Z (aw_file w) (aw_buffer w) v of (rc, v1) \<Rightarrow>
        let w1 = (if rc < 0 then w\<lparr>aw_error := rc\<rparr>
                  else if rc \<noteq> int (length (aw_buffer w)) then w\<lparr>aw_error := - ENOSPC\<rparr>
                  else w\<lparr>aw_buffer := []\<rparr>)
        in (aw_error w1, w1, v1))"

text \<open>
  The loop of \<open>Append\<close> takes nothing when the block is full, so it would not end; a block is full only between the
  copy and the flush, or after a flush that failed.
\<close>

partial_function (option) append_loop ::
  "'v zephyr_fs \<Rightarrow> bytes \<Rightarrow> asset_writer \<Rightarrow> 'v \<Rightarrow> (int \<times> asset_writer \<times> 'v) option" where
  "append_loop Z data w v =
     (if data = [] then Some (0, w, v)
      else let len = min (length data) (BUFFER_SIZE - length (aw_buffer w));
               w1 = w\<lparr>aw_buffer := aw_buffer w @ take len data, aw_written := aw_written w + len\<rparr>
           in if length (aw_buffer w1) = BUFFER_SIZE
              then case Flush Z w1 v of (rc, w2, v2) \<Rightarrow>
                     if rc \<noteq> 0 then Some (rc, w2, v2) else append_loop Z (drop len data) w2 v2
              else append_loop Z (drop len data) w1 v)"

definition Writer_Append :: "'v zephyr_fs \<Rightarrow> bytes \<Rightarrow> asset_writer \<Rightarrow> 'v \<Rightarrow> (int \<times> asset_writer \<times> 'v) option" where
  "Writer_Append Z data w v =
     (if \<not> aw_open w then Some (- EBADF, w, v)
      else if aw_error w \<noteq> 0 then Some (aw_error w, w, v)
      else append_loop Z data w v)"

definition CloseFile :: "'v zephyr_fs \<Rightarrow> asset_writer \<Rightarrow> 'v \<Rightarrow> int \<times> asset_writer \<times> 'v" where
  "CloseFile Z w v = (case fs_close Z (aw_file w) v of (rc, v1) \<Rightarrow> (rc, w\<lparr>aw_file := 0, aw_open := False\<rparr>, v1))"

section \<open>The store\<close>

text \<open>
  The store's volume is a file system service; \<open>st_card\<close> is what the service of a card adds to its availability,
  true for a plain one. A writer shares the service and the write counter with its store.
\<close>

record 'v asset_store =
  st_fs :: "'v fs_service"
  st_card :: bool
  st_directory :: string
  st_write_counter :: u32

definition Store_IsAvailable :: "'v zephyr_fs \<Rightarrow> 'v asset_store \<Rightarrow> bool" where
  "Store_IsAvailable Z st \<longleftrightarrow> st_card st \<and> Fs_IsAvailable Z (st_fs st)"

definition EnsureDirectory :: "'v zephyr_fs \<Rightarrow> string \<Rightarrow> 'v fs_service \<Rightarrow> bool \<times> 'v fs_service" where
  "EnsureDirectory Z directory s =
     (if directory = [] then (True, s)
      else case Fs_Exists Z directory s of (found, s1) \<Rightarrow> if found then (True, s1) else CreateDirectory Z directory s1)"

definition DiscardStaged :: "'v zephyr_fs \<Rightarrow> 'v fs_service \<Rightarrow> 'v fs_service" where
  "DiscardStaged Z s =
     (case Fs_Exists Z STAGING_PATH s of (found, s1) \<Rightarrow> if found then snd (DeleteFile Z STAGING_PATH s1) else s1)"

text \<open>The parts of \<open>Commit\<close>: the staged file is completed and closed, then published.\<close>

definition finish_staged :: "'v zephyr_fs \<Rightarrow> asset_writer \<Rightarrow> 'v \<Rightarrow> int \<times> asset_writer \<times> 'v" where
  "finish_staged Z w v =
     (case (if aw_error w \<noteq> 0 then (aw_error w, w, v) else Flush Z w v) of (rc, w1, v1) \<Rightarrow>
        case CloseFile Z w1 v1 of (close_rc, w2, v2) \<Rightarrow> (if rc = 0 then close_rc else rc, w2, v2))"

definition publish_staged :: "'v zephyr_fs \<Rightarrow> string \<Rightarrow> string \<Rightarrow> 'v fs_service \<Rightarrow> int \<times> 'v fs_service" where
  "publish_staged Z directory target_path s =
     (case EnsureDirectory Z directory s of (ok, s1) \<Rightarrow>
        if \<not> ok then (- EIO, s1) else Fs_Rename Z STAGING_PATH target_path s1)"

definition Commit :: "'v zephyr_fs \<Rightarrow> asset_writer \<Rightarrow> 'v asset_store \<Rightarrow> int \<times> asset_writer \<times> 'v asset_store" where
  "Commit Z w st =
     (if \<not> aw_open w then (- EBADF, w, st)
      else case finish_staged Z w (fs_volume (st_fs st)) of (rc, w1, v) \<Rightarrow>
        let s = (st_fs st)\<lparr>fs_volume := v\<rparr>
        in case (if rc = 0 then publish_staged Z (aw_directory w) (aw_target_path w) s else (rc, s)) of (rc, s1) \<Rightarrow>
             let s2 = (if rc \<noteq> 0 then DiscardStaged Z s1 else s1)
             in (rc, w1\<lparr>aw_buffer := []\<rparr>, st\<lparr>st_fs := s2, st_write_counter := st_write_counter st + 1\<rparr>))"

definition Abort :: "'v zephyr_fs \<Rightarrow> asset_writer \<Rightarrow> 'v asset_store \<Rightarrow> asset_writer \<times> 'v asset_store" where
  "Abort Z w st =
     (if \<not> aw_open w then (w, st)
      else case CloseFile Z w (fs_volume (st_fs st)) of (_, w1, v) \<Rightarrow>
        (w1\<lparr>aw_buffer := [], aw_error := 0\<rparr>, st\<lparr>st_fs := DiscardStaged Z ((st_fs st)\<lparr>fs_volume := v\<rparr>)\<rparr>))"

definition new_store :: "'v zephyr_fs \<Rightarrow> 'v fs_service option \<Rightarrow> bool \<Rightarrow> string \<Rightarrow> 'v asset_store result" where
  "new_store Z fs_service present directory =
     (case fs_service of
        None \<Rightarrow> Inl InvalidArgument
      | Some s \<Rightarrow>
          let st = \<lparr>st_fs = s, st_card = present, st_directory = directory, st_write_counter = 0\<rparr>
          in Inr (if Store_IsAvailable Z st then st\<lparr>st_fs := snd (EnsureDirectory Z directory s)\<rparr> else st))"

definition GetPath :: "string \<Rightarrow> string \<Rightarrow> string" where
  "GetPath directory relative_path =
     (if directory = [] then relative_path else directory @ [CHR ''/''] @ relative_path)"

definition GetGeneration :: "'v asset_store \<Rightarrow> 64 word" where
  "GetGeneration st = push_bit 32 (ucast (GetMountGeneration (st_fs st))) OR ucast (st_write_counter st)"

definition Save :: "'v zephyr_fs \<Rightarrow> string \<Rightarrow> bytes \<Rightarrow> 'v asset_store \<Rightarrow> bool \<times> 'v asset_store" where
  "Save Z relative_path data st =
     (if \<not> Store_IsAvailable Z st then (False, st)
      else case EnsureDirectory Z (st_directory st) (st_fs st) of (ok, s1) \<Rightarrow>
        if \<not> ok then (False, st\<lparr>st_fs := s1\<rparr>)
        else case WriteFile Z (GetPath (st_directory st) relative_path) data False s1 of (is_saved, s2) \<Rightarrow>
          (is_saved, st\<lparr>st_fs := s2, st_write_counter := st_write_counter st + 1\<rparr>))"

definition Load :: "'v zephyr_fs \<Rightarrow> (nat \<Rightarrow> bool) \<Rightarrow> string \<Rightarrow> 'v asset_store \<Rightarrow> bytes \<times> 'v asset_store" where
  "Load Z alloc relative_path st =
     (let path = GetPath (st_directory st) relative_path
      in if \<not> Store_IsAvailable Z st then ([], st)
         else if \<not> alloc (length path) then ([], st)
         else case Fs_GetFileSize Z path (st_fs st) of (size_opt, s1) \<Rightarrow>
           let file_size = (case size_opt of Some n \<Rightarrow> n | None \<Rightarrow> 0)
           in if file_size = 0 \<or> \<not> alloc (file_size + 1) then ([], st\<lparr>st_fs := s1\<rparr>)
              else case ReadFile Z path (file_size + 1) s1 of ((ok, data), s2) \<Rightarrow>
                (if \<not> ok \<or> length data \<noteq> file_size then [] else data, st\<lparr>st_fs := s2\<rparr>))"

definition Store_Delete :: "'v zephyr_fs \<Rightarrow> string \<Rightarrow> 'v asset_store \<Rightarrow> bool \<times> 'v asset_store" where
  "Store_Delete Z relative_path st =
     (if \<not> Store_IsAvailable Z st then (False, st)
      else case DeleteFile Z (GetPath (st_directory st) relative_path) (st_fs st) of (is_deleted, s1) \<Rightarrow>
        (is_deleted, st\<lparr>st_fs := s1, st_write_counter := st_write_counter st + 1\<rparr>))"

definition Store_Rename :: "'v zephyr_fs \<Rightarrow> string \<Rightarrow> string \<Rightarrow> 'v asset_store \<Rightarrow> int \<times> 'v asset_store" where
  "Store_Rename Z from to st =
     (if \<not> Store_IsAvailable Z st then (- ENODEV, st)
      else case Fs_Rename Z (GetPath (st_directory st) from) (GetPath (st_directory st) to) (st_fs st) of (rc, s1) \<Rightarrow>
        (rc, st\<lparr>st_fs := s1, st_write_counter := st_write_counter st + 1\<rparr>))"

definition Store_Exists :: "'v zephyr_fs \<Rightarrow> string \<Rightarrow> 'v asset_store \<Rightarrow> bool \<times> 'v asset_store" where
  "Store_Exists Z relative_path st =
     (if \<not> Store_IsAvailable Z st then (False, st)
      else case Fs_Exists Z (GetPath (st_directory st) relative_path) (st_fs st) of (found, s1) \<Rightarrow>
        (found, st\<lparr>st_fs := s1\<rparr>))"

definition Store_GetSize :: "'v zephyr_fs \<Rightarrow> string \<Rightarrow> 'v asset_store \<Rightarrow> nat option \<times> 'v asset_store" where
  "Store_GetSize Z relative_path st =
     (if \<not> Store_IsAvailable Z st then (None, st)
      else case Fs_GetFileSize Z (GetPath (st_directory st) relative_path) (st_fs st) of (sz, s1) \<Rightarrow>
        (sz, st\<lparr>st_fs := s1\<rparr>))"

definition GetSpace :: "'v zephyr_fs \<Rightarrow> 'v asset_store \<Rightarrow> (64 word \<times> 64 word) \<times> 'v asset_store" where
  "GetSpace Z st =
     (if \<not> Store_IsAvailable Z st then ((0, 0), st)
      else case GetTotalSpace Z (st_fs st) of (total_space, s1) \<Rightarrow>
        case GetUsedSpace Z s1 of (used, s2) \<Rightarrow>
          ((if total_space > used then total_space - used else 0, used), st\<lparr>st_fs := s2\<rparr>))"

record asset_entry =
  ae_name :: string
  ae_size :: nat
  ae_index :: nat

definition List_Assets ::
  "'v zephyr_fs \<Rightarrow> nat \<Rightarrow> nat \<Rightarrow> string list \<Rightarrow> 'v asset_store \<Rightarrow>
     ((int \<times> asset_entry list \<times> nat \<times> nat) \<times> 'v asset_store) option" where
  "List_Assets Z first max_entries extensions st =
     (if \<not> Store_IsAvailable Z st then Some ((- ENODEV, [], 0, 0), st)
      else map_option (\<lambda>((rc, directory_entries, count), s1).
        (if rc = - ENOENT then (0, [], 0, 0)
         else if rc < 0 then (rc, [], 0, 0)
         else (0,
               map (\<lambda>(i, entry). \<lparr>ae_name = de_name entry, ae_size = de_size entry, ae_index = first + i\<rparr>)
                 (filter (\<lambda>(_, entry). \<not> de_is_directory entry \<and> IsValidName (de_name entry) extensions)
                   (enumerate 0 directory_entries)),
               length directory_entries, count),
         st\<lparr>st_fs := s1\<rparr>)) (ListDirectory Z (st_directory st) first max_entries (st_fs st)))"

definition OpenRead ::
  "'v zephyr_fs \<Rightarrow> (nat \<Rightarrow> bool) \<Rightarrow> string \<Rightarrow> asset_reader \<Rightarrow> 'v asset_store \<Rightarrow> int \<times> asset_reader \<times> 'v asset_store" where
  "OpenRead Z alloc name reader st =
     (case Reader_Close Z reader (fs_volume (st_fs st)) of (r0, v0) \<Rightarrow>
        let st0 = st\<lparr>st_fs := (st_fs st)\<lparr>fs_volume := v0\<rparr>\<rparr>;
            path = GetPath (st_directory st) name
        in if \<not> Store_IsAvailable Z st0 then (- ENODEV, r0, st0)
           else if name = [] then (- ENOENT, r0, st0)
           else if \<not> (alloc BUFFER_SIZE \<and> alloc (length path)) then (- ENOMEM, r0, st0)
           else case OpenFile Z path [FS_O_READ] (st_fs st0) of ((rc0, file), s1) \<Rightarrow>
             let rc = (if rc0 = - EISDIR then - ENOENT else rc0)
             in if rc < 0 then (rc, r0, st0\<lparr>st_fs := s1\<rparr>)
                else case fs_seek Z file 0 FS_SEEK_END (fs_volume s1) of (rc1, v1) \<Rightarrow>
                  case (if rc1 = 0
                        then case fs_tell Z file v1 of (sz, v2) \<Rightarrow>
                               if sz < 0 then (sz, sz, v2)
                               else case fs_seek Z file 0 FS_SEEK_SET v2 of (rc2, v3) \<Rightarrow> (rc2, sz, v3)
                        else (rc1, 0, v1)) of (rc3, sz, v4) \<Rightarrow>
                    if rc3 < 0 then (rc3, r0, st0\<lparr>st_fs := s1\<lparr>fs_volume := snd (fs_close Z file v4)\<rparr>\<rparr>)
                    else (0, \<lparr>ar_file = file, ar_open = True, ar_size = nat sz, ar_buffer = replicate BUFFER_SIZE 0,
                             ar_buffer_offset = 0, ar_buffer_length = 0, ar_file_position = 0\<rparr>,
                          st0\<lparr>st_fs := s1\<lparr>fs_volume := v4\<rparr>\<rparr>))"

definition BeginWrite ::
  "'v zephyr_fs \<Rightarrow> (nat \<Rightarrow> bool) \<Rightarrow> string \<Rightarrow> asset_writer \<Rightarrow> 'v asset_store \<Rightarrow> int \<times> asset_writer \<times> 'v asset_store" where
  "BeginWrite Z alloc name writer st =
     (case Abort Z writer st of (w0, st0) \<Rightarrow>
        let target_path = GetPath (st_directory st) name
        in if \<not> Store_IsAvailable Z st0 then (- ENODEV, w0, st0)
           else if name = [] then (- EINVAL, w0, st0)
           else if \<not> (alloc BUFFER_SIZE \<and> alloc (length (st_directory st)) \<and> alloc (length target_path))
           then (- ENOMEM, w0, st0)
           else case EnsureDirectory Z STAGING_DIRECTORY (st_fs st0) of (ok, s1) \<Rightarrow>
             if \<not> ok then (- EIO, w0, st0\<lparr>st_fs := s1\<rparr>)
             else case OpenFile Z STAGING_PATH [FS_O_WRITE, FS_O_CREATE, FS_O_TRUNC] s1 of ((rc, file), s2) \<Rightarrow>
               if rc < 0 then (rc, w0, st0\<lparr>st_fs := s2\<rparr>)
               else (0, \<lparr>aw_directory = st_directory st, aw_target_path = target_path, aw_file = file, aw_open = True,
                        aw_error = 0, aw_buffer = [], aw_written = 0\<rparr>, st0\<lparr>st_fs := s2\<rparr>))"

definition RemoveStaged :: "'v zephyr_fs \<Rightarrow> 'v asset_store \<Rightarrow> bool \<times> 'v asset_store" where
  "RemoveStaged Z st =
     (if \<not> Store_IsAvailable Z st then (False, st)
      else case Fs_Exists Z STAGING_PATH (st_fs st) of (found, s1) \<Rightarrow>
        if \<not> found then (True, st\<lparr>st_fs := s1\<rparr>)
        else case DeleteFile Z STAGING_PATH s1 of (ok, s2) \<Rightarrow> (ok, st\<lparr>st_fs := s2\<rparr>))"

end
