(* ===== verification/Asset_Props.thy ===== *)
theory Asset_Props
  imports Asset_Store
begin

text \<open>
  What the asset store guarantees on a file system that behaves as documented: a read returns the bytes of the
  file whatever the block cache and short reads do, and a staged write is published as a whole or not at all.
\<close>

section \<open>A file system that behaves\<close>

text \<open>
  The files of a volume as a map from entries to contents, the open handles with their file and position, and the
  entry a path names. The laws are those of Zephyr's file system API and of the comments of \<open>i_fs_service.h\<close>: any
  call may fail, a write may be short, a failed write or close may leave the file it works on in any state, a
  failed rename may have removed its target, but no call touches a file that it was not asked to.
\<close>

record ('v, 'k) disk =
  d_key :: "string \<Rightarrow> 'k"
  d_files :: "'v \<Rightarrow> 'k \<Rightarrow> bytes option"
  d_open :: "'v \<Rightarrow> nat \<Rightarrow> ('k \<times> nat) option"

definition same_files :: "('v, 'k) disk \<Rightarrow> 'v \<Rightarrow> 'v \<Rightarrow> bool" where
  "same_files D v v' \<longleftrightarrow> d_files D v' = d_files D v \<and> d_open D v' = d_open D v"

definition same_but :: "('v, 'k) disk \<Rightarrow> 'k set \<Rightarrow> 'v \<Rightarrow> 'v \<Rightarrow> bool" where
  "same_but D K v v' \<longleftrightarrow> (\<forall>k. k \<notin> K \<longrightarrow> d_files D v' k = d_files D v k)"

definition names_ok :: "('v, 'k) disk \<Rightarrow> bool" where
  "names_ok D \<longleftrightarrow> (\<forall>mnt a b p q. no_null mnt \<longrightarrow> IsPlainPath a \<longrightarrow> IsPlainPath b \<longrightarrow> TryBuildPath (Some mnt) a = Some p \<longrightarrow>
     TryBuildPath (Some mnt) b = Some q \<longrightarrow> d_key D (CStr p) = d_key D (CStr q) \<longrightarrow> IsSameEntryIgnoringCase a b)"

definition open_ok :: "'v zephyr_fs \<Rightarrow> ('v, 'k) disk \<Rightarrow> bool" where
  "open_ok Z D \<longleftrightarrow> (\<forall>p fl v rc h v'. fs_open Z p fl v = (rc, h, v') \<longrightarrow>
     same_but D {d_key D p} v v' \<and>
     (fl = [FS_O_WRITE, FS_O_CREATE, FS_O_TRUNC] \<longrightarrow> 0 \<le> rc \<longrightarrow>
        d_files D v' (d_key D p) = Some [] \<and> d_open D v' h = Some (d_key D p, 0)) \<and>
     (fl = [FS_O_READ] \<longrightarrow> d_files D v' = d_files D v \<and>
        (0 \<le> rc \<longrightarrow> d_files D v (d_key D p) \<noteq> None \<and> d_open D v' h = Some (d_key D p, 0))))"

definition write_ok :: "'v zephyr_fs \<Rightarrow> ('v, 'k) disk \<Rightarrow> bool" where
  "write_ok Z D \<longleftrightarrow> (\<forall>h bs v rc v' k p. fs_write Z h bs v = (rc, v') \<longrightarrow> d_open D v h = Some (k, p) \<longrightarrow>
     same_but D {k} v v' \<and> (\<exists>p'. d_open D v' h = Some (k, p')) \<and>
     (\<forall>c. 0 \<le> rc \<longrightarrow> d_files D v k = Some c \<longrightarrow> p = length c \<longrightarrow>
        nat rc \<le> length bs \<and> d_files D v' k = Some (c @ take (nat rc) bs) \<and> d_open D v' h = Some (k, p + nat rc)))"

definition close_ok :: "'v zephyr_fs \<Rightarrow> ('v, 'k) disk \<Rightarrow> bool" where
  "close_ok Z D \<longleftrightarrow> (\<forall>h v rc v' k p. fs_close Z h v = (rc, v') \<longrightarrow> d_open D v h = Some (k, p) \<longrightarrow>
     rc \<le> 0 \<and> same_but D {k} v v' \<and> (rc = 0 \<longrightarrow> d_files D v' = d_files D v))"

definition entries_ok :: "'v zephyr_fs \<Rightarrow> ('v, 'k) disk \<Rightarrow> bool" where
  "entries_ok Z D \<longleftrightarrow>
     (\<forall>p v. same_files D v (snd (snd (fs_stat Z p v))) \<and> same_files D v (snd (fs_mkdir Z p v))) \<and>
     (\<forall>p v rc e v' c. fs_stat Z p v = (rc, e, v') \<longrightarrow> rc \<le> 0 \<and> (rc = 0 \<longrightarrow> d_files D v (d_key D p) = Some c \<longrightarrow>
        ent_type e = FS_DIR_ENTRY_FILE \<and> ent_size e = length c)) \<and>
     (\<forall>p v rc v'. fs_unlink Z p v = (rc, v') \<longrightarrow> same_but D {d_key D p} v v') \<and>
     (\<forall>p q v rc v'. fs_rename Z p q v = (rc, v') \<longrightarrow> d_key D p \<noteq> d_key D q \<longrightarrow>
        same_but D {d_key D p, d_key D q} v v' \<and>
        (rc = 0 \<longrightarrow> d_files D v' (d_key D q) = d_files D v (d_key D p) \<and> d_files D v' (d_key D p) = None))"

definition read_ok :: "'v zephyr_fs \<Rightarrow> ('v, 'k) disk \<Rightarrow> bool" where
  "read_ok Z D \<longleftrightarrow> (\<forall>h n v rc bs v' k p c. fs_read Z h n v = (rc, bs, v') \<longrightarrow> d_open D v h = Some (k, p) \<longrightarrow>
     d_files D v k = Some c \<longrightarrow> 0 < n \<longrightarrow>
     d_files D v' = d_files D v \<and> (\<exists>p'. d_open D v' h = Some (k, p')) \<and>
     (0 \<le> rc \<longrightarrow> nat rc \<le> n \<and> bs = take (nat rc) (drop p c) \<and> length bs = nat rc \<and>
        d_open D v' h = Some (k, p + nat rc) \<and> (rc = 0 \<longrightarrow> length c \<le> p)))"

definition seek_ok :: "'v zephyr_fs \<Rightarrow> ('v, 'k) disk \<Rightarrow> bool" where
  "seek_ok Z D \<longleftrightarrow>
     (\<forall>h off wh v rc v' k p c. fs_seek Z h off wh v = (rc, v') \<longrightarrow> d_open D v h = Some (k, p) \<longrightarrow>
        d_files D v k = Some c \<longrightarrow>
        rc \<le> 0 \<and> d_files D v' = d_files D v \<and> (\<exists>p'. d_open D v' h = Some (k, p')) \<and>
        (rc = 0 \<longrightarrow> wh = FS_SEEK_SET \<longrightarrow> 0 \<le> off \<longrightarrow> d_open D v' h = Some (k, nat off)) \<and>
        (rc = 0 \<longrightarrow> wh = FS_SEEK_END \<longrightarrow> off = 0 \<longrightarrow> d_open D v' h = Some (k, length c))) \<and>
     (\<forall>h v rc v' k p. fs_tell Z h v = (rc, v') \<longrightarrow> d_open D v h = Some (k, p) \<longrightarrow>
        same_files D v v' \<and> (0 \<le> rc \<longrightarrow> rc = int p))"

definition disk_ok :: "'v zephyr_fs \<Rightarrow> ('v, 'k) disk \<Rightarrow> bool" where
  "disk_ok Z D \<longleftrightarrow> names_ok D \<and> open_ok Z D \<and> write_ok Z D \<and> close_ok Z D \<and> entries_ok Z D \<and> read_ok Z D \<and> seek_ok Z D"

lemma same_but_trans: "same_but D K v v' \<Longrightarrow> same_but D K v' v'' \<Longrightarrow> same_but D K v v''"
  by (simp add: same_but_def)

lemma same_but_mono: "same_but D K v v' \<Longrightarrow> K \<subseteq> L \<Longrightarrow> same_but D L v v'"
  by (auto simp: same_but_def)

lemma same_files_but: "same_files D v v' \<Longrightarrow> same_but D K v v'"
  by (simp add: same_files_def same_but_def)

lemma same_files_refl [simp]: "same_files D v v"
  by (simp add: same_files_def)

lemma same_files_trans: "same_files D v v' \<Longrightarrow> same_files D v' v'' \<Longrightarrow> same_files D v v''"
  by (simp add: same_files_def)

section \<open>The staged write\<close>

text \<open>
  While a write is staged, the file holds what was flushed and the block the rest of what was appended, as long as
  no write failed; and the other files are as they were.
\<close>

definition staged :: "('v, 'k) disk \<Rightarrow> 'k \<Rightarrow> asset_writer \<Rightarrow> 'v \<Rightarrow> bytes \<Rightarrow> bool" where
  "staged D k w v data \<longleftrightarrow> aw_open w \<and> length (aw_buffer w) \<le> BUFFER_SIZE \<and>
     (\<exists>p. d_open D v (aw_file w) = Some (k, p) \<and>
        (aw_error w = 0 \<longrightarrow> (\<exists>c. d_files D v k = Some c \<and> p = length c \<and> c @ aw_buffer w = data)))"

lemma Flush_staged:
  assumes "Flush Z w v = (rc, w', v')" "disk_ok Z D" "staged D k w v data" "aw_error w = 0"
  shows "staged D k w' v' data" "rc = aw_error w'" "rc = 0 \<Longrightarrow> aw_buffer w' = []" "same_but D {k} v v'"
proof -
  from assms(3,4) obtain c where c: "d_open D v (aw_file w) = Some (k, length c)" "d_files D v k = Some c"
    "c @ aw_buffer w = data" "aw_open w" "length (aw_buffer w) \<le> BUFFER_SIZE" by (auto simp: staged_def)
  obtain rc1 v1 where wr: "fs_write Z (aw_file w) (aw_buffer w) v = (rc1, v1)" by (metis prod.exhaust)
  have law: "same_but D {k} v v1" "\<exists>p'. d_open D v1 (aw_file w) = Some (k, p')"
    "0 \<le> rc1 \<Longrightarrow> d_files D v1 k = Some (c @ take (nat rc1) (aw_buffer w)) \<and> d_open D v1 (aw_file w) = Some (k, length c + nat rc1)"
    using assms(2) wr c by (fastforce simp: disk_ok_def write_ok_def)+
  show "staged D k w' v' data" "rc = aw_error w'" "rc = 0 \<Longrightarrow> aw_buffer w' = []" "same_but D {k} v v'"
    using assms(1,3,4) wr law c
    by (auto simp: Flush_def Let_def staged_def errno_defs same_but_def split: if_splits)
qed

definition same_target :: "asset_writer \<Rightarrow> asset_writer \<Rightarrow> bool" where
  "same_target w w' \<longleftrightarrow> aw_target_path w' = aw_target_path w \<and> aw_directory w' = aw_directory w"

text \<open>What appending keeps: the staged data grow by what is appended, and no other file changes.\<close>

definition appended ::
  "('v, 'k) disk \<Rightarrow> 'k \<Rightarrow> asset_writer \<Rightarrow> 'v \<Rightarrow> asset_writer \<Rightarrow> 'v \<Rightarrow> bytes \<Rightarrow> bool" where
  "appended D k w v w' v' data \<longleftrightarrow> staged D k w' v' data \<and> (aw_error w' = 0 \<longrightarrow> length (aw_buffer w') < BUFFER_SIZE) \<and>
     same_but D {k} v v' \<and> same_target w w'"

lemma appended_trans:
  "appended D k w v w1 v1 d1 \<Longrightarrow> appended D k w1 v1 w2 v2 d2 \<Longrightarrow> appended D k w v w2 v2 d2"
  by (auto simp: appended_def same_target_def intro: same_but_trans)

lemma Flush_target: "Flush Z w v = (rc, w', v') \<Longrightarrow> same_target w w'"
  by (auto simp: Flush_def same_target_def Let_def split: if_splits prod.splits)

lemma append_loop_appended:
  assumes "disk_ok Z D" "staged D k w v data0" "aw_error w = 0" "length (aw_buffer w) < BUFFER_SIZE"
  shows "\<exists>rc w' v'. append_loop Z data w v = Some (rc, w', v') \<and> rc = aw_error w' \<and> appended D k w v w' v' (data0 @ data)"
  using assms(2-)
proof (induction "length data" arbitrary: data w v data0 rule: less_induct)
  case less
  show ?case
  proof (cases "data = []")
    case True
    then show ?thesis using less.prems
      by (auto simp: append_loop.simps appended_def same_but_def same_target_def)
  next
    case False
    define len where "len = min (length data) (BUFFER_SIZE - length (aw_buffer w))"
    define w1 where "w1 = w\<lparr>aw_buffer := aw_buffer w @ take len data, aw_written := aw_written w + len\<rparr>"
    have shorter: "length (drop len data) < length data" using False less.prems(3) by (auto simp: len_def)
    have w1: "staged D k w1 v (data0 @ take len data)" "aw_error w1 = 0" "same_target w w1"
      using less.prems by (auto simp: staged_def w1_def len_def same_target_def)
    have len_le: "min (length data) len = len" by (simp add: len_def)
    have w1_len: "length (aw_buffer w1) = length (aw_buffer w) + len" by (auto simp: w1_def len_def)
    show ?thesis
    proof (cases "length (aw_buffer w1) = BUFFER_SIZE")
      case full: True
      obtain rc w2 v2 where fl: "Flush Z w1 v = (rc, w2, v2)" by (metis prod.exhaust)
      note F = Flush_staged [OF fl assms(1) w1(1,2)]
      have t: "same_target w w2" using Flush_target [OF fl] w1(3) by (simp add: same_target_def)
      have run: "append_loop Z data w v = (if rc \<noteq> 0 then Some (rc, w2, v2) else append_loop Z (drop len data) w2 v2)"
        using False full fl by (subst append_loop.simps) (simp add: Let_def len_def [symmetric] w1_def [symmetric] w1_len len_le)
      show ?thesis
      proof (cases "rc = 0")
        case True
        then have w2: "aw_error w2 = 0" "length (aw_buffer w2) < BUFFER_SIZE" using F(2,3) by (auto simp: BUFFER_SIZE_def)
        have "appended D k w v w2 v2 (data0 @ take len data)" using F(1,4) w2 t by (simp add: appended_def)
        with less.hyps [OF shorter F(1) w2] run True show ?thesis
          by simp (metis append_take_drop_id appended_trans append.assoc)
      next
        case failed: False
        then show ?thesis using run F(1,2,4) t by (auto simp: appended_def staged_def)
      qed
    next
      case False': False
      have run: "append_loop Z data w v = append_loop Z (drop len data) w1 v"
        using False False' by (subst append_loop.simps) (simp add: Let_def len_def [symmetric] w1_def [symmetric] w1_len len_le)
      have small: "length (aw_buffer w1) < BUFFER_SIZE" using False' w1_len less.prems(3) by (auto simp: len_def)
      have "appended D k w v w1 v (data0 @ take len data)" using w1 small by (simp add: appended_def same_but_def)
      with less.hyps [OF shorter w1(1,2) small] run show ?thesis
        by simp (metis append_take_drop_id appended_trans append.assoc)
    qed
  qed
qed

fun append_all :: "'v zephyr_fs \<Rightarrow> bytes list \<Rightarrow> asset_writer \<Rightarrow> 'v \<Rightarrow> (int list \<times> asset_writer \<times> 'v) option" where
  "append_all Z [] w v = Some ([], w, v)"
| "append_all Z (data # rest) w v =
     Option.bind (Writer_Append Z data w v) (\<lambda>(rc, w1, v1).
       map_option (\<lambda>(rcs, w2, v2). (rc # rcs, w2, v2)) (append_all Z rest w1 v1))"

lemma Append_appended:
  assumes "disk_ok Z D" "staged D k w v data0" "aw_error w = 0 \<longrightarrow> length (aw_buffer w) < BUFFER_SIZE"
  shows "\<exists>rc w' v'. Writer_Append Z data w v = Some (rc, w', v') \<and> rc = aw_error w' \<and>
    (aw_error w \<noteq> 0 \<longrightarrow> w' = w) \<and> appended D k w v w' v' (data0 @ data)"
proof (cases "aw_error w = 0")
  case True
  with append_loop_appended [OF assms(1,2)] assms(2,3) show ?thesis by (auto simp: Writer_Append_def staged_def)
next
  case False
  then show ?thesis using assms(2)
    by (auto simp: Writer_Append_def staged_def appended_def same_but_def same_target_def)
qed

lemma append_all_appended:
  assumes "disk_ok Z D" "appended D k w0 v0 w v data0"
  shows "\<exists>rcs w' v'. append_all Z chunks w v = Some (rcs, w', v') \<and> appended D k w0 v0 w' v' (data0 @ concat chunks) \<and>
    ((aw_error w \<noteq> 0 \<or> (\<exists>rc \<in> set rcs. rc \<noteq> 0)) \<longleftrightarrow> aw_error w' \<noteq> 0)"
  using assms(2)
proof (induction chunks arbitrary: w v data0)
  case Nil
  then show ?case by simp
next
  case (Cons d ds)
  from Cons.prems have st: "staged D k w v data0" "aw_error w = 0 \<longrightarrow> length (aw_buffer w) < BUFFER_SIZE"
    by (auto simp: appended_def)
  from Append_appended [OF assms(1) this, of d] obtain rc w1 v1 where
    a: "Writer_Append Z d w v = Some (rc, w1, v1)" "rc = aw_error w1" "aw_error w \<noteq> 0 \<longrightarrow> w1 = w"
    "appended D k w v w1 v1 (data0 @ d)" by blast
  from Cons.IH [OF appended_trans [OF Cons.prems a(4)]] obtain rcs w2 v2 where
    b: "append_all Z ds w1 v1 = Some (rcs, w2, v2)" "appended D k w0 v0 w2 v2 ((data0 @ d) @ concat ds)"
    "(aw_error w1 \<noteq> 0 \<or> (\<exists>rc \<in> set rcs. rc \<noteq> 0)) \<longleftrightarrow> aw_error w2 \<noteq> 0" by blast
  show ?case using a b by auto
qed

lemma CloseFile_closed:
  assumes "CloseFile Z w v = (rc, w', v')" "disk_ok Z D" "d_open D v (aw_file w) = Some (k, p)"
  shows "same_but D {k} v v'" "rc = 0 \<Longrightarrow> d_files D v' = d_files D v" "same_target w w'" "\<not> aw_open w'"
  using assms unfolding disk_ok_def close_ok_def
  by (fastforce simp: CloseFile_def same_target_def split: prod.splits)+

lemma finish_staged_done:
  assumes "finish_staged Z w v = (rc, w', v')" "disk_ok Z D" "staged D k w v data"
  shows "same_but D {k} v v'" "rc = 0 \<Longrightarrow> aw_error w = 0 \<and> d_files D v' k = Some data" "\<not> aw_open w'"
proof -
  obtain rc1 w1 v1 where f: "(if aw_error w \<noteq> 0 then (aw_error w, w, v) else Flush Z w v) = (rc1, w1, v1)"
    by (metis prod.exhaust)
  obtain rc2 w2 v2 where c: "CloseFile Z w1 v1 = (rc2, w2, v2)" by (metis prod.exhaust)
  have out: "rc = (if rc1 = 0 then rc2 else rc1)" "w' = w2" "v' = v2"
    using assms(1) f c by (auto simp: finish_staged_def split: if_splits)
  have f1: "staged D k w1 v1 data" "rc1 = aw_error w1" "rc1 = 0 \<Longrightarrow> aw_error w = 0 \<and> aw_buffer w1 = []" "same_but D {k} v v1"
    using f assms(3) Flush_staged [OF _ assms(2,3)] by (auto simp: same_but_def split: if_splits)
  then obtain p where "d_open D v1 (aw_file w1) = Some (k, p)" by (auto simp: staged_def)
  note C = CloseFile_closed [OF c assms(2) this]
  show "same_but D {k} v v'" using f1(4) C(1) out by (auto intro: same_but_trans)
  show "\<not> aw_open w'" using C(4) out by simp
  show "aw_error w = 0 \<and> d_files D v' k = Some data" if "rc = 0"
  proof -
    have rcs: "rc1 = 0" "rc2 = 0" using that out by (auto split: if_splits)
    then have "d_files D v1 k = Some data" using f1 by (auto simp: staged_def)
    then show ?thesis using C(2) [OF rcs(2)] f1(3) [OF rcs(1)] out by simp
  qed
qed

text \<open>The entry a path of the service names, and the operations of the service that change no file.\<close>

definition entry_of :: "('v, 'k) disk \<Rightarrow> 'v fs_service \<Rightarrow> string \<Rightarrow> 'k option" where
  "entry_of D s relative_path = map_option (\<lambda>p. d_key D (CStr p)) (TryBuildPath (fs_mountpoint s) relative_path)"

definition vol_untouched :: "('v, 'k) disk \<Rightarrow> 'v fs_service \<Rightarrow> 'v fs_service \<Rightarrow> bool" where
  "vol_untouched D s s' \<longleftrightarrow> fs_mountpoint s' = fs_mountpoint s \<and> same_files D (fs_volume s) (fs_volume s')"

lemma vol_untouched_trans: "vol_untouched D s s1 \<Longrightarrow> vol_untouched D s1 s2 \<Longrightarrow> vol_untouched D s s2"
  by (auto simp: vol_untouched_def intro: same_files_trans)

lemma with_path_untouched:
  "(\<And>full v. same_files D v (snd (run full v))) \<Longrightarrow> vol_untouched D s (snd (with_path Z s p a b run))"
  by (auto simp: with_path_def vol_untouched_def case_prod_beta split: option.splits)

lemma stat_untouched: "disk_ok Z D \<Longrightarrow> same_files D v (snd (snd (fs_stat Z p v)))"
  by (simp add: disk_ok_def entries_ok_def)

lemma Exists_untouched: "disk_ok Z D \<Longrightarrow> vol_untouched D s (snd (Fs_Exists Z p s))"
  unfolding Fs_Exists_def by (rule with_path_untouched) (simp add: case_prod_beta stat_untouched)

lemma GetFileSize_untouched: "disk_ok Z D \<Longrightarrow> vol_untouched D s (snd (Fs_GetFileSize Z p s))"
  unfolding Fs_GetFileSize_def by (rule with_path_untouched) (simp add: case_prod_beta stat_untouched)

lemma make_directories_untouched: "disk_ok Z D \<Longrightarrow> same_files D v (snd (make_directories Z path start cur v))"
proof (induction Z path start cur v rule: make_directories.induct)
  case (1 Z path start cur v)
  note IH = 1(1) [OF _ refl refl _ 1(3)] 1(2) [OF _ refl refl _ refl _ _ 1(3)]
  let ?seg = "takeWhile (\<lambda>c. c \<noteq> PATH_SEPARATOR) (drop start path)"
  obtain rc v1 where mk: "fs_mkdir Z (CStr (path_append PATH_BUFFER_SIZE ?seg cur)) v = (rc, v1)" by (metis prod.exhaust)
  then have v1: "same_files D v v1" using 1(3) by (metis disk_ok_def entries_ok_def snd_conv)
  show ?case
  proof (cases "start < length path")
    case start: True
    then show ?thesis
    proof (cases "?seg = []")
      case True
      with start IH(1) [OF start True] show ?thesis by (subst make_directories.simps) (simp add: Let_def)
    next
      case False
      with start mk v1 IH(2) [OF start False mk [symmetric]] show ?thesis
        by (subst make_directories.simps) (auto simp: Let_def intro: same_files_trans)
    qed
  qed (simp add: make_directories.simps)
qed

lemma EnsureDirectory_untouched: "disk_ok Z D \<Longrightarrow> vol_untouched D s (snd (EnsureDirectory Z dir s))"
proof -
  assume Z: "disk_ok Z D"
  have mk: "vol_untouched D s (snd (CreateDirectory Z dir s))" for s
    unfolding CreateDirectory_def by (rule with_path_untouched) (rule make_directories_untouched [OF Z])
  show ?thesis
    using Exists_untouched [OF Z, of s dir] mk [of "snd (Fs_Exists Z dir s)"]
    by (auto simp: EnsureDirectory_def case_prod_beta vol_untouched_def intro: same_files_trans)
qed

lemma DiscardStaged_only:
  assumes "disk_ok Z D"
  shows "fs_mountpoint (DiscardStaged Z s) = fs_mountpoint s"
    and "same_but D (set_option (entry_of D s STAGING_PATH)) (fs_volume s) (fs_volume (DiscardStaged Z s))"
proof -
  obtain found s1 where e: "Fs_Exists Z STAGING_PATH s = (found, s1)" by (metis prod.exhaust)
  have s1: "fs_mountpoint s1 = fs_mountpoint s" "same_files D (fs_volume s) (fs_volume s1)"
    using Exists_untouched [OF assms, of s STAGING_PATH] e by (auto simp: vol_untouched_def)
  have del: "fs_mountpoint (snd (DeleteFile Z STAGING_PATH s1)) = fs_mountpoint s1"
    "same_but D (set_option (entry_of D s1 STAGING_PATH)) (fs_volume s1) (fs_volume (snd (DeleteFile Z STAGING_PATH s1)))"
    using assms by (auto simp: DeleteFile_def with_path_def case_prod_beta entry_of_def same_but_def
        disk_ok_def entries_ok_def split: option.splits) (metis prod.collapse)
  have same: "entry_of D s1 STAGING_PATH = entry_of D s STAGING_PATH" using s1 by (simp add: entry_of_def)
  show "fs_mountpoint (DiscardStaged Z s) = fs_mountpoint s" using e s1 del by (simp add: DiscardStaged_def)
  show "same_but D (set_option (entry_of D s STAGING_PATH)) (fs_volume s) (fs_volume (DiscardStaged Z s))"
    using e s1(2) del(2) same by (auto simp: DiscardStaged_def same_but_def same_files_def)
qed

text \<open>A rename of the service that succeeds moves the file; one that fails touches at most its two entries.\<close>

lemma Rename_cases:
  assumes "Fs_Rename Z from to s = (rc, s')"
  obtains (refused) "s' = s" "rc \<noteq> 0"
  | (no_source) p e v where "s' = s\<lparr>fs_volume := v\<rparr>" "rc \<noteq> 0" "fs_stat Z p (fs_volume s) = (rc, e, v)"
  | (renamed) mnt p q rc1 e v1 v2 where "TryBuildPath (Some mnt) from = Some p" "TryBuildPath (Some mnt) to = Some q"
      "fs_mountpoint s = Some mnt" "IsPlainPath from" "IsPlainPath to" "\<not> IsSameEntryIgnoringCase from to"
      "fs_stat Z (CStr p) (fs_volume s) = (rc1, e, v1)" "fs_rename Z (CStr p) (CStr q) v1 = (rc, v2)"
      "s' = s\<lparr>fs_volume := v2\<rparr>"
proof (cases "IsMounted Z s \<and> from \<noteq> [] \<and> to \<noteq> [] \<and> (\<exists>p. TryBuildPath (fs_mountpoint s) from = Some p) \<and>
    (\<exists>q. TryBuildPath (fs_mountpoint s) to = Some q) \<and> IsPlainPath from \<and> IsPlainPath to \<and> \<not> IsSameEntryIgnoringCase from to")
  case True
  then obtain mnt p q where b: "fs_mountpoint s = Some mnt" "TryBuildPath (Some mnt) from = Some p"
    "TryBuildPath (Some mnt) to = Some q" by (auto simp: IsMounted_def)
  obtain rc1 e v1 where st: "fs_stat Z (CStr p) (fs_volume s) = (rc1, e, v1)" by (metis prod.exhaust)
  obtain rc2 v2 where rn: "fs_rename Z (CStr p) (CStr q) v1 = (rc2, v2)" by (metis prod.exhaust)
  have eq: "Fs_Rename Z from to s = (if rc1 < 0 then (rc1, s\<lparr>fs_volume := v1\<rparr>) else (rc2, s\<lparr>fs_volume := v2\<rparr>))"
    using True b st rn by (simp add: Fs_Rename_def)
  show ?thesis
  proof (cases "rc1 < 0")
    case neg: True
    show ?thesis by (rule no_source [of v1 "CStr p" e]) (use neg eq assms st in auto)
  next
    case False
    show ?thesis by (rule renamed [OF b(2,3,1) _ _ _ st]) (use False True eq assms rn in auto)
  qed
next
  case False
  then show ?thesis using assms refused
    by (simp add: Fs_Rename_def errno_defs split: if_splits option.splits)
qed

lemma Rename_moves:
  assumes "Fs_Rename Z from to s = (rc, s')" "disk_ok Z D" "pred_option no_null (fs_mountpoint s)"
  shows "fs_mountpoint s' = fs_mountpoint s"
    and "rc = 0 \<Longrightarrow> \<exists>kf kt. entry_of D s from = Some kf \<and> entry_of D s to = Some kt \<and> kf \<noteq> kt \<and>
      d_files D (fs_volume s') kt = d_files D (fs_volume s) kf \<and> d_files D (fs_volume s') kf = None"
    and "same_but D (set_option (entry_of D s from) \<union> set_option (entry_of D s to)) (fs_volume s) (fs_volume s')"
proof -
  show "fs_mountpoint s' = fs_mountpoint s"
    using assms(1) by (auto simp: Fs_Rename_def split: if_splits option.splits prod.splits)
  have law: "same_but D {d_key D p, d_key D q} v v' \<and>
    (rc = 0 \<longrightarrow> d_files D v' (d_key D q) = d_files D v (d_key D p) \<and> d_files D v' (d_key D p) = None)"
    if "fs_rename Z p q v = (rc, v')" "d_key D p \<noteq> d_key D q" for p q v rc v'
    using assms(2) that by (auto simp: disk_ok_def entries_ok_def)
  have keys: "d_key D (CStr p) \<noteq> d_key D (CStr q)"
    if "TryBuildPath (Some mnt) from = Some p" "TryBuildPath (Some mnt) to = Some q" "fs_mountpoint s = Some mnt"
      "IsPlainPath from" "IsPlainPath to" "\<not> IsSameEntryIgnoringCase from to" for mnt p q
    using assms(2,3) that unfolding disk_ok_def names_ok_def by (metis option.pred_inject(2))
  show "\<exists>kf kt. entry_of D s from = Some kf \<and> entry_of D s to = Some kt \<and> kf \<noteq> kt \<and>
      d_files D (fs_volume s') kt = d_files D (fs_volume s) kf \<and> d_files D (fs_volume s') kf = None" if "rc = 0"
    using assms(1)
  proof (cases rule: Rename_cases)
    case (renamed mnt p q rc1 e v1 v2)
    have "same_files D (fs_volume s) v1" using stat_untouched [OF assms(2), of "fs_volume s" "CStr p"] renamed(7) by simp
    then show ?thesis using law [OF renamed(8) keys [OF renamed(1-6)]] keys [OF renamed(1-6)] renamed that
      by (auto simp: entry_of_def same_files_def)
  qed (use that in auto)
  show "same_but D (set_option (entry_of D s from) \<union> set_option (entry_of D s to)) (fs_volume s) (fs_volume s')"
    using assms(1)
  proof (cases rule: Rename_cases)
    case (renamed mnt p q rc1 e v1 v2)
    have "same_files D (fs_volume s) v1" using stat_untouched [OF assms(2), of "fs_volume s" "CStr p"] renamed(7) by simp
    then show ?thesis using law [OF renamed(8) keys [OF renamed(1-6)]] renamed
      by (auto simp: entry_of_def same_files_def same_but_def)
  next
    case (no_source p e v)
    then show ?thesis using stat_untouched [OF assms(2), of "fs_volume s" p] by (simp add: same_files_but)
  qed (simp add: same_but_def)
qed

lemma publish_moves:
  assumes "publish_staged Z directory target s = (rc, s')" "disk_ok Z D" "pred_option no_null (fs_mountpoint s)"
  shows "fs_mountpoint s' = fs_mountpoint s"
    and "rc = 0 \<Longrightarrow> \<exists>kf kt. entry_of D s STAGING_PATH = Some kf \<and> entry_of D s target = Some kt \<and> kf \<noteq> kt \<and>
      d_files D (fs_volume s') kt = d_files D (fs_volume s) kf \<and> d_files D (fs_volume s') kf = None"
    and "same_but D (set_option (entry_of D s STAGING_PATH) \<union> set_option (entry_of D s target)) (fs_volume s) (fs_volume s')"
proof -
  obtain ok s1 where e: "EnsureDirectory Z directory s = (ok, s1)" by (metis prod.exhaust)
  have s1: "fs_mountpoint s1 = fs_mountpoint s" "d_files D (fs_volume s1) = d_files D (fs_volume s)"
    using EnsureDirectory_untouched [OF assms(2), of s directory] e by (auto simp: vol_untouched_def same_files_def)
  have en: "entry_of D s1 = entry_of D s" using s1(1) by (simp add: entry_of_def fun_eq_iff)
  note R = Rename_moves [OF _ assms(2), of STAGING_PATH target s1, unfolded en s1, OF _ assms(3)]
  have run: "(if ok then Fs_Rename Z STAGING_PATH target s1 else (- EIO, s1)) = (rc, s')"
    using assms(1) e by (simp add: publish_staged_def split: if_splits)
  show "fs_mountpoint s' = fs_mountpoint s" by (cases ok) (use run s1(1) R(1) [of rc s'] in simp_all)
  show "\<exists>kf kt. entry_of D s STAGING_PATH = Some kf \<and> entry_of D s target = Some kt \<and> kf \<noteq> kt \<and>
      d_files D (fs_volume s') kt = d_files D (fs_volume s) kf \<and> d_files D (fs_volume s') kf = None" if "rc = 0"
    by (cases ok) (use run that R(2) [of rc s'] in \<open>simp_all add: errno_defs\<close>)
  show "same_but D (set_option (entry_of D s STAGING_PATH) \<union> set_option (entry_of D s target)) (fs_volume s) (fs_volume s')"
    by (cases ok) (use run s1(2) R(3) [of rc s'] in \<open>auto simp: same_but_def\<close>)
qed

lemma BeginWrite_staged:
  assumes "BeginWrite Z alloc name w0 st = (0, w, st')" "disk_ok Z D" "\<not> aw_open w0"
  obtains k where "entry_of D (st_fs st) STAGING_PATH = Some k" "appended D k w (fs_volume (st_fs st)) w (fs_volume (st_fs st')) []"
    "aw_error w = 0" "fs_mountpoint (st_fs st') = fs_mountpoint (st_fs st)" "aw_target_path w = GetPath (st_directory st) name"
    "aw_directory w = st_directory st"
proof -
  have ab: "Abort Z w0 st = (w0, st)" using assms(3) by (simp add: Abort_def)
  obtain ok s1 where e: "EnsureDirectory Z STAGING_DIRECTORY (st_fs st) = (ok, s1)" by (metis prod.exhaust)
  obtain rc h s2 where o: "OpenFile Z STAGING_PATH [FS_O_WRITE, FS_O_CREATE, FS_O_TRUNC] s1 = ((rc, h), s2)" by (metis prod.exhaust)
  have s1: "fs_mountpoint s1 = fs_mountpoint (st_fs st)" "same_files D (fs_volume (st_fs st)) (fs_volume s1)"
    using EnsureDirectory_untouched [OF assms(2), of "st_fs st" STAGING_DIRECTORY] e by (auto simp: vol_untouched_def)
  have w: "\<not> rc < 0" "w = \<lparr>aw_directory = st_directory st, aw_target_path = GetPath (st_directory st) name, aw_file = h,
      aw_open = True, aw_error = 0, aw_buffer = [], aw_written = 0\<rparr>" "st' = st\<lparr>st_fs := s2\<rparr>"
    using assms(1) ab e o by (auto simp: BeginWrite_def Let_def errno_defs split: if_splits)
  from o w(1) obtain p where p: "TryBuildPath (fs_mountpoint s1) STAGING_PATH = Some p"
    "fs_open Z (CStr p) [FS_O_WRITE, FS_O_CREATE, FS_O_TRUNC] (fs_volume s1) = (rc, h, fs_volume s2)" "fs_mountpoint s2 = fs_mountpoint s1"
    by (auto simp: OpenFile_def with_path_def errno_defs split: if_splits option.splits prod.splits)
  have law: "same_but D {d_key D (CStr p)} (fs_volume s1) (fs_volume s2)" "d_files D (fs_volume s2) (d_key D (CStr p)) = Some []"
    "d_open D (fs_volume s2) h = Some (d_key D (CStr p), 0)"
    using assms(2) p(2) w(1) by (fastforce simp: disk_ok_def open_ok_def)+
  show ?thesis
  proof (rule that [of "d_key D (CStr p)"])
    show "entry_of D (st_fs st) STAGING_PATH = Some (d_key D (CStr p))" using p(1) s1(1) by (simp add: entry_of_def)
    show "appended D (d_key D (CStr p)) w (fs_volume (st_fs st)) w (fs_volume (st_fs st')) []"
      using law s1(2) w(2,3)
      by (auto simp: appended_def staged_def same_but_def same_files_def same_target_def BUFFER_SIZE_def)
  qed (use w s1 p in auto)
qed

text \<open>A staged write from its start to its commit: the results of the appends, of the commit, and the store.\<close>

definition upload ::
  "'v zephyr_fs \<Rightarrow> (nat \<Rightarrow> bool) \<Rightarrow> string \<Rightarrow> bytes list \<Rightarrow> 'v asset_store \<Rightarrow> (int \<times> int list \<times> 'v asset_store) option" where
  "upload Z alloc name chunks st =
     (case BeginWrite Z alloc name new_writer st of (rc, w, st1) \<Rightarrow>
        if rc \<noteq> 0 then Some (rc, [], st1)
        else map_option (\<lambda>(rcs, w2, v2).
               case Commit Z w2 (st1\<lparr>st_fs := (st_fs st1)\<lparr>fs_volume := v2\<rparr>\<rparr>) of (rc, w3, st3) \<Rightarrow> (rc, rcs, st3))
             (append_all Z chunks w (fs_volume (st_fs st1))))"

lemma BeginWrite_failed:
  assumes "BeginWrite Z alloc name new_writer st = (rc, w, st')" "disk_ok Z D" "rc \<noteq> 0"
  shows "same_but D (set_option (entry_of D (st_fs st) STAGING_PATH)) (fs_volume (st_fs st)) (fs_volume (st_fs st'))"
proof -
  have ab: "Abort Z new_writer st = (new_writer, st)" by (simp add: Abort_def new_writer_def)
  obtain ok s1 where e: "EnsureDirectory Z STAGING_DIRECTORY (st_fs st) = (ok, s1)" by (metis prod.exhaust)
  obtain rc1 h s2 where o: "OpenFile Z STAGING_PATH [FS_O_WRITE, FS_O_CREATE, FS_O_TRUNC] s1 = ((rc1, h), s2)" by (metis prod.exhaust)
  have s1: "fs_mountpoint s1 = fs_mountpoint (st_fs st)" "same_files D (fs_volume (st_fs st)) (fs_volume s1)"
    using EnsureDirectory_untouched [OF assms(2), of "st_fs st" STAGING_DIRECTORY] e by (auto simp: vol_untouched_def)
  have "fs_volume s2 = fs_volume s1 \<or> (\<exists>p. TryBuildPath (fs_mountpoint s1) STAGING_PATH = Some p \<and>
      fs_open Z (CStr p) [FS_O_WRITE, FS_O_CREATE, FS_O_TRUNC] (fs_volume s1) = (rc1, h, fs_volume s2))"
    using o by (auto simp: OpenFile_def with_path_def split: if_splits option.splits prod.splits)
  then have s2: "same_but D (set_option (entry_of D s1 STAGING_PATH)) (fs_volume s1) (fs_volume s2)"
    using assms(2) by (auto simp: entry_of_def disk_ok_def open_ok_def same_but_def)
  have "entry_of D s1 STAGING_PATH = entry_of D (st_fs st) STAGING_PATH" using s1(1) by (simp add: entry_of_def)
  moreover have "st' = st \<or> st' = st\<lparr>st_fs := s1\<rparr> \<or> st' = st\<lparr>st_fs := s2\<rparr>"
    using assms(1,3) ab e o by (auto simp: BeginWrite_def Let_def split: if_splits)
  ultimately show ?thesis using s1(2) s2 by (auto simp: same_but_def same_files_def)
qed

lemma Commit_effect:
  assumes "Commit Z w st = (rc, w', st')" "disk_ok Z D" "staged D ks w (fs_volume (st_fs st)) data"
    and "entry_of D (st_fs st) STAGING_PATH = Some ks" "pred_option no_null (fs_mountpoint (st_fs st))"
  shows "rc = 0 \<Longrightarrow> \<exists>kt. entry_of D (st_fs st) (aw_target_path w) = Some kt \<and> ks \<noteq> kt \<and>
      d_files D (fs_volume (st_fs st')) kt = Some data \<and> d_files D (fs_volume (st_fs st')) ks = None"
    and "same_but D (insert ks (set_option (entry_of D (st_fs st) (aw_target_path w)))) (fs_volume (st_fs st)) (fs_volume (st_fs st'))"
    and "aw_error w \<noteq> 0 \<Longrightarrow> rc \<noteq> 0 \<and> same_but D {ks} (fs_volume (st_fs st)) (fs_volume (st_fs st'))"
    and "st_write_counter st' = st_write_counter st + 1"
proof -
  obtain rc1 w1 v1 where f: "finish_staged Z w (fs_volume (st_fs st)) = (rc1, w1, v1)" by (metis prod.exhaust)
  note F = finish_staged_done [OF f assms(2,3)]
  let ?s = "(st_fs st)\<lparr>fs_volume := v1\<rparr>"
  obtain rc2 s2 where q: "(if rc1 = 0 then publish_staged Z (aw_directory w) (aw_target_path w) ?s else (rc1, ?s)) = (rc2, s2)"
    by (metis prod.exhaust)
  have out: "rc = rc2" "st_fs st' = (if rc2 \<noteq> 0 then DiscardStaged Z s2 else s2)" "st_write_counter st' = st_write_counter st + 1"
    using assms(1,3) f q by (auto simp: Commit_def Let_def staged_def split: if_splits)
  have en: "entry_of D ?s = entry_of D (st_fs st)" by (simp add: entry_of_def fun_eq_iff)
  have "pred_option no_null (fs_mountpoint ?s)" using assms(5) by simp
  note P = publish_moves [OF _ assms(2) this, of "aw_directory w" "aw_target_path w" rc2 s2, unfolded en]
  have mp: "fs_mountpoint s2 = fs_mountpoint (st_fs st)" using q P(1) by (auto split: if_splits)
  then have "entry_of D s2 STAGING_PATH = Some ks" using assms(4) by (simp add: entry_of_def)
  then have D: "same_but D {ks} (fs_volume s2) (fs_volume (DiscardStaged Z s2))" using DiscardStaged_only(2) [OF assms(2), of s2] by simp
  show "st_write_counter st' = st_write_counter st + 1" by (rule out(3))
  show "\<exists>kt. entry_of D (st_fs st) (aw_target_path w) = Some kt \<and> ks \<noteq> kt \<and>
      d_files D (fs_volume (st_fs st')) kt = Some data \<and> d_files D (fs_volume (st_fs st')) ks = None" if "rc = 0"
    using that out(1,2) q P(2) F(2) assms(4) by (auto split: if_splits)
  show "same_but D (insert ks (set_option (entry_of D (st_fs st) (aw_target_path w)))) (fs_volume (st_fs st)) (fs_volume (st_fs st'))"
    using F(1) q P(3) D out(2) assms(4) by (auto simp: same_but_def split: if_splits)
  show "rc \<noteq> 0 \<and> same_but D {ks} (fs_volume (st_fs st)) (fs_volume (st_fs st'))" if "aw_error w \<noteq> 0"
  proof -
    have "rc1 \<noteq> 0" using F(2) that by auto
    then show ?thesis using q out(1,2) F(1) D by (auto simp: same_but_def split: if_splits)
  qed
qed

lemma upload_run:
  assumes "disk_ok Z D" "pred_option no_null (fs_mountpoint (st_fs st))"
  shows "\<exists>rc rcs st'. upload Z alloc name chunks st = Some (rc, rcs, st') \<and>
    (rc = 0 \<longrightarrow> (\<exists>ks kt. entry_of D (st_fs st) STAGING_PATH = Some ks \<and>
       entry_of D (st_fs st) (GetPath (st_directory st) name) = Some kt \<and> ks \<noteq> kt \<and>
       d_files D (fs_volume (st_fs st')) kt = Some (concat chunks) \<and> d_files D (fs_volume (st_fs st')) ks = None)) \<and>
    same_but D (set_option (entry_of D (st_fs st) STAGING_PATH) \<union> set_option (entry_of D (st_fs st) (GetPath (st_directory st) name)))
      (fs_volume (st_fs st)) (fs_volume (st_fs st')) \<and>
    ((\<exists>e \<in> set rcs. e \<noteq> 0) \<longrightarrow> rc \<noteq> 0 \<and>
       same_but D (set_option (entry_of D (st_fs st) STAGING_PATH)) (fs_volume (st_fs st)) (fs_volume (st_fs st')))"
proof -
  obtain rc1 w st1 where b: "BeginWrite Z alloc name new_writer st = (rc1, w, st1)" by (metis prod.exhaust)
  show ?thesis
  proof (cases "rc1 = 0")
    case False
    with b BeginWrite_failed [OF b assms(1) False] show ?thesis
      by (auto simp: upload_def intro: same_but_mono)
  next
    case True
    with b have "BeginWrite Z alloc name new_writer st = (0, w, st1)" by simp
    then obtain ks where w: "entry_of D (st_fs st) STAGING_PATH = Some ks"
      "appended D ks w (fs_volume (st_fs st)) w (fs_volume (st_fs st1)) []" "aw_error w = 0"
      "fs_mountpoint (st_fs st1) = fs_mountpoint (st_fs st)" "aw_target_path w = GetPath (st_directory st) name"
      by (rule BeginWrite_staged [OF _ assms(1)]) (auto simp: new_writer_def)
    from append_all_appended [OF assms(1) w(2), of chunks] obtain rcs w2 v2 where
      a: "append_all Z chunks w (fs_volume (st_fs st1)) = Some (rcs, w2, v2)"
      "appended D ks w (fs_volume (st_fs st)) w2 v2 (concat chunks)" "(\<exists>e \<in> set rcs. e \<noteq> 0) \<longleftrightarrow> aw_error w2 \<noteq> 0"
      using w(3) by auto
    let ?st = "st1\<lparr>st_fs := (st_fs st1)\<lparr>fs_volume := v2\<rparr>\<rparr>"
    obtain rc w3 st3 where c: "Commit Z w2 ?st = (rc, w3, st3)" by (metis prod.exhaust)
    have en: "entry_of D (st_fs ?st) p = entry_of D (st_fs st) p" for p using w(4) by (simp add: entry_of_def)
    have st: "staged D ks w2 (fs_volume (st_fs ?st)) (concat chunks)" "same_but D {ks} (fs_volume (st_fs st)) v2"
      "aw_target_path w2 = GetPath (st_directory st) name" using a(2) w(5) by (auto simp: appended_def same_target_def)
    have mp: "pred_option no_null (fs_mountpoint (st_fs ?st))" using assms(2) w(4) by simp
    note C = Commit_effect [OF c assms(1) st(1) _ mp, unfolded en st(3), OF w(1)]
    have run: "upload Z alloc name chunks st = Some (rc, rcs, st3)" using b True a(1) c by (simp add: upload_def)
    show ?thesis
      using run w(1) C(1) C(2) C(3) st(2) a(3) by (auto simp: same_but_def)
  qed
qed

section \<open>A volume in memory\<close>

text \<open>Files by the names of their path; a path that holds no file is a directory.\<close>

record ram_volume =
  ram_files :: "string list \<Rightarrow> bytes option"
  ram_open :: "nat \<Rightarrow> (string list \<times> nat) option"
  ram_next :: nat

definition ram_stat :: "ram_volume \<Rightarrow> string \<Rightarrow> fs_dirent" where
  "ram_stat v p = (case ram_files v (names p) of
       Some c \<Rightarrow> \<lparr>ent_type = FS_DIR_ENTRY_FILE, ent_name = p, ent_size = length c\<rparr>
     | None \<Rightarrow> \<lparr>ent_type = FS_DIR_ENTRY_DIR, ent_name = p, ent_size = 0\<rparr>)"

definition ram_opened :: "string list \<Rightarrow> ram_volume \<Rightarrow> int \<times> nat \<times> ram_volume" where
  "ram_opened k v = (0, ram_next v, v\<lparr>ram_open := (ram_open v)(ram_next v \<mapsto> (k, 0)), ram_next := ram_next v + 1\<rparr>)"

definition ram_fs :: "ram_volume zephyr_fs" where
  "ram_fs = \<lparr>
     fs_open = \<lambda>p fl v. if FS_O_TRUNC \<in> set fl then ram_opened (names p) (v\<lparr>ram_files := (ram_files v)(names p \<mapsto> [])\<rparr>)
       else if ram_files v (names p) = None then (- ENOENT, 0, v) else ram_opened (names p) v,
     fs_close = \<lambda>h v. (0, v\<lparr>ram_open := (ram_open v)(h := None)\<rparr>),
     fs_read = \<lambda>h n v. (case ram_open v h of None \<Rightarrow> (- EBADF, [], v) | Some (k, p) \<Rightarrow>
       (case ram_files v k of None \<Rightarrow> (- EBADF, [], v) | Some c \<Rightarrow>
         (let bs = take n (drop p c) in (int (length bs), bs, v\<lparr>ram_open := (ram_open v)(h \<mapsto> (k, p + length bs))\<rparr>)))),
     fs_write = \<lambda>h bs v. (case ram_open v h of None \<Rightarrow> (- EBADF, v) | Some (k, p) \<Rightarrow>
       (case ram_files v k of None \<Rightarrow> (- EBADF, v) | Some c \<Rightarrow>
         if p \<noteq> length c then (- EIO, v)
         else (int (length bs), v\<lparr>ram_files := (ram_files v)(k \<mapsto> c @ bs), ram_open := (ram_open v)(h \<mapsto> (k, p + length bs))\<rparr>))),
     fs_seek = \<lambda>h off wh v. (case ram_open v h of None \<Rightarrow> (- EBADF, v) | Some (k, p) \<Rightarrow>
       (case ram_files v k of None \<Rightarrow> (- EBADF, v) | Some c \<Rightarrow>
         (let base = (case wh of FS_SEEK_SET \<Rightarrow> 0 | FS_SEEK_CUR \<Rightarrow> int p | FS_SEEK_END \<Rightarrow> int (length c))
          in (0, v\<lparr>ram_open := (ram_open v)(h \<mapsto> (k, nat (base + off)))\<rparr>)))),
     fs_tell = \<lambda>h v. (case ram_open v h of None \<Rightarrow> - EBADF | Some (_, p) \<Rightarrow> int p, v),
     fs_sync = \<lambda>_ v. (0, v),
     fs_mkdir = \<lambda>_ v. (0, v),
     fs_unlink = \<lambda>p v. (0, v\<lparr>ram_files := (ram_files v)(names p := None)\<rparr>),
     fs_rename = \<lambda>p q v. (0, v\<lparr>ram_files := (ram_files v)(names q := ram_files v (names p), names p := None)\<rparr>),
     fs_stat = \<lambda>p v. (0, ram_stat v p, v),
     fs_opendir = \<lambda>_ v. (- ENOENT, 0, v),
     fs_readdir = \<lambda>_ v. (- EBADF, log_entry, v),
     fs_closedir = \<lambda>_ v. (0, v),
     fs_statvfs = \<lambda>_ v. (0, \<lparr>f_frsize = 4096, f_blocks = 16, f_bfree = 8\<rparr>, v),
     fs_mount = \<lambda>v. (0, v), fs_unmount = \<lambda>v. (0, v), fs_mkfs = \<lambda>v. (0, v), fs_linked = \<lambda>_. True\<rparr>"

definition ram_disk :: "(ram_volume, string list) disk" where
  "ram_disk = \<lparr>d_key = names, d_files = ram_files, d_open = ram_open\<rparr>"

lemma plain_no_null: "IsPlainPath path \<Longrightarrow> no_null path"
proof -
  have seg: "c \<in> \<Union> (set ` set (segments path))" if "c \<in> set path" "c \<noteq> PATH_SEPARATOR" for c
    using that
  proof (induction path)
    case (Cons x xs)
    have "segments xs = hd (segments xs) # tl (segments xs)" by simp
    with Cons show ?case by (auto, (metis UN_iff Un_iff list.simps(15) set_ConsD)+)
  qed simp
  assume plain: "IsPlainPath path"
  show ?thesis unfolding no_null_def
  proof
    assume "CHR 0x00 \<in> set path"
    then obtain n where n: "n \<in> set (segments path)" "CHR 0x00 \<in> set n" using seg by (auto simp: PATH_SEPARATOR_def)
    then have "is_name n" by (auto simp: is_name_def)
    with n have "n \<in> set (names path)" by (simp add: names_def)
    with plain n(2) have "IsPlainCharacter (CHR 0x00)" by (auto simp: plain_path_names list_all_iff)
    then show False by (simp add: IsPlainCharacter_def)
  qed
qed

lemma ram_names_ok: "names_ok ram_disk"
  unfolding names_ok_def
proof (intro allI impI)
  fix mnt a b p q
  assume h: "no_null mnt" "IsPlainPath a" "IsPlainPath b" "TryBuildPath (Some mnt) a = Some p"
    "TryBuildPath (Some mnt) b = Some q" "d_key ram_disk (CStr p) = d_key ram_disk (CStr q)"
  have "no_null p" "no_null q" using built_inside(2) h plain_no_null by blast+
  then have "names mnt @ names a = names mnt @ names b"
    using h(6) TryBuildPath_inside(1) [OF h(4)] TryBuildPath_inside(1) [OF h(5)] by (simp add: ram_disk_def)
  then show "IsSameEntryIgnoringCase a b" by (simp add: same_entry_names)
qed

lemma ram_disk_ok: "disk_ok ram_fs ram_disk"
proof -
  note defs = ram_fs_def ram_disk_def same_but_def same_files_def
  have "open_ok ram_fs ram_disk" by (auto simp: open_ok_def defs ram_opened_def errno_defs split: if_splits)
  moreover have "write_ok ram_fs ram_disk" by (auto simp: write_ok_def defs errno_defs split: option.splits if_splits)
  moreover have "close_ok ram_fs ram_disk" by (auto simp: close_ok_def defs)
  moreover have "entries_ok ram_fs ram_disk" by (auto simp: entries_ok_def defs ram_stat_def)
  moreover have "read_ok ram_fs ram_disk"
    by (auto simp: read_ok_def defs errno_defs Let_def min_def split: option.splits if_splits)
  moreover have "seek_ok ram_fs ram_disk"
    by (auto simp: seek_ok_def defs errno_defs Let_def split: option.splits if_splits)
  ultimately show ?thesis using ram_names_ok by (simp add: disk_ok_def)
qed

definition ram_store :: "ram_volume asset_store" where
  "ram_store = \<lparr>st_fs = \<lparr>fs_mountpoint = Some ''/SD:'', fs_mount_generation = 1,
       fs_volume = \<lparr>ram_files = [[''SD:'', ''fonts'', ''a.bin''] \<mapsto> [9]], ram_open = Map.empty, ram_next = 0\<rparr>\<rparr>,
     st_card = True, st_directory = ''fonts'', st_write_counter = 0\<rparr>"

lemma ram_mounted [simp]: "IsMounted ram_fs s \<longleftrightarrow> fs_mountpoint s \<noteq> None"
  by (simp add: IsMounted_def ram_fs_def)

lemma ram_paths:
  "TryBuildPath (Some ''/SD:'') STAGING_PATH = Some ''/SD:/.assets_tmp/upload.part''"
  "TryBuildPath (Some ''/SD:'') STAGING_DIRECTORY = Some ''/SD:/.assets_tmp''"
  "TryBuildPath (Some ''/SD:'') ''fonts/a.bin'' = Some ''/SD:/fonts/a.bin''"
  "TryBuildPath (Some ''/SD:'') ''fonts'' = Some ''/SD:/fonts''"
  "CStr ''/SD:/.assets_tmp/upload.part'' = ''/SD:/.assets_tmp/upload.part''"
  "CStr ''/SD:/.assets_tmp'' = ''/SD:/.assets_tmp''" "CStr ''/SD:/fonts/a.bin'' = ''/SD:/fonts/a.bin''" "CStr ''/SD:/fonts'' = ''/SD:/fonts''"
  "names ''/SD:/.assets_tmp/upload.part'' = [''SD:'', ''.assets_tmp'', ''upload.part'']" "names ''/SD:/fonts/a.bin'' = [''SD:'', ''fonts'', ''a.bin'']"
  "IsPlainPath STAGING_PATH" "IsPlainPath ''fonts/a.bin''" "\<not> IsSameEntryIgnoringCase STAGING_PATH ''fonts/a.bin''"
  "STAGING_PATH \<noteq> []" "STAGING_DIRECTORY \<noteq> []" "GetPath ''fonts'' ''a.bin'' = ''fonts/a.bin''"
  by (simp_all add: CStr_def GetPath_def STAGING_PATH_def STAGING_DIRECTORY_def) code_simp+

definition ram_writer :: "bytes \<Rightarrow> asset_writer" where
  "ram_writer pending = \<lparr>aw_directory = ''fonts'', aw_target_path = ''fonts/a.bin'', aw_file = 0, aw_open = True, aw_error = 0,
     aw_buffer = pending, aw_written = length pending\<rparr>"

definition ram_staged :: ram_volume where
  "ram_staged = \<lparr>ram_files = [[''SD:'', ''fonts'', ''a.bin''] \<mapsto> [9], [''SD:'', ''.assets_tmp'', ''upload.part''] \<mapsto> []],
     ram_open = [0 \<mapsto> ([''SD:'', ''.assets_tmp'', ''upload.part''], 0)], ram_next = 1\<rparr>"

lemma begin_any_write:
  "BeginWrite (ram_fs\<lparr>fs_write := f\<rparr>) (\<lambda>_. True) ''a.bin'' new_writer ram_store =
     (0, ram_writer [], ram_store\<lparr>st_fs := (st_fs ram_store)\<lparr>fs_volume := ram_staged\<rparr>\<rparr>)"
proof -
  have mounted: "IsMounted (ram_fs\<lparr>fs_write := f\<rparr>) s \<longleftrightarrow> fs_mountpoint s \<noteq> None" for s :: "ram_volume fs_service"
    by (simp add: IsMounted_def ram_fs_def)
  have avail: "Store_IsAvailable (ram_fs\<lparr>fs_write := f\<rparr>) ram_store"
    by (simp add: Store_IsAvailable_def Fs_IsAvailable_def IsMounted_def ram_store_def ram_fs_def)
  have ab: "Abort (ram_fs\<lparr>fs_write := f\<rparr>) new_writer ram_store = (new_writer, ram_store)" by (simp add: Abort_def new_writer_def)
  have ex: "EnsureDirectory (ram_fs\<lparr>fs_write := f\<rparr>) STAGING_DIRECTORY (st_fs ram_store) = (True, st_fs ram_store)"
    by (simp add: EnsureDirectory_def Fs_Exists_def with_path_def mounted ram_store_def ram_paths) (simp add: ram_fs_def)
  have op: "OpenFile (ram_fs\<lparr>fs_write := f\<rparr>) STAGING_PATH [FS_O_WRITE, FS_O_CREATE, FS_O_TRUNC] (st_fs ram_store) =
    ((0, 0), (st_fs ram_store)\<lparr>fs_volume := ram_staged\<rparr>)"
    by (simp add: OpenFile_def with_path_def mounted ram_store_def ram_paths)
      (simp add: ram_fs_def ram_opened_def ram_staged_def ram_paths fun_upd_twist)
  show ?thesis
    by (simp add: BeginWrite_def ab avail ex op Let_def ram_writer_def ram_paths) (simp add: ram_store_def ram_paths)
qed

lemma ram_begin:
  "BeginWrite ram_fs (\<lambda>_. True) ''a.bin'' new_writer ram_store =
     (0, ram_writer [], ram_store\<lparr>st_fs := (st_fs ram_store)\<lparr>fs_volume := ram_staged\<rparr>\<rparr>)"
  using begin_any_write [of "fs_write ram_fs"] by simp

lemma ram_append:
  "length pending + length data < BUFFER_SIZE \<Longrightarrow> Writer_Append ram_fs data (ram_writer pending) v = Some (0, ram_writer (pending @ data), v)"
  by (cases data) (auto simp: Writer_Append_def ram_writer_def append_loop.simps Let_def min_def)

lemma ram_commit:
  "\<exists>w st. Commit ram_fs (ram_writer [1, 2, 3]) (ram_store\<lparr>st_fs := (st_fs ram_store)\<lparr>fs_volume := ram_staged\<rparr>\<rparr>) = (0, w, st)"
proof -
  let ?s = "\<lambda>v. (st_fs ram_store)\<lparr>fs_volume := v\<rparr>"
  obtain w v where f: "finish_staged ram_fs (ram_writer [1, 2, 3]) ram_staged = (0, w, v)"
    by (simp add: finish_staged_def Flush_def CloseFile_def ram_writer_def ram_fs_def ram_staged_def Let_def)
  have "Fs_Exists ram_fs ''fonts'' (?s v) = (True, ?s v)"
    by (simp add: Fs_Exists_def with_path_def ram_store_def ram_paths) (simp add: ram_fs_def)
  then have e: "EnsureDirectory ram_fs ''fonts'' (?s v) = (True, ?s v)" by (simp add: EnsureDirectory_def)
  obtain s' where r: "Fs_Rename ram_fs STAGING_PATH ''fonts/a.bin'' (?s v) = (0, s')"
    by (simp add: Fs_Rename_def ram_store_def ram_paths) (simp add: ram_fs_def)
  show ?thesis using f e r
    by (simp add: Commit_def publish_staged_def Let_def ram_writer_def)
qed

lemma ram_upload:
  "\<exists>st. upload ram_fs (\<lambda>_. True) ''a.bin'' [[1], [2, 3]] ram_store = Some (0, [0, 0], st)"
  using ram_commit by (auto simp: upload_def ram_begin ram_append BUFFER_SIZE_def)

lemma ram_mount_ok: "pred_option no_null (fs_mountpoint (st_fs ram_store))"
  by (simp add: ram_store_def no_null_def)

text \<open>
  C3. A staged write that commits is published whole: on a file system that behaves as documented, an upload in any
  number of appends of any sizes ends, and when its commit returns 0 the asset holds exactly the appended bytes in
  order, the staged file is gone, and no other file of the volume has changed.
\<close>

theorem upload_publishes:
  assumes "disk_ok Z D" "pred_option no_null (fs_mountpoint (st_fs st))"
    and "upload Z alloc name chunks st = Some (0, rcs, st')"
  shows "\<exists>ks kt. entry_of D (st_fs st) STAGING_PATH = Some ks \<and>
    entry_of D (st_fs st) (GetPath (st_directory st) name) = Some kt \<and> ks \<noteq> kt \<and>
    (\<forall>k. d_files D (fs_volume (st_fs st')) k =
       (if k = kt then Some (concat chunks) else if k = ks then None else d_files D (fs_volume (st_fs st)) k))"
  using upload_run [OF assms(1,2), of alloc name chunks] assms(3) by (auto simp: same_but_def)

theorem upload_publishes_witness:
  "\<exists>st'. upload ram_fs (\<lambda>_. True) ''a.bin'' [[1], [2, 3]] ram_store = Some (0, [0, 0], st') \<and>
     ram_files (fs_volume (st_fs st')) [''SD:'', ''fonts'', ''a.bin''] = Some [1, 2, 3] \<and>
     ram_files (fs_volume (st_fs st')) [''SD:'', ''.assets_tmp'', ''upload.part''] = None"
proof -
  obtain st' where u: "upload ram_fs (\<lambda>_. True) ''a.bin'' [[1], [2, 3]] ram_store = Some (0, [0, 0], st')"
    using ram_upload by blast
  have k: "entry_of ram_disk (st_fs ram_store) STAGING_PATH = Some [''SD:'', ''.assets_tmp'', ''upload.part'']"
    "entry_of ram_disk (st_fs ram_store) (GetPath (st_directory ram_store) ''a.bin'') = Some [''SD:'', ''fonts'', ''a.bin'']"
    by (simp_all add: entry_of_def ram_store_def ram_disk_def ram_paths)
  show ?thesis using upload_publishes [OF ram_disk_ok ram_mount_ok u] u k by (auto simp: ram_disk_def)
qed

text \<open>
  C33. A write that fails is never published: once an append of an upload has failed, the commit returns an error as
  well, and every file of the volume but the staged one is what it was before the upload, the asset included.
\<close>

theorem failed_upload_keeps_assets:
  assumes "disk_ok Z D" "pred_option no_null (fs_mountpoint (st_fs st))"
    and "upload Z alloc name chunks st = Some (rc, rcs, st')" "e \<in> set rcs" "e \<noteq> 0"
  shows "rc \<noteq> 0 \<and> (\<forall>k. entry_of D (st_fs st) STAGING_PATH \<noteq> Some k \<longrightarrow>
    d_files D (fs_volume (st_fs st')) k = d_files D (fs_volume (st_fs st)) k)"
  using upload_run [OF assms(1,2), of alloc name chunks] assms(3-5) by (auto simp: same_but_def)

text \<open>A volume that is full.\<close>

definition full_fs :: "ram_volume zephyr_fs" where
  "full_fs = ram_fs\<lparr>fs_write := \<lambda>_ _ v. (0, v)\<rparr>"

lemma full_disk_ok: "disk_ok full_fs ram_disk"
proof -
  have "write_ok full_fs ram_disk" by (auto simp: write_ok_def full_fs_def ram_disk_def same_but_def)
  then show ?thesis using ram_disk_ok
    by (simp add: disk_ok_def full_fs_def open_ok_def close_ok_def entries_ok_def read_ok_def seek_ok_def)
qed

lemma full_append:
  "\<exists>w. Writer_Append full_fs (replicate BUFFER_SIZE 0) (ram_writer []) v = Some (- ENOSPC, w, v)"
proof -
  have pos: "0 < BUFFER_SIZE" by (simp add: BUFFER_SIZE_def)
  have "\<exists>w. append_loop full_fs (replicate BUFFER_SIZE 0) (ram_writer []) v = Some (- ENOSPC, w, v)"
    by (subst append_loop.simps) (use pos in \<open>auto simp: ram_writer_def Let_def Flush_def full_fs_def errno_defs\<close>)
  then show ?thesis by (simp add: Writer_Append_def ram_writer_def)
qed

theorem failed_upload_keeps_assets_witness:
  "\<exists>rc st'. upload full_fs (\<lambda>_. True) ''a.bin'' [replicate BUFFER_SIZE 0] ram_store = Some (rc, [- ENOSPC], st') \<and> rc \<noteq> 0 \<and>
     ram_files (fs_volume (st_fs st')) [''SD:'', ''fonts'', ''a.bin''] = Some [9]"
proof -
  obtain w where "Writer_Append full_fs (replicate BUFFER_SIZE 0) (ram_writer []) ram_staged = Some (- ENOSPC, w, ram_staged)"
    using full_append by blast
  then have "\<exists>rc st'. upload full_fs (\<lambda>_. True) ''a.bin'' [replicate BUFFER_SIZE 0] ram_store = Some (rc, [- ENOSPC], st')"
    using begin_any_write [of "\<lambda>_ _ v. (0, v)"] by (auto simp: upload_def full_fs_def split: prod.split)
  then obtain rc st' where u: "upload full_fs (\<lambda>_. True) ''a.bin'' [replicate BUFFER_SIZE 0] ram_store = Some (rc, [- ENOSPC], st')"
    by blast
  have k: "entry_of ram_disk (st_fs ram_store) STAGING_PATH = Some [''SD:'', ''.assets_tmp'', ''upload.part'']"
    by (simp add: entry_of_def ram_store_def ram_disk_def ram_paths)
  have "rc \<noteq> 0 \<and> ram_files (fs_volume (st_fs st')) [''SD:'', ''fonts'', ''a.bin''] = Some [9]"
    using failed_upload_keeps_assets [OF full_disk_ok ram_mount_ok u, of "- ENOSPC"] k
    by (auto simp: errno_defs ram_disk_def ram_store_def)
  with u show ?thesis by blast
qed

end
