(* ===== verification/Asset_Read.thy ===== *)
theory Asset_Read
  imports Asset_Props
begin

text \<open>
  The reader of the asset store returns the bytes of the file: the block it keeps is always the part of the file it
  says it is, whatever reads and seeks fail or stop short.
\<close>

definition reader_ok :: "('v, 'k) disk \<Rightarrow> 'k \<Rightarrow> bytes \<Rightarrow> asset_reader \<Rightarrow> 'v \<Rightarrow> bool" where
  "reader_ok D k c r v \<longleftrightarrow> ar_open r \<and> ar_size r = length c \<and> length c < UNKNOWN_POSITION \<and>
     length (ar_buffer r) = BUFFER_SIZE \<and> d_files D v k = Some c \<and>
     (\<exists>p. d_open D v (ar_file r) = Some (k, p) \<and> (ar_file_position r \<noteq> UNKNOWN_POSITION \<longrightarrow> p = ar_file_position r)) \<and>
     ar_buffer_offset r + ar_buffer_length r \<le> max (ar_buffer_offset r) (length c) \<and> ar_buffer_length r \<le> BUFFER_SIZE \<and>
     take (ar_buffer_length r) (ar_buffer r) = take (ar_buffer_length r) (drop (ar_buffer_offset r) c)"

text \<open>While a block is filled, its first bytes are those of the file and the position follows them.\<close>

definition filling :: "('v, 'k) disk \<Rightarrow> 'k \<Rightarrow> bytes \<Rightarrow> nat \<Rightarrow> nat \<Rightarrow> asset_reader \<Rightarrow> 'v \<Rightarrow> bool" where
  "filling D k c expected filled r v \<longleftrightarrow> ar_open r \<and> ar_size r = length c \<and> length c < UNKNOWN_POSITION \<and>
     length (ar_buffer r) = BUFFER_SIZE \<and> d_files D v k = Some c \<and> filled \<le> expected \<and> expected \<le> BUFFER_SIZE \<and>
     ar_buffer_offset r + expected \<le> length c \<and> ar_buffer_length r = 0 \<and>
     ar_file_position r = ar_buffer_offset r + filled \<and> d_open D v (ar_file r) = Some (k, ar_file_position r) \<and>
     take filled (ar_buffer r) = take filled (drop (ar_buffer_offset r) c)"

lemma length_store_at: "n + length data \<le> length block \<Longrightarrow> length (store_at n data block) = length block"
  by (simp add: store_at_def)

lemma take_store_at:
  assumes "take n block = take n xs" "data = take (length data) (drop n xs)" "n \<le> length block"
  shows "take (n + length data) (store_at n data block) = take (n + length data) xs"
proof -
  have "take (n + length data) (store_at n data block) = take n block @ data" using assms(3) by (simp add: store_at_def)
  also have "\<dots> = take n xs @ take (length data) (drop n xs)" using assms(1) assms(2) [symmetric] by simp
  finally show ?thesis by (simp only: take_add)
qed

lemma filling_next:
  assumes "filling D k c expected filled r v" "filled < expected" "disk_ok Z D"
    and "fs_read Z (ar_file r) (expected - filled) v = (rc, bs, v')"
  shows "rc < 0 \<Longrightarrow> reader_ok D k c (r\<lparr>ar_file_position := UNKNOWN_POSITION\<rparr>) v'" "rc \<noteq> 0"
    and "0 < rc \<Longrightarrow> filling D k c expected (filled + nat rc)
      (r\<lparr>ar_buffer := store_at filled (take (nat rc) bs) (ar_buffer r), ar_file_position := ar_file_position r + nat rc\<rparr>) v'"
proof -
  have o: "d_open D v (ar_file r) = Some (k, ar_file_position r)" "d_files D v k = Some c"
    using assms(1) by (auto simp: filling_def)
  have "read_ok Z D" using assms(3) by (simp add: disk_ok_def)
  from this [unfolded read_ok_def, rule_format, OF assms(4) o] assms(2) have
    law: "d_files D v' = d_files D v" "\<exists>p'. d_open D v' (ar_file r) = Some (k, p')"
    "0 \<le> rc \<Longrightarrow> nat rc \<le> expected - filled \<and> bs = take (nat rc) (drop (ar_file_position r) c) \<and> length bs = nat rc \<and>
       d_open D v' (ar_file r) = Some (k, ar_file_position r + nat rc) \<and> (rc = 0 \<longrightarrow> length c \<le> ar_file_position r)" by auto
  show "reader_ok D k c (r\<lparr>ar_file_position := UNKNOWN_POSITION\<rparr>) v'" if "rc < 0"
    using assms(1) law(1,2) by (auto simp: reader_ok_def filling_def)
  show "rc \<noteq> 0" using assms(1,2) law(3) by (auto simp: filling_def)
  show "filling D k c expected (filled + nat rc)
      (r\<lparr>ar_buffer := store_at filled (take (nat rc) bs) (ar_buffer r), ar_file_position := ar_file_position r + nat rc\<rparr>) v'"
    if "0 < rc"
  proof -
    from law(3) that have rc: "nat rc \<le> expected - filled" "bs = take (nat rc) (drop (ar_file_position r) c)" "length bs = nat rc"
      "d_open D v' (ar_file r) = Some (k, ar_file_position r + nat rc)" by auto
    have pos: "drop (ar_file_position r) c = drop filled (drop (ar_buffer_offset r) c)"
      using assms(1) by (simp add: filling_def add.commute)
    have "take (filled + length bs) (store_at filled bs (ar_buffer r)) = take (filled + length bs) (drop (ar_buffer_offset r) c)"
      by (rule take_store_at) (use assms(1,2) rc pos in \<open>auto simp: filling_def\<close>)
    moreover have "length (store_at filled bs (ar_buffer r)) = BUFFER_SIZE"
      using assms(1,2) rc by (subst length_store_at) (auto simp: filling_def)
    ultimately show ?thesis using assms(1,2) rc law(1) by (auto simp: filling_def)
  qed
qed

lemma filling_done:
  assumes "filling D k c expected expected r v"
  shows "reader_ok D k c (r\<lparr>ar_buffer_length := expected\<rparr>) v"
  using assms by (auto simp: filling_def reader_ok_def)

lemma fill_loop_fills:
  assumes "fill_loop Z expected filled r v = (rc, r', v')" "disk_ok Z D" "filling D k c expected filled r v"
  shows "reader_ok D k c r' v' \<and> (rc < 0 \<or> rc = 0 \<and> ar_buffer_length r' = expected)"
  using assms
proof (induction Z expected filled r v rule: fill_loop.induct)
  case (1 Z expected filled r v)
  note N = filling_next [OF 1(4) _ 1(3)]
  show ?case
  proof (cases "filled < expected")
    case False
    then have "filled = expected" using 1(4) by (auto simp: filling_def)
    with 1(2) filling_done [of D k c expected r v] 1(4) show ?thesis by (auto simp: fill_loop.simps)
  next
    case True
    obtain rc1 bs v1 where rd: "fs_read Z (ar_file r) (expected - filled) v = (rc1, bs, v1)" by (metis prod.exhaust)
    note N' = N [OF True rd]
    have run: "fill_loop Z expected filled r v =
      (if rc1 < 0 then (rc1, r\<lparr>ar_file_position := UNKNOWN_POSITION\<rparr>, v1)
       else fill_loop Z expected (filled + nat rc1) (r\<lparr>ar_buffer := store_at filled (take (nat rc1) bs) (ar_buffer r),
              ar_file_position := ar_file_position r + nat rc1\<rparr>) v1)"
      using True rd N'(2) by (subst fill_loop.simps) simp
    show ?thesis
    proof (cases "rc1 < 0")
      case neg: True
      then show ?thesis using run 1(2) N'(1) by auto
    next
      case False
      then have "0 < rc1" using N'(2) by simp
      then show ?thesis using 1(1) [OF True _ _ False N'(2) _ 1(3) N'(3)] rd run 1(2) False by auto
    qed
  qed
qed

lemma Fill_fills:
  assumes "Fill Z block_offset r v = (rc, r', v')" "disk_ok Z D" "reader_ok D k c r v" "block_offset < length c"
  shows "reader_ok D k c r' v'" "rc < 0 \<or> rc = 0 \<and> ar_buffer_length r' = min BUFFER_SIZE (length c - block_offset)"
    "ar_buffer_offset r' = block_offset"
proof -
  let ?r0 = "r\<lparr>ar_buffer_offset := block_offset, ar_buffer_length := 0\<rparr>"
  let ?e = "min BUFFER_SIZE (length c - block_offset)"
  from assms(3) obtain p where o: "d_open D v (ar_file r) = Some (k, p)" "d_files D v k = Some c" "ar_size r = length c"
    "ar_file_position r \<noteq> UNKNOWN_POSITION \<longrightarrow> p = ar_file_position r" "length c < UNKNOWN_POSITION" by (auto simp: reader_ok_def)
  have start: "filling D k c ?e 0 (?r0\<lparr>ar_file_position := block_offset\<rparr>) v1"
    if "d_files D v1 = d_files D v" "d_open D v1 (ar_file r) = Some (k, block_offset)" for v1
    using assms(3,4) that by (auto simp: reader_ok_def filling_def)
  obtain rc1 v1 where sk: "fs_seek Z (ar_file r) (int block_offset) FS_SEEK_SET v = (rc1, v1)" by (metis prod.exhaust)
  have "seek_ok Z D" using assms(2) by (simp add: disk_ok_def)
  from conjunct1 [OF this [unfolded seek_ok_def], rule_format, OF sk o(1,2)] have
    law: "rc1 \<le> 0" "d_files D v1 = d_files D v" "\<exists>p'. d_open D v1 (ar_file r) = Some (k, p')"
    "rc1 = 0 \<Longrightarrow> d_open D v1 (ar_file r) = Some (k, block_offset)" by auto
  have "reader_ok D k c r' v' \<and> (rc < 0 \<or> rc = 0 \<and> ar_buffer_length r' = ?e)"
  proof (cases "ar_file_position r = block_offset")
    case True
    then have "p = block_offset" using o(4,5) assms(4) by simp
    moreover have "fill_loop Z ?e 0 (?r0\<lparr>ar_file_position := block_offset\<rparr>) v = (rc, r', v')"
    proof -
      have eq: "?r0\<lparr>ar_file_position := block_offset\<rparr> = ?r0" using True by (cases r) simp
      show ?thesis unfolding eq using assms(1) True o(3) by (simp add: Fill_def Let_def)
    qed
    ultimately show ?thesis using fill_loop_fills [OF _ assms(2) start [of v]] o(1) by simp
  next
    case seek: False
    show ?thesis
    proof (cases "rc1 < 0")
      case True
      then have "rc = rc1 \<and> r' = ?r0\<lparr>ar_file_position := UNKNOWN_POSITION\<rparr> \<and> v' = v1"
        using assms(1) seek sk by (simp add: Fill_def Let_def)
      then show ?thesis using assms(3,4) law(2,3) True by (auto simp: reader_ok_def)
    next
      case False
      then have "fill_loop Z ?e 0 (?r0\<lparr>ar_file_position := block_offset\<rparr>) v1 = (rc, r', v')"
        using assms(1) seek sk o(3) by (simp add: Fill_def Let_def)
      then show ?thesis using fill_loop_fills [OF _ assms(2) start [OF law(2)]] law(1,4) False by simp
    qed
  qed
  then show "reader_ok D k c r' v'" "rc < 0 \<or> rc = 0 \<and> ar_buffer_length r' = ?e" by auto
  show "ar_buffer_offset r' = block_offset" using Fill_offset [of Z block_offset r v] assms(1) by simp
qed

text \<open>A position inside the block is copied from it.\<close>

lemma block_chunk:
  assumes "reader_ok D k c r v" "ar_buffer_offset r \<le> position" "position < ar_buffer_offset r + ar_buffer_length r"
    and "n \<le> ar_buffer_length r - (position - ar_buffer_offset r)"
  shows "take n (drop (position - ar_buffer_offset r) (ar_buffer r)) = take n (drop position c)"
proof -
  let ?i = "position - ar_buffer_offset r"
  have block: "take (ar_buffer_length r) (ar_buffer r) = take (ar_buffer_length r) (drop (ar_buffer_offset r) c)"
    using assms(1) by (simp add: reader_ok_def)
  have "take n (drop ?i (ar_buffer r)) = take n (drop ?i (take (ar_buffer_length r) (ar_buffer r)))"
    using assms(4) by (simp add: drop_take min_def)
  also have "\<dots> = take n (drop ?i (drop (ar_buffer_offset r) c))" unfolding block using assms(4) by (simp add: drop_take min_def)
  also have "\<dots> = take n (drop position c)" using assms(2) by simp
  finally show ?thesis .
qed

text \<open>The block that holds a position: the one kept, or the one it is filled with.\<close>

lemma block_for_position:
  assumes "(if refill then Fill Z (position - position mod BUFFER_SIZE) r v else (0, r, v)) = (rc, r1, v1)"
    and "refill \<longleftrightarrow> position < ar_buffer_offset r \<or> ar_buffer_offset r + ar_buffer_length r \<le> position"
    and "disk_ok Z D" "reader_ok D k c r v" "position < length c"
  shows "reader_ok D k c r1 v1" "\<not> rc < 0 \<Longrightarrow> ar_buffer_offset r1 \<le> position \<and> position < ar_buffer_offset r1 + ar_buffer_length r1"
proof -
  have m: "position mod BUFFER_SIZE < BUFFER_SIZE" by (simp add: BUFFER_SIZE_def)
  have le: "position mod BUFFER_SIZE \<le> position" by simp
  have b: "position - position mod BUFFER_SIZE < length c" using assms(5) by simp
  show "reader_ok D k c r1 v1" using assms(1,4) Fill_fills(1) [OF _ assms(3,4) b] by (auto split: if_splits)
  show "ar_buffer_offset r1 \<le> position \<and> position < ar_buffer_offset r1 + ar_buffer_length r1" if "\<not> rc < 0"
  proof (cases refill)
    case True
    then have f: "Fill Z (position - position mod BUFFER_SIZE) r v = (rc, r1, v1)" using assms(1) by simp
    have "ar_buffer_length r1 = min BUFFER_SIZE (length c - (position - position mod BUFFER_SIZE))"
      "ar_buffer_offset r1 = position - position mod BUFFER_SIZE"
      using Fill_fills(2,3) [OF f assms(3,4) b] that by auto
    moreover have "position < position - q + min BUFFER_SIZE (length c - (position - q))"
      if "q < BUFFER_SIZE" "q \<le> position" for q using that assms(5) by (auto simp: min_def)
    ultimately show ?thesis using m le by simp
  next
    case False
    then show ?thesis using assms(1,2) by auto
  qed
qed

lemma read_loop_exact:
  assumes "read_loop Z offset len copied out r v = ((rc, bs), r', v')" "disk_ok Z D" "reader_ok D k c r v"
    and "out = take copied (drop offset c)" "copied \<le> len" "offset + len \<le> length c"
  shows "reader_ok D k c r' v' \<and> (rc < 0 \<or> rc = int len \<and> bs = take len (drop offset c))"
  using assms
proof (induction Z offset len copied out r v rule: read_loop.induct)
  case (1 Z offset len copied out r v)
  note prems = "1.prems"
  show ?case
  proof (cases "copied < len")
    case False
    with prems show ?thesis by (auto simp: read_loop.simps)
  next
    case True
    define position where "position = offset + copied"
    define refill where "refill \<longleftrightarrow> position < ar_buffer_offset r \<or> position \<ge> ar_buffer_offset r + ar_buffer_length r"
    obtain rc1 r1 v1 where f: "(if refill then Fill Z (position - position mod BUFFER_SIZE) r v else (0, r, v)) = (rc1, r1, v1)"
      by (metis prod.exhaust)
    have pos: "position < length c" using True prems(6) by (simp add: position_def)
    note B = block_for_position [OF f refill_def prems(2,3) pos]
    show ?thesis
    proof (cases "rc1 < 0")
      case neg: True
      then have refill using f by (auto split: if_splits)
      then have "read_loop Z offset len copied out r v = ((rc1, []), r1, v1)" using True f neg
        by (subst read_loop.simps) (simp add: Let_def position_def [symmetric] refill_def [symmetric])
      then show ?thesis using prems(1) B(1) neg by auto
    next
      case False
      note inside = B(2) [OF False]
      let ?i = "position - ar_buffer_offset r1"
      let ?n = "min (len - copied) (ar_buffer_length r1 - ?i)"
      have out: "out @ take ?n (drop ?i (ar_buffer r1)) = take (copied + ?n) (drop offset c)"
        using block_chunk [OF B(1), of position ?n] inside prems(4)
        by (simp add: take_add position_def add.commute)
      have run: "read_loop Z offset len (copied + ?n) (out @ take ?n (drop ?i (ar_buffer r1))) r1 v1 = ((rc, bs), r', v')"
        using prems(1) True f False inside
        by (subst (asm) read_loop.simps) (simp add: Let_def position_def [symmetric] refill_def [symmetric])
      show ?thesis
        by (rule 1(1) [OF True position_def refill_def f [symmetric] refl _ _ refl refl run prems(2) B(1) out _ prems(6)])
          (use True False inside in auto)
    qed
  qed
qed

lemma Read_exact:
  assumes "Reader_Read Z offset n r v = ((rc, bs), r', v')" "disk_ok Z D" "reader_ok D k c r v"
  shows "reader_ok D k c r' v' \<and> (rc < 0 \<or> rc = int (length bs) \<and> bs = take n (drop offset c))"
proof (cases "n = 0 \<or> offset \<ge> length c")
  case True
  then show ?thesis using assms(1,3) by (auto simp: Reader_Read_def reader_ok_def)
next
  case False
  let ?len = "min n (length c - offset)"
  have "read_loop Z offset ?len 0 [] r v = ((rc, bs), r', v')"
    using assms(1,3) False by (auto simp: Reader_Read_def reader_ok_def)
  moreover have "offset + ?len \<le> length c" using False by (auto simp: min_def)
  ultimately have
    "reader_ok D k c r' v' \<and> (rc < 0 \<or> rc = int ?len \<and> bs = take ?len (drop offset c))"
    using read_loop_exact [OF _ assms(2,3), of offset ?len 0 "[]" rc bs r' v'] by simp
  then show ?thesis by (auto simp: min_def)
qed

fun read_all :: "'v zephyr_fs \<Rightarrow> (nat \<times> nat) list \<Rightarrow> asset_reader \<Rightarrow> 'v \<Rightarrow> (int \<times> bytes) list \<times> asset_reader \<times> 'v" where
  "read_all Z [] r v = ([], r, v)"
| "read_all Z ((offset, n) # reqs) r v =
     (case Reader_Read Z offset n r v of (res, r1, v1) \<Rightarrow>
        case read_all Z reqs r1 v1 of (ress, r2, v2) \<Rightarrow> (res # ress, r2, v2))"

lemma read_all_exact:
  assumes "read_all Z reqs r v = (ress, r', v')" "disk_ok Z D" "reader_ok D k c r v"
  shows "list_all2 (\<lambda>(offset, n) (rc, bs). rc < 0 \<or> rc = int (length bs) \<and> bs = take n (drop offset c)) reqs ress"
  using assms
proof (induction reqs arbitrary: r v ress)
  case (Cons req reqs)
  obtain offset n where req: "req = (offset, n)" by fastforce
  obtain rc bs r1 v1 where one: "Reader_Read Z offset n r v = ((rc, bs), r1, v1)" by (metis prod.exhaust)
  obtain rest r2 v2 where more: "read_all Z reqs r1 v1 = (rest, r2, v2)" by (metis prod.exhaust)
  have "ress = (rc, bs) # rest" "r2 = r'" "v2 = v'" using Cons.prems(1) req one more by auto
  then show ?case using Read_exact [OF one assms(2) Cons.prems(3)] Cons.IH [OF _ assms(2), of r1 v1 rest] more req by auto
qed simp

lemma OpenRead_ok:
  assumes "OpenRead Z alloc name r0 st = (0, r, st')" "disk_ok Z D" "\<not> ar_open r0"
    and "\<forall>k c. d_files D (fs_volume (st_fs st)) k = Some c \<longrightarrow> length c < UNKNOWN_POSITION"
  obtains k c where "entry_of D (st_fs st) (GetPath (st_directory st) name) = Some k"
    "d_files D (fs_volume (st_fs st)) k = Some c" "reader_ok D k c r (fs_volume (st_fs st'))"
proof -
  let ?path = "GetPath (st_directory st) name"
  have cl: "Reader_Close Z r0 (fs_volume (st_fs st)) = (r0, fs_volume (st_fs st))" using assms(3) by (simp add: Reader_Close_def)
  obtain rc0 h s1 where o: "OpenFile Z ?path [FS_O_READ] (st_fs st) = ((rc0, h), s1)" by (metis prod.exhaust)
  obtain rc1 v1 where s1: "fs_seek Z h 0 FS_SEEK_END (fs_volume s1) = (rc1, v1)" by (metis prod.exhaust)
  obtain sz v2 where t: "fs_tell Z h v1 = (sz, v2)" by (metis prod.exhaust)
  obtain rc2 v3 where s2: "fs_seek Z h 0 FS_SEEK_SET v2 = (rc2, v3)" by (metis prod.exhaust)
  have st0: "st\<lparr>st_fs := (st_fs st)\<lparr>fs_volume := fs_volume (st_fs st)\<rparr>\<rparr> = st" by simp
  have open_run: "\<not> rc0 < 0 \<and> (if rc1 = 0 then \<not> sz < 0 \<and> \<not> rc2 < 0 \<and> ar_size r = nat sz \<and> fs_volume (st_fs st') = v3
      else \<not> rc1 < 0) \<and> ar_file r = h \<and> ar_open r \<and> ar_buffer r = replicate BUFFER_SIZE 0 \<and> ar_buffer_offset r = 0 \<and>
      ar_buffer_length r = 0 \<and> ar_file_position r = 0"
    using assms(1) cl o s1 t s2 by (auto simp: OpenRead_def Let_def errno_defs st0 split: if_splits)
  then obtain p where p: "TryBuildPath (fs_mountpoint (st_fs st)) ?path = Some p"
    "fs_open Z (CStr p) [FS_O_READ] (fs_volume (st_fs st)) = (rc0, h, fs_volume s1)"
    using o by (auto simp: OpenFile_def with_path_def errno_defs split: if_splits option.splits prod.splits)
  let ?k = "d_key D (CStr p)"
  have "open_ok Z D" using assms(2) by (simp add: disk_ok_def)
  from this [unfolded open_ok_def, rule_format, OF p(2)] open_run have
    l0: "d_files D (fs_volume s1) = d_files D (fs_volume (st_fs st))" "d_open D (fs_volume s1) h = Some (?k, 0)"
      "d_files D (fs_volume (st_fs st)) ?k \<noteq> None" by auto
  then obtain c where c: "d_files D (fs_volume (st_fs st)) ?k = Some c" by auto
  have seek: "seek_ok Z D" using assms(2) by (simp add: disk_ok_def)
  note seeks = conjunct1 [OF seek [unfolded seek_ok_def], rule_format] and tells = conjunct2 [OF seek [unfolded seek_ok_def], rule_format]
  have c1: "d_files D (fs_volume s1) ?k = Some c" using c l0(1) by simp
  have l1: "rc1 = 0" "d_files D v1 = d_files D (fs_volume s1)" "d_open D v1 h = Some (?k, length c)"
    using seeks [OF s1 l0(2) c1] open_run by (auto split: if_splits)
  have l2: "d_files D v2 = d_files D v1" "d_open D v2 h = Some (?k, length c)" "sz = int (length c)"
    using tells [OF t l1(3)] open_run l1 by (auto simp: same_files_def)
  have l3: "rc2 = 0" "d_files D v3 = d_files D v2" "d_open D v3 h = Some (?k, 0)"
    using seeks [OF s2 l2(2)] open_run l1 l2(1) c1 by (auto split: if_splits)
  show ?thesis
  proof (rule that [of ?k c])
    show "entry_of D (st_fs st) ?path = Some ?k" using p(1) by (simp add: entry_of_def)
    show "reader_ok D ?k c r (fs_volume (st_fs st'))"
      using open_run l0 l1 l2 l3 c assms(4) by (auto simp: reader_ok_def)
  qed (rule c)
qed

text \<open>
  C5. Reading an asset gives its bytes: after a successful open, whatever sequence of reads at whatever offsets is
  made, each read either reports an error or returns exactly the bytes of the file from its offset, up to the number
  asked for and the end of the file. The block kept between reads, the seeks left out and the reads that stop short
  never show, and an error of one read does not spoil a later one.
\<close>

theorem reads_exact:
  assumes "disk_ok Z D" "OpenRead Z alloc name new_reader st = (0, r, st')"
    and "\<forall>k c. d_files D (fs_volume (st_fs st)) k = Some c \<longrightarrow> length c < UNKNOWN_POSITION"
    and "read_all Z reqs r (fs_volume (st_fs st')) = (ress, r', v')"
  shows "\<exists>k c. entry_of D (st_fs st) (GetPath (st_directory st) name) = Some k \<and>
    d_files D (fs_volume (st_fs st)) k = Some c \<and>
    list_all2 (\<lambda>(offset, n) (rc, bs). rc < 0 \<or> rc = int (length bs) \<and> bs = take n (drop offset c)) reqs ress"
proof -
  have "\<not> ar_open new_reader" by (simp add: new_reader_def)
  from OpenRead_ok [OF assms(2,1) this assms(3)] obtain k c where
    "entry_of D (st_fs st) (GetPath (st_directory st) name) = Some k" "d_files D (fs_volume (st_fs st)) k = Some c"
    "reader_ok D k c r (fs_volume (st_fs st'))" by blast
  with read_all_exact [OF assms(4,1)] show ?thesis by blast
qed

lemma ram_open_read:
  "\<exists>r st'. OpenRead ram_fs (\<lambda>_. True) ''a.bin'' new_reader ram_store = (0, r, st')"
proof -
  obtain h s where o: "OpenFile ram_fs ''fonts/a.bin'' [FS_O_READ] (st_fs ram_store) = ((0, h), s)"
    "ram_open (fs_volume s) h = Some ([''SD:'', ''fonts'', ''a.bin''], 0)" "ram_files (fs_volume s) [''SD:'', ''fonts'', ''a.bin''] = Some [9]"
    by (simp add: OpenFile_def with_path_def ram_store_def ram_paths) (simp add: ram_fs_def ram_opened_def ram_paths)
  have avail: "Store_IsAvailable ram_fs ram_store" by (simp add: Store_IsAvailable_def Fs_IsAvailable_def ram_store_def)
  have dir: "st_directory ram_store = ''fonts''" by (simp add: ram_store_def)
  have seek: "\<exists>v1. fs_seek ram_fs h 0 FS_SEEK_END (fs_volume s) = (0, v1) \<and> (\<exists>v2. fs_tell ram_fs h v1 = (1, v2) \<and>
    (\<exists>v3. fs_seek ram_fs h 0 FS_SEEK_SET v2 = (0, v3)))"
    using o(2,3) by (simp add: ram_fs_def Let_def)
  then show ?thesis using o(1) avail dir
    by (auto simp: OpenRead_def Reader_Close_def new_reader_def Let_def ram_paths errno_defs)
qed

theorem reads_exact_witness:
  "\<exists>r st' rc bs rest r' v'. OpenRead ram_fs (\<lambda>_. True) ''a.bin'' new_reader ram_store = (0, r, st') \<and>
     read_all ram_fs [(0, 16)] r (fs_volume (st_fs st')) = ((rc, bs) # rest, r', v') \<and> (rc < 0 \<or> bs = [9])"
proof -
  obtain r st' where o: "OpenRead ram_fs (\<lambda>_. True) ''a.bin'' new_reader ram_store = (0, r, st')" using ram_open_read by blast
  obtain rc bs r' v' where "Reader_Read ram_fs 0 16 r (fs_volume (st_fs st')) = ((rc, bs), r', v')" by (metis prod.exhaust)
  then have rd: "read_all ram_fs [(0, 16)] r (fs_volume (st_fs st')) = ([(rc, bs)], r', v')" by simp
  have small: "\<forall>k c. d_files ram_disk (fs_volume (st_fs ram_store)) k = Some c \<longrightarrow> length c < UNKNOWN_POSITION"
    by (auto simp: ram_disk_def ram_store_def UNKNOWN_POSITION_def split: if_splits)
  have "entry_of ram_disk (st_fs ram_store) (GetPath (st_directory ram_store) ''a.bin'') = Some [''SD:'', ''fonts'', ''a.bin'']"
    by (simp add: entry_of_def ram_store_def ram_disk_def ram_paths)
  with reads_exact [OF ram_disk_ok o small rd] have "rc < 0 \<or> bs = [9]"
    by (auto simp: ram_disk_def ram_store_def)
  with o rd show ?thesis by blast
qed

section \<open>Whole files\<close>

lemma WriteFile_stores:
  assumes "WriteFile Z path data False s = (True, s')" "disk_ok Z D"
  shows "\<exists>k. entry_of D s path = Some k \<and> d_files D (fs_volume s') k = Some data" "fs_mountpoint s' = fs_mountpoint s"
proof -
  from assms(1) obtain p rc h v1 v2 rc3 where p: "TryBuildPath (fs_mountpoint s) path = Some p"
    and run: "fs_open Z (CStr p) [FS_O_WRITE, FS_O_CREATE, FS_O_TRUNC] (fs_volume s) = (rc, h, v1)" "\<not> rc < 0"
      "fs_write Z h data v1 = (int (length data), v2)" "fs_close Z h v2 = (rc3, fs_volume s')" "\<not> rc3 < 0"
      "fs_mountpoint s' = fs_mountpoint s"
    by (auto simp: WriteFile_def with_path_def split: if_splits option.splits prod.splits)
  let ?k = "d_key D (CStr p)"
  have laws: "open_ok Z D" "write_ok Z D" "close_ok Z D" using assms(2) by (simp_all add: disk_ok_def)
  have v1: "d_files D v1 ?k = Some []" "d_open D v1 h = Some (?k, 0)"
    using laws(1) [unfolded open_ok_def, rule_format, OF run(1)] run(2) by auto
  have v2: "d_files D v2 ?k = Some data" "d_open D v2 h = Some (?k, length data)"
    using laws(2) [unfolded write_ok_def, rule_format, OF run(3) v1(2)] v1(1) by auto
  have "rc3 \<le> 0 \<and> (rc3 = 0 \<longrightarrow> d_files D (fs_volume s') = d_files D v2)"
    using laws(3) [unfolded close_ok_def, rule_format, OF run(4) v2(2)] by auto
  then have "d_files D (fs_volume s') ?k = Some data" using run(5) v2(1) by simp
  then show "\<exists>k. entry_of D s path = Some k \<and> d_files D (fs_volume s') k = Some data" using p by (simp add: entry_of_def)
  show "fs_mountpoint s' = fs_mountpoint s" by (rule run(6))
qed

lemma GetFileSize_size:
  assumes "Fs_GetFileSize Z path s = (Some n, s')" "disk_ok Z D" "entry_of D s path = Some k" "d_files D (fs_volume s) k = Some c"
  shows "n = length c"
proof -
  from assms(1) obtain p rc e v where p: "TryBuildPath (fs_mountpoint s) path = Some p"
    "fs_stat Z (CStr p) (fs_volume s) = (rc, e, v)" "\<not> rc < 0" "n = ent_size e"
    by (auto simp: Fs_GetFileSize_def with_path_def split: if_splits option.splits prod.splits)
  have k: "d_files D (fs_volume s) (d_key D (CStr p)) = Some c" using assms(3,4) p(1) by (simp add: entry_of_def)
  have "entries_ok Z D" using assms(2) by (simp add: disk_ok_def)
  then have "rc \<le> 0" "rc = 0 \<longrightarrow> ent_size e = length c" using p(2) k unfolding entries_ok_def by blast+
  then show ?thesis using p(3,4) by simp
qed

lemma ReadFile_reads:
  assumes "ReadFile Z path n s = ((True, bs), s')" "disk_ok Z D" "entry_of D s path = Some k" "d_files D (fs_volume s) k = Some c" "0 < n"
  shows "bs = take (length bs) c"
proof -
  from assms(1) obtain p rc h v1 rd data v2 where p: "TryBuildPath (fs_mountpoint s) path = Some p"
    and run: "fs_open Z (CStr p) [FS_O_READ] (fs_volume s) = (rc, h, v1)" "\<not> rc < 0"
      "fs_read Z h n v1 = (rd, data, v2)" "\<not> rd < 0" "bs = take (nat rd) data"
    by (auto simp: ReadFile_def with_path_def split: if_splits option.splits prod.splits)
  have k: "k = d_key D (CStr p)" using assms(3) p by (simp add: entry_of_def)
  have laws: "open_ok Z D" "read_ok Z D" using assms(2) by (simp_all add: disk_ok_def)
  have v1: "d_files D v1 k = Some c" "d_open D v1 h = Some (k, 0)"
    using laws(1) [unfolded open_ok_def, rule_format, OF run(1)] run(2) assms(4) k by auto
  have "data = take (nat rd) (drop 0 c)" "length data = nat rd"
    using laws(2) [unfolded read_ok_def, rule_format, OF run(3) v1(2,1) assms(5)] run(4) by auto
  then show ?thesis using run(5) by (metis drop0 length_take min.idem take_all_iff order_refl)
qed

lemma Save_stores:
  assumes "Save Z path data st = (True, st')" "disk_ok Z D"
  shows "\<exists>k. entry_of D (st_fs st') (GetPath (st_directory st') path) = Some k \<and> d_files D (fs_volume (st_fs st')) k = Some data"
proof -
  obtain ok s1 where e: "EnsureDirectory Z (st_directory st) (st_fs st) = (ok, s1)" by (metis prod.exhaust)
  obtain s2 where w: "WriteFile Z (GetPath (st_directory st) path) data False s1 = (True, s2)" "st_fs st' = s2" "st_directory st' = st_directory st"
    using assms(1) e by (auto simp: Save_def split: if_splits prod.splits)
  show ?thesis using WriteFile_stores [OF w(1) assms(2)] w(2,3) by (simp add: entry_of_def)
qed


lemma ram_save: "\<exists>st1. Save ram_fs ''a.bin'' [1, 2] ram_store = (True, st1)"
proof -
  have "Fs_Exists ram_fs ''fonts'' (st_fs ram_store) = (True, st_fs ram_store)"
    by (simp add: Fs_Exists_def with_path_def ram_store_def ram_paths) (simp add: ram_fs_def)
  then have e: "EnsureDirectory ram_fs ''fonts'' (st_fs ram_store) = (True, st_fs ram_store)" by (simp add: EnsureDirectory_def)
  have "\<exists>s. WriteFile ram_fs ''fonts/a.bin'' [1, 2] False (st_fs ram_store) = (True, s)"
    by (simp add: WriteFile_def with_path_def ram_store_def ram_paths) (simp add: ram_fs_def ram_opened_def)
  moreover have "Store_IsAvailable ram_fs ram_store" "st_directory ram_store = ''fonts''"
    by (simp_all add: Store_IsAvailable_def Fs_IsAvailable_def ram_store_def)
  ultimately show ?thesis using e by (auto simp: Save_def ram_paths)
qed


text \<open>A valid name is one component below the store's directory, spelled so that every file system takes it as it is.\<close>

lemma valid_name_component:
  assumes "IsValidName name extensions"
  shows "names (GetPath directory name) = names directory @ [name]" "no_null name" "name \<noteq> ''..''"
proof -
  have chars: "list_all IsNameCharacter name" "name \<noteq> []" "hd name \<noteq> CHR ''.''" using assms by (auto simp: IsValidName_def)
  then have sep: "PATH_SEPARATOR \<notin> set name" "CHR 0x00 \<notin> set name"
    by (auto simp: list_all_iff IsNameCharacter_def PATH_SEPARATOR_def dest!: bspec)
  have "names name = [name]" using sep chars by (auto simp: names_def segments_plain is_name_def)
  then show "names (GetPath directory name) = names directory @ [name]"
    using names_append [of directory name] by (simp add: GetPath_def PATH_SEPARATOR_def)
  show "no_null name" using sep by (simp add: no_null_def)
  show "name \<noteq> ''..''" using chars by auto
qed

lemma ends_with_ignoring_case:
  "EndsWithIgnoreCase txt suff \<longleftrightarrow> (\<exists>pre post_part. txt = pre @ post_part \<and> map ToLowerAscii post_part = map ToLowerAscii suff)"
proof
  assume e: "EndsWithIgnoreCase txt suff"
  let ?n = "length txt - length suff"
  have le: "length suff \<le> length txt" using e by (simp add: EndsWithIgnoreCase_def)
  have "map ToLowerAscii (drop ?n txt) = map ToLowerAscii suff"
    by (rule nth_equalityI) (use e le in \<open>auto simp: EndsWithIgnoreCase_def Let_def list_all_iff\<close>)
  then show "\<exists>pre post_part. txt = pre @ post_part \<and> map ToLowerAscii post_part = map ToLowerAscii suff"
    by (metis append_take_drop_id)
next
  assume "\<exists>pre post_part. txt = pre @ post_part \<and> map ToLowerAscii post_part = map ToLowerAscii suff"
  then obtain pre post_part where t: "txt = pre @ post_part" "map ToLowerAscii post_part = map ToLowerAscii suff" by blast
  have len: "length post_part = length suff" using t(2) map_eq_imp_length_eq by blast
  have "ToLowerAscii (post_part ! i) = ToLowerAscii (suff ! i)" if "i < length suff" for i
    using arg_cong [OF t(2), of "\<lambda>xs. xs ! i"] that len by simp
  then show "EndsWithIgnoreCase txt suff" using len t(1)
    by (auto simp: EndsWithIgnoreCase_def Let_def list_all_iff nth_append)
qed

end
