(* ===== verification/Fs_Stream.thy ===== *)
theory Fs_Stream
  imports Asset_Props
begin

text \<open>
  The stream over a file, \<open>src/subsys/fs/services/fs_service_stream_buf.cpp\<close>. The put area is the list of the
  bytes that wait in it, or nothing when the stream refuses output; the get area is what is still unread of
  the last block. A write that fails or falls short latches the stream.
\<close>

section \<open>Model\<close>

datatype OpenMode = OM_Read | OM_Write | OM_Append

definition STREAM_BUFFER_SIZE :: nat where "STREAM_BUFFER_SIZE = 4096"

record stream_buf =
  fb_file :: nat
  fb_opened :: bool
  fb_in_size :: nat
  fb_get :: bytes
  fb_out_size :: nat
  fb_put :: "bytes option"
  fb_write_failed :: bool
  fb_bytes_written :: nat
  fb_write_calls :: u32

definition fb_pending :: "stream_buf \<Rightarrow> bytes" where
  "fb_pending b = (case fb_put b of None \<Rightarrow> [] | Some pending \<Rightarrow> pending)"

text \<open>The room left in the put area, and whether it is used up (\<open>pptr() == epptr()\<close>).\<close>

definition fb_room :: "stream_buf \<Rightarrow> nat" where
  "fb_room b = (case fb_put b of None \<Rightarrow> 0 | Some pending \<Rightarrow> fb_out_size b - length pending)"

definition fb_store :: "bytes \<Rightarrow> stream_buf \<Rightarrow> stream_buf" where
  "fb_store data b = b\<lparr>fb_put := map_option (\<lambda>pending. pending @ data) (fb_put b)\<rparr>"

definition ResetPutArea :: "stream_buf \<Rightarrow> stream_buf" where
  "ResetPutArea b = (if fb_write_failed b then b\<lparr>fb_put := None\<rparr> else b\<lparr>fb_put := Some []\<rparr>)"

definition MarkWriteFailed :: "stream_buf \<Rightarrow> stream_buf" where
  "MarkWriteFailed b = b\<lparr>fb_write_failed := True, fb_put := None\<rparr>"

definition WriteToFile :: "'v zephyr_fs \<Rightarrow> bytes \<Rightarrow> stream_buf \<Rightarrow> 'v \<Rightarrow> nat \<times> stream_buf \<times> 'v" where
  "WriteToFile Z data b v =
     (case fs_write Z (fb_file b) data v of (rc, v1) \<Rightarrow>
        let written = (if rc < 0 then 0 else nat rc);
            b1 = b\<lparr>fb_write_calls := fb_write_calls b + 1, fb_bytes_written := fb_bytes_written b + written\<rparr>
        in (written, if written \<noteq> length data then MarkWriteFailed b1 else b1, v1))"

definition FlushPutArea :: "'v zephyr_fs \<Rightarrow> stream_buf \<Rightarrow> 'v \<Rightarrow> bool \<times> stream_buf \<times> 'v" where
  "FlushPutArea Z b v =
     (if fb_pending b = [] then (True, b, v)
      else let b1 = ResetPutArea b
           in if \<not> fb_opened b then (False, MarkWriteFailed b1, v)
              else case WriteToFile Z (fb_pending b) b1 v of (n, b2, v2) \<Rightarrow> (n = length (fb_pending b), b2, v2))"

text \<open>
  The loop of \<open>xsputn\<close> stores what fits and flushes a full area. A refused put area would keep it from ending; it
  is never entered with one.
\<close>

partial_function (option) put_loop ::
  "'v zephyr_fs \<Rightarrow> bytes \<Rightarrow> stream_buf \<Rightarrow> 'v \<Rightarrow> (bool \<times> stream_buf \<times> 'v) option" where
  "put_loop Z data b v =
     (if data = [] then Some (True, b, v)
      else let chunk = min (length data) (fb_room b);
               b1 = fb_store (take chunk data) b
           in if fb_room b1 = 0
              then case FlushPutArea Z b1 v of (ok, b2, v2) \<Rightarrow>
                     if \<not> ok then Some (False, b2, v2) else put_loop Z (drop chunk data) b2 v2
              else put_loop Z (drop chunk data) b1 v)"

definition xsputn :: "'v zephyr_fs \<Rightarrow> bytes \<Rightarrow> stream_buf \<Rightarrow> 'v \<Rightarrow> (nat \<times> stream_buf \<times> 'v) option" where
  "xsputn Z data b v =
     (if \<not> fb_opened b \<or> fb_write_failed b \<or> data = [] then Some (0, b, v)
      else if fb_out_size b = 0 then Some (WriteToFile Z data b v)
      else if length data \<ge> fb_out_size b
      then case FlushPutArea Z b v of (ok, b1, v1) \<Rightarrow>
             if \<not> ok then Some (0, b1, v1) else Some (WriteToFile Z data b1 v1)
      else map_option (\<lambda>(ok, b1, v1). (if ok then length data else 0, b1, v1)) (put_loop Z data b v))"

text \<open>The result of \<open>overflow\<close> is whether it took the character; end of file is \<open>None\<close>.\<close>

definition overflow :: "'v zephyr_fs \<Rightarrow> u8 option \<Rightarrow> stream_buf \<Rightarrow> 'v \<Rightarrow> u8 option \<times> stream_buf \<times> 'v" where
  "overflow Z c b v =
     (case c of
        None \<Rightarrow> (None, b, v)
      | Some ch \<Rightarrow>
          if \<not> fb_opened b \<or> fb_write_failed b then (None, b, v)
          else if fb_out_size b = 0
          then case WriteToFile Z [ch] b v of (n, b1, v1) \<Rightarrow> (if n = 1 then Some ch else None, b1, v1)
          else case (if fb_room b = 0 then FlushPutArea Z b v else (True, b, v)) of (ok, b1, v1) \<Rightarrow>
            if \<not> ok then (None, b1, v1) else (Some ch, fb_store [ch] b1, v1))"

text \<open>\<open>sputc\<close> of the standard library stores into the put area and calls \<open>overflow\<close> when it is used up.\<close>

definition sputc :: "'v zephyr_fs \<Rightarrow> u8 \<Rightarrow> stream_buf \<Rightarrow> 'v \<Rightarrow> u8 option \<times> stream_buf \<times> 'v" where
  "sputc Z ch b v = (if fb_room b > 0 then (Some ch, fb_store [ch] b, v) else overflow Z (Some ch) b v)"

definition stream_sync :: "'v zephyr_fs \<Rightarrow> stream_buf \<Rightarrow> 'v \<Rightarrow> int \<times> stream_buf \<times> 'v" where
  "stream_sync Z b v =
     (if \<not> fb_opened b \<or> fb_write_failed b then (- 1, b, v)
      else case FlushPutArea Z b v of (ok, b1, v1) \<Rightarrow>
        if \<not> ok then (- 1, b1, v1)
        else case fs_sync Z (fb_file b1) v1 of (rc, v2) \<Rightarrow> (if rc = 0 then 0 else - 1, b1, v2))"

definition stream_close :: "'v zephyr_fs \<Rightarrow> stream_buf \<Rightarrow> 'v \<Rightarrow> bool \<times> stream_buf \<times> 'v" where
  "stream_close Z b v =
     (if fb_opened b
      then case FlushPutArea Z b v of (flushed, b1, v1) \<Rightarrow>
        case fs_close Z (fb_file b1) v1 of (rc, v2) \<Rightarrow>
          (flushed \<and> rc = 0, b1\<lparr>fb_opened := False, fb_put := None, fb_get := []\<rparr>, v2)
      else (True, b, v))"

definition xsgetn :: "'v zephyr_fs \<Rightarrow> nat \<Rightarrow> stream_buf \<Rightarrow> 'v \<Rightarrow> bytes \<times> stream_buf \<times> 'v" where
  "xsgetn Z n b v =
     (if \<not> fb_opened b \<or> n = 0 then ([], b, v)
      else case FlushPutArea Z b v of (ok, b1, v1) \<Rightarrow>
        if \<not> ok then ([], b1, v1)
        else let copied = min (length (fb_get b1)) n;
                 out = take copied (fb_get b1);
                 b2 = b1\<lparr>fb_get := drop copied (fb_get b1)\<rparr>
             in if copied = n then (out, b2, v1)
                else case fs_read Z (fb_file b2) (n - copied) v1 of (rc, data, v2) \<Rightarrow>
                  if rc < 0 then (out, b2, v2) else (out @ take (nat rc) data, b2, v2))"

definition underflow :: "'v zephyr_fs \<Rightarrow> stream_buf \<Rightarrow> 'v \<Rightarrow> u8 option \<times> stream_buf \<times> 'v" where
  "underflow Z b v =
     (if \<not> fb_opened b \<or> fb_in_size b = 0 then (None, b, v)
      else if fb_get b \<noteq> [] then (Some (hd (fb_get b)), b, v)
      else case FlushPutArea Z b v of (ok, b1, v1) \<Rightarrow>
        if \<not> ok then (None, b1, v1)
        else case fs_read Z (fb_file b1) (fb_in_size b1) v1 of (rc, data, v2) \<Rightarrow>
          if rc \<le> 0 then (None, b1, v2)
          else let b2 = b1\<lparr>fb_get := take (nat rc) data\<rparr> in (Some (hd (fb_get b2)), b2, v2))"

text \<open>The result of a seek is the new position, \<open>None\<close> for -1; the flag says whether any area was named.\<close>

definition seekoff :: "'v zephyr_fs \<Rightarrow> int \<Rightarrow> fs_whence \<Rightarrow> bool \<Rightarrow> stream_buf \<Rightarrow> 'v \<Rightarrow> nat option \<times> stream_buf \<times> 'v" where
  "seekoff Z off way any_area b v =
     (if \<not> fb_opened b then (None, b, v)
      else if \<not> any_area then (None, b, v)
      else case FlushPutArea Z b v of (ok, b1, v1) \<Rightarrow>
        if \<not> ok then (None, b1, v1)
        else let target = (if way = FS_SEEK_CUR then off - int (length (fb_get b1)) else off)
             in case fs_seek Z (fb_file b1) target way v1 of (rc, v2) \<Rightarrow>
                  if rc \<noteq> 0 then (None, b1, v2)
                  else case fs_tell Z (fb_file b1) v2 of (pos, v3) \<Rightarrow>
                    if pos < 0 then (None, b1, v3)
                    else (Some (nat pos), ResetPutArea (b1\<lparr>fb_get := []\<rparr>), v3))"

definition seekpos :: "'v zephyr_fs \<Rightarrow> int \<Rightarrow> bool \<Rightarrow> stream_buf \<Rightarrow> 'v \<Rightarrow> nat option \<times> stream_buf \<times> 'v" where
  "seekpos Z sp any_area b v = seekoff Z sp FS_SEEK_SET any_area b v"

text \<open>
  Opening. The flag is the availability of the service, the number the configured size of the write buffer; an
  exception is an error.
\<close>

definition open_flags :: "OpenMode \<Rightarrow> fs_mode_flag list" where
  "open_flags mode = (case mode of OM_Read \<Rightarrow> [FS_O_READ] | OM_Write \<Rightarrow> [FS_O_WRITE, FS_O_CREATE, FS_O_TRUNC]
     | OM_Append \<Rightarrow> [FS_O_WRITE, FS_O_CREATE, FS_O_APPEND])"

definition ensure_parent :: "'v zephyr_fs \<Rightarrow> string \<Rightarrow> 'v fs_service \<Rightarrow> bool \<times> 'v fs_service" where
  "ensure_parent Z relative_path s =
     (let parent = parent_path relative_path
      in if parent = [] then (True, s)
         else case Fs_Exists Z parent s of (found, s1) \<Rightarrow> if found then (True, s1) else CreateDirectory Z parent s1)"

definition stream_open ::
  "'v zephyr_fs \<Rightarrow> nat \<Rightarrow> bool \<Rightarrow> string \<Rightarrow> OpenMode \<Rightarrow> 'v fs_service \<Rightarrow> stream_buf result \<times> 'v fs_service" where
  "stream_open Z write_buffer_size available relative_path mode s =
     (if \<not> available then (Inl RuntimeError, s)
      else if length relative_path > PATH_BUFFER_SIZE then (Inl InvalidArgument, s)
      else case (if mode = OM_Read then (True, s) else ensure_parent Z relative_path s) of (ok, s1) \<Rightarrow>
        if \<not> ok then (Inl RuntimeError, s1)
        else case OpenFile Z relative_path (open_flags mode) s1 of ((rc, file), s2) \<Rightarrow>
          if rc < 0 then (Inl RuntimeError, s2)
          else (Inr \<lparr>fb_file = file, fb_opened = True, fb_in_size = (if mode = OM_Read then STREAM_BUFFER_SIZE else 0),
                     fb_get = [], fb_out_size = (if mode = OM_Read then 0 else write_buffer_size), fb_put = Some [],
                     fb_write_failed = False, fb_bytes_written = 0, fb_write_calls = 0\<rparr>, s2))"

section \<open>What is written is what the file holds\<close>

text \<open>A healthy stream: the file and the put area together are what was written.\<close>

definition stream_ok :: "('v, 'k) disk \<Rightarrow> 'k \<Rightarrow> stream_buf \<Rightarrow> 'v \<Rightarrow> bytes \<Rightarrow> bool" where
  "stream_ok D k b v data \<longleftrightarrow> fb_opened b \<and> \<not> fb_write_failed b \<and>
     (\<exists>pending c. fb_put b = Some pending \<and> length pending \<le> fb_out_size b \<and> d_files D v k = Some c \<and>
        d_open D v (fb_file b) = Some (k, length c) \<and> c @ pending = data)"

lemma stream_okD:
  assumes "stream_ok D k b v data"
  obtains c where "fb_put b = Some (fb_pending b)" "length (fb_pending b) \<le> fb_out_size b" "d_files D v k = Some c"
    "d_open D v (fb_file b) = Some (k, length c)" "data = c @ fb_pending b" "fb_opened b" "\<not> fb_write_failed b"
  using assms by (auto simp: stream_ok_def fb_pending_def)

text \<open>
  What an operation of a stream leaves: a healthy stream with the data when it succeeded, a latched one otherwise.
\<close>

definition latched :: "stream_buf \<Rightarrow> bool" where
  "latched b \<longleftrightarrow> fb_opened b \<and> fb_write_failed b \<and> fb_put b = None"

definition stream_result :: "('v, 'k) disk \<Rightarrow> 'k \<Rightarrow> bool \<Rightarrow> stream_buf \<Rightarrow> 'v \<Rightarrow> bytes \<Rightarrow> bool" where
  "stream_result D k ok b v data \<longleftrightarrow> (if ok then stream_ok D k b v data else latched b)"

lemma WriteToFile_result:
  assumes "WriteToFile Z data b v = (n, b', v')" "disk_ok Z D" "stream_ok D k b v before" "fb_pending b = []" "data \<noteq> []"
  shows "stream_result D k (n = length data) b' v' (before @ data)" "fb_out_size b' = fb_out_size b"
    "n = length data \<Longrightarrow> fb_pending b' = []"
proof -
  from assms(3) obtain c where c: "fb_put b = Some []" "d_files D v k = Some c" "d_open D v (fb_file b) = Some (k, length c)"
    "before = c" "fb_opened b" "\<not> fb_write_failed b" by (rule stream_okD) (use assms(4) in auto)
  obtain rc v1 where w: "fs_write Z (fb_file b) data v = (rc, v1)" by (metis prod.exhaust)
  have "write_ok Z D" using assms(2) by (simp add: disk_ok_def)
  from this [unfolded write_ok_def, rule_format, OF w c(3)] c(2) have
    law: "0 \<le> rc \<Longrightarrow> nat rc \<le> length data \<and> d_files D v1 k = Some (c @ take (nat rc) data) \<and>
      d_open D v1 (fb_file b) = Some (k, length c + nat rc)" by blast
  show "stream_result D k (n = length data) b' v' (before @ data)" "fb_out_size b' = fb_out_size b"
    "n = length data \<Longrightarrow> fb_pending b' = []"
    using assms(1,5) w law c
    by (auto simp: WriteToFile_def Let_def stream_result_def stream_ok_def latched_def MarkWriteFailed_def fb_pending_def split: if_splits)
qed

lemma Flush_result:
  assumes "FlushPutArea Z b v = (ok, b', v')" "disk_ok Z D" "stream_ok D k b v data"
  shows "stream_result D k ok b' v' data" "fb_out_size b' = fb_out_size b" "ok \<Longrightarrow> fb_pending b' = []"
proof -
  from assms(3) obtain c where c: "fb_put b = Some (fb_pending b)" "length (fb_pending b) \<le> fb_out_size b" "d_files D v k = Some c"
    "d_open D v (fb_file b) = Some (k, length c)" "data = c @ fb_pending b" "fb_opened b" "\<not> fb_write_failed b" by (rule stream_okD)
  have reset: "stream_ok D k (ResetPutArea b) v c" "fb_pending (ResetPutArea b) = []" "fb_out_size (ResetPutArea b) = fb_out_size b"
    using c by (auto simp: ResetPutArea_def stream_ok_def fb_pending_def)
  have "stream_result D k ok b' v' data \<and> fb_out_size b' = fb_out_size b \<and> (ok \<longrightarrow> fb_pending b' = [])"
  proof (cases "fb_pending b = []")
    case True
    then show ?thesis using assms(1,3) by (auto simp: FlushPutArea_def stream_result_def)
  next
    case False
    obtain n b2 v2 where w: "WriteToFile Z (fb_pending b) (ResetPutArea b) v = (n, b2, v2)" by (metis prod.exhaust)
    note W = WriteToFile_result [OF w assms(2) reset(1,2) False]
    show ?thesis using assms(1) False w W c(5,6) reset(3) by (auto simp: FlushPutArea_def Let_def)
  qed
  then show "stream_result D k ok b' v' data" "fb_out_size b' = fb_out_size b" "ok \<Longrightarrow> fb_pending b' = []" by auto
qed

lemma fb_store_ok:
  assumes "stream_ok D k b v before" "length data \<le> fb_room b"
  shows "stream_ok D k (fb_store data b) v (before @ data)" "fb_out_size (fb_store data b) = fb_out_size b"
    "fb_room (fb_store data b) = fb_room b - length data"
  using assms by (auto simp: stream_ok_def fb_store_def fb_room_def)

lemma put_loop_result:
  assumes "disk_ok Z D" "stream_ok D k b v before" "0 < fb_out_size b"
  shows "\<exists>ok b' v'. put_loop Z data b v = Some (ok, b', v') \<and> stream_result D k ok b' v' (before @ data) \<and> fb_out_size b' = fb_out_size b"
  using assms(2,3)
proof (induction "length data + (if fb_room b = 0 then 1 else 0)" arbitrary: data b v before rule: less_induct)
  case less
  show ?case
  proof (cases "data = []")
    case True
    then show ?thesis using less.prems by (auto simp: put_loop.simps stream_result_def)
  next
    case False
    define chunk where "chunk = min (length data) (fb_room b)"
    have chunk: "length (take chunk data) = chunk" "chunk \<le> fb_room b" by (auto simp: chunk_def)
    note S = fb_store_ok [OF less.prems(1), of "take chunk data", unfolded chunk(1), OF chunk(2)]
    have split: "(before @ take chunk data) @ drop chunk data = before @ data" by simp
    show ?thesis
    proof (cases "fb_room (fb_store (take chunk data) b) = 0")
      case full: True
      obtain ok b2 v2 where f: "FlushPutArea Z (fb_store (take chunk data) b) v = (ok, b2, v2)" by (metis prod.exhaust)
      note F = Flush_result [OF f assms(1) S(1)]
      have run: "put_loop Z data b v = (if \<not> ok then Some (False, b2, v2) else put_loop Z (drop chunk data) b2 v2)"
        using False full f by (subst put_loop.simps) (simp add: Let_def chunk_def [symmetric])
      show ?thesis
      proof (cases ok)
        case True
        then have ok2: "stream_ok D k b2 v2 (before @ take chunk data)" "fb_out_size b2 = fb_out_size b" "fb_pending b2 = []"
          using F S(2) by (auto simp: stream_result_def)
        then have room: "fb_room b2 \<noteq> 0" using less.prems(2) by (auto simp: stream_ok_def fb_pending_def fb_room_def)
        have "length (drop chunk data) + (if fb_room b2 = 0 then 1 else 0) < length data + (if fb_room b = 0 then 1 else 0)"
          using room False by (auto simp: chunk_def)
        from less.hyps [OF this ok2(1)] ok2(2) less.prems(2) run True show ?thesis unfolding split by auto
      next
        case bad: False
        then show ?thesis using run F(1,2) S(2) by (auto simp: stream_result_def)
      qed
    next
      case room: False
      have run: "put_loop Z data b v = put_loop Z (drop chunk data) (fb_store (take chunk data) b) v"
        using False room by (subst put_loop.simps) (simp add: Let_def chunk_def [symmetric])
      have "length (drop chunk data) + (if fb_room (fb_store (take chunk data) b) = 0 then 1 else 0) <
        length data + (if fb_room b = 0 then 1 else 0)" using room False S(3) by (auto simp: chunk_def)
      from less.hyps [OF this S(1)] S(2) less.prems(2) run show ?thesis unfolding split by auto
    qed
  qed
qed

lemma xsputn_result:
  assumes "disk_ok Z D" "stream_ok D k b v before"
  shows "\<exists>n b' v'. xsputn Z data b v = Some (n, b', v') \<and> stream_result D k (n = length data) b' v' (before @ data)"
proof -
  have healthy: "fb_opened b" "\<not> fb_write_failed b" using assms(2) by (auto simp: stream_ok_def)
  consider (none) "data = []" | (direct) "data \<noteq> []" "fb_out_size b = 0" | (large) "data \<noteq> []" "0 < fb_out_size b" "length data \<ge> fb_out_size b"
    | (small) "data \<noteq> []" "0 < fb_out_size b" "length data < fb_out_size b" by fastforce
  then show ?thesis
  proof cases
    case none
    then show ?thesis using assms(2) by (auto simp: xsputn_def stream_result_def)
  next
    case direct
    then have "fb_pending b = []" using assms(2) by (auto simp: stream_ok_def fb_pending_def)
    moreover obtain n b' v' where w: "WriteToFile Z data b v = (n, b', v')" by (metis prod.exhaust)
    ultimately show ?thesis using WriteToFile_result(1) [OF w assms] direct healthy by (auto simp: xsputn_def)
  next
    case large
    obtain ok b1 v1 where f: "FlushPutArea Z b v = (ok, b1, v1)" by (metis prod.exhaust)
    note F = Flush_result [OF f assms]
    obtain n b' v' where w: "WriteToFile Z data b1 v1 = (n, b', v')" by (metis prod.exhaust)
    show ?thesis
    proof (cases ok)
      case True
      then have "stream_ok D k b1 v1 before" "fb_pending b1 = []" using F by (auto simp: stream_result_def)
      from WriteToFile_result(1) [OF w assms(1) this large(1)] show ?thesis using f w True large healthy by (auto simp: xsputn_def)
    next
      case False
      then show ?thesis using f F(1) large healthy by (auto simp: xsputn_def stream_result_def)
    qed
  next
    case small
    from put_loop_result [OF assms small(2), of data] obtain ok b' v' where
      l: "put_loop Z data b v = Some (ok, b', v')" "stream_result D k ok b' v' (before @ data)" by blast
    have "xsputn Z data b v = Some (if ok then length data else 0, b', v')" using l(1) small healthy by (simp add: xsputn_def)
    moreover have "(if ok then length data else 0) = length data \<longleftrightarrow> ok" using small(1) by simp
    ultimately show ?thesis using l(2) by simp
  qed
qed

lemma sputc_result:
  assumes "sputc Z ch b v = (r, b', v')" "disk_ok Z D" "stream_ok D k b v before"
  shows "stream_result D k (r = Some ch) b' v' (before @ [ch])"
proof (cases "fb_room b = 0")
  case False
  then show ?thesis using assms(1) fb_store_ok(1) [OF assms(3), of "[ch]"] by (auto simp: sputc_def stream_result_def)
next
  case full: True
  have healthy: "fb_opened b" "\<not> fb_write_failed b" using assms(3) by (auto simp: stream_ok_def)
  have run: "overflow Z (Some ch) b v = (r, b', v')" using assms(1) full by (simp add: sputc_def)
  show ?thesis
  proof (cases "fb_out_size b = 0")
    case True
    then have "fb_pending b = []" using assms(3) by (auto simp: stream_ok_def fb_pending_def)
    moreover obtain n b1 v1 where w: "WriteToFile Z [ch] b v = (n, b1, v1)" by (metis prod.exhaust)
    ultimately show ?thesis using WriteToFile_result(1) [OF w assms(2,3)] run True healthy by (auto simp: overflow_def split: if_splits)
  next
    case False
    obtain ok b1 v1 where f: "FlushPutArea Z b v = (ok, b1, v1)" by (metis prod.exhaust)
    note F = Flush_result [OF f assms(2,3)]
    show ?thesis
    proof (cases ok)
      case True
      then have ok1: "stream_ok D k b1 v1 before" "fb_pending b1 = []" using F by (auto simp: stream_result_def)
      have "1 \<le> fb_room b1" using ok1 F(2) False by (auto simp: stream_ok_def fb_pending_def fb_room_def)
      then show ?thesis using fb_store_ok(1) [OF ok1(1), of "[ch]"] run f True full False healthy
        by (auto simp: overflow_def stream_result_def)
    next
      case bad: False
      then show ?thesis using run f F(1) full False healthy by (auto simp: overflow_def stream_result_def)
    qed
  qed
qed

text \<open>Syncing changes no file.\<close>

definition sync_ok :: "'v zephyr_fs \<Rightarrow> ('v, 'k) disk \<Rightarrow> bool" where
  "sync_ok Z D \<longleftrightarrow> (\<forall>h v rc v'. fs_sync Z h v = (rc, v') \<longrightarrow> same_files D v v')"

lemma sync_result:
  assumes "stream_sync Z b v = (rc, b', v')" "disk_ok Z D" "sync_ok Z D" "stream_ok D k b v before"
  shows "rc = 0 \<Longrightarrow> stream_ok D k b' v' before \<and> fb_pending b' = []" "stream_ok D k b' v' before \<or> latched b'"
proof -
  obtain ok b1 v1 where f: "FlushPutArea Z b v = (ok, b1, v1)" by (metis prod.exhaust)
  obtain rc2 v2 where sy: "fs_sync Z (fb_file b1) v1 = (rc2, v2)" by (metis prod.exhaust)
  have "same_files D v1 v2" using assms(3) sy by (simp add: sync_ok_def)
  then show "rc = 0 \<Longrightarrow> stream_ok D k b' v' before \<and> fb_pending b' = []" "stream_ok D k b' v' before \<or> latched b'"
    using assms(1,4) f sy Flush_result [OF f assms(2,4)]
    by (auto simp: stream_sync_def stream_result_def stream_ok_def same_files_def split: if_splits)
qed

datatype stream_op = PutN bytes | PutC u8 | Sync

primrec op_bytes :: "stream_op \<Rightarrow> bytes" where
  "op_bytes (PutN data) = data"
| "op_bytes (PutC ch) = [ch]"
| "op_bytes Sync = []"

text \<open>An operation and whether it reported success.\<close>

definition stream_step :: "'v zephyr_fs \<Rightarrow> stream_op \<Rightarrow> stream_buf \<Rightarrow> 'v \<Rightarrow> (bool \<times> stream_buf \<times> 'v) option" where
  "stream_step Z op b v = (case op of
       PutN data \<Rightarrow> map_option (\<lambda>(n, b1, v1). (n = length data, b1, v1)) (xsputn Z data b v)
     | PutC ch \<Rightarrow> Some (case sputc Z ch b v of (r, b1, v1) \<Rightarrow> (r = Some ch, b1, v1))
     | Sync \<Rightarrow> Some (case stream_sync Z b v of (rc, b1, v1) \<Rightarrow> (rc = 0, b1, v1)))"

fun stream_run :: "'v zephyr_fs \<Rightarrow> stream_op list \<Rightarrow> stream_buf \<Rightarrow> 'v \<Rightarrow> (bool list \<times> stream_buf \<times> 'v) option" where
  "stream_run Z [] b v = Some ([], b, v)"
| "stream_run Z (op # ops) b v =
     Option.bind (stream_step Z op b v) (\<lambda>(ok, b1, v1).
       map_option (\<lambda>(oks, b2, v2). (ok # oks, b2, v2)) (stream_run Z ops b1 v1))"

lemma stream_step_result:
  assumes "disk_ok Z D" "sync_ok Z D" "stream_ok D k b v before"
  shows "\<exists>ok b' v'. stream_step Z op b v = Some (ok, b', v') \<and> (ok \<longrightarrow> stream_ok D k b' v' (before @ op_bytes op)) \<and>
    (stream_ok D k b' v' (before @ op_bytes op) \<or> latched b')"
proof (cases op)
  case (PutN data)
  from xsputn_result [OF assms(1,3), of data] obtain n b' v' where
    "xsputn Z data b v = Some (n, b', v')" "stream_result D k (n = length data) b' v' (before @ data)" by blast
  then show ?thesis using PutN by (auto simp: stream_step_def stream_result_def split: if_splits)
next
  case (PutC ch)
  obtain r b' v' where s: "sputc Z ch b v = (r, b', v')" by (metis prod.exhaust)
  from sputc_result [OF s assms(1,3)] s PutC show ?thesis by (auto simp: stream_step_def stream_result_def split: if_splits)
next
  case Sync
  obtain rc b' v' where s: "stream_sync Z b v = (rc, b', v')" by (metis prod.exhaust)
  from sync_result [OF s assms] s Sync show ?thesis by (auto simp: stream_step_def)
qed

text \<open>A latched stream takes nothing more: every write and every sync reports failure and touches nothing.\<close>

lemma latched_step:
  assumes "latched b"
  shows "stream_step Z op b v = Some (op_bytes op = [] \<and> op \<noteq> Sync, b, v)"
  using assms by (cases op) (auto simp: latched_def stream_step_def xsputn_def sputc_def overflow_def stream_sync_def fb_room_def)

lemma latched_run: "latched b \<Longrightarrow> \<exists>oks. stream_run Z ops b v = Some (oks, b, v)"
  by (induction ops) (auto simp: latched_step)

lemma stream_run_result:
  assumes "disk_ok Z D" "sync_ok Z D" "stream_ok D k b v before"
  shows "\<exists>oks b' v'. stream_run Z ops b v = Some (oks, b', v') \<and>
    (False \<in> set oks \<or> stream_ok D k b' v' (before @ concat (map op_bytes ops)))"
  using assms(3)
proof (induction ops arbitrary: b v before)
  case (Cons op ops)
  from stream_step_result [OF assms(1,2) Cons.prems, of op] obtain ok b1 v1 where
    st: "stream_step Z op b v = Some (ok, b1, v1)" "ok \<longrightarrow> stream_ok D k b1 v1 (before @ op_bytes op)"
    "stream_ok D k b1 v1 (before @ op_bytes op) \<or> latched b1" by blast
  from st(3) show ?case
  proof
    assume "stream_ok D k b1 v1 (before @ op_bytes op)"
    from Cons.IH [OF this] st(1) show ?case by auto
  next
    assume "latched b1"
    with latched_run [of b1 Z ops v1] st(1,2) show ?case by (cases ok) (auto simp: latched_def stream_ok_def)
  qed
qed simp

lemma stream_open_ok:
  assumes "stream_open Z n available path OM_Write s = (Inr b, s')" "disk_ok Z D"
  shows "\<exists>k. entry_of D s path = Some k \<and> stream_ok D k b (fs_volume s') []"
proof -
  obtain ok s1 where e: "ensure_parent Z path s = (ok, s1)" by (metis prod.exhaust)
  have s1: "fs_mountpoint s1 = fs_mountpoint s"
    using e EnsureDirectory_untouched [OF assms(2), of s "parent_path path"]
    by (auto simp: ensure_parent_def EnsureDirectory_def Let_def vol_untouched_def split: if_splits)
  obtain rc h s2 where o: "OpenFile Z path [FS_O_WRITE, FS_O_CREATE, FS_O_TRUNC] s1 = ((rc, h), s2)" by (metis prod.exhaust)
  have b: "\<not> rc < 0" "fb_file b = h" "fb_opened b" "\<not> fb_write_failed b" "fb_put b = Some []" "s' = s2"
    using assms(1) e o by (auto simp: stream_open_def open_flags_def split: if_splits)
  from o b(1) obtain p where p: "TryBuildPath (fs_mountpoint s1) path = Some p"
    "fs_open Z (CStr p) [FS_O_WRITE, FS_O_CREATE, FS_O_TRUNC] (fs_volume s1) = (rc, h, fs_volume s2)"
    by (auto simp: OpenFile_def with_path_def errno_defs split: if_splits option.splits prod.splits)
  have "open_ok Z D" using assms(2) by (simp add: disk_ok_def)
  from this [unfolded open_ok_def, rule_format, OF p(2)] b(1) have
    "d_files D (fs_volume s2) (d_key D (CStr p)) = Some []" "d_open D (fs_volume s2) h = Some (d_key D (CStr p), 0)" by auto
  then have "stream_ok D (d_key D (CStr p)) b (fs_volume s') []" using b by (auto simp: stream_ok_def)
  then show ?thesis using p(1) s1 by (auto simp: entry_of_def)
qed

lemma stream_close_exact:
  assumes "stream_close Z b v = (True, b', v')" "disk_ok Z D" "stream_ok D k b v data"
  shows "d_files D v' k = Some data"
proof -
  obtain ok b1 v1 where f: "FlushPutArea Z b v = (ok, b1, v1)" by (metis prod.exhaust)
  obtain rc v2 where c: "fs_close Z (fb_file b1) v1 = (rc, v2)" by (metis prod.exhaust)
  have "ok" "rc = 0" "v' = v2" using assms(1,3) f c by (auto simp: stream_close_def stream_ok_def)
  then have s1: "stream_ok D k b1 v1 data" "fb_pending b1 = []" using Flush_result [OF f assms(2,3)] by (auto simp: stream_result_def)
  then obtain d where d: "d_files D v1 k = Some data" "d_open D v1 (fb_file b1) = Some (k, d)"
    by (auto simp: stream_ok_def fb_pending_def)
  have "close_ok Z D" using assms(2) by (simp add: disk_ok_def)
  from this [unfolded close_ok_def, rule_format, OF c d(2)] \<open>rc = 0\<close> \<open>v' = v2\<close> d(1) show ?thesis by simp
qed

text \<open>
  C11. A file stream never loses output silently: on a file system that behaves as documented, any sequence of writes
  of blocks and single characters and of syncs on a stream opened for writing comes to its end, and then either one of
  them or the closing reported a failure, or the file holds exactly what was written, in order, however the put area
  split it.
\<close>

theorem stream_reports_losses:
  assumes "disk_ok Z D" "sync_ok Z D" "stream_open Z n available path OM_Write s = (Inr b, s1)"
  shows "\<exists>oks b2 v2 closed b3 v3. stream_run Z ops b (fs_volume s1) = Some (oks, b2, v2) \<and> stream_close Z b2 v2 = (closed, b3, v3) \<and>
    (False \<in> set oks \<or> closed = False \<or>
     (\<exists>k. entry_of D s path = Some k \<and> d_files D v3 k = Some (concat (map op_bytes ops))))"
proof -
  obtain k where k: "entry_of D s path = Some k" "stream_ok D k b (fs_volume s1) []" using stream_open_ok [OF assms(3,1)] by blast
  from stream_run_result [OF assms(1,2) k(2), of ops] obtain oks b2 v2 where
    r: "stream_run Z ops b (fs_volume s1) = Some (oks, b2, v2)"
    "False \<in> set oks \<or> stream_ok D k b2 v2 (concat (map op_bytes ops))" by auto
  obtain closed b3 v3 where c: "stream_close Z b2 v2 = (closed, b3, v3)" by (metis prod.exhaust)
  have "False \<in> set oks \<or> closed = False \<or> d_files D v3 k = Some (concat (map op_bytes ops))"
    using r(2) c stream_close_exact [OF _ assms(1), of b2 v2 b3 v3 k] by (cases closed) auto
  then show ?thesis using r(1) c k(1) by (intro exI conjI) auto
qed

lemma ram_sync_ok: "sync_ok ram_fs ram_disk"
  by (simp add: sync_ok_def ram_fs_def)

lemma ram_stream:
  "\<exists>b s1. stream_open ram_fs 4 True ''fonts/a.bin'' OM_Write (st_fs ram_store) = (Inr b, s1)"
proof -
  have "parent_path ''fonts/a.bin'' = ''fonts''" by code_simp
  moreover have "Fs_Exists ram_fs ''fonts'' (st_fs ram_store) = (True, st_fs ram_store)"
    by (simp add: Fs_Exists_def with_path_def ram_store_def ram_paths) (simp add: ram_fs_def)
  moreover have "\<exists>h s. OpenFile ram_fs ''fonts/a.bin'' [FS_O_WRITE, FS_O_CREATE, FS_O_TRUNC] (st_fs ram_store) = ((0, h), s)"
    by (simp add: OpenFile_def with_path_def ram_store_def ram_paths) (simp add: ram_fs_def ram_opened_def)
  ultimately show ?thesis by (auto simp: stream_open_def ensure_parent_def open_flags_def PATH_BUFFER_SIZE_def)
qed

theorem stream_reports_losses_witness:
  "\<exists>b s1 oks b2 v2 closed b3 v3. stream_open ram_fs 4 True ''fonts/a.bin'' OM_Write (st_fs ram_store) = (Inr b, s1) \<and>
     stream_run ram_fs [PutN [1, 2, 3], PutC 4, PutN [5], Sync] b (fs_volume s1) = Some (oks, b2, v2) \<and>
     stream_close ram_fs b2 v2 = (closed, b3, v3) \<and>
     (False \<in> set oks \<or> closed = False \<or> ram_files v3 [''SD:'', ''fonts'', ''a.bin''] = Some [1, 2, 3, 4, 5])"
proof -
  obtain b s1 where o: "stream_open ram_fs 4 True ''fonts/a.bin'' OM_Write (st_fs ram_store) = (Inr b, s1)"
    using ram_stream by blast
  have "entry_of ram_disk (st_fs ram_store) ''fonts/a.bin'' = Some [''SD:'', ''fonts'', ''a.bin'']"
    by (simp add: entry_of_def ram_store_def ram_disk_def ram_paths)
  with stream_reports_losses [OF ram_disk_ok ram_sync_ok o, of "[PutN [1, 2, 3], PutC 4, PutN [5], Sync]"] o show ?thesis
    by (fastforce simp: ram_disk_def)
qed

end
