(* ===== verification/Log_Writer.thy ===== *)
theory Log_Writer
  imports Fs_Stream Service_Base
begin

text \<open>
  The log writer, \<open>src/domain/logging_domain/services/log_writer_service.cpp\<close>: it opens a log file at every start,
  writes the readings at every tick of its own thread, rotates files by size and ends a session that fails. The
  logger is the interface \<open>ILogger\<close>, the record \<open>logger_if\<close> over any logger state: its calls write to the stream
  and may throw (\<open>None\<close>). What a call finds in its surroundings (clocks, random numbers, readings, configuration)
  is an argument. Published statuses and recorded end times are appended to lists.
\<close>

section \<open>Model\<close>

datatype LoggingStatusReason = LS_Stopped | LS_WriteFailed | LS_NoSpace | LS_RotationFailed | LS_Unavailable | LS_FirmwareUpdate

record ('l, 'r, 'v) logger_if =
  lg_extension :: string
  lg_start :: "int \<Rightarrow> 'l \<Rightarrow> stream_buf \<Rightarrow> 'v \<Rightarrow> bool option \<times> 'l \<times> stream_buf \<times> 'v"
  lg_stop :: "'l \<Rightarrow> stream_buf \<Rightarrow> 'v \<Rightarrow> bool \<times> 'l \<times> stream_buf \<times> 'v"
  lg_log :: "int \<Rightarrow> 'r \<Rightarrow> 'l \<Rightarrow> stream_buf \<Rightarrow> 'v \<Rightarrow> bool option \<times> 'l \<times> stream_buf \<times> 'v"
  lg_bytes :: "'l \<Rightarrow> nat"

record LogWriterStats =
  ls_ticks :: u32
  ls_readings :: u32
  ls_frames :: u32
  ls_frames_dropped :: u32
  ls_syncs :: u32
  ls_rotations :: u32
  ls_overruns :: u32
  ls_write_errors :: u32
  ls_tick_last_us :: u32
  ls_tick_max_us :: u32
  ls_stream_writes :: u32
  ls_bytes :: nat

definition LogWriterStats_zero :: LogWriterStats where
  "LogWriterStats_zero = \<lparr>ls_ticks = 0, ls_readings = 0, ls_frames = 0, ls_frames_dropped = 0, ls_syncs = 0,
     ls_rotations = 0, ls_overruns = 0, ls_write_errors = 0, ls_tick_last_us = 0, ls_tick_max_us = 0,
     ls_stream_writes = 0, ls_bytes = 0\<rparr>"

record LogWriterTask =
  lt_is_running :: bool
  lt_interval_ticks :: int
  lt_burst_interval_ticks :: int
  lt_next_deadline :: int
  lt_max_log_size :: nat
  lt_is_rotation_due :: bool
  lt_last_tick_time :: int
  lt_stats :: LogWriterStats
  lt_closed_files_bytes :: nat
  lt_closed_files_stream_writes :: u32
  lt_last_dropped_count :: u32
  lt_sync_interval_ms :: int
  lt_last_sync_ms :: int

definition LogWriterTask_new :: LogWriterTask where
  "LogWriterTask_new = \<lparr>lt_is_running = False, lt_interval_ticks = 0, lt_burst_interval_ticks = 0, lt_next_deadline = 0,
     lt_max_log_size = 0, lt_is_rotation_due = False, lt_last_tick_time = 0, lt_stats = LogWriterStats_zero,
     lt_closed_files_bytes = 0, lt_closed_files_stream_writes = 0, lt_last_dropped_count = 0, lt_sync_interval_ms = 0,
     lt_last_sync_ms = 0\<rparr>"

text \<open>
  The service. \<open>lw_scheduled\<close> is the deadline of the tick that is armed, if any; \<open>lw_published\<close> the statuses
  published, with the reason of an inactive one; \<open>lw_ends\<close> the ends recorded.
\<close>

record ('l, 'v) log_writer =
  lw_fs :: "'v fs_service"
  lw_task :: "LogWriterTask option"
  lw_has_factory :: bool
  lw_logger :: "'l option"
  lw_stream :: "stream_buf option"
  lw_file_path :: string
  lw_file_start :: int
  lw_open_file_path :: string
  lw_open_file_bytes :: nat
  lw_session :: "int option"
  lw_has_failed :: bool
  lw_stop_reason :: LoggingStatusReason
  lw_min_free_space :: "64 word"
  lw_max_size_override :: "nat option"
  lw_keeps_ends :: bool
  lw_scheduled :: "int option"
  lw_published :: "(bool \<times> LoggingStatusReason option) list"
  lw_ends :: "(string \<times> int) list"

record log_config =
  lc_interval_ms :: nat
  lc_max_log_size_mb :: nat

text \<open>What the calls that open files find: the card, the clock of the file names, random numbers, the write buffer.\<close>

record file_env =
  fe_available :: bool
  fe_prefix :: string
  fe_stamp :: "int \<Rightarrow> string"
  fe_random :: "nat \<Rightarrow> nat"
  fe_write_buffer_size :: nat

record 'l start_env =
  se_files :: file_env
  se_config :: "log_config option"
  se_logger :: "'l option"
  se_time :: int
  se_dropped :: u32
  se_uptime_ms :: int
  se_uptime_ticks :: int
  se_ms_to_ticks :: "nat \<Rightarrow> int"
  se_sync_interval_ms :: int

record 'r tick_env =
  te_files :: file_env
  te_time :: int
  te_readings :: "'r list"
  te_raw :: "'r list list"
  te_raw_capacity :: nat
  te_dropped :: u32
  te_rotate_ms :: int
  te_sync_ms :: int
  te_now_ticks :: int
  te_tick_us :: u32
  te_stop_began :: bool

section \<open>Names of log files\<close>

definition LOGS_DIR :: string where "LOGS_DIR = ''logs''"

definition PATH_MAX_LENGTH :: nat where "PATH_MAX_LENGTH = 128"

definition RANDOM_SUFFIX_MODULO :: nat where "RANDOM_SUFFIX_MODULO = 10000"

definition digit :: "nat \<Rightarrow> char" where "digit n = char_of (48 + n mod 10)"

definition four_digits :: "nat \<Rightarrow> string" where
  "four_digits n = [digit (n div 1000), digit (n div 100), digit (n div 10), digit n]"

text \<open>\<open>stamp\<close> is the date and time of the start in UTC, as \<open>gmtime_r\<close> and \<open>snprintf\<close> print it, with the final \<open>Z\<close>.\<close>

definition GetFilePath :: "string \<Rightarrow> string \<Rightarrow> string \<Rightarrow> nat \<Rightarrow> string \<Rightarrow> string" where
  "GetFilePath directory prefix_str stamp random_value extension =
     foldl (\<lambda>path part. snd (Str_Append PATH_MAX_LENGTH part path)) []
       ([directory, ''/''] @ (if prefix_str = [] then [] else [prefix_str, ''_'']) @
        [stamp @ ''_'' @ four_digits (random_value mod RANDOM_SUFFIX_MODULO), ''.'', extension])"

section \<open>Files of a session\<close>

definition SetOpenFile :: "string \<Rightarrow> ('l, 'v) log_writer \<Rightarrow> ('l, 'v) log_writer" where
  "SetOpenFile path w = w\<lparr>lw_open_file_path := path\<rparr>"

definition ClearOpenFile :: "('l, 'v) log_writer \<Rightarrow> ('l, 'v) log_writer" where
  "ClearOpenFile w = w\<lparr>lw_open_file_path := [], lw_open_file_bytes := 0\<rparr>"

definition SetOpenFileBytes :: "nat \<Rightarrow> ('l, 'v) log_writer \<Rightarrow> ('l, 'v) log_writer" where
  "SetOpenFileBytes n w = w\<lparr>lw_open_file_bytes := n\<rparr>"

definition SetSession :: "int option \<Rightarrow> ('l, 'v) log_writer \<Rightarrow> ('l, 'v) log_writer" where
  "SetSession since w = w\<lparr>lw_session := since\<rparr>"

definition PublishStatus :: "bool \<Rightarrow> LoggingStatusReason \<Rightarrow> ('l, 'v) log_writer \<Rightarrow> ('l, 'v) log_writer" where
  "PublishStatus is_active reason w =
     w\<lparr>lw_published := lw_published w @ [(is_active, if is_active then None else Some reason)]\<rparr>"

definition IsOpenFile :: "string \<Rightarrow> ('l, 'v) log_writer \<Rightarrow> bool" where
  "IsOpenFile path w = IsSameEntryIgnoringCase path (lw_open_file_path w)"

definition HasMinimumFreeSpace :: "'v zephyr_fs \<Rightarrow> ('l, 'v) log_writer \<Rightarrow> bool \<times> ('l, 'v) log_writer" where
  "HasMinimumFreeSpace Z w =
     (if lw_min_free_space w = 0 then (True, w)
      else case GetTotalSpace Z (lw_fs w) of (total_bytes, s1) \<Rightarrow>
        case GetUsedSpace Z s1 of (used_bytes, s2) \<Rightarrow>
          ((if total_bytes > used_bytes then total_bytes - used_bytes else 0) \<ge> lw_min_free_space w, w\<lparr>lw_fs := s2\<rparr>))"

text \<open>The search for a name that is not taken, with ten random numbers at most.\<close>

fun find_name :: "'v zephyr_fs \<Rightarrow> (nat \<Rightarrow> string) \<Rightarrow> nat list \<Rightarrow> 'v fs_service \<Rightarrow> string \<times> 'v fs_service" where
  "find_name Z name [] s = ([], s)"
| "find_name Z name (i # is) s =
     (case Fs_Exists Z (name i) s of (found, s1) \<Rightarrow> if \<not> found then (name i, s1) else find_name Z name is s1)"

definition OpenLogFile ::
  "'v zephyr_fs \<Rightarrow> ('l, 'r, 'v) logger_if \<Rightarrow> file_env \<Rightarrow> int \<Rightarrow> ('l, 'v) log_writer \<Rightarrow> bool \<times> ('l, 'v) log_writer" where
  "OpenLogFile Z L E start_time w =
     (case find_name Z (\<lambda>i. GetFilePath LOGS_DIR (fe_prefix E) (fe_stamp E start_time) (fe_random E i) (lg_extension L)) [0..<10] (lw_fs w) of
        (path, s1) \<Rightarrow>
        let w1 = w\<lparr>lw_file_path := path, lw_fs := s1\<rparr>
        in if path = [] then (False, w1)
           else let w2 = (SetOpenFile path w1)\<lparr>lw_file_start := start_time\<rparr>
                in case stream_open Z (fe_write_buffer_size E) (fe_available E \<and> Fs_IsAvailable Z s1) path OM_Write s1 of
                     (Inl _, s2) \<Rightarrow> (False, ClearOpenFile (w2\<lparr>lw_stream := None, lw_fs := s2\<rparr>))
                   | (Inr b, s2) \<Rightarrow>
                       (case lg_start L start_time (the (lw_logger w)) b (fs_volume s2) of (started, l1, b1, v1) \<Rightarrow>
                          let w3 = w2\<lparr>lw_logger := Some l1, lw_stream := Some b1, lw_fs := s2\<lparr>fs_volume := v1\<rparr>\<rparr>
                          in if started \<noteq> Some True
                             then case stream_close Z b1 v1 of (_, _, v2) \<Rightarrow>
                                    case DeleteFile Z path (s2\<lparr>fs_volume := v2\<rparr>) of (_, s3) \<Rightarrow>
                                      (False, ClearOpenFile (w3\<lparr>lw_stream := None, lw_fs := s3\<rparr>))
                             else (True, SetOpenFileBytes (lg_bytes L l1) w3)))"

text \<open>Times are nanoseconds since the epoch; \<open>duration_cast\<close> to milliseconds truncates towards zero.\<close>

definition to_ms :: "int \<Rightarrow> int" where
  "to_ms t = (if t < 0 then - ((- t) div 1000000) else t div 1000000)"

text \<open>The name of a path without its directory.\<close>

definition file_name :: "string \<Rightarrow> string" where
  "file_name path = rev (takeWhile (\<lambda>c. c \<noteq> CHR ''/'') (rev path))"

definition RecordEndTime :: "LogWriterTask \<Rightarrow> ('l, 'v) log_writer \<Rightarrow> ('l, 'v) log_writer" where
  "RecordEndTime t w =
     (if \<not> lw_keeps_ends w then w
      else w\<lparr>lw_ends := lw_ends w @ [(file_name (lw_file_path w),
             to_ms (if lt_last_tick_time t > lw_file_start w then lt_last_tick_time t else lw_file_start w))]\<rparr>)"

definition CloseLogFile ::
  "'v zephyr_fs \<Rightarrow> ('l, 'r, 'v) logger_if \<Rightarrow> LogWriterTask \<Rightarrow> ('l, 'v) log_writer \<Rightarrow> bool \<times> LogWriterTask \<times> ('l, 'v) log_writer" where
  "CloseLogFile Z L t w =
     (case lw_stream w of
        None \<Rightarrow> (False, t, ClearOpenFile w)
      | Some b \<Rightarrow>
          let l = the (lw_logger w);
              t1 = t\<lparr>lt_closed_files_bytes := lt_closed_files_bytes t + lg_bytes L l\<rparr>
          in case lg_stop L l b (fs_volume (lw_fs w)) of (is_finalized, l1, b1, v1) \<Rightarrow>
               case stream_close Z b1 v1 of (_, b2, v2) \<Rightarrow>
                 let t2 = t1\<lparr>lt_closed_files_stream_writes := lt_closed_files_stream_writes t1 + fb_write_calls b2\<rparr>;
                     w1 = ClearOpenFile (w\<lparr>lw_logger := Some l1, lw_stream := None, lw_fs := (lw_fs w)\<lparr>fs_volume := v2\<rparr>\<rparr>)
                 in (is_finalized, t2, if is_finalized then RecordEndTime t2 w1 else w1))"

section \<open>The tick\<close>

definition count_error :: "LogWriterTask \<Rightarrow> LogWriterTask" where
  "count_error t = t\<lparr>lt_stats := (lt_stats t)\<lparr>ls_write_errors := ls_write_errors (lt_stats t) + 1\<rparr>\<rparr>"

definition RotateFile ::
  "'v zephyr_fs \<Rightarrow> ('l, 'r, 'v) logger_if \<Rightarrow> 'r tick_env \<Rightarrow> LogWriterTask \<Rightarrow> ('l, 'v) log_writer \<Rightarrow>
   LoggingStatusReason option \<times> LogWriterTask \<times> ('l, 'v) log_writer" where
  "RotateFile Z L E t w =
     (case HasMinimumFreeSpace Z w of (enough, w1) \<Rightarrow>
        if \<not> enough then (Some LS_NoSpace, t, w1)
        else case CloseLogFile Z L t w1 of (closed, t1, w2) \<Rightarrow>
          let t2 = (if closed then t1 else count_error t1)
          in case OpenLogFile Z L (te_files E) (lt_last_tick_time t2) w2 of (opened, w3) \<Rightarrow>
               if \<not> opened then (Some LS_RotationFailed, count_error t2, w3)
               else (None, t2\<lparr>lt_is_rotation_due := False, lt_last_sync_ms := te_rotate_ms E,
                       lt_stats := (lt_stats t2)\<lparr>ls_rotations := ls_rotations (lt_stats t2) + 1\<rparr>\<rparr>, w3))"

definition EndSession :: "LoggingStatusReason \<Rightarrow> ('l, 'v) log_writer \<Rightarrow> ('l, 'v) log_writer" where
  "EndSession reason w = PublishStatus False reason (w\<lparr>lw_has_failed := True\<rparr>)"

text \<open>
  The loops over the readings. Their first result is false when a call threw; the number is how many were logged
  up to then.
\<close>

fun log_readings ::
  "('l, 'r, 'v) logger_if \<Rightarrow> int \<Rightarrow> 'r list \<Rightarrow> 'l \<Rightarrow> stream_buf \<Rightarrow> 'v \<Rightarrow> bool \<times> u32 \<times> 'l \<times> stream_buf \<times> 'v" where
  "log_readings L time_now [] l b v = (True, 0, l, b, v)"
| "log_readings L time_now (r # rs) l b v =
     (case lg_log L time_now r l b v of (res, l1, b1, v1) \<Rightarrow>
        (case res of
           None \<Rightarrow> (False, 0, l1, b1, v1)
         | Some logged \<Rightarrow> (case log_readings L time_now rs l1 b1 v1 of (ok, n, rest) \<Rightarrow> (ok, n + (if logged then 1 else 0), rest))))"

text \<open>
  The drain takes raw frames until a take does not fill the buffer; the list holds what the takes find, and a take
  beyond it finds nothing. The second result is whether a take filled the buffer.
\<close>

fun drain_raw ::
  "('l, 'r, 'v) logger_if \<Rightarrow> int \<Rightarrow> nat \<Rightarrow> 'r list list \<Rightarrow> 'l \<Rightarrow> stream_buf \<Rightarrow> 'v \<Rightarrow>
   bool \<times> bool \<times> u32 \<times> 'l \<times> stream_buf \<times> 'v" where
  "drain_raw L time_now capacity [] l b v = (True, False, 0, l, b, v)"
| "drain_raw L time_now capacity (batch # batches) l b v =
     (case log_readings L time_now batch l b v of (ok, n, l1, b1, v1) \<Rightarrow>
        if \<not> ok then (False, length batch = capacity, n, l1, b1, v1)
        else if length batch = capacity
        then case drain_raw L time_now capacity batches l1 b1 v1 of (ok2, _, n2, rest) \<Rightarrow> (ok2, True, n + n2, rest)
        else (True, False, n, l1, b1, v1))"

text \<open>The sync of a tick: whether the session can go on.\<close>

definition sync_tick ::
  "'v zephyr_fs \<Rightarrow> 'r tick_env \<Rightarrow> LogWriterTask \<Rightarrow> stream_buf \<Rightarrow> 'v \<Rightarrow> bool \<times> LogWriterTask \<times> stream_buf \<times> 'v" where
  "sync_tick Z E t b v =
     (if lt_sync_interval_ms t > 0 \<and> te_sync_ms E - lt_last_sync_ms t \<ge> lt_sync_interval_ms t
      then case stream_sync Z b v of (rc, b1, v1) \<Rightarrow>
             let t1 = t\<lparr>lt_last_sync_ms := te_sync_ms E\<rparr>
             in if rc \<noteq> 0 then (False, count_error t1, b1, v1)
                else (True, t1\<lparr>lt_stats := (lt_stats t1)\<lparr>ls_syncs := ls_syncs (lt_stats t1) + 1\<rparr>\<rparr>, b1, v1)
      else (True, t, b, v))"

text \<open>What a tick writes into the open file: the reason to end the session, if any, and whether a take filled the buffer.\<close>

definition tick_write ::
  "'v zephyr_fs \<Rightarrow> ('l, 'r, 'v) logger_if \<Rightarrow> 'r tick_env \<Rightarrow> LogWriterTask \<Rightarrow> ('l, 'v) log_writer \<Rightarrow>
   LoggingStatusReason option \<times> bool \<times> LogWriterTask \<times> ('l, 'v) log_writer" where
  "tick_write Z L E t w =
     (let t1 = t\<lparr>lt_last_tick_time := te_time E\<rparr>;
          put = (\<lambda>l b v. w\<lparr>lw_logger := Some l, lw_stream := Some b, lw_fs := (lw_fs w)\<lparr>fs_volume := v\<rparr>\<rparr>)
      in case log_readings L (te_time E) (te_readings E) (the (lw_logger w)) (the (lw_stream w)) (fs_volume (lw_fs w)) of
           (ok1, n1, l1, b1, v1) \<Rightarrow>
           let t2 = t1\<lparr>lt_stats := (lt_stats t1)\<lparr>ls_readings := ls_readings (lt_stats t1) + n1\<rparr>\<rparr>
           in if \<not> ok1 then (Some LS_WriteFailed, False, count_error t2, put l1 b1 v1)
              else case drain_raw L (te_time E) (te_raw_capacity E) (te_raw E) l1 b1 v1 of (ok2, full, n2, l2, b2, v2) \<Rightarrow>
                let t3 = t2\<lparr>lt_stats := (lt_stats t2)\<lparr>ls_frames := ls_frames (lt_stats t2) + n2\<rparr>\<rparr>
                in if \<not> ok2 then (Some LS_WriteFailed, full, count_error t3, put l2 b2 v2)
                   else case sync_tick Z E t3 b2 v2 of (ok3, t4, b3, v3) \<Rightarrow>
                     if \<not> ok3 then (Some LS_WriteFailed, full, t4, put l2 b3 v3)
                     else (None, full, t4\<lparr>lt_is_rotation_due := 0 < lt_max_log_size t4 \<and> lt_max_log_size t4 \<le> lg_bytes L l2\<rparr>,
                           SetOpenFileBytes (lg_bytes L l2) (put l2 b3 v3)))"

text \<open>The counters of a tick that wrote its readings.\<close>

definition tick_stats :: "('l, 'r, 'v) logger_if \<Rightarrow> 'r tick_env \<Rightarrow> ('l, 'v) log_writer \<Rightarrow> LogWriterTask \<Rightarrow> LogWriterTask" where
  "tick_stats L E w t =
     (let st = lt_stats t
      in t\<lparr>lt_stats := st\<lparr>ls_ticks := ls_ticks st + 1,
              ls_frames_dropped := ls_frames_dropped st +
                (if te_dropped E \<ge> lt_last_dropped_count t then te_dropped E - lt_last_dropped_count t else te_dropped E),
              ls_bytes := lt_closed_files_bytes t + lg_bytes L (the (lw_logger w)),
              ls_stream_writes := lt_closed_files_stream_writes t + fb_write_calls (the (lw_stream w)),
              ls_tick_last_us := te_tick_us E, ls_tick_max_us := max (ls_tick_max_us st) (te_tick_us E)\<rparr>,
           lt_last_dropped_count := te_dropped E\<rparr>)"

text \<open>The next deadline; the interval is positive, since a valid configuration has at least ten milliseconds.\<close>

definition advance_deadline :: "'r tick_env \<Rightarrow> bool \<Rightarrow> LogWriterTask \<Rightarrow> LogWriterTask" where
  "advance_deadline E is_drain_full t =
     (let due = lt_next_deadline t + lt_interval_ticks t;
          missed = (if due \<le> te_now_ticks E then (te_now_ticks E - due) div lt_interval_ticks t + 1 else 0);
          phase = due + missed * lt_interval_ticks t
      in t\<lparr>lt_next_deadline := (if is_drain_full then min phase (te_now_ticks E + lt_burst_interval_ticks t) else phase),
           lt_stats := (lt_stats t)\<lparr>ls_overruns := ls_overruns (lt_stats t) + word_of_int missed\<rparr>\<rparr>)"

definition ProcessTick ::
  "'v zephyr_fs \<Rightarrow> ('l, 'r, 'v) logger_if \<Rightarrow> 'r tick_env \<Rightarrow> LogWriterTask \<Rightarrow> ('l, 'v) log_writer \<Rightarrow>
   int option \<times> LogWriterTask \<times> ('l, 'v) log_writer" where
  "ProcessTick Z L E t w =
     (if \<not> lt_is_running t then (None, t, w)
      else case (if lt_is_rotation_due t then RotateFile Z L E t w else (None, t, w)) of (failure, t1, w1) \<Rightarrow>
        (case failure of
           Some reason \<Rightarrow> (None, t1, EndSession reason w1)
         | None \<Rightarrow>
             (case tick_write Z L E t1 w1 of (failed, is_drain_full, t2, w2) \<Rightarrow>
                (case failed of
                   Some reason \<Rightarrow> (None, t2, EndSession reason w2)
                 | None \<Rightarrow>
                     let t3 = advance_deadline E is_drain_full (tick_stats L E w2 t2);
                         t4 = t3\<lparr>lt_is_running := \<not> te_stop_began E\<rparr>
                     in (if te_stop_began E then None else Some (lt_next_deadline t4), t4, w2)))))"

text \<open>The work queue runs an armed tick and arms it again with the deadline it returns.\<close>

definition run_tick ::
  "'v zephyr_fs \<Rightarrow> ('l, 'r, 'v) logger_if \<Rightarrow> 'r tick_env \<Rightarrow> ('l, 'v) log_writer \<Rightarrow> ('l, 'v) log_writer" where
  "run_tick Z L E w =
     (case (lw_scheduled w, lw_task w) of
        (Some _, Some t) \<Rightarrow> (case ProcessTick Z L E t (w\<lparr>lw_scheduled := None\<rparr>) of (r, t1, w1) \<Rightarrow>
           w1\<lparr>lw_task := Some t1, lw_scheduled := r\<rparr>)
      | _ \<Rightarrow> w)"

section \<open>The transitions\<close>

definition MIN_BURST_INTERVAL_MS :: nat where "MIN_BURST_INTERVAL_MS = 10"

definition LogWriterService_new :: "'v fs_service \<Rightarrow> 64 word \<Rightarrow> ('l, 'v) log_writer" where
  "LogWriterService_new s min_free_space_bytes =
     \<lparr>lw_fs = s, lw_task = None, lw_has_factory = False, lw_logger = None, lw_stream = None, lw_file_path = [],
      lw_file_start = 0, lw_open_file_path = [], lw_open_file_bytes = 0, lw_session = None, lw_has_failed = False,
      lw_stop_reason = LS_Stopped, lw_min_free_space = min_free_space_bytes, lw_max_size_override = None,
      lw_keeps_ends = False, lw_scheduled = None, lw_published = [], lw_ends = []\<rparr>"

definition SetLoggerFactory :: "('l, 'v) log_writer \<Rightarrow> ('l, 'v) log_writer" where
  "SetLoggerFactory w = w\<lparr>lw_has_factory := True\<rparr>"

definition SetSizeLimitsForTesting :: "nat \<Rightarrow> 64 word \<Rightarrow> ('l, 'v) log_writer \<Rightarrow> ('l, 'v) log_writer" where
  "SetSizeLimitsForTesting max_log_size_bytes min_free_space_bytes w =
     w\<lparr>lw_max_size_override := Some max_log_size_bytes, lw_min_free_space := min_free_space_bytes\<rparr>"

definition SetEndTimes :: "bool \<Rightarrow> ('l, 'v) log_writer \<Rightarrow> ('l, 'v) log_writer" where
  "SetEndTimes keeps w = w\<lparr>lw_keeps_ends := keeps\<rparr>"

text \<open>The flag is whether the work queue could be set up.\<close>

definition LogWriter_DoInitialize :: "bool \<Rightarrow> ('l, 'v) log_writer \<Rightarrow> bool \<times> ('l, 'v) log_writer" where
  "LogWriter_DoInitialize queue_ready w = (if \<not> queue_ready then (False, w) else (True, w\<lparr>lw_task := Some LogWriterTask_new\<rparr>))"

text \<open>The settings of a session.\<close>

definition session_task :: "'l start_env \<Rightarrow> log_config \<Rightarrow> nat option \<Rightarrow> LogWriterTask \<Rightarrow> LogWriterTask" where
  "session_task E c max_size_override t =
     t\<lparr>lt_interval_ticks := se_ms_to_ticks E (lc_interval_ms c),
       lt_burst_interval_ticks := se_ms_to_ticks E (max (lc_interval_ms c div 4) MIN_BURST_INTERVAL_MS),
       lt_max_log_size := (case max_size_override of Some n \<Rightarrow> n | None \<Rightarrow> lc_max_log_size_mb c * 1024 * 1024),
       lt_is_rotation_due := False, lt_stats := LogWriterStats_zero, lt_closed_files_bytes := 0,
       lt_closed_files_stream_writes := 0, lt_last_dropped_count := se_dropped E,
       lt_sync_interval_ms := se_sync_interval_ms E, lt_last_sync_ms := se_uptime_ms E, lt_is_running := True,
       lt_next_deadline := se_uptime_ticks E + se_ms_to_ticks E (lc_interval_ms c)\<rparr>"

text \<open>The directory of the logs is created when it is missing.\<close>

definition ensure_logs :: "'v zephyr_fs \<Rightarrow> 'v fs_service \<Rightarrow> bool \<times> 'v fs_service" where
  "ensure_logs Z s =
     (case Fs_Exists Z LOGS_DIR s of (found, s1) \<Rightarrow> if found then (True, s1) else CreateDirectory Z LOGS_DIR s1)"

definition LogWriter_DoStart ::
  "'v zephyr_fs \<Rightarrow> ('l, 'r, 'v) logger_if \<Rightarrow> 'l start_env \<Rightarrow> ('l, 'v) log_writer \<Rightarrow> bool \<times> ('l, 'v) log_writer" where
  "LogWriter_DoStart Z L E w =
     (if \<not> lw_has_factory w then (False, w)
      else if \<not> (fe_available (se_files E) \<and> Fs_IsAvailable Z (lw_fs w)) then (False, w)
      else case ensure_logs Z (lw_fs w) of (has_dir, s1) \<Rightarrow>
        let w1 = w\<lparr>lw_fs := s1\<rparr>
        in if \<not> has_dir then (False, w1)
           else (case se_config E of
                   None \<Rightarrow> (False, w1)
                 | Some c \<Rightarrow>
                     (case HasMinimumFreeSpace Z w1 of (enough, w2) \<Rightarrow>
                        if \<not> enough then (False, w2)
                        else let w3 = w2\<lparr>lw_logger := se_logger E\<rparr>
                             in case (se_logger E, lw_task w3) of
                                  (None, _) \<Rightarrow> (False, w3)
                                | (Some _, None) \<Rightarrow> (False, w3)
                                | (Some _, Some t) \<Rightarrow>
                                    (case OpenLogFile Z L (se_files E) (se_time E) w3 of (opened, w4) \<Rightarrow>
                                       if \<not> opened then (False, w4)
                                       else let t1 = session_task E c (lw_max_size_override w4) t;
                                                w5 = SetSession (Some (to_ms (se_time E))) (w4\<lparr>lw_has_failed := False\<rparr>);
                                                w6 = PublishStatus True LS_Stopped w5
                                            in (True, w6\<lparr>lw_task := Some t1, lw_scheduled := Some (lt_next_deadline t1)\<rparr>)))))"

definition LogWriter_DoStop ::
  "'v zephyr_fs \<Rightarrow> ('l, 'r, 'v) logger_if \<Rightarrow> ('l, 'v) log_writer \<Rightarrow> bool \<times> ('l, 'v) log_writer" where
  "LogWriter_DoStop Z L w =
     (case lw_task w of
        None \<Rightarrow> (True, w)
      | Some t \<Rightarrow>
          let t1 = t\<lparr>lt_is_running := False\<rparr>
          in case CloseLogFile Z L t1 (w\<lparr>lw_scheduled := None\<rparr>) of (_, t2, w1) \<Rightarrow>
               (True, PublishStatus False (lw_stop_reason w) (SetSession None (w1\<lparr>lw_task := Some t2\<rparr>))))"

text \<open>The work of a transition as \<open>ServiceBase\<close> calls it.\<close>

definition writer_work :: "('s \<Rightarrow> bool \<times> 's) \<Rightarrow> 's do_work" where
  "writer_work f sb = (case f (sb_work sb) of (ok, s) \<Rightarrow> (Inr ok, sb\<lparr>sb_work := s\<rparr>))"

type_synonym ('l, 'v) writer_service = "('l, 'v) log_writer ServiceBase"

definition LogWriter_Start ::
  "'v zephyr_fs \<Rightarrow> ('l, 'r, 'v) logger_if \<Rightarrow> 'l start_env \<Rightarrow> ('l, 'v) writer_service \<Rightarrow> bool result \<times> ('l, 'v) writer_service" where
  "LogWriter_Start Z L E = Service_Start (writer_work (LogWriter_DoStart Z L E))"

definition LogWriter_Stop ::
  "'v zephyr_fs \<Rightarrow> ('l, 'r, 'v) logger_if \<Rightarrow> ('l, 'v) writer_service \<Rightarrow> bool result \<times> ('l, 'v) writer_service" where
  "LogWriter_Stop Z L = Service_Stop (writer_work (LogWriter_DoStop Z L))"

definition StopWithReason ::
  "'v zephyr_fs \<Rightarrow> ('l, 'r, 'v) logger_if \<Rightarrow> LoggingStatusReason \<Rightarrow> ('l, 'v) writer_service \<Rightarrow>
   bool result \<times> ('l, 'v) writer_service" where
  "StopWithReason Z L reason sb =
     (case LogWriter_Stop Z L (sb\<lparr>sb_work := (sb_work sb)\<lparr>lw_stop_reason := reason\<rparr>\<rparr>) of (r, sb1) \<Rightarrow>
        (r, sb1\<lparr>sb_work := (sb_work sb1)\<lparr>lw_stop_reason := LS_Stopped\<rparr>\<rparr>))"

record LogSessionInfo =
  li_since_ms :: int
  li_file_name :: string
  li_file_bytes :: nat

definition MAX_FILE_NAME_LENGTH :: nat where "MAX_FILE_NAME_LENGTH = 63"

definition GetSessionInfo :: "('l, 'v) log_writer \<Rightarrow> LogSessionInfo option" where
  "GetSessionInfo w =
     (case lw_session w of
        None \<Rightarrow> None
      | Some since_ms \<Rightarrow>
          Some (if lw_open_file_path w = [] then \<lparr>li_since_ms = since_ms, li_file_name = [], li_file_bytes = 0\<rparr>
                else \<lparr>li_since_ms = since_ms, li_file_name = take MAX_FILE_NAME_LENGTH (file_name (lw_open_file_path w)),
                      li_file_bytes = lw_open_file_bytes w\<rparr>))"

definition GetStats :: "('l, 'v) log_writer \<Rightarrow> LogWriterStats" where
  "GetStats w = (case lw_task w of None \<Rightarrow> LogWriterStats_zero | Some t \<Rightarrow> lt_stats t)"

end
