(* ===== verification/Log_Session.thy ===== *)
theory Log_Session
  imports Log_Writer
begin

text \<open>
  What the log writer promises: how its ticks are timed, what a session publishes, and what is open, armed or in
  session in every state that transitions and ticks can reach, whatever the card, the logger and the clocks do.
\<close>

section \<open>Frames of the operations\<close>

text \<open>What opening, closing and writing files leave alone.\<close>

definition lw_control :: "('l, 'v) log_writer \<Rightarrow>
  bool \<times> int option \<times> bool \<times> LoggingStatusReason \<times> int option \<times> (bool \<times> LoggingStatusReason option) list \<times> LogWriterTask option" where
  "lw_control w = (lw_has_factory w, lw_session w, lw_has_failed w, lw_stop_reason w, lw_scheduled w, lw_published w, lw_task w)"

definition lw_closed :: "('l, 'v) log_writer \<Rightarrow> bool" where
  "lw_closed w \<longleftrightarrow> lw_stream w = None \<and> lw_open_file_path w = []"

definition lw_open :: "('l, 'v) log_writer \<Rightarrow> bool" where
  "lw_open w \<longleftrightarrow> lw_stream w \<noteq> None \<and> lw_logger w \<noteq> None \<and> lw_open_file_path w \<noteq> []"

definition task_timing :: "LogWriterTask \<Rightarrow> bool \<times> int \<times> int \<times> int \<times> u32" where
  "task_timing t = (lt_is_running t, lt_interval_ticks t, lt_burst_interval_ticks t, lt_next_deadline t, ls_overruns (lt_stats t))"

lemma count_error_timing [simp]: "task_timing (count_error t) = task_timing t"
  by (simp add: task_timing_def count_error_def)

lemma HasMinimumFreeSpace_frame:
  assumes "HasMinimumFreeSpace Z w = (ok, w')"
  shows "lw_control w' = lw_control w" "lw_closed w' = lw_closed w" "lw_open w' = lw_open w"
  using assms by (auto simp: HasMinimumFreeSpace_def lw_control_def lw_closed_def lw_open_def split: if_splits prod.splits)

lemma OpenLogFile_frame:
  assumes "OpenLogFile Z L E start_time w = (ok, w')"
  shows "lw_control w' = lw_control w"
  using assms
  by (auto simp: OpenLogFile_def Let_def lw_control_def SetOpenFile_def ClearOpenFile_def SetOpenFileBytes_def
      split: if_splits prod.splits sum.splits)

lemma OpenLogFile_outcome:
  assumes "OpenLogFile Z L E start_time w = (ok, w')" "lw_closed w"
  shows "if ok then lw_open w' else lw_closed w'"
  using assms
  by (auto simp: OpenLogFile_def Let_def lw_closed_def lw_open_def SetOpenFile_def ClearOpenFile_def SetOpenFileBytes_def
      split: if_splits prod.splits sum.splits)

lemma CloseLogFile_frame:
  assumes "CloseLogFile Z L t w = (ok, t', w')"
  shows "lw_control w' = lw_control w" "lw_closed w'" "task_timing t' = task_timing t"
  using assms
  by (auto simp: CloseLogFile_def Let_def lw_control_def lw_closed_def task_timing_def ClearOpenFile_def RecordEndTime_def
      split: if_splits prod.splits option.splits)

lemma RotateFile_outcome:
  assumes "RotateFile Z L E t w = (failure, t', w')" "lw_open w"
  shows "lw_control w' = lw_control w" "task_timing t' = task_timing t"
    "lw_open w' \<or> failure \<noteq> None \<and> lw_closed w'" "failure \<in> {None, Some LS_NoSpace, Some LS_RotationFailed}"
proof -
  obtain enough w1 where h: "HasMinimumFreeSpace Z w = (enough, w1)" by (metis prod.exhaust)
  obtain closed t1 w2 where c: "CloseLogFile Z L t w1 = (closed, t1, w2)" by (metis prod.exhaust)
  define t2 where "t2 = (if closed then t1 else count_error t1)"
  obtain opened w3 where o: "OpenLogFile Z L (te_files E) (lt_last_tick_time t2) w2 = (opened, w3)" by (metis prod.exhaust)
  have t2: "task_timing t2 = task_timing t" using CloseLogFile_frame(3) [OF c] by (simp add: t2_def)
  note frames = HasMinimumFreeSpace_frame [OF h] CloseLogFile_frame [OF c] OpenLogFile_frame [OF o] OpenLogFile_outcome [OF o]
  note r = assms(1) [unfolded RotateFile_def h prod.case c t2_def [symmetric] Let_def o]
  have upd: "task_timing (t2\<lparr>lt_is_rotation_due := a, lt_last_sync_ms := b, lt_stats := (lt_stats t2)\<lparr>ls_rotations := n\<rparr>\<rparr>) = task_timing t2" for a b n
    by (simp add: task_timing_def)
  show "lw_control w' = lw_control w" using r frames by (auto split: if_splits)
  show "task_timing t' = task_timing t" using r t2 upd by (auto split: if_splits)
  show "lw_open w' \<or> failure \<noteq> None \<and> lw_closed w'" using r frames assms(2) by (auto split: if_splits)
  show "failure \<in> {None, Some LS_NoSpace, Some LS_RotationFailed}" using r by (auto split: if_splits)
qed

lemma sync_tick_timing: "sync_tick Z E t b v = (ok, t', b', v') \<Longrightarrow> task_timing t' = task_timing t"
  by (auto simp: sync_tick_def Let_def split: if_splits prod.splits) (auto simp: task_timing_def)

lemma tick_write_outcome:
  assumes "tick_write Z L E t w = (failed, full, t', w')" "lw_open w"
  shows "lw_control w' = lw_control w" "task_timing t' = task_timing t" "lw_open w'" "failed \<in> {None, Some LS_WriteFailed}"
proof -
  have "lw_control w' = lw_control w \<and> lw_open w' \<and> failed \<in> {None, Some LS_WriteFailed}"
    using assms by (auto simp: tick_write_def Let_def lw_control_def lw_open_def SetOpenFileBytes_def split: if_splits prod.splits)
  then show "lw_control w' = lw_control w" "lw_open w'" "failed \<in> {None, Some LS_WriteFailed}" by auto
  show "task_timing t' = task_timing t"
    using assms(1) by (auto simp: tick_write_def Let_def split: if_splits prod.splits dest!: sync_tick_timing) (auto simp: task_timing_def)
qed

section \<open>Deadlines\<close>

lemma tick_stats_timing [simp]: "task_timing (tick_stats L E w t) = task_timing t"
  by (simp add: tick_stats_def task_timing_def Let_def)

text \<open>The first point of a grid after a time.\<close>

lemma grid_point:
  fixes step :: int
  assumes "0 < step" "due \<le> now"
  defines "k \<equiv> (now - due) div step + 1"
  shows "now < due + k * step" "due + k * step \<le> now + step" "1 \<le> k"
proof -
  have m: "(now - due) div step * step + (now - due) mod step = now - due" by simp
  have "0 \<le> (now - due) mod step" "(now - due) mod step < step" using assms(1) by simp_all
  moreover have "k * step = (now - due) div step * step + step" by (simp add: k_def distrib_right)
  ultimately show "now < due + k * step" "due + k * step \<le> now + step" using m by linarith+
  show "1 \<le> k" using assms by (simp add: k_def pos_imp_zdiv_nonneg_iff)
qed

lemma advance_deadline_grid:
  fixes t :: LogWriterTask and E :: "'r tick_env" and full :: bool
  defines "t' \<equiv> advance_deadline E full t"
  assumes "0 < lt_interval_ticks t"
  shows "\<exists>k. 0 \<le> k \<and> (k = 0 \<or> lt_next_deadline t + k * lt_interval_ticks t \<le> te_now_ticks E) \<and>
      te_now_ticks E < lt_next_deadline t + (k + 1) * lt_interval_ticks t \<and>
      lt_next_deadline t' = (if full then min (lt_next_deadline t + (k + 1) * lt_interval_ticks t) (te_now_ticks E + lt_burst_interval_ticks t)
        else lt_next_deadline t + (k + 1) * lt_interval_ticks t) \<and>
      ls_overruns (lt_stats t') = ls_overruns (lt_stats t) + word_of_int k"
proof -
  define due where "due = lt_next_deadline t + lt_interval_ticks t"
  define k where "k = (if due \<le> te_now_ticks E then (te_now_ticks E - due) div lt_interval_ticks t + 1 else 0)"
  have phase: "due + k * lt_interval_ticks t = lt_next_deadline t + (k + 1) * lt_interval_ticks t"
    by (simp add: due_def distrib_right)
  have "0 \<le> k \<and> (k = 0 \<or> lt_next_deadline t + k * lt_interval_ticks t \<le> te_now_ticks E) \<and> te_now_ticks E < due + k * lt_interval_ticks t"
  proof (cases "due \<le> te_now_ticks E")
    case True
    then show ?thesis using grid_point [OF assms(2) True] by (simp add: k_def due_def)
  qed (simp add: k_def)
  moreover have "lt_next_deadline t' = (if full then min (due + k * lt_interval_ticks t) (te_now_ticks E + lt_burst_interval_ticks t)
      else due + k * lt_interval_ticks t)" "ls_overruns (lt_stats t') = ls_overruns (lt_stats t) + word_of_int k"
    by (simp_all add: t'_def advance_deadline_def Let_def due_def k_def)
  ultimately show ?thesis unfolding phase by blast
qed

lemma advance_deadline_keeps:
  "lt_is_running (advance_deadline E full t) = lt_is_running t"
  "lt_interval_ticks (advance_deadline E full t) = lt_interval_ticks t"
  by (simp_all add: advance_deadline_def Let_def)

text \<open>How a tick ends.\<close>

definition failure_reason :: "LoggingStatusReason \<Rightarrow> bool" where
  "failure_reason r \<longleftrightarrow> r = LS_WriteFailed \<or> r = LS_NoSpace \<or> r = LS_RotationFailed"

lemma EndSession_control:
  "lw_control (EndSession r w) = (lw_has_factory w, lw_session w, True, lw_stop_reason w, lw_scheduled w,
     lw_published w @ [(False, Some r)], lw_task w)"
  "lw_closed (EndSession r w) = lw_closed w" "lw_open (EndSession r w) = lw_open w"
  by (simp_all add: EndSession_def PublishStatus_def lw_control_def lw_closed_def lw_open_def)

lemma drain_full:
  "drain_raw L time_now capacity batches l b v = (ok, full, rest) \<Longrightarrow>
   full \<longleftrightarrow> batches \<noteq> [] \<and> length (hd batches) = capacity"
  by (cases batches) (auto split: if_splits prod.splits)

text \<open>The first take of the drain fills the buffer.\<close>

definition drain_fills :: "'r tick_env \<Rightarrow> bool" where
  "drain_fills E \<longleftrightarrow> te_raw E \<noteq> [] \<and> length (hd (te_raw E)) = te_raw_capacity E"

lemma tick_write_full: "tick_write Z L E t w = (None, full, t', w') \<Longrightarrow> full = drain_fills E"
  by (auto simp: tick_write_def Let_def drain_fills_def split: if_splits prod.splits dest!: drain_full)

lemma ProcessTick_cases:
  assumes "ProcessTick Z L E t w = (r, t', w')" "lt_is_running t" "lw_open w"
  obtains (failed) reason w1 where "failure_reason reason" "r = None" "w' = EndSession reason w1" "lw_control w1 = lw_control w"
      "lw_open w1 \<or> lw_closed w1"
  | (written) t2 where "task_timing t2 = task_timing t" "lw_control w' = lw_control w" "lw_open w'"
      "t' = (advance_deadline E (drain_fills E) t2)\<lparr>lt_is_running := \<not> te_stop_began E\<rparr>"
      "r = (if te_stop_began E then None else Some (lt_next_deadline t'))"
proof -
  obtain failure t1 w1 where rot: "(if lt_is_rotation_due t then RotateFile Z L E t w else (None, t, w)) = (failure, t1, w1)"
    by (metis prod.exhaust)
  have r1: "lw_control w1 = lw_control w" "task_timing t1 = task_timing t" "lw_open w1 \<or> failure \<noteq> None \<and> lw_closed w1"
    "failure \<in> {None, Some LS_NoSpace, Some LS_RotationFailed}"
    using rot RotateFile_outcome [of Z L E t w failure t1 w1] assms(3) by (auto split: if_splits)
  obtain wfailed full t2 w2 where wr: "tick_write Z L E t1 w1 = (wfailed, full, t2, w2)" by (metis prod.exhaust)
  note p = assms(1) [unfolded ProcessTick_def rot prod.case wr Let_def]
  show ?thesis
  proof (cases failure)
    case (Some reason)
    then show ?thesis using p r1 assms(2) that(1) [of reason w1] by (auto simp: failure_reason_def)
  next
    case None
    with r1 have "lw_open w1" by simp
    note w = tick_write_outcome [OF wr this]
    show ?thesis
    proof (cases wfailed)
      case (Some reason)
      then show ?thesis using p None w r1 assms(2) that(1) [of reason w2] by (auto simp: failure_reason_def)
    next
      case wnone: None
      show ?thesis
      proof (rule that(2) [of "tick_stats L E w2 t2"])
        have "full = drain_fills E" using tick_write_full wr wnone by metis
        then show "t' = (advance_deadline E (drain_fills E) (tick_stats L E w2 t2))\<lparr>lt_is_running := \<not> te_stop_began E\<rparr>"
          "r = (if te_stop_began E then None else Some (lt_next_deadline t'))" using p None wnone assms(2) by auto
      qed (use p None wnone w r1 assms(2) in auto)
    qed
  qed
qed

section \<open>Sessions\<close>

text \<open>
  What a subscriber may see: a session starts, may fail once, and ends with a stop, which names no failure.
\<close>

datatype session_phase = Idle | Active | Failed

fun status_step :: "session_phase \<Rightarrow> bool \<times> LoggingStatusReason option \<Rightarrow> session_phase option" where
  "status_step Idle (True, None) = Some Active"
| "status_step Active (False, Some r) = Some (if failure_reason r then Failed else Idle)"
| "status_step Failed (False, Some r) = (if failure_reason r then None else Some Idle)"
| "status_step _ _ = None"

fun status_run :: "session_phase \<Rightarrow> (bool \<times> LoggingStatusReason option) list \<Rightarrow> session_phase option" where
  "status_run p [] = Some p"
| "status_run p (e # es) = Option.bind (status_step p e) (\<lambda>q. status_run q es)"

lemma status_run_snoc: "status_run p (es @ [e]) = Option.bind (status_run p es) (\<lambda>q. status_step q e)"
  by (induction es arbitrary: p) (auto simp: Option.bind_eq_Some_conv bind_eq_None_conv split: Option.bind_splits)

definition phase_of :: "('l, 'v) log_writer \<Rightarrow> session_phase" where
  "phase_of w = (if lw_session w = None then Idle else if lw_has_failed w then Failed else Active)"

text \<open>The states that setting up, transitions, ticks and their interleavings reach.\<close>

inductive writer_reach :: "'v zephyr_fs \<Rightarrow> ('l, 'r, 'v) logger_if \<Rightarrow> ('l, 'v) writer_service \<Rightarrow> bool" for Z L where
  wr_new: "writer_reach Z L (ServiceBase_new (LogWriterService_new s n))"
| wr_initialize: "writer_reach Z L sb \<Longrightarrow>
    writer_reach Z L (snd (Service_Initialize (writer_work (LogWriter_DoInitialize queue_ready)) sb))"
| wr_setup: "writer_reach Z L sb \<Longrightarrow> sb_state sb = STOPPED \<Longrightarrow>
    f \<in> {SetLoggerFactory, SetSizeLimitsForTesting a b, SetEndTimes c} \<Longrightarrow> writer_reach Z L (sb\<lparr>sb_work := f (sb_work sb)\<rparr>)"
| wr_start: "writer_reach Z L sb \<Longrightarrow> writer_reach Z L (snd (LogWriter_Start Z L SE sb))"
| wr_stop: "writer_reach Z L sb \<Longrightarrow> \<not> failure_reason r \<Longrightarrow> writer_reach Z L (snd (StopWithReason Z L r sb))"
| wr_tick: "writer_reach Z L sb \<Longrightarrow> writer_reach Z L (sb\<lparr>sb_work := run_tick Z L TE (sb_work sb)\<rparr>)"

definition writer_ok :: "('l, 'v) log_writer \<Rightarrow> bool" where
  "writer_ok w \<longleftrightarrow> (lw_open w \<or> lw_closed w) \<and>
     (lw_session w = None \<longrightarrow> lw_closed w \<and> lw_scheduled w = None) \<and>
     (lw_session w \<noteq> None \<longrightarrow> lw_task w \<noteq> None) \<and>
     (case lw_scheduled w of None \<Rightarrow> True
      | Some d \<Rightarrow> \<not> lw_has_failed w \<and> lw_open w \<and> (\<exists>t. lw_task w = Some t \<and> lt_is_running t \<and> lt_next_deadline t = d)) \<and>
     status_run Idle (lw_published w) = Some (phase_of w)"

definition service_ok :: "('l, 'v) writer_service \<Rightarrow> bool" where
  "service_ok sb \<longleftrightarrow> writer_ok (sb_work sb) \<and>
     sb_state sb = (if lw_session (sb_work sb) = None then STOPPED else RUNNING)"

lemma lw_control_simps:
  "lw_control w' = lw_control w \<longleftrightarrow> lw_has_factory w' = lw_has_factory w \<and> lw_session w' = lw_session w \<and>
     lw_has_failed w' = lw_has_failed w \<and> lw_stop_reason w' = lw_stop_reason w \<and> lw_scheduled w' = lw_scheduled w \<and>
     lw_published w' = lw_published w \<and> lw_task w' = lw_task w"
  by (auto simp: lw_control_def)

lemma writer_ok_idle:
  "lw_session w = None \<Longrightarrow> lw_control w' = lw_control w \<Longrightarrow> lw_closed w' \<Longrightarrow> writer_ok w \<Longrightarrow> writer_ok w'"
  by (auto simp: writer_ok_def lw_control_simps phase_of_def)

lemma run_tick_ok:
  assumes "writer_ok w"
  shows "writer_ok (run_tick Z L E w)" "lw_session (run_tick Z L E w) = lw_session w"
proof -
  have "writer_ok (run_tick Z L E w) \<and> lw_session (run_tick Z L E w) = lw_session w"
  proof (cases "lw_scheduled w")
    case (Some d)
    with assms obtain t where t: "lw_task w = Some t" "lt_is_running t" "\<not> lw_has_failed w" "lw_open w" "lw_session w \<noteq> None"
      by (auto simp: writer_ok_def)
    obtain r t' w' where p: "ProcessTick Z L E t (w\<lparr>lw_scheduled := None\<rparr>) = (r, t', w')" by (metis prod.exhaust)
    have run: "run_tick Z L E w = w'\<lparr>lw_task := Some t', lw_scheduled := r\<rparr>" using Some t p by (simp add: run_tick_def)
    have st: "status_run Idle (lw_published w) = Some Active" using assms t by (simp add: writer_ok_def phase_of_def)
    have o: "lw_open (w\<lparr>lw_scheduled := None\<rparr>)" using t by (simp add: lw_open_def)
    from p t(2) o show ?thesis
    proof (cases rule: ProcessTick_cases)
      case (failed reason w1)
      then have c: "lw_session w1 = lw_session w" "lw_published w1 = lw_published w" by (auto simp: lw_control_def)
      have "lw_open (run_tick Z L E w) \<or> lw_closed (run_tick Z L E w)" using failed run
        by (auto simp: lw_open_def lw_closed_def EndSession_def PublishStatus_def)
      then show ?thesis using failed c run st t
        by (auto simp: writer_ok_def phase_of_def EndSession_def PublishStatus_def status_run_snoc)
    next
      case (written t2)
      then have c: "lw_session w' = lw_session w" "lw_published w' = lw_published w" "\<not> lw_has_failed w'"
        using t by (auto simp: lw_control_def)
      have "lw_open (run_tick Z L E w)" using written run by (auto simp: lw_open_def)
      then show ?thesis using written c run st t by (auto simp: writer_ok_def phase_of_def)
    qed
  qed (use assms in \<open>simp add: run_tick_def\<close>)
  then show "writer_ok (run_tick Z L E w)" "lw_session (run_tick Z L E w) = lw_session w" by auto
qed

lemma session_task_running [simp, intro!]: "lt_is_running (session_task E c max_size_override t)"
  by (simp add: session_task_def)

lemma DoStart_outcome:
  assumes "LogWriter_DoStart Z L E w = (ok, w')" "writer_ok w" "lw_session w = None"
  shows "writer_ok w'" "ok \<longleftrightarrow> lw_session w' \<noteq> None" "ok \<longrightarrow> \<not> lw_has_failed w'"
    "lw_published w' = lw_published w @ (if ok then [(True, None)] else [])"
proof -
  obtain has_dir s1 where e: "ensure_logs Z (lw_fs w) = (has_dir, s1)" by (metis prod.exhaust)
  obtain enough w2 where h: "HasMinimumFreeSpace Z (w\<lparr>lw_fs := s1\<rparr>) = (enough, w2)" by (metis prod.exhaust)
  define w3 where "w3 = w2\<lparr>lw_logger := se_logger E\<rparr>"
  obtain opened w4 where o: "OpenLogFile Z L (se_files E) (se_time E) w3 = (opened, w4)" by (metis prod.exhaust)
  have idle: "lw_control w = lw_control w" "lw_closed w" using assms by (auto simp: writer_ok_def)
  have s1: "lw_control (w\<lparr>lw_fs := s1\<rparr>) = lw_control w" "lw_closed (w\<lparr>lw_fs := s1\<rparr>)"
    using idle by (simp_all add: lw_control_def lw_closed_def)
  have w2: "lw_control w2 = lw_control w" "lw_closed w2" using HasMinimumFreeSpace_frame [OF h] s1 by auto
  then have w3: "lw_control w3 = lw_control w" "lw_closed w3" by (simp_all add: w3_def lw_control_def lw_closed_def)
  have w4: "lw_control w4 = lw_control w" "if opened then lw_open w4 else lw_closed w4"
    using OpenLogFile_frame [OF o] OpenLogFile_outcome [OF o w3(2)] w3(1) by auto
  have st: "status_run Idle (lw_published w) = Some Idle" using assms(2,3) by (simp add: writer_ok_def phase_of_def)
  define fin where "fin t1 = (PublishStatus True LS_Stopped (SetSession (Some (to_ms (se_time E))) (w4\<lparr>lw_has_failed := False\<rparr>)))
      \<lparr>lw_task := Some t1, lw_scheduled := Some (lt_next_deadline t1)\<rparr>" for t1
  note d = assms(1) [unfolded LogWriter_DoStart_def e prod.case h w3_def [symmetric] Let_def o, folded fin_def]
  have "\<not> ok \<and> lw_control w' = lw_control w \<and> lw_closed w' \<or> (\<exists>t1. ok \<and> opened \<and> lt_is_running t1 \<and> w' = fin t1)"
    using d idle s1 w2 w3 w4 by (auto split: if_splits option.splits)
  then consider (refused) "\<not> ok" "lw_control w' = lw_control w" "lw_closed w'"
    | (started) t1 where "ok" "opened" "lt_is_running t1" "w' = fin t1"
    by blast
  then have "writer_ok w' \<and> (ok \<longleftrightarrow> lw_session w' \<noteq> None) \<and> (ok \<longrightarrow> \<not> lw_has_failed w') \<and>
    lw_published w' = lw_published w @ (if ok then [(True, None)] else [])"
  proof cases
    case refused
    then show ?thesis using writer_ok_idle [OF assms(3) _ _ assms(2)] assms(3) by (auto simp: lw_control_def)
  next
    case started
    then have "lw_open w'" using w4 by (simp add: lw_open_def PublishStatus_def SetSession_def fin_def)
    then show ?thesis using started st w4 by (auto simp: fin_def writer_ok_def phase_of_def PublishStatus_def SetSession_def lw_control_def status_run_snoc)
  qed
  then show "writer_ok w'" "ok \<longleftrightarrow> lw_session w' \<noteq> None" "ok \<longrightarrow> \<not> lw_has_failed w'"
    "lw_published w' = lw_published w @ (if ok then [(True, None)] else [])" by auto
qed

lemma DoStop_outcome:
  assumes "LogWriter_DoStop Z L w = (ok, w')" "writer_ok w" "lw_session w \<noteq> None" "\<not> failure_reason (lw_stop_reason w)"
  shows "ok" "writer_ok w'" "lw_session w' = None" "lw_published w' = lw_published w @ [(False, Some (lw_stop_reason w))]"
proof -
  from assms(2,3) obtain t where t: "lw_task w = Some t" by (auto simp: writer_ok_def)
  obtain closed t2 w1 where c: "CloseLogFile Z L (t\<lparr>lt_is_running := False\<rparr>) (w\<lparr>lw_scheduled := None\<rparr>) = (closed, t2, w1)"
    by (metis prod.exhaust)
  note f = CloseLogFile_frame [OF c]
  have w': "ok" "w' = PublishStatus False (lw_stop_reason w) (SetSession None (w1\<lparr>lw_task := Some t2\<rparr>))"
    using assms(1) t c by (auto simp: LogWriter_DoStop_def Let_def)
  have w1: "lw_published w1 = lw_published w" "lw_scheduled w1 = None" using f(1) by (simp_all add: lw_control_def)
  have st: "status_run Idle (lw_published w) = Some (phase_of w)" "phase_of w \<noteq> Idle"
    using assms(2,3) by (auto simp: writer_ok_def phase_of_def)
  have "lw_closed w'" using f(2) w' by (simp add: lw_closed_def PublishStatus_def SetSession_def)
  then show "ok" "writer_ok w'" "lw_session w' = None" "lw_published w' = lw_published w @ [(False, Some (lw_stop_reason w))]"
    using w' w1 st assms(4)
    by (cases "phase_of w"; auto simp: writer_ok_def PublishStatus_def SetSession_def status_run_snoc phase_of_def)+
qed

lemma Start_ok:
  assumes "service_ok sb"
  shows "service_ok (snd (LogWriter_Start Z L E sb))"
proof (cases "lw_session (sb_work sb)")
  case None
  obtain ok w' where d: "LogWriter_DoStart Z L E (sb_work sb) = (ok, w')" by (metis prod.exhaust)
  from DoStart_outcome [OF d _ None] d assms None show ?thesis
    by (auto simp: service_ok_def LogWriter_Start_def Service_Start_def writer_work_def Let_def)
qed (use assms in \<open>simp add: service_ok_def LogWriter_Start_def Service_Start_def\<close>)

text \<open>A stop of a running writer closes everything and publishes its reason once; one of a stopped writer changes nothing.\<close>

lemma StopWithReason_outcome:
  assumes "service_ok sb" "\<not> failure_reason r" "StopWithReason Z L r sb = (res, sb')"
  shows "res = Inr True" "service_ok sb'" "lw_session (sb_work sb') = None"
    "lw_published (sb_work sb') = lw_published (sb_work sb) @ (if lw_session (sb_work sb) = None then [] else [(False, Some r)])"
proof -
  define w where "w = (sb_work sb)\<lparr>lw_stop_reason := r\<rparr>"
  have w: "writer_ok w" "lw_session w = lw_session (sb_work sb)" "lw_published w = lw_published (sb_work sb)" "lw_stop_reason w = r"
    using assms(1) by (auto simp: w_def service_ok_def writer_ok_def phase_of_def lw_open_def lw_closed_def split: option.splits)
  have reset: "writer_ok (v\<lparr>lw_stop_reason := LS_Stopped\<rparr>) = writer_ok v" for v :: "('a, 'b) log_writer"
    by (auto simp: writer_ok_def phase_of_def lw_open_def lw_closed_def split: option.splits)
  have "res = Inr True \<and> service_ok sb' \<and> lw_session (sb_work sb') = None \<and>
    lw_published (sb_work sb') = lw_published (sb_work sb) @ (if lw_session (sb_work sb) = None then [] else [(False, Some r)])"
  proof (cases "lw_session (sb_work sb)")
    case None
    then show ?thesis using assms w by (auto simp: service_ok_def StopWithReason_def LogWriter_Stop_def Service_Stop_def reset w_def [symmetric])
  next
    case (Some since)
    obtain ok w' where d: "LogWriter_DoStop Z L w = (ok, w')" by (metis prod.exhaust)
    note o = DoStop_outcome [OF d w(1)]
    have "sb' = sb\<lparr>sb_state := STOPPED, sb_work := w'\<lparr>lw_stop_reason := LS_Stopped\<rparr>\<rparr>" "res = Inr True"
      using assms(1,3) Some d o(1) w assms(2)
      by (auto simp: service_ok_def StopWithReason_def LogWriter_Stop_def Service_Stop_def writer_work_def w_def [symmetric] Let_def)
    then show ?thesis using o(2-4) Some w assms(2) by (auto simp: service_ok_def reset)
  qed
  then show "res = Inr True" "service_ok sb'" "lw_session (sb_work sb') = None"
    "lw_published (sb_work sb') = lw_published (sb_work sb) @ (if lw_session (sb_work sb) = None then [] else [(False, Some r)])"
    by auto
qed

lemma writer_reach_ok: "writer_reach Z L sb \<Longrightarrow> service_ok sb"
proof (induction rule: writer_reach.induct)
  case (wr_new s n)
  show ?case by (simp add: service_ok_def writer_ok_def ServiceBase_new_def LogWriterService_new_def lw_closed_def phase_of_def)
next
  case (wr_initialize sb queue_ready)
  then show ?case by (auto simp: service_ok_def writer_ok_def Service_Initialize_def writer_work_def LogWriter_DoInitialize_def
      phase_of_def lw_open_def lw_closed_def split: option.splits)
next
  case (wr_setup sb f a b c)
  then show ?case by (auto simp: service_ok_def writer_ok_def SetLoggerFactory_def SetSizeLimitsForTesting_def SetEndTimes_def
      phase_of_def lw_open_def lw_closed_def split: option.splits if_splits)
next
  case (wr_stop sb r)
  then show ?case using StopWithReason_outcome(2) [of sb r Z L] by (metis prod.collapse)
next
  case (wr_tick sb TE)
  then show ?case by (auto simp: service_ok_def run_tick_ok)
qed (rule Start_ok)

section \<open>Properties\<close>

text \<open>
  C8. The statuses the log writer publishes describe its sessions: in every state that set-up, starts, stops and
  ticks reach, in any order and whatever the card and the logger do, what was published is a sequence of sessions,
  each begun by one active status, failed at most once, and ended by one status with a reason that is not a failure;
  the sequence ends in the phase the writer is in, and the service is stopped exactly when no session is left open.
\<close>

theorem statuses_follow_sessions:
  assumes "writer_reach Z L sb"
  shows "status_run Idle (lw_published (sb_work sb)) = Some (phase_of (sb_work sb)) \<and>
    sb_state sb = (if phase_of (sb_work sb) = Idle then STOPPED else RUNNING)"
  using writer_reach_ok [OF assms] by (auto simp: service_ok_def writer_ok_def phase_of_def)

text \<open>
  C9. A tick is only ever armed for a healthy session with an open file, and a stop leaves nothing behind: after any
  history, an armed tick belongs to a running service whose session did not fail and has its file, its logger and
  its task; and stopping succeeds, publishes the reason once when a session was open and nothing otherwise, and
  leaves no tick armed, no file open, no session to report and the card free.
\<close>

theorem stop_leaves_nothing:
  assumes "writer_reach Z L sb" "\<not> failure_reason r" "StopWithReason Z L r sb = (res, sb')"
  shows "(lw_scheduled (sb_work sb) = None \<or> sb_state sb = RUNNING \<and> phase_of (sb_work sb) = Active \<and> lw_open (sb_work sb)) \<and>
    res = Inr True \<and> sb_state sb' = STOPPED \<and> lw_scheduled (sb_work sb') = None \<and> lw_closed (sb_work sb') \<and>
    GetSessionInfo (sb_work sb') = None \<and>
    lw_published (sb_work sb') = lw_published (sb_work sb) @ (if phase_of (sb_work sb) = Idle then [] else [(False, Some r)])"
proof -
  have ok: "service_ok sb" by (rule writer_reach_ok [OF assms(1)])
  note o = StopWithReason_outcome [OF ok assms(2,3)]
  have "lw_scheduled (sb_work sb) = None \<or> sb_state sb = RUNNING \<and> phase_of (sb_work sb) = Active \<and> lw_open (sb_work sb)"
    using ok by (auto simp: service_ok_def writer_ok_def phase_of_def split: option.splits)
  moreover have "phase_of (sb_work sb) = Idle \<longleftrightarrow> lw_session (sb_work sb) = None" by (simp add: phase_of_def)
  ultimately show ?thesis using o by (auto simp: service_ok_def writer_ok_def GetSessionInfo_def)
qed

text \<open>
  C10. Ticks keep their phase: the deadline of the tick after an armed one lies in the future, and it is the first point
  after now of the grid that the armed deadline and the interval span, at least one interval on; the points skipped are
  counted as overruns. Only a drain that filled its buffer comes back earlier, within the burst interval.
\<close>

theorem deadlines_keep_phase:
  assumes "writer_reach Z L sb" "lw_scheduled (sb_work sb) = Some d" "lw_task (sb_work sb) = Some t"
    and "0 < lt_interval_ticks t" "0 < lt_burst_interval_ticks t"
    and "lw_scheduled (run_tick Z L E (sb_work sb)) = Some d'"
  shows "te_now_ticks E < d' \<and>
    (\<exists>k grid t'. lw_task (run_tick Z L E (sb_work sb)) = Some t' \<and> ls_overruns (lt_stats t') = ls_overruns (lt_stats t) + word_of_int k \<and>
       0 \<le> k \<and> grid = d + (k + 1) * lt_interval_ticks t \<and> te_now_ticks E < grid \<and>
       (k = 0 \<or> grid - lt_interval_ticks t \<le> te_now_ticks E) \<and>
       d' = (if drain_fills E then min grid (te_now_ticks E + lt_burst_interval_ticks t) else grid))"
proof -
  let ?w = "sb_work sb"
  from writer_reach_ok [OF assms(1)] assms(2,3) have w: "lt_is_running t" "lt_next_deadline t = d" "lw_open (?w\<lparr>lw_scheduled := None\<rparr>)"
    by (auto simp: service_ok_def writer_ok_def lw_open_def)
  obtain r t' w' where p: "ProcessTick Z L E t (?w\<lparr>lw_scheduled := None\<rparr>) = (r, t', w')" by (metis prod.exhaust)
  have r: "r = Some d'" "lw_task (run_tick Z L E ?w) = Some t'" using assms(2,3,6) p by (simp_all add: run_tick_def)
  from p w(1,3) show ?thesis
  proof (cases rule: ProcessTick_cases)
    case (written t2)
    then have t2: "lt_interval_ticks t2 = lt_interval_ticks t" "lt_burst_interval_ticks t2 = lt_burst_interval_ticks t" "lt_next_deadline t2 = d"
        "ls_overruns (lt_stats t2) = ls_overruns (lt_stats t)"
      using w by (auto simp: task_timing_def)
    obtain k where k: "0 \<le> k" "k = 0 \<or> d + k * lt_interval_ticks t \<le> te_now_ticks E" "te_now_ticks E < d + (k + 1) * lt_interval_ticks t"
      "lt_next_deadline (advance_deadline E (drain_fills E) t2) =
        (if drain_fills E then min (d + (k + 1) * lt_interval_ticks t) (te_now_ticks E + lt_burst_interval_ticks t)
         else d + (k + 1) * lt_interval_ticks t)"
      "ls_overruns (lt_stats (advance_deadline E (drain_fills E) t2)) = ls_overruns (lt_stats t) + word_of_int k"
      using advance_deadline_grid [of t2 E "drain_fills E", unfolded t2, OF assms(4)] by blast
    have "d' = lt_next_deadline (advance_deadline E (drain_fills E) t2)" using written r by (auto split: if_splits)
    moreover have "ls_overruns (lt_stats t') = ls_overruns (lt_stats t) + word_of_int k" using written k(5) by simp
    ultimately show ?thesis using r(2) k assms(5)
      by (intro conjI exI [of _ k] exI [of _ "d + (k + 1) * lt_interval_ticks t"] exI [of _ t']) (auto simp: distrib_right)
  qed (use r in simp)
qed

section \<open>An instance\<close>

text \<open>A card whose names are free, but for its directory of logs, and a logger that takes everything.\<close>

definition log_card :: "ram_volume zephyr_fs" where
  "log_card = ram_fs\<lparr>fs_stat := \<lambda>p v. (if p = ''/SD:/logs'' then 0 else - ENOENT, ram_stat v p, v)\<rparr>"

definition plain_logger :: "(nat, nat, ram_volume) logger_if" where
  "plain_logger = \<lparr>lg_extension = ''mf4'', lg_start = (\<lambda>_ l b v. (Some True, 64, b, v)), lg_stop = (\<lambda>l b v. (True, l, b, v)),
     lg_log = (\<lambda>_ r l b v. (Some True, l + r, b, v)), lg_bytes = (\<lambda>l. l)\<rparr>"

definition card_files :: file_env where
  "card_files = \<lparr>fe_available = True, fe_prefix = [], fe_stamp = (\<lambda>_. ''20260101T000000Z''), fe_random = (\<lambda>i. 42 + i),
     fe_write_buffer_size = 16\<rparr>"

definition card_start :: "nat start_env" where
  "card_start = \<lparr>se_files = card_files, se_config = Some \<lparr>lc_interval_ms = 100, lc_max_log_size_mb = 8\<rparr>, se_logger = Some 0,
     se_time = 5, se_dropped = 0, se_uptime_ms = 7, se_uptime_ticks = 1000, se_ms_to_ticks = int, se_sync_interval_ms = 0\<rparr>"

definition card_writer :: "(nat, ram_volume) writer_service" where
  "card_writer = snd (LogWriter_Start log_card plain_logger card_start (snd (Service_Initialize (writer_work (LogWriter_DoInitialize True))
     ((\<lambda>sb. sb\<lparr>sb_work := SetLoggerFactory (sb_work sb)\<rparr>) (ServiceBase_new (LogWriterService_new (st_fs ram_store) 0))))))"

lemma card_writer_reach: "writer_reach log_card plain_logger card_writer"
  unfolding card_writer_def by (intro wr_start wr_initialize wr_setup wr_new) (auto simp: ServiceBase_new_def)

lemma log_name:
  "four_digits 42 = ''0042''"
  "GetFilePath LOGS_DIR [] ''20260101T000000Z'' 42 ''mf4'' = ''logs/20260101T000000Z_0042.mf4''"
proof -
  show d: "four_digits 42 = ''0042''" by code_simp
  show "GetFilePath LOGS_DIR [] ''20260101T000000Z'' 42 ''mf4'' = ''logs/20260101T000000Z_0042.mf4''"
    by (simp add: GetFilePath_def LOGS_DIR_def Str_Append_def PATH_MAX_LENGTH_def RANDOM_SUFFIX_MODULO_def d)
qed

lemma log_paths:
  "TryBuildPath (Some ''/SD:'') ''logs'' = Some ''/SD:/logs''"
  "TryBuildPath (Some ''/SD:'') ''logs/20260101T000000Z_0042.mf4'' = Some ''/SD:/logs/20260101T000000Z_0042.mf4''"
  "parent_path ''logs/20260101T000000Z_0042.mf4'' = ''logs''"
  "CStr ''/SD:/logs'' = ''/SD:/logs''" "CStr ''/SD:/logs/20260101T000000Z_0042.mf4'' = ''/SD:/logs/20260101T000000Z_0042.mf4''"
  by (simp_all add: CStr_def) code_simp+

abbreviation "card_mounted v \<equiv> \<lparr>fs_mountpoint = Some ''/SD:'', fs_mount_generation = 1, fs_volume = v\<rparr>"

lemma card_exists:
  "Fs_Exists log_card ''logs'' (card_mounted v) = (True, card_mounted v)"
  "Fs_Exists log_card ''logs/20260101T000000Z_0042.mf4'' (card_mounted v) = (False, card_mounted v)"
  by (simp_all add: Fs_Exists_def with_path_def IsMounted_def log_card_def log_paths ram_fs_def errno_defs)

lemma card_open:
  "\<exists>b v'. stream_open log_card 16 True ''logs/20260101T000000Z_0042.mf4'' OM_Write (card_mounted v) = (Inr b, card_mounted v')"
proof -
  have "\<exists>h v'. OpenFile log_card ''logs/20260101T000000Z_0042.mf4'' [FS_O_WRITE, FS_O_CREATE, FS_O_TRUNC] (card_mounted v) =
    ((0, h), card_mounted v')"
    by (simp add: OpenFile_def with_path_def IsMounted_def log_card_def log_paths) (simp add: ram_fs_def ram_opened_def)
  then show ?thesis by (auto simp: stream_open_def ensure_parent_def open_flags_def PATH_BUFFER_SIZE_def log_paths card_exists)
qed

lemma card_available: "Fs_IsAvailable log_card (card_mounted v)"
  by (simp add: Fs_IsAvailable_def IsMounted_def log_card_def ram_fs_def)

lemma card_OpenLogFile:
  assumes "lw_fs w = card_mounted v" "lw_logger w = Some l"
  shows "\<exists>w'. OpenLogFile log_card plain_logger card_files 5 w = (True, w')"
proof -
  have "find_name log_card (\<lambda>i. GetFilePath LOGS_DIR (fe_prefix card_files) (fe_stamp card_files 5) (fe_random card_files i) (lg_extension plain_logger)) [0..<10]
    (card_mounted v) = (''logs/20260101T000000Z_0042.mf4'', card_mounted v)"
    by (simp add: upt_rec [of 0] card_files_def plain_logger_def log_name card_exists)
  moreover obtain b v' where "stream_open log_card 16 True ''logs/20260101T000000Z_0042.mf4'' OM_Write (card_mounted v) = (Inr b, card_mounted v')"
    using card_open by blast
  moreover have "fe_available card_files \<and> Fs_IsAvailable log_card (card_mounted v)" "fe_write_buffer_size card_files = 16"
    by (simp_all add: card_available) (simp_all add: card_files_def)
  ultimately show ?thesis using assms by (simp add: OpenLogFile_def Let_def) (simp add: plain_logger_def)
qed

lemma card_writer_started:
  "\<exists>w4 t1. sb_state card_writer = RUNNING \<and> lw_published w4 = [] \<and> lt_interval_ticks t1 = 100 \<and> lt_burst_interval_ticks t1 = 25 \<and>
     lt_next_deadline t1 = 1100 \<and> lt_is_running t1 \<and> \<not> lt_is_rotation_due t1 \<and> lt_sync_interval_ms t1 = 0 \<and> lt_stats t1 = LogWriterStats_zero \<and>
     sb_work card_writer = (PublishStatus True LS_Stopped (SetSession (Some 0) (w4\<lparr>lw_has_failed := False\<rparr>)))
       \<lparr>lw_task := Some t1, lw_scheduled := Some 1100\<rparr>"
proof -
  define w :: "(nat, ram_volume) log_writer" where
    "w = (SetLoggerFactory (LogWriterService_new (st_fs ram_store) 0))\<lparr>lw_task := Some LogWriterTask_new\<rparr>"
  obtain v where v: "lw_fs w = card_mounted v" by (simp add: w_def SetLoggerFactory_def LogWriterService_new_def ram_store_def)
  obtain w4 where o: "OpenLogFile log_card plain_logger card_files 5 (w\<lparr>lw_logger := Some 0\<rparr>) = (True, w4)"
    using card_OpenLogFile [of "w\<lparr>lw_logger := Some 0\<rparr>" v 0] v by auto
  have fs: "w\<lparr>lw_fs := card_mounted v\<rparr> = w" using v by (metis log_writer.surjective log_writer.update_convs(1) log_writer.select_convs(1))
  have w4: "lw_published w4 = []" using OpenLogFile_frame [OF o] by (simp add: lw_control_def w_def SetLoggerFactory_def LogWriterService_new_def)
  define t1 where "t1 = session_task card_start \<lparr>lc_interval_ms = 100, lc_max_log_size_mb = 8\<rparr> (lw_max_size_override w4) LogWriterTask_new"
  have t1: "lt_interval_ticks t1 = 100" "lt_burst_interval_ticks t1 = 25" "lt_next_deadline t1 = 1100" "lt_is_running t1"
    "\<not> lt_is_rotation_due t1" "lt_sync_interval_ms t1 = 0" "lt_stats t1 = LogWriterStats_zero"
    by (simp_all add: t1_def session_task_def card_start_def MIN_BURST_INTERVAL_MS_def)
  have e: "ensure_logs log_card (lw_fs w) = (True, card_mounted v)" by (simp add: ensure_logs_def LOGS_DIR_def v card_exists)
  have env: "se_files card_start = card_files" "se_config card_start = Some \<lparr>lc_interval_ms = 100, lc_max_log_size_mb = 8\<rparr>"
    "se_logger card_start = Some 0" "se_time card_start = 5" "fe_available card_files" by (simp_all add: card_start_def card_files_def)
  have "lw_has_factory w" "lw_min_free_space w = 0" "lw_task w = Some LogWriterTask_new"
    by (simp_all add: w_def SetLoggerFactory_def LogWriterService_new_def)
  then have "LogWriter_DoStart log_card plain_logger card_start w = (True, (PublishStatus True LS_Stopped (SetSession (Some 0) (w4\<lparr>lw_has_failed := False\<rparr>)))
       \<lparr>lw_task := Some t1, lw_scheduled := Some 1100\<rparr>)"
    using t1(3) o by (simp add: LogWriter_DoStart_def Let_def env v card_available e [unfolded v] HasMinimumFreeSpace_def fs t1_def [symmetric] to_ms_def)
  then have "sb_state card_writer = RUNNING \<and> sb_work card_writer = (PublishStatus True LS_Stopped (SetSession (Some 0) (w4\<lparr>lw_has_failed := False\<rparr>)))
       \<lparr>lw_task := Some t1, lw_scheduled := Some 1100\<rparr>"
    by (simp add: card_writer_def LogWriter_Start_def Service_Start_def Service_Initialize_def writer_work_def ServiceBase_new_def
        LogWriter_DoInitialize_def Let_def w_def)
  then show ?thesis using w4 t1 by blast
qed

lemma card_writer_published: "lw_published (sb_work card_writer) = [(True, None)]" "phase_of (sb_work card_writer) = Active"
  using card_writer_started by (auto simp: PublishStatus_def SetSession_def phase_of_def)

theorem statuses_follow_sessions_witness:
  "status_run Idle [(True, None)] = Some (phase_of (sb_work card_writer)) \<and> sb_state card_writer = RUNNING"
  using statuses_follow_sessions [OF card_writer_reach] card_writer_published by simp

theorem stop_leaves_nothing_witness:
  "\<exists>sb'. StopWithReason log_card plain_logger LS_FirmwareUpdate card_writer = (Inr True, sb') \<and> sb_state sb' = STOPPED \<and>
     lw_closed (sb_work sb') \<and> lw_published (sb_work sb') = [(True, None), (False, Some LS_FirmwareUpdate)]"
proof -
  obtain res sb' where s: "StopWithReason log_card plain_logger LS_FirmwareUpdate card_writer = (res, sb')" by (metis prod.exhaust)
  have "\<not> failure_reason LS_FirmwareUpdate" by (simp add: failure_reason_def)
  from stop_leaves_nothing [OF card_writer_reach this s] s card_writer_published show ?thesis by auto
qed

definition late_tick :: "nat tick_env" where
  "late_tick = \<lparr>te_files = card_files, te_time = 9, te_readings = [], te_raw = [], te_raw_capacity = 4, te_dropped = 0, te_rotate_ms = 0,
     te_sync_ms = 0, te_now_ticks = 1350, te_tick_us = 20, te_stop_began = False\<rparr>"

theorem deadlines_keep_phase_witness:
  "lw_scheduled (run_tick log_card plain_logger late_tick (sb_work card_writer)) = Some 1400 \<and>
   (\<exists>k t'. lw_task (run_tick log_card plain_logger late_tick (sb_work card_writer)) = Some t' \<and> 1400 = 1100 + (k + 1) * (100 :: int) \<and>
      ls_overruns (lt_stats t') = word_of_int k)"
proof -
  obtain w4 t1 where w: "lt_interval_ticks t1 = 100" "lt_burst_interval_ticks t1 = 25" "lt_next_deadline t1 = 1100" "lt_is_running t1"
    "\<not> lt_is_rotation_due t1" "lt_sync_interval_ms t1 = 0" "lt_stats t1 = LogWriterStats_zero"
    "sb_work card_writer = (PublishStatus True LS_Stopped (SetSession (Some 0) (w4\<lparr>lw_has_failed := False\<rparr>)))
       \<lparr>lw_task := Some t1, lw_scheduled := Some 1100\<rparr>" using card_writer_started by blast
  have s: "lw_scheduled (run_tick log_card plain_logger late_tick (sb_work card_writer)) = Some 1400"
    using w(1-6) by (simp add: w(8) run_tick_def ProcessTick_def tick_write_def Let_def late_tick_def sync_tick_def tick_stats_def
        advance_deadline_def)
  have "lw_scheduled (sb_work card_writer) = Some 1100" "lw_task (sb_work card_writer) = Some t1" using w by auto
  from deadlines_keep_phase [OF card_writer_reach this _ _ s] w(1,2,7) have "\<exists>k grid t'.
      lw_task (run_tick log_card plain_logger late_tick (sb_work card_writer)) = Some t' \<and> ls_overruns (lt_stats t') = word_of_int k \<and>
      grid = 1100 + (k + 1) * 100 \<and> 1400 = grid"
    by (fastforce simp: drain_fills_def late_tick_def LogWriterStats_zero_def)
  with s show ?thesis by auto
qed

end
