(* ===== verification/Log_Supervisor.thy ===== *)
theory Log_Supervisor
  imports Log_Session
begin

text \<open>
  The supervisor of the log writer, \<open>src/domain/logging_domain/services/log_writer_supervisor.cpp\<close>: requests to start
  and stop from any thread, one task on the configuration queue that serves them, the dependent that restarts the
  writer with the sensors, and the status events the writer publishes. The supervisor sees the writer through the
  record \<open>writer_if\<close>; the locale \<open>supervised_writer\<close> says what it relies on, and the model of the log writer
  provides it.
\<close>

section \<open>Model\<close>

datatype Request = Request_None | Request_Start | Request_Stop

type_synonym status_event = "bool \<times> LoggingStatusReason option"

text \<open>The writer: starting and stopping may throw; its thread runs ticks on its own.\<close>

record ('w, 'e, 'x) writer_if =
  wi_start :: "'e \<Rightarrow> 'w \<Rightarrow> bool result \<times> 'w"
  wi_stop :: "LoggingStatusReason \<Rightarrow> 'w \<Rightarrow> bool result \<times> 'w"
  wi_tick :: "'x \<Rightarrow> 'w \<Rightarrow> 'w"
  wi_running :: "'w \<Rightarrow> bool"
  wi_failed :: "'w \<Rightarrow> bool"
  wi_published :: "'w \<Rightarrow> status_event list"

text \<open>
  \<open>sv_scheduled\<close> is whether the task is queued, \<open>sv_delivered\<close> how many of the writer's statuses the bus has
  delivered.
\<close>

record 'w supervisor =
  sv_writer :: 'w
  sv_initialized :: bool
  sv_pending :: Request
  sv_stop_reason :: LoggingStatusReason
  sv_logging_requested :: bool
  sv_restart_due :: bool
  sv_active :: bool
  sv_reason :: LoggingStatusReason
  sv_failure_reason :: LoggingStatusReason
  sv_scheduled :: bool
  sv_delivered :: nat

definition LogWriterSupervisor_new :: "('w, 'e, 'x) writer_if \<Rightarrow> 'w \<Rightarrow> 'w supervisor" where
  "LogWriterSupervisor_new W w =
     \<lparr>sv_writer = w, sv_initialized = False, sv_pending = Request_None, sv_stop_reason = LS_Stopped, sv_logging_requested = False,
      sv_restart_due = False, sv_active = False, sv_reason = LS_Stopped, sv_failure_reason = LS_Stopped, sv_scheduled = False,
      sv_delivered = length (wi_published W w)\<rparr>"

definition StartWriter :: "('w, 'e, 'x) writer_if \<Rightarrow> 'e \<Rightarrow> 'w supervisor \<Rightarrow> bool \<times> 'w supervisor" where
  "StartWriter W e s = (case wi_start W e (sv_writer s) of (r, w) \<Rightarrow> (r = Inr True, s\<lparr>sv_writer := w\<rparr>))"

definition StopWriter :: "('w, 'e, 'x) writer_if \<Rightarrow> LoggingStatusReason \<Rightarrow> 'w supervisor \<Rightarrow> bool \<times> 'w supervisor" where
  "StopWriter W reason s = (case wi_stop W reason (sv_writer s) of (r, w) \<Rightarrow> (r = Inr True, s\<lparr>sv_writer := w\<rparr>))"

text \<open>The dependent, which a restart of the sensors stops and starts.\<close>

definition Dependent_Start :: "('w, 'e, 'x) writer_if \<Rightarrow> 'e \<Rightarrow> 'w supervisor \<Rightarrow> bool \<times> 'w supervisor" where
  "Dependent_Start W e s =
     (if \<not> sv_logging_requested s \<or> sv_pending s = Request_Stop then (True, s)
      else if wi_failed W (sv_writer s) then (True, s\<lparr>sv_logging_requested := False\<rparr>)
      else case StartWriter W e s of (ok, s1) \<Rightarrow> (ok, s1\<lparr>sv_logging_requested := ok\<rparr>))"

definition Dependent_Stop :: "('w, 'e, 'x) writer_if \<Rightarrow> 'w supervisor \<Rightarrow> bool \<times> 'w supervisor" where
  "Dependent_Stop W s = StopWriter W LS_Stopped s"

text \<open>
  Set-up; the flags are whether the task could be created and the status channel subscribed to. The writer given to the
  supervisor has its logger factory, which the code sets here, already.
\<close>

definition Supervisor_Initialize :: "bool \<Rightarrow> bool \<Rightarrow> 'w supervisor \<Rightarrow> bool \<times> 'w supervisor" where
  "Supervisor_Initialize has_task subscribed s =
     (if sv_initialized s then (True, s)
      else if \<not> has_task \<or> \<not> subscribed then (False, s)
      else (True, s\<lparr>sv_initialized := True\<rparr>))"

definition RequestStart :: "'w supervisor \<Rightarrow> 'w supervisor" where
  "RequestStart s = (if \<not> sv_initialized s then s else s\<lparr>sv_pending := Request_Start, sv_scheduled := True\<rparr>)"

definition RequestStopWithReason :: "LoggingStatusReason \<Rightarrow> 'w supervisor \<Rightarrow> 'w supervisor" where
  "RequestStopWithReason reason s =
     (if \<not> sv_initialized s then s
      else s\<lparr>sv_stop_reason := reason, sv_pending := Request_Stop, sv_scheduled := True\<rparr>)"

definition RequestStop :: "'w supervisor \<Rightarrow> 'w supervisor" where
  "RequestStop s = RequestStopWithReason LS_Stopped s"

definition HandleLoggingCommand :: "bool \<Rightarrow> 'w supervisor \<Rightarrow> bool \<times> 'w supervisor" where
  "HandleLoggingCommand is_start s = (True, if is_start then RequestStart s else RequestStop s)"

text \<open>The handler of a stored logging configuration.\<close>

definition OnConfigurationUpdated :: "'w supervisor \<Rightarrow> 'w supervisor" where
  "OnConfigurationUpdated s = (if \<not> sv_initialized s then s else s\<lparr>sv_restart_due := True, sv_scheduled := True\<rparr>)"

text \<open>What \<open>WaitUntilIdle\<close> polls for, between two runs of the task.\<close>

definition supervisor_idle :: "'w supervisor \<Rightarrow> bool" where
  "supervisor_idle s \<longleftrightarrow> sv_pending s = Request_None \<and> \<not> sv_restart_due s"

definition StopIfFailed :: "('w, 'e, 'x) writer_if \<Rightarrow> 'w supervisor \<Rightarrow> 'w supervisor" where
  "StopIfFailed W s =
     (let s1 = s\<lparr>sv_failure_reason := LS_Stopped\<rparr>
      in if \<not> wi_failed W (sv_writer s1) \<or> \<not> wi_running W (sv_writer s1) then s1
         else snd (StopWriter W LS_Stopped (s1\<lparr>sv_logging_requested := False\<rparr>)))"

definition ApplyStart :: "('w, 'e, 'x) writer_if \<Rightarrow> 'e \<Rightarrow> 'w supervisor \<Rightarrow> bool \<times> 'w supervisor" where
  "ApplyStart W e s =
     (if wi_running W (sv_writer s) \<and> \<not> wi_failed W (sv_writer s) then (False, s\<lparr>sv_logging_requested := True\<rparr>)
      else case (if wi_running W (sv_writer s) then StopWriter W LS_Stopped s else (True, s)) of (stopped, s1) \<Rightarrow>
        if \<not> stopped then (False, s1\<lparr>sv_logging_requested := False\<rparr>)
        else case StartWriter W e s1 of (is_started, s2) \<Rightarrow> (is_started, s2\<lparr>sv_logging_requested := is_started\<rparr>))"

definition ApplyStop :: "('w, 'e, 'x) writer_if \<Rightarrow> LoggingStatusReason \<Rightarrow> 'w supervisor \<Rightarrow> 'w supervisor" where
  "ApplyStop W reason s = snd (StopWriter W reason (s\<lparr>sv_logging_requested := False\<rparr>))"

definition RestartIfRunning :: "('w, 'e, 'x) writer_if \<Rightarrow> 'e \<Rightarrow> 'w supervisor \<Rightarrow> 'w supervisor" where
  "RestartIfRunning W e s =
     (if \<not> wi_running W (sv_writer s) \<or> wi_failed W (sv_writer s) then s
      else case StopWriter W LS_Stopped s of (stopped, s1) \<Rightarrow>
        if \<not> stopped then s1
        else case StartWriter W e s1 of (is_started, s2) \<Rightarrow> s2\<lparr>sv_logging_requested := is_started\<rparr>)"

text \<open>Ticks that the writer's thread runs meanwhile.\<close>

definition writer_ticks :: "('w, 'e, 'x) writer_if \<Rightarrow> 'x list \<Rightarrow> 'w supervisor \<Rightarrow> 'w supervisor" where
  "writer_ticks W xs s = s\<lparr>sv_writer := fold (wi_tick W) xs (sv_writer s)\<rparr>"

definition serve_request :: "('w, 'e, 'x) writer_if \<Rightarrow> 'e \<Rightarrow> 'w supervisor \<Rightarrow> bool \<times> 'w supervisor" where
  "serve_request W e s =
     (case sv_pending s of
        Request_Start \<Rightarrow> ApplyStart W e (s\<lparr>sv_pending := Request_None\<rparr>)
      | Request_Stop \<Rightarrow> (False, ApplyStop W (sv_stop_reason s) (s\<lparr>sv_pending := Request_None, sv_stop_reason := LS_Stopped\<rparr>))
      | Request_None \<Rightarrow> (False, s))"

text \<open>The task; ticks of the writer may come between its stages.\<close>

definition Supervisor_Process :: "('w, 'e, 'x) writer_if \<Rightarrow> 'e \<Rightarrow> 'x list \<Rightarrow> 'x list \<Rightarrow> 'w supervisor \<Rightarrow> 'w supervisor" where
  "Supervisor_Process W e xs ys s =
     (let is_restart_due = sv_restart_due s;
          s1 = StopIfFailed W (s\<lparr>sv_scheduled := False, sv_restart_due := False\<rparr>)
      in case serve_request W e (writer_ticks W xs s1) of (is_new_session, s2) \<Rightarrow>
           let s3 = writer_ticks W ys s2
           in if is_restart_due \<and> \<not> is_new_session then RestartIfRunning W e s3 else s3)"

definition OnStatusUpdated :: "status_event \<Rightarrow> 'w supervisor \<Rightarrow> 'w supervisor" where
  "OnStatusUpdated event s =
     (let is_active = fst event; s1 = s\<lparr>sv_active := is_active\<rparr>
      in if is_active then s1\<lparr>sv_reason := LS_Stopped\<rparr>
         else let reason = (case snd event of Some r \<Rightarrow> r | None \<Rightarrow> LS_Stopped); s2 = s1\<lparr>sv_reason := reason\<rparr>
              in if reason = LS_Stopped \<or> reason = LS_FirmwareUpdate then s2
                 else s2\<lparr>sv_failure_reason := reason, sv_scheduled := True\<rparr>)"

text \<open>The steps of the system: what reaches the supervisor, and the runs of the task, the dependent, the writer and the bus.\<close>

datatype ('e, 'x) supervisor_step = Do_Start | Do_Stop LoggingStatusReason | Do_Configuration | Do_Task 'e "'x list" "'x list"
  | Do_Dependent_Stop | Do_Dependent_Start 'e | Do_Tick 'x | Do_Deliver

fun supervisor_do :: "('w, 'e, 'x) writer_if \<Rightarrow> ('e, 'x) supervisor_step \<Rightarrow> 'w supervisor \<Rightarrow> 'w supervisor" where
  "supervisor_do W Do_Start s = RequestStart s"
| "supervisor_do W (Do_Stop r) s = RequestStopWithReason r s"
| "supervisor_do W Do_Configuration s = OnConfigurationUpdated s"
| "supervisor_do W (Do_Task e xs ys) s = (if sv_scheduled s then Supervisor_Process W e xs ys s else s)"
| "supervisor_do W Do_Dependent_Stop s = snd (Dependent_Stop W s)"
| "supervisor_do W (Do_Dependent_Start e) s = snd (Dependent_Start W e s)"
| "supervisor_do W (Do_Tick x) s = writer_ticks W [x] s"
| "supervisor_do W Do_Deliver s =
     (if sv_initialized s \<and> sv_delivered s < length (wi_published W (sv_writer s))
      then (OnStatusUpdated (wi_published W (sv_writer s) ! sv_delivered s) s)\<lparr>sv_delivered := sv_delivered s + 1\<rparr>
      else s)"

definition supervisor_run :: "('w, 'e, 'x) writer_if \<Rightarrow> ('e, 'x) supervisor_step list \<Rightarrow> 'w supervisor \<Rightarrow> 'w supervisor" where
  "supervisor_run W steps s = fold (supervisor_do W) steps s"

text \<open>The model of the log writer as the supervisor sees it.\<close>

definition log_writer_if :: "'v zephyr_fs \<Rightarrow> ('l, 'r, 'v) logger_if \<Rightarrow>
  (('l, 'v) writer_service, 'l start_env, 'r tick_env) writer_if" where
  "log_writer_if Z L = \<lparr>wi_start = LogWriter_Start Z L, wi_stop = StopWithReason Z L,
     wi_tick = (\<lambda>E sb. sb\<lparr>sb_work := run_tick Z L E (sb_work sb)\<rparr>),
     wi_running = (\<lambda>sb. sb_state sb = RUNNING), wi_failed = (\<lambda>sb. lw_has_failed (sb_work sb)),
     wi_published = (\<lambda>sb. lw_published (sb_work sb))\<rparr>"

section \<open>The contract of the writer\<close>

text \<open>Stops are only ever ordered with a reason that is not a failure.\<close>

definition step_ok :: "('e, 'x) supervisor_step \<Rightarrow> bool" where
  "step_ok x \<longleftrightarrow> (case x of Do_Stop r \<Rightarrow> \<not> failure_reason r | _ \<Rightarrow> True)"

text \<open>
  What the supervisor relies on: a stop that names no failure always succeeds and publishes its reason once when the
  writer ran; a start of a writer that runs does nothing, any other start either opens a session, publishes it and
  forgets the last failure, or changes nothing of this; a tick can only fail a healthy session, which it publishes;
  and a session that has failed published that last.
\<close>

locale supervised_writer =
  fixes W :: "('w, 'e, 'x) writer_if" and ok :: "'w \<Rightarrow> bool"
  assumes stop_law: "ok w \<Longrightarrow> \<not> failure_reason r \<Longrightarrow> wi_stop W r w = (res, w') \<Longrightarrow>
      res = Inr True \<and> ok w' \<and> \<not> wi_running W w' \<and>
      wi_published W w' = wi_published W w @ (if wi_running W w then [(False, Some r)] else [])"
    and start_law: "ok w \<Longrightarrow> wi_start W e w = (res, w') \<Longrightarrow>
      ok w' \<and> (res = Inr True) = wi_running W w' \<and> (wi_running W w \<longrightarrow> w' = w) \<and>
      (wi_running W w' \<and> \<not> wi_running W w \<longrightarrow> \<not> wi_failed W w') \<and>
      wi_published W w' = wi_published W w @ (if wi_running W w' \<and> \<not> wi_running W w then [(True, None)] else [])"
    and tick_law: "ok w \<Longrightarrow> ok (wi_tick W x w) \<and> wi_running W (wi_tick W x w) = wi_running W w \<and>
      (wi_failed W (wi_tick W x w) = wi_failed W w \<and> wi_published W (wi_tick W x w) = wi_published W w \<or>
       wi_running W w \<and> (\<exists>r. failure_reason r \<and> wi_published W (wi_tick W x w) = wi_published W w @ [(False, Some r)]))"
    and failed_law: "ok w \<Longrightarrow> wi_running W w \<Longrightarrow> wi_failed W w \<Longrightarrow>
      \<exists>es r. wi_published W w = es @ [(False, Some r)] \<and> failure_reason r"
begin

text \<open>A session that failed is still to be noticed: its failure is on the bus, or the task is queued.\<close>

definition noticed :: "'w supervisor \<Rightarrow> bool" where
  "noticed s \<longleftrightarrow> (wi_running W (sv_writer s) \<and> wi_failed W (sv_writer s) \<longrightarrow>
     sv_scheduled s \<or> sv_delivered s < length (wi_published W (sv_writer s)))"

definition supervised :: "'w supervisor \<Rightarrow> bool" where
  "supervised s \<longleftrightarrow> ok (sv_writer s) \<and> sv_delivered s \<le> length (wi_published W (sv_writer s)) \<and> noticed s \<and>
     \<not> failure_reason (sv_stop_reason s) \<and> (sv_pending s \<noteq> Request_None \<or> sv_restart_due s \<longrightarrow> sv_scheduled s)"

lemma stopped_reason [simp]: "\<not> failure_reason LS_Stopped"
  by (simp add: failure_reason_def)

text \<open>What every stage of the task keeps, whatever is queued.\<close>

definition stage_ok :: "'w supervisor \<Rightarrow> bool" where
  "stage_ok s \<longleftrightarrow> ok (sv_writer s) \<and> sv_delivered s \<le> length (wi_published W (sv_writer s)) \<and> \<not> failure_reason (sv_stop_reason s)"

definition same_queue :: "'w supervisor \<Rightarrow> 'w supervisor \<Rightarrow> bool" where
  "same_queue s s' \<longleftrightarrow> sv_pending s' = sv_pending s \<and> sv_restart_due s' = sv_restart_due s \<and> sv_scheduled s' = sv_scheduled s \<and>
     sv_stop_reason s' = sv_stop_reason s \<and> sv_delivered s' = sv_delivered s \<and> sv_initialized s' = sv_initialized s"

lemma StopWriter_stage:
  assumes "StopWriter W r s = (b, s')" "stage_ok s" "\<not> failure_reason r"
  shows "b" "stage_ok s'" "\<not> wi_running W (sv_writer s')" "same_queue s s'" "sv_logging_requested s' = sv_logging_requested s"
proof -
  obtain res w' where w: "wi_stop W r (sv_writer s) = (res, w')" by (metis prod.exhaust)
  have "ok (sv_writer s)" using assms(2) by (simp add: stage_ok_def)
  from stop_law [OF this assms(3) w] assms w show "b" "stage_ok s'" "\<not> wi_running W (sv_writer s')" "same_queue s s'"
    "sv_logging_requested s' = sv_logging_requested s"
    by (auto simp: StopWriter_def stage_ok_def same_queue_def)
qed

lemma StartWriter_stage:
  assumes "StartWriter W e s = (b, s')" "stage_ok s" "noticed s"
  shows "b = wi_running W (sv_writer s')" "stage_ok s'" "noticed s'" "same_queue s s'"
    "sv_logging_requested s' = sv_logging_requested s"
proof -
  obtain res w' where w: "wi_start W e (sv_writer s) = (res, w')" by (metis prod.exhaust)
  have "ok (sv_writer s)" using assms(2) by (simp add: stage_ok_def)
  from start_law [OF this w] assms w show "b = wi_running W (sv_writer s')" "stage_ok s'" "noticed s'" "same_queue s s'"
    "sv_logging_requested s' = sv_logging_requested s"
    by (auto simp: StartWriter_def stage_ok_def same_queue_def noticed_def)
qed

lemma tick_stage:
  fixes s :: "'w supervisor" and xs :: "'x list"
  assumes "stage_ok s" "noticed s"
  defines "s' \<equiv> writer_ticks W xs s"
  shows "stage_ok s'" "noticed s'" "same_queue s s'" "sv_logging_requested s' = sv_logging_requested s"
    "wi_running W (sv_writer s') = wi_running W (sv_writer s)"
proof -
  have "stage_ok s' \<and> noticed s' \<and> same_queue s s' \<and> sv_logging_requested s' = sv_logging_requested s \<and>
    wi_running W (sv_writer s') = wi_running W (sv_writer s)"
    unfolding s'_def using assms(1,2)
  proof (induction xs arbitrary: s)
    case (Cons x xs)
    define s1 where "s1 = s\<lparr>sv_writer := wi_tick W x (sv_writer s)\<rparr>"
    have "ok (sv_writer s)" using Cons.prems by (simp add: stage_ok_def)
    from tick_law [OF this, of x] Cons.prems have "stage_ok s1" "noticed s1" "wi_running W (sv_writer s1) = wi_running W (sv_writer s)"
      by (auto simp: s1_def stage_ok_def noticed_def)
    with Cons.IH [of s1] show ?case by (auto simp: s1_def writer_ticks_def same_queue_def)
  qed (simp add: writer_ticks_def same_queue_def)
  then show "stage_ok s'" "noticed s'" "same_queue s s'" "sv_logging_requested s' = sv_logging_requested s"
    "wi_running W (sv_writer s') = wi_running W (sv_writer s)" by auto
qed

lemma noticed_stopped: "\<not> wi_running W (sv_writer s) \<Longrightarrow> noticed s"
  by (simp add: noticed_def)

lemma flag_stage [simp]:
  "stage_ok (s\<lparr>sv_logging_requested := c\<rparr>) = stage_ok s" "noticed (s\<lparr>sv_logging_requested := c\<rparr>) = noticed s"
  "same_queue t (s\<lparr>sv_logging_requested := c\<rparr>) = same_queue t s"
  by (simp_all add: stage_ok_def noticed_def same_queue_def)

lemma StopIfFailed_stage:
  assumes "stage_ok s"
  defines "s' \<equiv> StopIfFailed W s"
  shows "stage_ok s'" "same_queue s s'" "\<not> wi_running W (sv_writer s') \<or> \<not> wi_failed W (sv_writer s')"
    "wi_running W (sv_writer s') \<longrightarrow> wi_running W (sv_writer s)" "sv_logging_requested s' \<longrightarrow> sv_logging_requested s"
proof -
  define s1 where "s1 = s\<lparr>sv_failure_reason := LS_Stopped, sv_logging_requested := False\<rparr>"
  obtain b s2 where st: "StopWriter W LS_Stopped s1 = (b, s2)" by (metis prod.exhaust)
  have "stage_ok s1" using assms(1) by (simp add: s1_def stage_ok_def)
  from StopWriter_stage [OF st this stopped_reason] st assms show "stage_ok s'" "same_queue s s'"
    "\<not> wi_running W (sv_writer s') \<or> \<not> wi_failed W (sv_writer s')" "wi_running W (sv_writer s') \<longrightarrow> wi_running W (sv_writer s)"
    "sv_logging_requested s' \<longrightarrow> sv_logging_requested s"
    by (auto simp: StopIfFailed_def Let_def s1_def same_queue_def stage_ok_def)
qed

lemma ApplyStart_stage:
  assumes "ApplyStart W e s = (b, s')" "stage_ok s" "noticed s"
  shows "stage_ok s'" "noticed s'" "same_queue s s'" "sv_logging_requested s' = wi_running W (sv_writer s')"
proof -
  obtain stopped s1 where st: "(if wi_running W (sv_writer s) then StopWriter W LS_Stopped s else (True, s)) = (stopped, s1)"
    by (metis prod.exhaust)
  obtain is_started s2 where start: "StartWriter W e s1 = (is_started, s2)" by (metis prod.exhaust)
  have s1: "stopped" "stage_ok s1" "noticed s1" "same_queue s s1"
    using st StopWriter_stage [of LS_Stopped s stopped s1] assms(2,3) noticed_stopped [of s1]
    by (auto simp: same_queue_def split: if_splits)
  note s2 = StartWriter_stage [OF start s1(2,3)]
  have queue: "same_queue s s" "same_queue s s2" using s1(4) s2(4) by (simp_all add: same_queue_def)
  consider "s' = s\<lparr>sv_logging_requested := True\<rparr>" "wi_running W (sv_writer s)" | "s' = s2\<lparr>sv_logging_requested := is_started\<rparr>"
    using assms(1) s1(1) unfolding ApplyStart_def st prod.case start by (cases "wi_running W (sv_writer s) \<and> \<not> wi_failed W (sv_writer s)") auto
  then show "stage_ok s'" "noticed s'" "same_queue s s'" "sv_logging_requested s' = wi_running W (sv_writer s')"
    by (cases; use assms(2,3) s2(1-3) in \<open>simp add: queue\<close>)+
qed

lemma ApplyStop_stage:
  assumes "stage_ok s" "\<not> failure_reason r"
  defines "s' \<equiv> ApplyStop W r s"
  shows "stage_ok s'" "same_queue s s'" "\<not> wi_running W (sv_writer s')" "\<not> sv_logging_requested s'"
proof -
  obtain b s2 where st: "StopWriter W r (s\<lparr>sv_logging_requested := False\<rparr>) = (b, s2)" by (metis prod.exhaust)
  have "stage_ok (s\<lparr>sv_logging_requested := False\<rparr>)" using assms(1) by (simp add: stage_ok_def)
  from StopWriter_stage [OF st this assms(2)] st show "stage_ok s'" "same_queue s s'" "\<not> wi_running W (sv_writer s')"
    "\<not> sv_logging_requested s'" by (auto simp: s'_def ApplyStop_def same_queue_def)
qed

lemma RestartIfRunning_stage:
  fixes s :: "'w supervisor" and e :: 'e
  assumes "stage_ok s" "noticed s"
  defines "s' \<equiv> RestartIfRunning W e s"
  shows "stage_ok s'" "noticed s'" "same_queue s s'" "wi_running W (sv_writer s') \<longrightarrow> wi_running W (sv_writer s)"
    "s' = s \<or> sv_logging_requested s' = wi_running W (sv_writer s')"
proof -
  obtain stopped s1 where st: "StopWriter W LS_Stopped s = (stopped, s1)" by (metis prod.exhaust)
  obtain is_started s2 where start: "StartWriter W e s1 = (is_started, s2)" by (metis prod.exhaust)
  note s1 = StopWriter_stage [OF st assms(1) stopped_reason]
  note s2 = StartWriter_stage [OF start s1(2) noticed_stopped [OF s1(3)]]
  have queue: "same_queue s s" "same_queue s s2" using s1(4) s2(4) by (simp_all add: same_queue_def)
  consider "s' = s" | "s' = s2\<lparr>sv_logging_requested := is_started\<rparr>" "wi_running W (sv_writer s)"
    using s1(1) unfolding s'_def RestartIfRunning_def st prod.case start
    by (cases "\<not> wi_running W (sv_writer s) \<or> wi_failed W (sv_writer s)") auto
  then show "stage_ok s'" "noticed s'" "same_queue s s'" "wi_running W (sv_writer s') \<longrightarrow> wi_running W (sv_writer s)"
    "s' = s \<or> sv_logging_requested s' = wi_running W (sv_writer s')"
    by (cases; use assms(1,2) s2(1-3) in \<open>simp add: queue\<close>)+
qed

text \<open>A request once served: no request is pending, and the writer does what the request said.\<close>

definition request_served :: "Request \<Rightarrow> 'w supervisor \<Rightarrow> bool" where
  "request_served q s \<longleftrightarrow> sv_pending s = Request_None \<and>
     (q = Request_Stop \<longrightarrow> \<not> wi_running W (sv_writer s) \<and> \<not> sv_logging_requested s) \<and>
     (q = Request_Start \<longrightarrow> sv_logging_requested s = wi_running W (sv_writer s))"

lemma serve_request_stage:
  assumes "serve_request W e s = (b, s')" "stage_ok s" "noticed s"
  shows "stage_ok s'" "noticed s'" "request_served (sv_pending s) s'" "sv_restart_due s' = sv_restart_due s"
    "sv_scheduled s' = sv_scheduled s" "sv_delivered s' = sv_delivered s" "sv_initialized s' = sv_initialized s"
    "sv_pending s = Request_None \<longrightarrow> s' = s"
proof -
  define s1 where "s1 = s\<lparr>sv_pending := Request_None\<rparr>"
  define s2 where "s2 = s\<lparr>sv_pending := Request_None, sv_stop_reason := LS_Stopped\<rparr>"
  obtain b1 t1 where start: "ApplyStart W e s1 = (b1, t1)" by (metis prod.exhaust)
  have "stage_ok s1" "noticed s1" "stage_ok s2" "\<not> failure_reason (sv_stop_reason s)"
    using assms(2,3) by (simp_all add: s1_def s2_def stage_ok_def noticed_def)
  note a = ApplyStart_stage [OF start this(1,2)] ApplyStop_stage [OF this(3,4)]
    noticed_stopped [OF ApplyStop_stage(3) [OF this(3,4)]]
  show "stage_ok s'" "noticed s'" "request_served (sv_pending s) s'" "sv_restart_due s' = sv_restart_due s"
    "sv_scheduled s' = sv_scheduled s" "sv_delivered s' = sv_delivered s" "sv_initialized s' = sv_initialized s"
    "sv_pending s = Request_None \<longrightarrow> s' = s"
    using assms start a unfolding serve_request_def s1_def [symmetric] s2_def [symmetric]
    by (auto simp: request_served_def same_queue_def s1_def s2_def split: Request.splits)
qed

lemma Process_stage:
  fixes s :: "'w supervisor" and xs ys :: "'x list" and e :: 'e
  assumes "stage_ok s"
  defines "s' \<equiv> Supervisor_Process W e xs ys s"
  shows "stage_ok s'" "noticed s'" "request_served (sv_pending s) s'" "\<not> sv_restart_due s'" "\<not> sv_scheduled s'"
    "sv_initialized s' = sv_initialized s"
    "sv_pending s = Request_None \<and> \<not> wi_running W (sv_writer s) \<longrightarrow>
       \<not> wi_running W (sv_writer s') \<and> (sv_logging_requested s' \<longrightarrow> sv_logging_requested s)"
proof -
  define s0 where "s0 = s\<lparr>sv_scheduled := False, sv_restart_due := False\<rparr>"
  define s1 where "s1 = StopIfFailed W s0"
  define s2 where "s2 = writer_ticks W xs s1"
  obtain b s3 where serve: "serve_request W e s2 = (b, s3)" by (metis prod.exhaust)
  define s4 where "s4 = writer_ticks W ys s3"
  have "stage_ok s0" using assms(1) by (simp add: s0_def stage_ok_def)
  note f1 = StopIfFailed_stage [OF this, folded s1_def]
  then have "noticed s1" by (auto simp: noticed_def)
  note f2 = tick_stage [OF f1(1) this, of xs, folded s2_def]
  note f3 = serve_request_stage [OF serve f2(1,2)]
  note f4 = tick_stage [OF f3(1,2), of ys, folded s4_def]
  note f5 = RestartIfRunning_stage [OF f4(1,2), of e]
  have s': "s' = (if sv_restart_due s \<and> \<not> b then RestartIfRunning W e s4 else s4)"
    by (simp add: s'_def Supervisor_Process_def Let_def s0_def [symmetric] s1_def [symmetric] s2_def [symmetric] serve s4_def)
  have p: "sv_pending s2 = sv_pending s" using f1(2) f2(3) by (simp add: same_queue_def s0_def)
  have s4: "request_served (sv_pending s) s4" using f3(3) f4(3-5) by (auto simp: request_served_def same_queue_def p)
  then have "request_served (sv_pending s) (RestartIfRunning W e s4)" using f5(3-5) by (auto simp: request_served_def same_queue_def)
  with s4 show "request_served (sv_pending s) s'" using s' by simp
  show "stage_ok s'" "noticed s'" using s' f4(1,2) f5(1,2) by simp_all
  show "\<not> sv_restart_due s'" "\<not> sv_scheduled s'" "sv_initialized s' = sv_initialized s"
    using s' f1(2) f2(3) f3(4,5,7) f4(3) f5(3) by (auto simp: same_queue_def s0_def)
  show "sv_pending s = Request_None \<and> \<not> wi_running W (sv_writer s) \<longrightarrow>
       \<not> wi_running W (sv_writer s') \<and> (sv_logging_requested s' \<longrightarrow> sv_logging_requested s)"
  proof (intro impI)
    assume h: "sv_pending s = Request_None \<and> \<not> wi_running W (sv_writer s)"
    then have "s3 = s2" "\<not> wi_running W (sv_writer s4)" "sv_logging_requested s4 \<longrightarrow> sv_logging_requested s"
      using f1(4,5) f2(4,5) f3(8) f4(4,5) p by (auto simp: s0_def)
    moreover from this(2) have "s' = s4" using s' by (simp add: RestartIfRunning_def)
    ultimately show "\<not> wi_running W (sv_writer s') \<and> (sv_logging_requested s' \<longrightarrow> sv_logging_requested s)" by simp
  qed
qed

lemma supervised_stage: "supervised s \<Longrightarrow> stage_ok s"
  by (simp add: supervised_def stage_ok_def)

lemma supervisedI:
  "stage_ok s \<Longrightarrow> noticed s \<Longrightarrow> sv_pending s \<noteq> Request_None \<or> sv_restart_due s \<longrightarrow> sv_scheduled s \<Longrightarrow> supervised s"
  by (simp add: supervised_def stage_ok_def)

lemma supervised_deliver:
  assumes "supervised s"
  shows "supervised (supervisor_do W Do_Deliver s)"
proof (cases "sv_initialized s \<and> sv_delivered s < length (wi_published W (sv_writer s))")
  case True
  let ?e = "wi_published W (sv_writer s) ! sv_delivered s"
  define s' where "s' = (OnStatusUpdated ?e s)\<lparr>sv_delivered := sv_delivered s + 1\<rparr>"
  have keep: "sv_writer s' = sv_writer s" "sv_stop_reason s' = sv_stop_reason s" "sv_pending s' = sv_pending s"
    "sv_restart_due s' = sv_restart_due s" "sv_scheduled s \<longrightarrow> sv_scheduled s'" "sv_delivered s' = sv_delivered s + 1"
    by (simp_all add: s'_def OnStatusUpdated_def Let_def)
  have "noticed s'"
  proof (cases "wi_running W (sv_writer s) \<and> wi_failed W (sv_writer s) \<and> sv_delivered s' = length (wi_published W (sv_writer s))")
    case last: True
    from failed_law [of "sv_writer s"] last assms obtain es r where
      p: "wi_published W (sv_writer s) = es @ [(False, Some r)]" "failure_reason r" by (auto simp: supervised_def)
    with last keep(6) have "?e = (False, Some r)" by simp
    then have "sv_scheduled s'" using p(2) by (auto simp: s'_def OnStatusUpdated_def Let_def failure_reason_def)
    then show ?thesis by (simp add: noticed_def)
  next
    case False
    then show ?thesis using True keep by (auto simp: noticed_def)
  qed
  then have "supervised s'" using assms True keep by (auto simp: supervised_def)
  then show ?thesis using True by (simp add: s'_def)
next
  case False
  then show ?thesis using assms by (simp only: supervisor_do.simps if_not_P [OF False] if_False)
qed

lemma supervised_dependent:
  assumes "supervised s"
  shows "supervised (snd (Dependent_Stop W s))" "supervised (snd (Dependent_Start W e s))"
proof -
  have st: "stage_ok s" "noticed s" "sv_pending s \<noteq> Request_None \<or> sv_restart_due s \<longrightarrow> sv_scheduled s"
    using assms by (auto simp: supervised_def stage_ok_def)
  obtain b1 s1 where stop: "StopWriter W LS_Stopped s = (b1, s1)" by (metis prod.exhaust)
  from StopWriter_stage [OF stop st(1) stopped_reason] st(3) show "supervised (snd (Dependent_Stop W s))"
    using stop noticed_stopped by (auto simp: Dependent_Stop_def same_queue_def intro!: supervisedI)
  obtain b2 s2 where start: "StartWriter W e s = (b2, s2)" by (metis prod.exhaust)
  from StartWriter_stage [OF start st(1,2)] st(3) have "supervised (s2\<lparr>sv_logging_requested := b2\<rparr>)"
    by (auto simp: same_queue_def intro!: supervisedI)
  moreover have "supervised (s\<lparr>sv_logging_requested := False\<rparr>)" using st by (auto intro!: supervisedI)
  ultimately show "supervised (snd (Dependent_Start W e s))" using assms start by (auto simp: Dependent_Start_def)
qed

lemma supervised_request:
  assumes "supervised s"
  shows "supervised (RequestStart s)" "supervised (OnConfigurationUpdated s)"
    "\<not> failure_reason r \<Longrightarrow> supervised (RequestStopWithReason r s)"
  using assms by (auto simp: supervised_def noticed_def RequestStart_def RequestStopWithReason_def OnConfigurationUpdated_def)

theorem supervised_step: "supervised s \<Longrightarrow> step_ok x \<Longrightarrow> supervised (supervisor_do W x s)"
proof (cases x)
  case (Do_Task e xs ys)
  assume "supervised s"
  then show ?thesis using Process_stage [OF supervised_stage] Do_Task by (auto simp: request_served_def intro!: supervisedI)
next
  case (Do_Tick t)
  assume s: "supervised s"
  then have "noticed s" by (simp add: supervised_def)
  note t = tick_stage [OF supervised_stage [OF s] this, of "[t]"]
  show ?thesis unfolding Do_Tick supervisor_do.simps
    by (rule supervisedI [OF t(1,2)]) (use s t(3) in \<open>simp add: same_queue_def supervised_def\<close>)
qed (simp_all add: supervised_deliver supervised_dependent supervised_request step_ok_def del: supervisor_do.simps(8))

theorem supervised_run: "supervised s \<Longrightarrow> list_all step_ok steps \<Longrightarrow> supervised (supervisor_run W steps s)"
  by (induction steps arbitrary: s) (simp_all add: supervisor_run_def supervised_step)

text \<open>A stopped writer that nobody wants.\<close>

definition resting :: "'w supervisor \<Rightarrow> bool" where
  "resting s \<longleftrightarrow> \<not> wi_running W (sv_writer s) \<and> \<not> sv_logging_requested s \<and> sv_pending s \<noteq> Request_Start"

lemma resting_step:
  assumes "supervised s" "resting s" "x \<noteq> Do_Start"
  shows "resting (supervisor_do W x s)"
proof (cases x)
  case (Do_Task e xs ys)
  note p = Process_stage [OF supervised_stage [OF assms(1)], of e xs ys]
  show ?thesis using assms(2) p(3,7) Do_Task by (cases "sv_pending s") (auto simp: resting_def request_served_def)
next
  case Do_Dependent_Stop
  obtain b1 s1 where stop: "StopWriter W LS_Stopped s = (b1, s1)" by (metis prod.exhaust)
  from StopWriter_stage [OF stop supervised_stage [OF assms(1)] stopped_reason] assms(2) stop Do_Dependent_Stop show ?thesis
    by (auto simp: resting_def Dependent_Stop_def same_queue_def)
next
  case (Do_Tick t)
  have "noticed s" using assms(1) by (simp add: supervised_def)
  from tick_stage [OF supervised_stage [OF assms(1)] this, of "[t]"] assms(2) Do_Tick show ?thesis
    by (auto simp: resting_def same_queue_def)
qed (use assms(2,3) in \<open>auto simp: resting_def RequestStopWithReason_def OnConfigurationUpdated_def Dependent_Start_def
  OnStatusUpdated_def Let_def\<close>)

lemma resting_run:
  "supervised s \<Longrightarrow> list_all step_ok steps \<Longrightarrow> resting s \<Longrightarrow> Do_Start \<notin> set steps \<Longrightarrow> resting (supervisor_run W steps s)"
  by (induction steps arbitrary: s) (auto simp: supervisor_run_def supervised_step resting_step)

theorem stop_holds:
  assumes "supervised s" "sv_initialized s" "list_all step_ok (Do_Stop r # later)" "Do_Start \<notin> set later"
  shows "resting (supervisor_run W (Do_Stop r # Do_Task e xs ys # later) s)"
proof -
  define s1 where "s1 = supervisor_do W (Do_Stop r) s"
  define s2 where "s2 = supervisor_do W (Do_Task e xs ys) s1"
  have s1: "supervised s1" "sv_scheduled s1" "sv_pending s1 = Request_Stop"
    using supervised_step [OF assms(1), of "Do_Stop r"] assms(2,3) by (simp_all add: s1_def RequestStopWithReason_def)
  then have s2: "supervised s2" using supervised_step [OF s1(1), of "Do_Task e xs ys"] by (simp add: s2_def step_ok_def)
  have "resting s2" using Process_stage(3) [OF supervised_stage [OF s1(1)], of e xs ys] s1(2,3)
    by (simp add: s2_def resting_def request_served_def)
  from resting_run [OF s2 _ this assms(4)] assms(3) show ?thesis by (simp add: supervisor_run_def s1_def s2_def)
qed

end

section \<open>The log writer keeps the contract\<close>

lemma run_tick_statuses:
  assumes "writer_ok w"
  shows "lw_has_failed (run_tick Z L E w) = lw_has_failed w \<and> lw_published (run_tick Z L E w) = lw_published w \<or>
    lw_session w \<noteq> None \<and> (\<exists>r. failure_reason r \<and> lw_published (run_tick Z L E w) = lw_published w @ [(False, Some r)])"
proof (cases "lw_scheduled w")
  case (Some d)
  with assms obtain t where t: "lw_task w = Some t" "lt_is_running t" "lw_session w \<noteq> None" "lw_open (w\<lparr>lw_scheduled := None\<rparr>)"
    by (auto simp: writer_ok_def lw_open_def)
  obtain r t' w' where p: "ProcessTick Z L E t (w\<lparr>lw_scheduled := None\<rparr>) = (r, t', w')" by (metis prod.exhaust)
  have run: "run_tick Z L E w = w'\<lparr>lw_task := Some t', lw_scheduled := r\<rparr>" using Some t p by (simp add: run_tick_def)
  from p t(2,4) show ?thesis
  proof (cases rule: ProcessTick_cases)
    case (failed reason w1)
    then have "lw_published w1 = lw_published w" by (simp add: lw_control_def)
    then show ?thesis using failed t(3) run by (auto simp: EndSession_def PublishStatus_def)
  next
    case (written t2)
    then show ?thesis using run by (simp add: lw_control_def)
  qed
qed (simp add: run_tick_def)

lemma Start_statuses:
  assumes "service_ok sb" "LogWriter_Start Z L E sb = (res, sb')"
  shows "(res = Inr True) = (sb_state sb' = RUNNING)" "sb_state sb = RUNNING \<longrightarrow> sb' = sb"
    "sb_state sb' = RUNNING \<and> sb_state sb \<noteq> RUNNING \<longrightarrow> \<not> lw_has_failed (sb_work sb')"
    "lw_published (sb_work sb') = lw_published (sb_work sb) @ (if sb_state sb' = RUNNING \<and> sb_state sb \<noteq> RUNNING then [(True, None)] else [])"
proof -
  have "(res = Inr True) = (sb_state sb' = RUNNING) \<and> (sb_state sb = RUNNING \<longrightarrow> sb' = sb) \<and>
    (sb_state sb' = RUNNING \<and> sb_state sb \<noteq> RUNNING \<longrightarrow> \<not> lw_has_failed (sb_work sb')) \<and>
    lw_published (sb_work sb') = lw_published (sb_work sb) @ (if sb_state sb' = RUNNING \<and> sb_state sb \<noteq> RUNNING then [(True, None)] else [])"
  proof (cases "lw_session (sb_work sb)")
    case None
    obtain ok w' where d: "LogWriter_DoStart Z L E (sb_work sb) = (ok, w')" by (metis prod.exhaust)
    have w: "writer_ok (sb_work sb)" "sb_state sb = STOPPED" using assms(1) None by (simp_all add: service_ok_def)
    from DoStart_outcome [OF d w(1) None] assms(2) d w(2) show ?thesis
      by (auto simp: LogWriter_Start_def Service_Start_def writer_work_def Let_def split: if_splits)
  next
    case (Some since)
    then show ?thesis using assms by (auto simp: service_ok_def LogWriter_Start_def Service_Start_def)
  qed
  then show "(res = Inr True) = (sb_state sb' = RUNNING)" "sb_state sb = RUNNING \<longrightarrow> sb' = sb"
    "sb_state sb' = RUNNING \<and> sb_state sb \<noteq> RUNNING \<longrightarrow> \<not> lw_has_failed (sb_work sb')"
    "lw_published (sb_work sb') = lw_published (sb_work sb) @ (if sb_state sb' = RUNNING \<and> sb_state sb \<noteq> RUNNING then [(True, None)] else [])"
    by auto
qed

lemma failed_last:
  assumes "service_ok sb" "sb_state sb = RUNNING" "lw_has_failed (sb_work sb)"
  shows "\<exists>es r. lw_published (sb_work sb) = es @ [(False, Some r)] \<and> failure_reason r"
proof -
  have r: "status_run Idle (lw_published (sb_work sb)) = Some Failed"
    using assms by (auto simp: service_ok_def writer_ok_def phase_of_def split: if_splits)
  then have "lw_published (sb_work sb) \<noteq> []" by auto
  then obtain es e where p: "lw_published (sb_work sb) = es @ [e]" by (metis rev_exhaust)
  with r obtain q where q: "status_step q e = Some Failed" by (auto simp: status_run_snoc Option.bind_eq_Some_conv)
  obtain a b where e: "e = (a, b)" by (metis prod.exhaust)
  from q have "\<exists>r. e = (False, Some r) \<and> failure_reason r"
    unfolding e by (cases q; cases a; cases b) (auto split: if_splits)
  then show ?thesis using p by blast
qed

interpretation lws: supervised_writer "log_writer_if Z L" service_ok for Z L
proof
  fix w w' :: "('b, 'a) writer_service" and res r
  assume h: "service_ok w" "\<not> failure_reason r" "wi_stop (log_writer_if Z L) r w = (res, w')"
  then have s: "StopWithReason Z L r w = (res, w')" by (simp add: log_writer_if_def)
  note o = StopWithReason_outcome [OF h(1,2) s]
  show "res = Inr True \<and> service_ok w' \<and> \<not> wi_running (log_writer_if Z L) w' \<and>
    wi_published (log_writer_if Z L) w' = wi_published (log_writer_if Z L) w @ (if wi_running (log_writer_if Z L) w then [(False, Some r)] else [])"
    using o h(1) by (auto simp: log_writer_if_def service_ok_def)
next
  fix w w' :: "('b, 'a) writer_service" and res e
  assume h: "service_ok w" "wi_start (log_writer_if Z L) e w = (res, w')"
  then have s: "LogWriter_Start Z L e w = (res, w')" by (simp add: log_writer_if_def)
  note o = Start_statuses [OF h(1) s]
  have "service_ok w'" using Start_ok [OF h(1), of Z L e] s by simp
  then show "service_ok w' \<and> (res = Inr True) = wi_running (log_writer_if Z L) w' \<and> (wi_running (log_writer_if Z L) w \<longrightarrow> w' = w) \<and>
      (wi_running (log_writer_if Z L) w' \<and> \<not> wi_running (log_writer_if Z L) w \<longrightarrow> \<not> wi_failed (log_writer_if Z L) w') \<and>
      wi_published (log_writer_if Z L) w' = wi_published (log_writer_if Z L) w @
        (if wi_running (log_writer_if Z L) w' \<and> \<not> wi_running (log_writer_if Z L) w then [(True, None)] else [])"
    using o by (simp add: log_writer_if_def)
next
  fix w :: "('b, 'a) writer_service" and x
  assume h: "service_ok w"
  then have w: "writer_ok (sb_work w)" by (simp add: service_ok_def)
  show "service_ok (wi_tick (log_writer_if Z L) x w) \<and> wi_running (log_writer_if Z L) (wi_tick (log_writer_if Z L) x w) = wi_running (log_writer_if Z L) w \<and>
      (wi_failed (log_writer_if Z L) (wi_tick (log_writer_if Z L) x w) = wi_failed (log_writer_if Z L) w \<and>
       wi_published (log_writer_if Z L) (wi_tick (log_writer_if Z L) x w) = wi_published (log_writer_if Z L) w \<or>
       wi_running (log_writer_if Z L) w \<and> (\<exists>r. failure_reason r \<and>
         wi_published (log_writer_if Z L) (wi_tick (log_writer_if Z L) x w) = wi_published (log_writer_if Z L) w @ [(False, Some r)]))"
    using run_tick_statuses [OF w, of Z L x] run_tick_ok [OF w, of Z L x] h by (auto simp: log_writer_if_def service_ok_def)
next
  fix w :: "('b, 'a) writer_service"
  assume "service_ok w" "wi_running (log_writer_if Z L) w" "wi_failed (log_writer_if Z L) w"
  then show "\<exists>es r. wi_published (log_writer_if Z L) w = es @ [(False, Some r)] \<and> failure_reason r"
    using failed_last by (auto simp: log_writer_if_def)
qed

section \<open>Properties\<close>

text \<open>A supervisor set up over a stopped log writer.\<close>

definition supervisor_started :: "'v zephyr_fs \<Rightarrow> ('l, 'r, 'v) logger_if \<Rightarrow> ('l, 'v) writer_service \<Rightarrow> ('l, 'v) writer_service supervisor" where
  "supervisor_started Z L sb = snd (Supervisor_Initialize True True (LogWriterSupervisor_new (log_writer_if Z L) sb))"

lemma started_supervised:
  assumes "writer_reach Z L sb" "sb_state sb = STOPPED"
  shows "supervised_writer.supervised (log_writer_if Z L) service_ok (supervisor_started Z L sb)" "sv_initialized (supervisor_started Z L sb)"
  using writer_reach_ok [OF assms(1)] assms(2)
  unfolding lws.supervised_def lws.noticed_def
  by (simp_all add: supervisor_started_def Supervisor_Initialize_def LogWriterSupervisor_new_def log_writer_if_def failure_reason_def)

lemma initialized_calls [simp]:
  "sv_initialized (snd (StopWriter W r s)) = sv_initialized s" "sv_initialized (snd (StartWriter W e s)) = sv_initialized s"
  "sv_initialized (writer_ticks W xs s) = sv_initialized s" "sv_initialized (OnStatusUpdated event s) = sv_initialized s"
  by (simp_all add: StopWriter_def StartWriter_def writer_ticks_def OnStatusUpdated_def Let_def case_prod_beta)

lemma initialized_stages [simp]:
  "sv_initialized (StopIfFailed W s) = sv_initialized s" "sv_initialized (snd (ApplyStart W e s)) = sv_initialized s"
  "sv_initialized (ApplyStop W r s) = sv_initialized s" "sv_initialized (RestartIfRunning W e s) = sv_initialized s"
  by (simp_all add: StopIfFailed_def ApplyStart_def ApplyStop_def RestartIfRunning_def Let_def case_prod_beta)

lemma initialized_task [simp]:
  "sv_initialized (snd (serve_request W e s)) = sv_initialized s" "sv_initialized (Supervisor_Process W e xs ys s) = sv_initialized s"
proof -
  show r: "sv_initialized (snd (serve_request W e s)) = sv_initialized s" for s by (simp add: serve_request_def split: Request.split)
  show "sv_initialized (Supervisor_Process W e xs ys s) = sv_initialized s"
    by (simp add: Supervisor_Process_def Let_def case_prod_beta r)
qed

lemma initialized_run: "sv_initialized s \<Longrightarrow> sv_initialized (supervisor_run W steps s)"
proof (induction steps arbitrary: s)
  case (Cons x steps)
  have "sv_initialized (supervisor_do W x s)" using Cons.prems
    by (cases x) (simp_all add: RequestStart_def RequestStopWithReason_def OnConfigurationUpdated_def Dependent_Stop_def
        Dependent_Start_def case_prod_beta)
  then show ?case using Cons.IH by (simp add: supervisor_run_def)
qed (simp add: supervisor_run_def)

text \<open>
  C6. The supervisor forgets nothing: after any interleaving of requests, stored configurations, restarts of the
  sensors, ticks of the writer and deliveries of its statuses, a request or a stored configuration that is not served
  has the task queued; and a session that failed and is not stopped yet either has the task queued or its failure is
  still on the bus, whose delivery queues it.
\<close>

theorem supervision_complete:
  fixes Z :: "'v zephyr_fs" and L :: "('l, 'r, 'v) logger_if"
  assumes "writer_reach Z L sb" "sb_state sb = STOPPED" "list_all step_ok steps"
    and "s = supervisor_run (log_writer_if Z L) steps (supervisor_started Z L sb)"
  shows "(sv_scheduled s \<or> sv_pending s = Request_None \<and> \<not> sv_restart_due s) \<and>
    (if sb_state (sv_writer s) = RUNNING \<and> lw_has_failed (sb_work (sv_writer s))
     then sv_scheduled s \<or> (\<exists>r. failure_reason r \<and> (False, Some r) \<in> set (drop (sv_delivered s) (lw_published (sb_work (sv_writer s)))))
     else True)"
proof -
  have s: "supervised_writer.supervised (log_writer_if Z L) service_ok s"
    unfolding assms(4) by (rule lws.supervised_run [OF started_supervised(1) [OF assms(1,2)] assms(3)])
  note d = s [unfolded lws.supervised_def lws.noticed_def]
  have "\<exists>r. failure_reason r \<and> (False, Some r) \<in> set (drop (sv_delivered s) (lw_published (sb_work (sv_writer s))))"
    if f: "sb_state (sv_writer s) = RUNNING" "lw_has_failed (sb_work (sv_writer s))" "\<not> sv_scheduled s"
  proof -
    obtain es r where p: "lw_published (sb_work (sv_writer s)) = es @ [(False, Some r)]" "failure_reason r"
      using failed_last [of "sv_writer s"] d f(1,2) by auto
    have "sv_delivered s \<le> length es" using d f p(1) by (simp add: log_writer_if_def)
    then show ?thesis using p by auto
  qed
  then show ?thesis using d by (auto simp: log_writer_if_def)
qed

text \<open>
  C7. The latest request wins and a stop holds: whatever requests came before it, once the task has served a stop the
  writer is stopped with no session, and it stays so through any further stops, stored configurations, restarts of the
  sensors, runs of the task, ticks and events, until a start is requested.
\<close>

theorem stop_request_holds:
  fixes Z :: "'v zephyr_fs" and L :: "('l, 'r, 'v) logger_if"
  assumes "writer_reach Z L sb" "sb_state sb = STOPPED" "list_all step_ok (before @ Do_Stop r # later)" "Do_Start \<notin> set later"
    and "s = supervisor_run (log_writer_if Z L) (before @ Do_Stop r # Do_Task e xs ys # later) (supervisor_started Z L sb)"
  shows "sb_state (sv_writer s) = STOPPED \<and> phase_of (sb_work (sv_writer s)) = Idle \<and> lw_closed (sb_work (sv_writer s)) \<and>
    \<not> sv_logging_requested s"
proof -
  let ?W = "log_writer_if Z L"
  define s0 where "s0 = supervisor_run ?W before (supervisor_started Z L sb)"
  have s0: "supervised_writer.supervised ?W service_ok s0" "sv_initialized s0"
    using lws.supervised_run [OF started_supervised(1) [OF assms(1,2)]] initialized_run [OF started_supervised(2) [OF assms(1,2)]] assms(3)
    by (simp_all add: s0_def)
  have s: "s = supervisor_run ?W (Do_Stop r # Do_Task e xs ys # later) s0" by (simp add: assms(5) s0_def supervisor_run_def)
  have ok: "list_all step_ok (Do_Stop r # later)" "list_all step_ok (Do_Stop r # Do_Task e xs ys # later)"
    using assms(3) by (simp_all add: step_ok_def)
  have "service_ok (sv_writer s)"
    using lws.supervised_run [OF s0(1) ok(2)] by (simp add: s lws.supervised_def)
  moreover have "supervised_writer.resting ?W s" unfolding s by (rule lws.stop_holds [OF s0 ok(1) assms(4)])
  then have "sb_state (sv_writer s) \<noteq> RUNNING" "\<not> sv_logging_requested s" unfolding lws.resting_def by (simp_all add: log_writer_if_def)
  ultimately show ?thesis by (auto simp: service_ok_def writer_ok_def phase_of_def split: if_splits)
qed

section \<open>An instance\<close>

definition card_stopped :: "(nat, ram_volume) writer_service" where
  "card_stopped = snd (Service_Initialize (writer_work (LogWriter_DoInitialize True))
     ((\<lambda>sb. sb\<lparr>sb_work := SetLoggerFactory (sb_work sb)\<rparr>) (ServiceBase_new (LogWriterService_new (st_fs ram_store) 0))))"

lemma card_stopped_reach: "writer_reach log_card plain_logger card_stopped" "sb_state card_stopped = STOPPED"
  unfolding card_stopped_def
  by (intro wr_initialize wr_setup wr_new, simp_all add: ServiceBase_new_def Service_Initialize_def writer_work_def LogWriter_DoInitialize_def)

lemma card_started: "LogWriter_Start log_card plain_logger card_start card_stopped = (Inr True, card_writer)"
proof -
  obtain res sb where s: "LogWriter_Start log_card plain_logger card_start card_stopped = (res, sb)" by (metis prod.exhaust)
  then have "sb = card_writer" by (simp add: card_writer_def card_stopped_def)
  then show ?thesis using Start_statuses(1) [OF writer_reach_ok [OF card_stopped_reach(1)] s] card_writer_started s by auto
qed

abbreviation "card_supervised steps \<equiv> supervisor_run (log_writer_if log_card plain_logger) steps (supervisor_started log_card plain_logger card_stopped)"

lemma card_supervised_start: "sv_writer (card_supervised [Do_Start, Do_Task card_start [] []]) = card_writer"
proof -
  let ?W = "log_writer_if log_card plain_logger"
  have w: "\<not> wi_running ?W card_stopped" "wi_start ?W card_start card_stopped = (Inr True, card_writer)"
    using card_stopped_reach(2) card_started by (simp_all add: log_writer_if_def)
  show ?thesis
    by (simp add: supervisor_run_def supervisor_started_def Supervisor_Initialize_def LogWriterSupervisor_new_def RequestStart_def
        Supervisor_Process_def StopIfFailed_def w serve_request_def ApplyStart_def StartWriter_def writer_ticks_def Let_def)
qed

theorem supervision_complete_witness:
  "\<exists>s. s = card_supervised [Do_Start, Do_Task card_start [] [], Do_Configuration] \<and> sv_restart_due s \<and> sv_scheduled s"
proof -
  define s where "s = card_supervised [Do_Start, Do_Task card_start [] [], Do_Configuration]"
  have "sv_initialized (card_supervised [Do_Start, Do_Task card_start [] []])"
    using initialized_run started_supervised(2) [OF card_stopped_reach] by blast
  then have "sv_restart_due s" by (simp add: s_def supervisor_run_def OnConfigurationUpdated_def)
  moreover have "list_all step_ok [Do_Start, Do_Task card_start [] [] :: (nat start_env, nat tick_env) supervisor_step, Do_Configuration]"
    by (simp add: step_ok_def)
  ultimately show ?thesis using supervision_complete [OF card_stopped_reach _ s_def] s_def by blast
qed

theorem stop_request_holds_witness:
  "sb_state (sv_writer (card_supervised [Do_Start, Do_Task card_start [] []])) = RUNNING \<and>
   sb_state (sv_writer (card_supervised [Do_Start, Do_Task card_start [] [], Do_Stop LS_FirmwareUpdate, Do_Task card_start [] [],
     Do_Configuration, Do_Dependent_Start card_start, Do_Task card_start [] []])) = STOPPED"
proof -
  have "list_all step_ok ([Do_Start, Do_Task card_start [] [] :: (nat start_env, nat tick_env) supervisor_step] @ Do_Stop LS_FirmwareUpdate #
    [Do_Configuration, Do_Dependent_Start card_start, Do_Task card_start [] []])" by (simp add: step_ok_def failure_reason_def)
  from stop_request_holds [OF card_stopped_reach this _ refl, of card_start "[]" "[]"] card_writer_started card_supervised_start
  show ?thesis by auto
qed

end
