(* ===== verification/Sensor_Frame.thy ===== *)
theory Sensor_Frame
  imports Canbus_Bus
begin

text \<open>
  The readings frame, \<open>src/domain/sensor_domain/utilities/sensor_readings_frame.hpp\<close>: one slot per configured sensor,
  looked up by hash through a sorted index, and a ring of raw CAN frames for the log writer. Every operation runs
  under one lock, so it is one step. A float is its 32 bits; a pointer to a sensor or to a CAN frame is the sensor or
  the frame, as neither changes while it is referred to.
\<close>

section \<open>Model\<close>

type_synonym float32 = u32

definition isnan :: "float32 \<Rightarrow> bool" where
  "isnan v \<longleftrightarrow> v AND 0x7FFFFFFF > 0x7F800000"

definition K_NO_VALUE :: float32 where "K_NO_VALUE = 0x7FC00000"

datatype ReadingStatus = RS_UNINITIALIZED | RS_RAW | RS_INTERPOLATED | RS_EXPRESSION_EVALUATED | RS_PROCESSED | RS_ERROR

datatype ReadingError = RE_NONE | RE_READER_FAILED | RE_NO_VALUE | RE_WRONG_STATE | RE_INPUT_UNAVAILABLE | RE_EXPRESSION_FAILED
  | RE_EXPRESSION_NOT_A_NUMBER | RE_SCRIPT_FAILED

datatype ReadingSource = RO_NONE | RO_ISR | RO_PROCESSING

datatype ReadingField = RF_VALUE | RF_CALIBRATED_VOLTAGE | RF_ADC_VOLTAGE

record Sensor =
  sn_id_hash :: u32
  sn_is_enabled :: bool
  sn_is_can_frame :: bool

record SensorReading =
  rd_sensor :: "Sensor option"
  rd_id_hash :: u32
  rd_value :: "float32 option"
  rd_raw_value :: "float32 option"
  rd_calibrated_voltage :: "float32 option"
  rd_adc_voltage :: "float32 option"
  rd_timestamp :: "int option"
  rd_source :: ReadingSource
  rd_status :: ReadingStatus
  rd_error :: ReadingError
  rd_can_frame :: "CanFrame option"

definition SensorReading_of :: "Sensor option \<Rightarrow> SensorReading" where
  "SensorReading_of sensor = \<lparr>rd_sensor = sensor, rd_id_hash = (case sensor of None \<Rightarrow> 0 | Some s \<Rightarrow> sn_id_hash s),
     rd_value = None, rd_raw_value = None, rd_calibrated_voltage = None, rd_adc_voltage = None, rd_timestamp = None,
     rd_source = RO_NONE, rd_status = RS_UNINITIALIZED, rd_error = RE_NONE, rd_can_frame = None\<rparr>"

record Frame_Record =
  rc_value :: float32
  rc_raw_value :: float32
  rc_calibrated_voltage :: float32
  rc_adc_voltage :: float32
  rc_timestamp :: int
  rc_flags :: u8
  rc_status :: ReadingStatus
  rc_error :: ReadingError
  rc_source :: ReadingSource

definition Record_empty :: Frame_Record where
  "Record_empty = \<lparr>rc_value = 0, rc_raw_value = 0, rc_calibrated_voltage = 0, rc_adc_voltage = 0, rc_timestamp = 0, rc_flags = 0,
     rc_status = RS_UNINITIALIZED, rc_error = RE_NONE, rc_source = RO_NONE\<rparr>"

definition K_HAS_VALUE :: u8 where "K_HAS_VALUE = 1"
definition K_HAS_RAW_VALUE :: u8 where "K_HAS_RAW_VALUE = 2"
definition K_HAS_CALIBRATED_VOLTAGE :: u8 where "K_HAS_CALIBRATED_VOLTAGE = 4"
definition K_HAS_TIMESTAMP :: u8 where "K_HAS_TIMESTAMP = 8"
definition K_HAS_ADC_VOLTAGE :: u8 where "K_HAS_ADC_VOLTAGE = 16"

lemmas flag_defs = K_HAS_VALUE_def K_HAS_RAW_VALUE_def K_HAS_CALIBRATED_VOLTAGE_def K_HAS_TIMESTAMP_def K_HAS_ADC_VOLTAGE_def

definition Pack :: "SensorReading \<Rightarrow> Frame_Record" where
  "Pack r =
     (let c0 = Record_empty;
          c1 = (case rd_value r of None \<Rightarrow> c0 | Some v \<Rightarrow> c0\<lparr>rc_value := v, rc_flags := rc_flags c0 OR K_HAS_VALUE\<rparr>);
          c2 = (case rd_raw_value r of None \<Rightarrow> c1 | Some v \<Rightarrow> c1\<lparr>rc_raw_value := v, rc_flags := rc_flags c1 OR K_HAS_RAW_VALUE\<rparr>);
          c3 = (case rd_calibrated_voltage r of None \<Rightarrow> c2
                | Some v \<Rightarrow> c2\<lparr>rc_calibrated_voltage := v, rc_flags := rc_flags c2 OR K_HAS_CALIBRATED_VOLTAGE\<rparr>);
          c4 = (case rd_adc_voltage r of None \<Rightarrow> c3 | Some v \<Rightarrow> c3\<lparr>rc_adc_voltage := v, rc_flags := rc_flags c3 OR K_HAS_ADC_VOLTAGE\<rparr>);
          c5 = (case rd_timestamp r of None \<Rightarrow> c4 | Some v \<Rightarrow> c4\<lparr>rc_timestamp := v, rc_flags := rc_flags c4 OR K_HAS_TIMESTAMP\<rparr>)
      in c5\<lparr>rc_status := rd_status r, rc_error := rd_error r, rc_source := rd_source r\<rparr>)"

definition has_flag :: "u8 \<Rightarrow> Frame_Record \<Rightarrow> bool" where
  "has_flag f c \<longleftrightarrow> rc_flags c AND f \<noteq> 0"

definition Unpack :: "Sensor \<Rightarrow> Frame_Record \<Rightarrow> SensorReading" where
  "Unpack sensor c = (SensorReading_of (Some sensor))\<lparr>
     rd_value := (if has_flag K_HAS_VALUE c then Some (rc_value c) else None),
     rd_raw_value := (if has_flag K_HAS_RAW_VALUE c then Some (rc_raw_value c) else None),
     rd_calibrated_voltage := (if has_flag K_HAS_CALIBRATED_VOLTAGE c then Some (rc_calibrated_voltage c) else None),
     rd_adc_voltage := (if has_flag K_HAS_ADC_VOLTAGE c then Some (rc_adc_voltage c) else None),
     rd_timestamp := (if has_flag K_HAS_TIMESTAMP c then Some (rc_timestamp c) else None),
     rd_status := rc_status c, rd_error := rc_error c, rd_source := rc_source c\<rparr>"

definition SLOT_INVALID :: u16 where "SLOT_INVALID = 0xFFFF"

record Frame_Slot =
  sl_latest :: Frame_Record
  sl_processed :: Frame_Record
  sl_has_reading :: bool
  sl_has_processed :: bool
  sl_is_updated :: bool
  sl_can_frame_index :: u16

definition Slot_empty :: Frame_Slot where
  "Slot_empty = \<lparr>sl_latest = Record_empty, sl_processed = Record_empty, sl_has_reading = False, sl_has_processed = False,
     sl_is_updated = False, sl_can_frame_index = SLOT_INVALID\<rparr>"

record RawCanRecord =
  rw_slot :: u16
  rw_timestamp :: int
  rw_has_timestamp :: bool
  rw_frame :: CanFrame

record SensorReadingsFrame =
  sf_slots :: "Frame_Slot list"
  sf_sensors :: "Sensor list"
  sf_values :: "float32 list"
  sf_index :: "(u32 \<times> u16) list"
  sf_can_frames :: "CanFrame list"
  sf_generation :: u32
  sf_raw_queue :: "RawCanRecord list"
  sf_raw_head :: nat
  sf_raw_count :: nat
  sf_raw_dropped :: u32

definition SensorReadingsFrame_new :: SensorReadingsFrame where
  "SensorReadingsFrame_new = \<lparr>sf_slots = [], sf_sensors = [], sf_values = [], sf_index = [], sf_can_frames = [], sf_generation = 0,
     sf_raw_queue = [], sf_raw_head = 0, sf_raw_count = 0, sf_raw_dropped = 0\<rparr>"

definition ToOptional :: "float32 \<Rightarrow> float32 option" where
  "ToOptional v = (if isnan v then None else Some v)"

definition FindSlotLocked :: "u32 \<Rightarrow> SensorReadingsFrame \<Rightarrow> u16 option" where
  "FindSlotLocked sensor_id_hash s =
     (let i = lower_bound fst sensor_id_hash (sf_index s)
      in if i = length (sf_index s) \<or> fst (sf_index s ! i) \<noteq> sensor_id_hash then None else Some (snd (sf_index s ! i)))"

definition IsValidLocked :: "u16 \<Rightarrow> SensorReadingsFrame \<Rightarrow> bool" where
  "IsValidLocked slot s \<longleftrightarrow> unat slot < length (sf_slots s)"

definition empty_frame :: CanFrame where
  "empty_frame = \<lparr>frame_id = 0, frame_is_extended = False, frame_is_transmit = False, frame_is_can_fd = False,
     frame_is_bitrate_switch = False, frame_is_remote_request = False, frame_data = []\<rparr>"

definition clear_slot :: "Frame_Slot \<Rightarrow> Frame_Slot" where
  "clear_slot sl = sl\<lparr>sl_latest := Record_empty, sl_processed := Record_empty, sl_has_reading := False, sl_has_processed := False,
     sl_is_updated := False\<rparr>"

definition ResetLocked :: "SensorReadingsFrame \<Rightarrow> SensorReadingsFrame" where
  "ResetLocked s = s\<lparr>sf_slots := map clear_slot (sf_slots s), sf_values := map (\<lambda>_. K_NO_VALUE) (sf_values s),
     sf_can_frames := map (\<lambda>_. empty_frame) (sf_can_frames s), sf_raw_head := 0, sf_raw_count := 0\<rparr>"

definition PushRawCanFrameLocked :: "u16 \<Rightarrow> SensorReading \<Rightarrow> CanFrame \<Rightarrow> SensorReadingsFrame \<Rightarrow> SensorReadingsFrame" where
  "PushRawCanFrameLocked slot reading frame s =
     (if sf_raw_queue s = [] then s
      else if sf_raw_count s = length (sf_raw_queue s) then s\<lparr>sf_raw_dropped := sf_raw_dropped s + 1\<rparr>
      else s\<lparr>sf_raw_queue := (sf_raw_queue s)[(sf_raw_head s + sf_raw_count s) mod length (sf_raw_queue s) :=
               \<lparr>rw_slot = slot, rw_timestamp = (case rd_timestamp reading of None \<Rightarrow> 0 | Some t \<Rightarrow> t),
                rw_has_timestamp = (rd_timestamp reading \<noteq> None), rw_frame = frame\<rparr>],
             sf_raw_count := sf_raw_count s + 1\<rparr>)"

section \<open>Operations\<close>

text \<open>
  The slots a configuration lays out: the enabled raw CAN sensors get consecutive places in the frame store. The
  first argument is the next place.
\<close>

fun layout_slots :: "nat \<Rightarrow> Sensor list \<Rightarrow> Frame_Slot list" where
  "layout_slots n [] = []"
| "layout_slots n (sensor # sensors) =
     (if sn_is_enabled sensor \<and> sn_is_can_frame sensor
      then Slot_empty\<lparr>sl_can_frame_index := word_of_nat n\<rparr> # layout_slots (n + 1) sensors
      else Slot_empty # layout_slots n sensors)"

definition can_frame_count :: "Sensor list \<Rightarrow> nat" where
  "can_frame_count sensors = length (filter (\<lambda>sensor. sn_is_enabled sensor \<and> sn_is_can_frame sensor) sensors)"

text \<open>\<open>queue_size\<close> is \<open>RAW_CAN_QUEUE_SIZE\<close>. The hashes of a valid configuration differ, so the sorted index is unique.\<close>

definition Frame_Configure :: "nat \<Rightarrow> Sensor list \<Rightarrow> SensorReadingsFrame \<Rightarrow> u32 \<times> SensorReadingsFrame" where
  "Frame_Configure queue_size sensors s =
     (sf_generation s + 1,
      \<lparr>sf_slots = layout_slots 0 sensors, sf_sensors = sensors, sf_values = replicate (length sensors) K_NO_VALUE,
       sf_index = sort_key fst (zip (map sn_id_hash sensors) (map word_of_nat [0..<length sensors])),
       sf_can_frames = replicate (can_frame_count sensors) empty_frame, sf_generation = sf_generation s + 1,
       sf_raw_queue = replicate (if can_frame_count sensors > 0 then queue_size else 0)
         \<lparr>rw_slot = 0, rw_timestamp = 0, rw_has_timestamp = False, rw_frame = empty_frame\<rparr>,
       sf_raw_head = 0, sf_raw_count = 0, sf_raw_dropped = 0\<rparr>)"

definition FindSlot :: "u32 \<Rightarrow> SensorReadingsFrame \<Rightarrow> u16 option" where
  "FindSlot sensor_id_hash s = FindSlotLocked sensor_id_hash s"

text \<open>An address of a value is the position of its slot.\<close>

definition GetValueAddress :: "u16 \<Rightarrow> SensorReadingsFrame \<Rightarrow> nat option" where
  "GetValueAddress slot s = (if IsValidLocked slot s then Some (unat slot) else None)"

definition GetReadingValuePtr :: "u32 \<Rightarrow> SensorReadingsFrame \<Rightarrow> nat option" where
  "GetReadingValuePtr sensor_id_hash s = map_option unat (FindSlotLocked sensor_id_hash s)"

definition AreValuesAvailable :: "u16 list \<Rightarrow> SensorReadingsFrame \<Rightarrow> bool" where
  "AreValuesAvailable slots s \<longleftrightarrow> list_all (\<lambda>slot. IsValidLocked slot s \<and> \<not> isnan (sf_values s ! unat slot)) slots"

definition store_frame :: "u16 \<Rightarrow> SensorReading \<Rightarrow> SensorReadingsFrame \<Rightarrow> SensorReadingsFrame" where
  "store_frame slot_index reading s =
     (let k = sl_can_frame_index (sf_slots s ! unat slot_index)
      in case rd_can_frame reading of
           None \<Rightarrow> s
         | Some frame \<Rightarrow>
             if k = SLOT_INVALID then s
             else PushRawCanFrameLocked slot_index reading frame (s\<lparr>sf_can_frames := (sf_can_frames s)[unat k := frame]\<rparr>))"

definition AddOrUpdateReading :: "SensorReading \<Rightarrow> SensorReadingsFrame \<Rightarrow> bool \<times> SensorReadingsFrame" where
  "AddOrUpdateReading reading s =
     (if rd_source reading = RO_NONE then (False, s)
      else case FindSlotLocked (rd_id_hash reading) s of
        None \<Rightarrow> (False, s)
      | Some slot_index \<Rightarrow>
          let i = unat slot_index;
              slot1 = (sf_slots s ! i)\<lparr>sl_latest := Pack reading, sl_has_reading := True\<rparr>;
              s1 = store_frame slot_index reading (s\<lparr>sf_slots := (sf_slots s)[i := slot1]\<rparr>)
          in if rd_status reading \<noteq> RS_PROCESSED then (True, s1)
             else let slot2 = slot1\<lparr>sl_processed := sl_latest slot1, sl_has_processed := True, sl_is_updated := True\<rparr>
                  in (True, s1\<lparr>sf_slots := (sf_slots s1)[i := slot2],
                         sf_values := (case rd_value reading of None \<Rightarrow> sf_values s1 | Some v \<Rightarrow> (sf_values s1)[i := v])\<rparr>))"

definition UpdateReadingValue :: "u32 \<Rightarrow> float32 \<Rightarrow> SensorReadingsFrame \<Rightarrow> bool \<times> SensorReadingsFrame" where
  "UpdateReadingValue sensor_id_hash v s =
     (case FindSlotLocked sensor_id_hash s of
        None \<Rightarrow> (False, s)
      | Some slot_index \<Rightarrow>
          let i = unat slot_index; slot = sf_slots s ! i; set_value = (\<lambda>c. c\<lparr>rc_value := v, rc_flags := rc_flags c OR K_HAS_VALUE\<rparr>)
          in if \<not> sl_has_reading slot then (False, s)
             else let slot1 = slot\<lparr>sl_latest := set_value (sl_latest slot)\<rparr>
                  in if sl_has_processed slot1
                     then (True, s\<lparr>sf_slots := (sf_slots s)[i := slot1\<lparr>sl_processed := set_value (sl_processed slot1), sl_is_updated := True\<rparr>],
                            sf_values := (sf_values s)[i := v]\<rparr>)
                     else (True, s\<lparr>sf_slots := (sf_slots s)[i := slot1]\<rparr>))"

definition TryGetReading_slot :: "u16 \<Rightarrow> SensorReadingsFrame \<Rightarrow> SensorReading option" where
  "TryGetReading_slot slot s =
     (if \<not> IsValidLocked slot s \<or> \<not> sl_has_reading (sf_slots s ! unat slot) then None
      else Some (Unpack (sf_sensors s ! unat slot) (sl_latest (sf_slots s ! unat slot))))"

definition TryGetReading :: "u32 \<Rightarrow> SensorReadingsFrame \<Rightarrow> SensorReading option" where
  "TryGetReading sensor_id_hash s =
     (case FindSlotLocked sensor_id_hash s of
        None \<Rightarrow> None
      | Some slot \<Rightarrow> if \<not> sl_has_reading (sf_slots s ! unat slot) then None
                    else Some (Unpack (sf_sensors s ! unat slot) (sl_latest (sf_slots s ! unat slot))))"

definition TryGetReadingValue_slot :: "u16 \<Rightarrow> SensorReadingsFrame \<Rightarrow> float32 option" where
  "TryGetReadingValue_slot slot s = (if IsValidLocked slot s then ToOptional (sf_values s ! unat slot) else None)"

definition TryGetReadingValue :: "u32 \<Rightarrow> SensorReadingsFrame \<Rightarrow> float32 option" where
  "TryGetReadingValue sensor_id_hash s =
     (case FindSlotLocked sensor_id_hash s of None \<Rightarrow> None | Some slot \<Rightarrow> ToOptional (sf_values s ! unat slot))"

text \<open>\<open>n\<close> is the size of the caller's buffer.\<close>

definition GetReadingValues :: "u32 list \<Rightarrow> nat \<Rightarrow> SensorReadingsFrame \<Rightarrow> float32 option list" where
  "GetReadingValues hashes n s = map (\<lambda>h. TryGetReadingValue h s) (take n hashes)"

definition reading_field :: "u32 \<Rightarrow> ReadingField \<Rightarrow> SensorReadingsFrame \<Rightarrow> float32 option" where
  "reading_field sensor_id_hash field s =
     (case FindSlotLocked sensor_id_hash s of
        None \<Rightarrow> None
      | Some slot \<Rightarrow>
          let entry = sf_slots s ! unat slot
          in case field of
               RF_VALUE \<Rightarrow> ToOptional (sf_values s ! unat slot)
             | RF_CALIBRATED_VOLTAGE \<Rightarrow> if sl_has_reading entry \<and> has_flag K_HAS_CALIBRATED_VOLTAGE (sl_latest entry)
                 then Some (rc_calibrated_voltage (sl_latest entry)) else None
             | RF_ADC_VOLTAGE \<Rightarrow> if sl_has_reading entry \<and> has_flag K_HAS_ADC_VOLTAGE (sl_latest entry)
                 then Some (rc_adc_voltage (sl_latest entry)) else None)"

definition GetReadingFields :: "u32 list \<Rightarrow> ReadingField list \<Rightarrow> nat \<Rightarrow> SensorReadingsFrame \<Rightarrow> float32 option list" where
  "GetReadingFields hashes wanted n s = map (\<lambda>(h, f). reading_field h f s) (take n (zip hashes wanted))"

definition TryGetCanFrame :: "u32 \<Rightarrow> SensorReadingsFrame \<Rightarrow> CanFrame option" where
  "TryGetCanFrame sensor_id_hash s =
     (case FindSlotLocked sensor_id_hash s of
        None \<Rightarrow> None
      | Some slot \<Rightarrow>
          let entry = sf_slots s ! unat slot
          in if sl_can_frame_index entry = SLOT_INVALID \<or> \<not> sl_has_reading entry then None
             else Some (sf_can_frames s ! unat (sl_can_frame_index entry)))"

text \<open>The reading of a queued frame.\<close>

definition raw_reading :: "Sensor list \<Rightarrow> RawCanRecord \<Rightarrow> SensorReading" where
  "raw_reading sensors r = (SensorReading_of (Some (sensors ! unat (rw_slot r))))\<lparr>rd_source := RO_ISR, rd_status := RS_PROCESSED,
     rd_timestamp := (if rw_has_timestamp r then Some (rw_timestamp r) else None), rd_can_frame := Some (rw_frame r)\<rparr>"

fun TakeRawCanFrames :: "nat \<Rightarrow> SensorReadingsFrame \<Rightarrow> SensorReading list \<times> SensorReadingsFrame" where
  "TakeRawCanFrames 0 s = ([], s)"
| "TakeRawCanFrames (Suc capacity) s =
     (if sf_raw_count s = 0 then ([], s)
      else let reading = raw_reading (sf_sensors s) (sf_raw_queue s ! sf_raw_head s);
               s1 = s\<lparr>sf_raw_head := (sf_raw_head s + 1) mod length (sf_raw_queue s), sf_raw_count := sf_raw_count s - 1\<rparr>
           in case TakeRawCanFrames capacity s1 of (readings, s2) \<Rightarrow> (reading # readings, s2))"

definition GetDroppedRawCanFrameCount :: "SensorReadingsFrame \<Rightarrow> u32" where
  "GetDroppedRawCanFrameCount s = sf_raw_dropped s"

definition GetProcessedReadingCount :: "SensorReadingsFrame \<Rightarrow> nat" where
  "GetProcessedReadingCount s = length (filter sl_has_processed (sf_slots s))"

definition slot_readings :: "(Frame_Slot \<Rightarrow> Frame_Record option) \<Rightarrow> SensorReadingsFrame \<Rightarrow> SensorReading list" where
  "slot_readings pick s = concat (map (\<lambda>i. case pick (sf_slots s ! i) of None \<Rightarrow> [] | Some c \<Rightarrow> [Unpack (sf_sensors s ! i) c])
     [0..<length (sf_slots s)])"

definition SnapshotProcessedReadings :: "nat \<Rightarrow> SensorReadingsFrame \<Rightarrow> SensorReading list" where
  "SnapshotProcessedReadings n s = take n (slot_readings (\<lambda>sl. if sl_has_processed sl then Some (sl_processed sl) else None) s)"

definition SnapshotLoggableReadings :: "nat \<Rightarrow> SensorReadingsFrame \<Rightarrow> SensorReading list" where
  "SnapshotLoggableReadings n s = take n (slot_readings (\<lambda>sl.
     if sl_has_reading sl \<and> rc_status (sl_latest sl) = RS_ERROR then Some (sl_latest sl)
     else if sl_has_processed sl then Some (sl_processed sl) else None) s)"

text \<open>The loop over the slots: the slots from \<open>i\<close> on, with room for \<open>n\<close> more readings.\<close>

fun take_processed :: "nat \<Rightarrow> Sensor list \<Rightarrow> Frame_Slot list \<Rightarrow> SensorReading list \<times> Frame_Slot list" where
  "take_processed n sensors [] = ([], [])"
| "take_processed n sensors (sl # slots) =
     (if n = 0 then ([], sl # slots)
      else if \<not> sl_is_updated sl then (case take_processed n (tl sensors) slots of (rs, slots') \<Rightarrow> (rs, sl # slots'))
      else case take_processed (n - 1) (tl sensors) slots of (rs, slots') \<Rightarrow>
        (Unpack (hd sensors) (sl_processed sl) # rs, sl\<lparr>sl_is_updated := False\<rparr> # slots'))"

definition TakeProcessedReadings :: "nat \<Rightarrow> SensorReadingsFrame \<Rightarrow> SensorReading list \<times> SensorReadingsFrame" where
  "TakeProcessedReadings n s =
     (case take_processed n (sf_sensors s) (sf_slots s) of (rs, slots) \<Rightarrow> (rs, s\<lparr>sf_slots := slots\<rparr>))"

definition MarkProcessedReadingsUpdated :: "SensorReadingsFrame \<Rightarrow> SensorReadingsFrame" where
  "MarkProcessedReadingsUpdated s = s\<lparr>sf_slots := map (\<lambda>sl. if sl_has_processed sl then sl\<lparr>sl_is_updated := True\<rparr> else sl) (sf_slots s)\<rparr>"

definition HasReading :: "u32 \<Rightarrow> SensorReadingsFrame \<Rightarrow> bool" where
  "HasReading sensor_id_hash s =
     (case FindSlotLocked sensor_id_hash s of None \<Rightarrow> False | Some slot \<Rightarrow> sl_has_reading (sf_slots s ! unat slot))"

definition ClearProcessedReadings :: "SensorReadingsFrame \<Rightarrow> SensorReadingsFrame" where
  "ClearProcessedReadings s = s\<lparr>sf_slots := map (\<lambda>sl. sl\<lparr>sl_processed := Record_empty, sl_has_processed := False, sl_is_updated := False\<rparr>)
     (sf_slots s)\<rparr>"

definition ClearReadings :: "SensorReadingsFrame \<Rightarrow> SensorReadingsFrame" where
  "ClearReadings s = ResetLocked s"

end
