(* ===== verification/Sensor_Frame_Props.thy ===== *)
theory Sensor_Frame_Props
  imports Sensor_Frame "HOL-Library.Multiset" "HOL-Library.Sublist"
begin

text \<open>
  What the readings frame promises: a list of sensors, each with its latest and its processed reading, its value and
  its frame, and a bounded queue of raw frames. The slots, the packed records, the sorted index, the frame store and
  the ring refine it.
\<close>

section \<open>Records\<close>

lemma flag_or:
  "(f OR 1) AND 1 \<noteq> (0 :: u8)" "(f OR 1) AND 2 = f AND (2 :: u8)" "(f OR 1) AND 4 = f AND (4 :: u8)"
  "(f OR 1) AND 8 = f AND (8 :: u8)" "(f OR 1) AND 16 = f AND (16 :: u8)"
  by (simp_all add: bit.conj_disj_distrib2)

text \<open>Packing keeps a reading but for the pointers.\<close>

lemma Pack_fields:
  "rc_status (Pack r) = rd_status r" "rc_error (Pack r) = rd_error r" "rc_source (Pack r) = rd_source r"
  "rd_value r = Some v \<Longrightarrow> rc_value (Pack r) = v" "rd_raw_value r = Some v \<Longrightarrow> rc_raw_value (Pack r) = v"
  "rd_calibrated_voltage r = Some v \<Longrightarrow> rc_calibrated_voltage (Pack r) = v" "rd_adc_voltage r = Some v \<Longrightarrow> rc_adc_voltage (Pack r) = v"
  "rd_timestamp r = Some t \<Longrightarrow> rc_timestamp (Pack r) = t"
  by (simp_all add: Pack_def Let_def split: option.split)

lemma Pack_flags:
  "rc_flags (Pack r) = (if rd_value r = None then 0 else K_HAS_VALUE) OR (if rd_raw_value r = None then 0 else K_HAS_RAW_VALUE) OR
     (if rd_calibrated_voltage r = None then 0 else K_HAS_CALIBRATED_VOLTAGE) OR (if rd_adc_voltage r = None then 0 else K_HAS_ADC_VOLTAGE) OR
     (if rd_timestamp r = None then 0 else K_HAS_TIMESTAMP)"
  by (simp add: Pack_def Let_def Record_empty_def or.assoc split: option.split)

lemma has_flag_Pack:
  "has_flag K_HAS_VALUE (Pack r) \<longleftrightarrow> rd_value r \<noteq> None" "has_flag K_HAS_RAW_VALUE (Pack r) \<longleftrightarrow> rd_raw_value r \<noteq> None"
  "has_flag K_HAS_CALIBRATED_VOLTAGE (Pack r) \<longleftrightarrow> rd_calibrated_voltage r \<noteq> None"
  "has_flag K_HAS_ADC_VOLTAGE (Pack r) \<longleftrightarrow> rd_adc_voltage r \<noteq> None" "has_flag K_HAS_TIMESTAMP (Pack r) \<longleftrightarrow> rd_timestamp r \<noteq> None"
  unfolding has_flag_def Pack_flags flag_defs by (simp_all add: bit.conj_disj_distrib2)

lemma Unpack_Pack:
  "Unpack sensor (Pack r) = r\<lparr>rd_sensor := Some sensor, rd_id_hash := sn_id_hash sensor, rd_can_frame := None\<rparr>"
  by (rule SensorReading.equality) (auto simp: Unpack_def has_flag_Pack Pack_fields SensorReading_of_def)

lemma Unpack_set_value:
  "Unpack sensor (c\<lparr>rc_value := v, rc_flags := rc_flags c OR K_HAS_VALUE\<rparr>) = (Unpack sensor c)\<lparr>rd_value := Some v\<rparr>"
  by (simp add: Unpack_def has_flag_def flag_defs flag_or)

lemma rd_status_Unpack [simp]: "rd_status (Unpack sensor c) = rc_status c"
  by (simp add: Unpack_def)

section \<open>The layout\<close>

interpretation slot_index: sorted_table "fst :: u32 \<times> u16 \<Rightarrow> u32" .

definition sensors_ok :: "Sensor list \<Rightarrow> bool" where
  "sensors_ok sensors \<longleftrightarrow> length sensors < 0xFFFF \<and> distinct (map sn_id_hash sensors)"

definition index_of :: "Sensor list \<Rightarrow> (u32 \<times> u16) list" where
  "index_of sensors = sort_key fst (zip (map sn_id_hash sensors) (map word_of_nat [0..<length sensors]))"

lemma index_of_sorted:
  assumes "sensors_ok sensors"
  shows "sorted_by fst (index_of sensors)"
proof -
  have "map fst (zip (map sn_id_hash sensors) (map word_of_nat [0..<length sensors]) :: (u32 \<times> u16) list) = map sn_id_hash sensors"
    by simp
  moreover have "mset (map fst (index_of sensors)) =
      mset (map fst (zip (map sn_id_hash sensors) (map word_of_nat [0..<length sensors]) :: (u32 \<times> u16) list))"
    unfolding index_of_def mset_map mset_sort ..
  ultimately have "mset (map fst (index_of sensors)) = mset (map sn_id_hash sensors)" by simp
  from mset_eq_imp_distinct_iff [OF this] have "distinct (map fst (index_of sensors))" using assms by (simp add: sensors_ok_def)
  moreover have "sorted (map fst (index_of sensors))" by (simp add: index_of_def)
  ultimately show ?thesis by (simp add: strict_sorted_iff)
qed

lemma unat_small: "n < 0xFFFF \<Longrightarrow> unat (word_of_nat n :: u16) = n"
  by (simp add: unat_of_nat)

lemma index_of_mem:
  assumes "sensors_ok sensors"
  shows "(h, k) \<in> set (index_of sensors) \<longleftrightarrow> unat k < length sensors \<and> sn_id_hash (sensors ! unat k) = h"
proof
  assume "(h, k) \<in> set (index_of sensors)"
  then obtain i where "i < length sensors" "h = sn_id_hash (sensors ! i)" "k = word_of_nat i"
    by (auto simp: index_of_def in_set_zip)
  then show "unat k < length sensors \<and> sn_id_hash (sensors ! unat k) = h" using assms by (simp add: sensors_ok_def unat_small)
next
  assume h: "unat k < length sensors \<and> sn_id_hash (sensors ! unat k) = h"
  then show "(h, k) \<in> set (index_of sensors)" by (auto simp: index_of_def set_zip intro!: exI [of _ "unat k"])
qed

lemma FindSlot_iff:
  assumes "sf_index s = index_of (sf_sensors s)" "sensors_ok (sf_sensors s)"
  shows "FindSlotLocked h s = Some k \<longleftrightarrow> unat k < length (sf_sensors s) \<and> sn_id_hash (sf_sensors s ! unat k) = h"
proof -
  note srt = index_of_sorted [OF assms(2), folded assms(1)]
  have "FindSlotLocked h s = map_option snd (lookup_by fst h (sf_index s))"
  proof (cases "h \<in> fst ` set (sf_index s)")
    case True
    then have "lower_bound fst h (sf_index s) < length (sf_index s)" "fst (sf_index s ! lower_bound fst h (sf_index s)) = h"
      using slot_index.search_found [OF srt, of h] by auto
    then show ?thesis using slot_index.search_lookup [OF srt] by (auto simp: FindSlotLocked_def Let_def)
  next
    case False
    then have "\<not> (lower_bound fst h (sf_index s) < length (sf_index s) \<and> fst (sf_index s ! lower_bound fst h (sf_index s)) = h)"
      using slot_index.search_found [OF srt, of h] by auto
    moreover have "lower_bound fst h (sf_index s) \<le> length (sf_index s)" by (simp add: lower_bound_def length_takeWhile_le)
    ultimately have "FindSlotLocked h s = None" by (auto simp: FindSlotLocked_def Let_def)
    then show ?thesis using False by (simp add: lookup_by_None_iff)
  qed
  then have "FindSlotLocked h s = Some k \<longleftrightarrow> (h, k) \<in> set (sf_index s)"
    using slot_index.lookup_iff [OF srt, of h "(h, k)"] lookup_by_SomeD [of fst h "sf_index s" "(h', k)" for h']
    by (cases "lookup_by fst h (sf_index s)") (auto dest!: lookup_by_SomeD)
  then show ?thesis using index_of_mem [OF assms(2)] assms(1) by simp
qed

section \<open>The specification\<close>

record sensor_entry =
  en_sensor :: Sensor
  en_latest :: "SensorReading option"
  en_processed :: "SensorReading option"
  en_pending :: bool
  en_value :: float32
  en_frame :: "CanFrame option"

record readings_spec =
  rs_entries :: "sensor_entry list"
  rs_queue :: "SensorReading list"
  rs_dropped :: u32

definition en_hash :: "sensor_entry \<Rightarrow> u32" where
  "en_hash e = sn_id_hash (en_sensor e)"

definition new_entry :: "Sensor \<Rightarrow> sensor_entry" where
  "new_entry sensor = \<lparr>en_sensor = sensor, en_latest = None, en_processed = None, en_pending = False, en_value = K_NO_VALUE,
     en_frame = (if sn_is_enabled sensor \<and> sn_is_can_frame sensor then Some empty_frame else None)\<rparr>"

definition entry_for :: "u32 \<Rightarrow> readings_spec \<Rightarrow> sensor_entry option" where
  "entry_for h a = lookup_by en_hash h (rs_entries a)"

definition change_entry :: "u32 \<Rightarrow> (sensor_entry \<Rightarrow> sensor_entry) \<Rightarrow> readings_spec \<Rightarrow> readings_spec" where
  "change_entry h f a = a\<lparr>rs_entries := map (\<lambda>e. if en_hash e = h then f e else e) (rs_entries a)\<rparr>"

text \<open>A reading as the frame keeps it, and as it comes out of the queue.\<close>

definition kept_reading :: "Sensor \<Rightarrow> SensorReading \<Rightarrow> SensorReading" where
  "kept_reading sensor r = r\<lparr>rd_sensor := Some sensor, rd_id_hash := sn_id_hash sensor, rd_can_frame := None\<rparr>"

definition queued_reading :: "Sensor \<Rightarrow> int option \<Rightarrow> CanFrame \<Rightarrow> SensorReading" where
  "queued_reading sensor timestamp frame = (SensorReading_of (Some sensor))\<lparr>rd_source := RO_ISR, rd_status := RS_PROCESSED,
     rd_timestamp := timestamp, rd_can_frame := Some frame\<rparr>"

definition commit_entry :: "SensorReading \<Rightarrow> sensor_entry \<Rightarrow> sensor_entry" where
  "commit_entry r e =
     (let k = kept_reading (en_sensor e) r; processed = (rd_status r = RS_PROCESSED)
      in e\<lparr>en_latest := Some k, en_processed := (if processed then Some k else en_processed e), en_pending := processed \<or> en_pending e,
           en_value := (if processed then (case rd_value r of None \<Rightarrow> en_value e | Some v \<Rightarrow> v) else en_value e),
           en_frame := (case (en_frame e, rd_can_frame r) of (Some _, Some f) \<Rightarrow> Some f | _ \<Rightarrow> en_frame e)\<rparr>)"

definition spec_push :: "nat \<Rightarrow> SensorReading \<Rightarrow> readings_spec \<Rightarrow> readings_spec" where
  "spec_push n r a =
     (if n = 0 then a else if length (rs_queue a) = n then a\<lparr>rs_dropped := rs_dropped a + 1\<rparr> else a\<lparr>rs_queue := rs_queue a @ [r]\<rparr>)"

definition spec_commit :: "nat \<Rightarrow> SensorReading \<Rightarrow> readings_spec \<Rightarrow> bool \<times> readings_spec" where
  "spec_commit n r a =
     (case entry_for (rd_id_hash r) a of
        None \<Rightarrow> (False, a)
      | Some e \<Rightarrow>
          if rd_source r = RO_NONE then (False, a)
          else (True, case (en_frame e, rd_can_frame r) of
                        (Some _, Some f) \<Rightarrow> spec_push n (queued_reading (en_sensor e) (rd_timestamp r) f) (change_entry (rd_id_hash r) (commit_entry r) a)
                      | _ \<Rightarrow> change_entry (rd_id_hash r) (commit_entry r) a))"

definition spec_set_value :: "u32 \<Rightarrow> float32 \<Rightarrow> readings_spec \<Rightarrow> bool \<times> readings_spec" where
  "spec_set_value h v a =
     (case entry_for h a of
        None \<Rightarrow> (False, a)
      | Some e \<Rightarrow>
          if en_latest e = None then (False, a)
          else (True, change_entry h (\<lambda>e. e\<lparr>en_latest := map_option (\<lambda>r. r\<lparr>rd_value := Some v\<rparr>) (en_latest e),
                   en_processed := map_option (\<lambda>r. r\<lparr>rd_value := Some v\<rparr>) (en_processed e),
                   en_pending := en_pending e \<or> en_processed e \<noteq> None, en_value := (if en_processed e = None then en_value e else v)\<rparr>) a))"

text \<open>The pending readings of the first entries that fit, which are then no longer pending.\<close>

fun spec_take :: "nat \<Rightarrow> sensor_entry list \<Rightarrow> SensorReading list \<times> sensor_entry list" where
  "spec_take n [] = ([], [])"
| "spec_take n (e # es) =
     (if n = 0 then ([], e # es)
      else if \<not> en_pending e then (case spec_take n es of (rs, es') \<Rightarrow> (rs, e # es'))
      else case spec_take (n - 1) es of (rs, es') \<Rightarrow> (the (en_processed e) # rs, e\<lparr>en_pending := False\<rparr> # es'))"

definition loggable :: "sensor_entry \<Rightarrow> SensorReading option" where
  "loggable e = (case en_latest e of
     Some r \<Rightarrow> if rd_status r = RS_ERROR then Some r else en_processed e
   | None \<Rightarrow> en_processed e)"

datatype frame_call = Configure_Frame "Sensor list" | Commit_Reading SensorReading | Set_Value u32 float32 | Get_Reading u32 | Get_Value u32
  | Get_Frame u32 | Take_Raw nat | Get_Dropped | Take_Processed nat | Snapshot nat | Snapshot_Loggable nat | Mark_Updated
  | Clear_Processed | Clear_All

datatype frame_answer = Done | Flag bool | Readings "SensorReading list" | Maybe_Reading "SensorReading option"
  | Maybe_Value "float32 option" | Maybe_Frame "CanFrame option" | Count u32

fun spec_call :: "nat \<Rightarrow> frame_call \<Rightarrow> readings_spec \<Rightarrow> frame_answer \<times> readings_spec" where
  "spec_call n (Configure_Frame sensors) a = (Done, \<lparr>rs_entries = map new_entry sensors, rs_queue = [], rs_dropped = 0\<rparr>)"
| "spec_call n (Commit_Reading r) a = apfst Flag (spec_commit n r a)"
| "spec_call n (Set_Value h v) a = apfst Flag (spec_set_value h v a)"
| "spec_call n (Get_Reading h) a = (Maybe_Reading (Option.bind (entry_for h a) en_latest), a)"
| "spec_call n (Get_Value h) a = (Maybe_Value (Option.bind (entry_for h a) (\<lambda>e. ToOptional (en_value e))), a)"
| "spec_call n (Get_Frame h) a = (Maybe_Frame (Option.bind (entry_for h a) (\<lambda>e. if en_latest e = None then None else en_frame e)), a)"
| "spec_call n (Take_Raw m) a = (Readings (take m (rs_queue a)), a\<lparr>rs_queue := drop m (rs_queue a)\<rparr>)"
| "spec_call n Get_Dropped a = (Count (rs_dropped a), a)"
| "spec_call n (Take_Processed m) a = (case spec_take m (rs_entries a) of (rs, es) \<Rightarrow> (Readings rs, a\<lparr>rs_entries := es\<rparr>))"
| "spec_call n (Snapshot m) a = (Readings (take m (List.map_filter en_processed (rs_entries a))), a)"
| "spec_call n (Snapshot_Loggable m) a = (Readings (take m (List.map_filter loggable (rs_entries a))), a)"
| "spec_call n Mark_Updated a = (Done, a\<lparr>rs_entries := map (\<lambda>e. e\<lparr>en_pending := en_pending e \<or> en_processed e \<noteq> None\<rparr>) (rs_entries a)\<rparr>)"
| "spec_call n Clear_Processed a = (Done, a\<lparr>rs_entries := map (\<lambda>e. e\<lparr>en_processed := None, en_pending := False\<rparr>) (rs_entries a)\<rparr>)"
| "spec_call n Clear_All a = (Done, a\<lparr>rs_entries := map (\<lambda>e. new_entry (en_sensor e)) (rs_entries a), rs_queue := []\<rparr>)"

fun frame_do :: "nat \<Rightarrow> frame_call \<Rightarrow> SensorReadingsFrame \<Rightarrow> frame_answer \<times> SensorReadingsFrame" where
  "frame_do n (Configure_Frame sensors) s = (Done, snd (Frame_Configure n sensors s))"
| "frame_do n (Commit_Reading r) s = apfst Flag (AddOrUpdateReading r s)"
| "frame_do n (Set_Value h v) s = apfst Flag (UpdateReadingValue h v s)"
| "frame_do n (Get_Reading h) s = (Maybe_Reading (TryGetReading h s), s)"
| "frame_do n (Get_Value h) s = (Maybe_Value (TryGetReadingValue h s), s)"
| "frame_do n (Get_Frame h) s = (Maybe_Frame (TryGetCanFrame h s), s)"
| "frame_do n (Take_Raw m) s = apfst Readings (TakeRawCanFrames m s)"
| "frame_do n Get_Dropped s = (Count (GetDroppedRawCanFrameCount s), s)"
| "frame_do n (Take_Processed m) s = apfst Readings (TakeProcessedReadings m s)"
| "frame_do n (Snapshot m) s = (Readings (SnapshotProcessedReadings m s), s)"
| "frame_do n (Snapshot_Loggable m) s = (Readings (SnapshotLoggableReadings m s), s)"
| "frame_do n Mark_Updated s = (Done, MarkProcessedReadingsUpdated s)"
| "frame_do n Clear_Processed s = (Done, ClearProcessedReadings s)"
| "frame_do n Clear_All s = (Done, ClearReadings s)"

section \<open>The refinement\<close>

definition slot_entry :: "SensorReadingsFrame \<Rightarrow> nat \<Rightarrow> sensor_entry" where
  "slot_entry s i =
     (let sensor = sf_sensors s ! i; sl = sf_slots s ! i
      in \<lparr>en_sensor = sensor, en_latest = (if sl_has_reading sl then Some (Unpack sensor (sl_latest sl)) else None),
          en_processed = (if sl_has_processed sl then Some (Unpack sensor (sl_processed sl)) else None), en_pending = sl_is_updated sl,
          en_value = sf_values s ! i,
          en_frame = (if sl_can_frame_index sl = SLOT_INVALID then None else Some (sf_can_frames s ! unat (sl_can_frame_index sl)))\<rparr>)"

definition ring :: "SensorReadingsFrame \<Rightarrow> RawCanRecord list" where
  "ring s = map (\<lambda>j. sf_raw_queue s ! ((sf_raw_head s + j) mod length (sf_raw_queue s))) [0..<sf_raw_count s]"

definition abs_frame :: "SensorReadingsFrame \<Rightarrow> readings_spec" where
  "abs_frame s = \<lparr>rs_entries = map (slot_entry s) [0..<length (sf_sensors s)], rs_queue = map (raw_reading (sf_sensors s)) (ring s),
     rs_dropped = sf_raw_dropped s\<rparr>"

definition frame_wf :: "nat \<Rightarrow> SensorReadingsFrame \<Rightarrow> bool" where
  "frame_wf n s \<longleftrightarrow> sensors_ok (sf_sensors s) \<and> sf_index s = index_of (sf_sensors s) \<and>
     length (sf_slots s) = length (sf_sensors s) \<and> length (sf_values s) = length (sf_sensors s) \<and>
     map sl_can_frame_index (sf_slots s) = map sl_can_frame_index (layout_slots 0 (sf_sensors s)) \<and>
     length (sf_can_frames s) = can_frame_count (sf_sensors s) \<and>
     length (sf_raw_queue s) = (if can_frame_count (sf_sensors s) > 0 then n else 0) \<and>
     sf_raw_count s \<le> length (sf_raw_queue s) \<and> (sf_raw_queue s \<noteq> [] \<longrightarrow> sf_raw_head s < length (sf_raw_queue s)) \<and>
     (\<forall>sl \<in> set (sf_slots s). sl_is_updated sl \<longrightarrow> sl_has_processed sl)"

subsection \<open>The frame store\<close>

definition is_can :: "Sensor \<Rightarrow> bool" where
  "is_can sensor \<longleftrightarrow> sn_is_enabled sensor \<and> sn_is_can_frame sensor"

lemma can_frame_count_simps [simp]:
  "can_frame_count [] = 0" "can_frame_count (x # xs) = (if is_can x then 1 else 0) + can_frame_count xs"
  "can_frame_count (xs @ ys) = can_frame_count xs + can_frame_count ys"
  by (simp_all add: can_frame_count_def is_can_def)

lemma can_frame_count_le: "can_frame_count xs \<le> length xs"
  by (simp add: can_frame_count_def)

lemma length_layout [simp]: "length (layout_slots n xs) = length xs"
  by (induction xs arbitrary: n) auto

lemma layout_index:
  "i < length xs \<Longrightarrow> sl_can_frame_index (layout_slots n xs ! i) =
     (if is_can (xs ! i) then word_of_nat (n + can_frame_count (take i xs)) else SLOT_INVALID)"
  by (induction xs arbitrary: n i) (auto simp: nth_Cons' is_can_def Slot_empty_def take_Cons' algebra_simps)

text \<open>Where a raw CAN sensor's frame is.\<close>

definition place :: "Sensor list \<Rightarrow> nat \<Rightarrow> nat" where
  "place xs i = can_frame_count (take i xs)"

lemma place_mono: "i \<le> j \<Longrightarrow> place xs i \<le> place xs j"
proof -
  assume "i \<le> j"
  then have "take j xs = take i xs @ take (j - i) (drop i xs)" by (metis le_add_diff_inverse take_add)
  then show ?thesis by (simp add: place_def)
qed

lemma place_step: "i < length xs \<Longrightarrow> is_can (xs ! i) \<Longrightarrow> place xs (Suc i) = place xs i + 1"
  by (simp add: place_def take_Suc_conv_app_nth)

lemma place_bound: "i < length xs \<Longrightarrow> is_can (xs ! i) \<Longrightarrow> place xs i < can_frame_count xs"
  using place_step [of i xs] place_mono [of "Suc i" "length xs" xs] by (simp add: place_def)

lemma place_inj:
  assumes "i < length xs" "j < length xs" "is_can (xs ! i)" "is_can (xs ! j)" "place xs i = place xs j"
  shows "i = j"
proof (rule linorder_cases [of i j])
  assume "i < j"
  then show ?thesis using place_mono [of "Suc i" j xs] place_step [OF assms(1,3)] assms(5) by simp
next
  assume "j < i"
  then show ?thesis using place_mono [of "Suc j" i xs] place_step [OF assms(2,4)] assms(5) by simp
qed

lemma word_place:
  assumes "sensors_ok xs" "i < length xs"
  shows "unat (word_of_nat (place xs i) :: u16) = place xs i" "word_of_nat (place xs i) \<noteq> SLOT_INVALID"
proof -
  have "place xs i \<le> length (take i xs)" unfolding place_def by (rule can_frame_count_le)
  then have p: "place xs i < 0xFFFF" using assms by (simp add: sensors_ok_def)
  then show u: "unat (word_of_nat (place xs i) :: u16) = place xs i" by (rule unat_small)
  show "word_of_nat (place xs i) \<noteq> SLOT_INVALID"
  proof
    assume "word_of_nat (place xs i) = SLOT_INVALID"
    then have "unat (word_of_nat (place xs i) :: u16) = unat SLOT_INVALID" by simp
    then show False using u p by (simp add: SLOT_INVALID_def)
  qed
qed

lemma wfD:
  assumes "frame_wf n s"
  shows "sensors_ok (sf_sensors s)" "sf_index s = index_of (sf_sensors s)" "length (sf_slots s) = length (sf_sensors s)"
    "length (sf_values s) = length (sf_sensors s)" "length (sf_can_frames s) = can_frame_count (sf_sensors s)"
    "sf_raw_count s \<le> length (sf_raw_queue s)" "sf_raw_queue s \<noteq> [] \<Longrightarrow> sf_raw_head s < length (sf_raw_queue s)"
    "length (sf_raw_queue s) = (if can_frame_count (sf_sensors s) > 0 then n else 0)"
    "\<And>i. i < length (sf_sensors s) \<Longrightarrow> sl_is_updated (sf_slots s ! i) \<Longrightarrow> sl_has_processed (sf_slots s ! i)"
  using assms by (auto simp: frame_wf_def)

lemma wf_updated: "frame_wf n s \<Longrightarrow> sl \<in> set (sf_slots s) \<Longrightarrow> sl_is_updated sl \<Longrightarrow> sl_has_processed sl"
  by (simp add: frame_wf_def)

lemma slot_can_index:
  assumes "frame_wf n s" "i < length (sf_sensors s)"
  shows "sl_can_frame_index (sf_slots s ! i) =
    (if is_can (sf_sensors s ! i) then word_of_nat (place (sf_sensors s) i) else SLOT_INVALID)"
proof -
  have "map sl_can_frame_index (sf_slots s) ! i = map sl_can_frame_index (layout_slots 0 (sf_sensors s)) ! i"
    using assms(1) by (simp add: frame_wf_def)
  then show ?thesis using assms wfD(3) [OF assms(1)] by (simp add: layout_index place_def)
qed

lemma slot_entry_frame:
  assumes "frame_wf n s" "i < length (sf_sensors s)"
  shows "en_frame (slot_entry s i) = (if is_can (sf_sensors s ! i) then Some (sf_can_frames s ! place (sf_sensors s) i) else None)"
  using slot_can_index [OF assms] word_place [OF wfD(1) [OF assms(1)] assms(2)] by (simp add: slot_entry_def Let_def)

subsection \<open>Looking sensors up\<close>

lemma find_slot:
  assumes "frame_wf n s" "FindSlotLocked h s = Some k"
  shows "unat k < length (sf_sensors s)" "\<And>i. i < length (sf_sensors s) \<Longrightarrow> sn_id_hash (sf_sensors s ! i) = h \<longleftrightarrow> i = unat k"
proof -
  have k: "unat k < length (sf_sensors s)" "sn_id_hash (sf_sensors s ! unat k) = h"
    using FindSlot_iff [OF wfD(2,1) [OF assms(1)]] assms(2) by auto
  then show "unat k < length (sf_sensors s)" by simp
  show "sn_id_hash (sf_sensors s ! i) = h \<longleftrightarrow> i = unat k" if "i < length (sf_sensors s)" for i
    using k that wfD(1) [OF assms(1)] nth_eq_iff_index_eq [of "map sn_id_hash (sf_sensors s)" i "unat k"] by (auto simp: sensors_ok_def)
qed

lemma en_hash_slot [simp]: "en_hash (slot_entry s i) = sn_id_hash (sf_sensors s ! i)"
  by (simp add: en_hash_def slot_entry_def Let_def)

lemma lookup_by_map_upt:
  assumes "\<And>i. i < m \<Longrightarrow> key (f i) = h \<longleftrightarrow> i = j" "j < m"
  shows "lookup_by key h (map f [0..<m]) = Some (f j)"
proof (cases "lookup_by key h (map f [0..<m])")
  case None
  then show ?thesis using assms(1) [of j] assms(2) by (auto simp: lookup_by_None_iff)
next
  case (Some x)
  then obtain i where "i < m" "x = f i" "key x = h" using lookup_by_SomeD [OF Some] by auto
  then show ?thesis using Some assms(1) by simp
qed

lemma entry_for_abs:
  assumes "frame_wf n s"
  shows "entry_for h (abs_frame s) = map_option (\<lambda>k. slot_entry s (unat k)) (FindSlotLocked h s)"
proof (cases "FindSlotLocked h s")
  case None
  have "h \<noteq> sn_id_hash (sf_sensors s ! i)" if "i < length (sf_sensors s)" for i
  proof
    assume "h = sn_id_hash (sf_sensors s ! i)"
    moreover have "unat (word_of_nat i :: u16) = i" using that wfD(1) [OF assms] by (simp add: sensors_ok_def unat_small)
    ultimately show False using FindSlot_iff [OF wfD(2,1) [OF assms], of h "word_of_nat i"] None that by simp
  qed
  then show ?thesis using None by (force simp: entry_for_def abs_frame_def lookup_by_None_iff)
next
  case (Some k)
  then show ?thesis using find_slot [OF assms Some]
    by (simp add: entry_for_def abs_frame_def lookup_by_map_upt [of "length (sf_sensors s)" en_hash "slot_entry s" h "unat k"])
qed

subsection \<open>The queue\<close>

lemma length_ring [simp]: "length (ring s) = sf_raw_count s"
  by (simp add: ring_def)

lemma ring_places_differ:
  fixes head :: nat
  assumes "i < j" "j < size_of"
  shows "(head + i) mod size_of \<noteq> (head + j) mod size_of"
proof
  assume "(head + i) mod size_of = (head + j) mod size_of"
  then have "size_of dvd (head + j) - (head + i)" using assms(1) by (metis add_le_cancel_left less_imp_le_nat mod_eq_dvd_iff_nat)
  then show False using assms by (auto dest: dvd_imp_le)
qed

lemma ring_push:
  assumes "sf_raw_count s < length (sf_raw_queue s)"
  shows "ring (s\<lparr>sf_raw_queue := (sf_raw_queue s)[(sf_raw_head s + sf_raw_count s) mod length (sf_raw_queue s) := r],
      sf_raw_count := sf_raw_count s + 1\<rparr>) = ring s @ [r]"
proof -
  let ?L = "length (sf_raw_queue s)"
  have "(sf_raw_head s + sf_raw_count s) mod ?L < ?L" using assms by (auto intro: mod_less_divisor)
  moreover have "(sf_raw_head s + sf_raw_count s) mod ?L \<noteq> (sf_raw_head s + i) mod ?L" if "i < sf_raw_count s" for i
    using ring_places_differ [OF that assms] by (rule not_sym)
  ultimately show ?thesis by (auto simp: ring_def)
qed

lemma slot_entry_push [simp]: "slot_entry (PushRawCanFrameLocked slot r f s) i = slot_entry s i"
  by (simp add: PushRawCanFrameLocked_def slot_entry_def Let_def)

lemma push_keeps [simp]:
  "sf_sensors (PushRawCanFrameLocked slot r f s) = sf_sensors s" "sf_slots (PushRawCanFrameLocked slot r f s) = sf_slots s"
  "sf_values (PushRawCanFrameLocked slot r f s) = sf_values s" "sf_index (PushRawCanFrameLocked slot r f s) = sf_index s"
  "sf_can_frames (PushRawCanFrameLocked slot r f s) = sf_can_frames s"
  by (simp_all add: PushRawCanFrameLocked_def)

lemma push_wf: "frame_wf n s \<Longrightarrow> frame_wf n (PushRawCanFrameLocked slot r f s)"
  by (auto simp: frame_wf_def PushRawCanFrameLocked_def split: if_splits)

lemma push_abs:
  assumes "frame_wf n s" "can_frame_count (sf_sensors s) > 0"
  shows "abs_frame (PushRawCanFrameLocked slot r f s) =
    spec_push n (queued_reading (sf_sensors s ! unat slot) (rd_timestamp r) f) (abs_frame s)"
proof -
  have L: "length (sf_raw_queue s) = n" "sf_raw_count s \<le> n" using wfD(6,8) [OF assms(1)] assms(2) by simp_all
  have entries: "rs_entries (abs_frame (PushRawCanFrameLocked slot r f s)) = rs_entries (abs_frame s)" by (simp add: abs_frame_def)
  define rec where "rec = \<lparr>rw_slot = slot, rw_timestamp = (case rd_timestamp r of None \<Rightarrow> 0 | Some t \<Rightarrow> t),
    rw_has_timestamp = (rd_timestamp r \<noteq> None), rw_frame = f\<rparr>"
  have rec: "raw_reading (sf_sensors s) rec = queued_reading (sf_sensors s ! unat slot) (rd_timestamp r) f"
    by (cases "rd_timestamp r") (simp_all add: rec_def raw_reading_def queued_reading_def)
  consider "n = 0" | "n \<noteq> 0" "sf_raw_count s = n" | "n \<noteq> 0" "sf_raw_count s < n" using L(2) by linarith
  then show ?thesis
  proof cases
    case 1
    then show ?thesis using L by (simp add: PushRawCanFrameLocked_def spec_push_def)
  next
    case 2
    then have "PushRawCanFrameLocked slot r f s = s\<lparr>sf_raw_dropped := sf_raw_dropped s + 1\<rparr>"
      using L(1) by (simp add: PushRawCanFrameLocked_def flip: length_0_conv)
    then show ?thesis using 2 entries by (simp add: abs_frame_def spec_push_def ring_def)
  next
    case 3
    then have p: "PushRawCanFrameLocked slot r f s = s\<lparr>sf_raw_queue := (sf_raw_queue s)[(sf_raw_head s + sf_raw_count s) mod length (sf_raw_queue s) := rec],
        sf_raw_count := sf_raw_count s + 1\<rparr>" using L(1) by (simp add: PushRawCanFrameLocked_def rec_def flip: length_0_conv)
    have "ring (PushRawCanFrameLocked slot r f s) = ring s @ [rec]" unfolding p by (rule ring_push) (use 3 L in simp)
    then have "rs_queue (abs_frame (PushRawCanFrameLocked slot r f s)) = rs_queue (abs_frame s) @ [queued_reading (sf_sensors s ! unat slot) (rd_timestamp r) f]"
      by (simp add: abs_frame_def rec)
    moreover have "rs_dropped (abs_frame (PushRawCanFrameLocked slot r f s)) = rs_dropped (abs_frame s)" by (simp add: p abs_frame_def)
    moreover have "length (rs_queue (abs_frame s)) \<noteq> n" using 3 by (simp add: abs_frame_def)
    ultimately show ?thesis using entries 3 by (simp add: spec_push_def)
  qed
qed

lemma take_raw:
  assumes "frame_wf n s" "TakeRawCanFrames m s = (rs, s')"
  shows "rs = take m (rs_queue (abs_frame s))" "abs_frame s' = (abs_frame s)\<lparr>rs_queue := drop m (rs_queue (abs_frame s))\<rparr>" "frame_wf n s'"
proof -
  have "rs = take m (rs_queue (abs_frame s)) \<and> abs_frame s' = (abs_frame s)\<lparr>rs_queue := drop m (rs_queue (abs_frame s))\<rparr> \<and> frame_wf n s'"
    using assms
  proof (induction m arbitrary: s rs)
    case (Suc m)
    show ?case
    proof (cases "sf_raw_count s = 0")
      case True
      then show ?thesis using Suc.prems by (simp add: abs_frame_def ring_def)
    next
      case False
      define s1 where "s1 = s\<lparr>sf_raw_head := (sf_raw_head s + 1) mod length (sf_raw_queue s), sf_raw_count := sf_raw_count s - 1\<rparr>"
      obtain rs' where t: "TakeRawCanFrames m s1 = (rs', s')" "rs = raw_reading (sf_sensors s) (sf_raw_queue s ! sf_raw_head s) # rs'"
        using Suc.prems(2) False by (auto simp: s1_def Let_def split: prod.splits)
      have q: "sf_raw_queue s \<noteq> []" using False wfD(6) [OF Suc.prems(1)] by auto
      then have h: "sf_raw_head s < length (sf_raw_queue s)" using wfD(7) [OF Suc.prems(1)] by simp
      have wf1: "frame_wf n s1" using Suc.prems(1) q False by (auto simp: frame_wf_def s1_def)
      have "ring s = sf_raw_queue s ! sf_raw_head s # ring s1"
        using False h by (cases "sf_raw_count s") (simp_all add: ring_def s1_def map_upt_Suc mod_add_left_eq del: upt_Suc)
      moreover have "slot_entry s1 i = slot_entry s i" for i by (simp add: s1_def slot_entry_def Let_def)
      ultimately have a: "abs_frame s = (abs_frame s1)\<lparr>rs_queue := raw_reading (sf_sensors s) (sf_raw_queue s ! sf_raw_head s) # rs_queue (abs_frame s1)\<rparr>"
        by (simp add: abs_frame_def s1_def)
      show ?thesis using Suc.IH [OF wf1 t(1)] t(2) by (simp add: a)
    qed
  qed simp
  then show "rs = take m (rs_queue (abs_frame s))" "abs_frame s' = (abs_frame s)\<lparr>rs_queue := drop m (rs_queue (abs_frame s))\<rparr>" "frame_wf n s'"
    by auto
qed

lemma wf_keep:
  assumes "frame_wf n s" "sf_sensors s' = sf_sensors s" "sf_index s' = sf_index s" "sf_raw_queue s' = sf_raw_queue s"
    "sf_raw_count s' = sf_raw_count s" "sf_raw_head s' = sf_raw_head s" "length (sf_slots s') = length (sf_slots s)"
    "length (sf_values s') = length (sf_values s)" "length (sf_can_frames s') = length (sf_can_frames s)"
    "map sl_can_frame_index (sf_slots s') = map sl_can_frame_index (sf_slots s)"
    "\<And>sl. sl \<in> set (sf_slots s') \<Longrightarrow> sl_is_updated sl \<longrightarrow> sl_has_processed sl"
  shows "frame_wf n s'"
  using assms(1,11) unfolding frame_wf_def assms(2-10) by blast

subsection \<open>Committing a reading\<close>

lemma push_update:
  "(PushRawCanFrameLocked k r f s)\<lparr>sf_slots := X\<rparr> = PushRawCanFrameLocked k r f (s\<lparr>sf_slots := X\<rparr>)"
  "(PushRawCanFrameLocked k r f s)\<lparr>sf_values := Y\<rparr> = PushRawCanFrameLocked k r f (s\<lparr>sf_values := Y\<rparr>)"
  by (simp_all add: PushRawCanFrameLocked_def)

text \<open>The frame after a reading was stored, but for the queue.\<close>

definition committed :: "nat \<Rightarrow> SensorReading \<Rightarrow> SensorReadingsFrame \<Rightarrow> SensorReadingsFrame" where
  "committed i r s =
     (let sl = sf_slots s ! i; k = sl_can_frame_index sl
      in s\<lparr>sf_slots := (sf_slots s)[i := if rd_status r = RS_PROCESSED
             then sl\<lparr>sl_latest := Pack r, sl_has_reading := True, sl_processed := Pack r, sl_has_processed := True, sl_is_updated := True\<rparr>
             else sl\<lparr>sl_latest := Pack r, sl_has_reading := True\<rparr>],
           sf_values := (case rd_value r of Some v \<Rightarrow> if rd_status r = RS_PROCESSED then (sf_values s)[i := v] else sf_values s
             | None \<Rightarrow> sf_values s),
           sf_can_frames := (case rd_can_frame r of Some f \<Rightarrow> if k = SLOT_INVALID then sf_can_frames s else (sf_can_frames s)[unat k := f]
             | None \<Rightarrow> sf_can_frames s)\<rparr>)"

lemma AddOrUpdateReading_shape:
  assumes "FindSlotLocked (rd_id_hash r) s = Some k" "rd_source r \<noteq> RO_NONE" "unat k < length (sf_slots s)"
  shows "AddOrUpdateReading r s = (True, case rd_can_frame r of
      Some f \<Rightarrow> if sl_can_frame_index (sf_slots s ! unat k) = SLOT_INVALID then committed (unat k) r s
                else PushRawCanFrameLocked k r f (committed (unat k) r s)
    | None \<Rightarrow> committed (unat k) r s)"
proof -
  let ?i = "unat k"
  define slot1 where "slot1 = (sf_slots s ! ?i)\<lparr>sl_latest := Pack r, sl_has_reading := True\<rparr>"
  define s0 where "s0 = s\<lparr>sf_slots := (sf_slots s)[?i := slot1]\<rparr>"
  define fin where "fin t = (if rd_status r \<noteq> RS_PROCESSED then t
      else t\<lparr>sf_slots := (sf_slots t)[?i := slot1\<lparr>sl_processed := sl_latest slot1, sl_has_processed := True, sl_is_updated := True\<rparr>],
             sf_values := (case rd_value r of None \<Rightarrow> sf_values t | Some v \<Rightarrow> (sf_values t)[?i := v])\<rparr>)" for t :: SensorReadingsFrame
  have a: "AddOrUpdateReading r s = (True, fin (store_frame k r s0))"
    using assms by (simp add: AddOrUpdateReading_def Let_def fin_def slot1_def s0_def)
  have push: "fin (PushRawCanFrameLocked k r f t) = PushRawCanFrameLocked k r f (fin t)" for f t
    by (cases "rd_value r") (simp_all add: fin_def push_update)
  have index: "sl_can_frame_index (sf_slots s0 ! ?i) = sl_can_frame_index (sf_slots s ! ?i)"
    using assms(3) by (simp add: s0_def slot1_def)
  have fin0: "fin (s0\<lparr>sf_can_frames := C\<rparr>) = (s\<lparr>sf_slots := (sf_slots s)[?i := if rd_status r = RS_PROCESSED
             then slot1\<lparr>sl_processed := Pack r, sl_has_processed := True, sl_is_updated := True\<rparr> else slot1],
           sf_values := (case rd_value r of Some v \<Rightarrow> if rd_status r = RS_PROCESSED then (sf_values s)[?i := v] else sf_values s
             | None \<Rightarrow> sf_values s), sf_can_frames := C\<rparr>)" for C
    by (cases "rd_status r = RS_PROCESSED"; cases "rd_value r") (simp_all add: fin_def s0_def slot1_def)
  have s0_same: "s0\<lparr>sf_can_frames := sf_can_frames s\<rparr> = s0" by (simp add: s0_def)
  have c: "committed ?i r s = fin (s0\<lparr>sf_can_frames := (case rd_can_frame r of
      Some f \<Rightarrow> if sl_can_frame_index (sf_slots s ! ?i) = SLOT_INVALID then sf_can_frames s
                else (sf_can_frames s)[unat (sl_can_frame_index (sf_slots s ! ?i)) := f] | None \<Rightarrow> sf_can_frames s)\<rparr>)"
    unfolding fin0 committed_def Let_def slot1_def by simp
  have frames: "sf_can_frames s0 = sf_can_frames s" by (simp add: s0_def)
  show ?thesis
  proof (cases "rd_can_frame r")
    case None
    then show ?thesis unfolding a c by (simp add: store_frame_def s0_same)
  next
    case (Some f)
    show ?thesis
    proof (cases "sl_can_frame_index (sf_slots s ! ?i) = SLOT_INVALID")
      case True
      then show ?thesis unfolding a c using Some by (simp add: store_frame_def index s0_same)
    next
      case False
      then show ?thesis unfolding a c using Some by (simp add: store_frame_def index push frames)
    qed
  qed
qed

lemma change_abs:
  assumes "frame_wf n s" "FindSlotLocked h s = Some k" "sf_sensors s' = sf_sensors s" "ring s' = ring s" "sf_raw_dropped s' = sf_raw_dropped s"
    and "\<And>j. j < length (sf_sensors s) \<Longrightarrow> slot_entry s' j = (if j = unat k then f (slot_entry s j) else slot_entry s j)"
  shows "abs_frame s' = change_entry h f (abs_frame s)"
proof -
  have "map (slot_entry s') [0..<length (sf_sensors s)] =
      map (\<lambda>e. if en_hash e = h then f e else e) (map (slot_entry s) [0..<length (sf_sensors s)])"
    using assms(6) find_slot(2) [OF assms(1,2)] by (simp cong: map_cong)
  then show ?thesis using assms(3-5) by (simp add: abs_frame_def change_entry_def)
qed

lemma committed_wf:
  assumes "frame_wf n s" "i < length (sf_sensors s)"
  shows "frame_wf n (committed i r s)"
proof -
  have "map sl_can_frame_index (sf_slots (committed i r s)) = map sl_can_frame_index (sf_slots s)"
    using assms wfD(3) [OF assms(1)] by (simp add: committed_def Let_def map_update list_update_same_conv)
  moreover have "length (sf_values (committed i r s)) = length (sf_values s)" "length (sf_can_frames (committed i r s)) = length (sf_can_frames s)"
    by (simp_all add: committed_def Let_def split: option.split)
  moreover have "sl_is_updated sl \<longrightarrow> sl_has_processed sl" if "sl \<in> set (sf_slots (committed i r s))" for sl
  proof -
    have "sl \<in> set (sf_slots s) \<or> sl = sf_slots (committed i r s) ! i"
      using that assms(2) wfD(3) [OF assms(1)] by (auto simp: committed_def Let_def dest!: set_update_subset_insert [THEN subsetD])
    moreover have "sl_is_updated (sf_slots (committed i r s) ! i) \<longrightarrow> sl_has_processed (sf_slots (committed i r s) ! i)"
      using assms(2) wfD(3) [OF assms(1)] wfD(9) [OF assms(1), of i] by (simp add: committed_def Let_def)
    ultimately show ?thesis using assms(1) by (auto simp: frame_wf_def)
  qed
  moreover have "sf_sensors (committed i r s) = sf_sensors s" "sf_index (committed i r s) = sf_index s"
    "sf_raw_queue (committed i r s) = sf_raw_queue s" "sf_raw_count (committed i r s) = sf_raw_count s"
    "sf_raw_head (committed i r s) = sf_raw_head s" "length (sf_slots (committed i r s)) = length (sf_slots s)"
    by (simp_all add: committed_def Let_def)
  ultimately show ?thesis by (intro wf_keep [OF assms(1)]) auto
qed

lemma committed_same:
  "sf_sensors (committed i r s) = sf_sensors s" "ring (committed i r s) = ring s" "sf_raw_dropped (committed i r s) = sf_raw_dropped s"
  by (simp_all add: committed_def Let_def ring_def)

lemma committed_entry:
  assumes "frame_wf n s" "i < length (sf_sensors s)" "j < length (sf_sensors s)"
  shows "slot_entry (committed i r s) j = (if j = i then commit_entry r (slot_entry s j) else slot_entry s j)"
proof (rule sensor_entry.equality)
  let ?s' = "committed i r s"
  note len = wfD(3,4,5) [OF assms(1)]
  have slots: "sf_slots ?s' ! j = (if j = i then if rd_status r = RS_PROCESSED
             then (sf_slots s ! i)\<lparr>sl_latest := Pack r, sl_has_reading := True, sl_processed := Pack r, sl_has_processed := True, sl_is_updated := True\<rparr>
             else (sf_slots s ! i)\<lparr>sl_latest := Pack r, sl_has_reading := True\<rparr> else sf_slots s ! j)"
    using assms(2) len by (simp add: committed_def Let_def)
  show "en_sensor (slot_entry ?s' j) = en_sensor (if j = i then commit_entry r (slot_entry s j) else slot_entry s j)"
    by (simp add: slot_entry_def Let_def commit_entry_def committed_same)
  show "en_latest (slot_entry ?s' j) = en_latest (if j = i then commit_entry r (slot_entry s j) else slot_entry s j)"
    by (simp add: slot_entry_def Let_def commit_entry_def committed_same slots Unpack_Pack kept_reading_def)
  show "en_processed (slot_entry ?s' j) = en_processed (if j = i then commit_entry r (slot_entry s j) else slot_entry s j)"
    by (simp add: slot_entry_def Let_def commit_entry_def committed_same slots Unpack_Pack kept_reading_def)
  show "en_pending (slot_entry ?s' j) = en_pending (if j = i then commit_entry r (slot_entry s j) else slot_entry s j)"
    by (simp add: slot_entry_def Let_def commit_entry_def slots)
  have vals: "sf_values ?s' ! j = (if j = i \<and> rd_status r = RS_PROCESSED then (case rd_value r of None \<Rightarrow> sf_values s ! j | Some v \<Rightarrow> v) else sf_values s ! j)"
    using assms(2) len by (cases "rd_value r") (simp_all add: committed_def Let_def)
  have val: "en_value (slot_entry t m) = sf_values t ! m" for t m by (simp add: slot_entry_def Let_def)
  show "en_value (slot_entry ?s' j) = en_value (if j = i then commit_entry r (slot_entry s j) else slot_entry s j)"
    by (cases "rd_value r") (simp_all add: val vals commit_entry_def Let_def)
  have frames: "sf_can_frames ?s' = (case rd_can_frame r of Some f \<Rightarrow> if is_can (sf_sensors s ! i)
      then (sf_can_frames s)[place (sf_sensors s) i := f] else sf_can_frames s | None \<Rightarrow> sf_can_frames s)"
    using slot_can_index [OF assms(1,2)] word_place [OF wfD(1) [OF assms(1)] assms(2)]
    by (simp add: committed_def Let_def split: option.split)
  note fr = slot_entry_frame [OF committed_wf [OF assms(1,2), of r], unfolded committed_same, OF assms(3)] slot_entry_frame [OF assms(1,3)]
  show "en_frame (slot_entry ?s' j) = en_frame (if j = i then commit_entry r (slot_entry s j) else slot_entry s j)"
  proof (cases "is_can (sf_sensors s ! j) \<and> is_can (sf_sensors s ! i)")
    case True
    have "place (sf_sensors s) i < length (sf_can_frames s)" using place_bound [OF assms(2)] True len by simp
    moreover have "place (sf_sensors s) i = place (sf_sensors s) j \<longleftrightarrow> j = i" using place_inj [OF assms(2,3)] True by auto
    ultimately show ?thesis using fr True frames by (auto simp: commit_entry_def Let_def split: option.split)
  next
    case False
    then show ?thesis using fr frames by (auto simp: commit_entry_def Let_def split: option.split)
  qed
qed simp

lemma commit_refines:
  assumes "frame_wf n s" "AddOrUpdateReading r s = (ok, s')"
  shows "spec_commit n r (abs_frame s) = (ok, abs_frame s')" "frame_wf n s'"
proof -
  have "spec_commit n r (abs_frame s) = (ok, abs_frame s') \<and> frame_wf n s'"
  proof (cases "FindSlotLocked (rd_id_hash r) s")
    case None
    then show ?thesis using assms entry_for_abs [OF assms(1), of "rd_id_hash r"] by (simp add: AddOrUpdateReading_def spec_commit_def split: if_splits)
  next
    case (Some k)
    let ?i = "unat k"
    have i: "?i < length (sf_sensors s)" by (rule find_slot [OF assms(1) Some])
    have e: "entry_for (rd_id_hash r) (abs_frame s) = Some (slot_entry s ?i)" using entry_for_abs [OF assms(1)] Some by simp
    show ?thesis
    proof (cases "rd_source r = RO_NONE")
      case True
      then show ?thesis using assms e by (simp add: AddOrUpdateReading_def spec_commit_def)
    next
      case False
      have sh: "(ok, s') = (True, case rd_can_frame r of
          Some f \<Rightarrow> if is_can (sf_sensors s ! ?i) then PushRawCanFrameLocked k r f (committed ?i r s) else committed ?i r s
        | None \<Rightarrow> committed ?i r s)"
        using AddOrUpdateReading_shape [OF Some False] assms(2) i wfD(3) [OF assms(1)] slot_can_index [OF assms(1) i]
          word_place [OF wfD(1) [OF assms(1)] i] by (simp split: option.split)
      have c: "frame_wf n (committed ?i r s)" "abs_frame (committed ?i r s) = change_entry (rd_id_hash r) (commit_entry r) (abs_frame s)"
        by (rule committed_wf [OF assms(1) i], rule change_abs [OF assms(1) Some committed_same committed_entry [OF assms(1) i]])
      have f: "en_frame (slot_entry s ?i) = (if is_can (sf_sensors s ! ?i) then Some (sf_can_frames s ! place (sf_sensors s) ?i) else None)"
        by (rule slot_entry_frame [OF assms(1) i])
      have s: "en_sensor (slot_entry s ?i) = sf_sensors s ! ?i" by (simp add: slot_entry_def Let_def)
      show ?thesis
      proof (cases "is_can (sf_sensors s ! ?i)")
        case True
        then have "can_frame_count (sf_sensors s) > 0" using place_bound [OF i] by simp
        then have p: "abs_frame (PushRawCanFrameLocked k r fr (committed ?i r s)) =
          spec_push n (queued_reading (sf_sensors s ! ?i) (rd_timestamp r) fr) (change_entry (rd_id_hash r) (commit_entry r) (abs_frame s))" for fr
          using push_abs [OF c(1)] by (simp add: committed_same c(2))
        show ?thesis using sh True f e c s False push_wf [OF c(1)] p by (auto simp: spec_commit_def split: option.splits)
      next
        case False2: False
        then show ?thesis using sh f e c False by (auto simp: spec_commit_def split: option.splits)
      qed
    qed
  qed
  then show "spec_commit n r (abs_frame s) = (ok, abs_frame s')" "frame_wf n s'" by auto
qed

subsection \<open>Other changes\<close>

definition revalued :: "float32 \<Rightarrow> sensor_entry \<Rightarrow> sensor_entry" where
  "revalued v e = e\<lparr>en_latest := map_option (\<lambda>r. r\<lparr>rd_value := Some v\<rparr>) (en_latest e),
     en_processed := map_option (\<lambda>r. r\<lparr>rd_value := Some v\<rparr>) (en_processed e),
     en_pending := en_pending e \<or> en_processed e \<noteq> None, en_value := (if en_processed e = None then en_value e else v)\<rparr>"

lemma set_value_refines:
  assumes "frame_wf n s" "UpdateReadingValue h v s = (ok, s')"
  shows "spec_set_value h v (abs_frame s) = (ok, abs_frame s')" "frame_wf n s'"
proof -
  have "spec_set_value h v (abs_frame s) = (ok, abs_frame s') \<and> frame_wf n s'"
  proof (cases "FindSlotLocked h s")
    case None
    then show ?thesis using assms entry_for_abs [OF assms(1), of h] by (simp add: UpdateReadingValue_def spec_set_value_def)
  next
    case (Some k)
    let ?i = "unat k" let ?sl = "sf_slots s ! unat k"
    have i: "?i < length (sf_sensors s)" by (rule find_slot [OF assms(1) Some])
    note len = wfD(3,4) [OF assms(1)]
    have e: "entry_for h (abs_frame s) = Some (slot_entry s ?i)" using entry_for_abs [OF assms(1)] Some by simp
    have l: "en_latest (slot_entry s ?i) = None \<longleftrightarrow> \<not> sl_has_reading ?sl" by (simp add: slot_entry_def Let_def)
    show ?thesis
    proof (cases "sl_has_reading ?sl")
      case False
      then show ?thesis using assms e Some l by (simp add: UpdateReadingValue_def spec_set_value_def Let_def)
    next
      case True
      have upd: "sl_is_updated ?sl \<Longrightarrow> sl_has_processed ?sl" using wfD(9) [OF assms(1) i] .
      have s': "ok" "s' = s\<lparr>sf_slots := (sf_slots s)[?i := ?sl\<lparr>sl_latest := (sl_latest ?sl)\<lparr>rc_value := v, rc_flags := rc_flags (sl_latest ?sl) OR K_HAS_VALUE\<rparr>,
          sl_processed := (if sl_has_processed ?sl then (sl_processed ?sl)\<lparr>rc_value := v, rc_flags := rc_flags (sl_processed ?sl) OR K_HAS_VALUE\<rparr> else sl_processed ?sl),
          sl_is_updated := sl_has_processed ?sl \<or> sl_is_updated ?sl\<rparr>],
          sf_values := (if sl_has_processed ?sl then (sf_values s)[?i := v] else sf_values s)\<rparr>"
        using assms(2) Some True upd by (auto simp: UpdateReadingValue_def Let_def split: if_splits)
      have "frame_wf n s'"
        using i len upd wf_updated [OF assms(1)] by (intro wf_keep [OF assms(1)])
          (auto simp: s' map_update list_update_same_conv dest!: set_update_subset_insert [THEN subsetD])
      moreover have "abs_frame s' = change_entry h (revalued v) (abs_frame s)"
      proof (rule change_abs [OF assms(1) Some])
        show "slot_entry s' j = (if j = ?i then revalued v (slot_entry s j) else slot_entry s j)" if "j < length (sf_sensors s)" for j
          using i that len True upd by (auto simp: s' slot_entry_def Let_def revalued_def Unpack_set_value)
      qed (simp_all add: s' ring_def)
      ultimately show ?thesis using s'(1) e l True by (simp add: spec_set_value_def revalued_def [abs_def])
    qed
  qed
  then show "spec_set_value h v (abs_frame s) = (ok, abs_frame s')" "frame_wf n s'" by auto
qed

lemma map_abs:
  assumes "sf_sensors s' = sf_sensors s" "sf_raw_dropped s' = sf_raw_dropped s"
    and "\<And>j. j < length (sf_sensors s) \<Longrightarrow> slot_entry s' j = g (slot_entry s j)"
  shows "abs_frame s' = (abs_frame s)\<lparr>rs_entries := map g (rs_entries (abs_frame s)), rs_queue := map (raw_reading (sf_sensors s)) (ring s')\<rparr>"
  using assms by (simp add: abs_frame_def cong: map_cong)

lemma take_processed_spec:
  assumes "length sensors = length slots" "length es = length slots"
    "\<forall>i<length slots. en_pending (es ! i) = sl_is_updated (slots ! i) \<and>
       (sl_is_updated (slots ! i) \<longrightarrow> en_processed (es ! i) = Some (Unpack (sensors ! i) (sl_processed (slots ! i))))"
    "take_processed n sensors slots = (rs, slots')"
  shows "length slots' = length slots \<and> fst (spec_take n es) = rs \<and> length (snd (spec_take n es)) = length es \<and>
    (\<forall>i<length slots. slots' ! i = (slots ! i)\<lparr>sl_is_updated := sl_is_updated (slots' ! i)\<rparr> \<and> (sl_is_updated (slots' ! i) \<longrightarrow> sl_is_updated (slots ! i)) \<and>
       snd (spec_take n es) ! i = (es ! i)\<lparr>en_pending := sl_is_updated (slots' ! i)\<rparr>)"
  using assms
proof (induction slots arbitrary: sensors es n rs slots')
  case (Cons sl slots)
  obtain x sensors' where x: "sensors = x # sensors'" using Cons.prems(1) by (cases sensors) auto
  obtain e es' where e: "es = e # es'" using Cons.prems(2) by (cases es) auto
  have prem: "\<forall>i<length slots. en_pending (es' ! i) = sl_is_updated (slots ! i) \<and>
       (sl_is_updated (slots ! i) \<longrightarrow> en_processed (es' ! i) = Some (Unpack (sensors' ! i) (sl_processed (slots ! i))))"
    and e0: "en_pending e = sl_is_updated sl" "sl_is_updated sl \<longrightarrow> en_processed e = Some (Unpack x (sl_processed sl))"
    using Cons.prems(3) unfolding x e by (auto simp: All_less_Suc2)
  have same: "y = y\<lparr>en_pending := en_pending y\<rparr>" for y :: sensor_entry by simp
  obtain rs1 t1 where t1: "take_processed n sensors' slots = (rs1, t1)" by (metis prod.exhaust)
  obtain rs2 t2 where t2: "take_processed (n - 1) sensors' slots = (rs2, t2)" by (metis prod.exhaust)
  note IH1 = Cons.IH [OF _ _ prem t1] note IH2 = Cons.IH [OF _ _ prem t2]
  show ?case
  proof (cases "n = 0")
    case True
    have "y = y\<lparr>en_pending := b\<rparr>" if "en_pending y = b" for y :: sensor_entry and b using that by auto
    then have "\<forall>i<length (sl # slots). es ! i = (es ! i)\<lparr>en_pending := sl_is_updated ((sl # slots) ! i)\<rparr>" using Cons.prems(3) by blast
    moreover have "rs = []" "slots' = sl # slots" "spec_take n es = ([], es)" using True Cons.prems(4) by (simp_all add: e)
    ultimately show ?thesis by simp
  next
    case False
    show ?thesis
    proof (cases "sl_is_updated sl")
      case True
      have r: "rs = Unpack x (sl_processed sl) # rs2" "slots' = sl\<lparr>sl_is_updated := False\<rparr> # t2"
        using Cons.prems(4) False True t2 by (simp_all add: x)
      have sp: "spec_take n es = (the (en_processed e) # fst (spec_take (n - 1) es'), e\<lparr>en_pending := False\<rparr> # snd (spec_take (n - 1) es'))"
        using False True e0 by (simp add: e case_prod_beta)
      show ?thesis unfolding sp r using IH2 Cons.prems(1,2) e0 True by (simp add: All_less_Suc2 x e)
    next
      case no: False
      have r: "rs = rs1" "slots' = sl # t1" using Cons.prems(4) False no t1 by (simp_all add: x)
      have sp: "spec_take n es = (fst (spec_take n es'), e # snd (spec_take n es'))"
        using False no e0 by (simp add: e case_prod_beta)
      show ?thesis unfolding sp r using IH1 Cons.prems(1,2) e0 no by (simp add: All_less_Suc2 x e)
    qed
  qed
qed simp

lemma take_refines:
  assumes "frame_wf n s" "TakeProcessedReadings m s = (rs, s')"
  shows "spec_take m (rs_entries (abs_frame s)) = (rs, rs_entries (abs_frame s'))" "abs_frame s' = (abs_frame s)\<lparr>rs_entries := rs_entries (abs_frame s')\<rparr>"
    "frame_wf n s'"
proof -
  obtain slots' where t: "take_processed m (sf_sensors s) (sf_slots s) = (rs, slots')" "s' = s\<lparr>sf_slots := slots'\<rparr>"
    using assms(2) by (auto simp: TakeProcessedReadings_def split: prod.splits)
  let ?es = "rs_entries (abs_frame s)" and ?n = "length (sf_slots s)"
  note len = wfD(3) [OF assms(1)]
  have nth: "?es ! i = slot_entry s i" if "i < ?n" for i using that len by (simp add: abs_frame_def)
  have "\<forall>i<?n. en_pending (?es ! i) = sl_is_updated (sf_slots s ! i) \<and>
       (sl_is_updated (sf_slots s ! i) \<longrightarrow> en_processed (?es ! i) = Some (Unpack (sf_sensors s ! i) (sl_processed (sf_slots s ! i))))"
    using nth wfD(9) [OF assms(1)] len by (auto simp: slot_entry_def Let_def)
  note sp = take_processed_spec [OF _ _ this t(1)]
  have es: "length ?es = ?n" using len by (simp add: abs_frame_def)
  from sp len es have l: "length slots' = ?n" "fst (spec_take m ?es) = rs" "length (snd (spec_take m ?es)) = ?n"
    and p: "\<And>i. i < ?n \<Longrightarrow> slots' ! i = (sf_slots s ! i)\<lparr>sl_is_updated := sl_is_updated (slots' ! i)\<rparr>"
      "\<And>i. i < ?n \<Longrightarrow> sl_is_updated (slots' ! i) \<Longrightarrow> sl_is_updated (sf_slots s ! i)"
      "\<And>i. i < ?n \<Longrightarrow> snd (spec_take m ?es) ! i = (slot_entry s i)\<lparr>en_pending := sl_is_updated (slots' ! i)\<rparr>"
    using nth by auto
  have same: "sl_has_reading (slots' ! i) = sl_has_reading (sf_slots s ! i)" "sl_latest (slots' ! i) = sl_latest (sf_slots s ! i)"
    "sl_has_processed (slots' ! i) = sl_has_processed (sf_slots s ! i)" "sl_processed (slots' ! i) = sl_processed (sf_slots s ! i)"
    "sl_can_frame_index (slots' ! i) = sl_can_frame_index (sf_slots s ! i)" if "i < ?n" for i
    by (subst p(1) [OF that], simp)+
  have "slot_entry s' i = (slot_entry s i)\<lparr>en_pending := sl_is_updated (slots' ! i)\<rparr>" if "i < ?n" for i
    using same [OF that] by (simp add: t(2) slot_entry_def Let_def)
  then have "snd (spec_take m ?es) = rs_entries (abs_frame s')"
    using l p(3) len by (intro nth_equalityI) (simp_all add: abs_frame_def t(2))
  then show "spec_take m ?es = (rs, rs_entries (abs_frame s'))" using l(2) by (metis prod.collapse)
  show "abs_frame s' = (abs_frame s)\<lparr>rs_entries := rs_entries (abs_frame s')\<rparr>" by (simp add: abs_frame_def t(2) ring_def)
  have "sl_is_updated sl \<longrightarrow> sl_has_processed sl" if "sl \<in> set slots'" for sl
    using that l(1) p(2) same(3) wfD(9) [OF assms(1)] len by (auto simp: in_set_conv_nth)
  moreover have "map sl_can_frame_index slots' = map sl_can_frame_index (sf_slots s)"
    using l(1) same(5) by (intro nth_equalityI) simp_all
  ultimately show "frame_wf n s'" using l(1) by (intro wf_keep [OF assms(1)]) (simp_all add: t(2))
qed

lemma slot_readings_spec:
  assumes "frame_wf n s" "\<And>i. i < length (sf_sensors s) \<Longrightarrow> g (slot_entry s i) = map_option (Unpack (sf_sensors s ! i)) (pick (sf_slots s ! i))"
  shows "slot_readings pick s = List.map_filter g (rs_entries (abs_frame s))"
proof -
  have "List.map_filter g (map (slot_entry s) xs) = concat (map (\<lambda>i. case pick (sf_slots s ! i) of None \<Rightarrow> [] | Some c \<Rightarrow> [Unpack (sf_sensors s ! i) c]) xs)"
    if "set xs \<subseteq> {..<length (sf_sensors s)}" for xs
    using that assms(2) by (induction xs) (auto simp: map_filter_simps split: option.splits)
  then show ?thesis using wfD(3) [OF assms(1)] by (simp add: slot_readings_def abs_frame_def lessThan_atLeast0)
qed

lemma snapshot_refines:
  assumes "frame_wf n s"
  shows "SnapshotProcessedReadings m s = take m (List.map_filter en_processed (rs_entries (abs_frame s)))"
    "SnapshotLoggableReadings m s = take m (List.map_filter loggable (rs_entries (abs_frame s)))"
  unfolding SnapshotProcessedReadings_def SnapshotLoggableReadings_def
  by (subst slot_readings_spec [OF assms, of en_processed], simp add: slot_entry_def Let_def, rule refl,
      subst slot_readings_spec [OF assms, of loggable], simp add: slot_entry_def Let_def loggable_def, rule refl)

lemma marks_refine:
  assumes "frame_wf n s"
  shows "abs_frame (MarkProcessedReadingsUpdated s) = snd (spec_call n Mark_Updated (abs_frame s))" "frame_wf n (MarkProcessedReadingsUpdated s)"
    "abs_frame (ClearProcessedReadings s) = snd (spec_call n Clear_Processed (abs_frame s))" "frame_wf n (ClearProcessedReadings s)"
proof -
  let ?m = "MarkProcessedReadingsUpdated s" and ?c = "ClearProcessedReadings s"
  note len = wfD(3) [OF assms]
  show "frame_wf n ?m" by (rule wf_keep [OF assms]) (auto simp: MarkProcessedReadingsUpdated_def wf_updated [OF assms])
  show "frame_wf n ?c" by (rule wf_keep [OF assms]) (auto simp: ClearProcessedReadings_def)
  have "slot_entry ?m j = (slot_entry s j)\<lparr>en_pending := en_pending (slot_entry s j) \<or> en_processed (slot_entry s j) \<noteq> None\<rparr>"
    if "j < length (sf_sensors s)" for j using that len by (simp add: MarkProcessedReadingsUpdated_def slot_entry_def Let_def)
  from map_abs [OF _ _ this] show "abs_frame ?m = snd (spec_call n Mark_Updated (abs_frame s))"
    by (simp add: MarkProcessedReadingsUpdated_def abs_frame_def ring_def)
  have "slot_entry ?c j = (slot_entry s j)\<lparr>en_processed := None, en_pending := False\<rparr>"
    if "j < length (sf_sensors s)" for j using that len by (simp add: ClearProcessedReadings_def slot_entry_def Let_def)
  from map_abs [OF _ _ this] show "abs_frame ?c = snd (spec_call n Clear_Processed (abs_frame s))"
    by (simp add: ClearProcessedReadings_def abs_frame_def ring_def)
qed

lemma clear_refines:
  assumes "frame_wf n s"
  shows "abs_frame (ClearReadings s) = snd (spec_call n Clear_All (abs_frame s))" "frame_wf n (ClearReadings s)"
proof -
  let ?c = "ClearReadings s"
  note len = wfD(3,4,5) [OF assms]
  have keep: "sf_sensors ?c = sf_sensors s" by (simp add: ClearReadings_def ResetLocked_def)
  have idx: "map sl_can_frame_index (map clear_slot (sf_slots s)) = map sl_can_frame_index (sf_slots s)" by (simp add: clear_slot_def)
  show wf: "frame_wf n ?c"
    using assms idx by (auto simp: frame_wf_def ClearReadings_def ResetLocked_def clear_slot_def)
  have "slot_entry ?c j = new_entry (en_sensor (slot_entry s j))" if j: "j < length (sf_sensors s)" for j
  proof (rule sensor_entry.equality)
    have "place (sf_sensors s) j < length (sf_can_frames s)" if "is_can (sf_sensors s ! j)" using place_bound [OF j that] len by simp
    then show "en_frame (slot_entry ?c j) = en_frame (new_entry (en_sensor (slot_entry s j)))"
      using slot_entry_frame [OF wf, unfolded keep, OF j] by (simp add: slot_entry_def Let_def new_entry_def is_can_def ClearReadings_def ResetLocked_def)
  qed (use j len in \<open>simp_all add: slot_entry_def Let_def new_entry_def ClearReadings_def ResetLocked_def clear_slot_def\<close>)
  from map_abs [OF keep _ this] show "abs_frame ?c = snd (spec_call n Clear_All (abs_frame s))"
    by (simp add: ClearReadings_def ResetLocked_def abs_frame_def ring_def)
qed

lemma layout_empty: "i < length xs \<Longrightarrow> layout_slots m xs ! i = Slot_empty\<lparr>sl_can_frame_index := sl_can_frame_index (layout_slots m xs ! i)\<rparr>"
  by (induction xs arbitrary: m i) (auto simp: nth_Cons' Slot_empty_def)

lemma configure_refines:
  fixes n :: nat and s :: SensorReadingsFrame
  assumes "sensors_ok sensors"
  defines "c \<equiv> snd (Frame_Configure n sensors s)"
  shows "abs_frame c = snd (spec_call n (Configure_Frame sensors) a)" "frame_wf n c"
proof -
  have keep: "sf_sensors c = sensors" by (simp add: c_def Frame_Configure_def)
  have slot: "sf_slots c ! j = Slot_empty\<lparr>sl_can_frame_index := sl_can_frame_index (sf_slots c ! j)\<rparr>" if "j < length sensors" for j
    using layout_empty [OF that] by (simp add: c_def Frame_Configure_def)
  show wf: "frame_wf n c"
  proof -
    have "\<not> sl_is_updated sl" if "sl \<in> set (sf_slots c)" for sl
    proof -
      from that obtain j where "j < length sensors" "sl = sf_slots c ! j" by (auto simp: c_def Frame_Configure_def in_set_conv_nth)
      then show ?thesis by (simp, subst slot [of j]) (simp_all add: Slot_empty_def)
    qed
    then show ?thesis using assms(1) by (auto simp: frame_wf_def c_def Frame_Configure_def index_of_def)
  qed
  have "slot_entry c j = new_entry (sensors ! j)" if j: "j < length sensors" for j
  proof (rule sensor_entry.equality)
    have sl: "\<not> sl_has_reading (sf_slots c ! j)" "\<not> sl_has_processed (sf_slots c ! j)" "\<not> sl_is_updated (sf_slots c ! j)"
      by (subst slot [OF j], simp add: Slot_empty_def)+
    show "en_latest (slot_entry c j) = en_latest (new_entry (sensors ! j))" "en_processed (slot_entry c j) = en_processed (new_entry (sensors ! j))"
      "en_pending (slot_entry c j) = en_pending (new_entry (sensors ! j))" "en_sensor (slot_entry c j) = en_sensor (new_entry (sensors ! j))"
      using sl by (simp_all add: slot_entry_def Let_def new_entry_def keep)
    show "en_value (slot_entry c j) = en_value (new_entry (sensors ! j))"
      using j by (simp add: slot_entry_def Let_def new_entry_def c_def Frame_Configure_def)
    have "place sensors j < can_frame_count sensors" if "is_can (sensors ! j)" using place_bound [OF j that] .
    moreover have "sf_can_frames c = replicate (can_frame_count sensors) empty_frame" by (simp add: c_def Frame_Configure_def)
    ultimately show "en_frame (slot_entry c j) = en_frame (new_entry (sensors ! j))"
      using slot_entry_frame [OF wf, unfolded keep, OF j] by (simp add: new_entry_def is_can_def)
  qed simp
  then have "map (slot_entry c) [0..<length sensors] = map new_entry sensors" by (intro nth_equalityI) simp_all
  moreover have "ring c = []" "sf_raw_dropped c = 0" by (simp_all add: ring_def c_def Frame_Configure_def)
  ultimately show "abs_frame c = snd (spec_call n (Configure_Frame sensors) a)" by (simp add: abs_frame_def keep)
qed

lemma queries_refine:
  assumes "frame_wf n s"
  shows "TryGetReading h s = Option.bind (entry_for h (abs_frame s)) en_latest"
    "TryGetReadingValue h s = Option.bind (entry_for h (abs_frame s)) (\<lambda>e. ToOptional (en_value e))"
    "TryGetCanFrame h s = Option.bind (entry_for h (abs_frame s)) (\<lambda>e. if en_latest e = None then None else en_frame e)"
  unfolding entry_for_abs [OF assms]
  by (cases "FindSlotLocked h s"; simp add: TryGetReading_def TryGetReadingValue_def TryGetCanFrame_def slot_entry_def Let_def)+

section \<open>Properties\<close>

fun run_calls :: "('c \<Rightarrow> 's \<Rightarrow> 'a \<times> 's) \<Rightarrow> 'c list \<Rightarrow> 's \<Rightarrow> 'a list \<times> 's" where
  "run_calls f [] s = ([], s)"
| "run_calls f (c # cs) s = (case f c s of (a, s1) \<Rightarrow> case run_calls f cs s1 of (as, s2) \<Rightarrow> (a # as, s2))"

text \<open>Configurations the validator lets through: fewer sensors than slot numbers, with different hashes.\<close>

definition call_ok :: "frame_call \<Rightarrow> bool" where
  "call_ok c \<longleftrightarrow> (case c of Configure_Frame sensors \<Rightarrow> sensors_ok sensors | _ \<Rightarrow> True)"

lemma frame_do_refines:
  assumes "frame_wf n s" "call_ok c"
  shows "spec_call n c (abs_frame s) = (fst (frame_do n c s), abs_frame (snd (frame_do n c s))) \<and> frame_wf n (snd (frame_do n c s))"
proof (cases c)
  case (Configure_Frame sensors)
  then show ?thesis using configure_refines [where n = n and s = s and sensors = sensors] assms(2) by (simp add: call_ok_def)
next
  case (Commit_Reading r)
  obtain ok s' where "AddOrUpdateReading r s = (ok, s')" by (metis prod.exhaust)
  then show ?thesis using commit_refines [OF assms(1)] Commit_Reading by simp
next
  case (Set_Value h v)
  obtain ok s' where "UpdateReadingValue h v s = (ok, s')" by (metis prod.exhaust)
  then show ?thesis using set_value_refines [OF assms(1)] Set_Value by simp
next
  case (Take_Raw m)
  obtain rs s' where "TakeRawCanFrames m s = (rs, s')" by (metis prod.exhaust)
  then show ?thesis using take_raw [OF assms(1)] Take_Raw by simp
next
  case (Take_Processed m)
  obtain rs s' where t: "TakeProcessedReadings m s = (rs, s')" by (metis prod.exhaust)
  show ?thesis using take_refines [OF assms(1) t] t Take_Processed by simp
next
  case Get_Dropped
  then show ?thesis using assms(1) by (simp add: GetDroppedRawCanFrameCount_def abs_frame_def)
next
  case Mark_Updated
  then show ?thesis using marks_refine [OF assms(1)] by simp
next
  case Clear_Processed
  then show ?thesis using marks_refine [OF assms(1)] by simp
next
  case Clear_All
  then show ?thesis using clear_refines [OF assms(1)] by simp
qed (use assms(1) in \<open>simp_all add: queries_refine [OF assms(1)] snapshot_refines [OF assms(1)]\<close>)

lemma frame_run_refines:
  assumes "frame_wf n s" "list_all call_ok calls" "run_calls (frame_do n) calls s = (answers, s')"
  shows "run_calls (spec_call n) calls (abs_frame s) = (answers, abs_frame s') \<and> frame_wf n s'"
  using assms
proof (induction calls arbitrary: s answers)
  case (Cons c calls)
  define s1 where "s1 = snd (frame_do n c s)"
  note r = frame_do_refines [OF Cons.prems(1), of c, folded s1_def]
  from Cons.prems(2,3) r show ?case using Cons.IH [of s1]
    by (auto simp: s1_def split: prod.splits)
qed simp

definition spec_new :: readings_spec where
  "spec_new = \<lparr>rs_entries = [], rs_queue = [], rs_dropped = 0\<rparr>"

lemma new_frame: "frame_wf n SensorReadingsFrame_new" "abs_frame SensorReadingsFrame_new = spec_new"
  by (simp_all add: frame_wf_def SensorReadingsFrame_new_def sensors_ok_def index_of_def abs_frame_def ring_def spec_new_def)

text \<open>
  C12. The readings frame implements a list of sensors with their readings and a bounded queue: for every sequence of
  valid configurations, commits, value updates, lookups, snapshots, takes and clears, its answers are those of the
  specification, in which a sensor has its latest and its processed reading, a mark that the processed one was not
  taken yet, its value and its frame, and raw frames wait in a list; neither the packing of records into flags, the
  sorted index, the frame store nor the ring can be seen.
\<close>

theorem frame_refines:
  assumes "list_all call_ok calls" "run_calls (frame_do n) calls SensorReadingsFrame_new = (answers, s)"
  shows "run_calls (spec_call n) calls spec_new = (answers, abs_frame s)"
  using frame_run_refines [OF new_frame(1) assms] new_frame(2) by simp

section \<open>Raw frames\<close>

text \<open>The raw frames a call offers to the queue, and those it takes.\<close>

definition offered :: "frame_call \<Rightarrow> readings_spec \<Rightarrow> SensorReading list" where
  "offered c a = (case c of
     Commit_Reading r \<Rightarrow> (case entry_for (rd_id_hash r) a of
        Some e \<Rightarrow> (case (en_frame e, rd_can_frame r) of
           (Some _, Some f) \<Rightarrow> if rd_source r = RO_NONE then [] else [queued_reading (en_sensor e) (rd_timestamp r) f]
         | _ \<Rightarrow> [])
      | None \<Rightarrow> [])
   | _ \<Rightarrow> [])"

fun offered_run :: "nat \<Rightarrow> frame_call list \<Rightarrow> readings_spec \<Rightarrow> SensorReading list" where
  "offered_run n [] a = []"
| "offered_run n (c # cs) a = offered c a @ offered_run n cs (snd (spec_call n c a))"

fun taken_by :: "frame_call \<Rightarrow> frame_answer \<Rightarrow> SensorReading list" where
  "taken_by (Take_Raw m) (Readings rs) = rs"
| "taken_by _ _ = []"

definition keeps_queue :: "frame_call \<Rightarrow> bool" where
  "keeps_queue c \<longleftrightarrow> (case c of Configure_Frame _ \<Rightarrow> False | Clear_All \<Rightarrow> False | _ \<Rightarrow> True)"

lemma change_entry_queue [simp]:
  "rs_queue (change_entry h f a) = rs_queue a" "rs_dropped (change_entry h f a) = rs_dropped a"
  by (simp_all add: change_entry_def)

lemma spec_commit_queue:
  assumes "spec_commit n r a = (ok, a')" "0 < n"
  shows "rs_queue a' = rs_queue a @ (if length (rs_queue a) = n then [] else offered (Commit_Reading r) a)"
    "rs_dropped a' = rs_dropped a + (if length (rs_queue a) = n then word_of_nat (length (offered (Commit_Reading r) a)) else 0)"
  using assms by (auto simp: spec_commit_def offered_def spec_push_def split: option.splits if_splits)

lemma spec_call_queue:
  assumes "spec_call n c a = (ans, a')" "keeps_queue c" "0 < n" "length (rs_queue a) \<le> n"
  shows "subseq (taken_by c ans @ rs_queue a') (rs_queue a @ offered c a) \<and> length (rs_queue a') \<le> n \<and>
    (\<exists>d. rs_dropped a' = rs_dropped a + word_of_nat d \<and>
       length (rs_queue a) + length (offered c a) = length (taken_by c ans) + length (rs_queue a') + d)"
proof (cases "\<exists>r. c = Commit_Reading r")
  case True
  then obtain r ok where r: "c = Commit_Reading r" "spec_commit n r a = (ok, a')" "ans = Flag ok" using assms(1) by (auto simp: apfst_def map_prod_def split: prod.splits)
  note q = spec_commit_queue [OF r(2) assms(3)]
  have "length (offered (Commit_Reading r) a) \<le> 1" by (auto simp: offered_def split: option.split)
  then show ?thesis using q assms(4) by (cases "length (rs_queue a) = n") (auto simp: r subseq_append' intro: exI [of _ 0])
next
  case False
  have off: "offered c a = []" using False by (auto simp: offered_def split: frame_call.split)
  consider m where "c = Take_Raw m" | "rs_queue a' = rs_queue a" "rs_dropped a' = rs_dropped a" "taken_by c ans = []"
    using assms(1,2) False by (cases c) (auto simp: keeps_queue_def spec_set_value_def apfst_def map_prod_def split: prod.splits option.splits if_splits)
  then show ?thesis
  proof cases
    case 1
    then have "ans = Readings (take m (rs_queue a))" "a' = a\<lparr>rs_queue := drop m (rs_queue a)\<rparr>" using assms(1) by auto
    then show ?thesis using assms(4) off by (auto simp: 1 intro!: exI [of _ 0])
  next
    case 2
    then show ?thesis using assms(4) by (auto simp: off intro!: exI [of _ 0])
  qed
qed

lemma spec_run_queue:
  assumes "run_calls (spec_call n) calls a = (answers, a')" "list_all keeps_queue calls" "0 < n" "length (rs_queue a) \<le> n"
  shows "subseq (concat (map2 taken_by calls answers) @ rs_queue a') (rs_queue a @ offered_run n calls a) \<and> length (rs_queue a') \<le> n \<and>
    (\<exists>d. rs_dropped a' = rs_dropped a + word_of_nat d \<and>
       length (rs_queue a) + length (offered_run n calls a) = length (concat (map2 taken_by calls answers)) + length (rs_queue a') + d)"
  using assms
proof (induction calls arbitrary: a answers)
  case (Cons c calls)
  obtain ans a1 where c: "spec_call n c a = (ans, a1)" by (metis prod.exhaust)
  obtain rest where r: "run_calls (spec_call n) calls a1 = (rest, a')" "answers = ans # rest"
    using Cons.prems(1) c by (auto split: prod.splits)
  have one: "subseq (taken_by c ans @ rs_queue a1) (rs_queue a @ offered c a)" "length (rs_queue a1) \<le> n"
    using spec_call_queue [OF c] Cons.prems by auto
  obtain d1 where d1: "rs_dropped a1 = rs_dropped a + word_of_nat d1"
    "length (rs_queue a) + length (offered c a) = length (taken_by c ans) + length (rs_queue a1) + d1"
    using spec_call_queue [OF c] Cons.prems by auto
  have two: "subseq (concat (map2 taken_by calls rest) @ rs_queue a') (rs_queue a1 @ offered_run n calls a1)" "length (rs_queue a') \<le> n"
    using Cons.IH [OF r(1)] Cons.prems one(2) by auto
  obtain d2 where d2: "rs_dropped a' = rs_dropped a1 + word_of_nat d2"
    "length (rs_queue a1) + length (offered_run n calls a1) = length (concat (map2 taken_by calls rest)) + length (rs_queue a') + d2"
    using Cons.IH [OF r(1)] Cons.prems one(2) by auto
  have "subseq (taken_by c ans @ concat (map2 taken_by calls rest) @ rs_queue a') (taken_by c ans @ rs_queue a1 @ offered_run n calls a1)"
    using two(1) by (simp add: subseq_append')
  moreover have "subseq ((taken_by c ans @ rs_queue a1) @ offered_run n calls a1) ((rs_queue a @ offered c a) @ offered_run n calls a1)"
    by (rule list_emb_append_mono [OF one(1)]) simp
  ultimately have "subseq (taken_by c ans @ concat (map2 taken_by calls rest) @ rs_queue a') (rs_queue a @ offered c a @ offered_run n calls a1)"
    by (metis append.assoc subseq_order.trans)
  moreover have "rs_dropped a' = rs_dropped a + word_of_nat (d1 + d2)" using d1(1) d2(1) by (simp add: add.assoc)
  moreover have "length (rs_queue a) + length (offered c a @ offered_run n calls a1) =
    length (taken_by c ans @ concat (map2 taken_by calls rest)) + length (rs_queue a') + (d1 + d2)" using d1(2) d2(2) by simp
  ultimately show ?case using two(2) c by (auto simp: r(2))
qed (auto intro: exI [of _ 0])

text \<open>
  C13. Every raw CAN frame is accounted for: from any reachable frame, over any calls that do not clear it, the frames
  taken followed by those still queued are a subsequence of the frames queued before followed by those committed, in
  the order they came; exactly as many are missing as the drop counter counted, and never more than the queue's size
  wait.
\<close>

theorem raw_frames_accounted:
  assumes "list_all call_ok (before @ calls)" "list_all keeps_queue calls" "0 < n"
    and "run_calls (frame_do n) before SensorReadingsFrame_new = (answers0, s)" "run_calls (frame_do n) calls s = (answers, s')"
  defines "taken \<equiv> concat (map2 taken_by calls answers)" and "committed_frames \<equiv> offered_run n calls (abs_frame s)"
  shows "subseq (taken @ rs_queue (abs_frame s')) (rs_queue (abs_frame s) @ committed_frames) \<and> length (rs_queue (abs_frame s')) \<le> n \<and>
    (\<exists>d. GetDroppedRawCanFrameCount s' = GetDroppedRawCanFrameCount s + word_of_nat d \<and>
       length (rs_queue (abs_frame s)) + length committed_frames = length taken + length (rs_queue (abs_frame s')) + d)"
proof -
  have wf: "frame_wf n s" using frame_run_refines [OF new_frame(1) _ assms(4)] assms(1) by simp
  have r: "run_calls (spec_call n) calls (abs_frame s) = (answers, abs_frame s')" using frame_run_refines [OF wf _ assms(5)] assms(1) by simp
  have l: "length (rs_queue (abs_frame s)) \<le> n" using wfD(6,8) [OF wf] by (simp add: abs_frame_def split: if_splits)
  have d: "GetDroppedRawCanFrameCount t = rs_dropped (abs_frame t)" for t by (simp add: GetDroppedRawCanFrameCount_def abs_frame_def)
  show ?thesis unfolding taken_def committed_frames_def d by (rule spec_run_queue [OF r assms(2,3) l])
qed

section \<open>An instance\<close>

definition raw_sensor :: Sensor where "raw_sensor = \<lparr>sn_id_hash = 7, sn_is_enabled = True, sn_is_can_frame = True\<rparr>"
definition plain_sensor :: Sensor where "plain_sensor = \<lparr>sn_id_hash = 3, sn_is_enabled = True, sn_is_can_frame = False\<rparr>"

definition raw_commit :: "u32 \<Rightarrow> frame_call" where
  "raw_commit i = Commit_Reading ((SensorReading_of (Some raw_sensor))\<lparr>rd_source := RO_ISR, rd_status := RS_PROCESSED,
     rd_can_frame := Some (empty_frame\<lparr>frame_id := i\<rparr>)\<rparr>)"

definition value_commit :: frame_call where
  "value_commit = Commit_Reading ((SensorReading_of (Some plain_sensor))\<lparr>rd_source := RO_PROCESSING, rd_status := RS_PROCESSED, rd_value := Some 5\<rparr>)"

lemma instance_ok:
  "list_all call_ok ([Configure_Frame [raw_sensor, plain_sensor]] @ [raw_commit 1, raw_commit 2, raw_commit 3, Take_Raw 4])"
  "list_all call_ok [Configure_Frame [raw_sensor, plain_sensor], value_commit, Get_Value 3, Take_Processed 4, Take_Processed 4]"
  by (simp_all add: call_ok_def sensors_ok_def raw_commit_def value_commit_def raw_sensor_def plain_sensor_def)

theorem frame_refines_witness:
  "\<exists>answers s. run_calls (frame_do 2) [Configure_Frame [raw_sensor, plain_sensor], value_commit, Get_Value 3, Take_Processed 4, Take_Processed 4]
       SensorReadingsFrame_new = (answers, s) \<and>
     run_calls (spec_call 2) [Configure_Frame [raw_sensor, plain_sensor], value_commit, Get_Value 3, Take_Processed 4, Take_Processed 4] spec_new
       = (answers, abs_frame s) \<and> length answers = 5 \<and> answers ! 2 = Maybe_Value (Some 5) \<and> answers ! 4 = Readings []"
proof -
  let ?calls = "[Configure_Frame [raw_sensor, plain_sensor], value_commit, Get_Value 3, Take_Processed 4, Take_Processed 4]"
  obtain answers s where r: "run_calls (frame_do 2) ?calls SensorReadingsFrame_new = (answers, s)" by (metis prod.exhaust)
  note sp = frame_refines [OF instance_ok(2) r]
  have "length answers = 5 \<and> answers ! 2 = Maybe_Value (Some 5) \<and> answers ! 4 = Readings []"
    using sp by (auto simp: spec_new_def value_commit_def spec_commit_def entry_for_def new_entry_def en_hash_def change_entry_def commit_entry_def
        SensorReading_of_def raw_sensor_def plain_sensor_def kept_reading_def Let_def ToOptional_def isnan_def)
  then show ?thesis using r sp by blast
qed

theorem raw_frames_accounted_witness:
  "\<exists>answers0 s answers s' d. run_calls (frame_do 2) [Configure_Frame [raw_sensor, plain_sensor]] SensorReadingsFrame_new = (answers0, s) \<and>
     run_calls (frame_do 2) [raw_commit 1, raw_commit 2, raw_commit 3, Take_Raw 4] s = (answers, s') \<and>
     GetDroppedRawCanFrameCount s' = GetDroppedRawCanFrameCount s + word_of_nat d \<and>
     length (offered_run 2 [raw_commit 1, raw_commit 2, raw_commit 3, Take_Raw 4] (abs_frame s)) = 3"
proof -
  obtain answers0 s where r0: "run_calls (frame_do 2) [Configure_Frame [raw_sensor, plain_sensor]] SensorReadingsFrame_new = (answers0, s)"
    by (metis prod.exhaust)
  obtain answers s' where r: "run_calls (frame_do 2) [raw_commit 1, raw_commit 2, raw_commit 3, Take_Raw 4] s = (answers, s')" by (metis prod.exhaust)
  have "list_all keeps_queue [raw_commit 1, raw_commit 2, raw_commit 3, Take_Raw 4]" by (simp add: keeps_queue_def raw_commit_def)
  from raw_frames_accounted [OF instance_ok(1) this _ r0 r] obtain d where
    "GetDroppedRawCanFrameCount s' = GetDroppedRawCanFrameCount s + word_of_nat d" by auto
  moreover have "abs_frame s = \<lparr>rs_entries = map new_entry [raw_sensor, plain_sensor], rs_queue = [], rs_dropped = 0\<rparr>"
    using frame_refines [of "[Configure_Frame [raw_sensor, plain_sensor]]" 2 answers0 s] r0 instance_ok(1) by simp
  then have "length (offered_run 2 [raw_commit 1, raw_commit 2, raw_commit 3, Take_Raw 4] (abs_frame s)) = 3"
    by (simp add: offered_def raw_commit_def spec_commit_def entry_for_def new_entry_def en_hash_def change_entry_def commit_entry_def
        SensorReading_of_def raw_sensor_def plain_sensor_def kept_reading_def Let_def spec_push_def)
  ultimately show ?thesis using r0 r by blast
qed

end
