(* ===== verification/Spec2Isabelle.thy ===== *)
theory Spec2Isabelle
  imports Canbus_Ids Cdmp_Messages Cdmp_Device Cdmp_Transactions Cdmp_State_Props Cdmp_Network_Props
    Service_Base Cdmp_Command Cdmp_Heartbeat Smp_Can Smp_Transport Canbus_Detect Smp_Ble Canbus_Com
    Fs_Service Asset_Read Log_Supervisor Sensor_Frame_Props
begin

text \<open>
  Verification of the core of a runtime for CAN-connected units: the CAN bus, the CAN device management
  protocol (CDMP), the simple management protocol (SMP) over CAN and BLE, the file system service, the
  asset store, the log writer and the frame of sensor readings it logs.

  \<^bold>\<open>The program.\<close> A unit owns a CAN controller (\<open>src/subsys/canbus\<close>). CDMP (\<open>src/subsys/cdmp\<close>) finds the
  other units, claims an ID, exchanges heartbeats and commands, and replicates small state records. SMP
  packets (\<open>src/subsys/smp\<close>) travel over the same bus in frames addressed by CDMP ID; a unit with BLE is
  an access point, whose router takes packets from a central and hands them to its own SMP server or to
  the COM service (\<open>src/domain/canbus_com_domain\<close>), which forwards them over CAN. All services share a
  lifecycle (\<open>src/subsys/threading/service_base.h\<close>). Files are reached through the file system service
  (\<open>src/subsys/fs\<close>), which keeps to its mount point; fonts, images and scripts are files of an asset store
  (\<open>src/subsys/assets\<close>), read through a block cache and replaced by a staged write. The log writer
  (\<open>src/domain/logging_domain/services\<close>) writes the readings and the raw CAN frames of the readings frame
  (\<open>src/domain/sensor_domain/utilities\<close>), where processing commits them, to files at an interval, over a
  buffered stream; its supervisor starts and stops it on request and closes sessions that failed.

  \<^bold>\<open>The model.\<close> A class is a record, an operation a function from the state before to the result and the
  state after; what leaves a component (frames, callbacks, scheduled work) is appended to an outbox in
  the order of the calls. Work that runs under one lock or on one work queue is atomic, and any
  interleaving of such steps is a sequence of them: each component has a step relation over its
  operations, and its invariants hold in every state a sequence of steps reaches. Exceptions and error
  codes are values. Machine words keep their width (\<open>u8\<close>, \<open>u16\<close>, \<open>u32\<close>); times and sizes that the code
  keeps in 64 bits are unbounded. Code outside the repository is an argument: Zephyr's CAN driver, the
  answers of sends, MCUmgr's packet pool, the Bluetooth stack, CRC-32, random numbers and clocks, Zephyr's
  file system API and memory that may run out. What the code relies on of it is a named predicate
  (\<open>driver_ok\<close>, \<open>disk_ok\<close>, \<open>keeps_inside\<close>), with a concrete instance in the witnesses.

  \<^bold>\<open>The theories.\<close>
  \<^item> \<open>Rt_Prelude\<close>: words and bytes, results that may be errors, checked access to spans, sorted tables (a
    locale), reachable states and invariants (a locale), distances on an 8-bit counter.
  \<^item> \<open>Canbus_Ids\<close>: identifiers and filters (\<open>can_id.h\<close>, \<open>can_filter.h\<close>), the identifiers of CDMP
    (\<open>cdmp_can_id_manager.h\<close>) and SMP (\<open>smp_can_id_layout.h\<close>), and which identifiers each filter accepts.
  \<^item> \<open>Canbus_Bus\<close>, \<open>Canbus_Detect\<close>: \<open>canbus.h/.cpp\<close>. The registry of filters and handlers refines a set of
    registrations, registered filters never overlap, a frame reaches exactly the handlers that want it;
    configuration, and bitrate detection, which listens only and ends once the bus has traffic.
  \<^item> \<open>Cdmp_Messages\<close>: every frame format with its encoder and decoder; a locale of codecs gives the
    round trips.
  \<^item> \<open>Cdmp_Device\<close>: the device, its status machine, its identifier and message staggering.
  \<^item> \<open>Cdmp_Transactions\<close>: \<open>cdmp_transaction_service.cpp\<close>. A transaction's callback runs exactly once.
  \<^item> \<open>Cdmp_State\<close>, \<open>Cdmp_State_Inv\<close>, \<open>Cdmp_State_Props\<close>: \<open>cdmp_state_service.cpp\<close>. The tables of local
    and remote records refine maps, versions only get newer on their wrapping counter, no change goes
    unreported, and a replay with the next heartbeat brings a stale receiver back in step.
  \<^item> \<open>Cdmp_Network\<close>, \<open>Cdmp_Network_Props\<close>: \<open>cdmp_network_service.cpp\<close>. Events track the device table;
    discovery and the ID claim end; at most one of two units that know each other decides a claim.
  \<^item> \<open>Service_Base\<close>: the lifecycle over arbitrary work, as a locale the CDMP services interpret.
  \<^item> \<open>Cdmp_Command\<close>, \<open>Cdmp_Heartbeat\<close>: commands and their answers, and heartbeats from one unit into
    another's table; all four services settle under any sequence of lifecycle calls.
  \<^item> \<open>Smp_Can\<close>: the SMP header, framing, reassembly and pacing. \<open>Smp_Transport\<close>: \<open>smp_can_transport.cpp\<close>,
    with the sending task and concurrent reception from several sources.
  \<^item> \<open>Smp_Ble\<close>: \<open>smp_ble_router.cpp\<close>, and the contract of a forwarder as a locale.
  \<^item> \<open>Canbus_Com\<close>: \<open>canbus_com_service.cpp\<close> joins CDMP and SMP, and is an instance of that contract.
  \<^item> \<open>Fs_Path\<close>: bounded strings and paths (\<open>static_string.hpp\<close>, \<open>filesystem_path.hpp\<close>) and the checks of paths;
    the walks over a path are those over the list of its names. \<open>Fs_Service\<close>: \<open>fs_service.cpp\<close>. No sequence
    of operations leaves the mount point, and a directory is listed in exact pages.
  \<^item> \<open>Asset_Store\<close>, \<open>Asset_Props\<close>, \<open>Asset_Read\<close>: \<open>asset_store.cpp\<close>. The laws of a file system and a volume in
    memory that has them; a staged write is published whole or not at all, a read through the block cache
    gives the bytes of the file, and what is saved is what is loaded.
  \<^item> \<open>Fs_Stream\<close>: \<open>fs_service_stream_buf.cpp\<close>. A stream never loses output without saying so.
  \<^item> \<open>Log_Writer\<close>, \<open>Log_Session\<close>: \<open>log_writer_service.cpp\<close>, \<open>log_file_naming.h\<close>. Ticks keep their phase, the
    statuses published follow the sessions, and a stop leaves nothing open or armed.
  \<^item> \<open>Log_Supervisor\<close>: \<open>log_writer_supervisor.cpp\<close> over the contract of a writer, a locale that the model of the
    log writer interprets. No request and no failed session is forgotten, and a served stop holds.
  \<^item> \<open>Sensor_Frame\<close>, \<open>Sensor_Frame_Props\<close>: \<open>sensor_readings_frame.hpp\<close>. The slots, the sorted index and the ring
    refine a list of sensors with their readings and a bounded queue, and every raw frame is accounted for.
  \<^item> This theory: properties of the composition.

  \<^bold>\<open>Loops.\<close> Loops over data are structural or have a measure. Loops that wait for their environment (the
  search for a transaction number, the send and notification tasks, bitrate detection, the walk over a
  directory, appending to a staged file, writing to a stream) are partial functions whose value \<open>None\<close> is not returning; each
  has a theorem that it returns, but for the recursive deletion, of which only safety is shown. There is
  no fuel.

  \<^bold>\<open>Not modelled.\<close> Logging and printing; constructors' single-instance checks and destructors; threads and
  work queues beyond the atomicity above; the composition of the four CDMP services into one object with
  its thread (\<open>cdmp_service.cpp\<close>), whose parts are modelled; Bluetooth, flash, ADC, display, Lua and
  expression parsers, which wrap libraries that are not in the repository; and the application domains
  (sensor processing, scripts, configuration), the loggers and their measurement files, the index of the ends of log files,
  the SMP command groups and firmware update. The drain of raw frames before a session starts is not modelled
  either; it only discards.
\<close>

section \<open>CDMP on the CAN bus\<close>

definition bus_register :: "can_driver \<Rightarrow> nat \<Rightarrow> CanFilter \<Rightarrow> Canbus \<Rightarrow> int \<times> Canbus" where
  "bus_register drv handler f bus = RegisterFrameReceivedHandler drv f (Some handler) bus"

lemma receive_filter_wanted:
  assumes "IsValidBaseCanId base" and "wanted \<in> set (receive_ids base)"
  shows "Matches (GetReceiveFilter base wanted) wanted" "Matches (CanFilter_exact wanted) wanted"
proof -
  show exact: "Matches (CanFilter_exact wanted) wanted" by (simp add: Matches_def CanFilter_exact_def)
  show "Matches (GetReceiveFilter base wanted) wanted"
  proof (cases "base mod RECEIVE_BLOCK_SIZE = 0")
    case True
    then show ?thesis using receive_block [OF assms(1) True, of wanted] assms(2) by (auto simp: list_all_iff)
  qed (simp add: GetReceiveFilter_def exact)
qed

text \<open>Registering twice, with the second filter when the first overlaps, adds one handler or none.\<close>

lemma RegisterReceiveHandler_ok:
  assumes wf: "bus_wf s" and drv: "driver_ok drv" and out: "RegisterReceiveHandler (bus_register drv h) base wanted s = (k, s')"
  shows "bus_wf s' \<and> (if 0 < k then k \<notin> fst ` registrations s \<and>
      (\<exists>f \<in> {GetReceiveFilter base wanted, CanFilter_exact wanted}. registrations s' = insert (k, Normalized f) (registrations s))
    else registrations s' = registrations s)"
proof -
  obtain k1 s1 where one: "RegisterFrameReceivedHandler drv (GetReceiveFilter base wanted) (Some h) s = (k1, s1)" by fastforce
  note r1 = Register_ok [OF wf drv one]
  show ?thesis
  proof (cases "k1 = ERR_FILTER_OVERLAP \<and> \<not> IsExact (GetReceiveFilter base wanted)")
    case True
    then have two: "RegisterFrameReceivedHandler drv (CanFilter_exact wanted) (Some h) s1 = (k, s')"
      using out one by (simp add: RegisterReceiveHandler_def bus_register_def Let_def)
    have s1: "bus_wf s1" "registrations s1 = registrations s" using r1 True by (simp_all add: ERR_FILTER_OVERLAP_def)
    show ?thesis using Register_ok [OF s1(1) drv two] s1(2) by (auto split: if_splits)
  next
    case False
    then have "k = k1" "s' = s1" using out one by (auto simp: RegisterReceiveHandler_def bus_register_def Let_def)
    then show ?thesis using r1 by (auto split: if_splits)
  qed
qed

text \<open>
  C24. A CDMP service gets the frames it asked for and other handlers keep theirs: when the registration of
  a receive handler succeeds, with the shared filter or the exact one it falls back to, a frame with
  the wanted identifier that arrives afterwards is handed to the new handler exactly once, and to
  exactly the handlers it would have been handed to before.
\<close>

theorem cdmp_handler_receives:
  assumes "bus_reachable s" and "driver_ok drv" and "IsValidBaseCanId base" and "wanted \<in> set (receive_ids base)"
    and "RegisterReceiveHandler (bus_register drv h) base wanted s = (k, s')" and "0 < k"
    and "frame_id frame = can_id wanted" and "frame_is_extended frame = is_extended wanted" and "CanId_IsValid wanted"
  shows "k \<notin> wanted_by frame s \<and> (\<exists>hs. handler_calls (DispatchFrame (\<lambda>_ _ u. u) frame s') = handler_calls s' @ map (\<lambda>h. (h, frame)) hs \<and>
    distinct hs \<and> set hs = insert k (wanted_by frame s))"
proof -
  have wf: "bus_wf s" by (rule bus_reachable_wf [OF assms(1)])
  from RegisterReceiveHandler_ok [OF wf assms(2,5)] assms(6) obtain f where
    f: "f \<in> {GetReceiveFilter base wanted, CanFilter_exact wanted}" "registrations s' = insert (k, Normalized f) (registrations s)"
    and wf': "bus_wf s'" and new: "k \<notin> fst ` registrations s" by auto
  have w: "\<lparr>can_id = frame_id frame, is_extended = frame_is_extended frame\<rparr> = wanted" using assms(7,8) by simp
  have "Matches (Normalized f) wanted" using f(1) receive_filter_wanted [OF assms(3,4)] by (auto simp: Normalized_matches)
  then have set: "wanted_by frame s' = insert k (wanted_by frame s)" by (auto simp: wanted_by_def f(2) w)
  have "k \<notin> wanted_by frame s" using new by (force simp: wanted_by_def)
  moreover have "CanId_IsValid \<lparr>can_id = frame_id frame, is_extended = frame_is_extended frame\<rparr>" using assms(9) w by simp
  ultimately show ?thesis using DispatchFrame_calls [OF wf', of frame] unfolding set by blast
qed

theorem cdmp_handler_receives_witness:
  "\<exists>k s' frame. RegisterReceiveHandler (bus_register (demo_driver 6) 1) DEFAULT_BASE_CAN_ID (GetHeartbeatCanId DEFAULT_BASE_CAN_ID) (demo_bus 500000) = (k, s') \<and>
     (k, frame) \<in> set (handler_calls (DispatchFrame (\<lambda>_ _ u. u) frame s'))"
proof -
  let ?w = "GetHeartbeatCanId DEFAULT_BASE_CAN_ID"
  let ?frame = "\<lparr>frame_id = can_id ?w, frame_is_extended = is_extended ?w, frame_is_transmit = False, frame_is_can_fd = False,
     frame_is_bitrate_switch = False, frame_is_remote_request = False, frame_data = []\<rparr>"
  obtain k s' where r: "RegisterReceiveHandler (bus_register (demo_driver 6) 1) DEFAULT_BASE_CAN_ID ?w (demo_bus 500000) = (k, s')" by fastforce
  have "fst (RegisterReceiveHandler (bus_register (demo_driver 6) 1) DEFAULT_BASE_CAN_ID ?w (demo_bus 500000)) = 1" by code_simp
  then have k: "0 < k" using r by simp
  have v: "IsValidBaseCanId DEFAULT_BASE_CAN_ID" "?w \<in> set (receive_ids DEFAULT_BASE_CAN_ID)" "CanId_IsValid ?w" by code_simp+
  from cdmp_handler_receives [OF demo_bus_reachable demo_driver_ok v(1,2) r k _ _ v(3), of ?frame]
  have "(k, ?frame) \<in> set (handler_calls (DispatchFrame (\<lambda>_ _ u. u) ?frame s'))" by auto
  then show ?thesis using r by blast
qed

section \<open>A request from one unit to another\<close>

text \<open>
  C14. An SMP request that one unit forwards to another is served there: the sender's COM service, in any
  state it can reach, takes the packet for a reachable unit; once its send task has run until nothing
  is waiting, the frames it sent all pass the filter of the target and no filter of another address;
  and when they arrive, in order and in time, between any frames of other units, at a unit with a free
  slot, its transport hands on the packet exactly once, unchanged.
\<close>

theorem forwarded_request_delivered:
  assumes "com_reachable cfg c" and "sc_burst_frames cfg \<noteq> 0" and "IsReachable c t" and "packets_waiting (cm_transport c) = 0"
    and "Com_Forward t p c = (ok, c')" and "send_runs cfg fd (GetAddress c) (cm_transport c') u" and "packets_waiting u = 0"
    and "transport_reachable cfg' r" and "sc_burst_frames cfg' \<noteq> 0" and "slot_of (GetAddress c) r = None" and "FindRxSlot 0 r \<noteq> None"
    and "smp_packet p" and "deliverable p (st_has_sink r)" and "length p \<le> length buffer" and "is_from (GetAddress c) first"
    and "list_all2 (carries fd) (new_frames (cm_transport c) u)
      (map (\<lambda>(_, _, frame). frame) (filter (\<lambda>(_, _, frame). is_from (GetAddress c) frame) ((now, Some buffer, first) # rest)))"
    and "timely (sc_rx_timeout_ms cfg') (GetAddress c) now rest"
  shows "ok \<and> list_all (\<lambda>(i, _). \<forall>a. Matches (target_filter (st_base (cm_transport c)) a) i \<longleftrightarrow> a = t) (new_frames (cm_transport c) u) \<and>
    deliveries (GetAddress c) (receive ((now, Some buffer, first) # rest) r) = deliveries (GetAddress c) r @ [p]"
proof -
  let ?a = "GetAddress c" and ?base = "st_base (cm_transport c)"
  have wf: "com_wf cfg c" by (rule com_runs.reachable_inv [OF assms(1)])
  have p: "p \<noteq> []" using smp_packet_length [OF assms(12)] by auto
  have ok: "ok" and new: "new_frames (cm_transport c) u = tagged ?base ?a t (frames_of (SmpCanFramer_new p fd))"
    using forwarded_frames [OF wf assms(2,3) p assms(4-7)] by simp_all
  have base: "IsValidBase ?base" and a: "IsValidAddress ?a"
    using wf assms(3) by (auto simp: com_wf_def transport_wf_def GetAddress_def IsReachable_def Let_def)
  have "frames_from ?a ((now, Some buffer, first) # rest) = map (Pair fd) (frames_of (SmpCanFramer_new p fd))"
    using carried_frames [OF assms(16) [unfolded new]] by (simp add: frames_from_def comp_def case_prod_unfold)
  from receive_packet [OF _ a assms(10-15) this assms(17)] transport_reachable_wf [OF assms(8,9)]
  have "deliveries ?a (receive ((now, Some buffer, first) # rest) r) = deliveries ?a r @ [p]" by (simp add: transport_wf_def)
  moreover have "Matches (target_filter ?base b) (Extended (MakeId ?base t ?a)) \<longleftrightarrow> b = t" for b
  proof -
    have "Contains ?base (MakeId ?base t ?a)" "GetTarget (MakeId ?base t ?a) = t" by (rule smp_id_unpack [OF base])+
    moreover then have "MakeId ?base t ?a AND NOT ID_MASK = 0" by (simp add: Contains_def)
    ultimately show ?thesis
      using target_filter_iff [OF base, of "MakeId ?base t ?a" b] by (auto simp: target_filter_def Matches_def Extended_def)
  qed
  ultimately show ?thesis using ok by (auto simp: new tagged_def list_all_iff)
qed

definition demo_sender :: CanbusComService where
  "demo_sender = OnCdmpStatusChanged (\<lambda>_. 3) ONLINE (demo_com\<lparr>cm_network :=
     run_session_work 0 0 (WorkProcessFrame [MT_DISCOVERY_RESPONSE, 9, 1, 0, 0, 0, 0, 0]) (cm_network demo_com)\<rparr>)"

lemma demo_sender_com_reachable: "com_reachable demo_smp_config demo_sender"
proof -
  have b: "sc_burst_frames demo_smp_config \<noteq> 0" by (simp add: demo_smp_config_def)
  have "com_reachable demo_smp_config (demo_com\<lparr>cm_network :=
      run_session_work 0 0 (WorkProcessFrame [MT_DISCOVERY_RESPONSE, 9, 1, 0, 0, 0, 0, 0]) (cm_network demo_com)\<rparr>)"
    by (rule reachable.move [OF demo_com_reachable]) (simp add: b com_step.network network_step.call network_call.session_work)
  then show ?thesis unfolding demo_sender_def by (rule reachable.move) (simp add: b com_step.status)
qed

definition demo_forwarded :: CanbusComService where
  "demo_forwarded = snd (Com_Forward 9 demo_request demo_sender)"

lemma demo_forwarding:
  "IsReachable demo_sender 9" "packets_waiting (cm_transport demo_sender) = 0" "GetAddress demo_sender = 5"
  "fst (Com_Forward 9 demo_request demo_sender)" "st_address (cm_transport demo_forwarded) = 5" "st_canbus (cm_transport demo_forwarded) = Some 1"
  "st_tx_packet (cm_transport demo_forwarded) = None" "st_tx_queue (cm_transport demo_forwarded) = [(9, demo_request)]"
  "st_pacer_frame_time_ns (cm_transport demo_forwarded) = 0" "st_bus_share_percent (cm_transport demo_forwarded) = 25"
  by code_simp+

lemma demo_frame_time: "GetFrameTimeNs True 500000 2000000 = 470000"
  by (simp add: GetFrameTimeNs_def CAN_FD_NOMINAL_BIT_TIMES_def CAN_FD_DATA_BIT_TIMES_def NANOS_PER_SECOND_def)

lemma demo_run:
  "\<exists>u. ProcessTx demo_smp_config 0 True 500000 2000000 (\<lambda>_. SEND_OK) (cm_transport demo_forwarded) = Some (Inr (None, u)) \<and> packets_waiting u = 0"
proof -
  define pacer where "pacer = \<lparr>pa_rate = 25000, pa_frame_cost = 47000000, pa_capacity = 376000000, pa_credit = 376000000, pa_last_update_us = 0\<rparr>"
  define s where "s = (cm_transport demo_forwarded)\<lparr>st_pacer_frame_time_ns := 470000, st_pacer := pacer\<rparr>"
  have "ProcessTx demo_smp_config 0 True 500000 2000000 (\<lambda>_. SEND_OK) (cm_transport demo_forwarded) =
      map_option Inr (tx_loop demo_smp_config (\<lambda>_. SEND_OK) True 5 0 s)"
    using demo_forwarding(5,6,9,10)
    by (simp add: ProcessTx_def demo_frame_time SmpCanPacer_new_def Pacer_Reset_def Pacer_Update_def s_def pacer_def demo_smp_config_def Let_def)
  moreover have "\<exists>u. tx_loop demo_smp_config (\<lambda>_. SEND_OK) True 5 0 s = Some (None, u) \<and> packets_waiting u = 0"
    using demo_forwarding(7,8)
    by (subst tx_loop.simps, subst tx_loop.simps)
      (simp add: next_packet_def s_def pacer_def CanSend_def frame_sent_def Let_def put_def IsDone_def Framer_Advance_def
        SmpCanFramer_new_def Framer_data_size_def frame_sizes demo_request_def packets_waiting_def)
  ultimately show ?thesis by auto
qed

theorem forwarded_request_delivered_witness:
  "\<exists>u frame. send_runs demo_smp_config True 5 (cm_transport demo_forwarded) u \<and>
     new_frames (cm_transport demo_sender) u = [(Extended 0x1FF00905, frame_data frame)] \<and>
     deliveries 5 (receive [(0, Some (replicate 32 0), frame)] (Transport_new demo_smp_config)) = [demo_request]"
proof -
  let ?r = "Transport_new demo_smp_config"
  note fw = demo_forwarding
  have b: "sc_burst_frames demo_smp_config \<noteq> 0" by (simp add: demo_smp_config_def)
  obtain u where u: "ProcessTx demo_smp_config 0 True 500000 2000000 (\<lambda>_. SEND_OK) (cm_transport demo_forwarded) = Some (Inr (None, u))"
    "packets_waiting u = 0" using demo_run by blast
  have runs: "send_runs demo_smp_config True (GetAddress demo_sender) (cm_transport demo_forwarded) u"
    by (rule send_runs.run [OF _ _ _ _ u(1) send_runs.finished]) (simp_all add: fw demo_frame_time)
  have cf: "Com_Forward 9 demo_request demo_sender = (True, demo_forwarded)"
    using fw(4) by (simp add: demo_forwarded_def prod_eq_iff)
  have ne: "demo_request \<noteq> []" by (simp add: demo_request_def)
  have "length (frames_of (SmpCanFramer_new demo_request True)) = 1"
    using length_frames_of [of "SmpCanFramer_new demo_request True"]
    by (simp add: SmpCanFramer_new_def GetFrameCount_def demo_request_def frame_sizes)
  then obtain f where f: "frames_of (SmpCanFramer_new demo_request True) = [f]" by (auto simp: length_Suc_conv)
  have base: "st_base (cm_transport demo_sender) = SMP_DEFAULT_BASE" by code_simp
  have i: "MakeId SMP_DEFAULT_BASE 9 5 = 0x1FF00905" by code_simp
  have new: "new_frames (cm_transport demo_sender) u = [(Extended 0x1FF00905, f)]"
    using forwarded_frames [OF com_runs.reachable_inv [OF demo_sender_com_reachable] b fw(1) ne fw(2) cf runs u(2)]
    by (simp add: tagged_def f base i fw(3))
  define frame where "frame = (demo_frame 0x1FF00905 f)\<lparr>frame_is_can_fd := True\<rparr>"
  have frame: "is_from 5 frame" "carries True (Extended 0x1FF00905, f) frame" "frame_data frame = f"
    by (simp_all add: frame_def is_from_def demo_frame_def GetSource_def carries_def Extended_def)
  have slots: "slot_of 5 ?r = None" "FindRxSlot 0 ?r \<noteq> None" "deliveries 5 ?r = []" by code_simp+
  have "deliverable demo_request (st_has_sink ?r)"
    by (simp add: deliverable_def SmpHeader_Parse_def demo_request_def SMP_HEADER_SIZE_def IsRequest_def OP_WRITE_def)
  then have "deliveries (GetAddress demo_sender) (receive [(0, Some (replicate 32 0), frame)] ?r) = deliveries (GetAddress demo_sender) ?r @ [demo_request]"
    using forwarded_request_delivered [OF demo_sender_com_reachable b fw(1,2) cf runs u(2) transport_reachable.start b, of "replicate 32 0" frame 0 "[]"]
      slots frame new demo_request_packet by (simp add: fw(3) demo_request_def)
  then show ?thesis using runs new frame(3) slots(3) by (auto simp: fw(3))
qed

end
